(* ===== verification/Etle_Prelude.thy ===== *)
theory Etle_Prelude
  imports Main "HOL-Library.Word" "HOL-Library.Sublist"
begin

text \<open>
  Shared vocabulary of the development: bytes and fixed-width integers, the little- and
  big-endian encodings that Rust's \<open>to_le_bytes\<close> and \<open>to_be_bytes\<close> produce, fixed-size byte
  arrays, decimal and hexadecimal printing as \<open>format!\<close> does it, results as sums with the
  propagation of \<open>?\<close>, and the generic list lemmas that several components use.

  Conventions. A Rust \<open>u16\<close>, \<open>u32\<close>, \<open>u64\<close> is a word of that width; a \<open>usize\<close> that counts or
  measures something in memory is a \<open>nat\<close>, with the conversion \<open>as u64\<close> written \<open>of_nat\<close> (it
  wraps at the width). A \<open>[u8; 32]\<close> is a 256-bit word and a \<open>[u8; 24]\<close> a 192-bit word, read
  most significant byte first, so that the length is part of the type and the derived order of
  the array is the order of the word. A Rust \<open>String\<close> is its UTF-8 bytes, a list of \<open>char\<close>.
\<close>

named_theorems bytes_simps \<open>lengths and round trips of byte encodings\<close>
named_theorems io_simps \<open>unfolding of the I/O monad and the system calls\<close>
named_theorems bytes_inj \<open>injectivity of byte encodings\<close>

type_synonym byte = "8 word"
type_synonym bytes = "byte list"
type_synonym u8 = "8 word"
type_synonym u16 = "16 word"
type_synonym u32 = "32 word"
type_synonym u64 = "64 word"
type_synonym arr32 = "256 word"
type_synonym arr24 = "192 word"

section \<open>Results\<close>

text \<open>\<open>Result<T, E>\<close> is a sum with the error on the left; \<open>and_then\<close> is the propagation of \<open>?\<close>.\<close>

type_synonym ('e, 'a) result = "'e + 'a"

definition and_then :: "('e, 'a) result \<Rightarrow> ('a \<Rightarrow> ('e, 'b) result) \<Rightarrow> ('e, 'b) result" where
  "and_then r f = (case r of Inl e \<Rightarrow> Inl e | Inr x \<Rightarrow> f x)"

definition map_err :: "('e \<Rightarrow> 'f) \<Rightarrow> ('e, 'a) result \<Rightarrow> ('f, 'a) result" where
  "map_err g r = (case r of Inl e \<Rightarrow> Inl (g e) | Inr x \<Rightarrow> Inr x)"

definition ok_or :: "'e \<Rightarrow> 'a option \<Rightarrow> ('e, 'a) result" where
  "ok_or e x = (case x of None \<Rightarrow> Inl e | Some y \<Rightarrow> Inr y)"

lemma and_then_simps [simp]:
  "and_then (Inl e) f = Inl e"
  "and_then (Inr x) f = f x"
  by (simp_all add: and_then_def)

lemma and_then_Inr: "and_then r f = Inr y \<longleftrightarrow> (\<exists>x. r = Inr x \<and> f x = Inr y)"
  by (cases r) auto

lemma map_err_simps [simp]:
  "map_err g (Inl e) = Inl (g e)"
  "map_err g (Inr x) = Inr x"
  by (simp_all add: map_err_def)

lemma map_err_Inr [simp]: "map_err g r = Inr x \<longleftrightarrow> r = Inr x"
  by (cases r) auto

lemma ok_or_simps [simp]:
  "ok_or e None = Inl e"
  "ok_or e (Some x) = Inr x"
  by (simp_all add: ok_or_def)

lemma ok_or_Inr [simp]: "ok_or e x = Inr y \<longleftrightarrow> x = Some y"
  by (cases x) auto

text \<open>Running a fallible body over a list, stopping at the first error: \<open>for x in xs { ...? }\<close>.\<close>

fun try_map :: "('a \<Rightarrow> ('e, 'b) result) \<Rightarrow> 'a list \<Rightarrow> ('e, 'b list) result" where
  "try_map f [] = Inr []"
| "try_map f (x # xs) = and_then (f x) (\<lambda>y. and_then (try_map f xs) (\<lambda>ys. Inr (y # ys)))"

lemma try_map_InrI: "(\<And>x. x \<in> set xs \<Longrightarrow> f x = Inr (g x)) \<Longrightarrow> try_map f xs = Inr (map g xs)"
  by (induction xs) auto

lemma try_map_InrD:
  "try_map f xs = Inr ys \<Longrightarrow> list_all2 (\<lambda>x y. f x = Inr y) xs ys"
  by (induction xs arbitrary: ys) (auto simp: and_then_Inr)

section \<open>Integers as byte strings\<close>

primrec le_bytes :: "nat \<Rightarrow> nat \<Rightarrow> bytes" where
  "le_bytes 0 n = []"
| "le_bytes (Suc k) n = of_nat (n mod 256) # le_bytes k (n div 256)"

fun le_nat :: "bytes \<Rightarrow> nat" where
  "le_nat [] = 0"
| "le_nat (b # bs) = unat b + 256 * le_nat bs"

lemma length_le_bytes [simp, bytes_simps]: "length (le_bytes k n) = k"
  by (induction k arbitrary: n) auto

lemma unat_byte_mod [simp]: "unat (of_nat (n mod 256) :: byte) = n mod 256"
  by (simp add: unat_of_nat)

lemma le_nat_le_bytes [simp, bytes_simps]: "le_nat (le_bytes k n) = n mod 256 ^ k"
proof (induction k arbitrary: n)
  case 0
  show ?case by simp
next
  case (Suc k)
  have "n mod 256 ^ Suc k = n mod 256 + 256 * (n div 256 mod 256 ^ k)"
    by (simp add: mod_mult2_eq)
  then show ?case by (simp add: Suc)
qed

lemma unat_byte_bound: "unat (b :: byte) < 256"
  using unsigned_less [of b] by simp

lemma le_nat_bound: "le_nat bs < 256 ^ length bs"
proof (induction bs)
  case Nil
  show ?case by simp
next
  case (Cons b bs)
  with unat_byte_bound [of b] show ?case by simp
qed

lemma le_bytes_le_nat [simp, bytes_simps]: "le_bytes (length bs) (le_nat bs) = bs"
proof (induction bs)
  case Nil
  show ?case by simp
next
  case (Cons b bs)
  have b: "unat b < 256"
    by (rule unat_byte_bound)
  then have "(unat b + 256 * le_nat bs) div 256 = le_nat bs"
    by simp
  moreover have "(of_nat ((unat b + 256 * le_nat bs) mod 256) :: byte) = b"
    using b by simp
  ultimately show ?case using Cons by simp
qed

definition to_le_bytes :: "'a::len word \<Rightarrow> bytes" where
  "to_le_bytes w = le_bytes (LENGTH('a) div 8) (unat w)"

definition to_be_bytes :: "'a::len word \<Rightarrow> bytes" where
  "to_be_bytes w = rev (le_bytes (LENGTH('a) div 8) (unat w))"

definition from_be_bytes :: "bytes \<Rightarrow> 'a::len word" where
  "from_be_bytes bs = of_nat (le_nat (rev bs))"

lemma length_to_le_bytes [simp, bytes_simps]:
  "length (to_le_bytes (w :: 'a::len word)) = LENGTH('a) div 8"
  by (simp add: to_le_bytes_def)

lemma length_to_be_bytes [simp, bytes_simps]:
  "length (to_be_bytes (w :: 'a::len word)) = LENGTH('a) div 8"
  by (simp add: to_be_bytes_def)

lemma unat_mod_bytes:
  assumes "8 dvd LENGTH('a::len)"
  shows "unat (w :: 'a word) mod 256 ^ (LENGTH('a) div 8) = unat w"
proof -
  have "(256 :: nat) ^ (LENGTH('a) div 8) = (2 ^ 8) ^ (LENGTH('a) div 8)"
    by simp
  also have "\<dots> = 2 ^ LENGTH('a)"
    using assms by (simp only: power_mult [symmetric] dvd_mult_div_cancel)
  finally show ?thesis
    using unsigned_less [of w] by simp
qed

lemma le_nat_to_le_bytes [bytes_simps]:
  "8 dvd LENGTH('a::len) \<Longrightarrow> le_nat (to_le_bytes (w :: 'a word)) = unat w"
  by (simp add: to_le_bytes_def unat_mod_bytes)

lemma from_be_bytes_to_be_bytes [bytes_simps]:
  "8 dvd LENGTH('a::len) \<Longrightarrow> from_be_bytes (to_be_bytes (w :: 'a word)) = w"
  by (simp add: to_be_bytes_def from_be_bytes_def unat_mod_bytes)

lemma to_be_bytes_from_be_bytes [bytes_simps]:
  assumes "8 dvd LENGTH('a::len)" and "length bs = LENGTH('a) div 8"
  shows "to_be_bytes (from_be_bytes bs :: 'a word) = bs"
proof -
  have "(256 :: nat) ^ (LENGTH('a) div 8) = (2 ^ 8) ^ (LENGTH('a) div 8)"
    by simp
  also have "\<dots> = 2 ^ LENGTH('a)"
    using assms(1) by (simp only: power_mult [symmetric] dvd_mult_div_cancel)
  finally have "le_nat (rev bs) < 2 ^ LENGTH('a)"
    using le_nat_bound [of "rev bs"] assms(2) by simp
  then have "unat (of_nat (le_nat (rev bs)) :: 'a word) = le_nat (rev bs)"
    by (simp add: unat_of_nat)
  moreover have "le_bytes (LENGTH('a) div 8) (le_nat (rev bs)) = rev bs"
    using le_bytes_le_nat [of "rev bs"] assms(2) by simp
  ultimately show ?thesis
    by (simp add: to_be_bytes_def from_be_bytes_def)
qed

lemma to_le_bytes_inj [bytes_inj]:
  "8 dvd LENGTH('a::len) \<Longrightarrow> to_le_bytes (v :: 'a word) = to_le_bytes w \<longleftrightarrow> v = w"
  using le_nat_to_le_bytes by (metis word_unat_eq_iff)

lemma to_be_bytes_inj [bytes_inj]:
  "8 dvd LENGTH('a::len) \<Longrightarrow> to_be_bytes (v :: 'a word) = to_be_bytes w \<longleftrightarrow> v = w"
  using from_be_bytes_to_be_bytes by metis

text \<open>The wire format reads a four-byte length as a number.\<close>

definition be_nat :: "bytes \<Rightarrow> nat" where
  "be_nat bs = le_nat (rev bs)"

lemma unat_from_be_bytes4: "length bs = 4 \<Longrightarrow> unat (from_be_bytes bs :: u32) = be_nat bs"
  using le_nat_bound [of "rev bs"]
  by (simp add: from_be_bytes_def be_nat_def unat_of_nat)

lemma unat_u32_bound: "unat (w :: u32) < 2 ^ 32"
  using unsigned_less [of w] by simp

lemma unat_u64_bound: "unat (w :: u64) < 2 ^ 64"
  using unsigned_less [of w] by simp

section \<open>Fixed-size arrays\<close>

text \<open>\<open>as_bytes\<close> of a \<open>[u8; N]\<close> and \<open>try_into\<close> from a slice.\<close>

definition arr32_bytes :: "arr32 \<Rightarrow> bytes" where
  "arr32_bytes a = to_be_bytes a"

definition arr24_bytes :: "arr24 \<Rightarrow> bytes" where
  "arr24_bytes a = to_be_bytes a"

definition arr32_try_from :: "bytes \<Rightarrow> arr32 option" where
  "arr32_try_from bs = (if length bs = 32 then Some (from_be_bytes bs) else None)"

lemma length_arr_bytes [simp, bytes_simps]:
  "length (arr32_bytes a) = 32" "length (arr24_bytes n) = 24"
  by (simp_all add: arr32_bytes_def arr24_bytes_def)

lemma arr_bytes_inj [simp, bytes_inj]:
  "arr32_bytes a = arr32_bytes b \<longleftrightarrow> a = b" "arr24_bytes m = arr24_bytes n \<longleftrightarrow> m = n"
  by (simp_all add: arr32_bytes_def arr24_bytes_def to_be_bytes_inj)

lemma arr32_try_from_bytes [simp, bytes_simps]: "arr32_try_from (arr32_bytes a) = Some a"
  by (simp add: arr32_try_from_def) (simp add: arr32_bytes_def from_be_bytes_to_be_bytes)

lemma arr32_try_from_Some: "arr32_try_from bs = Some a \<longleftrightarrow> bs = arr32_bytes a"
  by (auto simp: arr32_try_from_def arr32_bytes_def to_be_bytes_from_be_bytes
      from_be_bytes_to_be_bytes)

section \<open>Strings\<close>

definition byte_of_char :: "char \<Rightarrow> byte" where
  "byte_of_char c = of_nat (of_char c)"

definition char_of_byte :: "byte \<Rightarrow> char" where
  "char_of_byte b = char_of (unat b)"

definition str_bytes :: "string \<Rightarrow> bytes" where
  "str_bytes s = map byte_of_char s"

lemma unat_byte_of_char [simp]: "unat (byte_of_char c) = of_char c"
  by (simp add: byte_of_char_def unat_of_nat)

lemma char_of_byte_of_char [simp]: "char_of_byte (byte_of_char c) = c"
  by (simp add: char_of_byte_def)

lemma byte_of_char_of_byte [simp]: "byte_of_char (char_of_byte b) = b"
  using unat_byte_bound [of b] by (simp add: char_of_byte_def byte_of_char_def)

lemma byte_of_char_inj [simp, bytes_inj]: "byte_of_char c = byte_of_char d \<longleftrightarrow> c = d"
  by (metis char_of_byte_of_char)

lemma length_str_bytes [simp, bytes_simps]: "length (str_bytes s) = length s"
  by (simp add: str_bytes_def)

lemma str_bytes_inj [simp, bytes_inj]: "str_bytes s = str_bytes t \<longleftrightarrow> s = t"
  by (auto simp: str_bytes_def inj_map_eq_map inj_def)

subsection \<open>Decimal numbers\<close>

text \<open>Printing of an unsigned integer by \<open>{}\<close> and, padded with zeros to six places, \<open>{:06}\<close>.\<close>

definition digit_char :: "nat \<Rightarrow> char" where
  "digit_char d = char_of (48 + d)"

fun show_nat :: "nat \<Rightarrow> string" where
  "show_nat n = (if n < 10 then [digit_char n] else show_nat (n div 10) @ [digit_char (n mod 10)])"

declare show_nat.simps [simp del]

definition pad_left :: "nat \<Rightarrow> char \<Rightarrow> string \<Rightarrow> string" where
  "pad_left k c s = replicate (k - length s) c @ s"

definition show_06 :: "nat \<Rightarrow> string" where
  "show_06 n = pad_left 6 (digit_char 0) (show_nat n)"

text \<open>Reading the digits back shows that printing is injective.\<close>

definition digits_nat :: "string \<Rightarrow> nat" where
  "digits_nat s = foldl (\<lambda>n c. 10 * n + (of_char c - 48)) 0 s"

lemma of_digit_char [simp]: "d < 10 \<Longrightarrow> (of_char (digit_char d) :: nat) = 48 + d"
  by (simp add: digit_char_def)

lemma digits_nat_show_nat [simp]: "digits_nat (show_nat n) = n"
proof (induction n rule: show_nat.induct)
  case (1 n)
  show ?case
  proof (cases "n < 10")
    case True
    then show ?thesis by (simp add: show_nat.simps [of n] digits_nat_def)
  next
    case False
    then have "digits_nat (show_nat (n div 10)) = n div 10"
      using 1 by simp
    with False show ?thesis
      by (simp add: show_nat.simps [of n] digits_nat_def)
  qed
qed

lemma digits_nat_zeros: "digits_nat (replicate k (digit_char 0) @ s) = digits_nat s"
  by (induction k) (simp_all add: digits_nat_def)

lemma show_nat_inj [simp]: "show_nat m = show_nat n \<longleftrightarrow> m = n"
  by (metis digits_nat_show_nat)

lemma show_06_inj [simp]: "show_06 m = show_06 n \<longleftrightarrow> m = n"
  by (metis digits_nat_show_nat digits_nat_zeros pad_left_def show_06_def)

lemma show_nat_digits: "c \<in> set (show_nat n) \<Longrightarrow> \<exists>d < 10. c = digit_char d"
proof (induction n rule: show_nat.induct)
  case (1 n)
  show ?case
  proof (cases "n < 10")
    case True
    with "1.prems" show ?thesis by (auto simp: show_nat.simps [of n])
  next
    case False
    with 1 show ?thesis
      by (auto simp: show_nat.simps [of n] intro: exI [of _ "n mod 10"])
  qed
qed

lemma show_06_digits: "c \<in> set (show_06 n) \<Longrightarrow> \<exists>d < 10. c = digit_char d"
  using show_nat_digits [of c n]
  by (auto simp: show_06_def pad_left_def intro: exI [of _ 0])

subsection \<open>Hexadecimal bytes\<close>

text \<open>\<open>{byte:02x}\<close>: two lowercase digits per byte.\<close>

definition hex_digit :: "nat \<Rightarrow> char" where
  "hex_digit d = (if d < 10 then char_of (48 + d) else char_of (87 + d))"

definition hex_byte :: "byte \<Rightarrow> string" where
  "hex_byte b = [hex_digit (unat b div 16), hex_digit (unat b mod 16)]"

definition hex_string :: "bytes \<Rightarrow> string" where
  "hex_string bs = concat (map hex_byte bs)"

lemma length_hex_string [simp, bytes_simps]: "length (hex_string bs) = 2 * length bs"
  by (induction bs) (simp_all add: hex_string_def hex_byte_def)

section \<open>Splitting concatenated encodings\<close>

text \<open>
  Encodings are concatenations; these rules split an equation between two of them at a field
  of known length, and a length-prefixed field at its prefix.
\<close>

lemma append_eq_same_len [bytes_inj]:
  "length a = length b \<Longrightarrow> a @ x = b @ y \<longleftrightarrow> a = b \<and> x = y"
  by simp

definition len_prefixed :: "bytes \<Rightarrow> bytes" where
  "len_prefixed bs = to_le_bytes (of_nat (length bs) :: u64) @ bs"

lemma of_nat_u64_inj:
  "m < 2 ^ 64 \<Longrightarrow> n < 2 ^ 64 \<Longrightarrow> (of_nat m :: u64) = of_nat n \<longleftrightarrow> m = n"
  by (simp add: word_unat_eq_iff unat_of_nat)

lemma len_prefixed_append_inj [bytes_inj]:
  assumes "length a < 2 ^ 64" and "length b < 2 ^ 64"
  shows "len_prefixed a @ x = len_prefixed b @ y \<longleftrightarrow> a = b \<and> x = y"
proof
  assume "len_prefixed a @ x = len_prefixed b @ y"
  then have "(of_nat (length a) :: u64) = of_nat (length b)" and ab: "a @ x = b @ y"
    by (simp_all add: len_prefixed_def append_eq_same_len to_le_bytes_inj)
  then have "length a = length b"
    using assms by (simp add: of_nat_u64_inj)
  with ab show "a = b \<and> x = y" by simp
qed simp

text \<open>A list of self-delimiting encodings whose number is known splits uniquely.\<close>

lemma concat_map_append_inj:
  assumes inj: "\<And>a b x y. a \<in> A \<Longrightarrow> b \<in> A \<Longrightarrow> f a @ x = f b @ y \<Longrightarrow> a = b \<and> x = y"
    and len: "length xs = length ys" and sets: "set xs \<subseteq> A" "set ys \<subseteq> A"
    and eq: "concat (map f xs) @ u = concat (map f ys) @ v"
  shows "xs = ys \<and> u = v"
  using len sets eq
proof (induction xs ys rule: list_induct2)
  case Nil
  then show ?case by simp
next
  case (Cons a xs b ys)
  then have "a = b \<and> concat (map f xs) @ u = concat (map f ys) @ v"
    using inj [of a b "concat (map f xs) @ u" "concat (map f ys) @ v"] by simp
  with Cons show ?case by simp
qed

end
