(* ===== verification/Etle_World.thy ===== *)
theory Etle_World
  imports Etle_Prelude "HOL-Library.AList"
begin

text \<open>
  The environment the program runs in, as far as its own logic depends on it: the file system
  that \<open>std::fs\<close> works on, the byte stream of the current connection, the random bytes of
  \<open>OsRng\<close>, the clock, and the failures the operating system may report. A computation of the
  program that does I/O is a function from the world to a result and the next world.

  Every system call first consults \<open>faults\<close>: an entry \<open>Some (e, k)\<close> makes that call fail with the
  error kind \<open>e\<close>, after \<open>k\<close> bytes (or directory entries) of its effect; an exhausted list means
  that no further call is made to fail from outside. A theorem about all worlds is therefore a
  theorem about every pattern of I/O failures.
\<close>

section \<open>The world\<close>

text \<open>\<open>std::io::ErrorKind\<close>, the kinds the program distinguishes and those the file system raises.\<close>

datatype io_error = NotFound | AlreadyExists | NotADirectory | IsADirectory | UnexpectedEof
  | ConnectionReset | ConnectionAborted | ConnectionRefused | BrokenPipe | NotConnected
  | InvalidData | OtherIo

datatype node = FileN bytes | DirN

type_synonym path = "string list"

record world =
  nodes :: "(path \<times> node) list"
  faults :: "(io_error \<times> nat) option list"
  read_caps :: "nat list"
  rng :: "nat \<Rightarrow> byte"
  rng_pos :: nat
  clock :: "nat \<Rightarrow> nat"
  clock_pos :: nat
  pid :: nat
  conns :: "(io_error + bytes) list"
  inp :: bytes
  out :: bytes

type_synonym ('e, 'a) io = "world \<Rightarrow> ('e + 'a) \<times> world"

section \<open>Sequencing\<close>

definition returnE :: "'a \<Rightarrow> ('e, 'a) io" where
  "returnE x = (\<lambda>w. (Inr x, w))"

definition throwE :: "'e \<Rightarrow> ('e, 'a) io" where
  "throwE e = (\<lambda>w. (Inl e, w))"

definition bindE :: "('e, 'a) io \<Rightarrow> ('a \<Rightarrow> ('e, 'b) io) \<Rightarrow> ('e, 'b) io" where
  "bindE m f = (\<lambda>w. case m w of (Inl e, w') \<Rightarrow> (Inl e, w') | (Inr x, w') \<Rightarrow> f x w')"

definition liftE :: "('e, 'a) result \<Rightarrow> ('e, 'a) io" where
  "liftE r = (\<lambda>w. (r, w))"

text \<open>Conversion of the error by \<open>From\<close>, as \<open>?\<close> applies it.\<close>

definition intoE :: "('e \<Rightarrow> 'f) \<Rightarrow> ('e, 'a) io \<Rightarrow> ('f, 'a) io" where
  "intoE g m = (\<lambda>w. case m w of (r, w') \<Rightarrow> (map_err g r, w'))"

text \<open>The result as a value: \<open>match f() { Ok .. Err .. }\<close>, \<open>let Ok(..) = f() else\<close>, \<open>let _ = f()\<close>.\<close>

definition tryE :: "('e, 'a) io \<Rightarrow> ('f, ('e, 'a) result) io" where
  "tryE m = (\<lambda>w. case m w of (r, w') \<Rightarrow> (Inr r, w'))"

definition askE :: "(world \<Rightarrow> 'a) \<Rightarrow> ('e, 'a) io" where
  "askE f = (\<lambda>w. (Inr (f w), w))"

primrec forE :: "'a list \<Rightarrow> ('a \<Rightarrow> ('e, 'b) io) \<Rightarrow> ('e, unit) io" where
  "forE [] f = returnE ()"
| "forE (x # xs) f = bindE (f x) (\<lambda>_. forE xs f)"

primrec mapE :: "('a \<Rightarrow> ('e, 'b) io) \<Rightarrow> 'a list \<Rightarrow> ('e, 'b list) io" where
  "mapE f [] = returnE []"
| "mapE f (x # xs) = bindE (f x) (\<lambda>y. bindE (mapE f xs) (\<lambda>ys. returnE (y # ys)))"

lemma returnE_simp [simp]: "returnE x w = (Inr x, w)"
  by (simp add: returnE_def)

lemma throwE_simp [simp]: "throwE e w = (Inl e, w)"
  by (simp add: throwE_def)

lemma liftE_simp [simp]: "liftE r w = (r, w)"
  by (simp add: liftE_def)

lemma askE_simp [simp]: "askE f w = (Inr (f w), w)"
  by (simp add: askE_def)

lemma bindE_run [io_simps]:
  "bindE m f w = (case m w of (Inl e, w') \<Rightarrow> (Inl e, w') | (Inr x, w') \<Rightarrow> f x w')"
  by (simp add: bindE_def)

lemma bindE_ok [simp]: "m w = (Inr x, w') \<Longrightarrow> bindE m f w = f x w'"
  by (simp add: bindE_def)

lemma bindE_err [simp]: "m w = (Inl e, w') \<Longrightarrow> bindE m f w = (Inl e, w')"
  by (simp add: bindE_def)

lemma bindE_Inr: "bindE m f w = (Inr y, w'') \<longleftrightarrow> (\<exists>x w'. m w = (Inr x, w') \<and> f x w' = (Inr y, w''))"
  by (auto simp: bindE_def split: prod.splits sum.splits)

lemma bindE_Inl: "bindE m f w = (Inl e, w'') \<longleftrightarrow>
  m w = (Inl e, w'') \<or> (\<exists>x w'. m w = (Inr x, w') \<and> f x w' = (Inl e, w''))"
  by (auto simp: bindE_def split: prod.splits sum.splits)

lemma intoE_run [io_simps]: "intoE g m w = (case m w of (r, w') \<Rightarrow> (map_err g r, w'))"
  by (simp add: intoE_def)

lemma intoE_Inr [simp]: "intoE g m w = (Inr x, w') \<longleftrightarrow> m w = (Inr x, w')"
  by (auto simp: intoE_def split: prod.splits)

lemma intoE_Inl: "intoE g m w = (Inl f, w') \<longleftrightarrow> (\<exists>e. m w = (Inl e, w') \<and> f = g e)"
  by (auto simp: intoE_def map_err_def split: prod.splits sum.splits)

lemma tryE_run [io_simps]: "tryE m w = (case m w of (r, w') \<Rightarrow> (Inr r, w'))"
  by (simp add: tryE_def)

lemma tryE_total: "\<exists>x w'. tryE m w = (Inr x, w')"
  by (cases "m w") (simp add: tryE_def)

lemma snd_intoE [simp]: "snd (intoE g m w) = snd (m w)"
  by (simp add: intoE_def split: prod.splits)

lemma snd_tryE [simp]: "snd (tryE m w) = snd (m w)"
  by (simp add: tryE_def split: prod.splits)

section \<open>The file system\<close>

definition lookup :: "world \<Rightarrow> path \<Rightarrow> node option" where
  "lookup w p = map_of (nodes w) p"

definition set_node :: "path \<Rightarrow> node \<Rightarrow> world \<Rightarrow> world" where
  "set_node p n w = w\<lparr>nodes := AList.update p n (nodes w)\<rparr>"

definition del_node :: "path \<Rightarrow> world \<Rightarrow> world" where
  "del_node p w = w\<lparr>nodes := AList.delete p (nodes w)\<rparr>"

definition is_dir :: "world \<Rightarrow> path \<Rightarrow> bool" where
  "is_dir w p \<longleftrightarrow> p = [] \<or> lookup w p = Some DirN"

definition is_file :: "world \<Rightarrow> path \<Rightarrow> bool" where
  "is_file w p \<longleftrightarrow> (\<exists>bs. lookup w p = Some (FileN bs))"

definition exists_path :: "world \<Rightarrow> path \<Rightarrow> bool" where
  "exists_path w p \<longleftrightarrow> p = [] \<or> lookup w p \<noteq> None"

lemma is_file_code [code]:
  "is_file w p = (case lookup w p of Some (FileN bs) \<Rightarrow> True | _ \<Rightarrow> False)"
  by (auto simp: is_file_def split: option.splits node.splits)

lemma lookup_set_node [simp]: "lookup (set_node p n w) q = (if q = p then Some n else lookup w q)"
  by (simp add: lookup_def set_node_def update_conv')

lemma lookup_del_node [simp]: "lookup (del_node p w) q = (if q = p then None else lookup w q)"
  by (simp add: lookup_def del_node_def delete_conv')

lemma set_node_fields [simp]:
  "faults (set_node p n w) = faults w" "read_caps (set_node p n w) = read_caps w"
  "rng (set_node p n w) = rng w" "rng_pos (set_node p n w) = rng_pos w"
  "clock (set_node p n w) = clock w" "clock_pos (set_node p n w) = clock_pos w"
  "conns (set_node p n w) = conns w" "inp (set_node p n w) = inp w" "out (set_node p n w) = out w"
  by (simp_all add: set_node_def)

lemma del_node_fields [simp]:
  "faults (del_node p w) = faults w" "read_caps (del_node p w) = read_caps w"
  "rng (del_node p w) = rng w" "rng_pos (del_node p w) = rng_pos w"
  "clock (del_node p w) = clock w" "clock_pos (del_node p w) = clock_pos w"
  "conns (del_node p w) = conns w" "inp (del_node p w) = inp w" "out (del_node p w) = out w"
  by (simp_all add: del_node_def)

lemma lookup_faults_upd [simp]:
  "lookup (w\<lparr>faults := fs\<rparr>) p = lookup w p" "lookup (w\<lparr>read_caps := cs\<rparr>) p = lookup w p"
  "lookup (w\<lparr>rng_pos := n\<rparr>) p = lookup w p" "lookup (w\<lparr>clock_pos := n\<rparr>) p = lookup w p"
  "lookup (w\<lparr>conns := xs\<rparr>) p = lookup w p" "lookup (w\<lparr>inp := i\<rparr>) p = lookup w p"
  "lookup (w\<lparr>out := j\<rparr>) p = lookup w p"
  by (simp_all add: lookup_def)

subsection \<open>System calls\<close>

text \<open>\<open>syscall broken f\<close>: the call \<open>f\<close>, or \<open>broken k\<close> as what it has done when it is made to fail.\<close>

definition syscall :: "(nat \<Rightarrow> world \<Rightarrow> world) \<Rightarrow> (io_error, 'a) io \<Rightarrow> (io_error, 'a) io" where
  "syscall broken f = (\<lambda>w. case faults w of
      [] \<Rightarrow> f w
    | None # fs \<Rightarrow> f (w\<lparr>faults := fs\<rparr>)
    | Some (e, k) # fs \<Rightarrow> (Inl e, broken k (w\<lparr>faults := fs\<rparr>)))"

definition no_effect :: "nat \<Rightarrow> world \<Rightarrow> world" where
  "no_effect k w = w"

definition ensure_dir :: "path \<Rightarrow> world \<Rightarrow> world" where
  "ensure_dir q w = (if lookup w q = None then set_node q DirN w else w)"

definition make_dirs :: "path \<Rightarrow> world \<Rightarrow> world" where
  "make_dirs p w = fold ensure_dir (tl (prefixes p)) w"

definition fs_create_dir_all :: "path \<Rightarrow> (io_error, unit) io" where
  "fs_create_dir_all p = syscall no_effect (\<lambda>w.
     if list_ex (is_file w) (butlast (prefixes p)) then (Inl NotADirectory, w)
     else if is_file w p then (Inl AlreadyExists, w)
     else (Inr (), make_dirs p w))"

definition fs_read :: "path \<Rightarrow> (io_error, bytes) io" where
  "fs_read p = syscall no_effect (\<lambda>w. case lookup w p of
      Some (FileN bs) \<Rightarrow> (Inr bs, w)
    | Some DirN \<Rightarrow> (Inl IsADirectory, w)
    | None \<Rightarrow> (Inl (if p = [] then IsADirectory else NotFound), w))"

text \<open>\<open>File::create\<close> truncates an existing file; \<open>create_new\<close> refuses one.\<close>

definition fs_create :: "path \<Rightarrow> (io_error, unit) io" where
  "fs_create p = syscall no_effect (\<lambda>w.
     if is_dir w p then (Inl IsADirectory, w)
     else if \<not> is_dir w (butlast p) then (Inl NotFound, w)
     else (Inr (), set_node p (FileN []) w))"

definition fs_create_new :: "path \<Rightarrow> (io_error, unit) io" where
  "fs_create_new p = syscall no_effect (\<lambda>w.
     if exists_path w p then (Inl AlreadyExists, w)
     else if \<not> is_dir w (butlast p) then (Inl NotFound, w)
     else (Inr (), set_node p (FileN []) w))"

definition append_file :: "path \<Rightarrow> bytes \<Rightarrow> world \<Rightarrow> world" where
  "append_file p bs w = (case lookup w p of
      Some (FileN old) \<Rightarrow> set_node p (FileN (old @ bs)) w
    | _ \<Rightarrow> w)"

text \<open>\<open>write_all\<close> on an open file: a failing call may have written a prefix.\<close>

definition fs_write_all :: "path \<Rightarrow> bytes \<Rightarrow> (io_error, unit) io" where
  "fs_write_all p bs = syscall (\<lambda>k. append_file p (take k bs)) (\<lambda>w. (Inr (), append_file p bs w))"

definition fs_sync_all :: "path \<Rightarrow> (io_error, unit) io" where
  "fs_sync_all p = syscall no_effect (\<lambda>w. (Inr (), w))"

text \<open>\<open>fs::write\<close> creates or truncates the file and then writes.\<close>

definition fs_write :: "path \<Rightarrow> bytes \<Rightarrow> (io_error, unit) io" where
  "fs_write p bs = bindE (fs_create p) (\<lambda>_. fs_write_all p bs)"

definition fs_rename :: "path \<Rightarrow> path \<Rightarrow> (io_error, unit) io" where
  "fs_rename a b = syscall no_effect (\<lambda>w. case lookup w a of
      Some (FileN bs) \<Rightarrow>
        if is_dir w b then (Inl IsADirectory, w)
        else if \<not> is_dir w (butlast b) then (Inl NotFound, w)
        else if a = b then (Inr (), w)
        else (Inr (), set_node b (FileN bs) (del_node a w))
    | Some DirN \<Rightarrow> (Inl OtherIo, w)
    | None \<Rightarrow> (Inl NotFound, w))"

definition fs_remove_file :: "path \<Rightarrow> (io_error, unit) io" where
  "fs_remove_file p = syscall no_effect (\<lambda>w. case lookup w p of
      Some (FileN bs) \<Rightarrow> (Inr (), del_node p w)
    | Some DirN \<Rightarrow> (Inl IsADirectory, w)
    | None \<Rightarrow> (Inl NotFound, w))"

definition below :: "path \<Rightarrow> world \<Rightarrow> path list" where
  "below p w = filter (\<lambda>q. prefix p q) (map fst (nodes w))"

definition fs_remove_dir_all :: "path \<Rightarrow> (io_error, unit) io" where
  "fs_remove_dir_all p = syscall (\<lambda>k w. fold del_node (take k (below p w)) w) (\<lambda>w.
     if lookup w p = None then (Inl NotFound, w)
     else (Inr (), fold del_node (below p w) w))"

text \<open>\<open>read_dir\<close>: the names of the entries, in the order of the file system.\<close>

definition fs_read_dir :: "path \<Rightarrow> (io_error, string list) io" where
  "fs_read_dir p = syscall no_effect (\<lambda>w.
     if \<not> is_dir w p then (Inl (if is_file w p then NotADirectory else NotFound), w)
     else (Inr (map last (filter (\<lambda>q. q \<noteq> [] \<and> butlast q = p) (remdups (map fst (nodes w))))), w))"

text \<open>\<open>fs::metadata\<close>: whether the path is a file, with its length, or a directory.\<close>

datatype metadata = FileMeta u64 | DirMeta

definition fs_metadata :: "path \<Rightarrow> (io_error, metadata) io" where
  "fs_metadata p = syscall no_effect (\<lambda>w. case lookup w p of
      Some (FileN bs) \<Rightarrow> (Inr (FileMeta (of_nat (length bs))), w)
    | Some DirN \<Rightarrow> (Inr DirMeta, w)
    | None \<Rightarrow> (if p = [] then Inr DirMeta else Inl NotFound, w))"

text \<open>\<open>Path::is_file\<close>, \<open>is_dir\<close> and \<open>exists\<close>: a failing call counts as \<open>false\<close>.\<close>

definition path_is_file :: "path \<Rightarrow> ('e, bool) io" where
  "path_is_file p = (\<lambda>w. case fs_metadata p w of (Inr (FileMeta _), w') \<Rightarrow> (Inr True, w') | (_, w') \<Rightarrow> (Inr False, w'))"

definition path_exists :: "path \<Rightarrow> ('e, bool) io" where
  "path_exists p = (\<lambda>w. case fs_metadata p w of (Inr _, w') \<Rightarrow> (Inr True, w') | (_, w') \<Rightarrow> (Inr False, w'))"

text \<open>
  \<open>File::open\<close> and \<open>read\<close>: a handle is the bytes still to be read. One \<open>read\<close> into a buffer of
  size \<open>n\<close> returns at least one byte unless the end is reached or \<open>n\<close> is 0, but may return fewer
  than are there: \<open>read_caps\<close> says how many, and an exhausted list means full reads.
\<close>

definition fs_open :: "path \<Rightarrow> (io_error, bytes) io" where
  "fs_open p = fs_read p"

definition file_read :: "nat \<Rightarrow> bytes \<Rightarrow> (io_error, bytes \<times> bytes) io" where
  "file_read n rem = syscall no_effect (\<lambda>w.
     let k = (case read_caps w of [] \<Rightarrow> n | c # cs \<Rightarrow> min n (max 1 c))
     in (Inr (take k rem, drop k rem), w\<lparr>read_caps := tl (read_caps w)\<rparr>))"

text \<open>\<open>OsRng.fill_bytes\<close>, \<open>Instant::now\<close> and \<open>SystemTime::now\<close>.\<close>

definition fill_bytes :: "nat \<Rightarrow> ('e, bytes) io" where
  "fill_bytes n = (\<lambda>w. (Inr (map (rng w) [rng_pos w ..< rng_pos w + n]), w\<lparr>rng_pos := rng_pos w + n\<rparr>))"

definition clock_now :: "('e, nat) io" where
  "clock_now = (\<lambda>w. (Inr (clock w (clock_pos w)), w\<lparr>clock_pos := Suc (clock_pos w)\<rparr>))"

subsection \<open>The connection\<close>

text \<open>
  \<open>inp\<close> holds what the peer will have sent by the end of the session and \<open>out\<close> what was written
  to it so far. Reading past \<open>inp\<close> is the end of the stream.
\<close>

definition stream_write_all :: "bytes \<Rightarrow> (io_error, unit) io" where
  "stream_write_all bs = syscall (\<lambda>k w. w\<lparr>out := out w @ take k bs\<rparr>)
     (\<lambda>w. (Inr (), w\<lparr>out := out w @ bs\<rparr>))"

definition stream_flush :: "(io_error, unit) io" where
  "stream_flush = syscall no_effect (\<lambda>w. (Inr (), w))"

definition stream_read_exact :: "nat \<Rightarrow> (io_error, bytes) io" where
  "stream_read_exact n = syscall no_effect (\<lambda>w.
     if length (inp w) < n then (Inl UnexpectedEof, w\<lparr>inp := []\<rparr>)
     else (Inr (take n (inp w)), w\<lparr>inp := drop n (inp w)\<rparr>))"

text \<open>\<open>TcpStream::connect\<close>: the next connection of the environment becomes the current one.\<close>

definition stream_connect :: "(io_error, unit) io" where
  "stream_connect = syscall no_effect (\<lambda>w. case conns w of
      [] \<Rightarrow> (Inl ConnectionRefused, w)
    | Inl e # cs \<Rightarrow> (Inl e, w\<lparr>conns := cs\<rparr>)
    | Inr bs # cs \<Rightarrow> (Inr (), w\<lparr>conns := cs, inp := bs, out := []\<rparr>))"

section \<open>Reasoning about computations\<close>

subsection \<open>Without failures from outside\<close>

lemma syscall_nofault [simp]: "faults w = [] \<Longrightarrow> syscall broken f w = f w"
  by (simp add: syscall_def)

lemma syscall_cases:
  obtains (run) w' where "syscall broken f w = f w'" "\<exists>fs. w' = w\<lparr>faults := fs\<rparr>"
  | (fail) e k fs where "syscall broken f w = (Inl e, broken k (w\<lparr>faults := fs\<rparr>))"
proof (cases "faults w")
  case Nil
  then have "syscall broken f w = f w" and "w = w\<lparr>faults := []\<rparr>"
    by (simp_all add: syscall_def)
  then show ?thesis using run by blast
next
  case (Cons a fs)
  then show ?thesis
    using run [of "w\<lparr>faults := fs\<rparr>"] fail
    by (cases a) (auto simp: syscall_def split: prod.splits)
qed

lemma ensure_dirs_only_nodes: "fold ensure_dir qs w = w\<lparr>nodes := nodes (fold ensure_dir qs w)\<rparr>"
proof (induction qs arbitrary: w)
  case Nil
  show ?case by simp
next
  case (Cons q qs)
  have "ensure_dir q w = w\<lparr>nodes := nodes (ensure_dir q w)\<rparr>"
    by (simp add: ensure_dir_def set_node_def)
  then show ?case
    using Cons [of "ensure_dir q w"] by (metis fold_simps(2) world.update_convs(1) world.surjective
        world.select_convs)
qed

lemma make_dirs_fields [simp]:
  "faults (make_dirs p w) = faults w" "read_caps (make_dirs p w) = read_caps w"
  "rng (make_dirs p w) = rng w" "rng_pos (make_dirs p w) = rng_pos w"
  "clock (make_dirs p w) = clock w" "clock_pos (make_dirs p w) = clock_pos w"
  "conns (make_dirs p w) = conns w" "inp (make_dirs p w) = inp w" "out (make_dirs p w) = out w"
  unfolding make_dirs_def by (subst ensure_dirs_only_nodes, simp)+

lemma lookup_ensure_dir:
  "lookup (ensure_dir p w) q = (if q = p \<and> lookup w q = None then Some DirN else lookup w q)"
  by (auto simp: ensure_dir_def)

lemma lookup_ensure_dirs:
  "lookup (fold ensure_dir qs w) q =
     (if lookup w q = None \<and> q \<in> set qs then Some DirN else lookup w q)"
  by (induction qs arbitrary: w) (simp_all add: lookup_ensure_dir)

lemma set_tl_prefixes: "set (tl (prefixes p)) = {q. q \<noteq> [] \<and> prefix q p}"
  by (cases p) (auto simp: prefix_Cons)

lemma lookup_make_dirs:
  "lookup (make_dirs p w) q =
     (if lookup w q = None \<and> q \<noteq> [] \<and> prefix q p then Some DirN else lookup w q)"
  by (simp add: make_dirs_def lookup_ensure_dirs set_tl_prefixes)

lemma is_dir_make_dirs: "\<not> is_file w q \<Longrightarrow> prefix q p \<Longrightarrow> is_dir (make_dirs p w) q"
  by (cases "lookup w q") (auto simp: is_dir_def is_file_def lookup_make_dirs split: node.splits
      intro: node.exhaust)

subsection \<open>What a computation may change\<close>

text \<open>
  \<open>preserves R m\<close>: in every world, with every pattern of failures and whatever the result, the
  computation \<open>m\<close> leads to a world that stands in the relation \<open>R\<close> to the first. The locale
  collects what makes such a relation compositional; its instances are the frame conditions
  below.
\<close>

definition preserves :: "(world \<Rightarrow> world \<Rightarrow> bool) \<Rightarrow> ('e, 'a) io \<Rightarrow> bool" where
  "preserves R m \<longleftrightarrow> (\<forall>w. R w (snd (m w)))"

locale world_order =
  fixes R :: "world \<Rightarrow> world \<Rightarrow> bool"
  assumes R_refl: "R w w"
    and R_trans: "R u v \<Longrightarrow> R v w \<Longrightarrow> R u w"
begin

lemma pres_return [intro!, simp]: "preserves R (returnE x)"
  by (simp add: preserves_def R_refl)

lemma pres_pair [intro!, simp]: "preserves R (Pair r)"
  by (simp add: preserves_def R_refl)

lemma pres_throw [intro!, simp]: "preserves R (throwE e)"
  by (simp add: preserves_def R_refl)

lemma pres_lift [intro!, simp]: "preserves R (liftE r)"
  by (simp add: preserves_def R_refl)

lemma pres_ask [intro!, simp]: "preserves R (askE f)"
  by (simp add: preserves_def R_refl)

lemma pres_bind [intro]:
  assumes "preserves R m" and "\<And>x. preserves R (f x)"
  shows "preserves R (bindE m f)"
  unfolding preserves_def
proof
  fix w
  obtain r w' where m: "m w = (r, w')"
    by fastforce
  then have w': "R w w'"
    using assms(1) by (metis preserves_def snd_conv)
  show "R w (snd (bindE m f w))"
  proof (cases r)
    case (Inl e)
    with m w' show ?thesis by simp
  next
    case (Inr x)
    with m have "bindE m f w = f x w'"
      by simp
    moreover have "R w' (snd (f x w'))"
      using assms(2) by (simp add: preserves_def)
    ultimately show ?thesis
      using w' R_trans by simp
  qed
qed

lemma pres_into [intro]: "preserves R m \<Longrightarrow> preserves R (intoE g m)"
  by (simp add: preserves_def)

lemma pres_try [intro]: "preserves R m \<Longrightarrow> preserves R (tryE m)"
  by (simp add: preserves_def)

lemma pres_for [intro]: "(\<And>x. x \<in> set xs \<Longrightarrow> preserves R (f x)) \<Longrightarrow> preserves R (forE xs f)"
  by (induction xs) (auto intro!: pres_bind)

lemma pres_map [intro]: "(\<And>x. x \<in> set xs \<Longrightarrow> preserves R (f x)) \<Longrightarrow> preserves R (mapE f xs)"
  by (induction xs) (auto intro!: pres_bind)

end

text \<open>Relations that do not depend on the failures still to come.\<close>

locale world_rel = world_order +
  assumes R_faults: "R w (w\<lparr>faults := fs\<rparr>)"
begin

lemma pres_syscall:
  assumes "\<And>w. R w (snd (f w))" and "\<And>k w. R w (broken k w)"
  shows "preserves R (syscall broken f)"
  unfolding preserves_def
proof
  fix w
  show "R w (snd (syscall broken f w))"
    using assms R_trans [OF R_faults]
    by (cases w rule: syscall_cases [of broken f]) fastforce+
qed

end

text \<open>The paths outside \<open>P\<close> are as they were.\<close>

definition frame :: "(path \<Rightarrow> bool) \<Rightarrow> world \<Rightarrow> world \<Rightarrow> bool" where
  "frame P w w' \<longleftrightarrow> (\<forall>q. \<not> P q \<longrightarrow> lookup w' q = lookup w q)"

interpretation frame: world_rel "frame P" for P
  by unfold_locales (auto simp: frame_def)

text \<open>What was sent stays sent.\<close>

definition sent_grows :: "world \<Rightarrow> world \<Rightarrow> bool" where
  "sent_grows w w' \<longleftrightarrow> prefix (out w) (out w')"

interpretation sent: world_rel sent_grows
  by unfold_locales (auto simp: sent_grows_def)

text \<open>In a world without failures to come, none come up later.\<close>

definition stays_calm :: "world \<Rightarrow> world \<Rightarrow> bool" where
  "stays_calm w w' \<longleftrightarrow> (faults w = [] \<longrightarrow> faults w' = [])"

interpretation calm: world_order stays_calm
  by unfold_locales (auto simp: stays_calm_def)

lemma calm_syscall: "(\<And>w. stays_calm w (snd (f w))) \<Longrightarrow> preserves stays_calm (syscall broken f)"
  by (auto simp: preserves_def stays_calm_def syscall_def split: list.splits option.splits prod.splits)

lemma calm_calls [intro!, simp]:
  "preserves stays_calm (fs_read p)" "preserves stays_calm (fs_open p)" "preserves stays_calm (file_read n rem)"
  "preserves stays_calm (fs_metadata p)" "preserves stays_calm (fs_read_dir p)" "preserves stays_calm (fs_create_dir_all p)"
  "preserves stays_calm (fs_create p)" "preserves stays_calm (fs_create_new p)" "preserves stays_calm (fs_write_all p bs)"
  "preserves stays_calm (fs_sync_all p)" "preserves stays_calm (fs_rename p q)" "preserves stays_calm (fs_remove_file p)"
  "preserves stays_calm (stream_write_all bs)" "preserves stays_calm stream_flush" "preserves stays_calm (stream_read_exact n)"
  "preserves stays_calm stream_connect"
  unfolding fs_read_def fs_open_def file_read_def fs_metadata_def fs_read_dir_def fs_create_dir_all_def fs_create_def
    fs_create_new_def fs_write_all_def fs_sync_all_def fs_rename_def fs_remove_file_def
    stream_write_all_def stream_flush_def stream_read_exact_def stream_connect_def
  by (rule calm_syscall; auto simp: stays_calm_def append_file_def Let_def make_dirs_def [symmetric]
      split: option.splits node.splits list.splits sum.splits)+

lemma calm_write [intro!, simp]: "preserves stays_calm (fs_write p bs)"
  unfolding fs_write_def by (intro calm.pres_bind) auto

lemma calm_fill_bytes [intro!, simp]: "preserves stays_calm (fill_bytes n)" "preserves stays_calm clock_now"
  by (simp_all add: preserves_def stays_calm_def fill_bytes_def clock_now_def)

lemma calm_path_tests [intro!, simp]: "preserves stays_calm (path_is_file p)" "preserves stays_calm (path_exists p)"
  using calm_calls(4) [of p] unfolding preserves_def path_is_file_def path_exists_def
  by (auto split: prod.splits sum.splits metadata.splits) (metis snd_conv)+

lemma preserves_calmD: "preserves stays_calm m \<Longrightarrow> m w = (r, w') \<Longrightarrow> faults w = [] \<Longrightarrow> faults w' = []"
  unfolding preserves_def stays_calm_def by (metis snd_conv)

subsection \<open>Frames of the system calls\<close>

lemma frame_mono:
  "preserves (frame P) m \<Longrightarrow> (\<And>q. P q \<Longrightarrow> Q q) \<Longrightarrow> preserves (frame Q) m"
  unfolding preserves_def frame_def by blast

lemma frame_read [intro!, simp]: "preserves (frame P) (fs_read p)"
  unfolding fs_read_def
  by (rule frame.pres_syscall) (auto simp: frame_def no_effect_def split: option.splits node.splits)

lemma frame_open [intro!, simp]: "preserves (frame P) (fs_open p)"
  by (simp add: fs_open_def)

lemma frame_file_read [intro!, simp]: "preserves (frame P) (file_read n rem)"
  unfolding file_read_def
  by (rule frame.pres_syscall) (auto simp: frame_def no_effect_def Let_def)

lemma frame_metadata [intro!, simp]: "preserves (frame P) (fs_metadata p)"
  unfolding fs_metadata_def
  by (rule frame.pres_syscall) (auto simp: frame_def no_effect_def split: option.splits node.splits)

lemma frame_path_tests [intro!, simp]: "preserves (frame P) (path_is_file p)" "preserves (frame P) (path_exists p)"
  using frame_metadata [of P p] unfolding preserves_def path_is_file_def path_exists_def
  by (auto split: prod.splits sum.splits metadata.splits) (metis snd_conv)+

lemma frame_sync [intro!, simp]: "preserves (frame P) (fs_sync_all p)"
  unfolding fs_sync_all_def
  by (rule frame.pres_syscall) (auto simp: frame_def no_effect_def)

lemma frame_read_dir [intro!, simp]: "preserves (frame P) (fs_read_dir p)"
  unfolding fs_read_dir_def
  by (rule frame.pres_syscall) (auto simp: frame_def no_effect_def)

lemma frame_create_dir_all:
  "(\<And>q. prefix q p \<Longrightarrow> P q) \<Longrightarrow> preserves (frame P) (fs_create_dir_all p)"
  unfolding fs_create_dir_all_def
  by (rule frame.pres_syscall) (auto simp: frame_def no_effect_def lookup_make_dirs)

lemma frame_create: "P p \<Longrightarrow> preserves (frame P) (fs_create p)"
  unfolding fs_create_def
  by (rule frame.pres_syscall) (auto simp: frame_def no_effect_def)

lemma frame_create_new: "P p \<Longrightarrow> preserves (frame P) (fs_create_new p)"
  unfolding fs_create_new_def
  by (rule frame.pres_syscall) (auto simp: frame_def no_effect_def)

lemma lookup_append_file:
  "q \<noteq> p \<Longrightarrow> lookup (append_file p bs w) q = lookup w q"
  by (simp add: append_file_def split: option.splits node.splits)

lemma frame_write_all: "P p \<Longrightarrow> preserves (frame P) (fs_write_all p bs)"
  unfolding fs_write_all_def
  by (rule frame.pres_syscall) (metis frame_def lookup_append_file snd_conv)+

lemma frame_write: "P p \<Longrightarrow> preserves (frame P) (fs_write p bs)"
  unfolding fs_write_def by (intro frame.pres_bind frame_create frame_write_all)

lemma frame_rename: "P a \<Longrightarrow> P b \<Longrightarrow> preserves (frame P) (fs_rename a b)"
  unfolding fs_rename_def
  by (rule frame.pres_syscall) (auto simp: frame_def no_effect_def split: option.splits node.splits)

lemma frame_remove_file: "P p \<Longrightarrow> preserves (frame P) (fs_remove_file p)"
  unfolding fs_remove_file_def
  by (rule frame.pres_syscall) (auto simp: frame_def no_effect_def split: option.splits node.splits)

lemma lookup_del_nodes:
  "lookup (fold del_node ps w) q = (if q \<in> set ps then None else lookup w q)"
  by (induction ps arbitrary: w) auto

lemma frame_remove_dir_all:
  assumes "\<And>q. prefix p q \<Longrightarrow> P q"
  shows "preserves (frame P) (fs_remove_dir_all p)"
  unfolding fs_remove_dir_all_def
proof (rule frame.pres_syscall)
  show "frame P w (snd (if lookup w p = None then (Inl NotFound, w)
      else (Inr (), fold del_node (below p w) w)))" for w
    using assms by (auto simp: frame_def lookup_del_nodes below_def)
  show "frame P w (fold del_node (take k (below p w)) w)" for k w
    using assms by (auto simp: frame_def lookup_del_nodes below_def dest!: in_set_takeD)
qed

text \<open>A computation that touches no path leaves the whole tree as it is.\<close>

lemma frame_all_lookup: "preserves (frame (\<lambda>_. False)) m \<Longrightarrow> m w = (r, w') \<Longrightarrow> lookup w' = lookup w"
  unfolding preserves_def frame_def by (metis ext snd_conv)

lemmas frame_calls = frame_create_dir_all frame_create frame_create_new frame_write_all frame_write
  frame_rename frame_remove_file frame_remove_dir_all

lemma frame_fill_bytes [intro!, simp]: "preserves (frame P) (fill_bytes n)"
  by (simp add: preserves_def frame_def fill_bytes_def)

lemma frame_clock_now [intro!, simp]: "preserves (frame P) clock_now"
  by (simp add: preserves_def frame_def clock_now_def)

lemma frame_stream [intro!, simp]:
  "preserves (frame P) (stream_write_all bs)" "preserves (frame P) stream_flush"
  "preserves (frame P) (stream_read_exact n)" "preserves (frame P) stream_connect"
  unfolding stream_write_all_def stream_flush_def stream_read_exact_def stream_connect_def
  by (rule frame.pres_syscall; auto simp: frame_def no_effect_def split: list.splits sum.splits)+

lemma preserves_frameD: "preserves (frame P) m \<Longrightarrow> m w = (r, w') \<Longrightarrow> \<not> P q \<Longrightarrow> lookup w' q = lookup w q"
  unfolding preserves_def frame_def by (metis snd_conv)

subsection \<open>What a successful call has done\<close>

lemma fs_write_Inr:
  assumes "fs_write p bs w = (Inr (), w')"
  shows "lookup w' q = (if q = p then Some (FileN bs) else lookup w q)"
proof -
  from assms obtain w1 where cr: "fs_create p w = (Inr (), w1)" and wr: "fs_write_all p bs w1 = (Inr (), w')"
    by (auto simp: fs_write_def bindE_Inr)
  have "lookup w1 p = Some (FileN [])"
    using cr by (auto simp: fs_create_def syscall_def split: list.splits option.splits if_splits prod.splits)
  then have "lookup w' p = Some (FileN bs)"
    using wr by (auto simp: fs_write_all_def append_file_def syscall_def split: list.splits option.splits prod.splits)
  moreover have "q \<noteq> p \<Longrightarrow> lookup w' q = lookup w q"
    using preserves_frameD [OF frame_write [of "\<lambda>r. r = p"] assms] by blast
  ultimately show ?thesis by simp
qed

lemma fs_read_nofault: "faults w = [] \<Longrightarrow> lookup w p = Some (FileN bs) \<Longrightarrow> fs_read p w = (Inr bs, w)"
  by (simp add: fs_read_def)

lemma path_is_file_nofault: "faults w = [] \<Longrightarrow> path_is_file p w = (Inr (is_file w p), w)"
  by (auto simp: path_is_file_def fs_metadata_def is_file_def split: option.splits node.splits)

lemma path_exists_nofault: "faults w = [] \<Longrightarrow> path_exists p w = (Inr (exists_path w p), w)"
  by (auto simp: path_exists_def fs_metadata_def exists_path_def split: option.splits node.splits)

end
