(* ===== verification/Etle_Crypto.thy ===== *)
theory Etle_Crypto
  imports Etle_World
begin

unbundle bit_operations_syntax

text \<open>
  \<open>src/crypto\<close>: identifiers and keys, the authenticated encryption of chunks, the X25519 key
  exchange with its derived keys and proofs, and the wrapping of the file key. The primitives come
  from the crates \<open>blake3\<close>, \<open>chacha20poly1305\<close> and \<open>x25519_dalek\<close>, which are parameters: the
  record \<open>deps\<close> holds them, and the predicates \<open>aead_ok\<close> and \<open>x25519_ok\<close> state what the crates
  document and the program relies on. An incremental \<open>blake3::Hasher\<close> is the bytes fed to it.
\<close>

section \<open>Primitives from other crates\<close>

record deps =
  blake3 :: "bytes \<Rightarrow> arr32"
  blake3_derive_key :: "string \<Rightarrow> bytes \<Rightarrow> arr32"
  blake3_keyed :: "arr32 \<Rightarrow> bytes \<Rightarrow> arr32"
  xchacha_encrypt :: "arr32 \<Rightarrow> arr24 \<Rightarrow> bytes \<Rightarrow> bytes \<Rightarrow> bytes option"
  xchacha_decrypt :: "arr32 \<Rightarrow> arr24 \<Rightarrow> bytes \<Rightarrow> bytes \<Rightarrow> bytes option"
  x25519_public :: "arr32 \<Rightarrow> arr32"
  x25519_dh :: "arr32 \<Rightarrow> arr32 \<Rightarrow> arr32"

text \<open>
  The AEAD decrypts what it encrypted under the same key, nonce and associated data, and its
  ciphertext is the message with a tag of 16 bytes.
\<close>

definition aead_ok :: "deps \<Rightarrow> bool" where
  "aead_ok D \<longleftrightarrow> (\<forall>k n m a c. xchacha_encrypt D k n m a = Some c \<longrightarrow>
     xchacha_decrypt D k n c a = Some m \<and> length c = length m + 16)"

text \<open>Both sides of a Diffie-Hellman exchange compute the same value.\<close>

definition x25519_ok :: "deps \<Rightarrow> bool" where
  "x25519_ok D \<longleftrightarrow> (\<forall>a b. x25519_dh D a (x25519_public D b) = x25519_dh D b (x25519_public D a))"

text \<open>Two inputs with the same digest.\<close>

definition collision :: "('a \<Rightarrow> 'b) \<Rightarrow> 'a \<Rightarrow> 'a \<Rightarrow> bool" where
  "collision h x y \<longleftrightarrow> x \<noteq> y \<and> h x = h y"

lemma aead_okD:
  "aead_ok D \<Longrightarrow> xchacha_encrypt D k n m a = Some c \<Longrightarrow>
     xchacha_decrypt D k n c a = Some m \<and> length c = length m + 16"
  unfolding aead_ok_def by blast

section \<open>Errors, identifiers and keys\<close>

datatype crypto_error = Encrypt | Decrypt | InvalidPublicKey | InvalidWrappedKeyLength

datatype file_id = FileId arr32
datatype chunk_hash = ChunkHash arr32
datatype symmetric_key = SymmetricKey arr32
datatype nonce = Nonce arr24

fun file_id_bytes :: "file_id \<Rightarrow> bytes" where
  "file_id_bytes (FileId a) = arr32_bytes a"

fun chunk_hash_bytes :: "chunk_hash \<Rightarrow> bytes" where
  "chunk_hash_bytes (ChunkHash a) = arr32_bytes a"

fun symmetric_key_bytes :: "symmetric_key \<Rightarrow> bytes" where
  "symmetric_key_bytes (SymmetricKey a) = arr32_bytes a"

fun nonce_bytes :: "nonce \<Rightarrow> bytes" where
  "nonce_bytes (Nonce a) = arr24_bytes a"

fun file_id_to_string :: "file_id \<Rightarrow> string" where
  "file_id_to_string (FileId a) = hex_string (arr32_bytes a)"

fun chunk_hash_to_string :: "chunk_hash \<Rightarrow> string" where
  "chunk_hash_to_string (ChunkHash a) = hex_string (arr32_bytes a)"

lemma length_id_bytes [simp, bytes_simps]:
  "length (file_id_bytes f) = 32" "length (chunk_hash_bytes h) = 32"
  "length (symmetric_key_bytes k) = 32" "length (nonce_bytes n) = 24"
  by (cases f, simp, cases h, simp, cases k, simp, cases n, simp)

lemma file_id_bytes_inj [simp, bytes_inj]: "file_id_bytes f = file_id_bytes f' \<longleftrightarrow> f = f'"
  by (cases f; cases f') simp

lemma chunk_hash_bytes_inj [simp, bytes_inj]: "chunk_hash_bytes h = chunk_hash_bytes h' \<longleftrightarrow> h = h'"
  by (cases h; cases h') simp

lemma symmetric_key_bytes_inj [simp, bytes_inj]:
  "symmetric_key_bytes k = symmetric_key_bytes k' \<longleftrightarrow> k = k'"
  by (cases k; cases k') simp

lemma nonce_bytes_inj [simp, bytes_inj]: "nonce_bytes n = nonce_bytes n' \<longleftrightarrow> n = n'"
  by (cases n; cases n') simp

section \<open>Hashing\<close>

definition hash_bytes :: "deps \<Rightarrow> bytes \<Rightarrow> arr32" where
  "hash_bytes D bs = blake3 D bs"

definition hash_file_id :: "deps \<Rightarrow> bytes \<Rightarrow> file_id" where
  "hash_file_id D bs = FileId (hash_bytes D bs)"

definition hash_chunk :: "deps \<Rightarrow> bytes \<Rightarrow> chunk_hash" where
  "hash_chunk D bs = ChunkHash (hash_bytes D bs)"

text \<open>\<open>hash_file\<close>: reads of 64 KiB, each fed to the hasher, until a read returns nothing.\<close>

lemma file_read_decreases:
  "file_read n rem w = (Inr (got, rem'), w') \<Longrightarrow> rem = got @ rem' \<and> (got \<noteq> [] \<longrightarrow> length rem' < length rem)"
  by (auto simp: file_read_def syscall_def Let_def split: list.splits option.splits prod.splits)

lemma file_read_end:
  "file_read n rem w = (Inr ([], rem'), w') \<Longrightarrow> 0 < n \<Longrightarrow> rem = []"
  by (auto simp: file_read_def syscall_def Let_def split: list.splits option.splits prod.splits)

function hash_file_loop :: "bytes \<Rightarrow> bytes \<Rightarrow> (io_error, bytes) io" where
  "hash_file_loop hasher rem w =
     (case file_read (64 * 1024) rem w of
        (Inl e, w') \<Rightarrow> (Inl e, w')
      | (Inr (got, rem'), w') \<Rightarrow>
          if got = [] then (Inr hasher, w') else hash_file_loop (hasher @ got) rem' w')"
  by pat_completeness auto
termination
  by (relation "measure (\<lambda>(hasher, rem, w). length rem)") (auto dest: file_read_decreases [OF sym])

declare hash_file_loop.simps [simp del]

definition hash_file :: "deps \<Rightarrow> path \<Rightarrow> (io_error, file_id) io" where
  "hash_file D p = bindE (fs_open p) (\<lambda>rem. bindE (hash_file_loop [] rem) (\<lambda>hasher.
     returnE (FileId (blake3 D hasher))))"

section \<open>Authenticated encryption of chunks\<close>

definition generate_nonce :: "('e, nonce) io" where
  "generate_nonce = bindE (fill_bytes 24) (\<lambda>bs. returnE (Nonce (from_be_bytes bs)))"

definition build_chunk_aad :: "file_id \<Rightarrow> u32 \<Rightarrow> u64 \<Rightarrow> bytes" where
  "build_chunk_aad file_id chunk_index plain_size =
     file_id_bytes file_id @ to_le_bytes chunk_index @ to_le_bytes plain_size"

fun encrypt_chunk :: "deps \<Rightarrow> symmetric_key \<Rightarrow> nonce \<Rightarrow> bytes \<Rightarrow> bytes \<Rightarrow> (crypto_error, bytes) result" where
  "encrypt_chunk D (SymmetricKey k) (Nonce n) plaintext aad = ok_or Encrypt (xchacha_encrypt D k n plaintext aad)"

fun decrypt_chunk :: "deps \<Rightarrow> symmetric_key \<Rightarrow> nonce \<Rightarrow> bytes \<Rightarrow> bytes \<Rightarrow> (crypto_error, bytes) result" where
  "decrypt_chunk D (SymmetricKey k) (Nonce n) ciphertext aad = ok_or Decrypt (xchacha_decrypt D k n ciphertext aad)"

lemma build_chunk_aad_inj [bytes_inj]:
  "build_chunk_aad f i s = build_chunk_aad f' i' s' \<longleftrightarrow> f = f' \<and> i = i' \<and> s = s'"
  by (auto simp: build_chunk_aad_def to_le_bytes_inj)

lemma decrypt_encrypt_chunk:
  "aead_ok D \<Longrightarrow> encrypt_chunk D k n m a = Inr c \<Longrightarrow> decrypt_chunk D k n c a = Inr m"
  by (cases k; cases n) (auto dest: aead_okD)

lemma length_encrypt_chunk:
  "aead_ok D \<Longrightarrow> encrypt_chunk D k n m a = Inr c \<Longrightarrow> length c = length m + 16"
  by (cases k; cases n) (auto dest: aead_okD)

section \<open>Key exchange\<close>

datatype public_key_bytes = PublicKeyBytes arr32
datatype shared_secret_bytes = SharedSecretBytes arr32
datatype auth_psk = AuthPsk arr32
datatype auth_role = Client | Server
type_synonym auth_tag = arr32

record ephemeral_keypair =
  kp_secret :: arr32
  kp_public :: public_key_bytes

fun public_key_raw :: "public_key_bytes \<Rightarrow> bytes" where
  "public_key_raw (PublicKeyBytes a) = arr32_bytes a"

definition from_passphrase :: "deps \<Rightarrow> bytes \<Rightarrow> auth_psk" where
  "from_passphrase D passphrase =
     AuthPsk (blake3_derive_key D ''etle v1 psk authentication passphrase'' passphrase)"

definition keypair_of :: "deps \<Rightarrow> arr32 \<Rightarrow> ephemeral_keypair" where
  "keypair_of D secret = \<lparr>kp_secret = secret, kp_public = PublicKeyBytes (x25519_public D secret)\<rparr>"

definition generate_keypair :: "deps \<Rightarrow> ('e, ephemeral_keypair) io" where
  "generate_keypair D = bindE (fill_bytes 32) (\<lambda>bs. returnE (keypair_of D (from_be_bytes bs)))"

fun diffie_hellman :: "deps \<Rightarrow> ephemeral_keypair \<Rightarrow> public_key_bytes \<Rightarrow> (crypto_error, shared_secret_bytes) result" where
  "diffie_hellman D kp (PublicKeyBytes peer) =
     (let shared = x25519_dh D (kp_secret kp) peer
      in if list_all (\<lambda>byte. byte = 0) (arr32_bytes shared) then Inl InvalidPublicKey
         else Inr (SharedSecretBytes shared))"

fun derive_session_key :: "deps \<Rightarrow> shared_secret_bytes \<Rightarrow> symmetric_key" where
  "derive_session_key D (SharedSecretBytes s) =
     SymmetricKey (blake3_derive_key D ''etle v1 x25519 session key'' (arr32_bytes s))"

fun session_material :: "shared_secret_bytes \<Rightarrow> public_key_bytes \<Rightarrow> public_key_bytes \<Rightarrow> bytes" where
  "session_material (SharedSecretBytes s) client server =
     arr32_bytes s @ public_key_raw client @ public_key_raw server"

definition derive_session_key_with_transcript ::
    "deps \<Rightarrow> shared_secret_bytes \<Rightarrow> public_key_bytes \<Rightarrow> public_key_bytes \<Rightarrow> symmetric_key" where
  "derive_session_key_with_transcript D shared client server =
     SymmetricKey (blake3_derive_key D ''etle v1 x25519 transcript-bound session key''
       (session_material shared client server))"

fun role_label :: "auth_role \<Rightarrow> string" where
  "role_label Client = ''client''"
| "role_label Server = ''server''"

definition auth_transcript :: "symmetric_key \<Rightarrow> public_key_bytes \<Rightarrow> public_key_bytes \<Rightarrow> auth_role \<Rightarrow> bytes" where
  "auth_transcript session_key client server role =
     str_bytes ''etle v1 psk-authenticated x25519 transcript'' @ str_bytes (role_label role) @
     symmetric_key_bytes session_key @ public_key_raw client @ public_key_raw server"

fun derive_auth_tag ::
    "deps \<Rightarrow> auth_psk \<Rightarrow> symmetric_key \<Rightarrow> public_key_bytes \<Rightarrow> public_key_bytes \<Rightarrow> auth_role \<Rightarrow> auth_tag" where
  "derive_auth_tag D (AuthPsk psk) session_key client server role =
     blake3_keyed D psk (auth_transcript session_key client server role)"

definition auth_tags_equal :: "auth_tag \<Rightarrow> auth_tag \<Rightarrow> bool" where
  "auth_tags_equal left right =
     (fold (\<lambda>(l, r) acc. acc OR (l XOR r)) (zip (arr32_bytes left) (arr32_bytes right)) (0 :: u8) = 0)"

fun derive_file_key :: "deps \<Rightarrow> shared_secret_bytes \<Rightarrow> file_id \<Rightarrow> symmetric_key" where
  "derive_file_key D (SharedSecretBytes s) file_id =
     SymmetricKey (blake3_derive_key D ''etle v1 x25519 file key'' (arr32_bytes s @ file_id_bytes file_id))"

section \<open>Wrapping the file key\<close>

record wrapped_file_key =
  wk_nonce :: nonce
  wk_data :: bytes

definition generate_file_key :: "('e, symmetric_key) io" where
  "generate_file_key = bindE (fill_bytes 32) (\<lambda>bs. returnE (SymmetricKey (from_be_bytes bs)))"

definition build_file_key_aad :: "file_id \<Rightarrow> bytes" where
  "build_file_key_aad file_id = str_bytes ''etle-file-key-v1'' @ file_id_bytes file_id"

definition wrap_file_key :: "deps \<Rightarrow> symmetric_key \<Rightarrow> file_id \<Rightarrow> symmetric_key \<Rightarrow> (crypto_error, wrapped_file_key) io" where
  "wrap_file_key D session_key file_id file_key =
     bindE generate_nonce (\<lambda>nonce.
     bindE (liftE (encrypt_chunk D session_key nonce (symmetric_key_bytes file_key) (build_file_key_aad file_id))) (\<lambda>data.
     returnE \<lparr>wk_nonce = nonce, wk_data = data\<rparr>))"

definition unwrap_file_key :: "deps \<Rightarrow> symmetric_key \<Rightarrow> file_id \<Rightarrow> wrapped_file_key \<Rightarrow> (crypto_error, symmetric_key) result" where
  "unwrap_file_key D session_key file_id wrapped =
     and_then (decrypt_chunk D session_key (wk_nonce wrapped) (wk_data wrapped) (build_file_key_aad file_id)) (\<lambda>bytes.
     and_then (ok_or InvalidWrappedKeyLength (arr32_try_from bytes)) (\<lambda>key_bytes.
     Inr (SymmetricKey key_bytes)))"

section \<open>Correctness\<close>

subsection \<open>Hashing a file\<close>

lemma hash_file_loop_Inr:
  "hash_file_loop hasher rem w = (Inr h, w') \<Longrightarrow> h = hasher @ rem"
proof (induction hasher rem w arbitrary: h w' rule: hash_file_loop.induct)
  case (1 hasher rem w)
  from "1.prems" obtain got rem' w1 where
      rd: "file_read (64 * 1024) rem w = (Inr (got, rem'), w1)"
      and rest: "(if got = [] then (Inr hasher, w1) else hash_file_loop (hasher @ got) rem' w1) = (Inr h, w')"
    by (subst (asm) hash_file_loop.simps) (auto split: prod.splits sum.splits)
  show ?case
  proof (cases "got = []")
    case True
    with rest rd file_read_end [of "64 * 1024" rem w rem' w1] show ?thesis by simp
  next
    case False
    with rest have "hash_file_loop (hasher @ got) rem' w1 = (Inr h, w')"
      by simp
    from "1.IH" [OF rd [symmetric] refl refl False this] file_read_decreases [OF rd]
    show ?thesis by simp
  qed
qed

lemma fs_read_Inr: "fs_read p w = (Inr bs, w') \<Longrightarrow> lookup w p = Some (FileN bs) \<and> nodes w' = nodes w"
  by (auto simp: fs_read_def syscall_def no_effect_def
      split: list.splits option.splits node.splits if_splits prod.splits)

lemma hash_file_Inr:
  assumes "hash_file D p w = (Inr fid, w')"
  obtains bs where "lookup w p = Some (FileN bs)" "fid = hash_file_id D bs"
proof -
  from assms obtain bs w1 h where "fs_read p w = (Inr bs, w1)"
      and "hash_file_loop [] bs w1 = (Inr h, w')" and fid: "fid = FileId (blake3 D h)"
    by (auto simp: hash_file_def fs_open_def bindE_Inr)
  moreover from this have "h = bs"
    by (auto dest: hash_file_loop_Inr)
  ultimately show ?thesis
    using that fs_read_Inr by (auto simp: hash_file_id_def hash_bytes_def)
qed

lemma frame_hash_file_loop [intro!, simp]: "preserves (frame P) (hash_file_loop hasher rem)"
proof -
  have "frame P w (snd (hash_file_loop hasher rem w))" for w
  proof (induction hasher rem w rule: hash_file_loop.induct)
    case (1 hasher rem w)
    have "frame P w (snd (file_read (64 * 1024) rem w))"
      using frame_file_read [of P "64 * 1024" rem] by (simp add: preserves_def)
    with 1 show ?case
      by (subst hash_file_loop.simps)
        (auto split: prod.splits sum.splits intro: frame.R_trans)
  qed
  then show ?thesis by (simp add: preserves_def)
qed

lemma frame_hash_file [intro!, simp]: "preserves (frame P) (hash_file D p)"
  unfolding hash_file_def by (intro frame.pres_bind) auto

subsection \<open>Proof tags\<close>

lemma xor_zero_iff: "a XOR b = 0 \<longleftrightarrow> a = (b :: u8)"
  by (metis xor.assoc xor.right_neutral xor_self_eq)

lemma fold_or_zero:
  "fold (\<lambda>(l, r) acc. acc OR (l XOR r)) ps (a :: u8) = 0 \<longleftrightarrow> a = 0 \<and> (\<forall>(l, r) \<in> set ps. l = r)"
  by (induction ps arbitrary: a) (auto simp: or_eq_0_iff xor_zero_iff)

lemma tags_equal: "auth_tags_equal left right \<longleftrightarrow> left = right"
proof -
  have "(\<forall>(l, r) \<in> set (zip (arr32_bytes left) (arr32_bytes right)). l = r) \<longleftrightarrow>
      arr32_bytes left = arr32_bytes right"
    by (auto simp: list_eq_iff_zip_eq)
  then show ?thesis
    by (simp add: auth_tags_equal_def fold_or_zero)
qed

text \<open>The constant-time comparison of proof tags is equality.\<close>

theorem auth_tags_equal_iff: "auth_tags_equal left right \<longleftrightarrow> left = right"
  by (rule tags_equal)

text \<open>
  What a proof tag commits to: the label of the role has the same length for both roles and every
  other field has a fixed width, so the hashed transcript determines all of them.
\<close>

lemma public_key_raw_len [simp, bytes_simps]: "length (public_key_raw p) = 32"
  by (cases p) simp

lemma public_key_raw_inj [simp, bytes_inj]: "public_key_raw p = public_key_raw q \<longleftrightarrow> p = q"
  by (cases p; cases q) simp

lemma role_label_len: "length (role_label r) = 6"
  by (cases r) simp_all

lemma role_label_inj: "role_label r = role_label r' \<longleftrightarrow> r = r'"
  by (cases r; cases r') simp_all

lemma auth_transcript_inj [bytes_inj]:
  "auth_transcript k c s r = auth_transcript k' c' s' r' \<longleftrightarrow> k = k' \<and> c = c' \<and> s = s' \<and> r = r'"
  by (auto simp: auth_transcript_def role_label_len role_label_inj)

lemma session_material_inj [bytes_inj]:
  "session_material x c s = session_material x' c' s' \<longleftrightarrow> x = x' \<and> c = c' \<and> s = s'"
  by (cases x; cases x') auto

subsection \<open>Sample primitives\<close>

text \<open>
  Small total functions that satisfy the hypotheses on the primitives, at which the witnesses
  evaluate the model.
\<close>

definition sample_tag :: "arr32 \<Rightarrow> arr24 \<Rightarrow> bytes \<Rightarrow> bytes" where
  "sample_tag k n a = le_bytes 16 (unat k + unat n + le_nat a)"

definition sample_deps :: deps where
  "sample_deps = \<lparr>
     blake3 = (\<lambda>bs. of_nat (le_nat (bs @ [1]))),
     blake3_derive_key = (\<lambda>ctx bs. of_nat (length ctx + le_nat bs)),
     blake3_keyed = (\<lambda>k bs. k + of_nat (le_nat bs)),
     xchacha_encrypt = (\<lambda>k n m a. Some (m @ sample_tag k n a)),
     xchacha_decrypt = (\<lambda>k n c a. if 16 \<le> length c \<and> drop (length c - 16) c = sample_tag k n a
                                then Some (take (length c - 16) c) else None),
     x25519_public = (\<lambda>a. a * 9),
     x25519_dh = (\<lambda>a p. a * p)\<rparr>"

lemma sample_aead_ok: "aead_ok sample_deps"
  by (simp add: aead_ok_def sample_deps_def sample_tag_def)

lemma sample_x25519_ok: "x25519_ok sample_deps"
  by (simp add: x25519_ok_def sample_deps_def mult.left_commute mult.commute)

definition empty_world :: world where
  "empty_world = \<lparr>nodes = [], faults = [], read_caps = [], rng = (\<lambda>n. of_nat n), rng_pos = 0,
     clock = (\<lambda>n. n), clock_pos = 0, pid = 1, conns = [], inp = [], out = []\<rparr>"

subsection \<open>Properties\<close>

text \<open>A proof tag binds the session key, both public keys and the role: two equal tags under
  one pre-shared key come from the same transcript, or else exhibit a collision of the keyed hash.\<close>

theorem auth_tag_binding:
  assumes "derive_auth_tag D (AuthPsk psk) k c s r = derive_auth_tag D (AuthPsk psk) k' c' s' r'"
  shows "(k, c, s, r) = (k', c', s', r') \<or>
    collision (blake3_keyed D psk) (auth_transcript k c s r) (auth_transcript k' c' s' r')"
  using assms by (auto simp: collision_def auth_transcript_inj)

theorem auth_tag_binding_witness:
  "(SymmetricKey 1, PublicKeyBytes 2, PublicKeyBytes 3, Client) =
     (SymmetricKey 1, PublicKeyBytes 2, PublicKeyBytes 3, Client) \<or>
   collision (blake3_keyed sample_deps 5)
     (auth_transcript (SymmetricKey 1) (PublicKeyBytes 2) (PublicKeyBytes 3) Client)
     (auth_transcript (SymmetricKey 1) (PublicKeyBytes 2) (PublicKeyBytes 3) Client)"
  by (rule auth_tag_binding) (rule refl)

text \<open>Unwrapping a wrapped file key under the same session key and file identifier gives the
  file key back, whatever nonce was drawn.\<close>

theorem file_key_wrap_roundtrip:
  assumes "aead_ok D" and "wrap_file_key D session_key fid file_key w = (Inr wrapped, w')"
  shows "unwrap_file_key D session_key fid wrapped = Inr file_key"
proof -
  from assms(2) obtain n c where
      "encrypt_chunk D session_key n (symmetric_key_bytes file_key) (build_file_key_aad fid) = Inr c"
      and w: "wrapped = \<lparr>wk_nonce = n, wk_data = c\<rparr>"
    by (auto simp: wrap_file_key_def bindE_Inr)
  then have "decrypt_chunk D session_key n c (build_file_key_aad fid) = Inr (symmetric_key_bytes file_key)"
    using assms(1) by (simp add: decrypt_encrypt_chunk)
  with w show ?thesis
    by (cases file_key) (simp add: unwrap_file_key_def)
qed

theorem file_key_wrap_roundtrip_witness:
  "\<exists>wrapped w'. wrap_file_key sample_deps (SymmetricKey 3) (FileId 7) (SymmetricKey 5) empty_world = (Inr wrapped, w')
     \<and> unwrap_file_key sample_deps (SymmetricKey 3) (FileId 7) wrapped = Inr (SymmetricKey 5)"
proof -
  obtain wrapped w' where
    "wrap_file_key sample_deps (SymmetricKey 3) (FileId 7) (SymmetricKey 5) empty_world = (Inr wrapped, w')"
    by (simp add: wrap_file_key_def generate_nonce_def fill_bytes_def bindE_def sample_deps_def)
  with file_key_wrap_roundtrip [OF sample_aead_ok this] show ?thesis by blast
qed

end
