(* ===== verification/Etle_Descriptor.thy ===== *)
theory Etle_Descriptor
  imports Etle_Crypto
begin

text \<open>
  \<open>src/file/error.rs\<close>, \<open>src/file/manifest.rs\<close> and \<open>src/file/descriptor.rs\<close>: the errors of the
  file layer, the metadata of chunks, files and shares, the share identifier computed from a
  descriptor, and its hexadecimal notation. The serializer \<open>bincode_next\<close> is a parameter for each
  serialized type, with its documented round trip as the hypothesis \<open>bincode_ok\<close>.
\<close>

section \<open>The serializer\<close>

record 'a bincode =
  encode_to_vec :: "'a \<Rightarrow> bytes option"
  decode_from_slice :: "bytes \<Rightarrow> ('a \<times> nat) option"

text \<open>Decoding an encoded value, with anything behind it, returns the value and its size.\<close>

definition bincode_ok :: "'a bincode \<Rightarrow> bool" where
  "bincode_ok C \<longleftrightarrow> (\<forall>v b rest. encode_to_vec C v = Some b \<longrightarrow>
     decode_from_slice C (b @ rest) = Some (v, length b))"

datatype encode_error = EncodeError
datatype decode_error = DecodeError | OtherString string

text \<open>The check for trailing bytes that every \<open>from_bytes\<close> of the program makes.\<close>

definition decode_whole :: "string \<Rightarrow> 'a bincode \<Rightarrow> bytes \<Rightarrow> (decode_error, 'a) result" where
  "decode_whole label C bytes = (case decode_from_slice C bytes of
      None \<Rightarrow> Inl DecodeError
    | Some (value, bytes_read) \<Rightarrow>
        if bytes_read \<noteq> length bytes
        then Inl (OtherString (label @ '' has trailing bytes: decoded '' @ show_nat bytes_read @
               '' of '' @ show_nat (length bytes) @ '' bytes''))
        else Inr value)"

definition encode_whole :: "'a bincode \<Rightarrow> 'a \<Rightarrow> (encode_error, bytes) result" where
  "encode_whole C v = ok_or EncodeError (encode_to_vec C v)"

lemma decode_whole_encode:
  "bincode_ok C \<Longrightarrow> encode_whole C v = Inr b \<Longrightarrow> decode_whole l C b = Inr v"
  by (force simp: bincode_ok_def encode_whole_def decode_whole_def dest: spec [of _ "[]"])

lemma decode_whole_extra:
  "bincode_ok C \<Longrightarrow> encode_whole C v = Inr b \<Longrightarrow> rest \<noteq> [] \<Longrightarrow>
     \<exists>m. decode_whole l C (b @ rest) = Inl (OtherString m)"
  by (auto simp: bincode_ok_def encode_whole_def decode_whole_def)

section \<open>Share identifiers\<close>

datatype share_id = ShareId arr32

fun share_id_bytes :: "share_id \<Rightarrow> bytes" where
  "share_id_bytes (ShareId a) = arr32_bytes a"

fun share_id_to_string :: "share_id \<Rightarrow> string" where
  "share_id_to_string (ShareId a) = hex_string (arr32_bytes a)"

text \<open>The derived order compares the arrays.\<close>

instantiation share_id :: linorder
begin

fun less_eq_share_id :: "share_id \<Rightarrow> share_id \<Rightarrow> bool" where
  "less_eq_share_id (ShareId a) (ShareId b) = (a \<le> b)"

fun less_share_id :: "share_id \<Rightarrow> share_id \<Rightarrow> bool" where
  "less_share_id (ShareId a) (ShareId b) = (a < b)"

instance
proof
  fix x y z :: share_id
  show "(x < y) = (x \<le> y \<and> \<not> y \<le> x)" by (cases x; cases y) auto
  show "x \<le> x" by (cases x) auto
  show "x \<le> y \<Longrightarrow> y \<le> z \<Longrightarrow> x \<le> z" by (cases x; cases y; cases z) auto
  show "x \<le> y \<Longrightarrow> y \<le> x \<Longrightarrow> x = y" by (cases x; cases y) auto
  show "x \<le> y \<or> y \<le> x" by (cases x; cases y) auto
qed

end

datatype parse_share_id_error = ParseShareIdError

definition decode_hex_nibble :: "u8 \<Rightarrow> (parse_share_id_error, u8) result" where
  "decode_hex_nibble value =
     (if 48 \<le> value \<and> value \<le> 57 then Inr (value - 48)
      else if 97 \<le> value \<and> value \<le> 102 then Inr (value - 97 + 10)
      else if 65 \<le> value \<and> value \<le> 70 then Inr (value - 65 + 10)
      else Inl ParseShareIdError)"

definition decode_hex_pair :: "u8 \<Rightarrow> u8 \<Rightarrow> (parse_share_id_error, u8) result" where
  "decode_hex_pair high low = and_then (decode_hex_nibble high) (\<lambda>h.
     and_then (decode_hex_nibble low) (\<lambda>l. Inr (or (push_bit 4 h) l)))"

fun decode_hex_pairs :: "bytes \<Rightarrow> (parse_share_id_error, bytes) result" where
  "decode_hex_pairs (high # low # rest) = and_then (decode_hex_pair high low) (\<lambda>b.
     and_then (decode_hex_pairs rest) (\<lambda>bs. Inr (b # bs)))"
| "decode_hex_pairs _ = Inr []"

definition share_id_from_str :: "string \<Rightarrow> (parse_share_id_error, share_id) result" where
  "share_id_from_str value =
     (if length value \<noteq> 64 then Inl ParseShareIdError
      else and_then (decode_hex_pairs (str_bytes value)) (\<lambda>bytes. Inr (ShareId (from_be_bytes bytes))))"

section \<open>Metadata\<close>

datatype file_error =
    FileIo io_error
  | FileCrypto crypto_error
  | FileEncode encode_error
  | FileDecode decode_error
  | InvalidChunkSize nat
  | TooManyChunks
  | PackageTooLarge
  | MissingChunk u32
  | ChunkHashMismatch u32
  | ChunkSizeMismatch u32 u64 u64
  | InvalidPackageInput path
  | PathOutsideRoot path path
  | EmptyPackage
  | ShareIdMismatch share_id share_id
  | FinalHashMismatch

record chunk_meta =
  cm_index :: u32
  cm_plain_size :: u64
  cm_encrypted_size :: u64
  cm_nonce :: nonce
  cm_hash :: chunk_hash

record manifest =
  m_file_id :: file_id
  m_file_name :: string
  m_file_size :: u64
  m_chunk_size :: u64
  m_chunks :: "chunk_meta list"

definition manifest_to_bytes :: "manifest bincode \<Rightarrow> manifest \<Rightarrow> (encode_error, bytes) result" where
  "manifest_to_bytes C m = encode_whole C m"

definition manifest_from_bytes :: "manifest bincode \<Rightarrow> bytes \<Rightarrow> (decode_error, manifest) result" where
  "manifest_from_bytes C bytes = decode_whole ''manifest'' C bytes"

datatype crypto_suite = XChaCha20Poly1305Blake3X25519V1

fun as_domain_tag :: "crypto_suite \<Rightarrow> bytes" where
  "as_domain_tag XChaCha20Poly1305Blake3X25519V1 = str_bytes ''xchacha20poly1305+blake3+x25519:v1''"

record file_entry =
  fe_path :: string
  fe_size :: u64
  fe_offset :: u64
  fe_hash :: file_id

text \<open>\<open>checked_add\<close> on \<open>u64\<close>.\<close>

definition checked_add_u64 :: "u64 \<Rightarrow> u64 \<Rightarrow> u64 option" where
  "checked_add_u64 a b = (if unat a + unat b < 2 ^ 64 then Some (a + b) else None)"

definition end_offset :: "file_entry \<Rightarrow> u64 option" where
  "end_offset e = checked_add_u64 (fe_offset e) (fe_size e)"

record etle_descriptor =
  d_version :: u16
  d_name :: string
  d_share_id :: share_id
  d_total_size :: u64
  d_chunk_size :: u64
  d_crypto :: crypto_suite
  d_files :: "file_entry list"
  d_chunks :: "chunk_meta list"

section \<open>The share identifier of a descriptor\<close>

definition ETLE_DESCRIPTOR_VERSION :: u16 where
  "ETLE_DESCRIPTOR_VERSION = 1"

definition hash_string :: "string \<Rightarrow> bytes" where
  "hash_string value = to_le_bytes (of_nat (length (str_bytes value)) :: u64) @ str_bytes value"

definition file_entry_hashed :: "file_entry \<Rightarrow> bytes" where
  "file_entry_hashed f = hash_string (fe_path f) @ to_le_bytes (fe_size f) @
     to_le_bytes (fe_offset f) @ file_id_bytes (fe_hash f)"

definition chunk_meta_hashed :: "chunk_meta \<Rightarrow> bytes" where
  "chunk_meta_hashed c = to_le_bytes (cm_index c) @ to_le_bytes (cm_plain_size c) @
     to_le_bytes (cm_encrypted_size c) @ nonce_bytes (cm_nonce c) @ chunk_hash_bytes (cm_hash c)"

definition share_id_preimage ::
    "u16 \<Rightarrow> string \<Rightarrow> u64 \<Rightarrow> u64 \<Rightarrow> crypto_suite \<Rightarrow> file_entry list \<Rightarrow> chunk_meta list \<Rightarrow> bytes" where
  "share_id_preimage version name total_size chunk_size crypto files chunks =
     str_bytes ''etle descriptor share id v1'' @ to_le_bytes version @ hash_string name @
     to_le_bytes total_size @ to_le_bytes chunk_size @ as_domain_tag crypto @
     to_le_bytes (of_nat (length files) :: u64) @ concat (map file_entry_hashed files) @
     to_le_bytes (of_nat (length chunks) :: u64) @ concat (map chunk_meta_hashed chunks)"

definition compute_share_id ::
    "deps \<Rightarrow> u16 \<Rightarrow> string \<Rightarrow> u64 \<Rightarrow> u64 \<Rightarrow> crypto_suite \<Rightarrow> file_entry list \<Rightarrow> chunk_meta list \<Rightarrow> share_id" where
  "compute_share_id D version name total_size chunk_size crypto files chunks =
     ShareId (blake3 D (share_id_preimage version name total_size chunk_size crypto files chunks))"

definition descriptor_new ::
    "deps \<Rightarrow> string \<Rightarrow> u64 \<Rightarrow> u64 \<Rightarrow> file_entry list \<Rightarrow> chunk_meta list \<Rightarrow> etle_descriptor" where
  "descriptor_new D name total_size chunk_size files chunks =
     (let crypto = XChaCha20Poly1305Blake3X25519V1 in
      \<lparr>d_version = ETLE_DESCRIPTOR_VERSION, d_name = name,
       d_share_id = compute_share_id D ETLE_DESCRIPTOR_VERSION name total_size chunk_size crypto files chunks,
       d_total_size = total_size, d_chunk_size = chunk_size, d_crypto = crypto,
       d_files = files, d_chunks = chunks\<rparr>)"

definition descriptor_to_bytes :: "etle_descriptor bincode \<Rightarrow> etle_descriptor \<Rightarrow> (encode_error, bytes) result" where
  "descriptor_to_bytes C d = encode_whole C d"

definition descriptor_from_bytes :: "etle_descriptor bincode \<Rightarrow> bytes \<Rightarrow> (decode_error, etle_descriptor) result" where
  "descriptor_from_bytes C bytes = decode_whole ''descriptor'' C bytes"

definition recompute_share_id :: "deps \<Rightarrow> etle_descriptor \<Rightarrow> share_id" where
  "recompute_share_id D d = compute_share_id D (d_version d) (d_name d) (d_total_size d)
     (d_chunk_size d) (d_crypto d) (d_files d) (d_chunks d)"

definition verify_share_id :: "deps \<Rightarrow> etle_descriptor \<Rightarrow> bool" where
  "verify_share_id D d \<longleftrightarrow> d_share_id d = recompute_share_id D d"

section \<open>Correctness of the share identifier\<close>

text \<open>
  The lengths that Rust's \<open>Vec\<close> and \<open>String\<close> can have (at most \<open>isize::MAX\<close>) fit the 64-bit
  prefixes.
\<close>

definition sizes_fit :: "etle_descriptor \<Rightarrow> bool" where
  "sizes_fit d \<longleftrightarrow> length (d_name d) < 2 ^ 64 \<and> length (d_files d) < 2 ^ 64 \<and>
     length (d_chunks d) < 2 ^ 64 \<and> list_all (\<lambda>f. length (fe_path f) < 2 ^ 64) (d_files d)"

lemma hash_string_append_inj [bytes_inj]:
  "length s < 2 ^ 64 \<Longrightarrow> length t < 2 ^ 64 \<Longrightarrow> hash_string s @ x = hash_string t @ y \<longleftrightarrow> s = t \<and> x = y"
  using len_prefixed_append_inj [of "str_bytes s" "str_bytes t" x y]
  by (simp add: hash_string_def len_prefixed_def)

lemma file_entry_hashed_append_inj:
  "length (fe_path f) < 2 ^ 64 \<Longrightarrow> length (fe_path g) < 2 ^ 64 \<Longrightarrow>
     file_entry_hashed f @ x = file_entry_hashed g @ y \<longleftrightarrow> f = g \<and> x = y"
  by (auto simp: file_entry_hashed_def hash_string_append_inj to_le_bytes_inj)

lemma chunk_meta_hashed_append_inj:
  "chunk_meta_hashed f @ x = chunk_meta_hashed g @ y \<longleftrightarrow> f = g \<and> x = y"
  by (auto simp: chunk_meta_hashed_def to_le_bytes_inj)

lemma files_hashed_append_inj:
  assumes "length fs = length gs" and "list_all (\<lambda>f. length (fe_path f) < 2 ^ 64) fs"
    and "list_all (\<lambda>f. length (fe_path f) < 2 ^ 64) gs"
    and "concat (map file_entry_hashed fs) @ x = concat (map file_entry_hashed gs) @ y"
  shows "fs = gs \<and> x = y"
  by (rule concat_map_append_inj [where A = "{f. length (fe_path f) < 2 ^ 64}" and f = file_entry_hashed])
    (use assms in \<open>auto simp: file_entry_hashed_append_inj list_all_iff\<close>)

lemma chunks_hashed_inj:
  assumes "length cs = length ds"
    and "concat (map chunk_meta_hashed cs) = concat (map chunk_meta_hashed ds)"
  shows "cs = ds"
  using concat_map_append_inj [where A = UNIV and f = chunk_meta_hashed and u = "[]" and v = "[]"]
    assms by (simp add: chunk_meta_hashed_append_inj)

abbreviation descriptor_preimage :: "etle_descriptor \<Rightarrow> bytes" where
  "descriptor_preimage d \<equiv> share_id_preimage (d_version d) (d_name d) (d_total_size d)
     (d_chunk_size d) (d_crypto d) (d_files d) (d_chunks d)"

lemma descriptor_preimage_inj:
  assumes fit: "sizes_fit d" "sizes_fit e"
    and eq: "descriptor_preimage d = descriptor_preimage e"
  shows "d_version d = d_version e \<and> d_name d = d_name e \<and> d_total_size d = d_total_size e \<and>
    d_chunk_size d = d_chunk_size e \<and> d_files d = d_files e \<and> d_chunks d = d_chunks e"
proof -
  have crypto: "d_crypto d = d_crypto e"
    by (cases "d_crypto d"; cases "d_crypto e") simp
  from eq have head: "d_version d = d_version e" "d_name d = d_name e"
      "d_total_size d = d_total_size e" "d_chunk_size d = d_chunk_size e"
      and nf: "(of_nat (length (d_files d)) :: u64) = of_nat (length (d_files e))"
      and fs: "concat (map file_entry_hashed (d_files d)) @
           to_le_bytes (of_nat (length (d_chunks d)) :: u64) @ concat (map chunk_meta_hashed (d_chunks d)) =
         concat (map file_entry_hashed (d_files e)) @
           to_le_bytes (of_nat (length (d_chunks e)) :: u64) @ concat (map chunk_meta_hashed (d_chunks e))"
    using fit by (auto simp: share_id_preimage_def crypto sizes_fit_def hash_string_append_inj to_le_bytes_inj)
  from nf have "length (d_files d) = length (d_files e)"
    using fit by (simp add: sizes_fit_def of_nat_u64_inj)
  with fs fit have files: "d_files d = d_files e"
      and cs: "to_le_bytes (of_nat (length (d_chunks d)) :: u64) @ concat (map chunk_meta_hashed (d_chunks d)) =
         to_le_bytes (of_nat (length (d_chunks e)) :: u64) @ concat (map chunk_meta_hashed (d_chunks e))"
    using files_hashed_append_inj by (auto simp: sizes_fit_def)
  from cs have "(of_nat (length (d_chunks d)) :: u64) = of_nat (length (d_chunks e))"
      and cs': "concat (map chunk_meta_hashed (d_chunks d)) = concat (map chunk_meta_hashed (d_chunks e))"
    by (simp_all add: to_le_bytes_inj)
  then have "d_chunks d = d_chunks e"
    using fit chunks_hashed_inj by (simp add: sizes_fit_def of_nat_u64_inj)
  with head files show ?thesis by simp
qed

text \<open>C5: two verified descriptors with the same share identifier are the same descriptor, or
  their hashed encodings exhibit a collision of BLAKE3. The identifier commits to every field.\<close>

theorem share_id_commits_to_descriptor:
  assumes "verify_share_id D d" and "verify_share_id D e" and "d_share_id d = d_share_id e"
    and "sizes_fit d" and "sizes_fit e"
  shows "d = e \<or> collision (blake3 D) (descriptor_preimage d) (descriptor_preimage e)"
proof (rule disjCI)
  assume "\<not> collision (blake3 D) (descriptor_preimage d) (descriptor_preimage e)"
  with assms have "descriptor_preimage d = descriptor_preimage e"
    by (auto simp: verify_share_id_def recompute_share_id_def compute_share_id_def collision_def)
  note fields = descriptor_preimage_inj [OF assms(4,5) this]
  moreover have "d_crypto d = d_crypto e"
    by (cases "d_crypto d"; cases "d_crypto e") simp
  ultimately show "d = e"
    using assms(3) fields by (intro etle_descriptor.equality) auto
qed

definition sample_chunk_meta :: "u32 \<Rightarrow> chunk_meta" where
  "sample_chunk_meta i = \<lparr>cm_index = i, cm_plain_size = 4, cm_encrypted_size = 20, cm_nonce = Nonce 1,
     cm_hash = ChunkHash 2\<rparr>"

definition sample_descriptor :: etle_descriptor where
  "sample_descriptor = descriptor_new sample_deps ''sample'' 4 4
     [\<lparr>fe_path = ''a.txt'', fe_size = 4, fe_offset = 0, fe_hash = FileId 1\<rparr>] [sample_chunk_meta 0]"

lemma descriptor_new_verifies: "verify_share_id D (descriptor_new D name total_size cs files chunks)"
  by (simp add: verify_share_id_def recompute_share_id_def descriptor_new_def Let_def)

definition flat_hash_deps :: deps where
  "flat_hash_deps = sample_deps\<lparr>blake3 := (\<lambda>_. 0)\<rparr>"

text \<open>Under a hash with collisions the second alternative is the one that holds.\<close>

theorem share_id_commits_to_descriptor_witness:
  "descriptor_new flat_hash_deps ''a'' 4 4 [] [] = descriptor_new flat_hash_deps ''b'' 4 4 [] [] \<or>
   collision (blake3 flat_hash_deps) (descriptor_preimage (descriptor_new flat_hash_deps ''a'' 4 4 [] []))
     (descriptor_preimage (descriptor_new flat_hash_deps ''b'' 4 4 [] []))"
proof (rule share_id_commits_to_descriptor)
  show "verify_share_id flat_hash_deps (descriptor_new flat_hash_deps ''a'' 4 4 [] [])"
    "verify_share_id flat_hash_deps (descriptor_new flat_hash_deps ''b'' 4 4 [] [])"
    by (rule descriptor_new_verifies)+
  show "d_share_id (descriptor_new flat_hash_deps ''a'' 4 4 [] []) =
      d_share_id (descriptor_new flat_hash_deps ''b'' 4 4 [] [])"
    by (simp add: descriptor_new_def compute_share_id_def flat_hash_deps_def)
  show "sizes_fit (descriptor_new flat_hash_deps ''a'' 4 4 [] [])"
    "sizes_fit (descriptor_new flat_hash_deps ''b'' 4 4 [] [])"
    by (simp_all add: descriptor_new_def sizes_fit_def)
qed

section \<open>Correctness of the hexadecimal notation\<close>

definition ascii_lower :: "char \<Rightarrow> char" where
  "ascii_lower c = (if 65 \<le> (of_char c :: nat) \<and> of_char c \<le> (90 :: nat) then char_of (of_char c + 32 :: nat) else c)"

lemma of_hex_digit: "d < 16 \<Longrightarrow> (of_char (hex_digit d) :: nat) = (if d < 10 then 48 + d else 87 + d)"
  by (simp add: hex_digit_def)

lemma decode_hex_nibble_unat:
  "decode_hex_nibble b = Inr d \<longleftrightarrow>
     (48 \<le> unat b \<and> unat b \<le> 57 \<and> unat d = unat b - 48) \<or>
     (97 \<le> unat b \<and> unat b \<le> 102 \<and> unat d = unat b - 87) \<or>
     (65 \<le> unat b \<and> unat b \<le> 70 \<and> unat d = unat b - 55)"
proof -
  have sub: "unat (b - k) = unat b - unat k" if "k \<le> b" for k
    using that by (rule unat_sub)
  have le: "k \<le> b \<longleftrightarrow> unat k \<le> unat b" "b \<le> k \<longleftrightarrow> unat b \<le> unat k" for k
    by (simp_all add: word_le_nat_alt)
  show ?thesis
    by (auto simp: decode_hex_nibble_def le word_unat_eq_iff sub unat_word_ariths)
qed

lemma decode_hex_nibble_char:
  "decode_hex_nibble (byte_of_char c) = Inr d \<longleftrightarrow> unat d < 16 \<and> ascii_lower c = hex_digit (unat d)"
proof -
  define n :: nat where "n = of_char c"
  have n: "n < 256" by (simp add: n_def)
  have low: "(of_char (ascii_lower c) :: nat) = (if 65 \<le> n \<and> n \<le> 90 then n + 32 else n)"
    by (simp add: ascii_lower_def n_def)
  have eq: "ascii_lower c = hex_digit k \<longleftrightarrow>
      (if 65 \<le> n \<and> n \<le> 90 then n + 32 else n) = (if k < 10 then 48 + k else 87 + k)" if "k < 16" for k
    by (metis low of_hex_digit [OF that] of_char_eq_iff)
  show ?thesis
    by (cases "unat d < 16") (auto simp: decode_hex_nibble_unat eq simp flip: n_def split: if_splits)
qed

lemma unat_nibbles:
  assumes "unat (h :: u8) < 16" and "unat (l :: u8) < 16"
  shows "unat (or (push_bit 4 h) l) = 16 * unat h + unat l"
proof -
  have "l = take_bit 4 l"
    using assms(2) by (simp add: word_unat_eq_iff take_bit_eq_mod unat_mod)
  then have "\<not> bit l n" if "4 \<le> n" for n
    using that by (metis bit_take_bit_iff leD)
  then have "or (push_bit 4 h) l = push_bit 4 h + l"
    by (intro disjunctive_add [symmetric]) (auto simp: bit_push_bit_iff)
  moreover have "push_bit 4 h = 16 * h"
    by (simp add: push_bit_eq_mult mult.commute)
  ultimately show ?thesis
    using assms by (simp add: unat_word_ariths)
qed

lemma decode_hex_pair_chars:
  "decode_hex_pair (byte_of_char c) (byte_of_char d) = Inr b \<longleftrightarrow> [ascii_lower c, ascii_lower d] = hex_byte b"
proof
  assume "decode_hex_pair (byte_of_char c) (byte_of_char d) = Inr b"
  then obtain h l where "decode_hex_nibble (byte_of_char c) = Inr h"
      and "decode_hex_nibble (byte_of_char d) = Inr l" and "b = or (push_bit 4 h) l"
    by (auto simp: decode_hex_pair_def and_then_Inr)
  then show "[ascii_lower c, ascii_lower d] = hex_byte b"
    by (simp add: decode_hex_nibble_char hex_byte_def unat_nibbles)
next
  assume hex: "[ascii_lower c, ascii_lower d] = hex_byte b"
  define h l :: u8 where "h = of_nat (unat b div 16)" and "l = of_nat (unat b mod 16)"
  have hl: "unat h = unat b div 16" "unat l = unat b mod 16" "unat h < 16" "unat l < 16"
    using unat_byte_bound [of b] by (simp_all add: h_def l_def unat_of_nat)
  with hex have "decode_hex_nibble (byte_of_char c) = Inr h" "decode_hex_nibble (byte_of_char d) = Inr l"
    by (simp_all add: decode_hex_nibble_char hex_byte_def)
  moreover have "or (push_bit 4 h) l = b"
    using hl by (simp add: word_unat_eq_iff unat_nibbles)
  ultimately show "decode_hex_pair (byte_of_char c) (byte_of_char d) = Inr b"
    by (simp add: decode_hex_pair_def)
qed

lemma decode_hex_pairs_chars:
  "even (length s) \<Longrightarrow> decode_hex_pairs (str_bytes s) = Inr bs \<longleftrightarrow> map ascii_lower s = hex_string bs"
proof (induction s arbitrary: bs rule: induct_list012)
  case 1
  show ?case by (cases bs) (simp_all add: str_bytes_def hex_string_def hex_byte_def)
next
  case (2 c)
  then show ?case by simp
next
  case (3 c d s)
  have IH: "decode_hex_pairs (str_bytes s) = Inr bs' \<longleftrightarrow> map ascii_lower s = hex_string bs'" for bs'
    using 3 by simp
  have "decode_hex_pairs (str_bytes (c # d # s)) = Inr bs \<longleftrightarrow>
      (\<exists>b bs'. bs = b # bs' \<and> decode_hex_pair (byte_of_char c) (byte_of_char d) = Inr b
        \<and> decode_hex_pairs (str_bytes s) = Inr bs')"
    by (auto simp: str_bytes_def and_then_Inr)
  also have "\<dots> \<longleftrightarrow> map ascii_lower (c # d # s) = hex_string bs"
    by (cases bs) (auto simp: IH decode_hex_pair_chars hex_string_def hex_byte_def)
  finally show ?case .
qed

text \<open>A string is accepted as a share identifier exactly when, up to the case of its letters, it
  is what the identifier prints as; in particular printing and parsing are inverse.\<close>

theorem share_id_parse_print:
  "share_id_from_str s = Inr i \<longleftrightarrow> map ascii_lower s = share_id_to_string i"
proof (cases "length s = 64")
  case True
  then have "share_id_from_str s = Inr i \<longleftrightarrow>
      (\<exists>bs. map ascii_lower s = hex_string bs \<and> i = ShareId (from_be_bytes bs))"
    by (auto simp: share_id_from_str_def and_then_Inr decode_hex_pairs_chars)
  also have "\<dots> \<longleftrightarrow> map ascii_lower s = share_id_to_string i"
  proof
    assume "\<exists>bs. map ascii_lower s = hex_string bs \<and> i = ShareId (from_be_bytes bs)"
    then obtain bs where bs: "map ascii_lower s = hex_string bs" "i = ShareId (from_be_bytes bs)"
      by blast
    from bs(1) have "length (map ascii_lower s) = length (hex_string bs)"
      by (rule arg_cong)
    then have "length bs = 32"
      using True by simp
    then have "arr32_bytes (from_be_bytes bs) = bs"
      by (simp add: arr32_bytes_def to_be_bytes_from_be_bytes)
    with bs show "map ascii_lower s = share_id_to_string i" by simp
  next
    assume "map ascii_lower s = share_id_to_string i"
    then show "\<exists>bs. map ascii_lower s = hex_string bs \<and> i = ShareId (from_be_bytes bs)"
      by (cases i) (auto intro!: exI [of _ "arr32_bytes _"] simp: arr32_bytes_def from_be_bytes_to_be_bytes)
  qed
  finally show ?thesis .
next
  case False
  then have "map ascii_lower s \<noteq> share_id_to_string i"
    by (cases i) (metis length_arr_bytes(1) length_hex_string length_map mult_2 numeral_Bit0 share_id_to_string.simps)
  with False show ?thesis by (simp add: share_id_from_str_def)
qed

lemma ascii_lower_hex_digit: "d < 16 \<Longrightarrow> ascii_lower (hex_digit d) = hex_digit d"
  by (auto simp: ascii_lower_def of_hex_digit)

lemma ascii_lower_hex_string: "map ascii_lower (hex_string bs) = hex_string bs"
proof (induction bs)
  case Nil
  show ?case by (simp add: hex_string_def)
next
  case (Cons b bs)
  have "unat b div 16 < 16" "unat b mod 16 < 16"
    using unat_byte_bound [of b] by simp_all
  then have "map ascii_lower (hex_byte b) = hex_byte b"
    by (simp only: hex_byte_def list.map ascii_lower_hex_digit)
  with Cons show ?case
    by (simp add: hex_string_def)
qed

lemma decode_hex_string: "decode_hex_pairs (str_bytes (hex_string bs)) = Inr bs"
  by (subst decode_hex_pairs_chars) (simp_all add: ascii_lower_hex_string)

lemma hex_string_inj: "hex_string as = hex_string bs \<longleftrightarrow> as = bs"
  by (metis decode_hex_string sum.inject(2))

lemma share_id_to_string_inj [simp]: "share_id_to_string i = share_id_to_string j \<longleftrightarrow> i = j"
  by (cases i; cases j) (simp add: hex_string_inj)

end
