(* ===== verification/Etle_Chunker.thy ===== *)
theory Etle_Chunker
  imports Etle_Descriptor "HOL-Library.Multiset"
begin

text \<open>
  \<open>src/file/chunker.rs\<close> and the chunk reader of \<open>src/file/package.rs\<close>: cutting a file, or the
  concatenation of the files of a package, into indexed chunks, and joining chunks again. The
  reference is \<open>chop\<close>, which cuts a byte string into pieces of one size. A single \<open>read\<close> may return
  fewer bytes than the buffer holds; the package reader compensates for that, the file reader
  does not.
\<close>

definition DEFAULT_CHUNK_SIZE :: nat where
  "DEFAULT_CHUNK_SIZE = 1024 * 1024"

record plain_chunk =
  pc_index :: u32
  pc_data :: bytes

definition checked_add_u32 :: "u32 \<Rightarrow> u32 \<Rightarrow> u32 option" where
  "checked_add_u32 a b = (if unat a + unat b < 2 ^ 32 then Some (a + b) else None)"

section \<open>Reading a file in chunks\<close>

function read_chunks_loop :: "nat \<Rightarrow> u32 \<Rightarrow> plain_chunk list \<Rightarrow> bytes \<Rightarrow> (file_error, plain_chunk list) io" where
  "read_chunks_loop chunk_size index chunks rem w =
     (case file_read chunk_size rem w of
        (Inl e, w') \<Rightarrow> (Inl (FileIo e), w')
      | (Inr (buffer, rem'), w') \<Rightarrow>
          if buffer = [] then (Inr chunks, w')
          else (case checked_add_u32 index 1 of
              None \<Rightarrow> (Inl TooManyChunks, w')
            | Some index' \<Rightarrow> read_chunks_loop chunk_size index'
                (chunks @ [\<lparr>pc_index = index, pc_data = buffer\<rparr>]) rem' w'))"
  by pat_completeness auto
termination
  by (relation "measure (\<lambda>(chunk_size, index, chunks, rem, w). length rem)")
    (auto dest: file_read_decreases [OF sym])

declare read_chunks_loop.simps [simp del]

definition read_file_chunks :: "path \<Rightarrow> nat \<Rightarrow> (file_error, plain_chunk list) io" where
  "read_file_chunks p chunk_size =
     (if chunk_size = 0 then throwE (InvalidChunkSize chunk_size)
      else bindE (intoE FileIo (fs_open p)) (read_chunks_loop chunk_size 0 []))"

definition join_chunks :: "plain_chunk list \<Rightarrow> bytes" where
  "join_chunks chunks = concat (map pc_data (sort_key pc_index chunks))"

section \<open>Reading a package in chunks\<close>

record package_source_file =
  psf_entry :: file_entry
  psf_source_path :: path

record package_layout =
  pl_name :: string
  pl_root_path :: path
  pl_total_size :: u64
  pl_files :: "package_source_file list"

definition descriptor_files :: "package_layout \<Rightarrow> file_entry list" where
  "descriptor_files layout = map psf_entry (pl_files layout)"

text \<open>The local variables of the reader: the next index, the chunk being filled, the chunks done.\<close>

record chunk_acc =
  ca_index :: u32
  ca_buffer :: bytes
  ca_chunks :: "plain_chunk list"

text \<open>
  The \<open>while\<close> loop that distributes the bytes of one read. The buffer is never full when the loop
  is entered (lemma \<open>fill_chunks_inv\<close>); in a state with a full buffer, which no run reaches, the
  recursion stops.
\<close>

function fill_chunks :: "nat \<Rightarrow> chunk_acc \<Rightarrow> bytes \<Rightarrow> (file_error, chunk_acc) result" where
  "fill_chunks chunk_size st remaining =
     (if remaining = [] \<or> chunk_size \<le> length (ca_buffer st) then Inr st
      else let free = chunk_size - length (ca_buffer st);
               n = min free (length remaining);
               buffer = ca_buffer st @ take n remaining;
               remaining' = drop n remaining
           in if length buffer = chunk_size
              then (case checked_add_u32 (ca_index st) 1 of
                  None \<Rightarrow> Inl TooManyChunks
                | Some index' \<Rightarrow> fill_chunks chunk_size
                    \<lparr>ca_index = index', ca_buffer = [],
                     ca_chunks = ca_chunks st @ [\<lparr>pc_index = ca_index st, pc_data = buffer\<rparr>]\<rparr> remaining')
              else fill_chunks chunk_size (st\<lparr>ca_buffer := buffer\<rparr>) remaining')"
  by pat_completeness auto
termination
  by (relation "measure (\<lambda>(chunk_size, st, remaining). length remaining)") auto

declare fill_chunks.simps [simp del]

function read_source_loop :: "nat \<Rightarrow> chunk_acc \<Rightarrow> bytes \<Rightarrow> (file_error, chunk_acc) io" where
  "read_source_loop chunk_size st rem w =
     (case file_read (64 * 1024) rem w of
        (Inl e, w') \<Rightarrow> (Inl (FileIo e), w')
      | (Inr (got, rem'), w') \<Rightarrow>
          if got = [] then (Inr st, w')
          else (case fill_chunks chunk_size st got of
              Inl e \<Rightarrow> (Inl e, w')
            | Inr st' \<Rightarrow> read_source_loop chunk_size st' rem' w'))"
  by pat_completeness auto
termination
  by (relation "measure (\<lambda>(chunk_size, st, rem, w). length rem)")
    (auto dest: file_read_decreases [OF sym])

declare read_source_loop.simps [simp del]

fun read_sources :: "nat \<Rightarrow> chunk_acc \<Rightarrow> package_source_file list \<Rightarrow> (file_error, chunk_acc) io" where
  "read_sources chunk_size st [] = returnE st"
| "read_sources chunk_size st (f # fs) =
     bindE (intoE FileIo (fs_open (psf_source_path f))) (\<lambda>rem.
     bindE (read_source_loop chunk_size st rem) (\<lambda>st'. read_sources chunk_size st' fs))"

definition read_package_chunks :: "package_layout \<Rightarrow> nat \<Rightarrow> (file_error, plain_chunk list) io" where
  "read_package_chunks layout chunk_size =
     (if chunk_size = 0 then throwE (InvalidChunkSize chunk_size)
      else bindE (read_sources chunk_size \<lparr>ca_index = 0, ca_buffer = [], ca_chunks = []\<rparr> (pl_files layout)) (\<lambda>st.
        returnE (if ca_buffer st = [] then ca_chunks st
          else ca_chunks st @ [\<lparr>pc_index = ca_index st, pc_data = ca_buffer st\<rparr>])))"

section \<open>The reference: cutting a list into pieces\<close>

function chop :: "nat \<Rightarrow> 'a list \<Rightarrow> 'a list list" where
  "chop n xs = (if n = 0 \<or> xs = [] then [] else take n xs # chop n (drop n xs))"
  by pat_completeness auto
termination
  by (relation "measure (\<lambda>(n, xs). length xs)") auto

declare chop.simps [simp del]

lemma chop_Nil [simp]: "chop n [] = []"
  by (simp add: chop.simps)

lemma chop_step: "0 < n \<Longrightarrow> xs \<noteq> [] \<Longrightarrow> chop n xs = take n xs # chop n (drop n xs)"
  by (subst chop.simps) simp

lemma chop_short: "0 < n \<Longrightarrow> xs \<noteq> [] \<Longrightarrow> length xs \<le> n \<Longrightarrow> chop n xs = [xs]"
  by (simp add: chop_step)

lemma chop_full: "length xs = n \<Longrightarrow> 0 < n \<Longrightarrow> chop n (xs @ ys) = xs # chop n ys"
  by (subst chop_step) auto

lemma concat_chop: "0 < n \<Longrightarrow> concat (chop n xs) = xs"
  by (induction n xs rule: chop.induct) (subst chop.simps, simp)

lemma chop_lengths: "c \<in> set (chop n xs) \<Longrightarrow> c \<noteq> [] \<and> length c \<le> n"
  by (induction n xs rule: chop.induct) (subst (asm) chop.simps, auto split: if_splits)

text \<open>Appending whole pieces in front.\<close>

lemma chop_concat:
  "0 < n \<Longrightarrow> (\<And>c. c \<in> set cs \<Longrightarrow> length c = n) \<Longrightarrow> chop n (concat cs @ ys) = cs @ chop n ys"
  by (induction cs) (auto simp: chop_full)

section \<open>Indexed chunks\<close>

text \<open>The chunks carry the indices 0, 1, 2, ... in order.\<close>

definition indexed :: "plain_chunk list \<Rightarrow> bool" where
  "indexed chunks \<longleftrightarrow> map pc_index chunks = map of_nat [0..<length chunks] \<and> length chunks < 2 ^ 32"

lemma checked_add_u32_Some:
  "checked_add_u32 i 1 = Some j \<Longrightarrow> j = i + 1 \<and> unat j = Suc (unat i)"
  by (auto simp: checked_add_u32_def unat_word_ariths split: if_splits)

lemma indexed_snoc:
  assumes "indexed chunks" and "i = of_nat (length chunks)" and "checked_add_u32 i 1 = Some j"
  shows "indexed (chunks @ [\<lparr>pc_index = i, pc_data = d\<rparr>])" and "j = of_nat (length chunks + 1)"
proof -
  have "unat i = length chunks"
    using assms(1,2) by (simp add: indexed_def unat_of_nat)
  then have j: "j = i + 1" "unat j = length chunks + 1"
    using checked_add_u32_Some [OF assms(3)] by auto
  moreover have "length chunks + 1 < 2 ^ 32"
    using unat_u32_bound [of j] j(2) by simp
  ultimately show "indexed (chunks @ [\<lparr>pc_index = i, pc_data = d\<rparr>])" "j = of_nat (length chunks + 1)"
    using assms(1,2) by (simp_all add: indexed_def add.commute)
qed

lemma indexed_distinct: "indexed chunks \<Longrightarrow> distinct (map pc_index chunks)"
  by (auto simp: indexed_def distinct_map inj_on_def word_unat_eq_iff unat_of_nat)

lemma indexed_sorted: "indexed chunks \<Longrightarrow> sorted (map pc_index chunks)"
  by (auto simp: indexed_def sorted_iff_nth_mono word_le_nat_alt unat_of_nat)

section \<open>Correctness of the readers\<close>

subsection \<open>The file reader\<close>

lemma file_read_full:
  "read_caps w = [] \<Longrightarrow> file_read n rem w = (Inr (got, rem'), w') \<Longrightarrow>
     got = take n rem \<and> rem' = drop n rem \<and> read_caps w' = []"
  by (auto simp: file_read_def syscall_def Let_def split: list.splits option.splits prod.splits)

lemma file_read_at_most: "file_read n rem w = (Inr (got, rem'), w') \<Longrightarrow> length got \<le> n"
  by (auto simp: file_read_def syscall_def Let_def split: list.splits option.splits prod.splits)

lemma read_chunks_loop_Inr:
  assumes "read_chunks_loop cs i chunks rem w = (Inr done, w')" and "0 < cs"
    and "indexed chunks" and "i = of_nat (length chunks)"
  shows "\<exists>new. done = chunks @ new \<and> indexed done \<and> concat (map pc_data new) = rem \<and>
    (\<forall>c \<in> set new. pc_data c \<noteq> [] \<and> length (pc_data c) \<le> cs) \<and>
    (read_caps w = [] \<longrightarrow> map pc_data new = chop cs rem)"
  using assms
proof (induction cs i chunks rem w rule: read_chunks_loop.induct)
  case (1 cs i chunks rem w)
  let ?c = "\<lambda>buf. \<lparr>pc_index = i, pc_data = buf\<rparr>"
  from "1.prems"(1) obtain buf rem' w1 where
      rd: "file_read cs rem w = (Inr (buf, rem'), w1)"
      and rest: "(if buf = [] then (Inr chunks, w1)
          else case checked_add_u32 i 1 of None \<Rightarrow> (Inl TooManyChunks, w1)
            | Some i' \<Rightarrow> read_chunks_loop cs i' (chunks @ [?c buf]) rem' w1) = (Inr done, w')"
    by (subst (asm) read_chunks_loop.simps) (auto split: prod.splits sum.splits)
  show ?case
  proof (cases "buf = []")
    case True
    with rd "1.prems"(2) have "rem = []"
      by (auto dest: file_read_end)
    with True rest "1.prems" show ?thesis by simp
  next
    case False
    with rest obtain i' where i': "checked_add_u32 i 1 = Some i'"
        and rec: "read_chunks_loop cs i' (chunks @ [?c buf]) rem' w1 = (Inr done, w')"
      by (auto split: option.splits)
    have ix: "indexed (chunks @ [?c buf])" "i' = of_nat (length (chunks @ [?c buf]))"
      using indexed_snoc [OF "1.prems"(3,4) i'] by simp_all
    from "1.IH" [OF rd [symmetric] refl refl False i' rec "1.prems"(2) ix] obtain new where
        new: "done = chunks @ ?c buf # new" "indexed done" "concat (map pc_data new) = rem'"
          "\<forall>c \<in> set new. pc_data c \<noteq> [] \<and> length (pc_data c) \<le> cs"
          "read_caps w1 = [] \<longrightarrow> map pc_data new = chop cs rem'"
      by auto
    have "rem = buf @ rem'" and "length buf \<le> cs"
      using rd by (auto dest: file_read_decreases file_read_at_most)
    moreover have "read_caps w = [] \<longrightarrow> map pc_data (?c buf # new) = chop cs rem"
      using new(5) rd False "1.prems"(2) file_read_full [OF _ rd] by (auto simp: chop_step)
    ultimately show ?thesis
      using new False by (intro exI [of _ "?c buf # new"]) auto
  qed
qed

lemma read_file_chunks_Inr:
  assumes "read_file_chunks p cs w = (Inr chunks, w')"
  obtains bs where "lookup w p = Some (FileN bs)" "concat (map pc_data chunks) = bs" "indexed chunks"
    "\<forall>c \<in> set chunks. pc_data c \<noteq> [] \<and> length (pc_data c) \<le> cs" "0 < cs"
    "read_caps w = [] \<Longrightarrow> map pc_data chunks = chop cs bs"
proof -
  from assms obtain bs w1 where cs: "0 < cs" and op: "fs_read p w = (Inr bs, w1)"
      and lp: "read_chunks_loop cs 0 [] bs w1 = (Inr chunks, w')"
    by (auto simp: read_file_chunks_def fs_open_def bindE_Inr split: if_splits)
  have "read_caps w1 = read_caps w"
    using op by (auto simp: fs_read_def syscall_def split: list.splits option.splits node.splits if_splits prod.splits)
  moreover have "indexed []"
    by (simp add: indexed_def)
  ultimately show ?thesis
    using that [of bs] cs fs_read_Inr [OF op] read_chunks_loop_Inr [OF lp cs] by auto
qed

subsection \<open>The package reader\<close>

definition acc_inv :: "nat \<Rightarrow> chunk_acc \<Rightarrow> bytes \<Rightarrow> bool" where
  "acc_inv cs st seen \<longleftrightarrow> indexed (ca_chunks st) \<and> ca_index st = of_nat (length (ca_chunks st)) \<and>
     length (ca_buffer st) < cs \<and> (\<forall>c \<in> set (ca_chunks st). length (pc_data c) = cs) \<and>
     concat (map pc_data (ca_chunks st)) @ ca_buffer st = seen"

lemma fill_chunks_Nil: "fill_chunks cs st [] = Inr st"
  by (simp add: fill_chunks.simps)

lemma fill_chunks_step:
  assumes "rem \<noteq> []" and "length (ca_buffer st) < cs"
    and "n = min (cs - length (ca_buffer st)) (length rem)" and "buf = ca_buffer st @ take n rem"
  shows "fill_chunks cs st rem =
    (if length buf = cs
     then (case checked_add_u32 (ca_index st) 1 of
         None \<Rightarrow> Inl TooManyChunks
       | Some i \<Rightarrow> fill_chunks cs \<lparr>ca_index = i, ca_buffer = [],
            ca_chunks = ca_chunks st @ [\<lparr>pc_index = ca_index st, pc_data = buf\<rparr>]\<rparr> (drop n rem))
     else fill_chunks cs (st\<lparr>ca_buffer := buf\<rparr>) (drop n rem))"
proof -
  have "(rem = [] \<or> cs \<le> length (ca_buffer st)) = False"
    using assms(1,2) by simp
  then show ?thesis
    unfolding assms(3,4) by (subst fill_chunks.simps) (simp only: if_False Let_def)
qed

lemma fill_chunks_inv:
  "fill_chunks cs st rem = Inr st' \<Longrightarrow> acc_inv cs st seen \<Longrightarrow> acc_inv cs st' (seen @ rem)"
proof (induction "length rem" arbitrary: st rem seen rule: less_induct)
  case less
  show ?case
  proof (cases "rem = []")
    case True
    with less.prems show ?thesis by (simp add: fill_chunks_Nil)
  next
    case False
    define n where "n = min (cs - length (ca_buffer st)) (length rem)"
    define buf where "buf = ca_buffer st @ take n rem"
    have room: "length (ca_buffer st) < cs"
      using less.prems(2) by (simp add: acc_inv_def)
    then have shorter: "length (drop n rem) < length rem"
      using False by (auto simp: n_def)
    note step = fill_chunks_step [OF False room n_def buf_def]
    have seen: "concat (map pc_data (ca_chunks st)) @ buf = seen @ take n rem"
      using less.prems(2) by (auto simp: acc_inv_def buf_def)
    have buf_le: "length buf \<le> cs"
      using room by (simp add: buf_def n_def)
    show ?thesis
    proof (cases "length buf = cs")
      case True
      let ?c = "\<lparr>pc_index = ca_index st, pc_data = buf\<rparr>"
      from less.prems(1) step True obtain i where i: "checked_add_u32 (ca_index st) 1 = Some i"
          and rec: "fill_chunks cs \<lparr>ca_index = i, ca_buffer = [], ca_chunks = ca_chunks st @ [?c]\<rparr> (drop n rem) = Inr st'"
        by (auto split: option.splits)
      have "acc_inv cs \<lparr>ca_index = i, ca_buffer = [], ca_chunks = ca_chunks st @ [?c]\<rparr> (seen @ take n rem)"
        using less.prems(2) True room seen indexed_snoc(1) [OF _ _ i, of "ca_chunks st" buf]
          indexed_snoc(2) [OF _ _ i, of "ca_chunks st"]
        by (auto simp: acc_inv_def)
      from less.hyps [OF shorter rec this] show ?thesis by simp
    next
      case False
      with less.prems(1) step have rec: "fill_chunks cs (st\<lparr>ca_buffer := buf\<rparr>) (drop n rem) = Inr st'"
        by simp
      have "acc_inv cs (st\<lparr>ca_buffer := buf\<rparr>) (seen @ take n rem)"
        using less.prems(2) False buf_le seen by (auto simp: acc_inv_def)
      from less.hyps [OF shorter rec this] show ?thesis by simp
    qed
  qed
qed

lemma read_source_loop_inv:
  assumes "read_source_loop cs st rem w = (Inr st', w')" and "acc_inv cs st seen"
  shows "acc_inv cs st' (seen @ rem) \<and> nodes w' = nodes w"
  using assms
proof (induction cs st rem w arbitrary: seen rule: read_source_loop.induct)
  case (1 cs st rem w)
  from "1.prems"(1) obtain got rem' w1 where
      rd: "file_read (64 * 1024) rem w = (Inr (got, rem'), w1)"
      and rest: "(if got = [] then (Inr st, w1)
          else case fill_chunks cs st got of Inl e \<Rightarrow> (Inl e, w1)
            | Inr st1 \<Rightarrow> read_source_loop cs st1 rem' w1) = (Inr st', w')"
    by (subst (asm) read_source_loop.simps) (auto split: prod.splits sum.splits)
  have rem: "rem = got @ rem'" and w1: "nodes w1 = nodes w"
    using rd by (auto dest: file_read_decreases simp: file_read_def syscall_def no_effect_def Let_def
        split: list.splits option.splits prod.splits)
  show ?case
  proof (cases "got = []")
    case True
    with rd have "rem = []"
      by (auto dest: file_read_end)
    with True rest "1.prems" w1 show ?thesis by simp
  next
    case False
    with rest obtain st1 where st1: "fill_chunks cs st got = Inr st1"
        and rec: "read_source_loop cs st1 rem' w1 = (Inr st', w')"
      by (auto split: sum.splits)
    from "1.IH" [OF rd [symmetric] refl refl False st1 rec fill_chunks_inv [OF st1 "1.prems"(2)]] rem w1
    show ?thesis by simp
  qed
qed

text \<open>The bytes of a package: the contents of its files, in the order of the layout.\<close>

definition package_bytes :: "world \<Rightarrow> package_source_file list \<Rightarrow> bytes" where
  "package_bytes w fs = concat (map (\<lambda>f. case lookup w (psf_source_path f) of
      Some (FileN bs) \<Rightarrow> bs | _ \<Rightarrow> []) fs)"

lemma read_sources_inv:
  assumes "read_sources cs st fs w = (Inr st', w')" and "acc_inv cs st seen"
  shows "acc_inv cs st' (seen @ package_bytes w fs) \<and> list_all (\<lambda>f. is_file w (psf_source_path f)) fs"
  using assms
proof (induction cs st fs arbitrary: w seen rule: read_sources.induct)
  case (1 cs st)
  then show ?case by (simp add: package_bytes_def)
next
  case (2 cs st f fs)
  from "2.prems"(1) obtain bs w1 st1 w2 where op: "fs_read (psf_source_path f) w = (Inr bs, w1)"
      and lp: "read_source_loop cs st bs w1 = (Inr st1, w2)"
      and rec: "read_sources cs st1 fs w2 = (Inr st', w')"
    by (auto simp: fs_open_def bindE_Inr)
  note src = fs_read_Inr [OF op] and inv = read_source_loop_inv [OF lp "2.prems"(2)]
  then have same: "lookup w2 = lookup w"
    by (simp add: lookup_def fun_eq_iff)
  from "2.IH" [OF rec, of "seen @ bs"] inv
  have "acc_inv cs st' ((seen @ bs) @ package_bytes w2 fs)" "list_all (\<lambda>f. is_file w2 (psf_source_path f)) fs"
    by auto
  with src same show ?case by (simp add: package_bytes_def is_file_def)
qed

subsection \<open>Joining\<close>

lemma join_chunks_perm:
  assumes "mset shuffled = mset chunks" and "indexed chunks"
  shows "join_chunks shuffled = concat (map pc_data chunks)"
proof -
  have "inj_on pc_index (set shuffled)"
    using indexed_distinct [OF assms(2)] mset_eq_setD [OF assms(1)] by (simp add: distinct_map)
  then have "sort_key pc_index shuffled = chunks"
    using assms indexed_sorted by (intro sort_key_inj_key_eq) auto
  then show ?thesis by (simp add: join_chunks_def)
qed

subsection \<open>The readers return\<close>

lemma file_read_calm:
  "faults w = [] \<Longrightarrow> read_caps w = [] \<Longrightarrow> file_read n rem w = (Inr (take n rem, drop n rem), w)"
  by (simp add: file_read_def)

lemma read_chunks_loop_returns:
  "faults w = [] \<Longrightarrow> read_caps w = [] \<Longrightarrow> 0 < cs \<Longrightarrow> unat i + length (chop cs rem) < 2 ^ 32 \<Longrightarrow>
     \<exists>done. read_chunks_loop cs i chunks rem w = (Inr done, w)"
proof (induction "length rem" arbitrary: i chunks rem rule: less_induct)
  case less
  show ?case
  proof (cases "rem = []")
    case True
    with less.prems show ?thesis by (simp add: read_chunks_loop.simps file_read_calm)
  next
    case False
    with less.prems have chop: "chop cs rem = take cs rem # chop cs (drop cs rem)"
      by (simp add: chop_step)
    then have i: "checked_add_u32 i 1 = Some (i + 1)" and i': "unat (i + 1) = unat i + 1"
      using less.prems by (simp_all add: checked_add_u32_def unat_word_ariths)
    have "\<exists>done. read_chunks_loop cs (i + 1) (chunks @ [\<lparr>pc_index = i, pc_data = take cs rem\<rparr>]) (drop cs rem) w = (Inr done, w)"
      using less.prems False chop i' by (intro less.hyps) auto
    with False less.prems i show ?thesis
      by (subst read_chunks_loop.simps) (simp add: file_read_calm)
  qed
qed

lemma read_file_chunks_returns:
  assumes "faults w = []" and "read_caps w = []" and "0 < cs"
    and "lookup w p = Some (FileN bs)" and "length (chop cs bs) < 2 ^ 32"
  shows "\<exists>chunks. read_file_chunks p cs w = (Inr chunks, w)"
proof -
  have "fs_open p w = (Inr bs, w)"
    using assms by (simp add: fs_open_def fs_read_def)
  then show ?thesis
    using assms read_chunks_loop_returns [of w cs 0 bs "[]"]
    by (simp add: read_file_chunks_def bindE_def intoE_def)
qed

section \<open>Properties\<close>

text \<open>The chunks of a file, in whatever order they are handed over, join to the contents of the
  file, and every chunk holds between one byte and the chunk size. This holds for every size the
  single reads return; when reads are full the chunks are the pieces of the reference.\<close>

theorem file_chunks_join:
  assumes "read_file_chunks p cs w = (Inr chunks, w')" and "mset shuffled = mset chunks"
  shows "lookup w p = Some (FileN (join_chunks shuffled)) \<and>
    list_all (\<lambda>c. 0 < length (pc_data c) \<and> length (pc_data c) \<le> cs) chunks \<and>
    map pc_index chunks = map of_nat [0..<length chunks] \<and>
    (read_caps w = [] \<longrightarrow> map pc_data chunks = chop cs (join_chunks shuffled))"
proof -
  obtain bs where bs: "lookup w p = Some (FileN bs)" "concat (map pc_data chunks) = bs"
      "indexed chunks" "\<forall>c \<in> set chunks. pc_data c \<noteq> [] \<and> length (pc_data c) \<le> cs"
      "read_caps w = [] \<longrightarrow> map pc_data chunks = chop cs bs"
    by (rule read_file_chunks_Inr [OF assms(1)]) blast
  then show ?thesis
    using join_chunks_perm [OF assms(2) bs(3)] by (auto simp: list_all_iff indexed_def)
qed

definition sample_file_world :: world where
  "sample_file_world = empty_world\<lparr>nodes := [([''f''], FileN [1, 2, 3, 4, 5])]\<rparr>"

theorem file_chunks_join_witness:
  "\<exists>chunks. read_file_chunks [''f''] 2 sample_file_world = (Inr chunks, sample_file_world) \<and>
     join_chunks (rev chunks) = [1, 2, 3, 4, 5]"
proof -
  have "lookup sample_file_world [''f''] = Some (FileN [1, 2, 3, 4, 5])"
    by (simp add: sample_file_world_def empty_world_def lookup_def)
  then obtain chunks where "read_file_chunks [''f''] 2 sample_file_world = (Inr chunks, sample_file_world)"
    using read_file_chunks_returns [of sample_file_world 2 "[''f'']" "[1, 2, 3, 4, 5]"]
    by (auto simp: sample_file_world_def empty_world_def chop.simps)
  with file_chunks_join [OF this, of "rev chunks"] show ?thesis
    by (auto simp: sample_file_world_def empty_world_def lookup_def)
qed

text \<open>The package reader cuts the concatenation of the files of the layout exactly as the
  reference does, into chunks of the chunk size and one shorter last chunk, numbered in order,
  however the single reads are split and wherever the files end.\<close>

theorem package_chunks_chop:
  assumes "read_package_chunks layout cs w = (Inr chunks, w')"
  shows "map pc_data chunks = chop cs (package_bytes w (pl_files layout)) \<and>
    map pc_index chunks = map of_nat [0..<length chunks] \<and>
    list_all (\<lambda>f. is_file w (psf_source_path f)) (pl_files layout)"
proof -
  let ?init = "\<lparr>ca_index = 0, ca_buffer = [], ca_chunks = []\<rparr>"
  from assms obtain st where cs: "0 < cs" and rs: "read_sources cs ?init (pl_files layout) w = (Inr st, w')"
      and chunks: "chunks = (if ca_buffer st = [] then ca_chunks st
        else ca_chunks st @ [\<lparr>pc_index = ca_index st, pc_data = ca_buffer st\<rparr>])"
    by (auto simp: read_package_chunks_def bindE_Inr split: if_splits)
  have "acc_inv cs ?init []"
    using cs by (simp add: acc_inv_def indexed_def)
  note inv = read_sources_inv [OF rs this]
  then have st: "acc_inv cs st (package_bytes w (pl_files layout))"
    by simp
  then have "chop cs (package_bytes w (pl_files layout)) = map pc_data (ca_chunks st) @ chop cs (ca_buffer st)"
    using cs chop_concat [of cs "map pc_data (ca_chunks st)" "ca_buffer st"] by (auto simp: acc_inv_def)
  with st cs inv show ?thesis
    by (auto simp: chunks acc_inv_def indexed_def chop_short)
qed

definition sample_package_world :: world where
  "sample_package_world = empty_world\<lparr>nodes := [([''a''], FileN [1, 2, 3]), ([''b''], FileN [4, 5])],
     read_caps := [1, 5]\<rparr>"

definition sample_layout :: package_layout where
  "sample_layout = \<lparr>pl_name = ''p'', pl_root_path = [], pl_total_size = 5, pl_files =
     [\<lparr>psf_entry = \<lparr>fe_path = ''a'', fe_size = 3, fe_offset = 0, fe_hash = FileId 0\<rparr>, psf_source_path = [''a'']\<rparr>,
      \<lparr>psf_entry = \<lparr>fe_path = ''b'', fe_size = 2, fe_offset = 3, fe_hash = FileId 0\<rparr>, psf_source_path = [''b'']\<rparr>]\<rparr>"

theorem package_chunks_chop_witness:
  "\<exists>chunks w'. read_package_chunks sample_layout 4 sample_package_world = (Inr chunks, w') \<and>
     map pc_data chunks = [[1, 2, 3, 4], [5]]"
proof -
  obtain chunks w' where run: "read_package_chunks sample_layout 4 sample_package_world = (Inr chunks, w')"
    by (simp add: read_package_chunks_def sample_layout_def sample_package_world_def empty_world_def
        fs_open_def fs_read_def lookup_def syscall_def file_read_def bindE_def intoE_def returnE_def
        read_source_loop.simps fill_chunks.simps checked_add_u32_def)
  have "chop 4 (package_bytes sample_package_world (pl_files sample_layout)) = [[1, 2, 3, 4], [5]]"
    by code_simp
  with run package_chunks_chop [OF run] show ?thesis by auto
qed

end
