(* ===== verification/Etle_Package.thy ===== *)
theory Etle_Package
  imports Etle_Chunker "HOL-Library.List_Lexorder" "HOL-Library.Char_ord"
begin

text \<open>
  The rest of \<open>src/file/package.rs\<close>: the layout of a package, built from a file or from all regular
  files below a directory. Paths are ordered as \<open>PathBuf\<close> orders them, component by component and
  byte by byte, which is the lexicographic order of the library on lists of strings.

  The walk over the directories is bounded by the depth of the file system, which is enough: a
  directory deeper than every node has no entry (lemma \<open>collect_regular_files_total\<close>).
\<close>

section \<open>Operations\<close>

definition tree_depth :: "world \<Rightarrow> nat" where
  "tree_depth w = fold max (map (length \<circ> fst) (nodes w)) 0"

fun collect_regular_files :: "nat \<Rightarrow> path \<Rightarrow> (file_error, path list) io" where
  "collect_regular_files 0 dir = throwE (FileIo OtherIo)"
| "collect_regular_files (Suc fuel) dir =
     bindE (intoE FileIo (fs_read_dir dir)) (\<lambda>entries.
     bindE (mapE (\<lambda>p. bindE (intoE FileIo (fs_metadata p)) (\<lambda>file_type.
         case file_type of
           DirMeta \<Rightarrow> collect_regular_files fuel p
         | FileMeta _ \<Rightarrow> returnE [p])) (sort (map (\<lambda>name. dir @ [name]) entries))) (\<lambda>found.
     returnE (concat found)))"

definition join_components :: "string list \<Rightarrow> string" where
  "join_components names = concat (case names of [] \<Rightarrow> [] | n # ns \<Rightarrow> n # map (\<lambda>m. ''/'' @ m) ns)"

definition relative_package_path :: "path \<Rightarrow> path \<Rightarrow> (file_error, string) result" where
  "relative_package_path root p =
     (if prefix root p then Inr (join_components (drop (length root) p)) else Inl (PathOutsideRoot p root))"

definition file_name :: "path \<Rightarrow> string" where
  "file_name p = (if p = [] then ''unnamed'' else last p)"

definition collect_single_file_layout :: "deps \<Rightarrow> path \<Rightarrow> u64 \<Rightarrow> (file_error, package_layout) io" where
  "collect_single_file_layout D p len =
     bindE (intoE FileIo (hash_file D p)) (\<lambda>h.
     returnE \<lparr>pl_name = file_name p, pl_root_path = p, pl_total_size = len,
       pl_files = [\<lparr>psf_entry = \<lparr>fe_path = file_name p, fe_size = len, fe_offset = 0, fe_hash = h\<rparr>,
         psf_source_path = p\<rparr>]\<rparr>)"

fun layout_files :: "deps \<Rightarrow> path \<Rightarrow> u64 \<Rightarrow> path list \<Rightarrow> (file_error, u64 \<times> package_source_file list) io" where
  "layout_files D root offset [] = returnE (offset, [])"
| "layout_files D root offset (p # ps) =
     bindE (intoE FileIo (fs_metadata p)) (\<lambda>md.
     let len = (case md of FileMeta n \<Rightarrow> n | DirMeta \<Rightarrow> 0) in
     bindE (liftE (relative_package_path root p)) (\<lambda>package_path.
     bindE (intoE FileIo (hash_file D p)) (\<lambda>h.
     bindE (liftE (ok_or PackageTooLarge (checked_add_u64 offset len))) (\<lambda>offset'.
     bindE (layout_files D root offset' ps) (\<lambda>(total_size, files).
     returnE (total_size,
       \<lparr>psf_entry = \<lparr>fe_path = package_path, fe_size = len, fe_offset = offset, fe_hash = h\<rparr>,
        psf_source_path = p\<rparr> # files))))))"

definition collect_directory_layout :: "deps \<Rightarrow> path \<Rightarrow> (file_error, package_layout) io" where
  "collect_directory_layout D root =
     bindE (askE tree_depth) (\<lambda>depth.
     bindE (collect_regular_files (Suc depth) root) (\<lambda>paths.
     if paths = [] then throwE EmptyPackage
     else bindE (layout_files D root 0 (sort paths)) (\<lambda>(offset, files).
       returnE \<lparr>pl_name = file_name root, pl_root_path = root, pl_total_size = offset,
         pl_files = files\<rparr>)))"

definition collect_package_layout :: "deps \<Rightarrow> path \<Rightarrow> (file_error, package_layout) io" where
  "collect_package_layout D input =
     bindE (intoE FileIo (fs_metadata input)) (\<lambda>metadata.
     case metadata of
       FileMeta len \<Rightarrow> collect_single_file_layout D input len
     | DirMeta \<Rightarrow> collect_directory_layout D input)"

section \<open>The walk over the directories\<close>

definition tree_ok :: "world \<Rightarrow> bool" where
  "tree_ok w \<longleftrightarrow> list_all (\<lambda>p. p \<noteq> [] \<and> is_dir w (butlast p)) (map fst (nodes w))"

lemma lookup_in_nodes: "lookup w p \<noteq> None \<longleftrightarrow> p \<in> set (map fst (nodes w))"
  by (metis lookup_def map_of_eq_None_iff set_map)

lemma tree_okD: "tree_ok w \<Longrightarrow> lookup w p \<noteq> None \<Longrightarrow> p \<noteq> [] \<and> is_dir w (butlast p)"
  unfolding tree_ok_def list_all_iff lookup_in_nodes by blast

lemma tree_ok_cong: "lookup w = lookup w' \<Longrightarrow> tree_ok w \<longleftrightarrow> tree_ok w'"
  unfolding tree_ok_def list_all_iff is_dir_def by (metis lookup_in_nodes)

lemma ancestor_is_dir: "tree_ok w \<Longrightarrow> lookup w q \<noteq> None \<Longrightarrow> strict_prefix p q \<Longrightarrow> is_dir w p"
proof (induction q rule: rev_induct)
  case Nil
  then show ?case by simp
next
  case (snoc x q)
  have q: "is_dir w q"
    using tree_okD [OF snoc.prems(1,2)] by simp
  show ?case
  proof (cases "p = q")
    case False
    with snoc.prems(3) have "strict_prefix p q"
      by (auto simp: strict_prefix_def)
    moreover from this q have "lookup w q \<noteq> None"
      by (auto simp: is_dir_def)
    ultimately show ?thesis
      using snoc by blast
  qed (use q in simp)
qed

lemma file_not_dir: "tree_ok w \<Longrightarrow> is_file w p \<Longrightarrow> \<not> is_dir w p"
  using tree_okD [of w p] by (auto simp: is_file_def is_dir_def)

text \<open>The regular files below a directory, and what one entry of the directory contributes.\<close>

definition files_below :: "world \<Rightarrow> path \<Rightarrow> path set" where
  "files_below w dir = {p. strict_prefix dir p \<and> is_file w p}"

lemma files_below_entries:
  assumes "tree_ok w"
  shows "files_below w dir = (\<Union>n \<in> {n. lookup w (dir @ [n]) \<noteq> None}.
     if is_file w (dir @ [n]) then {dir @ [n]} else files_below w (dir @ [n]))" (is "_ = ?R")
proof (intro equalityI subsetI)
  fix p assume "p \<in> files_below w dir"
  then have pf: "is_file w p" and sp: "strict_prefix dir p"
    by (simp_all add: files_below_def)
  from sp obtain n q where p: "p = dir @ n # q"
    by (rule strict_prefixE')
  have ex: "lookup w p \<noteq> None"
    using pf by (auto simp: is_file_def)
  show "p \<in> ?R"
  proof (cases q)
    case Nil
    then have "n \<in> {n. lookup w (dir @ [n]) \<noteq> None}" "is_file w (dir @ [n])" "p = dir @ [n]"
      using p pf ex by simp_all
    then show ?thesis by (intro UN_I [of n]) simp_all
  next
    case (Cons m q')
    then have sp: "strict_prefix (dir @ [n]) p"
      using p by (simp add: strict_prefix_def prefix_def)
    then have "is_dir w (dir @ [n])"
      using ancestor_is_dir [OF assms ex] by blast
    then have "lookup w (dir @ [n]) \<noteq> None" "\<not> is_file w (dir @ [n])"
      by (auto simp: is_dir_def is_file_def)
    with sp pf show ?thesis
      by (intro UN_I [of n]) (simp_all add: files_below_def)
  qed
next
  fix p assume "p \<in> ?R"
  then show "p \<in> files_below w dir"
    by (auto simp: files_below_def strict_prefix_def prefix_def split: if_splits)
qed

lemma fs_read_dir_Inr:
  assumes "fs_read_dir dir w = (Inr names, w')"
  shows "set names = {n. lookup w (dir @ [n]) \<noteq> None} \<and> distinct names \<and> lookup w' = lookup w \<and> is_dir w dir"
proof -
  let ?qs = "filter (\<lambda>q. q \<noteq> [] \<and> butlast q = dir) (remdups (map fst (nodes w)))"
  have names: "names = map last ?qs" and dir: "is_dir w dir" and w': "lookup w' = lookup w"
    using assms by (auto simp: fs_read_dir_def syscall_def is_dir_def fun_eq_iff
        split: if_splits list.splits option.splits)
  have shape: "q = dir @ [last q]" if "q \<in> set ?qs" for q
    using that by (auto simp: append_butlast_last_id [symmetric])
  have "n \<in> set names \<longleftrightarrow> lookup w (dir @ [n]) \<noteq> None" for n
  proof
    assume "n \<in> set names"
    then obtain q where q: "q \<in> set ?qs" "n = last q"
      unfolding names by auto
    then have "q \<in> set (map fst (nodes w))"
      by auto
    with q shape [OF q(1)] show "lookup w (dir @ [n]) \<noteq> None"
      unfolding lookup_in_nodes by simp
  next
    assume "lookup w (dir @ [n]) \<noteq> None"
    then have "dir @ [n] \<in> set ?qs"
      unfolding lookup_in_nodes by simp
    then have "last (dir @ [n]) \<in> last ` set ?qs"
      by (rule imageI)
    then show "n \<in> set names"
      unfolding names by simp
  qed
  moreover have "inj_on last (set ?qs)"
  proof (rule inj_onI)
    fix p q assume "p \<in> set ?qs" "q \<in> set ?qs" "last p = last q"
    then show "p = q"
      using shape [of p] shape [of q] by simp
  qed
  then have "distinct names"
    unfolding names by (simp add: distinct_map)
  ultimately show ?thesis using dir w' by blast
qed

lemma fs_metadata_Inr:
  "fs_metadata p w = (Inr md, w') \<Longrightarrow> lookup w' = lookup w \<and>
     (md = DirMeta \<and> is_dir w p \<and> \<not> is_file w p \<or> (\<exists>bs. lookup w p = Some (FileN bs) \<and> md = FileMeta (of_nat (length bs))))"
  by (auto simp: fs_metadata_def syscall_def is_dir_def is_file_def fun_eq_iff
      split: option.splits node.splits list.splits if_splits)

lemma mapE_list_all2:
  assumes "mapE f xs w = (Inr ys, w')" and "\<And>x. preserves (frame (\<lambda>_. False)) (f x)"
  shows "list_all2 (\<lambda>x y. \<exists>w1 w2. lookup w1 = lookup w \<and> f x w1 = (Inr y, w2)) xs ys"
  using assms(1)
proof (induction xs arbitrary: w ys)
  case (Cons x xs)
  then obtain y w1 zs where f: "f x w = (Inr y, w1)" and zs: "mapE f xs w1 = (Inr zs, w')" "ys = y # zs"
    by (auto simp: bindE_Inr)
  moreover have "lookup w1 = lookup w"
    using frame_all_lookup [OF assms(2) f] .
  ultimately show ?case
    using Cons.IH [OF zs(1)] by auto
qed simp

lemma frame_collect [intro!, simp]: "preserves (frame P) (collect_regular_files fuel dir)"
  by (induction fuel arbitrary: dir)
    (auto intro!: frame.pres_bind frame.pres_into frame.pres_map split: metadata.splits)

lemma distinct_concat_prefixes:
  assumes "list_all2 (\<lambda>x ys. distinct ys \<and> (\<forall>p \<in> set ys. prefix x p)) xs yss"
    and "distinct xs" and "\<forall>x \<in> set xs. length x = k"
  shows "distinct (concat yss) \<and> (\<forall>p \<in> set (concat yss). \<exists>x \<in> set xs. prefix x p)"
  using assms
proof (induction rule: list_all2_induct)
  case (Cons x xs y ys)
  have "x = x'" if "prefix x p" "x' \<in> set xs" "prefix x' p" for p x'
  proof -
    have "length x = length x'"
      using that(2) Cons.prems(2) by simp
    with that(1,3) show ?thesis
      by (metis append_eq_append_conv prefix_def)
  qed
  then have x: "\<not> prefix x' p" if "prefix x p" "x' \<in> set xs" for p x'
    using that Cons.prems(1) by auto
  have IH: "distinct (concat ys)" "\<forall>p \<in> set (concat ys). \<exists>x \<in> set xs. prefix x p"
    using Cons by auto
  have "set y \<inter> set (concat ys) = {}"
    using IH(2) x Cons.hyps(1) by blast
  with IH Cons.hyps(1) show ?case
    by auto
qed simp

lemma collect_regular_files_Inr:
  "tree_ok w \<Longrightarrow> collect_regular_files fuel dir w = (Inr ps, w') \<Longrightarrow>
     set ps = files_below w dir \<and> distinct ps"
proof (induction fuel arbitrary: dir ps w w')
  case (Suc fuel)
  let ?visit = "\<lambda>p. bindE (intoE FileIo (fs_metadata p)) (\<lambda>file_type. case file_type of
      DirMeta \<Rightarrow> collect_regular_files fuel p | FileMeta _ \<Rightarrow> returnE [p])"
  from Suc.prems obtain names w1 found where rd: "fs_read_dir dir w = (Inr names, w1)"
      and mp: "mapE ?visit (sort (map (\<lambda>name. dir @ [name]) names)) w1 = (Inr found, w')"
      and ps: "ps = concat found"
    by (auto simp: bindE_Inr)
  note names = fs_read_dir_Inr [OF rd]
  let ?xs = "sort (map (\<lambda>name. dir @ [name]) names)"
  have "preserves (frame (\<lambda>_. False)) (?visit p)" for p
    by (auto intro!: frame.pres_bind frame.pres_into split: metadata.splits)
  from mapE_list_all2 [OF mp this]
  have "list_all2 (\<lambda>x ys. set ys = (if is_file w x then {x} else files_below w x) \<and> distinct ys) ?xs found"
  proof (rule list_all2_mono)
    fix x ys assume "\<exists>wa wb. lookup wa = lookup w1 \<and> ?visit x wa = (Inr ys, wb)"
    then obtain wa wb wc md where wa: "lookup wa = lookup w" and md: "fs_metadata x wa = (Inr md, wc)"
        and run: "(case md of DirMeta \<Rightarrow> collect_regular_files fuel x | FileMeta _ \<Rightarrow> returnE [x]) wc = (Inr ys, wb)"
      using names by (auto simp: bindE_Inr)
    note md = fs_metadata_Inr [OF md]
    have wc: "lookup wc = lookup w"
      using md wa by simp
    show "set ys = (if is_file w x then {x} else files_below w x) \<and> distinct ys"
    proof (cases md)
      case (FileMeta n)
      then have "is_file w x"
        using md wa by (auto simp: is_file_def)
      with run FileMeta show ?thesis by auto
    next
      case DirMeta
      then have "is_dir w x"
        using md wa by (auto simp: is_dir_def)
      then have "\<not> is_file w x"
        using file_not_dir Suc.prems(1) by blast
      moreover have "set ys = files_below wc x \<and> distinct ys"
        using Suc.IH [of wc x ys wb] run DirMeta tree_ok_cong [OF wc] Suc.prems(1) by simp
      moreover have "files_below wc x = files_below w x"
        by (simp add: files_below_def is_file_def wc)
      ultimately show ?thesis by simp
    qed
  qed
  then have found: "list_all2 (\<lambda>x ys. set ys = (if is_file w x then {x} else files_below w x) \<and> distinct ys) ?xs found" .
  have "list_all2 (\<lambda>x ys. distinct ys \<and> (\<forall>p \<in> set ys. prefix x p)) ?xs found"
    by (rule list_all2_mono [OF found]) (auto simp: files_below_def strict_prefix_def split: if_splits)
  moreover have "distinct ?xs" "\<forall>x \<in> set ?xs. length x = Suc (length dir)"
    using names by (auto simp: distinct_map inj_on_def)
  ultimately have "distinct ps"
    using distinct_concat_prefixes ps by blast
  moreover have "set (concat found) = (\<Union>x \<in> set ?xs. if is_file w x then {x} else files_below w x)"
    using found by (induction rule: list_all2_induct) auto
  then have "set ps = files_below w dir"
    using names ps by (subst files_below_entries [OF Suc.prems(1)]) auto
  ultimately show ?case by blast
qed simp

lemma fold_max_bound: "(x :: nat) \<in> set xs \<or> x \<le> k \<Longrightarrow> x \<le> fold max xs k"
proof (induction xs arbitrary: k)
  case (Cons a xs)
  then show ?case
    using Cons.IH [of "max a k"] by force
qed simp

lemma depth_bound:
  assumes "lookup w p \<noteq> None"
  shows "length p \<le> tree_depth w"
proof -
  have "length p \<in> length ` fst ` set (nodes w)"
    using assms unfolding lookup_in_nodes by simp
  then show ?thesis
    unfolding tree_depth_def by (intro fold_max_bound) (simp add: image_comp)
qed

lemma mapE_total:
  "(\<And>x. x \<in> set xs \<Longrightarrow> \<exists>y. f x w = (Inr y, w)) \<Longrightarrow> \<exists>ys. mapE f xs w = (Inr ys, w)"
proof (induction xs)
  case (Cons x xs)
  then obtain y ys where "f x w = (Inr y, w)" "mapE f xs w = (Inr ys, w)"
    by (meson list.set_intros)
  then show ?case by simp
qed simp

lemma collect_regular_files_total:
  "faults w = [] \<Longrightarrow> tree_depth w < fuel + length dir \<Longrightarrow> is_dir w dir \<Longrightarrow>
     \<exists>ps. collect_regular_files fuel dir w = (Inr ps, w)"
proof (induction fuel arbitrary: dir)
  case 0
  then show ?case
    using depth_bound [of w dir] by (auto simp: is_dir_def)
next
  case (Suc fuel)
  obtain names where rd: "fs_read_dir dir w = (Inr names, w)"
    using Suc.prems by (simp add: fs_read_dir_def)
  let ?visit = "\<lambda>p. bindE (intoE FileIo (fs_metadata p)) (\<lambda>file_type. case file_type of
      DirMeta \<Rightarrow> collect_regular_files fuel p | FileMeta _ \<Rightarrow> returnE [p])"
  have "\<exists>ys. ?visit x w = (Inr ys, w)"
    if x: "x \<in> set (sort (map (\<lambda>name. dir @ [name]) names))" for x
  proof -
    obtain n where n: "x = dir @ [n]" "lookup w x \<noteq> None"
      using x fs_read_dir_Inr [OF rd] by auto
    show ?thesis
    proof (cases "lookup w x")
      case (Some node)
      show ?thesis
      proof (cases node)
        case DirN
        then have "\<exists>ps. collect_regular_files fuel x w = (Inr ps, w)"
          using Suc.IH [of x] Suc.prems n Some by (simp add: is_dir_def)
        then show ?thesis
          using Some DirN Suc.prems(1) by (simp add: fs_metadata_def io_simps)
      qed (use Some Suc.prems(1) in \<open>simp add: fs_metadata_def io_simps\<close>)
    qed (use n in simp)
  qed
  then have "\<exists>ys. mapE ?visit (sort (map (\<lambda>name. dir @ [name]) names)) w = (Inr ys, w)"
    by (intro mapE_total) blast
  with rd show ?case
    by (auto simp: io_simps)
qed

section \<open>The layout\<close>

text \<open>A list of source files whose entries describe the files of the world from a given offset on.\<close>

fun entries_from :: "deps \<Rightarrow> world \<Rightarrow> nat \<Rightarrow> package_source_file list \<Rightarrow> bool" where
  "entries_from D w offset [] \<longleftrightarrow> True"
| "entries_from D w offset (f # fs) \<longleftrightarrow>
     (case lookup w (psf_source_path f) of
        Some (FileN bs) \<Rightarrow> fe_size (psf_entry f) = of_nat (length bs) \<and> fe_hash (psf_entry f) = hash_file_id D bs
      | _ \<Rightarrow> False) \<and>
     unat (fe_offset (psf_entry f)) = offset \<and>
     entries_from D w (offset + unat (fe_size (psf_entry f))) fs"

lemma entries_from_cong: "lookup w = lookup w' \<Longrightarrow> entries_from D w n fs = entries_from D w' n fs"
  by (induction fs arbitrary: n) simp_all

lemma checked_add_u64_Some: "checked_add_u64 a b = Some c \<Longrightarrow> unat c = unat a + unat b"
  by (auto simp: checked_add_u64_def unat_word_ariths split: if_splits)

lemma frame_layout_files [intro!, simp]: "preserves (frame P) (layout_files D root offset ps)"
  by (induction D root offset ps rule: layout_files.induct)
    (auto simp: Let_def intro!: frame.pres_bind frame.pres_into split: metadata.splits)

lemma layout_files_Inr:
  "layout_files D root offset ps w = (Inr (end_off, files), w') \<Longrightarrow>
     map psf_source_path files = ps \<and> entries_from D w (unat offset) files \<and>
     unat end_off = unat offset + sum_list (map (unat \<circ> fe_size \<circ> psf_entry) files) \<and>
     list_all (\<lambda>f. prefix root (psf_source_path f) \<and>
       fe_path (psf_entry f) = join_components (drop (length root) (psf_source_path f))) files"
proof (induction ps arbitrary: offset end_off files w w')
  case (Cons p ps)
  from Cons.prems obtain md w1 package_path h w2 offset' files' where
      md: "fs_metadata p w = (Inr md, w1)" and rel: "relative_package_path root p = Inr package_path"
      and hf: "hash_file D p w1 = (Inr h, w2)"
      and off: "checked_add_u64 offset (case md of FileMeta n \<Rightarrow> n | DirMeta \<Rightarrow> 0) = Some offset'"
      and rest: "layout_files D root offset' ps w2 = (Inr (end_off, files'), w')"
      and files: "files = \<lparr>psf_entry = \<lparr>fe_path = package_path, fe_size = (case md of FileMeta n \<Rightarrow> n | DirMeta \<Rightarrow> 0),
          fe_offset = offset, fe_hash = h\<rparr>, psf_source_path = p\<rparr> # files'"
    by (auto simp: Let_def bindE_Inr split: prod.splits)
  have w1: "lookup w1 = lookup w"
    using fs_metadata_Inr [OF md] by simp
  obtain bs where bs: "lookup w p = Some (FileN bs)" "h = hash_file_id D bs"
    using hash_file_Inr [OF hf] w1 by metis
  have "lookup w2 = lookup w"
    using frame_all_lookup [OF frame_hash_file hf] w1 by simp
  note IH = Cons.IH [OF rest, unfolded entries_from_cong [OF this]]
  have "md = FileMeta (of_nat (length bs))"
    using fs_metadata_Inr [OF md] bs by (auto simp: is_file_def)
  with IH bs checked_add_u64_Some [OF off] rel show ?case
    by (auto simp: files relative_package_path_def split: if_splits)
qed simp

definition sizes_fit_u64 :: "world \<Rightarrow> bool" where
  "sizes_fit_u64 w \<longleftrightarrow> list_all (\<lambda>(p, n). case n of FileN bs \<Rightarrow> length bs < 2 ^ 64 | DirN \<Rightarrow> True) (nodes w)"

lemma sizes_fit_u64D: "sizes_fit_u64 w \<Longrightarrow> lookup w p = Some (FileN bs) \<Longrightarrow> length bs < 2 ^ 64"
  unfolding sizes_fit_u64_def lookup_def list_all_iff by (drule map_of_SomeD) fastforce

lemma entries_from_slices:
  assumes "entries_from D w k fs" and "sizes_fit_u64 w" and "f \<in> set fs"
  shows "k \<le> unat (fe_offset (psf_entry f)) \<and>
    lookup w (psf_source_path f) = Some (FileN (take (unat (fe_size (psf_entry f)))
      (drop (unat (fe_offset (psf_entry f)) - k) (package_bytes w fs))))"
  using assms(1,3)
proof (induction fs arbitrary: k)
  case (Cons g fs)
  from Cons.prems obtain bs where bs: "lookup w (psf_source_path g) = Some (FileN bs)"
      "fe_size (psf_entry g) = of_nat (length bs)" "unat (fe_offset (psf_entry g)) = k"
      and rest: "entries_from D w (k + unat (fe_size (psf_entry g))) fs"
    by (auto split: option.splits node.splits)
  have len: "unat (fe_size (psf_entry g)) = length bs"
    using sizes_fit_u64D [OF assms(2) bs(1)] bs(2) by (simp add: unat_of_nat take_bit_eq_mod)
  have pb: "package_bytes w (g # fs) = bs @ package_bytes w fs"
    by (simp add: package_bytes_def bs(1))
  show ?case
  proof (cases "f \<in> set fs")
    case True
    with Cons.IH [OF rest] have IH: "k + length bs \<le> unat (fe_offset (psf_entry f))"
        "lookup w (psf_source_path f) = Some (FileN (take (unat (fe_size (psf_entry f)))
          (drop (unat (fe_offset (psf_entry f)) - (k + length bs)) (package_bytes w fs))))"
      using len by auto
    then have "drop (unat (fe_offset (psf_entry f)) - k) (package_bytes w (g # fs)) =
        drop (unat (fe_offset (psf_entry f)) - (k + length bs)) (package_bytes w fs)"
      by (simp add: pb)
    with IH show ?thesis by simp
  next
    case False
    with Cons.prems have "f = g" by simp
    with bs len pb show ?thesis by simp
  qed
qed simp

lemma file_prefix_self: "tree_ok w \<Longrightarrow> is_file w input \<Longrightarrow> {p. prefix input p \<and> is_file w p} = {input}"
  using ancestor_is_dir [of w _ input] file_not_dir [of w input]
  by (auto simp: strict_prefix_def is_file_def dest!: spec)

lemma collect_single_file_layout_Inr:
  assumes "collect_single_file_layout D p len w = (Inr layout, w')"
    and "lookup w p = Some (FileN bs)" and "len = of_nat (length bs)"
  shows "map psf_source_path (pl_files layout) = [p] \<and> entries_from D w 0 (pl_files layout) \<and>
    unat (pl_total_size layout) = sum_list (map (unat \<circ> fe_size \<circ> psf_entry) (pl_files layout))"
proof -
  from assms(1) obtain h w1 where hf: "hash_file D p w = (Inr h, w1)" and layout: "layout = \<lparr>pl_name = file_name p,
      pl_root_path = p, pl_total_size = len, pl_files = [\<lparr>psf_entry = \<lparr>fe_path = file_name p, fe_size = len,
        fe_offset = 0, fe_hash = h\<rparr>, psf_source_path = p\<rparr>]\<rparr>"
    by (auto simp: collect_single_file_layout_def bindE_Inr)
  have "h = hash_file_id D bs"
    using hash_file_Inr [OF hf] assms(2) by auto
  then show ?thesis
    by (simp add: layout assms)
qed

lemma collect_directory_layout_Inr:
  assumes "collect_directory_layout D root w = (Inr layout, w')" and "tree_ok w"
  shows "set (map psf_source_path (pl_files layout)) = files_below w root \<and>
    distinct (map psf_source_path (pl_files layout)) \<and> sorted (map psf_source_path (pl_files layout)) \<and>
    pl_files layout \<noteq> [] \<and> entries_from D w 0 (pl_files layout) \<and>
    unat (pl_total_size layout) = sum_list (map (unat \<circ> fe_size \<circ> psf_entry) (pl_files layout))"
proof -
  from assms(1) obtain ps w1 offset files where
      ps: "collect_regular_files (Suc (tree_depth w)) root w = (Inr ps, w1)" "ps \<noteq> []"
      and lf: "layout_files D root 0 (sort ps) w1 = (Inr (offset, files), w')"
      and layout: "layout = \<lparr>pl_name = file_name root, pl_root_path = root, pl_total_size = offset, pl_files = files\<rparr>"
    by (auto simp: collect_directory_layout_def bindE_Inr simp del: collect_regular_files.simps split: if_splits prod.splits)
  have "lookup w1 = lookup w"
    using frame_all_lookup [OF frame_collect ps(1)] .
  note files = layout_files_Inr [OF lf, unfolded entries_from_cong [OF this]]
  moreover have "set ps = files_below w root" "distinct ps"
    using collect_regular_files_Inr [OF assms(2) ps(1)] by blast+
  moreover have "length files = length ps"
    using files by (metis length_map length_sort)
  with ps(2) have "files \<noteq> []"
    by auto
  ultimately show ?thesis by (simp add: layout)
qed

section \<open>Properties\<close>

text \<open>C10: a layout lists every regular file at or below the input exactly once and nothing else, in the
  order of the paths; the entries record the length and the hash of each file, the offsets are the
  running sums of the lengths without overflow, and the total is their sum.\<close>

theorem package_layout_complete:
  assumes "tree_ok w" and "collect_package_layout D input w = (Inr layout, w')"
  shows "set (map psf_source_path (pl_files layout)) = {p. prefix input p \<and> is_file w p} \<and>
    distinct (map psf_source_path (pl_files layout)) \<and> sorted (map psf_source_path (pl_files layout)) \<and>
    pl_files layout \<noteq> [] \<and> entries_from D w 0 (pl_files layout) \<and>
    unat (pl_total_size layout) = sum_list (map (unat \<circ> fe_size \<circ> psf_entry) (pl_files layout))"
proof -
  from assms(2) obtain md w1 where md: "fs_metadata input w = (Inr md, w1)"
      and run: "(case md of FileMeta len \<Rightarrow> collect_single_file_layout D input len
        | DirMeta \<Rightarrow> collect_directory_layout D input) w1 = (Inr layout, w')"
    by (auto simp: collect_package_layout_def bindE_Inr)
  note md' = fs_metadata_Inr [OF md]
  then have w1: "lookup w1 = lookup w" by simp
  then have cong: "entries_from D w1 0 = entries_from D w 0"
    using entries_from_cong [OF w1] by blast
  show ?thesis
  proof (cases md)
    case (FileMeta len)
    then obtain bs where bs: "lookup w input = Some (FileN bs)" "len = of_nat (length bs)"
      using md' by auto
    then have "{p. prefix input p \<and> is_file w p} = {input}"
      using file_prefix_self [OF assms(1)] by (auto simp: is_file_def)
    moreover have "collect_single_file_layout D input len w1 = (Inr layout, w')" "lookup w1 input = Some (FileN bs)"
      using run FileMeta bs w1 by simp_all
    note single = collect_single_file_layout_Inr [OF this bs(2), unfolded cong]
    moreover have "pl_files layout \<noteq> []"
      using single by force
    ultimately show ?thesis
      by simp
  next
    case DirMeta
    then have "{p. prefix input p \<and> is_file w p} = files_below w1 input"
      using md' w1 by (auto simp: files_below_def is_file_def strict_prefix_def)
    with collect_directory_layout_Inr [of D input w1 layout w'] run DirMeta tree_ok_cong [OF w1] assms(1) cong
    show ?thesis by simp
  qed
qed

definition sample_tree :: world where
  "sample_tree = empty_world\<lparr>nodes := [([''d'', ''b''], FileN [1]), ([''d''], DirN), ([''d'', ''a''], FileN [2, 3])]\<rparr>"

lemma sample_tree_layout:
  "\<exists>layout w'. collect_package_layout sample_deps [''d''] sample_tree = (Inr layout, w') \<and>
     map psf_source_path (pl_files layout) = [[''d'', ''a''], [''d'', ''b'']]"
  by (simp add: collect_package_layout_def collect_directory_layout_def sample_tree_def empty_world_def
      fs_metadata_def lookup_def syscall_def bindE_def intoE_def returnE_def askE_def tree_depth_def
      fs_read_dir_def is_dir_def relative_package_path_def liftE_def hash_file_def fs_open_def fs_read_def
      hash_file_loop.simps file_read_def checked_add_u64_def)

lemma sample_tree_ok: "tree_ok sample_tree" "sizes_fit_u64 sample_tree"
  by (simp_all add: tree_ok_def sizes_fit_u64_def sample_tree_def is_dir_def lookup_def)

theorem package_layout_complete_witness:
  "\<exists>layout w'. collect_package_layout sample_deps [''d''] sample_tree = (Inr layout, w') \<and>
     set (map psf_source_path (pl_files layout)) = {p. prefix [''d''] p \<and> is_file sample_tree p}"
  using sample_tree_layout package_layout_complete [OF sample_tree_ok(1), of sample_deps "[''d'']"] by blast

text \<open>The descriptor locates every file inside the package: the slice of the concatenated
  package at the offset and of the length of an entry is the content of that file.\<close>

theorem package_entries_locate_files:
  assumes "tree_ok w" and "sizes_fit_u64 w" and "collect_package_layout D input w = (Inr layout, w')"
    and "f \<in> set (pl_files layout)"
  shows "lookup w (psf_source_path f) = Some (FileN (take (unat (fe_size (psf_entry f)))
    (drop (unat (fe_offset (psf_entry f))) (package_bytes w (pl_files layout)))))"
proof -
  from assms(3) obtain md w1 where md: "fs_metadata input w = (Inr md, w1)"
      and run: "(case md of FileMeta len \<Rightarrow> collect_single_file_layout D input len
        | DirMeta \<Rightarrow> collect_directory_layout D input) w1 = (Inr layout, w')"
    by (auto simp: collect_package_layout_def bindE_Inr)
  have w1: "lookup w1 = lookup w"
    using fs_metadata_Inr [OF md] by simp
  have "entries_from D w1 0 (pl_files layout)"
  proof (cases md)
    case (FileMeta len)
    with run fs_metadata_Inr [OF md] w1 show ?thesis
      by (auto dest!: collect_single_file_layout_Inr)
  next
    case DirMeta
    with run collect_directory_layout_Inr [of D input w1 layout w'] tree_ok_cong [OF w1] assms(1)
    show ?thesis by simp
  qed
  then show ?thesis
    using entries_from_slices [OF _ assms(2,4)] by (simp add: entries_from_cong [OF w1])
qed

theorem package_entries_locate_files_witness:
  "\<exists>layout w' f. collect_package_layout sample_deps [''d''] sample_tree = (Inr layout, w') \<and>
     f \<in> set (pl_files layout) \<and> psf_source_path f = [''d'', ''b''] \<and>
     [1] = take (unat (fe_size (psf_entry f)))
       (drop (unat (fe_offset (psf_entry f))) (package_bytes sample_tree (pl_files layout)))"
proof -
  obtain layout w' where run: "collect_package_layout sample_deps [''d''] sample_tree = (Inr layout, w')"
      and ps: "map psf_source_path (pl_files layout) = [[''d'', ''a''], [''d'', ''b'']]"
    using sample_tree_layout by (elim exE conjE)
  have "[''d'', ''b''] \<in> set (map psf_source_path (pl_files layout))"
    unfolding ps by simp
  then obtain f where f: "f \<in> set (pl_files layout)" "psf_source_path f = [''d'', ''b'']"
    by auto
  have "lookup sample_tree [''d'', ''b''] = Some (FileN [1])"
    by (simp add: sample_tree_def lookup_def)
  then show ?thesis
    using package_entries_locate_files [OF sample_tree_ok run f(1)] f run by fastforce
qed

end
