(* ===== verification/Etle_FileStorage.thy ===== *)
theory Etle_FileStorage
  imports Etle_Package
begin

text \<open>
  \<open>src/file/storage.rs\<close>: encryption of a whole file into a manifest and a map of encrypted chunks,
  decryption with the checks of every chunk hash and of the final hash, and the debug workspace that
  keeps both in a directory. The map is the \<open>BTreeMap\<close> from chunk indexes to chunks.
\<close>

section \<open>Operations\<close>

record encrypted_chunk =
  ec_index :: u32
  ec_data :: bytes

record encrypted_file =
  ef_manifest :: manifest
  ef_chunks :: "u32 \<rightharpoonup> encrypted_chunk"

definition encrypt_plain_chunk :: "deps \<Rightarrow> symmetric_key \<Rightarrow> file_id \<Rightarrow> plain_chunk \<Rightarrow> (file_error, chunk_meta \<times> encrypted_chunk) io" where
  "encrypt_plain_chunk D key fid chunk =
     bindE generate_nonce (\<lambda>nonce.
     let aad = build_chunk_aad fid (pc_index chunk) (of_nat (length (pc_data chunk))) in
     bindE (liftE (map_err FileCrypto (encrypt_chunk D key nonce (pc_data chunk) aad))) (\<lambda>ciphertext.
     returnE (\<lparr>cm_index = pc_index chunk, cm_plain_size = of_nat (length (pc_data chunk)),
         cm_encrypted_size = of_nat (length ciphertext), cm_nonce = nonce, cm_hash = hash_chunk D ciphertext\<rparr>,
       \<lparr>ec_index = pc_index chunk, ec_data = ciphertext\<rparr>)))"

definition insert_chunk :: "encrypted_chunk \<Rightarrow> (u32 \<rightharpoonup> encrypted_chunk) \<Rightarrow> (u32 \<rightharpoonup> encrypted_chunk)" where
  "insert_chunk c m = m(ec_index c \<mapsto> c)"

definition encrypt_file :: "deps \<Rightarrow> path \<Rightarrow> symmetric_key \<Rightarrow> nat \<Rightarrow> (file_error, encrypted_file) io" where
  "encrypt_file D p key chunk_size =
     bindE (intoE FileIo (hash_file D p)) (\<lambda>fid.
     bindE (intoE FileIo (fs_metadata p)) (\<lambda>md.
     let file_size = (case md of FileMeta n \<Rightarrow> n | DirMeta \<Rightarrow> 0) in
     bindE (read_file_chunks p chunk_size) (\<lambda>plain_chunks.
     bindE (mapE (encrypt_plain_chunk D key fid) plain_chunks) (\<lambda>pairs.
     returnE \<lparr>ef_manifest = \<lparr>m_file_id = fid, m_file_name = file_name p, m_file_size = file_size,
         m_chunk_size = of_nat chunk_size, m_chunks = map fst pairs\<rparr>,
       ef_chunks = fold insert_chunk (map snd pairs) Map.empty\<rparr>))))"

definition decrypt_one :: "deps \<Rightarrow> encrypted_file \<Rightarrow> symmetric_key \<Rightarrow> chunk_meta \<Rightarrow> (file_error, plain_chunk) result" where
  "decrypt_one D encrypted key meta =
     and_then (ok_or (MissingChunk (cm_index meta)) (ef_chunks encrypted (cm_index meta))) (\<lambda>chunk.
     if hash_chunk D (ec_data chunk) \<noteq> cm_hash meta then Inl (ChunkHashMismatch (cm_index meta))
     else and_then (map_err FileCrypto (decrypt_chunk D key (cm_nonce meta) (ec_data chunk)
         (build_chunk_aad (m_file_id (ef_manifest encrypted)) (cm_index meta) (cm_plain_size meta))))
       (\<lambda>plaintext. Inr \<lparr>pc_index = cm_index meta, pc_data = plaintext\<rparr>))"

definition decrypt_to_bytes :: "deps \<Rightarrow> encrypted_file \<Rightarrow> symmetric_key \<Rightarrow> (file_error, bytes) result" where
  "decrypt_to_bytes D encrypted key =
     and_then (try_map (decrypt_one D encrypted key) (m_chunks (ef_manifest encrypted))) (\<lambda>plain_chunks.
     let output = join_chunks plain_chunks in
     if FileId (hash_bytes D output) \<noteq> m_file_id (ef_manifest encrypted) then Inl FinalHashMismatch
     else Inr output)"

definition decrypt_to_file :: "deps \<Rightarrow> encrypted_file \<Rightarrow> symmetric_key \<Rightarrow> path \<Rightarrow> (file_error, unit) io" where
  "decrypt_to_file D encrypted key output_path =
     bindE (liftE (decrypt_to_bytes D encrypted key)) (\<lambda>output. intoE FileIo (fs_write output_path output))"

definition debug_manifest_path :: "path \<Rightarrow> path" where
  "debug_manifest_path root = root @ [''manifest.bin'']"

definition debug_chunks_dir :: "path \<Rightarrow> path" where
  "debug_chunks_dir root = root @ [''chunks'']"

definition debug_chunk_path :: "path \<Rightarrow> u32 \<Rightarrow> path" where
  "debug_chunk_path root index = debug_chunks_dir root @ [show_06 (unat index) @ ''.etle'']"

definition write_debug_chunk :: "encrypted_file \<Rightarrow> path \<Rightarrow> chunk_meta \<Rightarrow> (file_error, unit) io" where
  "write_debug_chunk encrypted root meta =
     bindE (liftE (ok_or (MissingChunk (cm_index meta)) (ef_chunks encrypted (cm_index meta)))) (\<lambda>chunk.
     intoE FileIo (fs_write (debug_chunk_path root (cm_index meta)) (ec_data chunk)))"

definition write_debug_workspace :: "manifest bincode \<Rightarrow> encrypted_file \<Rightarrow> path \<Rightarrow> (file_error, unit) io" where
  "write_debug_workspace C encrypted root =
     bindE (intoE FileIo (fs_create_dir_all (debug_chunks_dir root))) (\<lambda>_.
     bindE (liftE (map_err FileEncode (manifest_to_bytes C (ef_manifest encrypted)))) (\<lambda>bytes.
     bindE (intoE FileIo (fs_write (debug_manifest_path root) bytes)) (\<lambda>_.
     forE (m_chunks (ef_manifest encrypted)) (write_debug_chunk encrypted root))))"

definition read_debug_chunk :: "path \<Rightarrow> chunk_meta \<Rightarrow> (file_error, encrypted_chunk) io" where
  "read_debug_chunk root meta =
     bindE (intoE FileIo (fs_read (debug_chunk_path root (cm_index meta)))) (\<lambda>data.
     if (of_nat (length data) :: u64) \<noteq> cm_encrypted_size meta
     then throwE (ChunkSizeMismatch (cm_index meta) (cm_encrypted_size meta) (of_nat (length data)))
     else returnE \<lparr>ec_index = cm_index meta, ec_data = data\<rparr>)"

definition read_debug_workspace :: "manifest bincode \<Rightarrow> path \<Rightarrow> (file_error, encrypted_file) io" where
  "read_debug_workspace C root =
     bindE (intoE FileIo (fs_read (debug_manifest_path root))) (\<lambda>bytes.
     bindE (liftE (map_err FileDecode (manifest_from_bytes C bytes))) (\<lambda>m.
     bindE (mapE (read_debug_chunk root) (m_chunks m)) (\<lambda>chunks.
     returnE \<lparr>ef_manifest = m, ef_chunks = fold insert_chunk chunks Map.empty\<rparr>)))"

definition default_output_path :: "path \<Rightarrow> path" where
  "default_output_path input = (if input = [] then [''reconstructed-unnamed'']
     else butlast input @ [''reconstructed-'' @ file_name input])"

section \<open>Encrypting and decrypting\<close>

lemma insert_chunks_lookup:
  "distinct (map ec_index cs) \<Longrightarrow> fold insert_chunk cs m i =
     (case find (\<lambda>c. ec_index c = i) cs of Some c \<Rightarrow> Some c | None \<Rightarrow> m i)"
proof (induction cs arbitrary: m)
  case (Cons c cs)
  have "find (\<lambda>d. ec_index d = ec_index c) cs = None"
    unfolding find_None_iff using Cons.prems by (metis distinct.simps(2) image_eqI list.map(2) set_map)
  then show ?case
    using Cons by (auto simp: insert_chunk_def)
qed simp

lemma insert_chunks_mem:
  assumes "distinct (map ec_index cs)" and "c \<in> set cs"
  shows "fold insert_chunk cs m (ec_index c) = Some c"
proof -
  have "find (\<lambda>d. ec_index d = ec_index c) cs = Some c"
    using assms by (induction cs) auto
  then show ?thesis
    by (simp add: insert_chunks_lookup assms)
qed

text \<open>What one encryption relates: the plain chunk, its metadata and its ciphertext.\<close>

definition encrypts :: "deps \<Rightarrow> symmetric_key \<Rightarrow> file_id \<Rightarrow> plain_chunk \<Rightarrow> chunk_meta \<times> encrypted_chunk \<Rightarrow> bool" where
  "encrypts D key fid c mc \<longleftrightarrow> (case mc of (meta, ec) \<Rightarrow>
     cm_index meta = pc_index c \<and> ec_index ec = pc_index c \<and>
     cm_plain_size meta = of_nat (length (pc_data c)) \<and> cm_encrypted_size meta = of_nat (length (ec_data ec)) \<and>
     cm_hash meta = hash_chunk D (ec_data ec) \<and>
     encrypt_chunk D key (cm_nonce meta) (pc_data c)
       (build_chunk_aad fid (pc_index c) (of_nat (length (pc_data c)))) = Inr (ec_data ec))"

lemma encrypt_plain_chunk_Inr:
  "encrypt_plain_chunk D key fid c w = (Inr mc, w') \<Longrightarrow> encrypts D key fid c mc"
  by (auto simp: encrypt_plain_chunk_def encrypts_def Let_def bindE_Inr)

lemma mapE_Inr_list_all2:
  "mapE f xs w = (Inr ys, w') \<Longrightarrow> (\<And>x y w w'. f x w = (Inr y, w') \<Longrightarrow> R x y) \<Longrightarrow> list_all2 R xs ys"
  by (induction xs arbitrary: w ys) (auto simp: bindE_Inr)

lemma try_map_list_all2:
  "list_all2 (\<lambda>x y. f x = Inr y) xs ys \<Longrightarrow> try_map f xs = Inr ys"
  by (induction rule: list_all2_induct) auto

lemma encrypt_file_Inr:
  assumes "encrypt_file D p key cs w = (Inr enc, w')"
  obtains bs plain pairs where "lookup w p = Some (FileN bs)" "m_file_id (ef_manifest enc) = hash_file_id D bs"
    "concat (map pc_data plain) = bs" "indexed plain"
    "list_all2 (encrypts D key (hash_file_id D bs)) plain pairs"
    "m_chunks (ef_manifest enc) = map fst pairs" "ef_chunks enc = fold insert_chunk (map snd pairs) Map.empty"
proof -
  from assms obtain fid w1 md w2 plain w3 pairs where hf: "hash_file D p w = (Inr fid, w1)"
      and md: "fs_metadata p w1 = (Inr md, w2)" and rd: "read_file_chunks p cs w2 = (Inr plain, w3)"
      and en: "mapE (encrypt_plain_chunk D key fid) plain w3 = (Inr pairs, w')"
      and enc: "m_file_id (ef_manifest enc) = fid" "m_chunks (ef_manifest enc) = map fst pairs"
        "ef_chunks enc = fold insert_chunk (map snd pairs) Map.empty"
    by (auto simp: encrypt_file_def bindE_Inr Let_def)
  have same: "lookup w2 = lookup w"
    using frame_all_lookup [OF frame_hash_file hf] fs_metadata_Inr [OF md] by simp
  obtain bs where bs: "lookup w p = Some (FileN bs)" "fid = hash_file_id D bs"
    using hash_file_Inr [OF hf] .
  obtain bs' where bs': "lookup w2 p = Some (FileN bs')" "concat (map pc_data plain) = bs'" "indexed plain"
    by (rule read_file_chunks_Inr [OF rd]) blast
  then have "concat (map pc_data plain) = bs"
    using bs same by simp
  moreover have "list_all2 (encrypts D key fid) plain pairs"
    using mapE_Inr_list_all2 [OF en encrypt_plain_chunk_Inr] .
  ultimately show ?thesis
    using that bs bs' enc by simp
qed

lemma encrypts_indexes:
  "list_all2 (encrypts D key fid) plain pairs \<Longrightarrow> map (ec_index \<circ> snd) pairs = map pc_index plain"
  by (induction rule: list_all2_induct) (auto simp: encrypts_def)

lemma decrypt_one_encrypted:
  assumes "aead_ok D" and "encrypts D key fid c (meta, ec)"
    and "ef_chunks enc (cm_index meta) = Some ec" and "m_file_id (ef_manifest enc) = fid"
  shows "decrypt_one D enc key meta = Inr c"
proof -
  have "decrypt_chunk D key (cm_nonce meta) (ec_data ec) (build_chunk_aad fid (cm_index meta) (cm_plain_size meta)) = Inr (pc_data c)"
    using decrypt_encrypt_chunk [OF assms(1)] assms(2) by (auto simp: encrypts_def)
  then show ?thesis
    using assms by (auto simp: decrypt_one_def encrypts_def)
qed

lemma decrypt_encrypt_file:
  assumes "aead_ok D" and "encrypt_file D p key cs w = (Inr enc, w')"
  shows "\<exists>bs. lookup w p = Some (FileN bs) \<and> decrypt_to_bytes D enc key = Inr bs"
proof -
  obtain bs plain pairs where bs: "lookup w p = Some (FileN bs)" "m_file_id (ef_manifest enc) = hash_file_id D bs"
      "concat (map pc_data plain) = bs" "indexed plain"
      and en: "list_all2 (encrypts D key (hash_file_id D bs)) plain pairs"
      and enc: "m_chunks (ef_manifest enc) = map fst pairs" "ef_chunks enc = fold insert_chunk (map snd pairs) Map.empty"
    using encrypt_file_Inr [OF assms(2)] .
  have dist: "distinct (map ec_index (map snd pairs))"
    using indexed_distinct [OF bs(4)] encrypts_indexes [OF en] by simp
  have "list_all2 (\<lambda>meta c. decrypt_one D enc key meta = Inr c) (map fst pairs) plain"
  proof (simp add: list_all2_conv_all_nth, intro conjI allI impI)
    show "length pairs = length plain"
      using en by (simp add: list_all2_lengthD)
    fix i assume i: "i < length pairs"
    then have e: "encrypts D key (hash_file_id D bs) (plain ! i) (fst (pairs ! i), snd (pairs ! i))"
      using list_all2_nthD2 [OF en i] by simp
    moreover have "ef_chunks enc (ec_index (snd (pairs ! i))) = Some (snd (pairs ! i))"
      using insert_chunks_mem [OF dist, of "snd (pairs ! i)"] i by (simp add: enc)
    moreover have "ec_index (snd (pairs ! i)) = cm_index (fst (pairs ! i))"
      using e by (auto simp: encrypts_def split: prod.splits)
    ultimately show "decrypt_one D enc key (fst (pairs ! i)) = Inr (plain ! i)"
      using decrypt_one_encrypted [OF assms(1) e] bs(2) by simp
  qed
  then have "try_map (decrypt_one D enc key) (m_chunks (ef_manifest enc)) = Inr plain"
    by (simp add: enc try_map_list_all2)
  moreover have "join_chunks plain = bs"
    using join_chunks_perm [OF refl bs(4)] bs(3) by simp
  ultimately show ?thesis
    using bs(1,2) by (simp add: decrypt_to_bytes_def hash_file_id_def)
qed

section \<open>Properties\<close>

text \<open>Decrypting what \<open>encrypt_file\<close> returned with the same key gives back the contents of the
  file, whatever the chunk size and however the reads were split.\<close>

theorem encrypt_file_roundtrip:
  assumes "aead_ok D" and "encrypt_file D p key cs w = (Inr enc, w')"
  shows "\<exists>bs. lookup w p = Some (FileN bs) \<and> decrypt_to_bytes D enc key = Inr bs"
  using decrypt_encrypt_file [OF assms] .

lemma sample_encrypt_file:
  "\<exists>enc w'. encrypt_file sample_deps [''f''] (SymmetricKey 7) 2 sample_file_world = (Inr enc, w')"
  by (simp add: encrypt_file_def sample_file_world_def empty_world_def hash_file_def fs_open_def fs_read_def
      lookup_def syscall_def bindE_def intoE_def returnE_def hash_file_loop.simps file_read_def
      fs_metadata_def read_file_chunks_def read_chunks_loop.simps checked_add_u32_def
      encrypt_plain_chunk_def generate_nonce_def fill_bytes_def liftE_def sample_deps_def Let_def)

theorem encrypt_file_roundtrip_witness:
  "\<exists>enc w'. encrypt_file sample_deps [''f''] (SymmetricKey 7) 2 sample_file_world = (Inr enc, w') \<and>
     decrypt_to_bytes sample_deps enc (SymmetricKey 7) = Inr [1, 2, 3, 4, 5]"
proof -
  obtain enc w' where run: "encrypt_file sample_deps [''f''] (SymmetricKey 7) 2 sample_file_world = (Inr enc, w')"
    using sample_encrypt_file by blast
  have "lookup sample_file_world [''f''] = Some (FileN [1, 2, 3, 4, 5])"
    by (simp add: sample_file_world_def lookup_def)
  with encrypt_file_roundtrip [OF sample_aead_ok run] run show ?thesis by auto
qed

text \<open>C7: whatever an attacker does to the encrypted chunks of a file, and whatever key is used, a
  successful decryption under the untouched manifest returns the original contents, and used the
  original ciphertexts; otherwise it exhibits a collision of the hash function.\<close>

theorem tampered_file_detected:
  assumes "encrypt_file D p key cs w = (Inr enc, w')" and "ef_manifest enc' = ef_manifest enc"
    and "decrypt_to_bytes D enc' key' = Inr output"
  shows "(\<exists>bs. lookup w p = Some (FileN bs) \<and> (output = bs \<or> collision (blake3 D) output bs)) \<and>
    list_all (\<lambda>meta. \<exists>c c'. ef_chunks enc (cm_index meta) = Some c \<and> ef_chunks enc' (cm_index meta) = Some c' \<and>
      (ec_data c' = ec_data c \<or> collision (blake3 D) (ec_data c') (ec_data c))) (m_chunks (ef_manifest enc))"
proof -
  obtain bs plain pairs where bs: "lookup w p = Some (FileN bs)" "m_file_id (ef_manifest enc) = hash_file_id D bs"
      and ix: "indexed plain" and en: "list_all2 (encrypts D key (hash_file_id D bs)) plain pairs"
      and enc: "m_chunks (ef_manifest enc) = map fst pairs" "ef_chunks enc = fold insert_chunk (map snd pairs) Map.empty"
    by (rule encrypt_file_Inr [OF assms(1)]) blast
  have dist: "distinct (map ec_index (map snd pairs))"
    using indexed_distinct [OF ix] encrypts_indexes [OF en] by simp
  from assms(3) obtain plain' where dec: "try_map (decrypt_one D enc' key') (map fst pairs) = Inr plain'"
      and final: "hash_file_id D output = hash_file_id D bs"
    using bs(2) enc(1) assms(2) by (auto simp: decrypt_to_bytes_def and_then_Inr Let_def hash_file_id_def split: if_splits)
  have "\<exists>c c'. ef_chunks enc (cm_index m) = Some c \<and> ef_chunks enc' (cm_index m) = Some c' \<and>
      (ec_data c' = ec_data c \<or> collision (blake3 D) (ec_data c') (ec_data c))" if m: "m \<in> set (map fst pairs)" for m
  proof -
    from m obtain ec where ec: "(m, ec) \<in> set pairs" by auto
    then obtain i where i: "i < length pairs" "pairs ! i = (m, ec)"
      by (auto simp: in_set_conv_nth)
    have e: "encrypts D key (hash_file_id D bs) (plain ! i) (m, ec)"
      using list_all2_nthD2 [OF en i(1)] i(2) by simp
    have "ec \<in> set (map snd pairs)"
      using ec by force
    with e have "ef_chunks enc (cm_index m) = Some ec" "cm_hash m = hash_chunk D (ec_data ec)"
      using insert_chunks_mem [OF dist, of ec Map.empty] by (auto simp: enc encrypts_def)
    moreover obtain c' where "ef_chunks enc' (cm_index m) = Some c'" "hash_chunk D (ec_data c') = cm_hash m"
    proof -
      obtain y where "decrypt_one D enc' key' m = Inr y"
        using list_all2_nthD [OF try_map_InrD [OF dec], of i] i by auto
      then show ?thesis
        using that by (auto simp: decrypt_one_def and_then_Inr split: if_splits)
    qed
    ultimately show ?thesis
      by (auto simp: collision_def hash_chunk_def hash_bytes_def)
  qed
  then show ?thesis
    using bs(1) final by (auto simp: enc list_all_iff collision_def hash_file_id_def hash_bytes_def)
qed

theorem tampered_file_detected_witness:
  "\<exists>enc w' enc'. encrypt_file sample_deps [''f''] (SymmetricKey 7) 2 sample_file_world = (Inr enc, w') \<and>
     ef_manifest enc' = ef_manifest enc \<and> decrypt_to_bytes sample_deps enc' (SymmetricKey 7) = Inr [1, 2, 3, 4, 5] \<and>
     list_all (\<lambda>meta. \<exists>c c'. ef_chunks enc (cm_index meta) = Some c \<and> ef_chunks enc' (cm_index meta) = Some c' \<and>
      (ec_data c' = ec_data c \<or> collision (blake3 sample_deps) (ec_data c') (ec_data c))) (m_chunks (ef_manifest enc))"
proof -
  obtain enc w' where run: "encrypt_file sample_deps [''f''] (SymmetricKey 7) 2 sample_file_world = (Inr enc, w')"
    using sample_encrypt_file by blast
  have "lookup sample_file_world [''f''] = Some (FileN [1, 2, 3, 4, 5])"
    by (simp add: sample_file_world_def lookup_def)
  with decrypt_encrypt_file [OF sample_aead_ok run]
  have "decrypt_to_bytes sample_deps enc (SymmetricKey 7) = Inr [1, 2, 3, 4, 5]"
    by auto
  with tampered_file_detected [OF run refl this] run show ?thesis by blast
qed

section \<open>The debug workspace\<close>

lemma debug_chunk_path_inj: "debug_chunk_path root i = debug_chunk_path root j \<longleftrightarrow> i = j"
  by (simp add: debug_chunk_path_def word_unat_eq_iff)

lemma debug_manifest_not_chunk [simp]: "debug_manifest_path root \<noteq> debug_chunk_path root i"
  by (simp add: debug_manifest_path_def debug_chunk_path_def debug_chunks_dir_def)

text \<open>The loop that writes the chunks: later writes to the same file write the same bytes.\<close>

lemma write_chunks_loop_Inr:
  assumes "forE metas (write_debug_chunk enc root) w = (Inr (), w')"
  shows "(\<forall>meta \<in> set metas. \<exists>c. ef_chunks enc (cm_index meta) = Some c \<and>
      lookup w' (debug_chunk_path root (cm_index meta)) = Some (FileN (ec_data c))) \<and>
    (\<forall>q. (\<forall>i. q = debug_chunk_path root i \<longrightarrow> i \<notin> cm_index ` set metas) \<longrightarrow> lookup w' q = lookup w q)"
  using assms
proof (induction metas arbitrary: w)
  case (Cons m ms)
  then obtain w1 where wc: "write_debug_chunk enc root m w = (Inr (), w1)"
      and rest: "forE ms (write_debug_chunk enc root) w1 = (Inr (), w')"
    by (auto simp: bindE_Inr)
  then obtain c where c: "ef_chunks enc (cm_index m) = Some c"
      and wr: "fs_write (debug_chunk_path root (cm_index m)) (ec_data c) w = (Inr (), w1)"
    by (auto simp: bindE_Inr write_debug_chunk_def)
  note IH = Cons.IH [OF rest] and w1 = fs_write_Inr [OF wr]
  have "lookup w' (debug_chunk_path root (cm_index m)) = Some (FileN (ec_data c))"
  proof (cases "cm_index m \<in> cm_index ` set ms")
    case True
    then obtain m' where "m' \<in> set ms" "cm_index m' = cm_index m"
      by fastforce
    then show ?thesis
      using IH c by force
  next
    case False
    then show ?thesis
      using IH w1 by (simp add: debug_chunk_path_inj)
  qed
  with IH w1 c show ?case
    by auto
qed simp

lemma mapE_pure: "(\<And>x. x \<in> set xs \<Longrightarrow> f x w = (Inr (g x), w)) \<Longrightarrow> mapE f xs w = (Inr (map g xs), w)"
  by (induction xs) simp_all

lemma try_map_cong: "map f xs = map g xs \<Longrightarrow> try_map f xs = try_map g xs"
  by (induction xs) simp_all

lemma decrypt_one_cong:
  "ef_manifest a = ef_manifest b \<Longrightarrow> ef_chunks a (cm_index m) = ef_chunks b (cm_index m) \<Longrightarrow>
     decrypt_one D a key m = decrypt_one D b key m"
  by (simp add: decrypt_one_def cong: if_cong)

lemma insert_chunks_graph:
  "(\<forall>c \<in> set cs. G (ec_index c) = Some c) \<Longrightarrow> i \<in> ec_index ` set cs \<or> m i = G i \<Longrightarrow> fold insert_chunk cs m i = G i"
  by (induction cs arbitrary: m) (auto simp: insert_chunk_def)

definition sizes_match :: "encrypted_file \<Rightarrow> bool" where
  "sizes_match enc \<longleftrightarrow> list_all (\<lambda>meta. case ef_chunks enc (cm_index meta) of
     None \<Rightarrow> True | Some c \<Rightarrow> ec_index c = cm_index meta \<and> cm_encrypted_size meta = of_nat (length (ec_data c)))
     (m_chunks (ef_manifest enc))"

text \<open>A workspace that was written is read back, without failures in between, as a file with the
  same manifest that decrypts under every key as the written one does.\<close>

theorem debug_workspace_roundtrip:
  assumes "bincode_ok C" and "sizes_match enc" and "write_debug_workspace C enc root w = (Inr (), w')"
    and "faults w' = []"
  shows "\<exists>enc'. read_debug_workspace C root w' = (Inr enc', w') \<and> ef_manifest enc' = ef_manifest enc \<and>
    (\<forall>meta \<in> set (m_chunks (ef_manifest enc)). ef_chunks enc' (cm_index meta) = ef_chunks enc (cm_index meta)) \<and>
    (\<forall>key. decrypt_to_bytes D enc' key = decrypt_to_bytes D enc key)"
proof -
  let ?metas = "m_chunks (ef_manifest enc)"
  from assms(3) obtain bytes w1 w2 where
      enc: "manifest_to_bytes C (ef_manifest enc) = Inr bytes"
      and wm: "fs_write (debug_manifest_path root) bytes w1 = (Inr (), w2)"
      and loop: "forE ?metas (write_debug_chunk enc root) w2 = (Inr (), w')"
    by (auto simp: write_debug_workspace_def bindE_Inr)
  note stored = write_chunks_loop_Inr [OF loop]
  then have "lookup w' (debug_manifest_path root) = Some (FileN bytes)"
    using fs_write_Inr [OF wm] by simp
  then have rm: "fs_read (debug_manifest_path root) w' = (Inr bytes, w')"
    using assms(4) by (simp add: fs_read_nofault)
  have dm: "manifest_from_bytes C bytes = Inr (ef_manifest enc)"
    using enc decode_whole_encode [OF assms(1)] by (simp add: manifest_to_bytes_def manifest_from_bytes_def)
  let ?chunk = "\<lambda>meta. the (ef_chunks enc (cm_index meta))"
  have rc: "read_debug_chunk root m w' = (Inr (?chunk m), w') \<and> ef_chunks enc (cm_index m) = Some (?chunk m) \<and>
      ec_index (?chunk m) = cm_index m" if "m \<in> set ?metas" for m
    using stored that assms(2,4)
    by (force simp: read_debug_chunk_def sizes_match_def list_all_iff fs_read_nofault io_simps)
  have "mapE (read_debug_chunk root) ?metas w' = (Inr (map ?chunk ?metas), w')"
    using rc by (intro mapE_pure) blast
  then have "read_debug_workspace C root w' = (Inr \<lparr>ef_manifest = ef_manifest enc,
      ef_chunks = fold insert_chunk (map ?chunk ?metas) Map.empty\<rparr>, w')" (is "_ = (Inr ?enc', _)")
    using rm dm by (simp add: read_debug_workspace_def io_simps)
  moreover have same: "\<forall>meta \<in> set ?metas. ef_chunks ?enc' (cm_index meta) = ef_chunks enc (cm_index meta)"
    using rc insert_chunks_graph [of "map ?chunk ?metas" "ef_chunks enc"] by (auto simp: image_image)
  then have "map (decrypt_one D ?enc' key) ?metas = map (decrypt_one D enc key) ?metas" for key
    by (intro map_cong decrypt_one_cong) simp_all
  then have "try_map (decrypt_one D ?enc' key) ?metas = try_map (decrypt_one D enc key) ?metas" for key
    by (rule try_map_cong)
  then have "decrypt_to_bytes D ?enc' key = decrypt_to_bytes D enc key" for key
    by (simp add: decrypt_to_bytes_def)
  ultimately show ?thesis
    using same by (intro exI [of _ ?enc']) simp
qed

text \<open>A serializer that knows one value, for evaluating the operations on that value.\<close>

definition single_bincode :: "'a \<Rightarrow> 'a bincode" where
  "single_bincode v = \<lparr>encode_to_vec = (\<lambda>x. if x = v then Some [1] else None),
     decode_from_slice = (\<lambda>bs. case bs of [] \<Rightarrow> None | b # _ \<Rightarrow> if b = 1 then Some (v, 1) else None)\<rparr>"

lemma single_bincode_ok: "bincode_ok (single_bincode v)"
  by (simp add: bincode_ok_def single_bincode_def)

definition sample_encrypted :: encrypted_file where
  "sample_encrypted = \<lparr>ef_manifest = \<lparr>m_file_id = FileId 1, m_file_name = ''f'', m_file_size = 3, m_chunk_size = 4,
     m_chunks = [(sample_chunk_meta 2)\<lparr>cm_encrypted_size := 3\<rparr>]\<rparr>,
     ef_chunks = [2 \<mapsto> \<lparr>ec_index = 2, ec_data = [7, 8, 9]\<rparr>]\<rparr>"

lemma sample_workspace_written:
  "\<exists>w'. write_debug_workspace (single_bincode (ef_manifest sample_encrypted)) sample_encrypted [''ws''] empty_world = (Inr (), w') \<and>
     faults w' = []"
  by (simp add: write_debug_workspace_def sample_encrypted_def empty_world_def single_bincode_def bindE_def
      intoE_def liftE_def fs_create_dir_all_def syscall_def is_file_def lookup_def debug_chunks_dir_def
      make_dirs_def ensure_dir_def manifest_to_bytes_def encode_whole_def fs_write_def fs_create_def fs_write_all_def
      append_file_def debug_manifest_path_def is_dir_def set_node_def write_debug_chunk_def debug_chunk_path_def
      sample_chunk_meta_def returnE_def)

theorem debug_workspace_roundtrip_witness:
  "\<exists>w' enc'. write_debug_workspace (single_bincode (ef_manifest sample_encrypted)) sample_encrypted [''ws''] empty_world = (Inr (), w') \<and>
     read_debug_workspace (single_bincode (ef_manifest sample_encrypted)) [''ws''] w' = (Inr enc', w') \<and>
     ef_manifest enc' = ef_manifest sample_encrypted \<and> ef_chunks enc' 2 = Some \<lparr>ec_index = 2, ec_data = [7, 8, 9]\<rparr>"
proof -
  obtain w' where run: "write_debug_workspace (single_bincode (ef_manifest sample_encrypted)) sample_encrypted [''ws''] empty_world = (Inr (), w')"
      and nf: "faults w' = []"
    using sample_workspace_written by (elim exE conjE)
  have "sizes_match sample_encrypted"
    by (simp add: sizes_match_def sample_encrypted_def)
  from debug_workspace_roundtrip [OF single_bincode_ok this run nf, of sample_deps] obtain enc' where
      enc': "read_debug_workspace (single_bincode (ef_manifest sample_encrypted)) [''ws''] w' = (Inr enc', w')"
        "ef_manifest enc' = ef_manifest sample_encrypted"
      and same: "\<forall>meta \<in> set (m_chunks (ef_manifest sample_encrypted)).
        ef_chunks enc' (cm_index meta) = ef_chunks sample_encrypted (cm_index meta)"
    by blast
  have "ef_chunks enc' 2 = Some \<lparr>ec_index = 2, ec_data = [7, 8, 9]\<rparr>"
    using same by (simp add: sample_encrypted_def sample_chunk_meta_def)
  with run enc' show ?thesis by blast
qed

end
