(* ===== verification/Etle_State.thy ===== *)
theory Etle_State
  imports Etle_FileStorage
begin

text \<open>
  \<open>src/state/model.rs\<close> and \<open>src/state/codec.rs\<close>: which chunks of a share are complete, kept as a
  sorted vector without duplicates that is searched by bisection, and its compact form on disk, a
  bitmap behind a magic number. The abstraction of a progress is the set of its chunks.
\<close>

section \<open>Model\<close>

datatype share_mode = Seeding | Downloading | Completed | Paused

record etle_secret =
  es_share_id :: share_id
  es_file_key :: symmetric_key

definition secret_to_bytes :: "etle_secret bincode \<Rightarrow> etle_secret \<Rightarrow> (encode_error, bytes) result" where
  "secret_to_bytes C s = encode_whole C s"

definition secret_from_bytes :: "etle_secret bincode \<Rightarrow> bytes \<Rightarrow> (decode_error, etle_secret) result" where
  "secret_from_bytes C bytes = decode_whole ''secret'' C bytes"

definition normalize_chunk_list :: "u32 list \<Rightarrow> u32 list" where
  "normalize_chunk_list chunks = remdups_adj (sort chunks)"

text \<open>\<open>slice::binary_search\<close>: \<open>Inr\<close> the position of the value, or \<open>Inl\<close> where it would be inserted.\<close>

function binary_search_between :: "u32 list \<Rightarrow> u32 \<Rightarrow> nat \<Rightarrow> nat \<Rightarrow> (nat, nat) result" where
  "binary_search_between xs x lo hi =
     (if hi \<le> lo then Inl lo
      else let mid = lo + (hi - lo) div 2 in
        if xs ! mid = x then Inr mid
        else if xs ! mid < x then binary_search_between xs x (Suc mid) hi
        else binary_search_between xs x lo mid)"
  by pat_completeness auto
termination
  by (relation "measure (\<lambda>(xs, x, lo, hi). hi - lo)") auto

declare binary_search_between.simps [simp del]

definition binary_search :: "u32 list \<Rightarrow> u32 \<Rightarrow> (nat, nat) result" where
  "binary_search xs x = binary_search_between xs x 0 (length xs)"

record download_progress =
  dp_share_id :: share_id
  dp_completed :: "u32 list"

definition progress_new :: "share_id \<Rightarrow> u32 list \<Rightarrow> download_progress" where
  "progress_new sid chunks = \<lparr>dp_share_id = sid, dp_completed = normalize_chunk_list chunks\<rparr>"

definition progress_empty :: "share_id \<Rightarrow> download_progress" where
  "progress_empty sid = progress_new sid []"

definition mark_completed :: "u32 \<Rightarrow> download_progress \<Rightarrow> download_progress" where
  "mark_completed index p = (case binary_search (dp_completed p) index of
      Inr _ \<Rightarrow> p
    | Inl position \<Rightarrow> p\<lparr>dp_completed := take position (dp_completed p) @ index # drop position (dp_completed p)\<rparr>)"

definition progress_has_chunk :: "download_progress \<Rightarrow> u32 \<Rightarrow> bool" where
  "progress_has_chunk p index = (case binary_search (dp_completed p) index of Inr _ \<Rightarrow> True | Inl _ \<Rightarrow> False)"

definition progress_is_complete :: "download_progress \<Rightarrow> nat \<Rightarrow> bool" where
  "progress_is_complete p total_chunks \<longleftrightarrow> length (dp_completed p) = total_chunks"

record share_state =
  ss_share_id :: share_id
  ss_mode :: share_mode
  ss_output_dir :: "path option"
  ss_completed :: "u32 list"

definition share_state_new :: "share_id \<Rightarrow> share_mode \<Rightarrow> path option \<Rightarrow> u32 list \<Rightarrow> share_state" where
  "share_state_new sid mode output_dir chunks =
     \<lparr>ss_share_id = sid, ss_mode = mode, ss_output_dir = output_dir, ss_completed = normalize_chunk_list chunks\<rparr>"

definition share_state_from_progress :: "share_mode \<Rightarrow> path option \<Rightarrow> download_progress \<Rightarrow> share_state" where
  "share_state_from_progress mode output_dir p = share_state_new (dp_share_id p) mode output_dir (dp_completed p)"

section \<open>Codec\<close>

definition COMPACT_PROGRESS_MAGIC :: bytes where
  "COMPACT_PROGRESS_MAGIC = str_bytes ''ETLEPRG2''"

definition COMPACT_STATE_MAGIC :: bytes where
  "COMPACT_STATE_MAGIC = str_bytes ''ETLESTA2''"

definition encode_completed_bitmap :: "u32 list \<Rightarrow> bytes" where
  "encode_completed_bitmap chunks = (if chunks = [] then [] else
     fold (\<lambda>index bitmap. let i = unat index in
         bitmap[i div 8 := bitmap ! (i div 8) OR push_bit (i mod 8) 1])
       chunks (replicate (unat (Max (set chunks)) div 8 + 1) 0))"

definition decode_completed_bitmap :: "bytes \<Rightarrow> u32 list" where
  "decode_completed_bitmap bitmap = concat (map (\<lambda>(byte_index, byte).
     if byte = 0 then []
     else concat (map (\<lambda>bit_index. if byte AND push_bit bit_index 1 = 0 then []
        else [of_nat (byte_index * 8 + bit_index)]) [0..<8])) (enumerate 0 bitmap))"

record compact_download_progress =
  cdp_share_id :: share_id
  cdp_completed_count :: u64
  cdp_completed_bitmap :: bytes

definition compact_from_progress :: "download_progress \<Rightarrow> compact_download_progress" where
  "compact_from_progress p = \<lparr>cdp_share_id = dp_share_id p, cdp_completed_count = of_nat (length (dp_completed p)),
     cdp_completed_bitmap = encode_completed_bitmap (dp_completed p)\<rparr>"

definition compact_into_progress :: "compact_download_progress \<Rightarrow> download_progress" where
  "compact_into_progress c = progress_new (cdp_share_id c)
     (take (unat (cdp_completed_count c)) (decode_completed_bitmap (cdp_completed_bitmap c)))"

record compact_share_state =
  css_share_id :: share_id
  css_mode :: share_mode
  css_output_dir :: "path option"
  css_completed_count :: u64
  css_completed_bitmap :: bytes

definition compact_from_state :: "share_state \<Rightarrow> compact_share_state" where
  "compact_from_state s = \<lparr>css_share_id = ss_share_id s, css_mode = ss_mode s, css_output_dir = ss_output_dir s,
     css_completed_count = of_nat (length (ss_completed s)),
     css_completed_bitmap = encode_completed_bitmap (ss_completed s)\<rparr>"

definition compact_into_state :: "compact_share_state \<Rightarrow> share_state" where
  "compact_into_state c = share_state_new (css_share_id c) (css_mode c) (css_output_dir c)
     (take (unat (css_completed_count c)) (decode_completed_bitmap (css_completed_bitmap c)))"

definition encode_with_magic :: "bytes \<Rightarrow> 'a bincode \<Rightarrow> 'a \<Rightarrow> (encode_error, bytes) result" where
  "encode_with_magic magic C v = and_then (encode_whole C v) (\<lambda>payload. Inr (magic @ payload))"

definition strip_magic :: "bytes \<Rightarrow> bytes \<Rightarrow> bytes option" where
  "strip_magic magic bytes = (if prefix magic bytes then Some (drop (length magic) bytes) else None)"

text \<open>The serializers of the two compact records and of the two records of the older format.\<close>

record state_codecs =
  sc_progress :: "compact_download_progress bincode"
  sc_legacy_progress :: "download_progress bincode"
  sc_state :: "compact_share_state bincode"
  sc_legacy_state :: "share_state bincode"

definition encode_progress :: "state_codecs \<Rightarrow> download_progress \<Rightarrow> (encode_error, bytes) result" where
  "encode_progress S p = encode_with_magic COMPACT_PROGRESS_MAGIC (sc_progress S) (compact_from_progress p)"

definition encode_state :: "state_codecs \<Rightarrow> share_state \<Rightarrow> (encode_error, bytes) result" where
  "encode_state S s = encode_with_magic COMPACT_STATE_MAGIC (sc_state S) (compact_from_state s)"

definition decode_progress :: "state_codecs \<Rightarrow> bytes \<Rightarrow> (decode_error, download_progress) result" where
  "decode_progress S bytes = (case strip_magic COMPACT_PROGRESS_MAGIC bytes of
      Some payload \<Rightarrow> and_then (decode_whole ''compact progress'' (sc_progress S) payload) (\<lambda>c. Inr (compact_into_progress c))
    | None \<Rightarrow> decode_whole ''legacy progress'' (sc_legacy_progress S) bytes)"

definition decode_state :: "state_codecs \<Rightarrow> bytes \<Rightarrow> (decode_error, share_state) result" where
  "decode_state S bytes = (case strip_magic COMPACT_STATE_MAGIC bytes of
      Some payload \<Rightarrow> and_then (decode_whole ''compact state'' (sc_state S) payload) (\<lambda>c. Inr (compact_into_state c))
    | None \<Rightarrow> decode_whole ''legacy state'' (sc_legacy_state S) bytes)"

section \<open>The sorted vector as a set\<close>

definition progress_inv :: "download_progress \<Rightarrow> bool" where
  "progress_inv p \<longleftrightarrow> sorted_wrt (<) (dp_completed p)"

definition progress_set :: "download_progress \<Rightarrow> u32 set" where
  "progress_set p = set (dp_completed p)"

lemma strict_sorted_iff: "sorted_wrt (<) (xs :: u32 list) \<longleftrightarrow> sorted xs \<and> distinct xs"
  by (simp add: strict_sorted_iff)

lemma distinct_remdups_adj_sorted: "sorted (xs :: u32 list) \<Longrightarrow> distinct (remdups_adj xs)"
  by (induction xs rule: remdups_adj.induct) auto

lemma normalize_strict: "sorted_wrt (<) (normalize_chunk_list xs)"
  by (simp add: normalize_chunk_list_def strict_sorted_iff sorted_remdups_adj distinct_remdups_adj_sorted)

lemma set_normalize [simp]: "set (normalize_chunk_list xs) = set xs"
  by (simp add: normalize_chunk_list_def)

lemma normalize_id: "sorted_wrt (<) xs \<Longrightarrow> normalize_chunk_list xs = xs"
  by (simp add: normalize_chunk_list_def strict_sorted_iff sorted_sort_id remdups_adj_distinct)

lemma binary_search_between_correct:
  assumes "sorted_wrt (<) xs" and "hi \<le> length xs" and "lo \<le> hi"
    and "\<forall>i < lo. xs ! i < x" and "\<forall>i < length xs. hi \<le> i \<longrightarrow> x < xs ! i"
  shows "case binary_search_between xs x lo hi of
      Inr i \<Rightarrow> i < length xs \<and> xs ! i = x
    | Inl i \<Rightarrow> i \<le> length xs \<and> (\<forall>j < i. xs ! j < x) \<and> (\<forall>j < length xs. i \<le> j \<longrightarrow> x < xs ! j)"
  using assms
proof (induction xs x lo hi rule: binary_search_between.induct)
  case (1 xs x lo hi)
  show ?case
  proof (cases "hi \<le> lo")
    case True
    with "1.prems" show ?thesis by (simp add: binary_search_between.simps)
  next
    case False
    let ?mid = "lo + (hi - lo) div 2"
    have mid: "lo \<le> ?mid" "?mid < hi"
      using False by auto
    have mono: "xs ! i < xs ! j" if "i < j" "j < length xs" for i j
      using "1.prems"(1) that by (simp add: sorted_wrt_nth_less)
    consider (eq) "xs ! ?mid = x" | (lt) "xs ! ?mid < x" | (gt) "x < xs ! ?mid"
      by (metis linorder_cases)
    then show ?thesis
    proof cases
      case eq
      with False mid "1.prems"(2) show ?thesis
        by (simp add: binary_search_between.simps Let_def)
    next
      case lt
      have "xs ! i < x" if "i < Suc ?mid" for i
        using lt mono [of i ?mid] mid "1.prems"(2) that by (cases "i = ?mid") auto
      with "1.IH"(1) [OF False refl _ lt] lt False mid "1.prems" show ?thesis
        by (subst binary_search_between.simps) (auto simp: Let_def)
    next
      case gt
      have "\<forall>i < length xs. ?mid \<le> i \<longrightarrow> x < xs ! i"
      proof (intro allI impI)
        fix i assume that: "i < length xs" "?mid \<le> i"
        show "x < xs ! i"
          using gt mono [of ?mid i] that by (cases "i = ?mid") auto
      qed
      moreover have "\<not> xs ! ?mid < x" "xs ! ?mid \<noteq> x"
        using gt by auto
      ultimately show ?thesis
        using "1.IH"(2) [OF False refl] False mid "1.prems" by (subst binary_search_between.simps) (auto simp: Let_def)
    qed
  qed
qed

lemma binary_search_correct:
  assumes "sorted_wrt (<) xs"
  shows "case binary_search xs x of
      Inr i \<Rightarrow> x \<in> set xs
    | Inl i \<Rightarrow> x \<notin> set xs \<and> (\<forall>y \<in> set (take i xs). y < x) \<and> (\<forall>y \<in> set (drop i xs). x < y)"
  using binary_search_between_correct [OF assms, of "length xs" 0 x] unfolding binary_search_def [symmetric]
  by (auto simp: in_set_conv_nth split: sum.splits) (metis less_irrefl not_le)+

lemma progress_has_chunk_iff: "progress_inv p \<Longrightarrow> progress_has_chunk p i \<longleftrightarrow> i \<in> progress_set p"
  using binary_search_correct [of "dp_completed p" i]
  by (auto simp: progress_inv_def progress_set_def progress_has_chunk_def split: sum.splits)

lemma progress_new_inv: "progress_inv (progress_new sid xs)" "progress_set (progress_new sid xs) = set xs"
  by (simp_all add: progress_inv_def progress_set_def progress_new_def normalize_strict)

lemma mark_completed_refines:
  assumes "progress_inv p"
  shows "progress_inv (mark_completed i p)" "progress_set (mark_completed i p) = insert i (progress_set p)"
    "dp_share_id (mark_completed i p) = dp_share_id p"
proof -
  note bs = binary_search_correct [OF assms [unfolded progress_inv_def], of i]
  show "progress_inv (mark_completed i p)"
    using bs assms
    by (auto simp: progress_inv_def mark_completed_def sorted_wrt_append sorted_wrt_take sorted_wrt_drop
        split: sum.splits) (metis append_take_drop_id less_trans sorted_wrt_append)+
  have "set (take n xs) \<union> set (drop n xs) = set xs" for n and xs :: "u32 list"
    by (metis append_take_drop_id set_append)
  then show "progress_set (mark_completed i p) = insert i (progress_set p)"
    using bs by (auto simp: progress_set_def mark_completed_def split: sum.splits)
  show "dp_share_id (mark_completed i p) = dp_share_id p"
    by (simp add: mark_completed_def split: sum.splits)
qed

text \<open>
  The contract of a record of completed chunks: membership and marking mean membership in and
  insertion into a set, and the count is its cardinality. The users of the progress, which mark
  chunks one at a time, rely on it.
\<close>

locale chunk_record =
  fixes inv :: "'p \<Rightarrow> bool" and content :: "'p \<Rightarrow> u32 set" and mark :: "u32 \<Rightarrow> 'p \<Rightarrow> 'p"
    and has :: "'p \<Rightarrow> u32 \<Rightarrow> bool" and count :: "'p \<Rightarrow> nat"
  assumes inv_mark: "inv p \<Longrightarrow> inv (mark i p)"
    and content_mark: "inv p \<Longrightarrow> content (mark i p) = insert i (content p)"
    and has_content: "inv p \<Longrightarrow> has p i \<longleftrightarrow> i \<in> content p"
    and count_content: "inv p \<Longrightarrow> count p = card (content p)"
    and finite_content: "finite (content p)"
begin

lemma inv_marks: "inv p \<Longrightarrow> inv (fold mark is p)"
  by (induction "is" arbitrary: p) (simp_all add: inv_mark)

lemma content_marks: "inv p \<Longrightarrow> content (fold mark is p) = content p \<union> set is"
  by (induction "is" arbitrary: p) (auto simp: inv_mark content_mark)

lemma marks_complete:
  assumes "inv p" and "content p \<subseteq> all_chunks" and "set is \<subseteq> all_chunks" and "finite all_chunks"
  shows "count (fold mark is p) = card all_chunks \<longleftrightarrow> (\<forall>i \<in> all_chunks. has (fold mark is p) i)"
proof -
  let ?q = "fold mark is p"
  have q: "inv ?q" "content ?q \<subseteq> all_chunks"
    using assms inv_marks content_marks by auto
  have "card (content ?q) = card all_chunks \<longleftrightarrow> content ?q = all_chunks"
    using q(2) assms(4) by (metis card_subset_eq)
  then show ?thesis
    using q count_content has_content by auto
qed

end

interpretation progress: chunk_record progress_inv progress_set mark_completed progress_has_chunk "\<lambda>p. length (dp_completed p)"
  by unfold_locales
    (simp_all add: mark_completed_refines progress_has_chunk_iff, simp_all add: progress_set_def progress_inv_def strict_sorted_iff distinct_card)

section \<open>The bitmap\<close>

abbreviation set_index :: "u32 \<Rightarrow> bytes \<Rightarrow> bytes" where
  "set_index index bitmap \<equiv> (let i = unat index in
     bitmap[i div 8 := bitmap ! (i div 8) OR push_bit (i mod 8) 1])"

lemma set_indexes_bits:
  assumes "\<forall>i \<in> set is. unat i div 8 < length bm"
  shows "length (fold set_index is bm) = length bm \<and> (\<forall>k < length bm. \<forall>b < 8.
    bit (fold set_index is bm ! k) b \<longleftrightarrow> bit (bm ! k) b \<or> k * 8 + b \<in> unat ` set is)"
  using assms
proof (induction "is" arbitrary: bm)
  case (Cons i "is")
  let ?bm = "set_index i bm"
  have i: "unat i div 8 < length bm"
    using Cons.prems by simp
  have one: "bit (?bm ! k) b \<longleftrightarrow> bit (bm ! k) b \<or> k * 8 + b = unat i" if "k < length bm" "b < 8" for k b
  proof -
    have "(b + k * 8) div 8 = k" "(b + k * 8) mod 8 = b"
      using that(2) by simp_all
    then have "k * 8 + b = unat i \<longleftrightarrow> k = unat i div 8 \<and> b = unat i mod 8"
      by (metis add.commute div_mult_mod_eq)
    then show ?thesis
      using that i by (auto simp: Let_def nth_list_update bit_or_iff bit_exp_iff)
  qed
  have "\<forall>j \<in> set is. unat j div 8 < length ?bm"
    using Cons.prems by (simp add: Let_def)
  from Cons.IH [OF this] one show ?case
    by (auto simp: Let_def)
qed simp

lemma Max_div_bound: "i \<in> set is \<Longrightarrow> unat i div 8 \<le> unat (Max (set is) :: u32) div 8"
  using Max_ge [of "set is" i] by (simp add: div_le_mono word_le_nat_alt)

lemma encode_bitmap_bits:
  assumes "is \<noteq> []"
  shows "length (encode_completed_bitmap is) = unat (Max (set is)) div 8 + 1 \<and>
    (\<forall>k < length (encode_completed_bitmap is). \<forall>b < 8.
      bit (encode_completed_bitmap is ! k) b \<longleftrightarrow> k * 8 + b \<in> unat ` set is)"
proof -
  have "\<forall>i \<in> set is. unat i div 8 < length (replicate (unat (Max (set is)) div 8 + 1) (0 :: byte))"
    using Max_div_bound [of _ "is"] by (auto simp: less_Suc_eq_le)
  note set_indexes_bits [OF this]
  moreover have "bit (replicate (unat (Max (set is)) div 8 + 1) (0 :: byte) ! k) b = False"
    if "k < unat (Max (set is)) div 8 + 1" for k b
    using that by (simp only: nth_replicate) simp
  ultimately show ?thesis
    using assms by (simp add: encode_completed_bitmap_def del: replicate_Suc)
qed

lemma decode_bitmap_filter:
  "decode_completed_bitmap bm = map of_nat (filter (\<lambda>i. bit (bm ! (i div 8)) (i mod 8)) [0..<8 * length bm])"
proof (induction bm rule: rev_induct)
  case (snoc byte bm)
  let ?n = "length bm"
  have "[0..<8 * length (bm @ [byte])] = [0..<8 * ?n] @ map (\<lambda>b. ?n * 8 + b) [0..<8]"
    using upt_add_eq_append [of 0 "8 * ?n" 8] by (simp add: upt_rec numeral_eq_Suc mult.commute)
  moreover have "filter (\<lambda>i. bit ((bm @ [byte]) ! (i div 8)) (i mod 8)) [0..<8 * ?n] =
      filter (\<lambda>i. bit (bm ! (i div 8)) (i mod 8)) [0..<8 * ?n]"
    by (rule filter_cong) (auto simp: nth_append)
  moreover have "filter (\<lambda>i. bit ((bm @ [byte]) ! (i div 8)) (i mod 8)) (map (\<lambda>b. ?n * 8 + b) [0..<8]) =
      map (\<lambda>b. ?n * 8 + b) (filter (bit byte) [0..<8])"
    unfolding filter_map by (intro arg_cong [where f = "map _"] filter_cong) (auto simp: nth_append)
  moreover have "(if byte = 0 then [] else concat (map (\<lambda>b. if byte AND push_bit b 1 = 0 then [] else [of_nat (?n * 8 + b)]) [0..<8])) =
      map of_nat (map (\<lambda>b. ?n * 8 + b) (filter (bit byte) [0..<8]))"
    by (simp add: bit_iff_and_push_bit_not_eq_0 upt_rec)
  ultimately show ?case
    using snoc by (simp add: decode_completed_bitmap_def enumerate_append_eq)
qed (simp add: decode_completed_bitmap_def)

lemma decode_encode_bitmap:
  assumes "sorted_wrt (<) is"
  shows "decode_completed_bitmap (encode_completed_bitmap is) = is"
proof (cases "is = []")
  case True
  then show ?thesis by (simp add: encode_completed_bitmap_def decode_completed_bitmap_def)
next
  case False
  let ?bm = "encode_completed_bitmap is"
  note bits = encode_bitmap_bits [OF False]
  have bound: "unat i < 8 * length ?bm" if "i \<in> set is" for i
  proof -
    have "unat i div 8 < length ?bm"
      using Max_div_bound [OF that] bits by simp
    then show ?thesis by presburger
  qed
  have "bit (?bm ! (k div 8)) (k mod 8) \<longleftrightarrow> k \<in> unat ` set is" if "k < 8 * length ?bm" for k
    using bits that by (simp add: less_mult_imp_div_less mult.commute)
  then have "filter (\<lambda>k. bit (?bm ! (k div 8)) (k mod 8)) [0..<8 * length ?bm] =
      filter (\<lambda>k. k \<in> unat ` set is) [0..<8 * length ?bm]"
    by (intro filter_cong) auto
  also have "\<dots> = map unat is"
  proof (rule sorted_distinct_set_unique)
    show "sorted (map unat is)" "distinct (map unat is)"
      using assms sorted_wrt_mono_rel [of "is" "(<)" "\<lambda>x y. unat x \<le> unat y"]
      by (auto simp: strict_sorted_iff sorted_map word_less_nat_alt distinct_map inj_on_def word_unat_eq_iff)
    show "set (filter (\<lambda>k. k \<in> unat ` set is) [0..<8 * length ?bm]) = set (map unat is)"
      using bound by auto
  qed (simp_all add: sorted_wrt_filter)
  finally show ?thesis
    by (simp add: decode_bitmap_filter o_def)
qed

lemma strict_length_bound:
  assumes "sorted_wrt (<) (is :: u32 list)"
  shows "length is < 2 ^ 64"
proof -
  have "distinct (map unat is)"
    using assms by (simp add: strict_sorted_iff distinct_map inj_on_def word_unat_eq_iff)
  then have "length is = card (set (map unat is))"
    using distinct_card [of "map unat is"] by simp
  also have "\<dots> \<le> card {..<(2 :: nat) ^ 32}"
    by (rule card_mono) (use unat_u32_bound in auto)
  finally show ?thesis by simp
qed

lemma truncate_decode_encode:
  assumes "sorted_wrt (<) is"
  shows "normalize_chunk_list (take (unat (of_nat (length is) :: u64)) (decode_completed_bitmap (encode_completed_bitmap is))) = is"
  using strict_length_bound [OF assms]
  by (simp add: decode_encode_bitmap [OF assms] normalize_id [OF assms] unat_of_nat take_bit_eq_mod)

lemma decode_with_magic:
  assumes "bincode_ok C" and "encode_with_magic magic C v = Inr bytes"
  obtains payload where "strip_magic magic bytes = Some payload" "decode_whole l C payload = Inr v"
proof -
  from assms(2) obtain payload where p: "encode_whole C v = Inr payload" "bytes = magic @ payload"
    by (auto simp: encode_with_magic_def and_then_Inr)
  show ?thesis
    by (rule that [of payload]) (use decode_whole_encode [OF assms(1) p(1)] p in \<open>simp_all add: strip_magic_def\<close>)
qed

lemma decode_encode_progress:
  assumes "bincode_ok (sc_progress S)" and "progress_inv p" and "encode_progress S p = Inr bytes"
  shows "decode_progress S bytes = Inr p"
proof -
  obtain payload where "strip_magic COMPACT_PROGRESS_MAGIC bytes = Some payload"
      "decode_whole ''compact progress'' (sc_progress S) payload = Inr (compact_from_progress p)"
    using decode_with_magic [OF assms(1) assms(3) [unfolded encode_progress_def]] .
  then show ?thesis
    using assms(2) by (simp add: decode_progress_def compact_into_progress_def compact_from_progress_def progress_new_def
        truncate_decode_encode progress_inv_def)
qed

lemma decode_encode_state:
  assumes "bincode_ok (sc_state S)" and "sorted_wrt (<) (ss_completed s)" and "encode_state S s = Inr bytes"
  shows "decode_state S bytes = Inr s"
proof -
  obtain payload where "strip_magic COMPACT_STATE_MAGIC bytes = Some payload"
      "decode_whole ''compact state'' (sc_state S) payload = Inr (compact_from_state s)"
    using decode_with_magic [OF assms(1) assms(3) [unfolded encode_state_def]] .
  then show ?thesis
    using assms(2) by (simp add: decode_state_def compact_into_state_def compact_from_state_def share_state_new_def
        truncate_decode_encode)
qed

section \<open>Properties\<close>



text \<open>When only chunks of a share are marked, the count reaches the number of its chunks exactly
  when every one of them has been marked: \<open>is_complete\<close>, which compares the two numbers, is right.\<close>

theorem progress_complete_iff:
  assumes "distinct chunks" and "progress_set p \<subseteq> set chunks" and "progress_inv p" and "set marked \<subseteq> set chunks"
  shows "progress_is_complete (fold mark_completed marked p) (length chunks) \<longleftrightarrow>
    list_all (progress_has_chunk (fold mark_completed marked p)) chunks"
  using progress.marks_complete [OF assms(3,2,4)] distinct_card [OF assms(1)]
  by (simp add: progress_is_complete_def list_all_iff)

theorem progress_complete_iff_witness:
  "progress_is_complete (fold mark_completed [1, 0, 1] (progress_empty (ShareId 0))) (length [0, 1 :: u32]) \<and>
     list_all (progress_has_chunk (fold mark_completed [1, 0, 1] (progress_empty (ShareId 0)))) [0, 1]"
proof -
  let ?p = "progress_empty (ShareId 0)"
  have p: "progress_inv ?p" "progress_set ?p = {}"
    by (simp_all add: progress_empty_def progress_new_inv)
  moreover have "list_all (progress_has_chunk (fold mark_completed [1, 0, 1] ?p)) [0, 1]"
    using progress.has_content [OF progress.inv_marks [OF p(1), of "[1, 0, 1]"]] progress.content_marks [OF p(1), of "[1, 0, 1]"] p(2)
    by simp
  ultimately show ?thesis
    using progress_complete_iff [of "[0, 1]" ?p "[1, 0, 1]"] by simp
qed

text \<open>A progress is read back from its compact file as it was written: the bitmap loses nothing.\<close>

theorem progress_bytes_roundtrip:
  assumes "bincode_ok (sc_progress S)" and "progress_inv p" and "encode_progress S p = Inr bytes"
  shows "decode_progress S bytes = Inr p"
  using decode_encode_progress [OF assms] .

definition sample_progress :: download_progress where
  "sample_progress = \<lparr>dp_share_id = ShareId 7, dp_completed = [0, 3, 17]\<rparr>"

definition sample_state :: share_state where
  "sample_state = \<lparr>ss_share_id = ShareId 7, ss_mode = Paused, ss_output_dir = Some [''o''], ss_completed = [0, 3, 17]\<rparr>"

definition sample_codecs :: state_codecs where
  "sample_codecs = \<lparr>sc_progress = single_bincode (compact_from_progress sample_progress),
     sc_legacy_progress = single_bincode sample_progress,
     sc_state = single_bincode (compact_from_state sample_state), sc_legacy_state = single_bincode sample_state\<rparr>"

theorem progress_bytes_roundtrip_witness:
  "\<exists>bytes. encode_progress sample_codecs sample_progress = Inr bytes \<and> decode_progress sample_codecs bytes = Inr sample_progress"
proof -
  obtain bytes where "encode_progress sample_codecs sample_progress = Inr bytes"
    by (simp add: encode_progress_def encode_with_magic_def encode_whole_def sample_codecs_def single_bincode_def)
  moreover have "bincode_ok (sc_progress sample_codecs)" "progress_inv sample_progress"
    by (simp_all add: sample_codecs_def single_bincode_ok progress_inv_def sample_progress_def)
  ultimately show ?thesis
    using progress_bytes_roundtrip by blast
qed

text \<open>The same holds of the state of a share, with its mode and output directory.\<close>

theorem state_bytes_roundtrip:
  assumes "bincode_ok (sc_state S)" and "sorted_wrt (<) (ss_completed s)" and "encode_state S s = Inr bytes"
  shows "decode_state S bytes = Inr s"
  using decode_encode_state [OF assms] .

theorem state_bytes_roundtrip_witness:
  "\<exists>bytes. encode_state sample_codecs sample_state = Inr bytes \<and> decode_state sample_codecs bytes = Inr sample_state"
proof -
  obtain bytes where "encode_state sample_codecs sample_state = Inr bytes"
    by (simp add: encode_state_def encode_with_magic_def encode_whole_def sample_codecs_def single_bincode_def)
  moreover have "bincode_ok (sc_state sample_codecs)" "sorted_wrt (<) (ss_completed sample_state)"
    by (simp_all add: sample_codecs_def single_bincode_ok sample_state_def)
  ultimately show ?thesis
    using state_bytes_roundtrip by blast
qed

end
