(* ===== verification/Etle_Library.thy ===== *)
theory Etle_Library
  imports Etle_State "HOL-Library.Product_Lexorder"
begin

text \<open>
  \<open>src/state/paths.rs\<close>, \<open>src/state/storage.rs\<close> and \<open>src/state/library.rs\<close>: where the files of a share
  live, how they are written so that a failure never leaves a half-written file behind, and the
  operations on the whole library. The mode bits of the secret file are not part of the model.
\<close>

section \<open>Paths\<close>

record library_paths =
  lp_root :: path
  lp_share_id :: share_id

definition for_share :: "path \<Rightarrow> share_id \<Rightarrow> library_paths" where
  "for_share root sid = \<lparr>lp_root = root, lp_share_id = sid\<rparr>"

definition etle_dir :: "library_paths \<Rightarrow> path" where
  "etle_dir P = lp_root P @ [''.etle'']"

definition library_dir :: "library_paths \<Rightarrow> path" where
  "library_dir P = etle_dir P @ [''library'']"

definition share_dir :: "library_paths \<Rightarrow> path" where
  "share_dir P = library_dir P @ [share_id_to_string (lp_share_id P)]"

definition descriptor_path :: "library_paths \<Rightarrow> path" where
  "descriptor_path P = share_dir P @ [''descriptor.etle'']"

definition secret_path :: "library_paths \<Rightarrow> path" where
  "secret_path P = share_dir P @ [''secret.etlekey'']"

definition progress_path :: "library_paths \<Rightarrow> path" where
  "progress_path P = share_dir P @ [''progress.bin'']"

definition state_path :: "library_paths \<Rightarrow> path" where
  "state_path P = share_dir P @ [''state.bin'']"

definition chunks_dir :: "library_paths \<Rightarrow> path" where
  "chunks_dir P = share_dir P @ [''chunks'']"

definition output_dir :: "library_paths \<Rightarrow> path" where
  "output_dir P = share_dir P @ [''output'']"

definition chunk_path :: "library_paths \<Rightarrow> u32 \<Rightarrow> path" where
  "chunk_path P index = chunks_dir P @ [show_06 (unat index) @ ''.etle'']"

lemmas path_defs = descriptor_path_def secret_path_def progress_path_def state_path_def chunks_dir_def
  output_dir_def chunk_path_def

section \<open>Writing a file\<close>

definition tmp_name :: "string \<Rightarrow> nat \<Rightarrow> nat \<Rightarrow> string" where
  "tmp_name name process_id nanos = ''.'' @ name @ ''.'' @ show_nat process_id @ ''.'' @ show_nat nanos @ ''.tmp''"

definition write_file_atomic :: "path \<Rightarrow> bytes \<Rightarrow> (io_error, unit) io" where
  "write_file_atomic p bytes =
     bindE (fs_create_dir_all (butlast p)) (\<lambda>_.
     bindE (askE pid) (\<lambda>process_id.
     bindE clock_now (\<lambda>nanos.
     let tmp_path = butlast p @ [tmp_name (if p = [] then ''etle-write'' else last p) process_id nanos] in
     bindE (fs_create_new tmp_path) (\<lambda>_.
     bindE (tryE (bindE (fs_write_all tmp_path bytes) (\<lambda>_. fs_sync_all tmp_path))) (\<lambda>written.
     case written of
       Inl error \<Rightarrow> bindE (tryE (fs_remove_file tmp_path)) (\<lambda>_. throwE error)
     | Inr _ \<Rightarrow> bindE (tryE (fs_rename tmp_path p)) (\<lambda>renamed.
         case renamed of
           Inl error \<Rightarrow> bindE (tryE (fs_remove_file tmp_path)) (\<lambda>_. throwE error)
         | Inr _ \<Rightarrow> returnE ()))))))"

section \<open>The files of a share\<close>

record library_codecs =
  lc_descriptor :: "etle_descriptor bincode"
  lc_secret :: "etle_secret bincode"
  lc_states :: state_codecs

definition ensure_share_id :: "share_id \<Rightarrow> share_id \<Rightarrow> (file_error, unit) result" where
  "ensure_share_id expected actual = (if expected = actual then Inr () else Inl (ShareIdMismatch expected actual))"

definition write_descriptor :: "library_codecs \<Rightarrow> library_paths \<Rightarrow> etle_descriptor \<Rightarrow> (file_error, unit) io" where
  "write_descriptor L P d =
     bindE (liftE (ensure_share_id (lp_share_id P) (d_share_id d))) (\<lambda>_.
     bindE (intoE FileIo (fs_create_dir_all (share_dir P))) (\<lambda>_.
     bindE (liftE (map_err FileEncode (descriptor_to_bytes (lc_descriptor L) d))) (\<lambda>bytes.
     intoE FileIo (write_file_atomic (descriptor_path P) bytes))))"

definition read_descriptor :: "deps \<Rightarrow> library_codecs \<Rightarrow> library_paths \<Rightarrow> (file_error, etle_descriptor) io" where
  "read_descriptor D L P =
     bindE (intoE FileIo (fs_read (descriptor_path P))) (\<lambda>bytes.
     bindE (liftE (map_err FileDecode (descriptor_from_bytes (lc_descriptor L) bytes))) (\<lambda>d.
     bindE (liftE (ensure_share_id (lp_share_id P) (d_share_id d))) (\<lambda>_.
     if \<not> verify_share_id D d then throwE (ShareIdMismatch (recompute_share_id D d) (d_share_id d))
     else returnE d)))"

definition write_secret :: "library_codecs \<Rightarrow> library_paths \<Rightarrow> etle_secret \<Rightarrow> (file_error, unit) io" where
  "write_secret L P s =
     bindE (liftE (ensure_share_id (lp_share_id P) (es_share_id s))) (\<lambda>_.
     bindE (intoE FileIo (fs_create_dir_all (share_dir P))) (\<lambda>_.
     bindE (liftE (map_err FileEncode (secret_to_bytes (lc_secret L) s))) (\<lambda>bytes.
     intoE FileIo (write_file_atomic (secret_path P) bytes))))"

definition read_secret :: "library_codecs \<Rightarrow> library_paths \<Rightarrow> (file_error, etle_secret) io" where
  "read_secret L P =
     bindE (intoE FileIo (fs_read (secret_path P))) (\<lambda>bytes.
     bindE (liftE (map_err FileDecode (secret_from_bytes (lc_secret L) bytes))) (\<lambda>s.
     bindE (liftE (ensure_share_id (lp_share_id P) (es_share_id s))) (\<lambda>_. returnE s)))"

definition write_progress :: "library_codecs \<Rightarrow> library_paths \<Rightarrow> download_progress \<Rightarrow> (file_error, unit) io" where
  "write_progress L P p =
     bindE (liftE (ensure_share_id (lp_share_id P) (dp_share_id p))) (\<lambda>_.
     bindE (intoE FileIo (fs_create_dir_all (share_dir P))) (\<lambda>_.
     bindE (liftE (map_err FileEncode (encode_progress (lc_states L) p))) (\<lambda>bytes.
     intoE FileIo (write_file_atomic (progress_path P) bytes))))"

definition read_progress :: "library_codecs \<Rightarrow> library_paths \<Rightarrow> (file_error, download_progress) io" where
  "read_progress L P =
     bindE (intoE FileIo (fs_read (progress_path P))) (\<lambda>bytes.
     bindE (liftE (map_err FileDecode (decode_progress (lc_states L) bytes))) (\<lambda>p.
     bindE (liftE (ensure_share_id (lp_share_id P) (dp_share_id p))) (\<lambda>_. returnE p)))"

definition write_state :: "library_codecs \<Rightarrow> library_paths \<Rightarrow> share_state \<Rightarrow> (file_error, unit) io" where
  "write_state L P s =
     bindE (liftE (ensure_share_id (lp_share_id P) (ss_share_id s))) (\<lambda>_.
     bindE (intoE FileIo (fs_create_dir_all (share_dir P))) (\<lambda>_.
     bindE (liftE (map_err FileEncode (encode_state (lc_states L) s))) (\<lambda>bytes.
     intoE FileIo (write_file_atomic (state_path P) bytes))))"

definition read_state :: "library_codecs \<Rightarrow> library_paths \<Rightarrow> (file_error, share_state) io" where
  "read_state L P =
     bindE (intoE FileIo (fs_read (state_path P))) (\<lambda>bytes.
     bindE (liftE (map_err FileDecode (decode_state (lc_states L) bytes))) (\<lambda>s.
     bindE (liftE (ensure_share_id (lp_share_id P) (ss_share_id s))) (\<lambda>_. returnE s)))"

definition write_chunk :: "library_paths \<Rightarrow> encrypted_chunk \<Rightarrow> (file_error, path) io" where
  "write_chunk P c =
     bindE (intoE FileIo (fs_create_dir_all (chunks_dir P))) (\<lambda>_.
     bindE (intoE FileIo (write_file_atomic (chunk_path P (ec_index c)) (ec_data c))) (\<lambda>_.
     returnE (chunk_path P (ec_index c))))"

definition read_chunk :: "library_paths \<Rightarrow> u32 \<Rightarrow> u64 \<Rightarrow> (file_error, encrypted_chunk) io" where
  "read_chunk P index expected_size =
     bindE (intoE FileIo (fs_read (chunk_path P index))) (\<lambda>data.
     if (of_nat (length data) :: u64) \<noteq> expected_size
     then throwE (ChunkSizeMismatch index expected_size (of_nat (length data)))
     else returnE \<lparr>ec_index = index, ec_data = data\<rparr>)"

definition has_chunk :: "library_paths \<Rightarrow> u32 \<Rightarrow> ('e, bool) io" where
  "has_chunk P index = path_is_file (chunk_path P index)"

section \<open>The library\<close>

record local_share_summary =
  lss_paths :: library_paths
  lss_descriptor :: etle_descriptor
  lss_progress :: "download_progress option"
  lss_state :: "share_state option"
  lss_has_secret :: bool

definition summary_completed_chunks :: "local_share_summary \<Rightarrow> nat" where
  "summary_completed_chunks s = (case lss_progress s of None \<Rightarrow> 0 | Some p \<Rightarrow> length (dp_completed p))"

definition summary_total_chunks :: "local_share_summary \<Rightarrow> nat" where
  "summary_total_chunks s = length (d_chunks (lss_descriptor s))"

definition summary_mode :: "local_share_summary \<Rightarrow> share_mode option" where
  "summary_mode s = map_option ss_mode (lss_state s)"

text \<open>One iteration of the loop of \<open>list\<close>: \<open>continue\<close> contributes no summary.\<close>

definition list_entry :: "deps \<Rightarrow> library_codecs \<Rightarrow> path \<Rightarrow> path \<Rightarrow> string \<Rightarrow> (file_error, local_share_summary list) io" where
  "list_entry D L root dir name =
     bindE (intoE FileIo (fs_metadata (dir @ [name]))) (\<lambda>file_type.
     if file_type \<noteq> DirMeta then returnE [] else
     case share_id_from_str name of
       Inl _ \<Rightarrow> returnE []
     | Inr sid \<Rightarrow>
        let P = for_share root sid in
        bindE (path_is_file (descriptor_path P)) (\<lambda>present.
        if \<not> present then returnE [] else
        bindE (read_descriptor D L P) (\<lambda>d.
        bindE (bindE (path_is_file (progress_path P)) (\<lambda>b.
          if b then bindE (read_progress L P) (\<lambda>p. returnE (Some p)) else returnE None)) (\<lambda>progress.
        bindE (bindE (path_is_file (state_path P)) (\<lambda>b.
          if b then bindE (read_state L P) (\<lambda>s. returnE (Some s)) else returnE None)) (\<lambda>state.
        bindE (path_is_file (secret_path P)) (\<lambda>has_secret.
        returnE [\<lparr>lss_paths = P, lss_descriptor = d, lss_progress = progress, lss_state = state,
          lss_has_secret = has_secret\<rparr>]))))))"

definition library_list :: "deps \<Rightarrow> library_codecs \<Rightarrow> path \<Rightarrow> (file_error, local_share_summary list) io" where
  "library_list D L root =
     (let dir = root @ [''.etle'', ''library''] in
      bindE (path_exists dir) (\<lambda>present.
      if \<not> present then returnE []
      else bindE (intoE FileIo (fs_read_dir dir)) (\<lambda>entries.
        bindE (mapE (list_entry D L root dir) entries) (\<lambda>found.
        returnE (sort_key (\<lambda>s. (d_name (lss_descriptor s), share_id_to_string (d_share_id (lss_descriptor s))))
          (concat found))))))"

definition library_init :: "library_codecs \<Rightarrow> path \<Rightarrow> etle_descriptor \<Rightarrow> symmetric_key \<Rightarrow> share_mode \<Rightarrow> path option \<Rightarrow> (file_error, library_paths) io" where
  "library_init L root d file_key mode out_dir =
     (let P = for_share root (d_share_id d) in
      bindE (intoE FileIo (fs_create_dir_all (chunks_dir P))) (\<lambda>_.
      bindE (intoE FileIo (fs_create_dir_all (output_dir P))) (\<lambda>_.
      bindE (write_descriptor L P d) (\<lambda>_.
      bindE (write_secret L P \<lparr>es_share_id = d_share_id d, es_file_key = file_key\<rparr>) (\<lambda>_.
      let progress = (if mode = Seeding \<or> mode = Completed then progress_new (d_share_id d) (map cm_index (d_chunks d))
        else progress_empty (d_share_id d)) in
      bindE (write_progress L P progress) (\<lambda>_.
      bindE (write_state L P (share_state_from_progress mode out_dir progress)) (\<lambda>_.
      returnE P)))))))"

definition library_delete :: "path \<Rightarrow> share_id \<Rightarrow> (file_error, bool) io" where
  "library_delete root sid =
     (let dir = share_dir (for_share root sid) in
      bindE (path_exists dir) (\<lambda>present.
      if \<not> present then returnE False
      else bindE (intoE FileIo (fs_remove_dir_all dir)) (\<lambda>_. returnE True)))"

section \<open>Atomic writing\<close>

text \<open>The scratch files of a directory: the names that start with a dot.\<close>

definition scratch_of :: "path \<Rightarrow> path \<Rightarrow> bool" where
  "scratch_of p q \<longleftrightarrow> (\<exists>name. q = butlast p @ [''.'' @ name])"

lemma tmp_scratch: "scratch_of p (butlast p @ [tmp_name n i t])"
  by (simp add: scratch_of_def tmp_name_def)

lemma tmp_name_neq: "tmp_name n i t \<noteq> n"
  by (auto simp: tmp_name_def dest: arg_cong [where f = length])

lemma tmp_path_neq: "butlast p @ [tmp_name (if p = [] then ''etle-write'' else last p) i t] \<noteq> p"
  by (cases p rule: rev_cases) (simp_all add: tmp_name_neq)

lemma not_prefix_butlast: "p \<noteq> [] \<Longrightarrow> \<not> prefix p (butlast p)"
  by (cases p rule: rev_cases) (auto dest!: prefix_length_le)

lemma fs_create_new_Inr: "fs_create_new p w = (Inr (), w') \<Longrightarrow> lookup w' p = Some (FileN [])"
  by (auto simp: fs_create_new_def syscall_def split: list.splits option.splits if_splits prod.splits)

lemma fs_rename_Inr:
  "fs_rename a b w = (Inr (), w') \<Longrightarrow> lookup w a = Some (FileN bs) \<Longrightarrow> lookup w' b = Some (FileN bs)"
  by (auto simp: fs_rename_def syscall_def split: list.splits option.splits if_splits prod.splits)

lemma fs_rename_Inl: "fs_rename a b w = (Inl e, w') \<Longrightarrow> lookup w' = lookup w"
  by (auto simp: fs_rename_def syscall_def no_effect_def fun_eq_iff
      split: list.splits option.splits if_splits prod.splits node.splits)

lemma write_sync_frame:
  "tryE (bindE (fs_write_all t bs) (\<lambda>_. fs_sync_all t)) w = (Inr r, w') \<Longrightarrow> q \<noteq> t \<Longrightarrow> lookup w' q = lookup w q"
proof -
  have "preserves (frame (\<lambda>q. q = t)) (tryE (bindE (fs_write_all t bs) (\<lambda>_. fs_sync_all t)))"
    by (intro frame.pres_try frame.pres_bind frame_write_all) auto
  then show "tryE (bindE (fs_write_all t bs) (\<lambda>_. fs_sync_all t)) w = (Inr r, w') \<Longrightarrow> q \<noteq> t \<Longrightarrow> lookup w' q = lookup w q"
    using preserves_frameD by blast
qed

lemma write_sync_Inr:
  assumes "tryE (bindE (fs_write_all t bs) (\<lambda>_. fs_sync_all t)) w = (Inr (Inr u), w')" and "lookup w t = Some (FileN old)"
  shows "lookup w' t = Some (FileN (old @ bs))"
proof -
  from assms(1) have "bindE (fs_write_all t bs) (\<lambda>_. fs_sync_all t) w = (Inr u, w')"
    by (simp add: tryE_def split: prod.splits)
  then obtain w1 where wr: "fs_write_all t bs w = (Inr (), w1)" and sy: "fs_sync_all t w1 = (Inr u, w')"
    by (auto simp: bindE_Inr)
  have "lookup w1 t = Some (FileN (old @ bs))"
    using wr assms(2) by (auto simp: fs_write_all_def append_file_def syscall_def split: list.splits option.splits prod.splits)
  then show ?thesis
    using frame_all_lookup [OF frame_sync sy] by simp
qed

text \<open>The steps of one atomic write: preparing the scratch file, then the rename.\<close>

lemma bindE_step: "m w = (Inr x, w1) \<Longrightarrow> bindE m f w = f x w1"
  by (simp add: bindE_run)

lemma bindE_drawn:
  "bindE (askE g) f w = f (g w) w"
  "bindE clock_now k w = k (clock w (clock_pos w)) (w\<lparr>clock_pos := Suc (clock_pos w)\<rparr>)"
  by (simp_all add: bindE_run askE_def clock_now_def)

text \<open>The second part of \<open>write_file_atomic\<close>, once the temporary file exists.\<close>

lemma write_rename_spec:
  assumes "t \<noteq> p" and t3: "lookup w t = Some (FileN [])"
    and run: "bindE (tryE (bindE (fs_write_all t bs) (\<lambda>_. fs_sync_all t))) (\<lambda>written.
      case written of
        Inl error \<Rightarrow> bindE (tryE (fs_remove_file t)) (\<lambda>_. throwE error)
      | Inr _ \<Rightarrow> bindE (tryE (fs_rename t p)) (\<lambda>renamed.
          case renamed of
            Inl error \<Rightarrow> bindE (tryE (fs_remove_file t)) (\<lambda>_. throwE error)
          | Inr _ \<Rightarrow> returnE ())) w = (r, w')"
  shows "lookup w' p = (case r of Inr _ \<Rightarrow> Some (FileN bs) | Inl _ \<Rightarrow> lookup w p)"
proof -
  obtain x w4 where x: "tryE (bindE (fs_write_all t bs) (\<lambda>_. fs_sync_all t)) w = (Inr x :: io_error + _, w4)"
    using tryE_total by blast
  have p4: "lookup w4 p = lookup w p"
    using write_sync_frame [OF x] assms(1) by metis
  have rm: "lookup (snd (fs_remove_file t v)) p = lookup v p" for v
    using preserves_frameD [OF frame_remove_file [of "\<lambda>q. q = t"], of t v] assms(1) by (metis prod.collapse)
  show ?thesis
  proof (cases x)
    case (Inl e)
    have "w' = snd (fs_remove_file t w4)" "r = Inl e"
      using run x Inl by (auto simp: bindE_def tryE_def split: prod.splits)
    with rm p4 show ?thesis by simp
  next
    case x': (Inr u)
    note t4 = write_sync_Inr [OF x [unfolded x'] t3, unfolded append_Nil]
    obtain y w5 where y: "fs_rename t p w4 = (y, w5)" by fastforce
    show ?thesis
    proof (cases y)
      case (Inl e)
      have "w' = snd (fs_remove_file t w5)" "r = Inl e"
        using run x x' y Inl by (auto simp: bindE_def tryE_def split: prod.splits)
      with rm p4 fs_rename_Inl y Inl show ?thesis by simp
    next
      case y': (Inr v)
      have "w' = w5" "r = Inr ()"
        using run x x' y y' by (auto simp: bindE_def tryE_def split: prod.splits)
      with fs_rename_Inr y y' t4 show ?thesis by simp
    qed
  qed
qed

lemma write_file_atomic_spec:
  assumes "p \<noteq> []" and "write_file_atomic p bs w = (r, w')"
  shows "lookup w' p = (case r of Inr _ \<Rightarrow> Some (FileN bs) | Inl _ \<Rightarrow> lookup w p)"
proof -
  obtain d w1 where d: "fs_create_dir_all (butlast p) w = (d, w1)" by fastforce
  have p1: "lookup w1 p = lookup w p"
    using preserves_frameD [OF frame_create_dir_all [of "butlast p" "\<lambda>q. prefix q (butlast p)"] d] not_prefix_butlast [OF assms(1)]
    by blast
  show ?thesis
  proof (cases d)
    case (Inl e)
    with assms(2) d p1 show ?thesis by (auto simp: write_file_atomic_def bindE_def)
  next
    case (Inr u)
    let ?t = "butlast p @ [tmp_name (if p = [] then ''etle-write'' else last p) (pid w1) (clock w1 (clock_pos w1))]"
    let ?w2 = "w1\<lparr>clock_pos := Suc (clock_pos w1)\<rparr>"
    have t: "?t \<noteq> p" by (rule tmp_path_neq)
    obtain c w3 where c: "fs_create_new ?t ?w2 = (c, w3)" by fastforce
    have p3: "lookup w3 p = lookup w p"
      using preserves_frameD [OF frame_create_new [of "\<lambda>q. q = ?t"] c] t p1 by simp
    show ?thesis
    proof (cases c)
      case (Inl e)
      with assms(2) d Inr c p3 show ?thesis by (auto simp: write_file_atomic_def bindE_def askE_def clock_now_def Let_def)
    next
      case c': (Inr uc)
      then have "fs_create_new ?t ?w2 = (Inr (), w3)" using c by (cases uc) (simp only:)
      note t3 = fs_create_new_Inr [OF this]
      from assms(2) show ?thesis
        unfolding write_file_atomic_def Let_def bindE_step [where m = "fs_create_dir_all (butlast p)", OF d [unfolded Inr]] bindE_drawn
          bindE_step [where m = "fs_create_new ?t", OF c [unfolded c']]
        by (rule write_rename_spec [OF t t3, unfolded p3])
    qed
  qed
qed

lemma frame_write_file_atomic:
  assumes "p \<noteq> []" and "P p" and "\<And>q. prefix q (butlast p) \<Longrightarrow> P q" and "\<And>q. scratch_of p q \<Longrightarrow> P q"
  shows "preserves (frame P) (write_file_atomic p bs)"
proof -
  have t: "P (butlast p @ [tmp_name (last p) i n])" for i n
    using assms(4) tmp_scratch by blast
  show ?thesis
    unfolding write_file_atomic_def Let_def using assms(1,2,3) t
    by (auto intro!: frame.pres_bind frame.pres_try frame_calls split: sum.splits)
qed

text \<open>What writing the file \<open>p\<close> may change: \<open>p\<close>, the directories above it, and scratch files beside it.\<close>

definition touches :: "path \<Rightarrow> path \<Rightarrow> bool" where
  "touches p q \<longleftrightarrow> q = p \<or> prefix q (butlast p) \<or> scratch_of p q"

lemma frame_atomic [intro]: "p \<noteq> [] \<Longrightarrow> preserves (frame (touches p)) (write_file_atomic p bs)"
  by (rule frame_write_file_atomic) (simp_all add: touches_def)

lemma touches_snoc: "touches (d @ [a]) (d @ [b]) \<longleftrightarrow> b = a \<or> (\<exists>n. b = ''.'' @ n)"
  by (auto simp: touches_def scratch_of_def dest: prefix_length_le)

lemma atomic_Inr:
  "p \<noteq> [] \<Longrightarrow> write_file_atomic p bs w = (Inr (), w') \<Longrightarrow> lookup w' p = Some (FileN bs)"
  using write_file_atomic_spec by fastforce

section \<open>The store of chunks\<close>

text \<open>
  What the transfers rely on of the place where chunks are kept: chunks of different indexes do not
  interfere; a chunk that was put is there, and a failing \<open>put\<close> leaves the old one.
\<close>

locale chunk_store =
  fixes loc :: "'k \<Rightarrow> path" and put :: "'k \<Rightarrow> bytes \<Rightarrow> ('e, 'r) io"
  assumes put_here: "put k bs w = (r, w') \<Longrightarrow> lookup w' (loc k) = (case r of Inr _ \<Rightarrow> Some (FileN bs) | Inl _ \<Rightarrow> lookup w (loc k))"
    and put_there: "put k bs w = (r, w') \<Longrightarrow> j \<noteq> k \<Longrightarrow> lookup w' (loc j) = lookup w (loc j)"
begin

lemma puts_there:
  "forE kvs (\<lambda>kv. put (fst kv) (snd kv)) w = (r, w') \<Longrightarrow> j \<notin> fst ` set kvs \<Longrightarrow> lookup w' (loc j) = lookup w (loc j)"
proof (induction kvs arbitrary: w)
  case (Cons kv kvs)
  obtain r1 w1 where p: "put (fst kv) (snd kv) w = (r1, w1)" by fastforce
  then have "lookup w1 (loc j) = lookup w (loc j)"
    using put_there Cons.prems(2) by simp
  with Cons p show ?case
    by (cases r1) (auto simp: bindE_def)
qed simp

lemma puts_here:
  "forE kvs (\<lambda>kv. put (fst kv) (snd kv)) w = (Inr (), w') \<Longrightarrow> distinct (map fst kvs) \<Longrightarrow> kv \<in> set kvs \<Longrightarrow>
     lookup w' (loc (fst kv)) = Some (FileN (snd kv))"
proof (induction kvs arbitrary: w)
  case (Cons x kvs)
  obtain u w1 where p: "put (fst x) (snd x) w = (Inr u, w1)"
      and rest: "forE kvs (\<lambda>kv. put (fst kv) (snd kv)) w1 = (Inr (), w')"
    using Cons.prems(1) by (auto simp: bindE_Inr)
  show ?case
  proof (cases "kv = x")
    case True
    with puts_there [OF rest, of "fst x"] put_here [OF p] Cons.prems(2) show ?thesis by simp
  next
    case False
    with Cons.IH [OF rest] Cons.prems show ?thesis by simp
  qed
qed simp

end

lemma chunk_path_neq_Nil [simp]: "chunk_path P i \<noteq> []"
  by (simp add: chunk_path_def)

lemma butlast_chunk_path [simp]: "butlast (chunk_path P i) = chunks_dir P"
  by (simp add: chunk_path_def)

lemma chunk_path_inj [simp]: "chunk_path P i = chunk_path P j \<longleftrightarrow> i = j"
  by (simp add: chunk_path_def word_unat_eq_iff)

lemma digit_char_not_dot:
  assumes "d < 10"
  shows "digit_char d \<noteq> CHR ''.''"
proof
  assume "digit_char d = CHR ''.''"
  then have "(of_char (CHR ''.'') :: nat) = 48 + d"
    using of_digit_char [OF assms] by simp
  then show False by simp
qed

lemma show_06_not_dot: "show_06 n @ s \<noteq> CHR ''.'' # t"
proof -
  have "show_06 n \<noteq> []"
    using digits_nat_zeros by (auto simp: show_06_def pad_left_def)
  then obtain c cs where c: "show_06 n = c # cs"
    by (cases "show_06 n") auto
  then obtain d where "d < 10" "c = digit_char d"
    using show_06_digits [of c n] by auto
  with c digit_char_not_dot show ?thesis by simp
qed

lemma touches_chunk_path: "touches (chunk_path P i) (chunk_path P j) \<longleftrightarrow> j = i"
  by (auto simp: chunk_path_def touches_snoc word_unat_eq_iff show_06_not_dot)

lemma frame_write_chunk: "preserves (frame (touches (chunk_path P (ec_index c)))) (write_chunk P c)"
  unfolding write_chunk_def
  by (intro frame.pres_bind frame.pres_into frame_create_dir_all frame_atomic frame.pres_return)
    (simp_all add: touches_def)

lemma write_chunk_here:
  assumes "write_chunk P c w = (r, w')"
  shows "lookup w' (chunk_path P (ec_index c)) =
    (case r of Inr _ \<Rightarrow> Some (FileN (ec_data c)) | Inl _ \<Rightarrow> lookup w (chunk_path P (ec_index c)))"
proof -
  let ?p = "chunk_path P (ec_index c)"
  obtain d w1 where d: "fs_create_dir_all (chunks_dir P) w = (d, w1)" by fastforce
  have "\<not> prefix ?p (chunks_dir P)"
    using not_prefix_butlast [of ?p] by simp
  then have p1: "lookup w1 ?p = lookup w ?p"
    using preserves_frameD [OF frame_create_dir_all [of "chunks_dir P" "\<lambda>q. prefix q (chunks_dir P)"] d] by blast
  obtain a w2 where a: "write_file_atomic ?p (ec_data c) w1 = (a, w2)" by fastforce
  note spec = write_file_atomic_spec [OF chunk_path_neq_Nil a]
  show ?thesis
    using assms d a p1 spec by (cases d; cases a) (auto simp: write_chunk_def bindE_def intoE_def)
qed

interpretation store: chunk_store "chunk_path P" "\<lambda>i bs. write_chunk P \<lparr>ec_index = i, ec_data = bs\<rparr>" for P
proof
  fix k j :: u32 and bs w r w'
  assume run: "write_chunk P \<lparr>ec_index = k, ec_data = bs\<rparr> w = (r, w')"
  show "lookup w' (chunk_path P k) = (case r of Inl _ \<Rightarrow> lookup w (chunk_path P k) | Inr _ \<Rightarrow> Some (FileN bs))"
    using write_chunk_here [OF run] by (simp split: sum.splits)
  show "lookup w' (chunk_path P j) = lookup w (chunk_path P j)" if "j \<noteq> k"
    using preserves_frameD [OF frame_write_chunk run] that by (simp add: touches_chunk_path)
qed

section \<open>Reading back what was written\<close>

text \<open>The four record files of a share are written in the same way.\<close>

lemma share_file_paths [simp]:
  "butlast (descriptor_path P) = share_dir P" "butlast (secret_path P) = share_dir P"
  "butlast (progress_path P) = share_dir P" "butlast (state_path P) = share_dir P"
  "descriptor_path P \<noteq> []" "secret_path P \<noteq> []" "progress_path P \<noteq> []" "state_path P \<noteq> []"
  by (simp_all add: path_defs)

lemma touches_share_files [simp]:
  "\<not> touches (secret_path P) (descriptor_path P)" "\<not> touches (progress_path P) (descriptor_path P)"
  "\<not> touches (state_path P) (descriptor_path P)" "\<not> touches (progress_path P) (secret_path P)"
  "\<not> touches (state_path P) (secret_path P)" "\<not> touches (state_path P) (progress_path P)"
  by (simp_all add: path_defs touches_snoc)

lemma frame_share_file:
  "butlast p = share_dir P \<Longrightarrow> p \<noteq> [] \<Longrightarrow> preserves (frame (touches p))
     (bindE (liftE (ensure_share_id a b)) (\<lambda>_. bindE (intoE FileIo (fs_create_dir_all (share_dir P))) (\<lambda>_.
      bindE (liftE bytes) (\<lambda>bs. intoE FileIo (write_file_atomic p bs)))))"
  by (intro frame.pres_bind frame.pres_into frame_create_dir_all frame_atomic frame.pres_lift)
    (simp_all add: touches_def)

lemma frame_write_files:
  "preserves (frame (touches (descriptor_path P))) (write_descriptor L P d)"
  "preserves (frame (touches (secret_path P))) (write_secret L P s)"
  "preserves (frame (touches (progress_path P))) (write_progress L P p)"
  "preserves (frame (touches (state_path P))) (write_state L P st)"
  unfolding write_descriptor_def write_secret_def write_progress_def write_state_def
  by (rule frame_share_file; simp)+

lemma write_files_Inr:
  "write_descriptor L P d w = (Inr (), w') \<Longrightarrow> lp_share_id P = d_share_id d \<and>
     (\<exists>b. descriptor_to_bytes (lc_descriptor L) d = Inr b \<and> lookup w' (descriptor_path P) = Some (FileN b))"
  "write_secret L P s w = (Inr (), w') \<Longrightarrow> lp_share_id P = es_share_id s \<and>
     (\<exists>b. secret_to_bytes (lc_secret L) s = Inr b \<and> lookup w' (secret_path P) = Some (FileN b))"
  "write_progress L P p w = (Inr (), w') \<Longrightarrow> lp_share_id P = dp_share_id p \<and>
     (\<exists>b. encode_progress (lc_states L) p = Inr b \<and> lookup w' (progress_path P) = Some (FileN b))"
  "write_state L P st w = (Inr (), w') \<Longrightarrow> lp_share_id P = ss_share_id st \<and>
     (\<exists>b. encode_state (lc_states L) st = Inr b \<and> lookup w' (state_path P) = Some (FileN b))"
  by (auto simp: write_descriptor_def write_secret_def write_progress_def write_state_def bindE_Inr ensure_share_id_def
      dest!: atomic_Inr [rotated] split: if_splits)

definition codecs_ok :: "library_codecs \<Rightarrow> bool" where
  "codecs_ok L \<longleftrightarrow> bincode_ok (lc_descriptor L) \<and> bincode_ok (lc_secret L) \<and>
     bincode_ok (sc_progress (lc_states L)) \<and> bincode_ok (sc_state (lc_states L))"

lemma read_descriptor_back:
  assumes "codecs_ok L" and "faults w = []" and "verify_share_id D d" and "lp_share_id P = d_share_id d"
    and "descriptor_to_bytes (lc_descriptor L) d = Inr b" and "lookup w (descriptor_path P) = Some (FileN b)"
  shows "read_descriptor D L P w = (Inr d, w)"
proof -
  have "descriptor_from_bytes (lc_descriptor L) b = Inr d"
    using assms(1,5) by (simp add: codecs_ok_def descriptor_to_bytes_def descriptor_from_bytes_def decode_whole_encode)
  with assms show ?thesis
    by (simp add: read_descriptor_def io_simps fs_read_nofault ensure_share_id_def)
qed

lemma read_secret_back:
  assumes "codecs_ok L" and "faults w = []" and "lp_share_id P = es_share_id s"
    and "secret_to_bytes (lc_secret L) s = Inr b" and "lookup w (secret_path P) = Some (FileN b)"
  shows "read_secret L P w = (Inr s, w)"
proof -
  have "secret_from_bytes (lc_secret L) b = Inr s"
    using assms(1,4) by (simp add: codecs_ok_def secret_to_bytes_def secret_from_bytes_def decode_whole_encode)
  with assms show ?thesis
    by (simp add: read_secret_def io_simps fs_read_nofault ensure_share_id_def)
qed

lemma read_progress_back:
  assumes "codecs_ok L" and "faults w = []" and "progress_inv p" and "lp_share_id P = dp_share_id p"
    and "encode_progress (lc_states L) p = Inr b" and "lookup w (progress_path P) = Some (FileN b)"
  shows "read_progress L P w = (Inr p, w)"
  using assms decode_encode_progress [of "lc_states L" p b]
  by (simp add: codecs_ok_def read_progress_def io_simps fs_read_nofault ensure_share_id_def)

lemma read_state_back:
  assumes "codecs_ok L" and "faults w = []" and "sorted_wrt (<) (ss_completed s)" and "lp_share_id P = ss_share_id s"
    and "encode_state (lc_states L) s = Inr b" and "lookup w (state_path P) = Some (FileN b)"
  shows "read_state L P w = (Inr s, w)"
  using assms decode_encode_state [of "lc_states L" s b]
  by (simp add: codecs_ok_def read_state_def io_simps fs_read_nofault ensure_share_id_def)

lemma forE_map: "forE (map g xs) f = forE xs (\<lambda>x. f (g x))"
  by (induction xs) simp_all

lemma encrypted_chunk_eta [simp]: "\<lparr>ec_index = ec_index c, ec_data = ec_data c\<rparr> = c"
  by (cases c) simp

lemma fs_remove_dir_all_Inr:
  "fs_remove_dir_all p w = (Inr (), w') \<Longrightarrow> lookup w' q = (if prefix p q then None else lookup w q)"
proof -
  assume run: "fs_remove_dir_all p w = (Inr (), w')"
  then obtain fs where "w' = fold del_node (below p (w\<lparr>faults := fs\<rparr>)) (w\<lparr>faults := fs\<rparr>)"
    by (cases w rule: syscall_cases [of "\<lambda>k w. fold del_node (take k (below p w)) w"
          "\<lambda>w. if lookup w p = None then (Inl NotFound, w) else (Inr (), fold del_node (below p w) w)"])
      (auto simp: fs_remove_dir_all_def split: if_splits)
  then show "lookup w' q = (if prefix p q then None else lookup w q)"
    using lookup_in_nodes [of w q] by (auto simp: lookup_del_nodes below_def)
qed

section \<open>Properties\<close>

text \<open>C4: writing a file is all or nothing under every pattern of failing system calls: afterwards the
  file holds the new bytes if the call succeeded and exactly what it held before if not, and nothing
  else changed but missing directories above it and scratch files beside it.\<close>

theorem atomic_write_all_or_nothing:
  assumes "p \<noteq> []" and "write_file_atomic p bs w = (r, w')"
  shows "lookup w' p = (case r of Inr _ \<Rightarrow> Some (FileN bs) | Inl _ \<Rightarrow> lookup w p) \<and>
    (\<forall>q. q \<noteq> p \<longrightarrow> \<not> prefix q (butlast p) \<longrightarrow> \<not> scratch_of p q \<longrightarrow> lookup w' q = lookup w q)"
  using write_file_atomic_spec [OF assms] preserves_frameD [OF frame_atomic [OF assms(1)] assms(2)]
  by (simp add: touches_def)

definition failing_write_world :: world where
  "failing_write_world = empty_world\<lparr>nodes := [([''x''], FileN [1])], faults := [None, None, Some (OtherIo, 1)]\<rparr>"

theorem atomic_write_all_or_nothing_witness:
  "\<exists>w'. write_file_atomic [''x''] [7, 8, 9] failing_write_world = (Inl OtherIo, w') \<and> lookup w' [''x''] = Some (FileN [1])"
proof -
  obtain w' where run: "write_file_atomic [''x''] [7, 8, 9] failing_write_world = (Inl OtherIo, w')"
    by (simp add: write_file_atomic_def failing_write_world_def empty_world_def fs_create_dir_all_def syscall_def
        is_file_def lookup_def bindE_def askE_def clock_now_def Let_def fs_create_new_def exists_path_def is_dir_def
        tmp_name_def set_node_def tryE_def fs_write_all_def append_file_def fs_remove_file_def make_dirs_def throwE_def)
  from atomic_write_all_or_nothing [OF _ this] run show ?thesis
    by (simp add: failing_write_world_def lookup_def)
qed

text \<open>Chunks that were stored one after the other are all read back with their bytes.\<close>

theorem stored_chunks_read_back:
  assumes "forE chunks (write_chunk P) w = (Inr (), w')" and "distinct (map ec_index chunks)"
    and "c \<in> set chunks" and "faults w' = []"
  shows "read_chunk P (ec_index c) (of_nat (length (ec_data c))) w' = (Inr c, w')"
proof -
  let ?kvs = "map (\<lambda>c. (ec_index c, ec_data c)) chunks"
  have "forE ?kvs (\<lambda>kv. write_chunk P \<lparr>ec_index = fst kv, ec_data = snd kv\<rparr>) w = (Inr (), w')"
    using assms(1) by (simp add: forE_map)
  from store.puts_here [OF this, of "(ec_index c, ec_data c)"] assms(2,3)
  have "lookup w' (chunk_path P (ec_index c)) = Some (FileN (ec_data c))"
    by (auto simp: o_def)
  with assms(4) show ?thesis
    by (simp add: read_chunk_def io_simps fs_read_nofault)
qed

definition sample_paths :: library_paths where
  "sample_paths = for_share [] (ShareId 0)"

lemmas write_run_simps = write_chunk_def write_file_atomic_def fs_create_dir_all_def syscall_def is_file_def lookup_def
  bindE_def intoE_def askE_def clock_now_def Let_def fs_create_new_def exists_path_def is_dir_def set_node_def tryE_def
  fs_write_all_def append_file_def fs_sync_all_def fs_rename_def del_node_def make_dirs_def ensure_dir_def returnE_def
  throwE_def liftE_def

theorem stored_chunks_read_back_witness:
  "\<exists>w'. forE [\<lparr>ec_index = 1, ec_data = [5]\<rparr>, \<lparr>ec_index = 0, ec_data = [6, 7]\<rparr>] (write_chunk sample_paths) empty_world = (Inr (), w') \<and>
     read_chunk sample_paths 1 1 w' = (Inr \<lparr>ec_index = 1, ec_data = [5]\<rparr>, w')"
proof -
  obtain w' where run: "forE [\<lparr>ec_index = 1, ec_data = [5]\<rparr>, \<lparr>ec_index = 0, ec_data = [6, 7]\<rparr>] (write_chunk sample_paths) empty_world = (Inr (), w')"
      and nf: "faults w' = []"
    by (simp add: write_run_simps empty_world_def chunk_path_def chunks_dir_def share_dir_def library_dir_def etle_dir_def
        sample_paths_def for_share_def tmp_name_def show_06_def pad_left_def show_nat.simps digit_char_def)
  from stored_chunks_read_back [OF run _ _ nf, of "\<lparr>ec_index = 1, ec_data = [5]\<rparr>"] run show ?thesis by auto
qed

text \<open>After a share was initialised, its four record files are read back as what was asked for:
  the descriptor, the key, all chunks complete for a seed and none for a new download, and the mode.\<close>

theorem library_init_reads_back:
  assumes "codecs_ok L" and "verify_share_id D d" and "library_init L root d key mode out_dir w = (Inr P, w')" and "faults w' = []"
  shows "P = for_share root (d_share_id d) \<and> read_descriptor D L P w' = (Inr d, w') \<and>
    read_secret L P w' = (Inr \<lparr>es_share_id = d_share_id d, es_file_key = key\<rparr>, w') \<and>
    (\<exists>p. read_progress L P w' = (Inr p, w') \<and> read_state L P w' = (Inr (share_state_from_progress mode out_dir p), w') \<and>
      progress_inv p \<and> progress_set p = (if mode = Seeding \<or> mode = Completed then set (map cm_index (d_chunks d)) else {}))"
proof -
  let ?p = "if mode = Seeding \<or> mode = Completed then progress_new (d_share_id d) (map cm_index (d_chunks d))
        else progress_empty (d_share_id d)"
  let ?s = "share_state_from_progress mode out_dir ?p"
  from assms(3) obtain w1 w2 w3 w4 where P: "P = for_share root (d_share_id d)"
      and wd: "write_descriptor L P d w1 = (Inr (), w2)"
      and ws: "write_secret L P \<lparr>es_share_id = d_share_id d, es_file_key = key\<rparr> w2 = (Inr (), w3)"
      and wp: "write_progress L P ?p w3 = (Inr (), w4)" and wt: "write_state L P ?s w4 = (Inr (), w')"
    by (auto simp: library_init_def Let_def bindE_Inr split: if_splits)
  have p: "progress_inv ?p" "progress_set ?p = (if mode = Seeding \<or> mode = Completed then set (map cm_index (d_chunks d)) else {})"
    by (simp_all add: progress_empty_def progress_new_inv)
  have s: "sorted_wrt (<) (ss_completed ?s)"
    by (simp add: share_state_from_progress_def share_state_new_def normalize_strict)
  note fr = preserves_frameD [OF frame_write_files(2) ws] preserves_frameD [OF frame_write_files(3) wp]
    preserves_frameD [OF frame_write_files(4) wt]
  have "read_descriptor D L P w' = (Inr d, w')"
    using write_files_Inr(1) [OF wd] fr read_descriptor_back [OF assms(1,4,2)] by auto
  moreover have "read_secret L P w' = (Inr \<lparr>es_share_id = d_share_id d, es_file_key = key\<rparr>, w')"
    using write_files_Inr(2) [OF ws] fr read_secret_back [OF assms(1,4)] by auto
  moreover have "read_progress L P w' = (Inr ?p, w')"
    using write_files_Inr(3) [OF wp] fr read_progress_back [OF assms(1,4) p(1)] by (metis touches_share_files(6))
  moreover have "read_state L P w' = (Inr ?s, w')"
    using write_files_Inr(4) [OF wt] read_state_back [OF assms(1,4) s] by blast
  ultimately show ?thesis
    using P p by blast
qed

definition sample_share :: etle_descriptor where
  "sample_share = descriptor_new sample_deps ''n'' 3 4 [] [sample_chunk_meta 0]"

definition sample_library_codecs :: library_codecs where
  "sample_library_codecs = \<lparr>lc_descriptor = single_bincode sample_share,
     lc_secret = single_bincode \<lparr>es_share_id = d_share_id sample_share, es_file_key = SymmetricKey 9\<rparr>,
     lc_states = \<lparr>sc_progress = single_bincode (compact_from_progress (progress_new (d_share_id sample_share) [0])),
       sc_legacy_progress = single_bincode sample_progress,
       sc_state = single_bincode (compact_from_state (share_state_from_progress Seeding None
         (progress_new (d_share_id sample_share) [0]))),
       sc_legacy_state = single_bincode sample_state\<rparr>\<rparr>"

lemma sample_share_ok: "codecs_ok sample_library_codecs" "verify_share_id sample_deps sample_share"
  by (simp_all add: codecs_ok_def sample_library_codecs_def single_bincode_ok sample_share_def descriptor_new_verifies)

lemma sample_share_chunks: "map cm_index (d_chunks sample_share) = [0]"
  by (simp add: sample_share_def descriptor_new_def sample_chunk_meta_def)

lemma sample_init_runs:
  "\<exists>P w'. library_init sample_library_codecs [] sample_share (SymmetricKey 9) Seeding None empty_world = (Inr P, w') \<and> faults w' = []"
  by (simp add: library_init_def sample_share_chunks write_descriptor_def write_secret_def write_progress_def write_state_def
      descriptor_to_bytes_def secret_to_bytes_def encode_progress_def encode_state_def encode_with_magic_def encode_whole_def
      sample_library_codecs_def single_bincode_def ensure_share_id_def
      write_run_simps empty_world_def path_defs share_dir_def library_dir_def etle_dir_def for_share_def tmp_name_def
      progress_new_def share_state_from_progress_def share_state_new_def)

theorem library_init_reads_back_witness:
  "\<exists>P w'. library_init sample_library_codecs [] sample_share (SymmetricKey 9) Seeding None empty_world = (Inr P, w') \<and>
     read_descriptor sample_deps sample_library_codecs P w' = (Inr sample_share, w')"
  using sample_init_runs library_init_reads_back [OF sample_share_ok] by blast

text \<open>C13: deleting a share removes everything below its directory and nothing else; in particular
  no file of another share.\<close>

theorem library_delete_exact:
  assumes "library_delete root sid w = (Inr True, w')"
  shows "lookup w' q = (if prefix (share_dir (for_share root sid)) q then None else lookup w q) \<and>
    (sid' \<noteq> sid \<longrightarrow> prefix (share_dir (for_share root sid')) q \<longrightarrow> lookup w' q = lookup w q)"
proof -
  let ?dir = "share_dir (for_share root sid)"
  from assms obtain b w1 where pe: "path_exists ?dir w = (Inr b :: file_error + bool, w1)" and rm: "fs_remove_dir_all ?dir w1 = (Inr (), w')"
    by (auto simp: library_delete_def Let_def bindE_Inr split: if_splits)
  have one: "lookup w' q = (if prefix ?dir q then None else lookup w q)"
    using fs_remove_dir_all_Inr [OF rm] frame_all_lookup [OF frame_path_tests(2) pe] by simp
  have "\<not> prefix ?dir q" if "sid' \<noteq> sid" "prefix (share_dir (for_share root sid')) q"
  proof
    assume "prefix ?dir q"
    moreover have "length ?dir = length (share_dir (for_share root sid'))"
      by (simp add: share_dir_def library_dir_def etle_dir_def for_share_def)
    ultimately have "?dir = share_dir (for_share root sid')"
      using that(2) by (metis append_eq_append_conv prefix_def)
    with that(1) show False
      by (simp add: share_dir_def library_dir_def etle_dir_def for_share_def share_id_to_string_inj)
  qed
  with one show ?thesis by auto
qed

theorem library_delete_exact_witness:
  "\<exists>w'. library_delete [] (ShareId 0) (make_dirs (share_dir sample_paths) empty_world) = (Inr True, w') \<and>
     lookup w' (share_dir sample_paths) = None"
proof -
  have "lookup (make_dirs (share_dir sample_paths) empty_world) (share_dir sample_paths) = Some DirN"
    by (simp add: lookup_make_dirs share_dir_def) (simp add: empty_world_def lookup_def)
  then obtain w' where run: "library_delete [] (ShareId 0) (make_dirs (share_dir sample_paths) empty_world) = (Inr True, w')"
    by (simp add: library_delete_def sample_paths_def path_exists_def fs_metadata_def fs_remove_dir_all_def
        bindE_def intoE_def returnE_def Let_def empty_world_def)
  with library_delete_exact [OF run, of "share_dir sample_paths" "ShareId 1"] show ?thesis
    by (simp add: sample_paths_def)
qed

end
