(* ===== verification/Etle_Protocol.thy ===== *)
theory Etle_Protocol
  imports Etle_FileStorage
begin

text \<open>
  \<open>src/protocol\<close>: the messages on the wire and the codec. A frame is a big-endian 32-bit length and
  a payload; the payload is either a message in the serializer's encoding or, marked by the tag
  \<open>0xec\<close>, a raw chunk, which the codec can also stream from and to a file. \<open>usize\<close> is 64 bits wide.
\<close>

section \<open>Messages and errors\<close>

datatype wire_message =
    Hello string
  | Capabilities u16 "string list"
  | KeyExchange public_key_bytes
  | AuthProof auth_tag
  | RequestManifest
  | RequestShare share_id
  | ManifestMsg manifest
  | WrappedFileKeyMsg nonce bytes
  | Have "u32 list"
  | RequestChunk u32
  | Chunk u32 bytes
  | ErrorMsg string

definition ETLE_WIRE_PROTOCOL_VERSION :: u16 where
  "ETLE_WIRE_PROTOCOL_VERSION = 3"

definition CAPABILITY_RAW_CHUNK_FRAME :: string where
  "CAPABILITY_RAW_CHUNK_FRAME = ''raw-chunk-frame-v1''"

definition CAPABILITY_WINDOWED_REQUESTS :: string where
  "CAPABILITY_WINDOWED_REQUESTS = ''windowed-requests-v1''"

datatype protocol_error =
    ProtoIo io_error
  | ProtoEncode encode_error
  | ProtoDecode decode_error
  | EmptyFrame
  | FrameTooLarge nat nat
  | FrameTooSmall nat nat
  | RawChunkSizeMismatch nat nat
  | TrailingBytes nat nat
  | InvalidRawChunkFrame string

text \<open>
  What the codec relies on of the serializer, beside that it reads back what it wrote: its standard
  configuration writes the number of the variant first, in one byte, so that an encoded message
  never starts with the tag of a raw chunk.
\<close>

fun variant_index :: "wire_message \<Rightarrow> byte" where
  "variant_index (Hello _) = 0"
| "variant_index (Capabilities _ _) = 1"
| "variant_index (KeyExchange _) = 2"
| "variant_index (AuthProof _) = 3"
| "variant_index RequestManifest = 4"
| "variant_index (RequestShare _) = 5"
| "variant_index (ManifestMsg _) = 6"
| "variant_index (WrappedFileKeyMsg _ _) = 7"
| "variant_index (Have _) = 8"
| "variant_index (RequestChunk _) = 9"
| "variant_index (Chunk _ _) = 10"
| "variant_index (ErrorMsg _) = 11"

definition wire_ok :: "wire_message bincode \<Rightarrow> bool" where
  "wire_ok C \<longleftrightarrow> bincode_ok C \<and>
     (\<forall>m b. encode_to_vec C m = Some b \<longrightarrow> (\<exists>bs. b = variant_index m # bs))"

section \<open>The codec\<close>

definition MAX_FRAME_SIZE :: nat where
  "MAX_FRAME_SIZE = 64 * 1024 * 1024"

definition RAW_CHUNK_FRAME_TAG :: byte where
  "RAW_CHUNK_FRAME_TAG = 0xec"

definition RAW_CHUNK_HEADER_SIZE :: nat where
  "RAW_CHUNK_HEADER_SIZE = 1 + 4"

definition usize_max :: nat where
  "usize_max = 2 ^ 64 - 1"

definition checked_add_usize :: "nat \<Rightarrow> nat \<Rightarrow> nat option" where
  "checked_add_usize a b = (if a + b \<le> usize_max then Some (a + b) else None)"

record received_raw_chunk_file =
  rr_index :: u32
  rr_data_len :: nat
  rr_hash :: arr32

datatype received_chunk_frame = RawChunkFile received_raw_chunk_file | Message wire_message

definition validate_frame_len :: "nat \<Rightarrow> (protocol_error, unit) result" where
  "validate_frame_len len =
     (if len = 0 then Inl EmptyFrame
      else if MAX_FRAME_SIZE < len then Inl (FrameTooLarge len MAX_FRAME_SIZE)
      else Inr ())"

definition frame_len_bytes :: "nat \<Rightarrow> bytes" where
  "frame_len_bytes len = to_be_bytes (of_nat len :: u32)"

definition send_raw_chunk_frame :: "u32 \<Rightarrow> bytes \<Rightarrow> (protocol_error, unit) io" where
  "send_raw_chunk_frame index data =
     bindE (liftE (ok_or (FrameTooLarge usize_max MAX_FRAME_SIZE)
       (checked_add_usize RAW_CHUNK_HEADER_SIZE (length data)))) (\<lambda>frame_len.
     bindE (liftE (validate_frame_len frame_len)) (\<lambda>_.
     bindE (intoE ProtoIo (stream_write_all (frame_len_bytes frame_len))) (\<lambda>_.
     bindE (intoE ProtoIo (stream_write_all [RAW_CHUNK_FRAME_TAG])) (\<lambda>_.
     bindE (intoE ProtoIo (stream_write_all (to_be_bytes index))) (\<lambda>_.
     bindE (intoE ProtoIo (stream_write_all data)) (\<lambda>_.
     intoE ProtoIo stream_flush))))))"

definition send_encoded_frame :: "wire_message bincode \<Rightarrow> wire_message \<Rightarrow> (protocol_error, unit) io" where
  "send_encoded_frame C message =
     bindE (liftE (map_err ProtoEncode (encode_whole C message))) (\<lambda>payload.
     bindE (liftE (validate_frame_len (length payload))) (\<lambda>_.
     bindE (intoE ProtoIo (stream_write_all (frame_len_bytes (length payload)))) (\<lambda>_.
     bindE (intoE ProtoIo (stream_write_all payload)) (\<lambda>_.
     intoE ProtoIo stream_flush))))"

definition send :: "wire_message bincode \<Rightarrow> wire_message \<Rightarrow> (protocol_error, unit) io" where
  "send C message = (case message of
      Chunk index data \<Rightarrow> send_raw_chunk_frame index data
    | _ \<Rightarrow> send_encoded_frame C message)"

definition read_frame_len :: "(protocol_error, nat) io" where
  "read_frame_len =
     bindE (intoE ProtoIo (stream_read_exact 4)) (\<lambda>len_bytes.
     let len = unat (from_be_bytes len_bytes :: u32) in
     bindE (liftE (validate_frame_len len)) (\<lambda>_. returnE len))"

definition receive_raw_chunk_frame_after_tag :: "nat \<Rightarrow> (protocol_error, wire_message) io" where
  "receive_raw_chunk_frame_after_tag frame_len =
     (if frame_len < RAW_CHUNK_HEADER_SIZE
      then throwE (InvalidRawChunkFrame ''frame is smaller than raw chunk header'')
      else bindE (intoE ProtoIo (stream_read_exact 4)) (\<lambda>index_bytes.
        let data_len = frame_len - RAW_CHUNK_HEADER_SIZE in
        bindE (if 0 < data_len then intoE ProtoIo (stream_read_exact data_len) else returnE []) (\<lambda>data.
        returnE (Chunk (from_be_bytes index_bytes) data))))"

definition receive_encoded_frame_after_first_byte :: "wire_message bincode \<Rightarrow> nat \<Rightarrow> byte \<Rightarrow> (protocol_error, wire_message) io" where
  "receive_encoded_frame_after_first_byte C frame_len first_byte =
     bindE (if 1 < frame_len then intoE ProtoIo (stream_read_exact (frame_len - 1)) else returnE []) (\<lambda>rest.
     let payload = first_byte # rest in
     case decode_from_slice C payload of
       None \<Rightarrow> throwE (ProtoDecode DecodeError)
     | Some (message, bytes_read) \<Rightarrow>
         if bytes_read \<noteq> length payload then throwE (TrailingBytes bytes_read (length payload))
         else returnE message)"

definition receive :: "wire_message bincode \<Rightarrow> (protocol_error, wire_message) io" where
  "receive C =
     bindE read_frame_len (\<lambda>len.
     bindE (intoE ProtoIo (stream_read_exact 1)) (\<lambda>first.
     if hd first = RAW_CHUNK_FRAME_TAG then receive_raw_chunk_frame_after_tag len
     else receive_encoded_frame_after_first_byte C len (hd first)))"

text \<open>Streaming a chunk to a file: the loop state is what remains to be read and what was hashed.\<close>

function receive_data_loop :: "path \<Rightarrow> nat \<Rightarrow> bytes \<Rightarrow> (protocol_error, bytes) io" where
  "receive_data_loop output_path remaining hasher w =
     (if remaining = 0 then (Inr hasher, w)
      else let n = min remaining (64 * 1024) in
        case intoE ProtoIo (stream_read_exact n) w of
          (Inl e, w') \<Rightarrow> (Inl e, w')
        | (Inr buffer, w') \<Rightarrow>
            (case intoE ProtoIo (fs_write_all output_path buffer) w' of
               (Inl e, w'') \<Rightarrow> (Inl e, w'')
             | (Inr _, w'') \<Rightarrow> receive_data_loop output_path (remaining - n) (hasher @ buffer) w''))"
  by pat_completeness auto
termination
  by (relation "measure (\<lambda>(output_path, remaining, hasher, w). remaining)") auto

declare receive_data_loop.simps [simp del]

definition receive_raw_chunk_frame_to_file_after_tag :: "deps \<Rightarrow> nat \<Rightarrow> path \<Rightarrow> (protocol_error, received_raw_chunk_file) io" where
  "receive_raw_chunk_frame_to_file_after_tag D frame_len output_path =
     (if frame_len < RAW_CHUNK_HEADER_SIZE
      then throwE (InvalidRawChunkFrame ''frame is smaller than raw chunk header'')
      else bindE (intoE ProtoIo (stream_read_exact 4)) (\<lambda>index_bytes.
        let data_len = frame_len - RAW_CHUNK_HEADER_SIZE in
        bindE (if output_path = [] then returnE () else intoE ProtoIo (fs_create_dir_all (butlast output_path))) (\<lambda>_.
        bindE (intoE ProtoIo (fs_create output_path)) (\<lambda>_.
        bindE (receive_data_loop output_path data_len []) (\<lambda>hashed.
        returnE \<lparr>rr_index = from_be_bytes index_bytes, rr_data_len = data_len, rr_hash = blake3 D hashed\<rparr>)))))"

definition receive_chunk_to_file :: "deps \<Rightarrow> wire_message bincode \<Rightarrow> path \<Rightarrow> (protocol_error, received_chunk_frame) io" where
  "receive_chunk_to_file D C output_path =
     bindE read_frame_len (\<lambda>len.
     bindE (intoE ProtoIo (stream_read_exact 1)) (\<lambda>first.
     if hd first \<noteq> RAW_CHUNK_FRAME_TAG
     then bindE (receive_encoded_frame_after_first_byte C len (hd first)) (\<lambda>message. returnE (Message message))
     else bindE (receive_raw_chunk_frame_to_file_after_tag D len output_path) (\<lambda>r. returnE (RawChunkFile r))))"

text \<open>Streaming a chunk from a file. \<open>file.metadata()\<close> is the length behind the open handle.\<close>

definition file_metadata_len :: "bytes \<Rightarrow> (io_error, u64) io" where
  "file_metadata_len handle = syscall no_effect (\<lambda>w. (Inr (of_nat (length handle)), w))"

function send_file_loop :: "bytes \<Rightarrow> (protocol_error, unit) io" where
  "send_file_loop rem w =
     (case file_read (64 * 1024) rem w of
        (Inl e, w') \<Rightarrow> (Inl (ProtoIo e), w')
      | (Inr (got, rem'), w') \<Rightarrow>
          if got = [] then (Inr (), w')
          else (case intoE ProtoIo (stream_write_all got) w' of
              (Inl e, w'') \<Rightarrow> (Inl e, w'')
            | (Inr _, w'') \<Rightarrow> send_file_loop rem' w''))"
  by pat_completeness auto
termination
  by (relation "measure (\<lambda>(rem, w). length rem)") (auto dest: file_read_decreases [OF sym])

declare send_file_loop.simps [simp del]

definition send_chunk_file :: "u32 \<Rightarrow> path \<Rightarrow> u64 \<Rightarrow> (protocol_error, unit) io" where
  "send_chunk_file index p expected_size =
     bindE (intoE ProtoIo (fs_open p)) (\<lambda>handle.
     bindE (intoE ProtoIo (file_metadata_len handle)) (\<lambda>actual_size.
     if actual_size \<noteq> expected_size then throwE (RawChunkSizeMismatch (unat expected_size) (unat actual_size))
     else bindE (liftE (ok_or (FrameTooLarge usize_max MAX_FRAME_SIZE)
         (checked_add_usize RAW_CHUNK_HEADER_SIZE (unat actual_size)))) (\<lambda>frame_len.
       bindE (liftE (validate_frame_len frame_len)) (\<lambda>_.
       bindE (intoE ProtoIo (stream_write_all (frame_len_bytes frame_len))) (\<lambda>_.
       bindE (intoE ProtoIo (stream_write_all [RAW_CHUNK_FRAME_TAG])) (\<lambda>_.
       bindE (intoE ProtoIo (stream_write_all (to_be_bytes index))) (\<lambda>_.
       bindE (send_file_loop handle) (\<lambda>_.
       intoE ProtoIo stream_flush))))))))"

section \<open>What is sent and what is received\<close>

lemma stream_write_all_Inr:
  "stream_write_all bs w = (Inr (), w') \<Longrightarrow> out w' = out w @ bs \<and> inp w' = inp w \<and> nodes w' = nodes w"
  by (auto simp: stream_write_all_def syscall_def split: list.splits option.splits prod.splits)

lemma stream_flush_Inr:
  "stream_flush w = (Inr (), w') \<Longrightarrow> out w' = out w \<and> inp w' = inp w \<and> nodes w' = nodes w"
  by (auto simp: stream_flush_def syscall_def split: list.splits option.splits prod.splits)

lemma stream_read_exact_nofault:
  "faults w = [] \<Longrightarrow> inp w = bs @ rest \<Longrightarrow> n = length bs \<Longrightarrow>
     stream_read_exact n w = (Inr bs, w\<lparr>inp := rest\<rparr>)"
  by (simp add: stream_read_exact_def)

lemma validate_frame_len_Inr [simp]: "validate_frame_len n = Inr u \<longleftrightarrow> 0 < n \<and> n \<le> MAX_FRAME_SIZE"
  by (cases u) (auto simp: validate_frame_len_def)

lemma length_frame_len_bytes [simp]: "length (frame_len_bytes n) = 4"
  by (simp add: frame_len_bytes_def length_to_be_bytes)

lemma frame_len_roundtrip: "n \<le> MAX_FRAME_SIZE \<Longrightarrow> unat (from_be_bytes (frame_len_bytes n) :: u32) = n"
  by (simp add: frame_len_bytes_def from_be_bytes_to_be_bytes unat_of_nat MAX_FRAME_SIZE_def)

text \<open>The payload of the frame of a message.\<close>

definition payload_of :: "wire_message bincode \<Rightarrow> wire_message \<Rightarrow> bytes \<Rightarrow> bool" where
  "payload_of C m payload \<longleftrightarrow> (case m of
      Chunk index data \<Rightarrow> payload = RAW_CHUNK_FRAME_TAG # to_be_bytes index @ data
    | _ \<Rightarrow> encode_to_vec C m = Some payload)"

lemma send_Inr:
  assumes "send C m w = (Inr (), w')"
  obtains payload where "payload_of C m payload" "0 < length payload" "length payload \<le> MAX_FRAME_SIZE"
    "out w' = out w @ frame_len_bytes (length payload) @ payload" "inp w' = inp w" "nodes w' = nodes w"
proof (cases "\<exists>index data. m = Chunk index data")
  case True
  then obtain index data where m: "m = Chunk index data" by blast
  with assms have run: "send_raw_chunk_frame index data w = (Inr (), w')"
    by (simp add: send_def)
  from run show ?thesis
    by (intro that [of "RAW_CHUNK_FRAME_TAG # to_be_bytes index @ data"])
      (auto simp: m payload_of_def send_raw_chunk_frame_def bindE_Inr checked_add_usize_def
        RAW_CHUNK_HEADER_SIZE_def split: if_splits dest!: stream_write_all_Inr stream_flush_Inr)
next
  case False
  then have "send C m = send_encoded_frame C m"
    by (cases m) (simp_all add: send_def)
  with assms have run: "send_encoded_frame C m w = (Inr (), w')" by simp
  then obtain payload where enc: "encode_to_vec C m = Some payload"
    by (auto simp: send_encoded_frame_def bindE_Inr encode_whole_def)
  moreover from this False have "payload_of C m payload"
    by (cases m) (simp_all add: payload_of_def)
  ultimately show ?thesis
    using run by (intro that [of payload])
      (auto simp: send_encoded_frame_def bindE_Inr encode_whole_def dest!: stream_write_all_Inr stream_flush_Inr)
qed

lemma receive_frame:
  assumes "wire_ok C" and "faults v = []" and "inp v = frame_len_bytes (length payload) @ payload @ rest"
    and "0 < length payload" and "length payload \<le> MAX_FRAME_SIZE" and "payload_of C m payload"
  shows "receive C v = (Inr m, v\<lparr>inp := rest\<rparr>)"
proof -
  from assms(4) obtain b bs where p: "payload = b # bs"
    by (cases payload) auto
  have "read_frame_len v = (Inr (length payload), v\<lparr>inp := payload @ rest\<rparr>)"
    using assms(4,5) stream_read_exact_nofault [OF assms(2,3)] validate_frame_len_Inr [of "length payload" "()"]
    by (simp add: read_frame_len_def io_simps frame_len_roundtrip Let_def del: validate_frame_len_Inr)
  moreover have "stream_read_exact 1 (v\<lparr>inp := payload @ rest\<rparr>) = (Inr [b], v\<lparr>inp := bs @ rest\<rparr>)"
    by (subst stream_read_exact_nofault [of _ "[b]" "bs @ rest"]) (simp_all add: p assms(2))
  ultimately have step: "receive C v = (if b = RAW_CHUNK_FRAME_TAG then receive_raw_chunk_frame_after_tag (length payload)
      else receive_encoded_frame_after_first_byte C (length payload) b) (v\<lparr>inp := bs @ rest\<rparr>)"
    by (simp add: receive_def io_simps)
  show ?thesis
  proof (cases "\<exists>index data. m = Chunk index data")
    case True
    then obtain index data where m: "m = Chunk index data" by blast
    then have b: "b = RAW_CHUNK_FRAME_TAG" "bs = to_be_bytes index @ data"
      using assms(6) p by (simp_all add: payload_of_def)
    have "stream_read_exact 4 (v\<lparr>inp := to_be_bytes index @ data @ rest\<rparr>) =
        (Inr (to_be_bytes index), v\<lparr>inp := data @ rest\<rparr>)"
      by (subst stream_read_exact_nofault [of _ "to_be_bytes index" "data @ rest"]) (simp_all add: assms(2) length_to_be_bytes)
    moreover have "stream_read_exact (length data) (v\<lparr>inp := data @ rest\<rparr>) = (Inr data, v\<lparr>inp := rest\<rparr>)"
      by (subst stream_read_exact_nofault [of _ data rest]) (simp_all add: assms(2))
    ultimately show ?thesis
      by (simp add: step b m p receive_raw_chunk_frame_after_tag_def RAW_CHUNK_HEADER_SIZE_def io_simps
          from_be_bytes_to_be_bytes length_to_be_bytes Let_def)
  next
    case False
    then have enc: "encode_to_vec C m = Some payload"
      using assms(6) by (cases m) (simp_all add: payload_of_def)
    then have "b = variant_index m"
      using assms(1) p by (auto simp: wire_ok_def)
    then have b: "b \<noteq> RAW_CHUNK_FRAME_TAG"
      by (cases m) (simp_all add: RAW_CHUNK_FRAME_TAG_def)
    have "decode_from_slice C (payload @ []) = Some (m, length payload)"
      using assms(1) enc unfolding wire_ok_def bincode_ok_def by blast
    moreover have "stream_read_exact (length bs) (v\<lparr>inp := bs @ rest\<rparr>) = (Inr bs, v\<lparr>inp := rest\<rparr>)"
      by (subst stream_read_exact_nofault [of _ bs rest]) (simp_all add: assms(2))
    ultimately show ?thesis
      using b by (auto simp: step p receive_encoded_frame_after_first_byte_def io_simps)
  qed
qed

section \<open>The interface of a codec\<close>

text \<open>
  What the users of a codec rely on: after a successful \<open>put\<close>, a reader that finds the written bytes
  at the head of its stream gets the value and is left with the rest. The codec depends on a
  serializer, of which \<open>ok\<close> says what it has to satisfy. Sequences of messages follow.
\<close>

locale frame_codec =
  fixes ok :: "'c \<Rightarrow> bool" and put :: "'c \<Rightarrow> 'm \<Rightarrow> ('e, unit) io" and get :: "'c \<Rightarrow> ('f, 'm) io"
  assumes put_grows: "put C m w = (Inr (), w') \<Longrightarrow> \<exists>fr. out w' = out w @ fr"
    and put_get: "ok C \<Longrightarrow> put C m w = (Inr (), w') \<Longrightarrow> out w' = out w @ fr \<Longrightarrow> faults v = [] \<Longrightarrow>
      inp v = fr @ rest \<Longrightarrow> get C v = (Inr m, v\<lparr>inp := rest\<rparr>)"
begin

lemma puts_grow: "forE ms (put C) w = (Inr (), w') \<Longrightarrow> \<exists>frames. out w' = out w @ frames"
proof (induction ms arbitrary: w)
  case (Cons m ms)
  then obtain w1 where "put C m w = (Inr (), w1)" "forE ms (put C) w1 = (Inr (), w')"
    by (auto simp: bindE_Inr)
  with Cons.IH [of w1] put_grows [of C m w w1] show ?case
    by auto
qed simp

lemma puts_gets:
  assumes "ok C"
  shows "forE ms (put C) w = (Inr (), w') \<Longrightarrow> out w' = out w @ frames \<Longrightarrow> faults v = [] \<Longrightarrow> inp v = frames @ rest \<Longrightarrow>
    mapE (\<lambda>_. get C) ms v = (Inr ms, v\<lparr>inp := rest\<rparr>)"
proof (induction ms arbitrary: w frames v)
  case (Cons m ms)
  then obtain w1 where m: "put C m w = (Inr (), w1)" and ms: "forE ms (put C) w1 = (Inr (), w')"
    by (auto simp: bindE_Inr)
  obtain f fs where f: "out w1 = out w @ f" and fs: "out w' = out w1 @ fs"
    using put_grows [OF m] puts_grow [OF ms] by auto
  then have frames: "frames = f @ fs"
    using Cons.prems(2) by simp
  then have "get C v = (Inr m, v\<lparr>inp := fs @ rest\<rparr>)"
    using put_get [OF assms m f Cons.prems(3), of "fs @ rest"] Cons.prems(4) by simp
  moreover have "mapE (\<lambda>_. get C) ms (v\<lparr>inp := fs @ rest\<rparr>) = (Inr ms, v\<lparr>inp := rest\<rparr>)"
    using Cons.IH [OF ms fs, of "v\<lparr>inp := fs @ rest\<rparr>"] Cons.prems(3) by simp
  ultimately show ?case
    by (simp add: io_simps)
qed simp

end

interpretation wire: frame_codec wire_ok send receive
proof
  fix C m w w'
  assume "send C m w = (Inr (), w')"
  then show "\<exists>fr. out w' = out w @ fr"
    by (rule send_Inr) blast
next
  fix C m w w' fr rest and v :: world
  assume ok: "wire_ok C" "send C m w = (Inr (), w')" and o: "out w' = out w @ fr"
    and v: "faults v = []" "inp v = fr @ rest"
  from ok(2) obtain payload where p: "payload_of C m payload" "0 < length payload" "length payload \<le> MAX_FRAME_SIZE"
      "out w' = out w @ frame_len_bytes (length payload) @ payload"
    by (rule send_Inr)
  then show "receive C v = (Inr m, v\<lparr>inp := rest\<rparr>)"
    using receive_frame [OF ok(1) v(1) _ p(2,3,1)] o v(2) by simp
qed

section \<open>Bounds on what is read\<close>

definition reads_at_most :: "nat \<Rightarrow> world \<Rightarrow> world \<Rightarrow> bool" where
  "reads_at_most n w w' \<longleftrightarrow> (\<exists>used. inp w = used @ inp w' \<and> length used \<le> n) \<and> out w' = out w \<and> nodes w' = nodes w"

lemma reads_at_most_refl [simp]: "reads_at_most n w w"
  by (simp add: reads_at_most_def)

lemma reads_at_most_trans:
  "reads_at_most m u v \<Longrightarrow> reads_at_most n v w \<Longrightarrow> m + n \<le> k \<Longrightarrow> reads_at_most k u w"
  by (auto simp: reads_at_most_def)

lemma reads_at_most_mono: "reads_at_most m w w' \<Longrightarrow> m \<le> n \<Longrightarrow> reads_at_most n w w'"
  by (auto simp: reads_at_most_def)

lemma read_exact_at_most: "stream_read_exact n w = (r, w') \<Longrightarrow> reads_at_most n w w'"
proof (cases w rule: syscall_cases [of no_effect "\<lambda>w. if length (inp w) < n then (Inl UnexpectedEof, w\<lparr>inp := []\<rparr>)
     else (Inr (take n (inp w)), w\<lparr>inp := drop n (inp w)\<rparr>)"])
  case (run w1)
  assume "stream_read_exact n w = (r, w')"
  with run show ?thesis
    by (auto simp: stream_read_exact_def reads_at_most_def split: if_splits
        intro: exI [of _ "take n (inp w)"])
next
  case (fail e k fs)
  assume "stream_read_exact n w = (r, w')"
  with fail show ?thesis
    by (auto simp: stream_read_exact_def reads_at_most_def no_effect_def)
qed

lemma read_frame_len_at_most: "read_frame_len w = (r, w') \<Longrightarrow> reads_at_most 4 w w'"
  by (auto simp: read_frame_len_def bindE_def intoE_def Let_def split: prod.splits sum.splits
      dest: read_exact_at_most)

lemma read_frame_len_range: "read_frame_len w = (Inr len, w') \<Longrightarrow> 0 < len \<and> len \<le> MAX_FRAME_SIZE"
  by (auto simp: read_frame_len_def bindE_Inr Let_def)

lemma raw_after_tag_at_most:
  "receive_raw_chunk_frame_after_tag len w = (r, w') \<Longrightarrow> reads_at_most (len - 1) w w'"
  unfolding receive_raw_chunk_frame_after_tag_def RAW_CHUNK_HEADER_SIZE_def Let_def
  by (auto simp: bindE_def intoE_def split: prod.splits sum.splits if_splits
      dest!: read_exact_at_most intro: reads_at_most_trans reads_at_most_mono)

lemma encoded_after_first_at_most:
  "receive_encoded_frame_after_first_byte C len b w = (r, w') \<Longrightarrow> reads_at_most (len - 1) w w'"
  unfolding receive_encoded_frame_after_first_byte_def Let_def
  by (auto simp: bindE_def intoE_def split: prod.splits sum.splits if_splits option.splits
      dest!: read_exact_at_most)

lemma receive_at_most: "receive C w = (r, w') \<Longrightarrow> reads_at_most (4 + MAX_FRAME_SIZE) w w'"
proof -
  assume run: "receive C w = (r, w')"
  obtain l w1 where l: "read_frame_len w = (l, w1)" by fastforce
  note step1 = read_frame_len_at_most [OF l]
  show ?thesis
  proof (cases l)
    case (Inl e)
    with run l step1 show ?thesis
      by (auto simp: receive_def bindE_def intro: reads_at_most_trans [of _ _ _ 0])
  next
    case (Inr len)
    then have len: "0 < len" "len \<le> MAX_FRAME_SIZE"
      using read_frame_len_range l by blast+
    obtain f w2 where f: "stream_read_exact 1 w1 = (f, w2)" by fastforce
    note step2 = reads_at_most_trans [OF step1 read_exact_at_most [OF f] order_refl]
    show ?thesis
    proof (cases f)
      case (Inl e)
      with run l f Inr step2 len show ?thesis
        by (auto simp: receive_def bindE_def intoE_def intro: reads_at_most_trans [of _ _ _ 0])
    next
      case f': (Inr first)
      have "receive C w = (if hd first = RAW_CHUNK_FRAME_TAG then receive_raw_chunk_frame_after_tag len
          else receive_encoded_frame_after_first_byte C len (hd first)) w2"
        using l f f' Inr by (simp add: receive_def io_simps)
      then have "reads_at_most (len - 1) w2 w'"
        using run raw_after_tag_at_most encoded_after_first_at_most by (metis (full_types))
      then show ?thesis
        using reads_at_most_trans [OF step2] len by simp
    qed
  qed
qed

section \<open>Streaming to and from a file\<close>

lemma read_exact_Inr:
  "stream_read_exact n w = (Inr bs, w') \<Longrightarrow> inp w = bs @ inp w' \<and> length bs = n \<and> nodes w' = nodes w \<and> out w' = out w"
  by (auto simp: stream_read_exact_def syscall_def split: list.splits option.splits if_splits prod.splits)

lemma fs_write_all_Inr:
  "fs_write_all p bs w = (Inr (), w') \<Longrightarrow> lookup w p = Some (FileN old) \<Longrightarrow>
     lookup w' p = Some (FileN (old @ bs)) \<and> inp w' = inp w"
  by (auto simp: fs_write_all_def append_file_def syscall_def split: list.splits option.splits prod.splits)

lemma fs_create_Inr:
  "fs_create p w = (Inr (), w') \<Longrightarrow> lookup w' p = Some (FileN []) \<and> inp w' = inp w"
  by (auto simp: fs_create_def syscall_def split: list.splits option.splits if_splits prod.splits)

lemma fs_create_dir_all_Inr: "fs_create_dir_all p w = (Inr (), w') \<Longrightarrow> inp w' = inp w"
  by (auto simp: fs_create_dir_all_def syscall_def split: list.splits option.splits if_splits prod.splits)

lemma receive_data_loop_step:
  "receive_data_loop p n h w = (if n = 0 then (Inr h, w) else
     bindE (intoE ProtoIo (stream_read_exact (min n (64 * 1024)))) (\<lambda>buffer.
     bindE (intoE ProtoIo (fs_write_all p buffer)) (\<lambda>_.
     receive_data_loop p (n - min n (64 * 1024)) (h @ buffer))) w)"
  by (subst receive_data_loop.simps) (auto simp: Let_def bindE_def split: prod.splits sum.splits)

lemma receive_data_loop_Inr:
  "receive_data_loop p n h w = (Inr h', w') \<Longrightarrow> lookup w p = Some (FileN old) \<Longrightarrow>
     \<exists>data. h' = h @ data \<and> length data = n \<and> inp w = data @ inp w' \<and> lookup w' p = Some (FileN (old @ data))"
proof (induction n arbitrary: h w old rule: less_induct)
  case (less n)
  show ?case
  proof (cases "n = 0")
    case True
    with less.prems show ?thesis by (simp add: receive_data_loop_step)
  next
    case False
    let ?k = "min n (64 * 1024)"
    from less.prems(1) False obtain buf w1 w2 where rd: "stream_read_exact ?k w = (Inr buf, w1)"
        and wr: "fs_write_all p buf w1 = (Inr (), w2)"
        and rec: "receive_data_loop p (n - ?k) (h @ buf) w2 = (Inr h', w')"
      by (subst (asm) receive_data_loop_step) (auto simp: bindE_Inr)
    note rd = read_exact_Inr [OF rd]
    then have "lookup w1 p = Some (FileN old)"
      using less.prems(2) by (simp add: lookup_def)
    note wr = fs_write_all_Inr [OF wr this]
    have "n - ?k < n"
      using False by simp
    from less.IH [OF this rec conjunct1 [OF wr]] obtain data where
        "h' = (h @ buf) @ data" "length data = n - ?k" "inp w2 = data @ inp w'"
        "lookup w' p = Some (FileN ((old @ buf) @ data))"
      by blast
    with rd wr show ?thesis
      by (intro exI [of _ "buf @ data"]) auto
  qed
qed

lemma receive_data_loop_total:
  "faults w = [] \<Longrightarrow> inp w = data @ rest \<Longrightarrow> \<exists>h' w'. receive_data_loop p (length data) h w = (Inr h', w')"
proof (induction "length data" arbitrary: data h w rule: less_induct)
  case less
  show ?case
  proof (cases "data = []")
    case False
    let ?k = "min (length data) (64 * 1024)"
    have rd: "stream_read_exact ?k w = (Inr (take ?k data), w\<lparr>inp := drop ?k data @ rest\<rparr>)"
      by (rule stream_read_exact_nofault) (use less.prems in simp_all)
    obtain w2 where wr: "fs_write_all p (take ?k data) (w\<lparr>inp := drop ?k data @ rest\<rparr>) = (Inr (), w2)"
        and w2: "faults w2 = []" "inp w2 = drop ?k data @ rest"
      using less.prems(1) by (auto simp: fs_write_all_def append_file_def split: option.splits node.splits)
    have "length (drop ?k data) < length data"
      using False by simp
    from less.hyps [OF this w2] show ?thesis
      using False rd wr by (subst receive_data_loop_step) (simp add: io_simps)
  qed (simp add: receive_data_loop_step)
qed

lemma receive_raw_to_file_Inr:
  assumes "receive_raw_chunk_frame_to_file_after_tag D len p w = (Inr r, w')"
  shows "\<exists>data. inp w = to_be_bytes (rr_index r) @ data @ inp w' \<and> rr_data_len r = length data \<and>
    len = RAW_CHUNK_HEADER_SIZE + length data \<and> rr_hash r = blake3 D data \<and> lookup w' p = Some (FileN data)"
proof -
  from assms obtain ib w1 w2 w3 h where rd: "stream_read_exact 4 w = (Inr ib, w1)"
      and dirs: "(if p = [] then returnE () else intoE ProtoIo (fs_create_dir_all (butlast p))) w1 = (Inr (), w2)"
      and cr: "fs_create p w2 = (Inr (), w3)"
      and lp: "receive_data_loop p (len - RAW_CHUNK_HEADER_SIZE) [] w3 = (Inr h, w')"
      and r: "r = \<lparr>rr_index = from_be_bytes ib, rr_data_len = len - RAW_CHUNK_HEADER_SIZE, rr_hash = blake3 D h\<rparr>"
      and len: "RAW_CHUNK_HEADER_SIZE \<le> len"
    by (auto simp: receive_raw_chunk_frame_to_file_after_tag_def Let_def bindE_Inr split: if_splits)
  have w2: "inp w2 = inp w1"
    using dirs fs_create_dir_all_Inr by (auto split: if_splits)
  obtain data where d: "h = data" "length data = len - RAW_CHUNK_HEADER_SIZE" "inp w3 = data @ inp w'"
      "lookup w' p = Some (FileN data)"
    using receive_data_loop_Inr [OF lp conjunct1 [OF fs_create_Inr [OF cr]]] by auto
  have "to_be_bytes (from_be_bytes ib :: u32) = ib"
    using read_exact_Inr [OF rd] by (simp add: to_be_bytes_from_be_bytes)
  then show ?thesis
    using d r len w2 read_exact_Inr [OF rd] fs_create_Inr [OF cr] by (intro exI [of _ data]) auto
qed

lemma send_file_loop_step:
  "send_file_loop rem w = bindE (intoE ProtoIo (file_read (64 * 1024) rem)) (\<lambda>(got, rem').
     if got = [] then returnE () else bindE (intoE ProtoIo (stream_write_all got)) (\<lambda>_. send_file_loop rem')) w"
  by (subst send_file_loop.simps) (auto simp: bindE_def intoE_def split: prod.splits sum.splits)

lemma send_file_loop_Inr: "send_file_loop rem w = (Inr (), w') \<Longrightarrow> out w' = out w @ rem"
proof (induction "length rem" arbitrary: rem w rule: less_induct)
  case less
  from less.prems obtain got rem' w1 where rd: "file_read (64 * 1024) rem w = (Inr (got, rem'), w1)"
      and cont: "(if got = [] then returnE ()
        else bindE (intoE ProtoIo (stream_write_all got)) (\<lambda>_. send_file_loop rem')) w1 = (Inr (), w')"
    by (subst (asm) send_file_loop_step) (auto simp: bindE_Inr)
  have w1: "out w1 = out w"
    using rd by (auto simp: file_read_def syscall_def Let_def split: list.splits option.splits prod.splits)
  show ?case
  proof (cases "got = []")
    case True
    then have "rem = []"
      using file_read_end [of "64 * 1024" rem w rem' w1] rd by simp
    with True cont w1 show ?thesis by simp
  next
    case False
    then obtain w2 where wr: "stream_write_all got w1 = (Inr (), w2)" and rec: "send_file_loop rem' w2 = (Inr (), w')"
      using cont by (auto simp: bindE_Inr)
    have "out w' = out w2 @ rem'"
      using less.hyps [OF _ rec] file_read_decreases [OF rd] False by blast
    then show ?thesis
      using file_read_decreases [OF rd] stream_write_all_Inr [OF wr] w1 by simp
  qed
qed

section \<open>Properties\<close>

text \<open>C6: messages that were sent one after the other are received as the same messages in the same
  order, and the receiver is left with what follows them on the stream.\<close>

theorem wire_stream_roundtrip:
  assumes "wire_ok C" and "forE ms (send C) w = (Inr (), w')" and "out w' = out w @ sent"
    and "faults v = []" and "inp v = sent @ rest"
  shows "mapE (\<lambda>_. receive C) ms v = (Inr ms, v\<lparr>inp := rest\<rparr>)"
  by (rule wire.puts_gets [OF assms])

definition sample_wire :: "wire_message bincode" where
  "sample_wire = \<lparr>encode_to_vec = (\<lambda>m. if m = RequestManifest then Some [4] else None),
     decode_from_slice = (\<lambda>bs. case bs of [] \<Rightarrow> None | b # _ \<Rightarrow> if b = 4 then Some (RequestManifest, 1) else None)\<rparr>"

lemma sample_wire_ok: "wire_ok sample_wire"
  by (auto simp: wire_ok_def bincode_ok_def sample_wire_def split: if_splits)

theorem wire_stream_roundtrip_witness:
  "\<exists>w'. forE [RequestManifest, Chunk 3 [1, 2]] (send sample_wire) empty_world = (Inr (), w') \<and>
     mapE (\<lambda>_. receive sample_wire) [RequestManifest, Chunk 3 [1, 2]] (empty_world\<lparr>inp := out w'\<rparr>) =
       (Inr [RequestManifest, Chunk 3 [1, 2]], empty_world)"
proof -
  obtain w' where run: "forE [RequestManifest, Chunk 3 [1, 2]] (send sample_wire) empty_world = (Inr (), w')"
    by (simp add: send_def send_encoded_frame_def send_raw_chunk_frame_def sample_wire_def encode_whole_def
        bindE_def intoE_def liftE_def stream_write_all_def stream_flush_def empty_world_def syscall_def
        validate_frame_len_def MAX_FRAME_SIZE_def checked_add_usize_def usize_max_def RAW_CHUNK_HEADER_SIZE_def returnE_def)
  have "out w' = out empty_world @ out w'" "faults (empty_world\<lparr>inp := out w'\<rparr>) = []"
    by (simp_all add: empty_world_def)
  from wire_stream_roundtrip [OF sample_wire_ok run this, of "[]"] run show ?thesis
    by (simp add: empty_world_def)
qed

text \<open>C12: whatever bytes the peer sends, receiving one message consumes a prefix of the stream of at
  most the maximal frame and its length, writes nothing, and touches no file.\<close>

theorem receive_bounded:
  "reads_at_most (4 + MAX_FRAME_SIZE) w (snd (receive C w))"
  using receive_at_most [of C w] by (metis prod.collapse)

text \<open>A chunk streamed from a file is received as the message that carries the contents of the
  file, as if it had been sent from memory.\<close>

theorem send_chunk_file_receives:
  assumes "wire_ok C" and "sizes_fit_u64 w" and "send_chunk_file index p expected w = (Inr (), w')"
    and "out w' = out w @ sent" and "faults v = []" and "inp v = sent @ rest"
  shows "\<exists>data. lookup w p = Some (FileN data) \<and> length data = unat expected \<and>
    receive C v = (Inr (Chunk index data), v\<lparr>inp := rest\<rparr>)"
proof -
  from assms(3) obtain data w1 w2 w3 w4 w5 w6 where op: "fs_open p w = (Inr data, w1)"
      and md: "file_metadata_len data w1 = (Inr expected, w2)"
      and valid: "0 < RAW_CHUNK_HEADER_SIZE + unat expected" "RAW_CHUNK_HEADER_SIZE + unat expected \<le> MAX_FRAME_SIZE"
      and wr: "stream_write_all (frame_len_bytes (RAW_CHUNK_HEADER_SIZE + unat expected)) w2 = (Inr (), w3)"
        "stream_write_all [RAW_CHUNK_FRAME_TAG] w3 = (Inr (), w4)" "stream_write_all (to_be_bytes index) w4 = (Inr (), w5)"
      and lp: "send_file_loop data w5 = (Inr (), w6)" and fl: "stream_flush w6 = (Inr (), w')"
    by (auto simp: send_chunk_file_def bindE_Inr checked_add_usize_def split: if_splits)
  have data: "lookup w p = Some (FileN data)"
    using fs_read_Inr op by (simp add: fs_open_def)
  have "expected = of_nat (length data)" and w2: "out w2 = out w1"
    using md by (auto simp: file_metadata_len_def syscall_def split: list.splits option.splits prod.splits)
  then have len: "unat expected = length data"
    using sizes_fit_u64D [OF assms(2) data] by (simp add: unat_of_nat take_bit_eq_mod)
  have "out w1 = out w"
    using op by (auto simp: fs_open_def fs_read_def syscall_def split: list.splits option.splits node.splits if_splits prod.splits)
  let ?payload = "RAW_CHUNK_FRAME_TAG # to_be_bytes index @ data"
  have plen: "length ?payload = RAW_CHUNK_HEADER_SIZE + length data"
    by (simp add: RAW_CHUNK_HEADER_SIZE_def)
  have "sent = frame_len_bytes (length ?payload) @ ?payload"
    using \<open>out w1 = out w\<close> w2 wr [THEN stream_write_all_Inr] send_file_loop_Inr [OF lp] stream_flush_Inr [OF fl] assms(4)
    unfolding plen len by simp
  then have inp: "inp v = frame_len_bytes (length ?payload) @ ?payload @ rest"
    using assms(6) by simp
  have pl: "payload_of C (Chunk index data) ?payload"
    by (simp add: payload_of_def)
  have "receive C v = (Inr (Chunk index data), v\<lparr>inp := rest\<rparr>)"
    using valid by (intro receive_frame [OF assms(1,5) inp _ _ pl]) (simp_all only: plen len)
  with data len show ?thesis by simp
qed

definition sample_chunk_world :: world where
  "sample_chunk_world = empty_world\<lparr>nodes := [([''c''], FileN [8, 9])]\<rparr>"

theorem send_chunk_file_receives_witness:
  "\<exists>w'. send_chunk_file 5 [''c''] 2 sample_chunk_world = (Inr (), w') \<and>
     receive sample_wire (empty_world\<lparr>inp := out w'\<rparr>) = (Inr (Chunk 5 [8, 9]), empty_world)"
proof -
  obtain w' where run: "send_chunk_file 5 [''c''] 2 sample_chunk_world = (Inr (), w')"
    by (simp add: send_chunk_file_def sample_chunk_world_def empty_world_def fs_open_def fs_read_def lookup_def
        file_metadata_len_def syscall_def bindE_def intoE_def liftE_def checked_add_usize_def usize_max_def
        RAW_CHUNK_HEADER_SIZE_def validate_frame_len_def MAX_FRAME_SIZE_def stream_write_all_def
        send_file_loop.simps file_read_def stream_flush_def returnE_def)
  have fit: "sizes_fit_u64 sample_chunk_world"
    by (simp add: sizes_fit_u64_def sample_chunk_world_def)
  have "out w' = out sample_chunk_world @ out w'" "faults (empty_world\<lparr>inp := out w'\<rparr>) = []"
    by (simp_all add: sample_chunk_world_def empty_world_def)
  from send_chunk_file_receives [OF sample_wire_ok fit run this, of "[]"] run show ?thesis
    by (auto simp: sample_chunk_world_def lookup_def empty_world_def)
qed

text \<open>Receiving a chunk into a file agrees with receiving it in memory: a message that is not a
  raw chunk comes back as such; a raw chunk ends up in the file byte for byte, with its index, its
  length and the hash of its bytes reported, and both leave the same rest of the stream.\<close>

theorem receive_chunk_to_file_agrees:
  assumes "faults w = []" and "receive_chunk_to_file D C p w = (Inr fr, w')"
  shows "\<exists>m v. receive C w = (Inr m, v) \<and> inp v = inp w' \<and> (case fr of
      Message m' \<Rightarrow> m' = m \<and> w' = v
    | RawChunkFile r \<Rightarrow> \<exists>data. m = Chunk (rr_index r) data \<and> rr_data_len r = length data \<and>
        rr_hash r = blake3 D data \<and> lookup w' p = Some (FileN data))"
proof -
  from assms(2) obtain len w1 first w2 where rl: "read_frame_len w = (Inr len, w1)"
      and rf: "stream_read_exact 1 w1 = (Inr first, w2)"
      and cont: "(if hd first \<noteq> RAW_CHUNK_FRAME_TAG
        then bindE (receive_encoded_frame_after_first_byte C len (hd first)) (\<lambda>message. returnE (Message message))
        else bindE (receive_raw_chunk_frame_to_file_after_tag D len p) (\<lambda>r. returnE (RawChunkFile r))) w2 = (Inr fr, w')"
    by (auto simp: receive_chunk_to_file_def bindE_Inr)
  have step: "receive C w = (if hd first = RAW_CHUNK_FRAME_TAG then receive_raw_chunk_frame_after_tag len
      else receive_encoded_frame_after_first_byte C len (hd first)) w2"
    using rl rf by (simp add: receive_def io_simps)
  show ?thesis
  proof (cases "hd first = RAW_CHUNK_FRAME_TAG")
    case False
    with cont step show ?thesis by (auto simp: bindE_Inr)
  next
    case True
    with cont obtain r where rt: "receive_raw_chunk_frame_to_file_after_tag D len p w2 = (Inr r, w')"
        and fr: "fr = RawChunkFile r"
      by (auto simp: bindE_Inr)
    obtain data where d: "inp w2 = to_be_bytes (rr_index r) @ data @ inp w'" "rr_data_len r = length data"
        "len = RAW_CHUNK_HEADER_SIZE + length data" "rr_hash r = blake3 D data" "lookup w' p = Some (FileN data)"
      using receive_raw_to_file_Inr [OF rt] by blast
    have "faults w1 = []"
      using rl assms(1) by (auto simp: read_frame_len_def bindE_Inr Let_def stream_read_exact_def syscall_def split: if_splits)
    then have w2: "faults w2 = []"
      using rf by (auto simp: stream_read_exact_def syscall_def split: if_splits)
    have r1: "stream_read_exact 4 w2 = (Inr (to_be_bytes (rr_index r)), w2\<lparr>inp := data @ inp w'\<rparr>)"
      by (rule stream_read_exact_nofault [OF w2 d(1)]) simp
    have r2: "stream_read_exact (length data) (w2\<lparr>inp := data @ inp w'\<rparr>) = (Inr data, w2\<lparr>inp := inp w'\<rparr>)"
      by (subst stream_read_exact_nofault [of _ data "inp w'"]) (simp_all add: w2)
    have "receive C w = (Inr (Chunk (rr_index r) data), w2\<lparr>inp := inp w'\<rparr>)"
      using r1 r2 by (auto simp: step True receive_raw_chunk_frame_after_tag_def d(3) io_simps Let_def
          from_be_bytes_to_be_bytes d(1))
    with d fr show ?thesis by simp
  qed
qed

definition sample_incoming :: world where
  "sample_incoming = empty_world\<lparr>inp := [0, 0, 0, 7, 0xec, 0, 0, 0, 5, 8, 9]\<rparr>"

theorem receive_chunk_to_file_agrees_witness:
  "\<exists>r w'. receive_chunk_to_file sample_deps sample_wire [''t''] sample_incoming = (Inr (RawChunkFile r), w') \<and>
     (\<exists>data v. receive sample_wire sample_incoming = (Inr (Chunk (rr_index r) data), v) \<and> lookup w' [''t''] = Some (FileN data))"
proof -
  obtain r w' where run: "receive_chunk_to_file sample_deps sample_wire [''t''] sample_incoming = (Inr (RawChunkFile r), w')"
    by (simp add: receive_chunk_to_file_def sample_incoming_def empty_world_def read_frame_len_def
        stream_read_exact_def syscall_def bindE_def intoE_def liftE_def Let_def from_be_bytes_def le_nat.simps
        validate_frame_len_def MAX_FRAME_SIZE_def returnE_def RAW_CHUNK_FRAME_TAG_def
        receive_raw_chunk_frame_to_file_after_tag_def RAW_CHUNK_HEADER_SIZE_def fs_create_dir_all_def is_file_def
        lookup_def make_dirs_def fs_create_def is_dir_def set_node_def receive_data_loop.simps fs_write_all_def
        append_file_def)
  have "faults sample_incoming = []"
    by (simp add: sample_incoming_def empty_world_def)
  from receive_chunk_to_file_agrees [OF this run] run show ?thesis
    by auto
qed

end
