(* ===== verification/Etle_Handshake.thy ===== *)
theory Etle_Handshake
  imports Etle_Protocol
begin

text \<open>
  \<open>src/network/error.rs\<close>, \<open>handshake.rs\<close> and \<open>key_exchange.rs\<close>: the greeting and the exchange of
  capabilities at the start of a connection, the key exchange, and the proof of the pre-shared key.
  Each side is a computation on its own world; two worlds are the two ends of one connection when
  what one side has written is what the other finds to read.
\<close>

section \<open>Errors\<close>

datatype network_error =
    NetIo io_error
  | NetProtocol protocol_error
  | NetCrypto crypto_error
  | NetFile file_error
  | UnexpectedMessage string wire_message
  | PeerAuthenticationFailed
  | MissingEncryptedChunk u32
  | UnexpectedChunkIndex u32 u32
  | UnsupportedMultiFileDescriptor nat
  | NoPeersProvided
  | AllPeersFailed nat string
  | UnsupportedProtocolVersion u16 u16
  | MissingPeerCapability string
  | PeerError string

definition net_send :: "wire_message bincode \<Rightarrow> wire_message \<Rightarrow> (network_error, unit) io" where
  "net_send C m = intoE NetProtocol (send C m)"

definition net_receive :: "wire_message bincode \<Rightarrow> (network_error, wire_message) io" where
  "net_receive C = intoE NetProtocol (receive C)"

section \<open>Greeting and capabilities\<close>

definition expect_hello :: "wire_message \<Rightarrow> (network_error, string) result" where
  "expect_hello m = (case m of
      Hello value \<Rightarrow> Inr value
    | actual \<Rightarrow> Inl (UnexpectedMessage ''Hello'' actual))"

definition receive_hello :: "wire_message bincode \<Rightarrow> (network_error, string) io" where
  "receive_hello C = bindE (net_receive C) (\<lambda>m. liftE (expect_hello m))"

definition client_hello_handshake :: "wire_message bincode \<Rightarrow> string \<Rightarrow> (network_error, string) io" where
  "client_hello_handshake C peer_id = bindE (net_send C (Hello peer_id)) (\<lambda>_. receive_hello C)"

definition server_hello_handshake :: "wire_message bincode \<Rightarrow> string \<Rightarrow> (network_error, string) io" where
  "server_hello_handshake C peer_id =
     bindE (receive_hello C) (\<lambda>remote. bindE (net_send C (Hello peer_id)) (\<lambda>_. returnE remote))"

definition required_capabilities :: "string list" where
  "required_capabilities = [CAPABILITY_RAW_CHUNK_FRAME, CAPABILITY_WINDOWED_REQUESTS]"

definition local_capabilities :: "string list" where
  "local_capabilities = required_capabilities"

definition send_local_capabilities :: "wire_message bincode \<Rightarrow> (network_error, unit) io" where
  "send_local_capabilities C = net_send C (Capabilities ETLE_WIRE_PROTOCOL_VERSION local_capabilities)"

fun check_capabilities :: "string list \<Rightarrow> string list \<Rightarrow> (network_error, unit) result" where
  "check_capabilities features [] = Inr ()"
| "check_capabilities features (required # rs) =
     (if required \<in> set features then check_capabilities features rs else Inl (MissingPeerCapability required))"

definition receive_and_validate_peer_capabilities :: "wire_message bincode \<Rightarrow> (network_error, unit) io" where
  "receive_and_validate_peer_capabilities C = bindE (net_receive C) (\<lambda>m. case m of
      Capabilities version features \<Rightarrow>
        if version \<noteq> ETLE_WIRE_PROTOCOL_VERSION
        then throwE (UnsupportedProtocolVersion version ETLE_WIRE_PROTOCOL_VERSION)
        else liftE (check_capabilities features required_capabilities)
    | actual \<Rightarrow> throwE (UnexpectedMessage ''Capabilities'' actual))"

definition exchange_capabilities_as_client :: "wire_message bincode \<Rightarrow> (network_error, unit) io" where
  "exchange_capabilities_as_client C =
     bindE (send_local_capabilities C) (\<lambda>_. receive_and_validate_peer_capabilities C)"

definition exchange_capabilities_as_server :: "wire_message bincode \<Rightarrow> (network_error, unit) io" where
  "exchange_capabilities_as_server C =
     bindE (receive_and_validate_peer_capabilities C) (\<lambda>_. send_local_capabilities C)"

definition client_protocol_handshake :: "wire_message bincode \<Rightarrow> string \<Rightarrow> (network_error, string) io" where
  "client_protocol_handshake C peer_id =
     bindE (client_hello_handshake C peer_id) (\<lambda>remote.
     bindE (exchange_capabilities_as_client C) (\<lambda>_. returnE remote))"

definition server_protocol_handshake :: "wire_message bincode \<Rightarrow> string \<Rightarrow> (network_error, string) io" where
  "server_protocol_handshake C peer_id =
     bindE (server_hello_handshake C peer_id) (\<lambda>remote.
     bindE (exchange_capabilities_as_server C) (\<lambda>_. returnE remote))"

section \<open>Key exchange\<close>

definition expect_key_exchange :: "wire_message \<Rightarrow> (network_error, public_key_bytes) result" where
  "expect_key_exchange m = (case m of
      KeyExchange value \<Rightarrow> Inr value
    | actual \<Rightarrow> Inl (UnexpectedMessage ''KeyExchange'' actual))"

definition receive_key_exchange :: "wire_message bincode \<Rightarrow> (network_error, public_key_bytes) io" where
  "receive_key_exchange C = bindE (net_receive C) (\<lambda>m. liftE (expect_key_exchange m))"

definition client_shared_secret_exchange :: "deps \<Rightarrow> wire_message bincode \<Rightarrow> (network_error, shared_secret_bytes) io" where
  "client_shared_secret_exchange D C =
     bindE (generate_keypair D) (\<lambda>keypair.
     bindE (net_send C (KeyExchange (kp_public keypair))) (\<lambda>_.
     bindE (receive_key_exchange C) (\<lambda>server_public_key.
     liftE (map_err NetCrypto (diffie_hellman D keypair server_public_key)))))"

definition server_shared_secret_exchange :: "deps \<Rightarrow> wire_message bincode \<Rightarrow> (network_error, shared_secret_bytes) io" where
  "server_shared_secret_exchange D C =
     bindE (receive_key_exchange C) (\<lambda>client_public_key.
     bindE (generate_keypair D) (\<lambda>keypair.
     bindE (net_send C (KeyExchange (kp_public keypair))) (\<lambda>_.
     liftE (map_err NetCrypto (diffie_hellman D keypair client_public_key)))))"

definition client_unauthenticated_session_key_exchange ::
    "deps \<Rightarrow> wire_message bincode \<Rightarrow> (network_error, symmetric_key \<times> public_key_bytes \<times> public_key_bytes) io" where
  "client_unauthenticated_session_key_exchange D C =
     bindE (generate_keypair D) (\<lambda>keypair.
     bindE (net_send C (KeyExchange (kp_public keypair))) (\<lambda>_.
     bindE (receive_key_exchange C) (\<lambda>server_public_key.
     bindE (liftE (map_err NetCrypto (diffie_hellman D keypair server_public_key))) (\<lambda>shared_secret.
     returnE (derive_session_key_with_transcript D shared_secret (kp_public keypair) server_public_key,
       kp_public keypair, server_public_key)))))"

definition server_unauthenticated_session_key_exchange ::
    "deps \<Rightarrow> wire_message bincode \<Rightarrow> (network_error, symmetric_key \<times> public_key_bytes \<times> public_key_bytes) io" where
  "server_unauthenticated_session_key_exchange D C =
     bindE (receive_key_exchange C) (\<lambda>client_public_key.
     bindE (generate_keypair D) (\<lambda>keypair.
     bindE (net_send C (KeyExchange (kp_public keypair))) (\<lambda>_.
     bindE (liftE (map_err NetCrypto (diffie_hellman D keypair client_public_key))) (\<lambda>shared_secret.
     returnE (derive_session_key_with_transcript D shared_secret client_public_key (kp_public keypair),
       client_public_key, kp_public keypair)))))"

definition client_session_key_exchange :: "deps \<Rightarrow> wire_message bincode \<Rightarrow> (network_error, symmetric_key) io" where
  "client_session_key_exchange D C =
     bindE (client_unauthenticated_session_key_exchange D C) (\<lambda>(session_key, _, _). returnE session_key)"

definition server_session_key_exchange :: "deps \<Rightarrow> wire_message bincode \<Rightarrow> (network_error, symmetric_key) io" where
  "server_session_key_exchange D C =
     bindE (server_unauthenticated_session_key_exchange D C) (\<lambda>(session_key, _, _). returnE session_key)"

definition expect_auth_proof :: "wire_message \<Rightarrow> (network_error, auth_tag) result" where
  "expect_auth_proof m = (case m of
      AuthProof value \<Rightarrow> Inr value
    | actual \<Rightarrow> Inl (UnexpectedMessage ''AuthProof'' actual))"

definition receive_auth_proof :: "wire_message bincode \<Rightarrow> (network_error, auth_tag) io" where
  "receive_auth_proof C = bindE (net_receive C) (\<lambda>m. liftE (expect_auth_proof m))"

definition verify_auth_tag :: "auth_tag \<Rightarrow> auth_tag \<Rightarrow> (network_error, unit) result" where
  "verify_auth_tag expected actual = (if auth_tags_equal expected actual then Inr () else Inl PeerAuthenticationFailed)"

definition client_authenticated_session_key_exchange ::
    "deps \<Rightarrow> wire_message bincode \<Rightarrow> auth_psk \<Rightarrow> (network_error, symmetric_key) io" where
  "client_authenticated_session_key_exchange D C psk =
     bindE (client_unauthenticated_session_key_exchange D C) (\<lambda>(session_key, client_public_key, server_public_key).
     bindE (net_send C (AuthProof (derive_auth_tag D psk session_key client_public_key server_public_key Client))) (\<lambda>_.
     bindE (receive_auth_proof C) (\<lambda>server_tag.
     bindE (liftE (verify_auth_tag (derive_auth_tag D psk session_key client_public_key server_public_key Server) server_tag)) (\<lambda>_.
     returnE session_key))))"

definition server_authenticated_session_key_exchange ::
    "deps \<Rightarrow> wire_message bincode \<Rightarrow> auth_psk \<Rightarrow> (network_error, symmetric_key) io" where
  "server_authenticated_session_key_exchange D C psk =
     bindE (server_unauthenticated_session_key_exchange D C) (\<lambda>(session_key, client_public_key, server_public_key).
     bindE (receive_auth_proof C) (\<lambda>client_tag.
     bindE (liftE (verify_auth_tag (derive_auth_tag D psk session_key client_public_key server_public_key Client) client_tag)) (\<lambda>_.
     bindE (net_send C (AuthProof (derive_auth_tag D psk session_key client_public_key server_public_key Server))) (\<lambda>_.
     returnE session_key))))"

definition client_key_exchange :: "deps \<Rightarrow> wire_message bincode \<Rightarrow> file_id \<Rightarrow> (network_error, symmetric_key) io" where
  "client_key_exchange D C fid =
     bindE (client_shared_secret_exchange D C) (\<lambda>shared_secret. returnE (derive_file_key D shared_secret fid))"

definition server_key_exchange :: "deps \<Rightarrow> wire_message bincode \<Rightarrow> file_id \<Rightarrow> (network_error, symmetric_key) io" where
  "server_key_exchange D C fid =
     bindE (server_shared_secret_exchange D C) (\<lambda>shared_secret. returnE (derive_file_key D shared_secret fid))"

section \<open>The two ends of a connection\<close>

text \<open>The bytes of one message on the stream.\<close>

definition frame_of :: "wire_message bincode \<Rightarrow> wire_message \<Rightarrow> bytes \<Rightarrow> bool" where
  "frame_of C m bs \<longleftrightarrow> (\<exists>payload. payload_of C m payload \<and> 0 < length payload \<and> length payload \<le> MAX_FRAME_SIZE \<and>
     bs = frame_len_bytes (length payload) @ payload)"

lemma calm_send [intro!, simp]: "preserves stays_calm (send C m)"
  by (cases m) (auto simp: send_def send_encoded_frame_def send_raw_chunk_frame_def
      intro!: calm.pres_bind calm.pres_into)

lemma calm_receive [intro!, simp]: "preserves stays_calm (receive C)"
  unfolding receive_def read_frame_len_def receive_raw_chunk_frame_after_tag_def
    receive_encoded_frame_after_first_byte_def Let_def
  by (auto intro!: calm.pres_bind calm.pres_into split: option.splits)

lemma send_faults: "faults w = [] \<Longrightarrow> send C m w = (r, w') \<Longrightarrow> faults w' = []"
  using preserves_calmD [OF calm_send] .

lemma net_send_Inr:
  assumes "net_send C m w = (Inr (), w')"
  obtains fr where "frame_of C m fr" "out w' = out w @ fr" "inp w' = inp w" "faults w = [] \<Longrightarrow> faults w' = []"
proof -
  from assms have run: "send C m w = (Inr (), w')"
    by (simp add: net_send_def)
  then obtain payload where "payload_of C m payload" "0 < length payload" "length payload \<le> MAX_FRAME_SIZE"
      "out w' = out w @ frame_len_bytes (length payload) @ payload" "inp w' = inp w"
    by (rule send_Inr)
  then show ?thesis
    using that send_faults [OF _ run] unfolding frame_of_def by blast
qed

lemma net_receive_frame:
  "wire_ok C \<Longrightarrow> faults v = [] \<Longrightarrow> inp v = fr @ rest \<Longrightarrow> frame_of C m fr \<Longrightarrow> net_receive C v = (Inr m, v\<lparr>inp := rest\<rparr>)"
  unfolding frame_of_def net_receive_def by (auto intro!: receive_frame)

lemma generate_keypair_run:
  "generate_keypair D w = (Inr (keypair_of D (from_be_bytes (map (rng w) [rng_pos w ..< rng_pos w + 32]))),
     w\<lparr>rng_pos := rng_pos w + 32\<rparr>)"
  by (simp add: generate_keypair_def io_simps fill_bytes_def)

lemma receive_key_exchange_frame:
  "wire_ok C \<Longrightarrow> faults v = [] \<Longrightarrow> inp v = fr @ rest \<Longrightarrow> frame_of C (KeyExchange pk) fr \<Longrightarrow>
     receive_key_exchange C v = (Inr pk, v\<lparr>inp := rest\<rparr>)"
  by (simp add: receive_key_exchange_def io_simps net_receive_frame expect_key_exchange_def)

lemma net_receive_Inr: "net_receive C w = (Inr m, w') \<Longrightarrow> out w' = out w \<and> (faults w = [] \<longrightarrow> faults w' = [])"
  using receive_at_most [of C w "Inr m" w'] preserves_calmD [OF calm_receive, of C w "Inr m" w']
  by (simp add: net_receive_def reads_at_most_def)

lemma expect_Inr [simp]:
  "expect_hello m = Inr i \<longleftrightarrow> m = Hello i"
  "expect_key_exchange m = Inr pk \<longleftrightarrow> m = KeyExchange pk"
  "expect_auth_proof m = Inr t \<longleftrightarrow> m = AuthProof t"
  by (cases m; auto simp: expect_hello_def expect_key_exchange_def expect_auth_proof_def)+

lemma receive_key_exchange_heard:
  "receive_key_exchange C w = (Inr pk, w') \<longleftrightarrow> net_receive C w = (Inr (KeyExchange pk), w')"
  by (auto simp: receive_key_exchange_def bindE_Inr)

lemma receive_auth_proof_heard:
  "receive_auth_proof C w = (Inr t, w') \<longleftrightarrow> net_receive C w = (Inr (AuthProof t), w')"
  by (auto simp: receive_auth_proof_def bindE_Inr)

lemma receive_key_exchange_Inr:
  "receive_key_exchange C w = (Inr pk, w') \<Longrightarrow> out w' = out w \<and> (faults w = [] \<longrightarrow> faults w' = [])"
  by (rule net_receive_Inr) (simp add: receive_key_exchange_heard)

lemma receive_auth_proof_Inr:
  "receive_auth_proof C w = (Inr t, w') \<Longrightarrow> out w' = out w \<and> (faults w = [] \<longrightarrow> faults w' = [])"
  by (rule net_receive_Inr) (simp add: receive_auth_proof_heard)

lemma client_unauth_Inr:
  assumes "client_unauthenticated_session_key_exchange D C w = (Inr (k, c, s), w')" and "faults w = []"
  obtains secret fr v shared where "c = kp_public (keypair_of D secret)" "frame_of C (KeyExchange c) fr"
    "out w' = out w @ fr" "receive_key_exchange C v = (Inr s, w')" "inp v = inp w" "faults v = []" "faults w' = []"
    "diffie_hellman D (keypair_of D secret) s = Inr shared" "k = derive_session_key_with_transcript D shared c s"
proof -
  let ?secret = "from_be_bytes (map (rng w) [rng_pos w ..< rng_pos w + 32])"
  from assms(1) obtain v shared where c: "c = kp_public (keypair_of D ?secret)"
      and sd: "net_send C (KeyExchange c) (w\<lparr>rng_pos := rng_pos w + 32\<rparr>) = (Inr (), v)"
      and rc: "receive_key_exchange C v = (Inr s, w')"
      and dh: "diffie_hellman D (keypair_of D ?secret) s = Inr shared"
      and k: "k = derive_session_key_with_transcript D shared c s"
    by (auto simp: client_unauthenticated_session_key_exchange_def bindE_Inr generate_keypair_run)
  from sd obtain fr where "frame_of C (KeyExchange c) fr" "out v = out w @ fr" "inp v = inp w" "faults v = []"
    by (rule net_send_Inr) (use assms(2) in auto)
  with receive_key_exchange_Inr [OF rc] that c rc dh k show ?thesis by auto
qed

lemma server_unauth_Inr:
  assumes "server_unauthenticated_session_key_exchange D C w = (Inr (k, c, s), w')" and "faults w = []"
  obtains secret fr v shared where "s = kp_public (keypair_of D secret)" "frame_of C (KeyExchange s) fr"
    "out w' = out w @ fr" "receive_key_exchange C w = (Inr c, v)" "inp w' = inp v" "faults w' = []"
    "diffie_hellman D (keypair_of D secret) c = Inr shared" "k = derive_session_key_with_transcript D shared c s"
proof -
  from assms(1) obtain v secret shared u where rc: "receive_key_exchange C w = (Inr c, v)"
      and s: "s = kp_public (keypair_of D secret)"
      and sd: "net_send C (KeyExchange s) (v\<lparr>rng_pos := rng_pos v + 32\<rparr>) = (Inr (), w')"
      and dh: "diffie_hellman D (keypair_of D secret) c = Inr shared"
      and k: "k = derive_session_key_with_transcript D shared c s"
    by (auto simp: server_unauthenticated_session_key_exchange_def bindE_Inr generate_keypair_run)
  note v = receive_key_exchange_Inr [OF rc]
  from sd obtain fr where "frame_of C (KeyExchange s) fr" "out w' = out v @ fr" "inp w' = inp v" "faults w' = []"
    by (rule net_send_Inr) (use v assms(2) in auto)
  with v that s rc dh k show ?thesis by auto
qed

lemma dh_agree:
  assumes "x25519_ok D" and "diffie_hellman D (keypair_of D a) (kp_public (keypair_of D b)) = Inr x"
    and "diffie_hellman D (keypair_of D b) (kp_public (keypair_of D a)) = Inr y"
  shows "x = y"
  using assms by (auto simp: keypair_of_def x25519_ok_def Let_def split: if_splits)

lemma client_auth_Inr:
  assumes "client_authenticated_session_key_exchange D C psk w = (Inr k, w')" and "faults w = []"
  obtains c s u v fr where "client_unauthenticated_session_key_exchange D C w = (Inr (k, c, s), u)"
    "frame_of C (AuthProof (derive_auth_tag D psk k c s Client)) fr" "out w' = out u @ fr"
    "receive_auth_proof C v = (Inr (derive_auth_tag D psk k c s Server), w')" "inp v = inp u" "faults v = []"
proof -
  from assms obtain c s u v t where un: "client_unauthenticated_session_key_exchange D C w = (Inr (k, c, s), u)"
      and sd: "net_send C (AuthProof (derive_auth_tag D psk k c s Client)) u = (Inr (), v)"
      and rc: "receive_auth_proof C v = (Inr t, w')" and t: "auth_tags_equal (derive_auth_tag D psk k c s Server) t"
    by (auto simp: client_authenticated_session_key_exchange_def bindE_Inr verify_auth_tag_def split: prod.splits if_splits)
  have u: "faults u = []"
    using client_unauth_Inr [OF un assms(2)] by metis
  from sd obtain fr where "frame_of C (AuthProof (derive_auth_tag D psk k c s Client)) fr" "out v = out u @ fr"
      "inp v = inp u" "faults v = []"
    by (rule net_send_Inr) (use u in auto)
  with that un rc t receive_auth_proof_Inr [OF rc] show ?thesis by (simp add: tags_equal)
qed

lemma server_auth_Inr:
  assumes "server_authenticated_session_key_exchange D C psk w = (Inr k, w')" and "faults w = []"
  obtains c s u v fr where "server_unauthenticated_session_key_exchange D C w = (Inr (k, c, s), u)"
    "frame_of C (AuthProof (derive_auth_tag D psk k c s Server)) fr" "out w' = out u @ fr"
    "receive_auth_proof C u = (Inr (derive_auth_tag D psk k c s Client), v)" "faults u = []"
proof -
  from assms obtain c s u v t where un: "server_unauthenticated_session_key_exchange D C w = (Inr (k, c, s), u)"
      and rc: "receive_auth_proof C u = (Inr t, v)" and t: "auth_tags_equal (derive_auth_tag D psk k c s Client) t"
      and sd: "net_send C (AuthProof (derive_auth_tag D psk k c s Server)) v = (Inr (), w')"
    by (auto simp: server_authenticated_session_key_exchange_def bindE_Inr verify_auth_tag_def split: prod.splits if_splits)
  have u: "faults u = []"
    using server_unauth_Inr [OF un assms(2)] by metis
  from sd obtain fr where "frame_of C (AuthProof (derive_auth_tag D psk k c s Server)) fr" "out w' = out v @ fr"
    by (rule net_send_Inr)
  with that un rc t u receive_auth_proof_Inr [OF rc] show ?thesis by (simp add: tags_equal)
qed

lemma receive_auth_proof_frame:
  "wire_ok C \<Longrightarrow> faults v = [] \<Longrightarrow> inp v = fr @ rest \<Longrightarrow> frame_of C (AuthProof t) fr \<Longrightarrow>
     receive_auth_proof C v = (Inr t, v\<lparr>inp := rest\<rparr>)"
  by (simp add: receive_auth_proof_def io_simps net_receive_frame expect_auth_proof_def)

subsection \<open>Honest runs complete\<close>

lemma net_send_frame:
  assumes "faults w = []" and "frame_of C m fr"
  shows "net_send C m w = (Inr (), w\<lparr>out := out w @ fr\<rparr>)"
proof -
  from assms(2) obtain payload where p: "payload_of C m payload" "0 < length payload" "length payload \<le> MAX_FRAME_SIZE"
      "fr = frame_len_bytes (length payload) @ payload"
    by (auto simp: frame_of_def)
  have v: "validate_frame_len (length payload) = Inr ()"
    using p(2,3) by simp
  have sw: "stream_write_all bs v = (Inr (), v\<lparr>out := out v @ bs\<rparr>)" "stream_flush v = (Inr (), v)"
    if "faults v = []" for bs v
    using that by (simp_all add: stream_write_all_def stream_flush_def)
  have "send C m w = (Inr (), w\<lparr>out := out w @ fr\<rparr>)"
  proof (cases "\<exists>index data. m = Chunk index data")
    case True
    then obtain index data where m: "m = Chunk index data" by blast
    then have pl: "payload = RAW_CHUNK_FRAME_TAG # to_be_bytes index @ data"
      using p(1) by (simp add: payload_of_def)
    have add: "checked_add_usize RAW_CHUNK_HEADER_SIZE (length data) = Some (length payload)"
      using p(3) by (simp add: pl checked_add_usize_def RAW_CHUNK_HEADER_SIZE_def usize_max_def MAX_FRAME_SIZE_def)
    show ?thesis
      unfolding m send_def wire_message.case send_raw_chunk_frame_def add
      using v assms(1) by (simp add: io_simps sw p(4) pl del: validate_frame_len_Inr)
  next
    case False
    then have "send C m = send_encoded_frame C m" "encode_to_vec C m = Some payload"
      using p(1) by (cases m; simp add: send_def payload_of_def)+
    then show ?thesis
      using v assms(1) by (simp add: send_encoded_frame_def encode_whole_def io_simps sw p(4) del: validate_frame_len_Inr)
  qed
  then show ?thesis by (simp add: net_send_def)
qed

definition next_secret :: "world \<Rightarrow> arr32" where
  "next_secret w = from_be_bytes (map (rng w) [rng_pos w ..< rng_pos w + 32])"

lemma client_auth_runs:
  assumes "wire_ok C" and "faults w = []" and "inp w = g1 @ g2 @ rest"
    and "c = kp_public (keypair_of D (next_secret w))" and "diffie_hellman D (keypair_of D (next_secret w)) s = Inr shared"
    and "k = derive_session_key_with_transcript D shared c s"
    and "frame_of C (KeyExchange c) f1" and "frame_of C (AuthProof (derive_auth_tag D psk k c s Client)) f2"
    and "frame_of C (KeyExchange s) g1" and "frame_of C (AuthProof (derive_auth_tag D psk k c s Server)) g2"
  shows "\<exists>w'. client_authenticated_session_key_exchange D C psk w = (Inr k, w') \<and> out w' = out w @ f1 @ f2"
proof -
  let ?w1 = "w\<lparr>rng_pos := rng_pos w + 32\<rparr>"
  let ?w2 = "?w1\<lparr>out := out w @ f1\<rparr>"
  let ?w3 = "?w2\<lparr>inp := g2 @ rest\<rparr>"
  let ?w4 = "?w3\<lparr>out := out w @ f1 @ f2\<rparr>"
  have gen: "generate_keypair D w = (Inr (keypair_of D (next_secret w)), ?w1)"
    by (simp add: generate_keypair_run next_secret_def)
  have s1: "net_send C (KeyExchange c) ?w1 = (Inr (), ?w2)"
    using net_send_frame [of ?w1, OF _ assms(7)] assms(2) by simp
  have r1: "receive_key_exchange C ?w2 = (Inr s, ?w3)"
    using receive_key_exchange_frame [OF assms(1), of ?w2, OF _ _ assms(9)] assms(2,3) by simp
  have s2: "net_send C (AuthProof (derive_auth_tag D psk k c s Client)) ?w3 = (Inr (), ?w4)"
    using net_send_frame [of ?w3, OF _ assms(8)] assms(2) by simp
  have r2: "receive_auth_proof C ?w4 = (Inr (derive_auth_tag D psk k c s Server), ?w4\<lparr>inp := rest\<rparr>)"
    using receive_auth_proof_frame [OF assms(1), of ?w4, OF _ _ assms(10)] assms(2) by simp
  have un: "client_unauthenticated_session_key_exchange D C w = (Inr (k, c, s), ?w3)"
    using s1 r1 assms(4,5,6) by (simp add: client_unauthenticated_session_key_exchange_def io_simps gen)
  show ?thesis
    using s2 r2 by (simp add: client_authenticated_session_key_exchange_def io_simps un verify_auth_tag_def tags_equal)
qed

lemma server_auth_runs:
  assumes "wire_ok C" and "faults w = []" and "inp w = f1 @ f2 @ rest"
    and "s = kp_public (keypair_of D (next_secret w))" and "diffie_hellman D (keypair_of D (next_secret w)) c = Inr shared"
    and "k = derive_session_key_with_transcript D shared c s"
    and "frame_of C (KeyExchange c) f1" and "frame_of C (AuthProof (derive_auth_tag D psk k c s Client)) f2"
    and "frame_of C (KeyExchange s) g1" and "frame_of C (AuthProof (derive_auth_tag D psk k c s Server)) g2"
  shows "\<exists>w'. server_authenticated_session_key_exchange D C psk w = (Inr k, w') \<and> out w' = out w @ g1 @ g2"
proof -
  let ?w1 = "w\<lparr>inp := f2 @ rest\<rparr>"
  let ?w2 = "?w1\<lparr>rng_pos := rng_pos w + 32\<rparr>"
  let ?w3 = "?w2\<lparr>out := out w @ g1\<rparr>"
  let ?w4 = "?w3\<lparr>inp := rest\<rparr>"
  have r1: "receive_key_exchange C w = (Inr c, ?w1)"
    using receive_key_exchange_frame [OF assms(1,2) _ assms(7)] assms(3) by simp
  have gen: "generate_keypair D ?w1 = (Inr (keypair_of D (next_secret w)), ?w2)"
    by (simp add: generate_keypair_run next_secret_def)
  have s1: "net_send C (KeyExchange s) ?w2 = (Inr (), ?w3)"
    using net_send_frame [of ?w2, OF _ assms(9)] assms(2) by simp
  have r2: "receive_auth_proof C ?w3 = (Inr (derive_auth_tag D psk k c s Client), ?w4)"
    using receive_auth_proof_frame [OF assms(1), of ?w3, OF _ _ assms(8)] assms(2) by simp
  have s2: "net_send C (AuthProof (derive_auth_tag D psk k c s Server)) ?w4 = (Inr (), ?w4\<lparr>out := out w @ g1 @ g2\<rparr>)"
    using net_send_frame [of ?w4, OF _ assms(10)] assms(2) by simp
  have un: "server_unauthenticated_session_key_exchange D C w = (Inr (k, c, s), ?w3)"
    using s1 r1 assms(4,5,6) by (simp add: server_unauthenticated_session_key_exchange_def io_simps gen)
  show ?thesis
    using s2 r2 by (simp add: server_authenticated_session_key_exchange_def io_simps un verify_auth_tag_def tags_equal)
qed

lemma keys_agree:
  assumes "wire_ok C" and "x25519_ok D" and "faults wc = []" and "faults ws = []" and "out wc = []" and "out ws = []"
    and "client_authenticated_session_key_exchange D C psk wc = (Inr kc, wc')"
    and "server_authenticated_session_key_exchange D C psk' ws = (Inr ks, ws')"
    and "inp ws = out wc'" and "inp wc = out ws'"
  shows "kc = ks \<and> (\<exists>c s u v. client_unauthenticated_session_key_exchange D C wc = (Inr (kc, c, s), u) \<and>
    server_unauthenticated_session_key_exchange D C ws = (Inr (ks, c, s), v))"
proof -
  obtain c s u vc f2 where ca: "client_unauthenticated_session_key_exchange D C wc = (Inr (kc, c, s), u)" "out wc' = out u @ f2"
    using client_auth_Inr [OF assms(7,3)] by metis
  obtain c' s' v vs g2 where sa: "server_unauthenticated_session_key_exchange D C ws = (Inr (ks, c', s'), v)" "out ws' = out v @ g2"
    using server_auth_Inr [OF assms(8,4)] by metis
  obtain a f1 v1 x where cu: "c = kp_public (keypair_of D a)" "frame_of C (KeyExchange c) f1" "out u = out wc @ f1"
      "receive_key_exchange C v1 = (Inr s, u)" "inp v1 = inp wc" "faults v1 = []"
      "diffie_hellman D (keypair_of D a) s = Inr x" "kc = derive_session_key_with_transcript D x c s"
    using client_unauth_Inr [OF ca(1) assms(3)] by metis
  obtain b g1 v2 y where su: "s' = kp_public (keypair_of D b)" "frame_of C (KeyExchange s') g1" "out v = out ws @ g1"
      "receive_key_exchange C ws = (Inr c', v2)"
      "diffie_hellman D (keypair_of D b) c' = Inr y" "ks = derive_session_key_with_transcript D y c' s'"
    using server_unauth_Inr [OF sa(1) assms(4)] by metis
  have "inp ws = f1 @ f2" "inp v1 = g1 @ g2"
    using assms(5,6,9,10) ca(2) sa(2) cu(3,5) su(3) by simp_all
  then have "c' = c" "s' = s"
    using receive_key_exchange_frame [OF assms(1,4) _ cu(2)] receive_key_exchange_frame [OF assms(1) cu(6) _ su(2)] cu(4) su(4)
    by simp_all
  moreover from this have "x = y"
    using dh_agree [OF assms(2), of a b x y] cu(1,7) su(1,5) by simp
  ultimately show ?thesis
    using cu(8) su(6) ca(1) sa(1) by blast
qed

lemma honest_exchange:
  assumes "wire_ok C" and "x25519_ok D" and "faults wc = []" and "faults ws = []" and "out wc = []" and "out ws = []"
    and "\<And>pk. \<exists>fr. frame_of C (KeyExchange pk) fr" and "\<And>t. \<exists>fr. frame_of C (AuthProof t) fr"
    and "diffie_hellman D (keypair_of D (next_secret wc)) (kp_public (keypair_of D (next_secret ws))) = Inr shared"
  shows "\<exists>k wc' ws'. client_authenticated_session_key_exchange D C psk (wc\<lparr>inp := out ws'\<rparr>) = (Inr k, wc') \<and>
    server_authenticated_session_key_exchange D C psk (ws\<lparr>inp := out wc'\<rparr>) = (Inr k, ws')"
proof -
  let ?c = "kp_public (keypair_of D (next_secret wc))"
  let ?s = "kp_public (keypair_of D (next_secret ws))"
  let ?k = "derive_session_key_with_transcript D shared ?c ?s"
  have dh: "diffie_hellman D (keypair_of D (next_secret ws)) ?c = Inr shared"
    using assms(2,9) by (auto simp: keypair_of_def x25519_ok_def Let_def split: if_splits)
  obtain f1 f2 g1 g2 where f: "frame_of C (KeyExchange ?c) f1" "frame_of C (AuthProof (derive_auth_tag D psk ?k ?c ?s Client)) f2"
      "frame_of C (KeyExchange ?s) g1" "frame_of C (AuthProof (derive_auth_tag D psk ?k ?c ?s Server)) g2"
    using assms(7,8) by meson
  have ns: "next_secret (w\<lparr>inp := i\<rparr>) = next_secret w" for w i
    by (simp add: next_secret_def)
  have "\<exists>wc'. client_authenticated_session_key_exchange D C psk (wc\<lparr>inp := g1 @ g2\<rparr>) = (Inr ?k, wc') \<and>
      out wc' = out (wc\<lparr>inp := g1 @ g2\<rparr>) @ f1 @ f2"
    by (rule client_auth_runs [where rest = "[]", OF assms(1) _ _ _ _ refl f]) (simp_all add: ns assms(3,9))
  then obtain wc' where wc': "client_authenticated_session_key_exchange D C psk (wc\<lparr>inp := g1 @ g2\<rparr>) = (Inr ?k, wc')" "out wc' = f1 @ f2"
    using assms(5) by auto
  have "\<exists>ws'. server_authenticated_session_key_exchange D C psk (ws\<lparr>inp := f1 @ f2\<rparr>) = (Inr ?k, ws') \<and>
      out ws' = out (ws\<lparr>inp := f1 @ f2\<rparr>) @ g1 @ g2"
    by (rule server_auth_runs [where rest = "[]", OF assms(1) _ _ _ _ refl f]) (simp_all add: ns assms(4) dh)
  then obtain ws' where ws': "server_authenticated_session_key_exchange D C psk (ws\<lparr>inp := f1 @ f2\<rparr>) = (Inr ?k, ws')" "out ws' = g1 @ g2"
    using assms(6) by auto
  show ?thesis
    using wc' ws' by metis
qed

text \<open>A serializer that knows the messages of the key exchange.\<close>

fun kx_encode :: "wire_message \<Rightarrow> bytes option" where
  "kx_encode (KeyExchange pk) = Some (2 # public_key_raw pk)"
| "kx_encode (AuthProof t) = Some (3 # arr32_bytes t)"
| "kx_encode _ = None"

fun kx_decode :: "bytes \<Rightarrow> (wire_message \<times> nat) option" where
  "kx_decode [] = None"
| "kx_decode (b # bs) = (case arr32_try_from (take 32 bs) of
     None \<Rightarrow> None
   | Some a \<Rightarrow> if b = 2 then Some (KeyExchange (PublicKeyBytes a), 33)
       else if b = 3 then Some (AuthProof a, 33) else None)"

definition kx_wire :: "wire_message bincode" where
  "kx_wire = \<lparr>encode_to_vec = kx_encode, decode_from_slice = kx_decode\<rparr>"

lemma kx_wire_ok: "wire_ok kx_wire"
proof -
  have "kx_decode (b @ rest) = Some (m, length b) \<and> (\<exists>bs. b = variant_index m # bs)" if "kx_encode m = Some b" for m b rest
  proof (cases m)
    case (KeyExchange pk)
    with that show ?thesis by (cases pk) auto
  qed (use that in auto)
  then show ?thesis by (simp add: wire_ok_def bincode_ok_def kx_wire_def)
qed

lemma kx_frames: "\<exists>fr. frame_of kx_wire (KeyExchange pk) fr" "\<exists>fr. frame_of kx_wire (AuthProof t) fr"
  by (auto simp: frame_of_def payload_of_def kx_wire_def MAX_FRAME_SIZE_def)

definition sample_client_world :: world where
  "sample_client_world = empty_world\<lparr>rng := (\<lambda>n. if n = 31 then 1 else 0)\<rparr>"

lemma sample_secret: "next_secret sample_client_world = 1"
  by (simp add: next_secret_def sample_client_world_def empty_world_def from_be_bytes_def upt_rec)

lemma sample_shared_not_zero: "\<not> list_all (\<lambda>byte. byte = 0) (arr32_bytes 9)"
proof -
  have "le_bytes (Suc 31) 9 = 9 # le_bytes 31 0"
    by (simp only: le_bytes.simps) simp
  then have "le_bytes 32 9 = 9 # le_bytes 31 0"
    by simp
  then show ?thesis
    by (simp add: arr32_bytes_def to_be_bytes_def)
qed

lemma sample_dh: "\<exists>shared. diffie_hellman sample_deps (keypair_of sample_deps (next_secret sample_client_world))
    (kp_public (keypair_of sample_deps (next_secret sample_client_world))) = Inr shared"
  unfolding sample_secret using sample_shared_not_zero by (simp add: keypair_of_def sample_deps_def)

lemma sample_exchange:
  "\<exists>k wc' ws'. client_authenticated_session_key_exchange sample_deps kx_wire (AuthPsk 5) (sample_client_world\<lparr>inp := out ws'\<rparr>) = (Inr k, wc') \<and>
    server_authenticated_session_key_exchange sample_deps kx_wire (AuthPsk 5) (sample_client_world\<lparr>inp := out wc'\<rparr>) = (Inr k, ws')"
proof -
  obtain shared where dh: "diffie_hellman sample_deps (keypair_of sample_deps (next_secret sample_client_world))
      (kp_public (keypair_of sample_deps (next_secret sample_client_world))) = Inr shared"
    using sample_dh by blast
  have "faults sample_client_world = []" "out sample_client_world = []"
    by (simp_all add: sample_client_world_def empty_world_def)
  then show ?thesis
    by (intro honest_exchange [OF kx_wire_ok sample_x25519_ok _ _ _ _ kx_frames dh]) simp_all
qed

section \<open>Properties\<close>

text \<open>C2: when both ends of one connection complete the authenticated key exchange, they hold the same
  session key and the same pair of public keys.\<close>

theorem session_keys_agree:
  assumes "wire_ok C" and "x25519_ok D" and "faults wc = []" and "faults ws = []" and "out wc = []" and "out ws = []"
    and "client_authenticated_session_key_exchange D C psk wc = (Inr kc, wc')"
    and "server_authenticated_session_key_exchange D C psk' ws = (Inr ks, ws')"
    and "inp ws = out wc'" and "inp wc = out ws'"
  shows "kc = ks \<and> (\<exists>c s u v. client_unauthenticated_session_key_exchange D C wc = (Inr (kc, c, s), u) \<and>
    server_unauthenticated_session_key_exchange D C ws = (Inr (ks, c, s), v))"
  using keys_agree [OF assms] .

theorem session_keys_agree_witness:
  "\<exists>k wc' (ws' :: world) c s u v. client_authenticated_session_key_exchange sample_deps kx_wire (AuthPsk 5) (sample_client_world\<lparr>inp := out ws'\<rparr>) = (Inr k, wc') \<and>
    client_unauthenticated_session_key_exchange sample_deps kx_wire (sample_client_world\<lparr>inp := out ws'\<rparr>) = (Inr (k, c, s), u) \<and>
    server_unauthenticated_session_key_exchange sample_deps kx_wire (sample_client_world\<lparr>inp := out wc'\<rparr>) = (Inr (k, c, s), v)"
proof -
  have w: "faults (sample_client_world\<lparr>inp := i\<rparr>) = []" "out (sample_client_world\<lparr>inp := i\<rparr>) = []" for i
    by (simp_all add: sample_client_world_def empty_world_def)
  obtain k wc' ws' where c: "client_authenticated_session_key_exchange sample_deps kx_wire (AuthPsk 5) (sample_client_world\<lparr>inp := out ws'\<rparr>) = (Inr k, wc')"
      and s: "server_authenticated_session_key_exchange sample_deps kx_wire (AuthPsk 5) (sample_client_world\<lparr>inp := out wc'\<rparr>) = (Inr k, ws')"
    using sample_exchange by blast
  have i: "inp (sample_client_world\<lparr>inp := b\<rparr>) = b" for b
    by simp
  from session_keys_agree [OF kx_wire_ok sample_x25519_ok w(1) w(1) w(2) w(2) c s i i] c show ?thesis
    by blast
qed



text \<open>C3: a man in the middle who exchanges the public keys but relays the proof of the client is
  detected: a server that accepts the proof has derived the client's session key from the same two
  public keys, or the two transcripts collide under the keyed hash.\<close>

theorem relayed_proof_binds_keys:
  assumes "client_unauthenticated_session_key_exchange D C wc = (Inr (kc, cc, sc), wc1)"
    and "server_unauthenticated_session_key_exchange D C ws = (Inr (ks, cs, ss), ws1)"
    and "receive_auth_proof C ws1 = (Inr (derive_auth_tag D (AuthPsk psk) kc cc sc Client), ws2)"
    and "server_authenticated_session_key_exchange D C (AuthPsk psk) ws = (Inr k, ws')"
  shows "k = ks \<and> ((kc, cc, sc) = (ks, cs, ss) \<or>
    collision (blake3_keyed D psk) (auth_transcript kc cc sc Client) (auth_transcript ks cs ss Client))"
proof -
  have "k = ks" and tags: "derive_auth_tag D (AuthPsk psk) ks cs ss Client = derive_auth_tag D (AuthPsk psk) kc cc sc Client"
    using assms(2,3,4)
    by (auto simp: server_authenticated_session_key_exchange_def bindE_Inr verify_auth_tag_def tags_equal split: if_splits)
  then show ?thesis
    by (auto simp: collision_def auth_transcript_inj)
qed

theorem relayed_proof_binds_keys_witness:
  "\<exists>wc ws kc cc sc ks cs ss u v. client_unauthenticated_session_key_exchange sample_deps kx_wire wc = (Inr (kc, cc, sc), u) \<and>
     server_unauthenticated_session_key_exchange sample_deps kx_wire ws = (Inr (ks, cs, ss), v) \<and>
     ((kc, cc, sc) = (ks, cs, ss) \<or>
      collision (blake3_keyed sample_deps 5) (auth_transcript kc cc sc Client) (auth_transcript ks cs ss Client))"
proof -
  obtain k wc' ws' where c: "client_authenticated_session_key_exchange sample_deps kx_wire (AuthPsk 5) (sample_client_world\<lparr>inp := out ws'\<rparr>) = (Inr k, wc')"
      and s: "server_authenticated_session_key_exchange sample_deps kx_wire (AuthPsk 5) (sample_client_world\<lparr>inp := out wc'\<rparr>) = (Inr k, ws')"
    using sample_exchange by blast
  have w: "faults (sample_client_world\<lparr>inp := i\<rparr>) = []" for i
    by (simp add: sample_client_world_def empty_world_def)
  obtain cc sc u where cu: "client_unauthenticated_session_key_exchange sample_deps kx_wire (sample_client_world\<lparr>inp := out ws'\<rparr>) = (Inr (k, cc, sc), u)"
    using client_auth_Inr [OF c w] by metis
  obtain cs ss v v' where su: "server_unauthenticated_session_key_exchange sample_deps kx_wire (sample_client_world\<lparr>inp := out wc'\<rparr>) = (Inr (k, cs, ss), v)"
      and ra: "receive_auth_proof kx_wire v = (Inr (derive_auth_tag sample_deps (AuthPsk 5) k cs ss Client), v')"
    using server_auth_Inr [OF s w] by metis
  have o: "out (sample_client_world\<lparr>inp := i\<rparr>) = []" for i
    by (simp add: sample_client_world_def empty_world_def)
  have "(k, cc, sc) = (k, cs, ss)"
    using keys_agree [OF kx_wire_ok sample_x25519_ok w w o o c s] cu su by auto
  then have "receive_auth_proof kx_wire v = (Inr (derive_auth_tag sample_deps (AuthPsk 5) k cc sc Client), v')"
    using ra by simp
  from relayed_proof_binds_keys [OF cu su this s] cu su show ?thesis
    by blast
qed

lemma receive_hello_frame:
  "wire_ok C \<Longrightarrow> faults v = [] \<Longrightarrow> inp v = fr @ rest \<Longrightarrow> frame_of C (Hello i) fr \<Longrightarrow>
     receive_hello C v = (Inr i, v\<lparr>inp := rest\<rparr>)"
  by (simp add: receive_hello_def io_simps net_receive_frame expect_hello_def)

definition capability_verdict :: "u16 \<Rightarrow> string list \<Rightarrow> (network_error, unit) result" where
  "capability_verdict version features =
     (if version \<noteq> ETLE_WIRE_PROTOCOL_VERSION then Inl (UnsupportedProtocolVersion version ETLE_WIRE_PROTOCOL_VERSION)
      else case find (\<lambda>c. c \<notin> set features) required_capabilities of
          Some c \<Rightarrow> Inl (MissingPeerCapability c)
        | None \<Rightarrow> Inr ())"

lemma check_capabilities_find:
  "check_capabilities features rs = (case find (\<lambda>c. c \<notin> set features) rs of Some c \<Rightarrow> Inl (MissingPeerCapability c) | None \<Rightarrow> Inr ())"
  by (induction rs) auto

lemma receive_capabilities_frame:
  assumes "wire_ok C" and "faults v = []" and "inp v = fr @ rest" and "frame_of C (Capabilities version features) fr"
  shows "receive_and_validate_peer_capabilities C v = (capability_verdict version features, v\<lparr>inp := rest\<rparr>)"
  using net_receive_frame [OF assms]
  by (simp add: receive_and_validate_peer_capabilities_def io_simps capability_verdict_def check_capabilities_find)

text \<open>The protocol handshake succeeds exactly with a peer of the same protocol version that has
  both required capabilities, on either side; otherwise it reports the version, or the first
  capability that is missing.\<close>

theorem handshake_checks_capabilities:
  assumes "wire_ok C" and "faults w = []" and "inp w = f1 @ f2 @ rest"
    and "frame_of C (Hello remote) f1" and "frame_of C (Capabilities version features) f2"
    and "frame_of C (Hello me) g1" and "frame_of C (Capabilities ETLE_WIRE_PROTOCOL_VERSION local_capabilities) g2"
  shows "fst (client_protocol_handshake C me w) = and_then (capability_verdict version features) (\<lambda>_. Inr remote) \<and>
    fst (server_protocol_handshake C me w) = and_then (capability_verdict version features) (\<lambda>_. Inr remote)"
proof -
  let ?v = "capability_verdict version features"
  have "receive_hello C w = (Inr remote, w\<lparr>inp := f2 @ rest\<rparr>)"
    using receive_hello_frame [OF assms(1,2) _ assms(4)] assms(3) by simp
  moreover have "net_send C (Hello me) (w\<lparr>inp := f2 @ rest\<rparr>) = (Inr (), w\<lparr>inp := f2 @ rest, out := out w @ g1\<rparr>)"
    using net_send_frame [of "w\<lparr>inp := f2 @ rest\<rparr>", OF _ assms(6)] assms(2) by simp
  moreover have "receive_and_validate_peer_capabilities C (w\<lparr>inp := f2 @ rest, out := out w @ g1\<rparr>) =
      (?v, w\<lparr>inp := rest, out := out w @ g1\<rparr>)"
    using receive_capabilities_frame [OF assms(1) _ _ assms(5), of "w\<lparr>inp := f2 @ rest, out := out w @ g1\<rparr>"] assms(2) by simp
  moreover have "send_local_capabilities C (w\<lparr>inp := rest, out := out w @ g1\<rparr>) = (Inr (), w\<lparr>inp := rest, out := out w @ g1 @ g2\<rparr>)"
    using net_send_frame [of "w\<lparr>inp := rest, out := out w @ g1\<rparr>", OF _ assms(7)] assms(2) by (simp add: send_local_capabilities_def)
  ultimately have server: "fst (server_protocol_handshake C me w) = and_then ?v (\<lambda>_. Inr remote)"
    by (cases ?v) (simp_all add: server_protocol_handshake_def server_hello_handshake_def
        exchange_capabilities_as_server_def io_simps)
  have "net_send C (Hello me) w = (Inr (), w\<lparr>out := out w @ g1\<rparr>)"
    using net_send_frame [OF assms(2,6)] .
  moreover have "receive_hello C (w\<lparr>out := out w @ g1\<rparr>) = (Inr remote, w\<lparr>inp := f2 @ rest, out := out w @ g1\<rparr>)"
    using receive_hello_frame [OF assms(1) _ _ assms(4), of "w\<lparr>out := out w @ g1\<rparr>"] assms(2,3) by simp
  moreover have "send_local_capabilities C (w\<lparr>inp := f2 @ rest, out := out w @ g1\<rparr>) =
      (Inr (), w\<lparr>inp := f2 @ rest, out := out w @ g1 @ g2\<rparr>)"
    using net_send_frame [of "w\<lparr>inp := f2 @ rest, out := out w @ g1\<rparr>", OF _ assms(7)] assms(2) by (simp add: send_local_capabilities_def)
  moreover have "receive_and_validate_peer_capabilities C (w\<lparr>inp := f2 @ rest, out := out w @ g1 @ g2\<rparr>) =
      (?v, w\<lparr>inp := rest, out := out w @ g1 @ g2\<rparr>)"
    using receive_capabilities_frame [OF assms(1) _ _ assms(5), of "w\<lparr>inp := f2 @ rest, out := out w @ g1 @ g2\<rparr>"] assms(2) by simp
  ultimately have "fst (client_protocol_handshake C me w) = and_then ?v (\<lambda>_. Inr remote)"
    by (cases ?v) (simp_all add: client_protocol_handshake_def client_hello_handshake_def
        exchange_capabilities_as_client_def io_simps)
  with server show ?thesis by blast
qed

definition hello_wire :: "wire_message bincode" where
  "hello_wire = \<lparr>encode_to_vec = (\<lambda>m. if m = Hello ''a'' then Some [0]
       else if m = Capabilities ETLE_WIRE_PROTOCOL_VERSION local_capabilities then Some [1] else None),
     decode_from_slice = (\<lambda>bs. case bs of [] \<Rightarrow> None | b # _ \<Rightarrow> if b = 0 then Some (Hello ''a'', 1)
       else if b = 1 then Some (Capabilities ETLE_WIRE_PROTOCOL_VERSION local_capabilities, 1) else None)\<rparr>"

theorem handshake_checks_capabilities_witness:
  "fst (client_protocol_handshake hello_wire ''a'' (empty_world\<lparr>inp := [0, 0, 0, 1, 0] @ [0, 0, 0, 1, 1]\<rparr>)) = Inr ''a''"
proof -
  have ok: "wire_ok hello_wire"
    by (auto simp: wire_ok_def bincode_ok_def hello_wire_def split: if_splits)
  have f: "frame_len_bytes 1 = [0, 0, 0, 1]"
  proof -
    have "le_bytes (Suc (Suc (Suc (Suc 0)))) 1 = [1, 0, 0, 0]"
      by (simp only: le_bytes.simps) simp
    moreover have "(4 :: nat) = Suc (Suc (Suc (Suc 0)))"
      by simp
    ultimately have "le_bytes 4 1 = [1, 0, 0, 0]"
      by (simp only:)
    then show ?thesis
      by (simp add: frame_len_bytes_def to_be_bytes_def)
  qed
  have fr: "frame_of hello_wire (Hello ''a'') [0, 0, 0, 1, 0]"
      "frame_of hello_wire (Capabilities ETLE_WIRE_PROTOCOL_VERSION local_capabilities) [0, 0, 0, 1, 1]"
    using f by (auto simp: frame_of_def payload_of_def hello_wire_def MAX_FRAME_SIZE_def)
  have v: "capability_verdict ETLE_WIRE_PROTOCOL_VERSION local_capabilities = Inr ()"
    by (simp add: capability_verdict_def local_capabilities_def required_capabilities_def)
  have "faults (empty_world\<lparr>inp := [0, 0, 0, 1, 0] @ [0, 0, 0, 1, 1]\<rparr>) = []"
      "inp (empty_world\<lparr>inp := [0, 0, 0, 1, 0] @ [0, 0, 0, 1, 1]\<rparr>) = [0, 0, 0, 1, 0] @ [0, 0, 0, 1, 1] @ []"
    by (simp_all add: empty_world_def)
  from handshake_checks_capabilities [OF ok this fr fr] v show ?thesis by simp
qed

end
