(* ===== verification/Etle_Transfer.thy ===== *)
theory Etle_Transfer
  imports Etle_Library Etle_Handshake
begin

text \<open>
  What the three directions of a transfer share: \<open>src/network/transfer/options.rs\<close> and \<open>jobs.rs\<close>,
  \<open>src/network/tcp.rs\<close>, and from \<open>download.rs\<close> and \<open>seed.rs\<close> the conversions between manifests and
  descriptors, the chunks a share has on disk, and the names of temporary files. Log lines and the
  progress events of \<open>progress.rs\<close> do not influence a transfer and are left out of the operations;
  the log level is kept in the options.
\<close>

section \<open>Options\<close>

definition DEFAULT_REQUEST_WINDOW :: nat where
  "DEFAULT_REQUEST_WINDOW = 16"

datatype transfer_log_level = Quiet | Normal | Verbose

definition is_normal :: "transfer_log_level \<Rightarrow> bool" where
  "is_normal l \<longleftrightarrow> l = Normal \<or> l = Verbose"

definition is_verbose :: "transfer_log_level \<Rightarrow> bool" where
  "is_verbose l \<longleftrightarrow> l = Verbose"

record serve_file_options =
  so_seeder_id :: string
  so_log_level :: transfer_log_level
  so_library_root :: "path option"
  so_auth_psk :: "auth_psk option"

definition serve_options_new :: "string \<Rightarrow> transfer_log_level \<Rightarrow> serve_file_options" where
  "serve_options_new seeder_id log_level =
     \<lparr>so_seeder_id = seeder_id, so_log_level = log_level, so_library_root = None, so_auth_psk = None\<rparr>"

definition serve_with_library_root :: "path \<Rightarrow> serve_file_options \<Rightarrow> serve_file_options" where
  "serve_with_library_root root opts = opts\<lparr>so_library_root := Some root\<rparr>"

definition serve_with_auth_psk :: "auth_psk \<Rightarrow> serve_file_options \<Rightarrow> serve_file_options" where
  "serve_with_auth_psk psk opts = opts\<lparr>so_auth_psk := Some psk\<rparr>"

record download_file_options =
  do_peer_id :: string
  do_log_level :: transfer_log_level
  do_library_root :: "path option"
  do_resume :: bool
  do_requested_share_id :: "share_id option"
  do_request_window :: nat
  do_auth_psk :: "auth_psk option"

definition download_options_new :: "string \<Rightarrow> transfer_log_level \<Rightarrow> download_file_options" where
  "download_options_new peer_id log_level =
     \<lparr>do_peer_id = peer_id, do_log_level = log_level, do_library_root = None, do_resume = True,
      do_requested_share_id = None, do_request_window = DEFAULT_REQUEST_WINDOW, do_auth_psk = None\<rparr>"

definition with_library_root :: "path \<Rightarrow> download_file_options \<Rightarrow> download_file_options" where
  "with_library_root root opts = opts\<lparr>do_library_root := Some root\<rparr>"

definition with_resume :: "bool \<Rightarrow> download_file_options \<Rightarrow> download_file_options" where
  "with_resume resume opts = opts\<lparr>do_resume := resume\<rparr>"

definition with_requested_share_id :: "share_id option \<Rightarrow> download_file_options \<Rightarrow> download_file_options" where
  "with_requested_share_id sid opts = opts\<lparr>do_requested_share_id := sid\<rparr>"

definition with_request_window :: "nat \<Rightarrow> download_file_options \<Rightarrow> download_file_options" where
  "with_request_window window opts = opts\<lparr>do_request_window := window\<rparr>"

definition with_auth_psk :: "auth_psk \<Rightarrow> download_file_options \<Rightarrow> download_file_options" where
  "with_auth_psk psk opts = opts\<lparr>do_auth_psk := Some psk\<rparr>"

text \<open>
  What a transfer takes from its surroundings: the primitives, the serializers, the text of an error
  (\<open>to_string\<close>), the result of \<open>thread::available_parallelism\<close>, and the order in which the results of
  the decryption threads arrive.
\<close>

record transfer_env =
  e_deps :: deps
  e_wire :: "wire_message bincode"
  e_lib :: library_codecs
  e_show_error :: "network_error \<Rightarrow> string"
  e_cores :: "nat option"
  e_arrival :: "chunk_meta list \<Rightarrow> chunk_meta list"

section \<open>The registry of jobs\<close>

type_synonym job_registry = "share_id \<rightharpoonup> string"

definition register :: "share_id \<Rightarrow> string \<Rightarrow> job_registry \<Rightarrow> job_registry" where
  "register sid job_id jobs = jobs(sid \<mapsto> job_id)"

definition unregister :: "share_id \<Rightarrow> string \<Rightarrow> job_registry \<Rightarrow> job_registry" where
  "unregister sid job_id jobs = (if jobs sid = Some job_id then jobs(sid := None) else jobs)"

definition active_job_id :: "share_id \<Rightarrow> job_registry \<Rightarrow> string option" where
  "active_job_id sid jobs = jobs sid"

text \<open>A job that ends late does not take the entry of the job that replaced it.\<close>

lemma stale_unregister:
  "j \<noteq> k \<Longrightarrow> active_job_id sid (unregister sid j (register sid k jobs)) = Some k"
  by (simp add: active_job_id_def unregister_def register_def)

lemma unregister_register:
  "active_job_id sid (unregister sid j (register sid j jobs)) = None"
  "t \<noteq> sid \<Longrightarrow> active_job_id t (unregister sid i (register sid j jobs)) = active_job_id t jobs"
  by (auto simp: active_job_id_def unregister_def register_def)

section \<open>Connections\<close>

definition connect_peer :: "string \<Rightarrow> (network_error, unit) io" where
  "connect_peer addr = intoE NetIo stream_connect"

text \<open>The next connection a listener gets; without one, the listener has failed.\<close>

definition accept_peer :: "(network_error, unit) io" where
  "accept_peer = intoE NetIo stream_connect"

definition client_transfer_session_key_exchange :: "transfer_env \<Rightarrow> auth_psk option \<Rightarrow> (network_error, symmetric_key) io" where
  "client_transfer_session_key_exchange E psk = (case psk of
      Some k \<Rightarrow> client_authenticated_session_key_exchange (e_deps E) (e_wire E) k
    | None \<Rightarrow> client_session_key_exchange (e_deps E) (e_wire E))"

definition server_transfer_session_key_exchange :: "transfer_env \<Rightarrow> auth_psk option \<Rightarrow> (network_error, symmetric_key) io" where
  "server_transfer_session_key_exchange E psk = (case psk of
      Some k \<Rightarrow> server_authenticated_session_key_exchange (e_deps E) (e_wire E) k
    | None \<Rightarrow> server_session_key_exchange (e_deps E) (e_wire E))"

fun is_peer_closed_protocol_error :: "protocol_error \<Rightarrow> bool" where
  "is_peer_closed_protocol_error (ProtoIo e) \<longleftrightarrow> e = UnexpectedEof \<or> e = ConnectionReset \<or> e = BrokenPipe"
| "is_peer_closed_protocol_error _ \<longleftrightarrow> False"

section \<open>Manifests and descriptors\<close>

definition descriptor_from_manifest :: "deps \<Rightarrow> manifest \<Rightarrow> etle_descriptor" where
  "descriptor_from_manifest D m = descriptor_new D (m_file_name m) (m_file_size m) (m_chunk_size m)
     [\<lparr>fe_path = m_file_name m, fe_size = m_file_size m, fe_offset = 0, fe_hash = m_file_id m\<rparr>] (m_chunks m)"

definition manifest_from_descriptor :: "etle_descriptor \<Rightarrow> (network_error, manifest) result" where
  "manifest_from_descriptor d =
     (if length (d_files d) \<noteq> 1 then Inl (UnsupportedMultiFileDescriptor (length (d_files d)))
      else let f = d_files d ! 0 in
        Inr \<lparr>m_file_id = fe_hash f, m_file_name = fe_path f, m_file_size = d_total_size d,
             m_chunk_size = d_chunk_size d, m_chunks = d_chunks d\<rparr>)"

definition manifests_are_compatible :: "manifest \<Rightarrow> manifest \<Rightarrow> bool" where
  "manifests_are_compatible l r \<longleftrightarrow> m_file_id l = m_file_id r \<and> m_file_name l = m_file_name r \<and>
     m_file_size l = m_file_size r \<and> m_chunk_size l = m_chunk_size r \<and> m_chunks l = m_chunks r"

lemma manifest_descriptor_manifest: "manifest_from_descriptor (descriptor_from_manifest D m) = Inr m"
  by (cases m) (simp add: manifest_from_descriptor_def descriptor_from_manifest_def descriptor_new_def Let_def)

lemma manifests_are_compatible_iff: "manifests_are_compatible l r \<longleftrightarrow> l = r"
  by (cases l; cases r) (auto simp: manifests_are_compatible_def)

section \<open>Chunks on disk\<close>

lemma find_by_key: "distinct (map f xs) \<Longrightarrow> x \<in> set xs \<Longrightarrow> find (\<lambda>y. f y = f x) xs = Some x"
  by (induction xs) auto

text \<open>One iteration of the loop of \<open>available_chunk_indexes\<close>: every failure is a \<open>continue\<close>.\<close>

definition available_chunk :: "deps \<Rightarrow> library_paths \<Rightarrow> chunk_meta \<Rightarrow> (network_error, u32 list) io" where
  "available_chunk D P meta =
     bindE (has_chunk P (cm_index meta)) (\<lambda>present.
     if \<not> present then returnE []
     else bindE (tryE (read_chunk P (cm_index meta) (cm_encrypted_size meta))) (\<lambda>r.
       returnE (case r of
           Inl _ \<Rightarrow> []
         | Inr chunk \<Rightarrow> if hash_chunk D (ec_data chunk) = cm_hash meta then [cm_index meta] else [])))"

definition available_chunk_indexes :: "deps \<Rightarrow> library_paths \<Rightarrow> etle_descriptor \<Rightarrow> (network_error, u32 list) io" where
  "available_chunk_indexes D P d = bindE (mapE (available_chunk D P) (d_chunks d)) (\<lambda>found. returnE (concat found))"

text \<open>The chunk described by \<open>meta\<close> is stored under \<open>P\<close> with the right size and hash.\<close>

definition chunk_verified :: "deps \<Rightarrow> library_paths \<Rightarrow> world \<Rightarrow> chunk_meta \<Rightarrow> bool" where
  "chunk_verified D P w meta \<longleftrightarrow> (\<exists>bs. lookup w (chunk_path P (cm_index meta)) = Some (FileN bs) \<and>
     (of_nat (length bs) :: u64) = cm_encrypted_size meta \<and> hash_chunk D bs = cm_hash meta)"

definition staging_timestamp :: "('e, nat) io" where
  "staging_timestamp = clock_now"

lemma tryE_Inr [simp]: "tryE m w = (Inr r, w') \<longleftrightarrow> m w = (r, w')"
  by (auto simp: tryE_def split: prod.splits)

lemma frame_reads [intro!, simp]:
  "preserves (frame F) (read_chunk P i sz)" "preserves (frame F) (has_chunk P i :: ('e, bool) io)"
  by (auto simp: read_chunk_def has_chunk_def intro!: frame.pres_bind)

lemma frame_available_chunk [intro!, simp]: "preserves (frame F) (available_chunk D P meta)"
  unfolding available_chunk_def by (auto intro!: frame.pres_bind frame.pres_try split: sum.splits)

lemma frame_available [intro!, simp]: "preserves (frame F) (available_chunk_indexes D P d)"
  by (auto simp: available_chunk_indexes_def intro!: frame.pres_bind)

lemma read_chunk_Inr:
  assumes "read_chunk P i sz w = (Inr c, w')"
  obtains bs where "lookup w (chunk_path P i) = Some (FileN bs)" "(of_nat (length bs) :: u64) = sz"
    "c = \<lparr>ec_index = i, ec_data = bs\<rparr>" "lookup w' = lookup w"
proof -
  from assms obtain bs w1 where "fs_read (chunk_path P i) w = (Inr bs, w1)" "(of_nat (length bs) :: u64) = sz"
      "c = \<lparr>ec_index = i, ec_data = bs\<rparr>" "w' = w1"
    by (auto simp: read_chunk_def bindE_Inr split: if_splits)
  with fs_read_Inr [of "chunk_path P i" w bs w1] frame_all_lookup [OF frame_read, of "chunk_path P i" w "Inr bs" w1] that
  show ?thesis by blast
qed

lemma read_chunk_nofault:
  "faults w = [] \<Longrightarrow> lookup w (chunk_path P i) = Some (FileN bs) \<Longrightarrow> read_chunk P i sz w =
     (if (of_nat (length bs) :: u64) = sz then Inr \<lparr>ec_index = i, ec_data = bs\<rparr>
      else Inl (ChunkSizeMismatch i sz (of_nat (length bs))), w)"
  by (simp add: read_chunk_def io_simps fs_read_nofault)

lemma available_chunk_sound:
  assumes "available_chunk D P meta w = (Inr is, w')"
  shows "is \<noteq> [] \<longrightarrow> is = [cm_index meta] \<and> chunk_verified D P w meta"
proof
  assume ne: "is \<noteq> []"
  with assms obtain b w1 r where h: "(has_chunk P (cm_index meta) :: (network_error, bool) io) w = (Inr b, w1)"
      and r: "read_chunk P (cm_index meta) (cm_encrypted_size meta) w1 = (r, w')"
      and i: "(case r of Inl _ \<Rightarrow> [] | Inr c \<Rightarrow> if hash_chunk D (ec_data c) = cm_hash meta then [cm_index meta] else []) = is"
    by (auto simp: available_chunk_def bindE_Inr split: if_split_asm)
  then obtain c where c: "r = Inr c" and i: "is = [cm_index meta]" "hash_chunk D (ec_data c) = cm_hash meta"
    using ne by (auto split: sum.splits if_splits)
  note r = r [unfolded c]
  have "lookup w1 = lookup w"
    using frame_all_lookup [OF frame_reads(2) h] .
  then show "is = [cm_index meta] \<and> chunk_verified D P w meta"
    using i by (rule_tac read_chunk_Inr [OF r]) (auto simp: chunk_verified_def)
qed

lemma available_chunk_calm:
  assumes "faults w = []"
  shows "available_chunk D P meta w = (Inr (if chunk_verified D P w meta then [cm_index meta] else []), w)"
proof (cases "lookup w (chunk_path P (cm_index meta))")
  case None
  with assms show ?thesis
    by (simp add: available_chunk_def has_chunk_def io_simps path_is_file_nofault is_file_def chunk_verified_def)
next
  case (Some n)
  with assms show ?thesis
    by (cases n) (auto simp: available_chunk_def has_chunk_def io_simps path_is_file_nofault is_file_def
        chunk_verified_def read_chunk_nofault)
qed

lemma mapE_available_sound:
  "mapE (available_chunk D P) metas w = (Inr found, w') \<Longrightarrow> i \<in> set (concat found) \<Longrightarrow>
     \<exists>meta\<in>set metas. cm_index meta = i \<and> chunk_verified D P w meta"
proof (induction metas arbitrary: w found)
  case (Cons m ms)
  then obtain ys w1 zs where a: "available_chunk D P m w = (Inr ys, w1)"
      and r: "mapE (available_chunk D P) ms w1 = (Inr zs, w')" and f: "found = ys # zs"
    by (auto simp: bindE_Inr)
  have same: "lookup w1 = lookup w"
    using frame_all_lookup [OF frame_available_chunk a] .
  show ?case
  proof (cases "i \<in> set ys")
    case True
    then show ?thesis
      using available_chunk_sound [OF a] by auto
  next
    case False
    then have "\<exists>meta\<in>set ms. cm_index meta = i \<and> chunk_verified D P w1 meta"
      using Cons.IH [OF r] Cons.prems(2) f by simp
    then show ?thesis
      by (auto simp: chunk_verified_def same)
  qed
qed simp

lemma mapE_available_calm:
  "faults w = [] \<Longrightarrow> mapE (available_chunk D P) metas w =
     (Inr (map (\<lambda>m. if chunk_verified D P w m then [cm_index m] else []) metas), w)"
  by (induction metas) (simp_all add: io_simps available_chunk_calm)

lemma concat_filter: "concat (map (\<lambda>x. if p x then [f x] else []) xs) = map f (filter p xs)"
  by (induction xs) simp_all

lemma available_sound:
  "available_chunk_indexes D P d w = (Inr is, w') \<Longrightarrow> i \<in> set is \<Longrightarrow>
     \<exists>meta\<in>set (d_chunks d). cm_index meta = i \<and> chunk_verified D P w meta"
  by (auto simp: available_chunk_indexes_def bindE_Inr simp del: set_concat dest!: mapE_available_sound)

lemma available_calm:
  "faults w = [] \<Longrightarrow> available_chunk_indexes D P d w =
     (Inr (map cm_index (filter (chunk_verified D P w) (d_chunks d))), w)"
  by (simp add: available_chunk_indexes_def io_simps mapE_available_calm concat_filter)

section \<open>Input that is left alone\<close>

definition same_input :: "world \<Rightarrow> world \<Rightarrow> bool" where
  "same_input w w' \<longleftrightarrow> inp w' = inp w"

interpretation same_input: world_rel same_input
  by unfold_locales (simp_all add: same_input_def)

lemma same_input_calls [intro!, simp]:
  "preserves same_input (stream_write_all bs)" "preserves same_input stream_flush" "preserves same_input (fs_read p)"
  "preserves same_input (fs_open p)" "preserves same_input (file_read n rem)" "preserves same_input (file_metadata_len h)"
  unfolding stream_write_all_def stream_flush_def fs_read_def fs_open_def file_read_def file_metadata_len_def
  by (rule same_input.pres_syscall; auto simp: same_input_def no_effect_def Let_def split: option.splits node.splits)+

lemma same_inputD: "preserves same_input m \<Longrightarrow> m w = (r, w') \<Longrightarrow> inp w' = inp w"
  unfolding preserves_def same_input_def by (metis snd_conv)

lemma same_input_send [intro!, simp]: "preserves same_input (send C m)"
  by (cases m) (auto simp: send_def send_encoded_frame_def send_raw_chunk_frame_def
      intro!: same_input.pres_bind same_input.pres_into)

context world_order
begin

lemma pres_send_file_loop:
  assumes rd: "\<And>n rem. preserves R (file_read n rem)" and wr: "\<And>bs. preserves R (stream_write_all bs)"
  shows "preserves R (send_file_loop rem)"
  unfolding preserves_def
proof (intro allI)
  fix w
  have step: "preserves R m \<Longrightarrow> m u = (r, v) \<Longrightarrow> R u v" for m :: "('x, 'y) io" and u r v
    unfolding preserves_def by (metis snd_conv)
  show "R w (snd (send_file_loop rem w))"
  proof (induction rem w rule: send_file_loop.induct)
    case (1 rem w)
    obtain r w1 where rd1: "file_read (64 * 1024) rem w = (r, w1)" by fastforce
    note w1 = step [OF rd rd1]
    show ?case
    proof (cases "\<exists>got rem'. r = Inr (got, rem') \<and> got \<noteq> []")
      case False
      with rd1 w1 show ?thesis
        by (subst send_file_loop.simps) (auto split: sum.splits)
    next
      case True
      then obtain got rem' where r: "r = Inr (got, rem')" "got \<noteq> []" by blast
      obtain r2 w2 where wr1: "intoE ProtoIo (stream_write_all got) w1 = (r2, w2)" by fastforce
      note w2 = R_trans [OF w1 step [OF pres_into [OF wr] wr1]]
      show ?thesis
      proof (cases r2)
        case (Inl e)
        with rd1 r wr1 w2 show ?thesis
          by (subst send_file_loop.simps) simp
      next
        case (Inr u)
        then have "send_file_loop rem w = send_file_loop rem' w2"
          using rd1 r wr1 by (subst send_file_loop.simps) (simp add: io_simps)
        then show ?thesis
          using 1 [OF rd1 [symmetric] r(1) refl r(2) wr1 [symmetric] Inr] R_trans [OF w2] by simp
      qed
    qed
  qed
qed

lemma pres_send_chunk_file:
  assumes "\<And>n rem. preserves R (file_read n rem)" and "\<And>bs. preserves R (stream_write_all bs)"
    and "\<And>q. preserves R (fs_open q)" and "\<And>h. preserves R (file_metadata_len h)" and "preserves R stream_flush"
  shows "preserves R (send_chunk_file i p sz)"
  unfolding send_chunk_file_def using assms
  by (auto intro!: pres_bind pres_into pres_send_file_loop split: if_splits)

end

lemma metadata_len_pres [intro!, simp]:
  "preserves (frame F) (file_metadata_len h)" "preserves stays_calm (file_metadata_len h)"
  unfolding file_metadata_len_def
  by (rule frame.pres_syscall calm_syscall; simp add: frame_def no_effect_def stays_calm_def)+

lemma send_chunk_file_pres [intro!, simp]:
  "preserves same_input (send_chunk_file i p sz)" "preserves (frame F) (send_chunk_file i p sz)"
  "preserves stays_calm (send_chunk_file i p sz)"
  by (intro same_input.pres_send_chunk_file frame.pres_send_chunk_file calm.pres_send_chunk_file; simp)+

lemma send_pres [intro!, simp]: "preserves (frame F) (send C m)"
  by (cases m) (auto simp: send_def send_encoded_frame_def send_raw_chunk_frame_def
      intro!: frame.pres_bind frame.pres_into)

lemma receive_pres [intro!, simp]: "preserves (frame F) (receive C)"
  unfolding receive_def read_frame_len_def receive_raw_chunk_frame_after_tag_def
    receive_encoded_frame_after_first_byte_def Let_def
  by (auto intro!: frame.pres_bind frame.pres_into split: option.splits)

lemma net_pres [intro!, simp]:
  "preserves (frame F) (net_send C m)" "preserves (frame F) (net_receive C)" "preserves same_input (net_send C m)"
  "preserves stays_calm (net_send C m)" "preserves stays_calm (net_receive C)"
  by (simp_all add: net_send_def net_receive_def frame.pres_into same_input.pres_into calm.pres_into)

text \<open>Without failures a stored chunk is sent, and sent completely.\<close>

lemma stream_calls_calm:
  "faults w = [] \<Longrightarrow> stream_write_all bs w = (Inr (), w\<lparr>out := out w @ bs\<rparr>)"
  "faults w = [] \<Longrightarrow> stream_flush w = (Inr (), w)"
  "faults w = [] \<Longrightarrow> file_metadata_len h w = (Inr (of_nat (length h)), w)"
  by (simp_all add: stream_write_all_def stream_flush_def file_metadata_len_def)

lemma send_file_loop_calm: "faults w = [] \<Longrightarrow> \<exists>w'. send_file_loop rem w = (Inr (), w')"
proof (induction "length rem" arbitrary: rem w rule: less_induct)
  case less
  obtain got rem' w1 where rd: "file_read (64 * 1024) rem w = (Inr (got, rem'), w1)"
    using less.prems by (simp add: file_read_def Let_def)
  have w1: "faults w1 = []"
    by (rule preserves_calmD [OF calm_calls(3) rd less.prems])
  show ?case
  proof (cases "got = []")
    case True
    with rd show ?thesis by (simp add: send_file_loop_step io_simps)
  next
    case False
    have "\<exists>w'. send_file_loop rem' (w1\<lparr>out := out w1 @ got\<rparr>) = (Inr (), w')"
      using less.hyps [of rem' "w1\<lparr>out := out w1 @ got\<rparr>"] file_read_decreases [OF rd] False w1 by simp
    with rd False w1 show ?thesis
      by (auto simp: send_file_loop_step [of rem w] io_simps stream_calls_calm)
  qed
qed

lemma send_chunk_file_calm:
  assumes "faults w = []" and "lookup w p = Some (FileN data)" and "(of_nat (length data) :: u64) = sz"
    and "RAW_CHUNK_HEADER_SIZE + length data \<le> MAX_FRAME_SIZE"
  shows "\<exists>w' fr. send_chunk_file i p sz w = (Inr (), w') \<and> out w' = out w @ fr \<and> frame_of C (Chunk i data) fr"
proof -
  let ?payload = "RAW_CHUNK_FRAME_TAG # to_be_bytes i @ data"
  let ?n = "RAW_CHUNK_HEADER_SIZE + length data"
  let ?w1 = "w\<lparr>out := out w @ frame_len_bytes ?n @ [RAW_CHUNK_FRAME_TAG] @ to_be_bytes i\<rparr>"
  have sz: "unat sz = length data"
    using assms(3,4) by (auto simp: unat_of_nat take_bit_eq_mod MAX_FRAME_SIZE_def)
  have len: "length ?payload = ?n"
    by (simp add: RAW_CHUNK_HEADER_SIZE_def)
  have ok: "checked_add_usize RAW_CHUNK_HEADER_SIZE (length data) = Some ?n" "validate_frame_len ?n = Inr ()"
    using assms(4) by (simp_all add: checked_add_usize_def usize_max_def MAX_FRAME_SIZE_def RAW_CHUNK_HEADER_SIZE_def)
  obtain w2 where loop: "send_file_loop data ?w1 = (Inr (), w2)"
    using send_file_loop_calm [of ?w1 data] assms(1) by auto
  then have w2: "faults w2 = []" "out w2 = out ?w1 @ data"
    using preserves_calmD [OF calm.pres_send_file_loop loop] assms(1) send_file_loop_Inr [OF loop] by simp_all
  have "send_chunk_file i p sz w = (Inr (), w2)"
    using assms(1,2,3) ok loop w2(1)
    by (simp add: send_chunk_file_def io_simps fs_open_def fs_read_nofault stream_calls_calm sz del: validate_frame_len_Inr)
  moreover have "frame_of C (Chunk i data) (frame_len_bytes ?n @ ?payload)"
    unfolding frame_of_def using assms(4) len by (intro exI [of _ ?payload]) (simp add: payload_of_def)
  ultimately show ?thesis
    using w2(2) by simp
qed

lemma receive_consumes: "receive C w = (Inr m, w') \<Longrightarrow> length (inp w') < length (inp w)"
proof -
  assume "receive C w = (Inr m, w')"
  then obtain len w1 f w2 where r: "read_frame_len w = (Inr len, w1)" "stream_read_exact 1 w1 = (Inr f, w2)"
      and rest: "(if hd f = RAW_CHUNK_FRAME_TAG then receive_raw_chunk_frame_after_tag len
        else receive_encoded_frame_after_first_byte C len (hd f)) w2 = (Inr m, w')"
    by (auto simp: receive_def bindE_Inr)
  have "length (inp w1) \<le> length (inp w)"
    using read_frame_len_at_most [OF r(1)] by (auto simp: reads_at_most_def)
  moreover have "length (inp w2) < length (inp w1)"
    using read_exact_Inr [OF r(2)] by auto
  moreover have "length (inp w') \<le> length (inp w2)"
  proof (cases "hd f = RAW_CHUNK_FRAME_TAG")
    case True
    with rest show ?thesis
      using raw_after_tag_at_most [of len w2 "Inr m" w'] by (auto simp: reads_at_most_def)
  next
    case False
    with rest show ?thesis
      using encoded_after_first_at_most [of C len "hd f" w2 "Inr m" w'] by (auto simp: reads_at_most_def)
  qed
  ultimately show ?thesis by linarith
qed

section \<open>Sequences of messages\<close>

text \<open>The bytes \<open>bs\<close> are the frames of the messages \<open>ms\<close>, one after the other.\<close>

definition frames_of :: "wire_message bincode \<Rightarrow> wire_message list \<Rightarrow> bytes \<Rightarrow> bool" where
  "frames_of C ms bs \<longleftrightarrow> (\<exists>frs. list_all2 (frame_of C) ms frs \<and> bs = concat frs)"

lemma frames_of_Nil [simp]: "frames_of C [] bs \<longleftrightarrow> bs = []"
  by (auto simp: frames_of_def)

lemma frames_of_Cons: "frames_of C (m # ms) bs \<longleftrightarrow> (\<exists>f g. bs = f @ g \<and> frame_of C m f \<and> frames_of C ms g)"
  by (fastforce simp: frames_of_def list_all2_Cons1)

lemma receive_frames:
  "wire_ok C \<Longrightarrow> frames_of C ms bs \<Longrightarrow> faults v = [] \<Longrightarrow> inp v = bs @ rest \<Longrightarrow>
     mapE (\<lambda>_. net_receive C) ms v = (Inr ms, v\<lparr>inp := rest\<rparr>)"
proof (induction ms arbitrary: bs v)
  case (Cons m ms)
  then obtain f g where f: "bs = f @ g" "frame_of C m f" "frames_of C ms g"
    by (auto simp: frames_of_Cons)
  have "net_receive C v = (Inr m, v\<lparr>inp := g @ rest\<rparr>)"
    using net_receive_frame [OF Cons.prems(1,3) _ f(2)] Cons.prems(4) f(1) by simp
  moreover have "mapE (\<lambda>_. net_receive C) ms (v\<lparr>inp := g @ rest\<rparr>) = (Inr ms, v\<lparr>inp := rest\<rparr>)"
    using Cons.IH [OF Cons.prems(1) f(3)] Cons.prems(3) by simp
  ultimately show ?case by (simp add: io_simps)
qed simp

section \<open>Sample surroundings\<close>

text \<open>A serializer for finitely many messages, by their number.\<close>

definition table_position :: "wire_message list \<Rightarrow> wire_message \<Rightarrow> nat" where
  "table_position ms m = length (takeWhile (\<lambda>x. x \<noteq> m) ms)"

definition table_wire :: "wire_message list \<Rightarrow> wire_message bincode" where
  "table_wire ms = \<lparr>encode_to_vec = (\<lambda>m. if m \<in> set ms \<and> length ms < 256
       then Some [variant_index m, of_nat (table_position ms m)] else None),
     decode_from_slice = (\<lambda>bs. case bs of
         v # i # _ \<Rightarrow> if unat i < length ms then Some (ms ! unat i, 2) else None
       | _ \<Rightarrow> None)\<rparr>"

lemma table_position_nth: "m \<in> set ms \<Longrightarrow> table_position ms m < length ms \<and> ms ! table_position ms m = m"
  unfolding table_position_def by (induction ms) auto

lemma table_wire_ok: "wire_ok (table_wire ms)"
proof -
  have "unat (of_nat (table_position ms m) :: byte) = table_position ms m" if "m \<in> set ms" "length ms < 256" for m
    using table_position_nth [OF that(1)] that(2) by (simp add: unat_of_nat take_bit_eq_mod)
  then show ?thesis
    using table_position_nth by (auto simp: wire_ok_def bincode_ok_def table_wire_def split: if_splits)
qed

definition table_bytes :: "wire_message list \<Rightarrow> wire_message \<Rightarrow> bytes" where
  "table_bytes ms m = frame_len_bytes 2 @ [variant_index m, of_nat (table_position ms m)]"

definition table_stream :: "wire_message list \<Rightarrow> wire_message list \<Rightarrow> bytes" where
  "table_stream ms ks = concat (map (table_bytes ms) ks)"

lemma table_frame:
  "m \<in> set ms \<Longrightarrow> length ms < 256 \<Longrightarrow> \<forall>i d. m \<noteq> Chunk i d \<Longrightarrow> frame_of (table_wire ms) m (table_bytes ms m)"
  unfolding frame_of_def table_bytes_def by (cases m) (auto simp: payload_of_def table_wire_def MAX_FRAME_SIZE_def numeral_2_eq_2)

lemma table_frames:
  "set ks \<subseteq> set ms \<Longrightarrow> length ms < 256 \<Longrightarrow> \<forall>m \<in> set ks. \<forall>i d. m \<noteq> Chunk i d \<Longrightarrow>
     frames_of (table_wire ms) ks (table_stream ms ks)"
  unfolding frames_of_def table_stream_def
  by (rule exI [of _ "map (table_bytes ms) ks"]) (auto simp: list_all2_map2 list_all2_same intro!: table_frame)

definition sample_env :: "wire_message list \<Rightarrow> library_codecs \<Rightarrow> transfer_env" where
  "sample_env ms L = \<lparr>e_deps = sample_deps, e_wire = table_wire ms, e_lib = L, e_show_error = (\<lambda>_. ''error''),
     e_cores = None, e_arrival = id\<rparr>"

text \<open>A share of one file with one byte, as it lies in a library.\<close>

definition sample_cipher :: bytes where
  "sample_cipher = 7 # sample_tag 9 0 (build_chunk_aad (hash_file_id sample_deps [7]) 0 1)"

definition sample_seed_meta :: chunk_meta where
  "sample_seed_meta = \<lparr>cm_index = 0, cm_plain_size = 1, cm_encrypted_size = 17, cm_nonce = Nonce 0,
     cm_hash = hash_chunk sample_deps sample_cipher\<rparr>"

definition sample_seed_manifest :: manifest where
  "sample_seed_manifest = \<lparr>m_file_id = hash_file_id sample_deps [7], m_file_name = ''f'', m_file_size = 1,
     m_chunk_size = 4, m_chunks = [sample_seed_meta]\<rparr>"

definition sample_seed_descriptor :: etle_descriptor where
  "sample_seed_descriptor = descriptor_from_manifest sample_deps sample_seed_manifest"

definition sample_seed_secret :: etle_secret where
  "sample_seed_secret = \<lparr>es_share_id = d_share_id sample_seed_descriptor, es_file_key = SymmetricKey 9\<rparr>"

definition sample_seed_codecs :: library_codecs where
  "sample_seed_codecs = \<lparr>lc_descriptor = single_bincode sample_seed_descriptor,
     lc_secret = single_bincode sample_seed_secret, lc_states = sample_codecs\<rparr>"

definition sample_seed_paths :: library_paths where
  "sample_seed_paths = for_share [''r''] (d_share_id sample_seed_descriptor)"

definition sample_seed_world :: world where
  "sample_seed_world = empty_world\<lparr>nodes := [(descriptor_path sample_seed_paths, FileN [1]),
     (secret_path sample_seed_paths, FileN [1]), (chunk_path sample_seed_paths 0, FileN sample_cipher)]\<rparr>"

lemma length_sample_cipher [simp]: "length sample_cipher = 17"
  by (simp add: sample_cipher_def sample_tag_def)

lemma share_path_lengths [simp]:
  "length (descriptor_path P) = length (share_dir P) + 1" "length (secret_path P) = length (share_dir P) + 1"
  "length (chunk_path P i) = length (share_dir P) + 2"
  by (simp_all add: path_defs)

lemma share_paths_differ [simp]:
  "descriptor_path P \<noteq> secret_path P" "secret_path P \<noteq> descriptor_path P"
  "descriptor_path P \<noteq> chunk_path P i" "chunk_path P i \<noteq> descriptor_path P"
  "secret_path P \<noteq> chunk_path P i" "chunk_path P i \<noteq> secret_path P"
  using share_path_lengths [of P] by (auto simp: path_defs)

lemma sample_seed_files:
  "faults sample_seed_world = []" "out sample_seed_world = []"
  "lookup sample_seed_world (descriptor_path sample_seed_paths) = Some (FileN [1])"
  "lookup sample_seed_world (secret_path sample_seed_paths) = Some (FileN [1])"
  "lookup sample_seed_world (chunk_path sample_seed_paths 0) = Some (FileN sample_cipher)"
  by (simp_all add: sample_seed_world_def empty_world_def lookup_def)

lemma sample_seed_descriptor_facts [simp]:
  "lp_share_id sample_seed_paths = d_share_id sample_seed_descriptor" "d_chunks sample_seed_descriptor = [sample_seed_meta]"
  "manifest_from_descriptor sample_seed_descriptor = Inr sample_seed_manifest"
  by (simp_all add: sample_seed_paths_def for_share_def sample_seed_descriptor_def manifest_descriptor_manifest)
    (simp add: descriptor_from_manifest_def descriptor_new_def sample_seed_manifest_def)

lemma sample_seed_verified:
  "lookup w = lookup sample_seed_world \<Longrightarrow> chunk_verified sample_deps sample_seed_paths w sample_seed_meta"
  by (simp add: chunk_verified_def sample_seed_meta_def sample_seed_files)

end
