(* ===== verification/Etle_Reconstruct.thy ===== *)
theory Etle_Reconstruct
  imports Etle_Transfer "HOL-Library.Multiset"
begin

text \<open>
  The end of a download in \<open>src/network/transfer/download.rs\<close>: the chunks in the library are decrypted
  and written to the output file in the order of the manifest, by one thread or by several. In the
  parallel version the decryption threads take the chunks from a queue and send their results through
  a channel; the order in which the results arrive is the parameter \<open>e_arrival\<close>, of which only that it
  is a permutation may be assumed. Writing through the \<open>BufWriter\<close> is writing to the file.
\<close>

section \<open>Operations\<close>

record decrypted_chunk =
  dc_index :: u32
  dc_data :: bytes

definition decrypt_library_chunk :: "deps \<Rightarrow> library_paths \<Rightarrow> file_id \<Rightarrow> symmetric_key \<Rightarrow> chunk_meta \<Rightarrow> (network_error, decrypted_chunk) io" where
  "decrypt_library_chunk D P fid key meta =
     bindE (intoE NetFile (read_chunk P (cm_index meta) (cm_encrypted_size meta))) (\<lambda>chunk.
     if hash_chunk D (ec_data chunk) \<noteq> cm_hash meta then throwE (NetFile (ChunkHashMismatch (cm_index meta)))
     else bindE (liftE (map_err NetCrypto (decrypt_chunk D key (cm_nonce meta) (ec_data chunk)
            (build_chunk_aad fid (cm_index meta) (cm_plain_size meta))))) (\<lambda>data.
       if (of_nat (length data) :: u64) \<noteq> cm_plain_size meta
       then throwE (NetFile (ChunkSizeMismatch (cm_index meta) (cm_plain_size meta) (of_nat (length data))))
       else returnE \<lparr>dc_index = cm_index meta, dc_data = data\<rparr>))"

definition prepare_output_file_parent :: "path \<Rightarrow> (network_error, unit) io" where
  "prepare_output_file_parent output_path =
     (if butlast output_path \<noteq> [] then intoE NetIo (fs_create_dir_all (butlast output_path)) else returnE ())"

definition fs_flush :: "path \<Rightarrow> (io_error, unit) io" where
  "fs_flush p = syscall no_effect (\<lambda>w. (Inr (), w))"

definition finalize_streamed_output :: "deps \<Rightarrow> path \<Rightarrow> bytes \<Rightarrow> file_id \<Rightarrow> (network_error, unit) io" where
  "finalize_streamed_output D output hashed expected =
     bindE (intoE NetIo (fs_flush output)) (\<lambda>_.
     if FileId (blake3 D hashed) \<noteq> expected then throwE (NetFile FinalHashMismatch) else returnE ())"

definition default_decrypt_worker_count :: "nat option \<Rightarrow> nat \<Rightarrow> nat" where
  "default_decrypt_worker_count cores total_chunks =
     (if total_chunks \<le> 1 then 1
      else min (min (case cores of Some n \<Rightarrow> n | None \<Rightarrow> 2) 4) total_chunks)"

primrec write_decrypted :: "deps \<Rightarrow> library_paths \<Rightarrow> file_id \<Rightarrow> symmetric_key \<Rightarrow> path \<Rightarrow> bytes \<Rightarrow> chunk_meta list \<Rightarrow> (network_error, bytes) io" where
  "write_decrypted D P fid key output hashed [] = returnE hashed"
| "write_decrypted D P fid key output hashed (meta # metas) =
     bindE (decrypt_library_chunk D P fid key meta) (\<lambda>decrypted.
     bindE (intoE NetIo (fs_write_all output (dc_data decrypted))) (\<lambda>_.
     write_decrypted D P fid key output (hashed @ dc_data decrypted) metas))"

definition decrypt_library_chunks_to_file_sequential :: "deps \<Rightarrow> library_paths \<Rightarrow> manifest \<Rightarrow> symmetric_key \<Rightarrow> path \<Rightarrow> (network_error, unit) io" where
  "decrypt_library_chunks_to_file_sequential D P m key output_path =
     bindE (prepare_output_file_parent output_path) (\<lambda>_.
     bindE (intoE NetIo (fs_create output_path)) (\<lambda>_.
     bindE (write_decrypted D P (m_file_id m) key output_path [] (m_chunks m)) (\<lambda>hashed.
     finalize_streamed_output D output_path hashed (m_file_id m))))"

text \<open>
  The receiving thread: the indexes still to be written, the decrypted chunks that wait for their
  turn, what was hashed, and the first error. \<open>drain\<close> is the inner \<open>while\<close> loop.
\<close>

record reassembly =
  ra_expected :: "u32 list"
  ra_pending :: "(u32 \<times> bytes) list"
  ra_hashed :: bytes
  ra_error :: "network_error option"

primrec drain :: "path \<Rightarrow> (u32 \<times> bytes) list \<Rightarrow> bytes \<Rightarrow> u32 list \<Rightarrow> (network_error, u32 list \<times> (u32 \<times> bytes) list \<times> bytes) io" where
  "drain output pending hashed [] = returnE ([], pending, hashed)"
| "drain output pending hashed (i # is) = (case map_of pending i of
      None \<Rightarrow> returnE (i # is, pending, hashed)
    | Some data \<Rightarrow>
        bindE (intoE NetIo (fs_write_all output data)) (\<lambda>_.
        drain output (AList.delete i pending) (hashed @ data) is))"

definition receive_result :: "path \<Rightarrow> reassembly \<Rightarrow> (network_error, decrypted_chunk) result \<Rightarrow> (network_error, reassembly) io" where
  "receive_result output st r = (case r of
      Inl error \<Rightarrow> returnE (if ra_error st = None then st\<lparr>ra_error := Some error\<rparr> else st)
    | Inr decrypted \<Rightarrow>
        if ra_error st \<noteq> None then returnE st
        else bindE (drain output (AList.update (dc_index decrypted) (dc_data decrypted) (ra_pending st)) (ra_hashed st) (ra_expected st))
          (\<lambda>(expected, pending, hashed). returnE (st\<lparr>ra_expected := expected, ra_pending := pending, ra_hashed := hashed\<rparr>)))"

primrec receive_results :: "deps \<Rightarrow> library_paths \<Rightarrow> file_id \<Rightarrow> symmetric_key \<Rightarrow> path \<Rightarrow> reassembly \<Rightarrow> chunk_meta list \<Rightarrow> (network_error, reassembly) io" where
  "receive_results D P fid key output st [] = returnE st"
| "receive_results D P fid key output st (meta # metas) =
     bindE (tryE (decrypt_library_chunk D P fid key meta)) (\<lambda>r.
     bindE (receive_result output st r) (\<lambda>st'.
     receive_results D P fid key output st' metas))"

definition decrypt_library_chunks_to_file_parallel ::
    "deps \<Rightarrow> (chunk_meta list \<Rightarrow> chunk_meta list) \<Rightarrow> library_paths \<Rightarrow> manifest \<Rightarrow> symmetric_key \<Rightarrow> path \<Rightarrow> (network_error, unit) io" where
  "decrypt_library_chunks_to_file_parallel D arrival P m key output_path =
     bindE (prepare_output_file_parent output_path) (\<lambda>_.
     bindE (intoE NetIo (fs_create output_path)) (\<lambda>_.
     bindE (receive_results D P (m_file_id m) key output_path
       \<lparr>ra_expected = map cm_index (m_chunks m), ra_pending = [], ra_hashed = [], ra_error = None\<rparr> (arrival (m_chunks m))) (\<lambda>st.
     case ra_error st of
       Some error \<Rightarrow> throwE error
     | None \<Rightarrow>
         if ra_pending st \<noteq> [] then throwE (PeerError ''parallel decrypt finished with unwritten chunks'')
         else finalize_streamed_output D output_path (ra_hashed st) (m_file_id m))))"

definition decrypt_library_chunks_to_file :: "transfer_env \<Rightarrow> library_paths \<Rightarrow> manifest \<Rightarrow> symmetric_key \<Rightarrow> path \<Rightarrow> (network_error, unit) io" where
  "decrypt_library_chunks_to_file E P m key output_path =
     (if default_decrypt_worker_count (e_cores E) (length (m_chunks m)) \<le> 1
      then decrypt_library_chunks_to_file_sequential (e_deps E) P m key output_path
      else decrypt_library_chunks_to_file_parallel (e_deps E) (e_arrival E) P m key output_path)"

section \<open>Decrypting one chunk\<close>

text \<open>The plain bytes of a chunk, as the files of the library determine them.\<close>

definition plain_of :: "deps \<Rightarrow> library_paths \<Rightarrow> file_id \<Rightarrow> symmetric_key \<Rightarrow> world \<Rightarrow> chunk_meta \<Rightarrow> bytes option" where
  "plain_of D P fid key w meta = (case lookup w (chunk_path P (cm_index meta)) of
      Some (FileN bs) \<Rightarrow>
        if (of_nat (length bs) :: u64) = cm_encrypted_size meta \<and> hash_chunk D bs = cm_hash meta
        then (case decrypt_chunk D key (cm_nonce meta) bs (build_chunk_aad fid (cm_index meta) (cm_plain_size meta)) of
            Inr data \<Rightarrow> if (of_nat (length data) :: u64) = cm_plain_size meta then Some data else None
          | Inl _ \<Rightarrow> None)
        else None
    | _ \<Rightarrow> None)"

lemma plain_of_lookup: "lookup w' (chunk_path P (cm_index m)) = lookup w (chunk_path P (cm_index m)) \<Longrightarrow>
  plain_of D P fid key w' m = plain_of D P fid key w m"
  by (simp add: plain_of_def)

lemma decrypt_library_chunk_Inr:
  assumes "decrypt_library_chunk D P fid key meta w = (Inr d, w')"
  shows "plain_of D P fid key w meta = Some (dc_data d)" "dc_index d = cm_index meta"
proof -
  from assms obtain c w1 where rd: "read_chunk P (cm_index meta) (cm_encrypted_size meta) w = (Inr c, w1)"
      and h: "hash_chunk D (ec_data c) = cm_hash meta" "dc_index d = cm_index meta"
        "decrypt_chunk D key (cm_nonce meta) (ec_data c) (build_chunk_aad fid (cm_index meta) (cm_plain_size meta)) = Inr (dc_data d)"
        "(of_nat (length (dc_data d)) :: u64) = cm_plain_size meta"
    by (auto simp: decrypt_library_chunk_def bindE_Inr split: if_split_asm)
  from rd show "plain_of D P fid key w meta = Some (dc_data d)"
    by (rule read_chunk_Inr) (use h in \<open>simp add: plain_of_def\<close>)
  show "dc_index d = cm_index meta"
    by (rule h(2))
qed

lemma decrypt_library_chunk_calm:
  assumes "faults w = []" and "plain_of D P fid key w meta = Some data"
  shows "decrypt_library_chunk D P fid key meta w = (Inr \<lparr>dc_index = cm_index meta, dc_data = data\<rparr>, w)"
  using assms by (auto simp: decrypt_library_chunk_def plain_of_def io_simps read_chunk_nofault
      split: option.splits node.splits if_splits sum.splits)

lemma decrypt_library_chunk_pres [intro!, simp]: "preserves (frame F) (decrypt_library_chunk D P fid key meta)"
  unfolding decrypt_library_chunk_def by (auto intro!: frame.pres_bind frame.pres_into)

lemma decrypt_library_chunk_lookup: "decrypt_library_chunk D P fid key meta w = (r, w') \<Longrightarrow> lookup w' = lookup w"
  by (rule frame_all_lookup [OF decrypt_library_chunk_pres])

lemma frame_flush [intro!, simp]: "preserves (frame F) (fs_flush p)" "preserves stays_calm (fs_flush p)"
  unfolding fs_flush_def
  by (rule frame.pres_syscall calm_syscall; simp add: frame_def no_effect_def stays_calm_def)+

section \<open>What a successful run has written\<close>

text \<open>The chunk files under \<open>P\<close> that matter for \<open>metas\<close> are not the output file.\<close>

definition apart :: "library_paths \<Rightarrow> path \<Rightarrow> chunk_meta list \<Rightarrow> bool" where
  "apart P output metas \<longleftrightarrow> (\<forall>m \<in> set metas. chunk_path P (cm_index m) \<noteq> output)"

lemma apart_simps [simp]:
  "apart P output []" "apart P output (m # ms) \<longleftrightarrow> chunk_path P (cm_index m) \<noteq> output \<and> apart P output ms"
  by (simp_all add: apart_def)

lemma append_output:
  assumes "fs_write_all output data w = (Inr (), w')" and "lookup w output = Some (FileN old)"
  shows "lookup w' q = (if q = output then Some (FileN (old @ data)) else lookup w q)"
  using fs_write_all_Inr [OF assms(1)] preserves_frameD [OF frame_write_all [of "\<lambda>q. q = output"] assms(1)] assms(2) by auto

lemma plain_of_apart:
  assumes "\<And>q. q \<noteq> output \<Longrightarrow> lookup w' q = lookup w q" and "apart P output metas" and "m \<in> set metas"
  shows "plain_of D P fid key w' m = plain_of D P fid key w m"
  using assms by (intro plain_of_lookup) (auto simp: apart_def)

lemma write_decrypted_Inr:
  "write_decrypted D P fid key output hashed metas w = (Inr h, w') \<Longrightarrow> lookup w output = Some (FileN hashed) \<Longrightarrow> apart P output metas \<Longrightarrow>
    \<exists>datas. map (plain_of D P fid key w) metas = map Some datas \<and> h = hashed @ concat datas \<and>
      (\<forall>q. lookup w' q = (if q = output then Some (FileN h) else lookup w q))"
proof (induction metas arbitrary: hashed w)
  case Nil
  then show ?case by auto
next
  case (Cons m ms)
  then obtain d w1 w2 where dl: "decrypt_library_chunk D P fid key m w = (Inr d, w1)"
      and wr: "fs_write_all output (dc_data d) w1 = (Inr (), w2)"
      and rest: "write_decrypted D P fid key output (hashed @ dc_data d) ms w2 = (Inr h, w')"
    by (auto simp: bindE_Inr)
  have w1: "lookup w1 = lookup w"
    using decrypt_library_chunk_lookup [OF dl] .
  then have w2: "lookup w2 q = (if q = output then Some (FileN (hashed @ dc_data d)) else lookup w q)" for q
    using append_output [OF wr] Cons.prems(2) by simp
  then obtain datas where ds: "map (plain_of D P fid key w2) ms = map Some datas" "h = (hashed @ dc_data d) @ concat datas"
      "\<forall>q. lookup w' q = (if q = output then Some (FileN h) else lookup w2 q)"
    using Cons.IH [OF rest] Cons.prems(3) by auto
  have "map (plain_of D P fid key w2) ms = map (plain_of D P fid key w) ms"
    using w2 Cons.prems(3) by (auto intro!: plain_of_apart [of "output" _ w P ms])
  then show ?case
    using ds w2 decrypt_library_chunk_Inr [OF dl] by (intro exI [of _ "dc_data d # datas"]) auto
qed

text \<open>
  The state of the receiver after the chunks of the set \<open>A\<close> of indexes have arrived: a prefix of the
  order is written, the other arrived chunks wait, and the next expected one has not arrived.
\<close>

definition reassembly_inv :: "u32 list \<Rightarrow> (u32 \<Rightarrow> bytes) \<Rightarrow> u32 set \<Rightarrow> u32 list \<Rightarrow> (u32 \<times> bytes) list \<Rightarrow> bytes \<Rightarrow> bool" where
  "reassembly_inv order dat A expected pending hashed \<longleftrightarrow> (\<exists>written. order = written @ expected \<and>
     hashed = concat (map dat written) \<and> set written \<subseteq> A \<and>
     (\<forall>i. map_of pending i = (if i \<in> A \<and> i \<notin> set written then Some (dat i) else None)))"

definition waits :: "u32 set \<Rightarrow> u32 list \<Rightarrow> bool" where
  "waits A expected \<longleftrightarrow> expected = [] \<or> hd expected \<notin> A"

lemma drain_Inr:
  assumes "distinct order"
  shows "drain output pending hashed expected w = (Inr (expected', pending', hashed'), w') \<Longrightarrow>
    reassembly_inv order dat A expected pending hashed \<Longrightarrow> lookup w output = Some (FileN hashed) \<Longrightarrow>
    reassembly_inv order dat A expected' pending' hashed' \<and> waits A expected' \<and>
      (\<forall>q. lookup w' q = (if q = output then Some (FileN hashed') else lookup w q))"
proof (induction expected arbitrary: pending hashed w)
  case Nil
  then show ?case by (auto simp: waits_def)
next
  case (Cons i js)
  obtain written where wr: "order = written @ i # js" "hashed = concat (map dat written)" "set written \<subseteq> A"
      "\<And>j. map_of pending j = (if j \<in> A \<and> j \<notin> set written then Some (dat j) else None)"
    using Cons.prems(2) by (auto simp: reassembly_inv_def)
  have i: "i \<notin> set written"
    using assms wr(1) by auto
  show ?case
  proof (cases "i \<in> A")
    case False
    then show ?thesis
      using Cons.prems wr(4) [of i] by (auto simp: waits_def)
  next
    case True
    with wr(4) [of i] i Cons.prems(1) obtain w1 where w: "fs_write_all output (dat i) w = (Inr (), w1)"
        and rest: "drain output (AList.delete i pending) (hashed @ dat i) js w1 = (Inr (expected', pending', hashed'), w')"
      by (auto simp: bindE_Inr)
    have "reassembly_inv order dat A js (AList.delete i pending) (hashed @ dat i)"
      unfolding reassembly_inv_def using wr True i
      by (intro exI [of _ "written @ [i]"]) (auto simp: delete_conv')
    then show ?thesis
      using Cons.IH [OF rest] append_output [OF w Cons.prems(3)] by auto
  qed
qed

lemma receive_result_Inr:
  assumes "distinct order" and "receive_result output st (Inr d) w = (Inr st', w')" and "ra_error st = None"
    and "reassembly_inv order dat A (ra_expected st) (ra_pending st) (ra_hashed st)" and "dc_data d = dat (dc_index d)"
    and "dc_index d \<notin> A" and "lookup w output = Some (FileN (ra_hashed st))"
  shows "ra_error st' = None \<and> reassembly_inv order dat (insert (dc_index d) A) (ra_expected st') (ra_pending st') (ra_hashed st') \<and>
    waits (insert (dc_index d) A) (ra_expected st') \<and>
    (\<forall>q. lookup w' q = (if q = output then Some (FileN (ra_hashed st')) else lookup w q))"
proof -
  from assms(2,3) obtain ex pe ha where dr: "drain output (AList.update (dc_index d) (dc_data d) (ra_pending st)) (ra_hashed st) (ra_expected st) w =
      (Inr (ex, pe, ha), w')" and st': "st' = st\<lparr>ra_expected := ex, ra_pending := pe, ra_hashed := ha\<rparr>"
    by (auto simp: receive_result_def bindE_Inr)
  have "reassembly_inv order dat (insert (dc_index d) A) (ra_expected st) (AList.update (dc_index d) (dc_data d) (ra_pending st)) (ra_hashed st)"
    using assms(4,5,6) unfolding reassembly_inv_def by (auto simp: update_conv')
  from drain_Inr [OF assms(1) dr this assms(7)] st' assms(3) show ?thesis by simp
qed

lemma receive_results_error: "receive_results D P fid key output st metas w = (Inr st', w') \<Longrightarrow> ra_error st \<noteq> None \<Longrightarrow> ra_error st' \<noteq> None"
proof (induction metas arbitrary: st w)
  case (Cons m ms)
  then obtain r w1 st1 w2 where "receive_result output st r w1 = (Inr st1, w2)"
      and rest: "receive_results D P fid key output st1 ms w2 = (Inr st', w')"
    by (auto simp: bindE_Inr)
  then have "ra_error st1 \<noteq> None"
    using Cons.prems(2) by (cases r) (auto simp: receive_result_def)
  with Cons.IH [OF rest] show ?case by simp
qed simp

lemma receive_results_Inr:
  assumes "distinct order"
  shows "receive_results D P fid key output st metas w = (Inr st', w') \<Longrightarrow> ra_error st' = None \<Longrightarrow>
    reassembly_inv order dat A (ra_expected st) (ra_pending st) (ra_hashed st) \<Longrightarrow> waits A (ra_expected st) \<Longrightarrow>
    (\<And>m d. m \<in> set metas \<Longrightarrow> plain_of D P fid key w m = Some d \<Longrightarrow> dat (cm_index m) = d) \<Longrightarrow>
    distinct (map cm_index metas) \<Longrightarrow> A \<inter> set (map cm_index metas) = {} \<Longrightarrow>
    lookup w output = Some (FileN (ra_hashed st)) \<Longrightarrow> apart P output metas \<Longrightarrow>
    reassembly_inv order dat (A \<union> set (map cm_index metas)) (ra_expected st') (ra_pending st') (ra_hashed st') \<and>
    waits (A \<union> set (map cm_index metas)) (ra_expected st') \<and> (\<forall>m \<in> set metas. plain_of D P fid key w m = Some (dat (cm_index m))) \<and>
    (\<forall>q. lookup w' q = (if q = output then Some (FileN (ra_hashed st')) else lookup w q))"
proof (induction metas arbitrary: st w A)
  case Nil
  then show ?case by auto
next
  case (Cons m ms)
  from Cons.prems(1) obtain r w1 st1 w2 where dl: "decrypt_library_chunk D P fid key m w = (r, w1)"
      and rr: "receive_result output st r w1 = (Inr st1, w2)" and rest: "receive_results D P fid key output st1 ms w2 = (Inr st', w')"
    by (auto simp: bindE_Inr)
  have e1: "ra_error st1 = None"
    using receive_results_error [OF rest] Cons.prems(2) by blast
  then have e: "ra_error st = None"
    using rr by (cases r) (auto simp: receive_result_def split: if_splits)
  obtain d where r: "r = Inr d"
    using rr e e1 by (cases r) (auto simp: receive_result_def)
  note d = decrypt_library_chunk_Inr [OF dl [unfolded r]]
  have dd: "dc_data d = dat (dc_index d)"
    using Cons.prems(5) [OF _ d(1)] d(2) by simp
  have w1: "lookup w1 = lookup w"
    using decrypt_library_chunk_lookup [OF dl] .
  have st1: "reassembly_inv order dat (insert (cm_index m) A) (ra_expected st1) (ra_pending st1) (ra_hashed st1)"
      "waits (insert (cm_index m) A) (ra_expected st1)"
      "\<And>q. lookup w2 q = (if q = output then Some (FileN (ra_hashed st1)) else lookup w q)"
    using receive_result_Inr [OF assms rr [unfolded r] e Cons.prems(3) dd] d(2) Cons.prems(7,8) w1 by auto
  have same: "plain_of D P fid key w2 k = plain_of D P fid key w k" if "k \<in> set ms" for k
    using that st1(3) Cons.prems(9) by (auto intro!: plain_of_apart [of "output" _ w P ms])
  have A: "A \<union> set (map cm_index (m # ms)) = insert (cm_index m) A \<union> set (map cm_index ms)"
    by simp
  have ms: "dat (cm_index k) = d'" if "k \<in> set ms" "plain_of D P fid key w2 k = Some d'" for k d'
    using Cons.prems(5) [of k d'] that same by simp
  have ih: "reassembly_inv order dat (insert (cm_index m) A \<union> set (map cm_index ms)) (ra_expected st') (ra_pending st') (ra_hashed st')"
      "waits (insert (cm_index m) A \<union> set (map cm_index ms)) (ra_expected st')"
      "\<forall>m \<in> set ms. plain_of D P fid key w2 m = Some (dat (cm_index m))"
      "\<forall>q. lookup w' q = (if q = output then Some (FileN (ra_hashed st')) else lookup w2 q)"
    using Cons.IH [OF rest Cons.prems(2) st1(1,2) ms] Cons.prems(6,7,9) st1(3) by auto
  show ?case
    unfolding A using ih same st1(3) d dd by simp
qed

text \<open>Whatever the chunks and the manifest are, the output file holds what was hashed.\<close>

lemma write_decrypted_content:
  "write_decrypted D P fid key output hashed metas w = (Inr h, w') \<Longrightarrow> lookup w output = Some (FileN hashed) \<Longrightarrow>
     lookup w' output = Some (FileN h)"
proof (induction metas arbitrary: hashed w)
  case (Cons m ms)
  then obtain d w1 w2 where dl: "decrypt_library_chunk D P fid key m w = (Inr d, w1)"
      and wr: "fs_write_all output (dc_data d) w1 = (Inr (), w2)"
      and rest: "write_decrypted D P fid key output (hashed @ dc_data d) ms w2 = (Inr h, w')"
    by (auto simp: bindE_Inr)
  show ?case
    using Cons.IH [OF rest] append_output [OF wr] decrypt_library_chunk_lookup [OF dl] Cons.prems(2) by simp
qed simp

lemma drain_content:
  "drain output pending hashed expected w = (Inr (expected', pending', hashed'), w') \<Longrightarrow> lookup w output = Some (FileN hashed) \<Longrightarrow>
     lookup w' output = Some (FileN hashed')"
proof (induction expected arbitrary: pending hashed w)
  case (Cons i js)
  then show ?case
    using append_output by (fastforce simp: bindE_Inr split: option.split_asm)
qed simp

lemma receive_results_content:
  "receive_results D P fid key output st metas w = (Inr st', w') \<Longrightarrow> lookup w output = Some (FileN (ra_hashed st)) \<Longrightarrow>
     lookup w' output = Some (FileN (ra_hashed st'))"
proof (induction metas arbitrary: st w)
  case (Cons m ms)
  then obtain r w1 st1 w2 where dl: "decrypt_library_chunk D P fid key m w = (r, w1)"
      and rr: "receive_result output st r w1 = (Inr st1, w2)" and rest: "receive_results D P fid key output st1 ms w2 = (Inr st', w')"
    by (auto simp: bindE_Inr)
  have w1: "lookup w1 output = Some (FileN (ra_hashed st))"
    using Cons.prems(2) decrypt_library_chunk_lookup [OF dl] by simp
  have "lookup w2 output = Some (FileN (ra_hashed st1))"
  proof (cases r)
    case (Inl e)
    with rr w1 show ?thesis by (auto simp: receive_result_def split: if_splits)
  next
    case (Inr d)
    with rr w1 drain_content show ?thesis
      by (fastforce simp: receive_result_def bindE_Inr split: if_split_asm)
  qed
  then show ?case
    by (rule Cons.IH [OF rest])
qed simp

lemma drain_frame: "preserves (frame (\<lambda>q. q = output)) (drain output pending hashed expected)"
proof (induction expected arbitrary: pending hashed)
  case (Cons i js)
  then show ?case
    by (cases "map_of pending i") (auto intro!: frame.pres_bind frame.pres_into frame_write_all)
qed simp

lemma finalize_Inr:
  "finalize_streamed_output D output h fid w = (Inr (), w') \<Longrightarrow> FileId (blake3 D h) = fid \<and> lookup w' = lookup w"
  using frame_all_lookup [OF frame_flush(1), of "output" w "Inr ()" w']
  by (auto simp: finalize_streamed_output_def bindE_Inr split: if_split_asm)

lemma start_output:
  assumes "prepare_output_file_parent p w = (Inr (), w1)" and "fs_create p w1 = (Inr (), w2)"
  shows "lookup w2 p = Some (FileN [])" and "\<not> prefix q (butlast p) \<Longrightarrow> q \<noteq> p \<Longrightarrow> lookup w2 q = lookup w q"
    and "q \<noteq> p \<Longrightarrow> lookup w2 q = lookup w q \<or> lookup w q = None \<and> lookup w2 q = Some DirN"
proof -
  have w1: "lookup w1 q = (if lookup w q = None \<and> q \<noteq> [] \<and> prefix q (butlast p) \<and> butlast p \<noteq> [] then Some DirN else lookup w q)" for q
    using assms(1) by (auto simp: prepare_output_file_parent_def fs_create_dir_all_def syscall_def lookup_make_dirs
        split: if_split_asm list.splits option.splits prod.splits)
  have w2: "q \<noteq> p \<Longrightarrow> lookup w2 q = lookup w1 q" for q
    using preserves_frameD [OF frame_create [of "\<lambda>q. q = p"] assms(2)] by blast
  show "lookup w2 p = Some (FileN [])"
    using fs_create_Inr [OF assms(2)] by simp
  show "\<not> prefix q (butlast p) \<Longrightarrow> q \<noteq> p \<Longrightarrow> lookup w2 q = lookup w q"
    using w1 w2 by auto
  show "q \<noteq> p \<Longrightarrow> lookup w2 q = lookup w q \<or> lookup w q = None \<and> lookup w2 q = Some DirN"
    using w1 w2 by auto
qed

lemma plain_of_started:
  assumes "prepare_output_file_parent p w = (Inr (), w1)" and "fs_create p w1 = (Inr (), w2)" and "apart P p metas" and "m \<in> set metas"
  shows "plain_of D P fid key w2 m = plain_of D P fid key w m"
  using start_output(3) [OF assms(1,2), of "chunk_path P (cm_index m)"] assms(3,4) by (auto simp: apart_def plain_of_def)

lemma reconstruct_hash:
  assumes "decrypt_library_chunks_to_file E P m key p w = (Inr (), w')"
  shows "\<exists>bs. lookup w' p = Some (FileN bs) \<and> hash_file_id (e_deps E) bs = m_file_id m"
proof (cases "default_decrypt_worker_count (e_cores E) (length (m_chunks m)) \<le> 1")
  case True
  with assms obtain w1 w2 h w3 where pr: "prepare_output_file_parent p w = (Inr (), w1)" and cr: "fs_create p w1 = (Inr (), w2)"
      and wd: "write_decrypted (e_deps E) P (m_file_id m) key p [] (m_chunks m) w2 = (Inr h, w3)"
      and fi: "finalize_streamed_output (e_deps E) p h (m_file_id m) w3 = (Inr (), w')"
    by (auto simp: decrypt_library_chunks_to_file_def decrypt_library_chunks_to_file_sequential_def bindE_Inr)
  show ?thesis
    using write_decrypted_content [OF wd start_output(1) [OF pr cr]] finalize_Inr [OF fi] by (simp add: hash_file_id_def hash_bytes_def)
next
  case False
  let ?st = "\<lparr>ra_expected = map cm_index (m_chunks m), ra_pending = [], ra_hashed = [], ra_error = None\<rparr>"
  from False assms obtain w1 w2 st w3 where pr: "prepare_output_file_parent p w = (Inr (), w1)" and cr: "fs_create p w1 = (Inr (), w2)"
      and rr: "receive_results (e_deps E) P (m_file_id m) key p ?st (e_arrival E (m_chunks m)) w2 = (Inr st, w3)"
      and fi: "finalize_streamed_output (e_deps E) p (ra_hashed st) (m_file_id m) w3 = (Inr (), w')"
    unfolding decrypt_library_chunks_to_file_def decrypt_library_chunks_to_file_parallel_def
    by (auto simp: bindE_Inr split: if_split_asm option.split_asm)
  show ?thesis
    using receive_results_content [OF rr] start_output(1) [OF pr cr] finalize_Inr [OF fi] by (simp add: hash_file_id_def hash_bytes_def)
qed

section \<open>Every order of arrival gives the same file\<close>

lemma reassembly_complete:
  assumes "reassembly_inv order dat (set order) expected pending hashed" and "waits (set order) expected"
  shows "hashed = concat (map dat order) \<and> pending = []"
proof -
  from assms(1) obtain written where w: "order = written @ expected" "hashed = concat (map dat written)"
      and p: "\<And>i. map_of pending i = (if i \<in> set order \<and> i \<notin> set written then Some (dat i) else None)"
    by (auto simp: reassembly_inv_def)
  have "expected = []"
    using assms(2) w(1) by (cases expected) (auto simp: waits_def)
  then have "order = written" and "map_of pending i = None" for i
    using w(1) p by auto
  then have "order = written" and "map_of pending = Map.empty"
    by (blast, blast)
  then show ?thesis
    using w(2) by (simp only: map_of_eq_empty_iff)
qed

lemma drain_calm:
  "faults w = [] \<Longrightarrow> \<exists>r w'. drain output pending hashed expected w = (Inr r, w') \<and> faults w' = []"
proof (induction expected arbitrary: pending hashed w)
  case (Cons i js)
  show ?case
  proof (cases "map_of pending i")
    case None
    with Cons.prems show ?thesis by simp
  next
    case (Some data)
    have wr: "fs_write_all output data w = (Inr (), append_file output data w)"
      using Cons.prems by (simp add: fs_write_all_def)
    then have "faults (append_file output data w) = []"
      using preserves_calmD [OF calm_calls(9) wr Cons.prems] by simp
    from Cons.IH [OF this, of "AList.delete i pending" "hashed @ data"] Some wr show ?thesis
      by (simp add: io_simps)
  qed
qed simp

lemma receive_results_calm:
  "faults w = [] \<Longrightarrow> ra_error st = None \<Longrightarrow> lookup w output = Some (FileN (ra_hashed st)) \<Longrightarrow> apart P output metas \<Longrightarrow>
    (\<And>m. m \<in> set metas \<Longrightarrow> plain_of D P fid key w m \<noteq> None) \<Longrightarrow>
    \<exists>st' w'. receive_results D P fid key output st metas w = (Inr st', w') \<and> ra_error st' = None \<and> faults w' = []"
proof (induction metas arbitrary: st w)
  case (Cons m ms)
  obtain data where data: "plain_of D P fid key w m = Some data"
    using Cons.prems(5) [of m] by auto
  have dl: "decrypt_library_chunk D P fid key m w = (Inr \<lparr>dc_index = cm_index m, dc_data = data\<rparr>, w)"
    using decrypt_library_chunk_calm [OF Cons.prems(1) data] .
  obtain ex pe ha w1 where dr: "drain output (AList.update (cm_index m) data (ra_pending st)) (ra_hashed st) (ra_expected st) w = (Inr (ex, pe, ha), w1)"
      and w1: "faults w1 = []"
    using drain_calm [OF Cons.prems(1)] by (metis prod_cases3)
  have l1: "lookup w1 output = Some (FileN ha)"
    using drain_content [OF dr Cons.prems(3)] .
  have fr: "lookup w1 q = lookup w q" if "q \<noteq> output" for q
    using preserves_frameD [OF drain_frame dr] that by blast
  have "plain_of D P fid key w1 k = plain_of D P fid key w k" if "k \<in> set ms" for k
    using that fr Cons.prems(4) by (auto intro!: plain_of_apart [of "output" _ w P ms])
  then have "\<exists>st' w'. receive_results D P fid key output (st\<lparr>ra_expected := ex, ra_pending := pe, ra_hashed := ha\<rparr>) ms w1 = (Inr st', w') \<and>
      ra_error st' = None \<and> faults w' = []"
    using Cons.IH [of w1 "st\<lparr>ra_expected := ex, ra_pending := pe, ra_hashed := ha\<rparr>"] w1 l1 Cons.prems by simp
  then show ?case
    using dl dr Cons.prems(2) by (simp add: io_simps receive_result_def)
qed simp

lemma write_decrypted_calm:
  "faults w = [] \<Longrightarrow> lookup w output = Some (FileN hashed) \<Longrightarrow> apart P output metas \<Longrightarrow>
    (\<And>m. m \<in> set metas \<Longrightarrow> plain_of D P fid key w m \<noteq> None) \<Longrightarrow>
    \<exists>h w'. write_decrypted D P fid key output hashed metas w = (Inr h, w') \<and> faults w' = []"
proof (induction metas arbitrary: hashed w)
  case (Cons m ms)
  obtain data where data: "plain_of D P fid key w m = Some data"
    using Cons.prems(4) [of m] by auto
  have dl: "decrypt_library_chunk D P fid key m w = (Inr \<lparr>dc_index = cm_index m, dc_data = data\<rparr>, w)"
    using decrypt_library_chunk_calm [OF Cons.prems(1) data] .
  let ?w1 = "append_file output data w"
  have wr: "fs_write_all output data w = (Inr (), ?w1)"
    using Cons.prems(1) by (simp add: fs_write_all_def)
  have w1: "faults ?w1 = []" "lookup ?w1 output = Some (FileN (hashed @ data))" "q \<noteq> output \<Longrightarrow> lookup ?w1 q = lookup w q" for q
    using preserves_calmD [OF calm_calls(9) wr Cons.prems(1)] append_output [OF wr Cons.prems(2)] by simp_all
  have "plain_of D P fid key ?w1 k = plain_of D P fid key w k" if "k \<in> set ms" for k
    using that w1(3) Cons.prems(3) by (auto intro!: plain_of_apart [of "output" _ w P ms])
  then have "\<exists>h w'. write_decrypted D P fid key output (hashed @ data) ms ?w1 = (Inr h, w') \<and> faults w' = []"
    using Cons.IH [OF w1(1,2)] Cons.prems by simp
  then show ?case
    using dl wr by (simp add: io_simps)
qed simp

text \<open>A file can be created at \<open>p\<close>.\<close>

definition creatable :: "world \<Rightarrow> path \<Rightarrow> bool" where
  "creatable w p \<longleftrightarrow> p \<noteq> [] \<and> \<not> is_dir w p \<and> (\<forall>q. prefix q (butlast p) \<longrightarrow> \<not> is_file w q)"

lemma start_output_calm:
  assumes "faults w = []" and "creatable w p"
  shows "\<exists>w1 w2. prepare_output_file_parent p w = (Inr (), w1) \<and> fs_create p w1 = (Inr (), w2) \<and> faults w2 = []"
proof -
  have p: "\<not> prefix p (butlast p)" "p \<noteq> []"
    using not_prefix_butlast assms(2) by (auto simp: creatable_def)
  have nofile: "\<not> list_ex (is_file w) (butlast (prefixes (butlast p)))" "\<not> is_file w (butlast p)"
    using assms(2) by (auto simp: creatable_def list_ex_iff dest!: in_set_butlastD)
  show ?thesis
  proof (cases "butlast p = []")
    case True
    then have "is_dir w (butlast p)" "\<not> is_dir w p"
      using assms(2) by (simp_all add: is_dir_def creatable_def)
    then show ?thesis
      using True assms(1) by (auto simp: prepare_output_file_parent_def fs_create_def)
  next
    case False
    let ?w1 = "make_dirs (butlast p) w"
    have "is_dir ?w1 (butlast p)"
      using nofile(2) by (simp add: is_dir_make_dirs)
    moreover have "\<not> is_dir ?w1 p"
      using assms(2) p by (auto simp: is_dir_def creatable_def lookup_make_dirs)
    ultimately show ?thesis
      using False assms(1) nofile by (auto simp: prepare_output_file_parent_def fs_create_dir_all_def fs_create_def)
  qed
qed

text \<open>The contents the chunks of the library have together.\<close>

lemma reconstruct_parallel:
  assumes "faults w = []" and "creatable w p" and "distinct (map cm_index (m_chunks m))" and "apart P p (m_chunks m)"
    and "mset (arrival (m_chunks m)) = mset (m_chunks m)"
    and "map (plain_of D P (m_file_id m) key w) (m_chunks m) = map Some datas" and "hash_file_id D (concat datas) = m_file_id m"
  shows "\<exists>w'. decrypt_library_chunks_to_file_parallel D arrival P m key p w = (Inr (), w') \<and> lookup w' p = Some (FileN (concat datas))"
proof -
  let ?st = "\<lparr>ra_expected = map cm_index (m_chunks m), ra_pending = [], ra_hashed = [], ra_error = None\<rparr>"
  let ?arr = "arrival (m_chunks m)"
  define dat where "dat i = (case find (\<lambda>c. cm_index c = i) (m_chunks m) of Some c \<Rightarrow> the (plain_of D P (m_file_id m) key w c) | None \<Rightarrow> [])" for i
  have arr: "set ?arr = set (m_chunks m)" "distinct (map cm_index ?arr)" "apart P p ?arr"
    using assms(3,4,5) mset_eq_setD [OF assms(5)] mset_eq_imp_distinct_iff [of "map cm_index ?arr" "map cm_index (m_chunks m)"]
    by (auto simp: apart_def)
  have some: "plain_of D P (m_file_id m) key w c \<noteq> None" if "c \<in> set (m_chunks m)" for c
    using that assms(6) by (metis (no_types, lifting) in_set_conv_nth length_map nth_map option.distinct(1))
  obtain w1 w2 where pr: "prepare_output_file_parent p w = (Inr (), w1)" and cr: "fs_create p w1 = (Inr (), w2)" and w2: "faults w2 = []"
    using start_output_calm [OF assms(1,2)] by blast
  have same: "plain_of D P (m_file_id m) key w2 c = plain_of D P (m_file_id m) key w c" if "c \<in> set (m_chunks m)" for c
    using plain_of_started [OF pr cr assms(4) that] .
  have dat: "dat (cm_index c) = d" if "c \<in> set ?arr" "plain_of D P (m_file_id m) key w2 c = Some d" for c d
    using that same [of c] arr(1) find_by_key [OF assms(3), of c] by (simp add: dat_def)
  obtain st w3 where rr: "receive_results D P (m_file_id m) key p ?st ?arr w2 = (Inr st, w3)" "ra_error st = None" "faults w3 = []"
    using receive_results_calm [OF w2, of ?st p P ?arr D "m_file_id m" key] start_output(1) [OF pr cr] arr same some by auto
  have init: "reassembly_inv (map cm_index (m_chunks m)) dat {} (ra_expected ?st) (ra_pending ?st) (ra_hashed ?st)" "waits {} (ra_expected ?st)"
    by (simp_all add: reassembly_inv_def waits_def)
  have sets: "{} \<union> set (map cm_index ?arr) = set (map cm_index (m_chunks m))"
    using arr(1) by simp
  have fin: "reassembly_inv (map cm_index (m_chunks m)) dat (set (map cm_index (m_chunks m))) (ra_expected st) (ra_pending st) (ra_hashed st)"
      "waits (set (map cm_index (m_chunks m))) (ra_expected st)" "lookup w3 p = Some (FileN (ra_hashed st))"
    using receive_results_Inr [OF assms(3) rr(1,2) init dat arr(2)] start_output(1) [OF pr cr] arr(3) unfolding sets by auto
  have "map (dat \<circ> cm_index) (m_chunks m) = datas"
    using assms(6) find_by_key [OF assms(3)] by (auto simp: dat_def list_eq_iff_nth_eq)
  then have h: "ra_hashed st = concat datas" "ra_pending st = []"
    using reassembly_complete [OF fin(1,2)] by simp_all
  have "finalize_streamed_output D p (concat datas) (m_file_id m) w3 = (Inr (), w3)"
    using rr(3) assms(7) by (simp add: finalize_streamed_output_def io_simps fs_flush_def hash_file_id_def hash_bytes_def)
  then show ?thesis
    using pr cr rr h fin(3) by (simp add: decrypt_library_chunks_to_file_parallel_def io_simps)
qed

lemma reconstruct_sequential:
  assumes "faults w = []" and "creatable w p" and "apart P p (m_chunks m)"
    and "map (plain_of D P (m_file_id m) key w) (m_chunks m) = map Some datas" and "hash_file_id D (concat datas) = m_file_id m"
  shows "\<exists>w'. decrypt_library_chunks_to_file_sequential D P m key p w = (Inr (), w') \<and> lookup w' p = Some (FileN (concat datas))"
proof -
  obtain w1 w2 where pr: "prepare_output_file_parent p w = (Inr (), w1)" and cr: "fs_create p w1 = (Inr (), w2)" and w2: "faults w2 = []"
    using start_output_calm [OF assms(1,2)] by blast
  have same: "map (plain_of D P (m_file_id m) key w2) (m_chunks m) = map Some datas"
    unfolding assms(4) [symmetric] using plain_of_started [OF pr cr assms(3)] by (intro map_cong) auto
  then have some: "plain_of D P (m_file_id m) key w2 c \<noteq> None" if "c \<in> set (m_chunks m)" for c
    using that by (metis (no_types, lifting) in_set_conv_nth length_map nth_map option.distinct(1))
  obtain h w3 where wd: "write_decrypted D P (m_file_id m) key p [] (m_chunks m) w2 = (Inr h, w3)" and w3: "faults w3 = []"
    using write_decrypted_calm [OF w2 start_output(1) [OF pr cr] assms(3) some] by auto
  have h: "h = concat datas" "lookup w3 p = Some (FileN (concat datas))"
    using write_decrypted_Inr [OF wd start_output(1) [OF pr cr] assms(3)] same by (auto simp: inj_map_eq_map)
  have "finalize_streamed_output D p (concat datas) (m_file_id m) w3 = (Inr (), w3)"
    using w3 assms(5) by (simp add: finalize_streamed_output_def io_simps fs_flush_def hash_file_id_def hash_bytes_def)
  then show ?thesis
    using pr cr wd h by (simp add: decrypt_library_chunks_to_file_sequential_def io_simps)
qed

section \<open>Properties\<close>

text \<open>C17: when every chunk of the manifest lies in the library and nothing fails, the parallel
  reconstruction writes, in whatever order the results of the threads arrive, exactly the file that
  the sequential reconstruction writes: the plain chunks in the order of the manifest.\<close>

theorem parallel_reconstruction_equals_sequential:
  assumes "faults w = []" and "creatable w p" and "distinct (map cm_index (m_chunks m))" and "apart P p (m_chunks m)"
    and "mset (arrival (m_chunks m)) = mset (m_chunks m)"
    and "map (plain_of D P (m_file_id m) key w) (m_chunks m) = map Some datas" and "hash_file_id D (concat datas) = m_file_id m"
  shows "\<exists>ws wp. decrypt_library_chunks_to_file_sequential D P m key p w = (Inr (), ws) \<and>
    decrypt_library_chunks_to_file_parallel D arrival P m key p w = (Inr (), wp) \<and>
    lookup ws p = Some (FileN (concat datas)) \<and> lookup wp p = Some (FileN (concat datas))"
  using reconstruct_sequential [OF assms(1,2,4,6,7)] reconstruct_parallel [where arrival = arrival, OF assms] by blast

definition sample_chunk_cipher :: "u32 \<Rightarrow> byte \<Rightarrow> bytes" where
  "sample_chunk_cipher i b = b # sample_tag 9 0 (build_chunk_aad (hash_file_id sample_deps [7, 8]) i 1)"

definition sample_pair_meta :: "u32 \<Rightarrow> byte \<Rightarrow> chunk_meta" where
  "sample_pair_meta i b = \<lparr>cm_index = i, cm_plain_size = 1, cm_encrypted_size = 17, cm_nonce = Nonce 0,
     cm_hash = hash_chunk sample_deps (sample_chunk_cipher i b)\<rparr>"

definition sample_pair_manifest :: manifest where
  "sample_pair_manifest = \<lparr>m_file_id = hash_file_id sample_deps [7, 8], m_file_name = ''f'', m_file_size = 2,
     m_chunk_size = 1, m_chunks = [sample_pair_meta 0 7, sample_pair_meta 1 8]\<rparr>"

definition sample_pair_world :: world where
  "sample_pair_world = empty_world\<lparr>nodes := [(chunk_path sample_paths 0, FileN (sample_chunk_cipher 0 7)),
     (chunk_path sample_paths 1, FileN (sample_chunk_cipher 1 8))]\<rparr>"

lemma sample_pair_plain:
  "lookup w (chunk_path P i) = Some (FileN (sample_chunk_cipher i b)) \<Longrightarrow>
     plain_of sample_deps P (hash_file_id sample_deps [7, 8]) (SymmetricKey 9) w (sample_pair_meta i b) = Some [b]"
  by (simp add: plain_of_def sample_pair_meta_def sample_chunk_cipher_def sample_tag_def)
    (simp add: sample_deps_def sample_tag_def)

theorem parallel_reconstruction_equals_sequential_witness:
  "\<exists>wp. decrypt_library_chunks_to_file_parallel sample_deps rev sample_paths sample_pair_manifest (SymmetricKey 9) [''o''] sample_pair_world = (Inr (), wp) \<and>
     lookup wp [''o''] = Some (FileN [7, 8])"
proof -
  have w: "lookup sample_pair_world (chunk_path sample_paths 0) = Some (FileN (sample_chunk_cipher 0 7))"
      "lookup sample_pair_world (chunk_path sample_paths 1) = Some (FileN (sample_chunk_cipher 1 8))"
    by (simp_all add: sample_pair_world_def empty_world_def lookup_def)
  have neq: "chunk_path sample_paths i \<noteq> [''o'']" for i
    by (rule notI, drule arg_cong [of _ _ length]) (simp add: share_dir_def library_dir_def etle_dir_def sample_paths_def for_share_def)
  then have "faults sample_pair_world = []" "creatable sample_pair_world [''o'']"
    using chunk_path_neq_Nil [symmetric] by (auto simp: sample_pair_world_def empty_world_def creatable_def is_dir_def is_file_def lookup_def)
  from parallel_reconstruction_equals_sequential [OF this, of sample_pair_manifest sample_paths rev sample_deps "SymmetricKey 9" "[[7], [8]]"]
  show ?thesis
    using neq w [THEN sample_pair_plain] by (auto simp: sample_pair_manifest_def apart_def sample_pair_meta_def)
qed

end
