(* ===== verification/Etle_Download.thy ===== *)
theory Etle_Download
  imports Etle_Reconstruct
begin

text \<open>
  \<open>src/network/transfer/download.rs\<close>: a download from one peer, with the state of the share in the
  library, resumption, the window of requests in flight, and the fallback over a list of peers. The
  \<open>&mut\<close> arguments of the source are returned; where a caller keeps the state after a failure (the
  shared state of the parallel workers) the operation returns its result together with the state.
\<close>

section \<open>The state of a download in the library\<close>

definition PROGRESS_FLUSH_CHUNK_INTERVAL :: nat where
  "PROGRESS_FLUSH_CHUNK_INTERVAL = 32"

text \<open>750 milliseconds, in the nanoseconds of the clock.\<close>

definition PROGRESS_FLUSH_TIME_INTERVAL :: nat where
  "PROGRESS_FLUSH_TIME_INTERVAL = 750 * 1000 * 1000"

record active_download_library_state =
  ad_paths :: library_paths
  ad_progress :: download_progress
  ad_dirty_chunks :: nat
  ad_last_progress_flush :: nat

type_synonym library_state = "active_download_library_state option"

definition no_library_text :: string where
  "no_library_text = ''download output reconstruction requires library state''"

definition active_download_state :: "library_state \<Rightarrow> (network_error, active_download_library_state) result" where
  "active_download_state st = ok_or (PeerError no_library_text) st"

definition existing_progress :: "transfer_env \<Rightarrow> library_paths \<Rightarrow> share_id \<Rightarrow> (network_error, download_progress) io" where
  "existing_progress E P sid =
     bindE (path_is_file (descriptor_path P)) (\<lambda>present.
     bindE (if present then bindE (intoE NetFile (read_descriptor (e_deps E) (e_lib E) P)) (\<lambda>_. returnE ()) else returnE ()) (\<lambda>_.
     bindE (tryE (read_progress (e_lib E) P)) (\<lambda>r.
     returnE (case r of Inr p \<Rightarrow> p | Inl _ \<Rightarrow> progress_empty sid))))"

definition initialize_download_library_state ::
    "transfer_env \<Rightarrow> path option \<Rightarrow> etle_descriptor \<Rightarrow> symmetric_key \<Rightarrow> path option \<Rightarrow> bool \<Rightarrow> (network_error, library_state) io" where
  "initialize_download_library_state E library_root d file_key out_dir resume = (case library_root of
      None \<Rightarrow> returnE None
    | Some root \<Rightarrow>
        let P = for_share root (d_share_id d) in
        bindE (if resume then path_is_file (progress_path P) else returnE False) (\<lambda>old.
        bindE (if old then existing_progress E P (d_share_id d) else returnE (progress_empty (d_share_id d))) (\<lambda>progress.
        bindE (intoE NetFile (library_init (e_lib E) root d file_key Downloading out_dir)) (\<lambda>P.
        bindE (if dp_completed progress = [] then returnE ()
          else bindE (intoE NetFile (write_progress (e_lib E) P progress)) (\<lambda>_.
            intoE NetFile (write_state (e_lib E) P (share_state_from_progress Downloading out_dir progress)))) (\<lambda>_.
        bindE clock_now (\<lambda>now.
        returnE (Some \<lparr>ad_paths = P, ad_progress = progress, ad_dirty_chunks = 0, ad_last_progress_flush = now\<rparr>)))))))"

text \<open>One iteration of the loops of \<open>load_resumable_chunks\<close> and \<open>load_resumable_chunk_indexes\<close>.\<close>

definition resumable_chunk :: "deps \<Rightarrow> active_download_library_state \<Rightarrow> chunk_meta \<Rightarrow> (network_error, encrypted_chunk list) io" where
  "resumable_chunk D st meta =
     (if \<not> progress_has_chunk (ad_progress st) (cm_index meta) then returnE []
      else bindE (has_chunk (ad_paths st) (cm_index meta)) (\<lambda>present.
        if \<not> present then returnE []
        else bindE (intoE NetFile (read_chunk (ad_paths st) (cm_index meta) (cm_encrypted_size meta))) (\<lambda>chunk.
          returnE (if hash_chunk D (ec_data chunk) = cm_hash meta then [chunk] else []))))"

definition store_resumed :: "transfer_env \<Rightarrow> path option \<Rightarrow> active_download_library_state \<Rightarrow> encrypted_chunk list \<Rightarrow> (network_error, active_download_library_state) io" where
  "store_resumed E out_dir st chunks =
     (let progress = fold mark_completed (map ec_index chunks) (progress_empty (lp_share_id (ad_paths st))) in
      bindE (intoE NetFile (write_progress (e_lib E) (ad_paths st) progress)) (\<lambda>_.
      bindE (intoE NetFile (write_state (e_lib E) (ad_paths st) (share_state_from_progress Downloading out_dir progress))) (\<lambda>_.
      returnE (st\<lparr>ad_progress := progress\<rparr>))))"

definition load_resumable_chunks ::
    "transfer_env \<Rightarrow> library_state \<Rightarrow> manifest \<Rightarrow> path option \<Rightarrow> (network_error, library_state \<times> (u32 \<rightharpoonup> encrypted_chunk) \<times> u32 set) io" where
  "load_resumable_chunks E state m out_dir = (case state of
      None \<Rightarrow> returnE (None, Map.empty, {})
    | Some st \<Rightarrow>
        bindE (mapE (resumable_chunk (e_deps E) st) (m_chunks m)) (\<lambda>found.
        bindE (store_resumed E out_dir st (concat found)) (\<lambda>st'.
        returnE (Some st', fold insert_chunk (concat found) Map.empty, set (map ec_index (concat found))))))"

definition load_resumable_chunk_indexes ::
    "transfer_env \<Rightarrow> library_state \<Rightarrow> manifest \<Rightarrow> path option \<Rightarrow> (network_error, library_state \<times> u32 set) io" where
  "load_resumable_chunk_indexes E state m out_dir = (case state of
      None \<Rightarrow> returnE (None, {})
    | Some st \<Rightarrow>
        bindE (mapE (resumable_chunk (e_deps E) st) (m_chunks m)) (\<lambda>found.
        bindE (store_resumed E out_dir st (concat found)) (\<lambda>st'.
        returnE (Some st', set (map ec_index (concat found))))))"

text \<open>Operations that change the state and may fail: the result, and the state afterwards.\<close>

type_synonym 's step_result = "(network_error, unit) result \<times> 's"

definition settle :: "(network_error, 's step_result) io \<Rightarrow> (network_error, 's) io" where
  "settle m = bindE m (\<lambda>(r, s). case r of Inl e \<Rightarrow> throwE e | Inr _ \<Rightarrow> returnE s)"

definition should_flush_download_progress :: "active_download_library_state \<Rightarrow> ('e, bool) io" where
  "should_flush_download_progress st =
     (if PROGRESS_FLUSH_CHUNK_INTERVAL \<le> ad_dirty_chunks st then returnE True
      else bindE clock_now (\<lambda>now. returnE (PROGRESS_FLUSH_TIME_INTERVAL \<le> now - ad_last_progress_flush st)))"

definition flush_download_progress ::
    "transfer_env \<Rightarrow> active_download_library_state \<Rightarrow> share_mode \<Rightarrow> path option \<Rightarrow> (network_error, active_download_library_state step_result) io" where
  "flush_download_progress E st mode out_dir =
     bindE (tryE (bindE (write_progress (e_lib E) (ad_paths st) (ad_progress st)) (\<lambda>_.
       write_state (e_lib E) (ad_paths st) (share_state_from_progress mode out_dir (ad_progress st))))) (\<lambda>r. case r of
         Inl error \<Rightarrow> returnE (Inl (NetFile error), st)
       | Inr _ \<Rightarrow> bindE clock_now (\<lambda>now. returnE (Inr (), st\<lparr>ad_dirty_chunks := 0, ad_last_progress_flush := now\<rparr>)))"

definition maybe_flush_download_progress ::
    "transfer_env \<Rightarrow> active_download_library_state \<Rightarrow> path option \<Rightarrow> (network_error, active_download_library_state step_result) io" where
  "maybe_flush_download_progress E st out_dir =
     bindE (should_flush_download_progress st) (\<lambda>due.
     if due then flush_download_progress E st Downloading out_dir else returnE (Inr (), st))"

definition count_chunk :: "u32 \<Rightarrow> active_download_library_state \<Rightarrow> active_download_library_state" where
  "count_chunk index st = st\<lparr>ad_progress := mark_completed index (ad_progress st),
     ad_dirty_chunks := min (ad_dirty_chunks st + 1) usize_max\<rparr>"

definition remove_file_if_exists :: "path \<Rightarrow> ('e, unit) io" where
  "remove_file_if_exists p = bindE (path_exists p) (\<lambda>present.
     if present then bindE (tryE (fs_remove_file p)) (\<lambda>_. returnE ()) else returnE ())"

definition download_chunk_temp_path :: "library_state \<Rightarrow> u32 \<Rightarrow> (network_error, path) io" where
  "download_chunk_temp_path state index =
     bindE (liftE (active_download_state state)) (\<lambda>st.
     bindE staging_timestamp (\<lambda>suffix.
     returnE (chunks_dir (ad_paths st) @ [show_06 (unat index) @ ''.etle.'' @ show_nat suffix @ ''.part''])))"

definition move_downloaded :: "library_paths \<Rightarrow> u32 \<Rightarrow> path \<Rightarrow> (io_error, unit) io" where
  "move_downloaded P index temp_path =
     bindE (fs_create_dir_all (chunks_dir P)) (\<lambda>_.
     bindE (path_exists (chunk_path P index)) (\<lambda>present.
     bindE (if present then fs_remove_file (chunk_path P index) else returnE ()) (\<lambda>_.
     fs_rename temp_path (chunk_path P index))))"

definition persist_downloaded_chunk_file ::
    "transfer_env \<Rightarrow> library_state \<Rightarrow> u32 \<Rightarrow> path \<Rightarrow> path option \<Rightarrow> (network_error, library_state step_result) io" where
  "persist_downloaded_chunk_file E state index temp_path out_dir = (case state of
      None \<Rightarrow> bindE (remove_file_if_exists temp_path) (\<lambda>_. returnE (Inr (), None))
    | Some st \<Rightarrow>
        bindE (tryE (move_downloaded (ad_paths st) index temp_path)) (\<lambda>moved. case moved of
          Inl error \<Rightarrow> returnE (Inl (NetIo error), Some st)
        | Inr _ \<Rightarrow> bindE (maybe_flush_download_progress E (count_chunk index st) out_dir) (\<lambda>(r, st'). returnE (r, Some st'))))"

definition persist_downloaded_chunk ::
    "transfer_env \<Rightarrow> library_state \<Rightarrow> encrypted_chunk \<Rightarrow> path option \<Rightarrow> (network_error, library_state step_result) io" where
  "persist_downloaded_chunk E state chunk out_dir = (case state of
      None \<Rightarrow> returnE (Inr (), None)
    | Some st \<Rightarrow>
        bindE (tryE (write_chunk (ad_paths st) chunk)) (\<lambda>written. case written of
          Inl error \<Rightarrow> returnE (Inl (NetFile error), Some st)
        | Inr _ \<Rightarrow> bindE (maybe_flush_download_progress E (count_chunk (ec_index chunk) st) out_dir) (\<lambda>(r, st'). returnE (r, Some st'))))"

definition mark_download_library_complete :: "transfer_env \<Rightarrow> library_state \<Rightarrow> path option \<Rightarrow> (network_error, library_state) io" where
  "mark_download_library_complete E state out_dir = (case state of
      None \<Rightarrow> returnE None
    | Some st \<Rightarrow>
        bindE (if 0 < ad_dirty_chunks st then settle (flush_download_progress E st Downloading out_dir) else returnE st) (\<lambda>st'.
        bindE (intoE NetFile (write_state (e_lib E) (ad_paths st') (share_state_from_progress Completed out_dir (ad_progress st')))) (\<lambda>_.
        returnE (Some st'))))"

definition output_parent_dir :: "path \<Rightarrow> path option" where
  "output_parent_dir output_path = (if butlast output_path = [] then None else Some (butlast output_path))"

section \<open>The window of requests\<close>

definition initial_request_window :: "nat \<Rightarrow> nat" where
  "initial_request_window max_request_window = max 1 (min 4 max_request_window)"

definition maybe_grow_request_window :: "nat \<Rightarrow> nat \<Rightarrow> nat \<Rightarrow> nat \<times> nat" where
  "maybe_grow_request_window max_request_window active since =
     (if max_request_window \<le> active then (active, since)
      else if since < active then (active, since)
      else (min (active * 2) max_request_window, 0))"

record window_state =
  ws_active :: nat
  ws_since_growth :: nat
  ws_rest :: "chunk_meta list"
  ws_in_flight :: "(u32 \<times> chunk_meta) list"
  ws_library :: library_state
  ws_chunks :: "u32 \<rightharpoonup> encrypted_chunk"
  ws_completed :: "u32 set"

text \<open>The inner loop that sends requests; \<open>ws_rest\<close> is \<open>manifest.chunks[next_meta..]\<close>.\<close>

primrec fill_window ::
    "wire_message bincode \<Rightarrow> u32 set \<Rightarrow> u32 set \<Rightarrow> nat \<Rightarrow> (u32 \<times> chunk_meta) list \<Rightarrow> chunk_meta list \<Rightarrow>
     (network_error, (u32 \<times> chunk_meta) list \<times> chunk_meta list) io" where
  "fill_window C peer_available completed active in_flight [] = returnE (in_flight, [])"
| "fill_window C peer_available completed active in_flight (meta # rest) =
     (if \<not> length in_flight < active then returnE (in_flight, meta # rest)
      else if cm_index meta \<in> completed then fill_window C peer_available completed active in_flight rest
      else if cm_index meta \<notin> peer_available then fill_window C peer_available completed active in_flight rest
      else bindE (net_send C (RequestChunk (cm_index meta))) (\<lambda>_.
        fill_window C peer_available completed active (AList.update (cm_index meta) meta in_flight) rest))"

definition receive_for_window :: "transfer_env \<Rightarrow> bool \<Rightarrow> library_state \<Rightarrow> (network_error, received_chunk_frame \<times> path option) io" where
  "receive_for_window E streaming state =
     (if streaming then
        bindE (download_chunk_temp_path state 0) (\<lambda>temp_path.
        bindE (intoE NetProtocol (receive_chunk_to_file (e_deps E) (e_wire E) temp_path)) (\<lambda>fr.
        returnE (fr, Some temp_path)))
      else bindE (net_receive (e_wire E)) (\<lambda>m. returnE (Message m, None)))"

definition discard_temp :: "path option \<Rightarrow> ('e, unit) io" where
  "discard_temp temp_path = (case temp_path of Some p \<Rightarrow> remove_file_if_exists p | None \<Rightarrow> returnE ())"

definition take_in_flight :: "(u32 \<times> chunk_meta) list \<Rightarrow> u32 \<Rightarrow> (network_error, chunk_meta) result" where
  "take_in_flight in_flight index =
     ok_or (UnexpectedChunkIndex (if in_flight = [] then index else Min (set (map fst in_flight))) index) (map_of in_flight index)"

text \<open>The bookkeeping after a chunk was stored.\<close>

definition chunk_done :: "nat \<Rightarrow> u32 \<Rightarrow> library_state \<Rightarrow> window_state \<Rightarrow> window_state" where
  "chunk_done max_request_window index state st =
     (case maybe_grow_request_window max_request_window (ws_active st) (min (ws_since_growth st + 1) usize_max) of (active, since) \<Rightarrow>
      st\<lparr>ws_active := active, ws_since_growth := since, ws_in_flight := AList.delete index (ws_in_flight st),
         ws_library := state, ws_completed := insert index (ws_completed st)\<rparr>)"

definition accept_raw_file ::
    "transfer_env \<Rightarrow> path option \<Rightarrow> nat \<Rightarrow> window_state \<Rightarrow> received_raw_chunk_file \<Rightarrow> path \<Rightarrow> (network_error, window_state) io" where
  "accept_raw_file E out_dir max_request_window st chunk temp_path =
     bindE (liftE (take_in_flight (ws_in_flight st) (rr_index chunk))) (\<lambda>meta.
     if ChunkHash (rr_hash chunk) \<noteq> cm_hash meta
     then bindE (remove_file_if_exists temp_path) (\<lambda>_. throwE (NetFile (ChunkHashMismatch (cm_index meta))))
     else bindE (settle (persist_downloaded_chunk_file E (ws_library st) (rr_index chunk) temp_path out_dir)) (\<lambda>state.
       returnE (chunk_done max_request_window (rr_index chunk) state st)))"

definition accept_chunk_message ::
    "transfer_env \<Rightarrow> bool \<Rightarrow> path option \<Rightarrow> nat \<Rightarrow> window_state \<Rightarrow> u32 \<Rightarrow> bytes \<Rightarrow> path option \<Rightarrow> (network_error, window_state) io" where
  "accept_chunk_message E streaming out_dir max_request_window st index data temp_path =
     bindE (discard_temp temp_path) (\<lambda>_.
     bindE (liftE (take_in_flight (ws_in_flight st) index)) (\<lambda>meta.
     if hash_chunk (e_deps E) data \<noteq> cm_hash meta then throwE (NetFile (ChunkHashMismatch (cm_index meta)))
     else let chunk = \<lparr>ec_index = index, ec_data = data\<rparr> in
       bindE (settle (persist_downloaded_chunk E (ws_library st) chunk out_dir)) (\<lambda>state.
       returnE (chunk_done max_request_window index state
         (if streaming then st else st\<lparr>ws_chunks := (ws_chunks st)(index \<mapsto> chunk)\<rparr>)))))"

definition accept_received ::
    "transfer_env \<Rightarrow> bool \<Rightarrow> path option \<Rightarrow> nat \<Rightarrow> window_state \<Rightarrow> received_chunk_frame \<times> path option \<Rightarrow> (network_error, window_state) io" where
  "accept_received E streaming out_dir max_request_window st received = (case received of
      (RawChunkFile chunk, Some temp_path) \<Rightarrow> accept_raw_file E out_dir max_request_window st chunk temp_path
    | (RawChunkFile chunk, None) \<Rightarrow> throwE (PeerError ''raw chunk file requires a temporary path'')
    | (Message m, temp_path) \<Rightarrow> (case m of
        Chunk index data \<Rightarrow> accept_chunk_message E streaming out_dir max_request_window st index data temp_path
      | ErrorMsg message \<Rightarrow> bindE (discard_temp temp_path) (\<lambda>_. throwE (PeerError message))
      | actual \<Rightarrow> bindE (discard_temp temp_path) (\<lambda>_. throwE (UnexpectedMessage ''Chunk'' actual))))"

text \<open>Every accepted chunk was in flight and no longer is.\<close>

lemma settle_Inr [simp]: "settle m w = (Inr s, w') \<longleftrightarrow> (\<exists>u. m w = (Inr (Inr u, s), w'))"
  by (auto simp: settle_def bindE_Inr split: sum.split_asm)

lemma accept_received_Inr:
  assumes "accept_received E streaming out_dir mx st received w = (Inr st', w')"
  obtains i where "i \<in> fst ` set (ws_in_flight st)" "ws_in_flight st' = AList.delete i (ws_in_flight st)"
    "ws_rest st' = ws_rest st" "ws_completed st' = insert i (ws_completed st)"
proof -
  have key: "take_in_flight l j = Inr m \<Longrightarrow> j \<in> fst ` set l" for l j m
    by (force simp: take_in_flight_def dest: map_of_SomeD)
  obtain fr t where received: "received = (fr, t)" by fastforce
  show ?thesis
  proof (cases fr)
    case (RawChunkFile chunk)
    with assms received obtain temp m state where "t = Some temp" "take_in_flight (ws_in_flight st) (rr_index chunk) = Inr m"
        "st' = chunk_done mx (rr_index chunk) state st"
      by (cases t) (auto simp: accept_received_def accept_raw_file_def bindE_Inr split: if_split_asm)
    then show ?thesis
      using that [of "rr_index chunk"] key by (simp add: chunk_done_def split: prod.splits)
  next
    case (Message m)
    with assms received obtain j data meta state where "m = Chunk j data" "take_in_flight (ws_in_flight st) j = Inr meta"
        "st' = chunk_done mx j state (if streaming then st else st\<lparr>ws_chunks := (ws_chunks st)(j \<mapsto> \<lparr>ec_index = j, ec_data = data\<rparr>)\<rparr>)"
      by (cases m) (auto simp: accept_received_def accept_chunk_message_def bindE_Inr Let_def split: if_split_asm)
    then show ?thesis
      using that [of j] key by (simp add: chunk_done_def split: prod.splits)
  qed
qed

lemma fill_window_length:
  "fill_window C avail completed active in_flight rest w = (Inr (in_flight', rest'), w') \<Longrightarrow>
     length in_flight' + length rest' \<le> length in_flight + length rest"
proof (induction rest arbitrary: in_flight w)
  case (Cons m ms)
  have upd: "length (AList.update i v xs) \<le> Suc (length xs)" for i v and xs :: "(u32 \<times> chunk_meta) list"
    by (induction xs) auto
  consider (stop) "in_flight' = in_flight" "rest' = m # ms"
    | (skip) "fill_window C avail completed active in_flight ms w = (Inr (in_flight', rest'), w')"
    | (request) w1 where "fill_window C avail completed active (AList.update (cm_index m) m in_flight) ms w1 = (Inr (in_flight', rest'), w')"
    using Cons.prems by (auto simp: bindE_Inr split: if_split_asm)
  then show ?case
  proof cases
    case stop
    then show ?thesis by simp
  next
    case skip
    from Cons.IH [OF this] show ?thesis by simp
  next
    case request
    from Cons.IH [OF this] upd [of "cm_index m" m in_flight] show ?thesis by simp
  qed
qed simp

lemma delete_shorter: "i \<in> fst ` set xs \<Longrightarrow> length (AList.delete i xs) < length xs"
  unfolding AList.delete_eq by (induction xs) (auto simp: le_imp_less_Suc)

function window_loop :: "transfer_env \<Rightarrow> u32 set \<Rightarrow> bool \<Rightarrow> path option \<Rightarrow> nat \<Rightarrow> window_state \<Rightarrow> (network_error, window_state) io" where
  "window_loop E peer_available streaming out_dir max_request_window st w =
     (case fill_window (e_wire E) peer_available (ws_completed st) (ws_active st) (ws_in_flight st) (ws_rest st) w of
        (Inl error, w1) \<Rightarrow> (Inl error, w1)
      | (Inr (in_flight, rest), w1) \<Rightarrow>
          if in_flight = [] then (Inr (st\<lparr>ws_in_flight := in_flight, ws_rest := rest\<rparr>), w1)
          else (case bindE (receive_for_window E streaming (ws_library st)) (accept_received E streaming out_dir max_request_window
                 (st\<lparr>ws_in_flight := in_flight, ws_rest := rest\<rparr>)) w1 of
              (Inl error, w2) \<Rightarrow> (Inl error, w2)
            | (Inr st', w2) \<Rightarrow> window_loop E peer_available streaming out_dir max_request_window st' w2))"
  by pat_completeness auto

lemma window_loop_decreases:
  assumes "fill_window C avail completed active (ws_in_flight st) (ws_rest st) w = (Inr (in_flight, rest), w1)"
    and "bindE (receive_for_window E streaming state) (accept_received E streaming out_dir mx
                 (st\<lparr>ws_in_flight := in_flight, ws_rest := rest\<rparr>)) w1 = (Inr st', w2)"
  shows "length (ws_in_flight st') + length (ws_rest st') < length (ws_in_flight st) + length (ws_rest st)"
proof -
  from assms(2) obtain r v where "accept_received E streaming out_dir mx (st\<lparr>ws_in_flight := in_flight, ws_rest := rest\<rparr>) r v = (Inr st', w2)"
    by (auto simp: bindE_Inr)
  then obtain i where "i \<in> fst ` set in_flight" "ws_in_flight st' = AList.delete i in_flight" "ws_rest st' = rest"
    by (rule accept_received_Inr) simp
  with delete_shorter [of i in_flight] fill_window_length [OF assms(1)] show ?thesis by simp
qed

termination window_loop
  by (relation "measure (\<lambda>(E, avail, streaming, out_dir, mx, st, w). length (ws_in_flight st) + length (ws_rest st))")
    (auto dest: window_loop_decreases [OF sym sym])

declare window_loop.simps [simp del]

definition download_missing_chunks_windowed ::
    "transfer_env \<Rightarrow> manifest \<Rightarrow> u32 set \<Rightarrow> library_state \<Rightarrow> (u32 \<rightharpoonup> encrypted_chunk) \<Rightarrow> u32 set \<Rightarrow> bool \<Rightarrow> path option \<Rightarrow> nat \<Rightarrow>
     (network_error, window_state) io" where
  "download_missing_chunks_windowed E m peer_available state chunks completed streaming out_dir request_window =
     (let max_request_window = max request_window 1 in
      window_loop E peer_available streaming out_dir max_request_window
        \<lparr>ws_active = initial_request_window max_request_window, ws_since_growth = 0, ws_rest = m_chunks m, ws_in_flight = [],
         ws_library = state, ws_chunks = chunks, ws_completed = completed\<rparr>)"

section \<open>A download from one peer\<close>

definition send_requested_share_if_needed :: "transfer_env \<Rightarrow> share_id option \<Rightarrow> (network_error, unit) io" where
  "send_requested_share_if_needed E sid = (case sid of
      None \<Rightarrow> returnE ()
    | Some i \<Rightarrow> net_send (e_wire E) (RequestShare i))"

definition expect_manifest :: "wire_message \<Rightarrow> (network_error, manifest) result" where
  "expect_manifest m = (case m of
      ManifestMsg x \<Rightarrow> Inr x
    | actual \<Rightarrow> Inl (UnexpectedMessage ''Manifest'' actual))"

definition expect_wrapped_file_key :: "wire_message \<Rightarrow> (network_error, wrapped_file_key) result" where
  "expect_wrapped_file_key m = (case m of
      WrappedFileKeyMsg nonce data \<Rightarrow> Inr \<lparr>wk_nonce = nonce, wk_data = data\<rparr>
    | actual \<Rightarrow> Inl (UnexpectedMessage ''WrappedFileKey'' actual))"

definition expect_availability :: "wire_message \<Rightarrow> (network_error, u32 set) result" where
  "expect_availability m = (case m of
      Have chunks \<Rightarrow> Inr (set chunks)
    | ErrorMsg message \<Rightarrow> Inl (PeerError message)
    | actual \<Rightarrow> Inl (UnexpectedMessage ''Have'' actual))"

definition receive_peer_availability :: "transfer_env \<Rightarrow> (network_error, u32 set) io" where
  "receive_peer_availability E = bindE (net_receive (e_wire E)) (\<lambda>m. liftE (expect_availability m))"

record connected_download_peer =
  cp_peer_addr :: string
  cp_manifest :: manifest
  cp_file_key :: symmetric_key
  cp_available_chunks :: "u32 set"

definition connect_download_peer ::
    "transfer_env \<Rightarrow> string \<Rightarrow> string \<Rightarrow> share_id option \<Rightarrow> auth_psk option \<Rightarrow> (network_error, connected_download_peer) io" where
  "connect_download_peer E peer_addr peer_id requested_share_id psk =
     bindE (connect_peer peer_addr) (\<lambda>_.
     bindE (client_protocol_handshake (e_wire E) peer_id) (\<lambda>_.
     bindE (client_transfer_session_key_exchange E psk) (\<lambda>session_key.
     bindE (send_requested_share_if_needed E requested_share_id) (\<lambda>_.
     bindE (bindE (net_receive (e_wire E)) (\<lambda>m. liftE (expect_manifest m))) (\<lambda>manifest.
     bindE (bindE (net_receive (e_wire E)) (\<lambda>m. liftE (expect_wrapped_file_key m))) (\<lambda>wrapped_file_key.
     bindE (liftE (map_err NetCrypto (unwrap_file_key (e_deps E) session_key (m_file_id manifest) wrapped_file_key))) (\<lambda>file_key.
     bindE (receive_peer_availability E) (\<lambda>available.
     returnE \<lparr>cp_peer_addr = peer_addr, cp_manifest = manifest, cp_file_key = file_key, cp_available_chunks = available\<rparr>))))))))"

text \<open>What is on disk of an earlier attempt, with the state, the chunks in memory and the indexes.\<close>

definition resume_chunks :: "transfer_env \<Rightarrow> library_state \<Rightarrow> manifest \<Rightarrow> path option \<Rightarrow>
    (network_error, library_state \<times> (u32 \<rightharpoonup> encrypted_chunk) \<times> u32 set) io" where
  "resume_chunks E state m out_dir =
     (if state \<noteq> None
      then bindE (load_resumable_chunk_indexes E state m out_dir) (\<lambda>(state', completed). returnE (state', Map.empty, completed))
      else load_resumable_chunks E state m out_dir)"

definition check_all_received :: "manifest \<Rightarrow> u32 set \<Rightarrow> (network_error, unit) result" where
  "check_all_received m completed =
     (if card completed \<noteq> length (m_chunks m)
      then (case find (\<lambda>meta. cm_index meta \<notin> completed) (m_chunks m) of
          Some meta \<Rightarrow> Inl (MissingEncryptedChunk (cm_index meta))
        | None \<Rightarrow> Inr ())
      else Inr ())"

definition write_output :: "transfer_env \<Rightarrow> bool \<Rightarrow> window_state \<Rightarrow> manifest \<Rightarrow> symmetric_key \<Rightarrow> path \<Rightarrow> (network_error, unit) io" where
  "write_output E streaming st m file_key output_path =
     (if streaming
      then bindE (liftE (active_download_state (ws_library st))) (\<lambda>active.
        decrypt_library_chunks_to_file E (ad_paths active) m file_key output_path)
      else intoE NetFile (decrypt_to_file (e_deps E) \<lparr>ef_manifest = m, ef_chunks = ws_chunks st\<rparr> file_key output_path))"

definition from_peer_with :: "transfer_env \<Rightarrow> string \<Rightarrow> path \<Rightarrow> download_file_options \<Rightarrow> (network_error, manifest) io" where
  "from_peer_with E peer_addr output_path opts =
     bindE (connect_download_peer E peer_addr (do_peer_id opts) (do_requested_share_id opts) (do_auth_psk opts)) (\<lambda>peer.
     let m = cp_manifest peer; d = descriptor_from_manifest (e_deps E) m; out_dir = output_parent_dir output_path in
     bindE (initialize_download_library_state E (do_library_root opts) d (cp_file_key peer) out_dir (do_resume opts)) (\<lambda>state.
     let streaming = (state \<noteq> None) in
     bindE (resume_chunks E state m out_dir) (\<lambda>(state, chunks, completed).
     bindE (if completed \<noteq> {} then net_send (e_wire E) (Have (sorted_list_of_set completed)) else returnE ()) (\<lambda>_.
     bindE (download_missing_chunks_windowed E m (cp_available_chunks peer) state chunks completed streaming out_dir (do_request_window opts)) (\<lambda>st.
     bindE (liftE (check_all_received m (ws_completed st))) (\<lambda>_.
     bindE (write_output E streaming st m (cp_file_key peer) output_path) (\<lambda>_.
     bindE (mark_download_library_complete E (ws_library st) out_dir) (\<lambda>_.
     returnE m))))))))"

definition from_peer :: "transfer_env \<Rightarrow> string \<Rightarrow> path \<Rightarrow> string \<Rightarrow> (network_error, manifest) io" where
  "from_peer E peer_addr output_path peer_id = from_peer_with E peer_addr output_path (download_options_new peer_id Quiet)"

section \<open>Several peers, one after the other\<close>

text \<open>The loop over the peers: the number of the attempt, from 0, and the last error so far.\<close>

primrec try_peers :: "transfer_env \<Rightarrow> path \<Rightarrow> download_file_options \<Rightarrow> nat \<Rightarrow> nat \<Rightarrow> string option \<Rightarrow> string list \<Rightarrow> (network_error, manifest) io" where
  "try_peers E output_path opts n attempt last_error [] =
     throwE (AllPeersFailed n (case last_error of Some e \<Rightarrow> e | None \<Rightarrow> ''unknown error''))"
| "try_peers E output_path opts n attempt last_error (peer_addr # peers) =
     bindE (tryE (from_peer_with E peer_addr output_path (if 1 < n \<or> 0 < attempt then with_resume True opts else opts))) (\<lambda>r. case r of
       Inr m \<Rightarrow> returnE m
     | Inl e \<Rightarrow> try_peers E output_path opts n (Suc attempt) (Some (e_show_error E e)) peers)"

definition from_peers :: "transfer_env \<Rightarrow> string list \<Rightarrow> path \<Rightarrow> download_file_options \<Rightarrow> (network_error, manifest) io" where
  "from_peers E peer_addrs output_path opts =
     (if peer_addrs = [] then throwE NoPeersProvided
      else try_peers E output_path opts (length peer_addrs) 0 None peer_addrs)"

end
