(* ===== verification/Etle_Serve.thy ===== *)
theory Etle_Serve
  imports Etle_Transfer
begin

text \<open>
  \<open>src/network/transfer/serve.rs\<close>: one session of a seeder with a connected peer. The three session
  functions of the source repeat the same header and the same request loop; here they share the
  definitions \<open>load_share\<close>, \<open>send_share_header\<close> and \<open>serve_loop\<close>. A \<open>BTreeSet\<close> of chunk indexes is a set.
  The accept loops that spawn one session per connection are in \<open>Etle_Server\<close>.
\<close>

section \<open>Sessions\<close>

record loaded_share =
  ls_paths :: library_paths
  ls_descriptor :: etle_descriptor
  ls_secret :: etle_secret
  ls_manifest :: manifest
  ls_available :: "u32 list"

definition load_share :: "transfer_env \<Rightarrow> path \<Rightarrow> share_id \<Rightarrow> (network_error, loaded_share) io" where
  "load_share E root sid =
     (let P = for_share root sid in
      bindE (intoE NetFile (read_descriptor (e_deps E) (e_lib E) P)) (\<lambda>d.
      bindE (intoE NetFile (read_secret (e_lib E) P)) (\<lambda>s.
      bindE (liftE (manifest_from_descriptor d)) (\<lambda>m.
      bindE (available_chunk_indexes (e_deps E) P d) (\<lambda>available.
      returnE \<lparr>ls_paths = P, ls_descriptor = d, ls_secret = s, ls_manifest = m, ls_available = available\<rparr>)))))"

definition send_share_header :: "transfer_env \<Rightarrow> symmetric_key \<Rightarrow> loaded_share \<Rightarrow> (network_error, unit) io" where
  "send_share_header E session_key sh =
     bindE (net_send (e_wire E) (ManifestMsg (ls_manifest sh))) (\<lambda>_.
     bindE (intoE NetCrypto (wrap_file_key (e_deps E) session_key (m_file_id (ls_manifest sh)) (es_file_key (ls_secret sh)))) (\<lambda>wrapped.
     bindE (net_send (e_wire E) (WrappedFileKeyMsg (wk_nonce wrapped) (wk_data wrapped))) (\<lambda>_.
     net_send (e_wire E) (Have (ls_available sh)))))"

definition unavailable_text :: "u32 \<Rightarrow> string" where
  "unavailable_text index = ''chunk '' @ show_nat (unat index) @ '' is not available from this peer''"

text \<open>The answer to one message of the peer, with the chunks served or known afterwards.\<close>

definition serve_message :: "transfer_env \<Rightarrow> loaded_share \<Rightarrow> u32 set \<Rightarrow> wire_message \<Rightarrow> (network_error, u32 set) io" where
  "serve_message E sh served message = (case message of
      Have chunks \<Rightarrow> returnE (served \<union> {i \<in> set chunks. i \<in> set (ls_available sh)})
    | RequestChunk index \<Rightarrow>
        if index \<notin> set (ls_available sh)
        then bindE (net_send (e_wire E) (ErrorMsg (unavailable_text index))) (\<lambda>_. returnE served)
        else bindE (liftE (ok_or (MissingEncryptedChunk index)
               (find (\<lambda>chunk. cm_index chunk = index) (d_chunks (ls_descriptor sh))))) (\<lambda>meta.
             bindE (intoE NetProtocol (send_chunk_file index (chunk_path (ls_paths sh) index) (cm_encrypted_size meta))) (\<lambda>_.
             returnE (insert index served)))
    | actual \<Rightarrow> throwE (UnexpectedMessage ''Have or RequestChunk'' actual))"

lemma serve_message_input [intro!, simp]: "preserves same_input (serve_message E sh served m)"
  by (cases m) (auto simp: serve_message_def intro!: same_input.pres_bind same_input.pres_into)

function serve_loop :: "transfer_env \<Rightarrow> loaded_share \<Rightarrow> u32 set \<Rightarrow> (network_error, unit) io" where
  "serve_loop E sh served w =
     (if \<not> card served < length (d_chunks (ls_descriptor sh)) then (Inr (), w)
      else case receive (e_wire E) w of
        (Inl error, w1) \<Rightarrow>
          if is_peer_closed_protocol_error error then (Inr (), w1) else (Inl (NetProtocol error), w1)
      | (Inr message, w1) \<Rightarrow>
          (case serve_message E sh served message w1 of
             (Inl error, w2) \<Rightarrow> (Inl error, w2)
           | (Inr served', w2) \<Rightarrow> serve_loop E sh served' w2))"
  by pat_completeness auto
termination
  by (relation "measure (\<lambda>(E, sh, served, w). length (inp w))")
    (auto dest!: sym [of _ "receive _ _"] sym [of _ "serve_message _ _ _ _ _"] same_inputD [OF serve_message_input] receive_consumes)

declare serve_loop.simps [simp del]

definition expect_request_share :: "wire_message \<Rightarrow> (network_error, share_id) result" where
  "expect_request_share m = (case m of
      RequestShare sid \<Rightarrow> Inr sid
    | actual \<Rightarrow> Inl (UnexpectedMessage ''RequestShare'' actual))"

definition serve_share :: "transfer_env \<Rightarrow> symmetric_key \<Rightarrow> loaded_share \<Rightarrow> (network_error, etle_descriptor) io" where
  "serve_share E session_key sh =
     bindE (send_share_header E session_key sh) (\<lambda>_.
     bindE (serve_loop E sh {}) (\<lambda>_.
     returnE (ls_descriptor sh)))"

definition library_connected_peer :: "transfer_env \<Rightarrow> path \<Rightarrow> serve_file_options \<Rightarrow> (network_error, etle_descriptor) io" where
  "library_connected_peer E library_root opts =
     bindE (server_protocol_handshake (e_wire E) (so_seeder_id opts)) (\<lambda>_.
     bindE (server_transfer_session_key_exchange E (so_auth_psk opts)) (\<lambda>session_key.
     bindE (bindE (net_receive (e_wire E)) (\<lambda>m. liftE (expect_request_share m))) (\<lambda>sid.
     bindE (load_share E library_root sid) (\<lambda>sh.
     serve_share E session_key sh))))"

definition share_connected_peer :: "transfer_env \<Rightarrow> path \<Rightarrow> share_id \<Rightarrow> serve_file_options \<Rightarrow> (network_error, etle_descriptor) io" where
  "share_connected_peer E library_root sid opts =
     bindE (load_share E library_root sid) (\<lambda>sh.
     bindE (server_protocol_handshake (e_wire E) (so_seeder_id opts)) (\<lambda>_.
     bindE (server_transfer_session_key_exchange E (so_auth_psk opts)) (\<lambda>session_key.
     serve_share E session_key sh)))"

definition share_once_from_listener :: "transfer_env \<Rightarrow> path \<Rightarrow> share_id \<Rightarrow> serve_file_options \<Rightarrow> (network_error, etle_descriptor) io" where
  "share_once_from_listener E library_root sid opts =
     bindE accept_peer (\<lambda>_. share_connected_peer E library_root sid opts)"

definition share_once :: "transfer_env \<Rightarrow> path \<Rightarrow> share_id \<Rightarrow> serve_file_options \<Rightarrow> (network_error, etle_descriptor) io" where
  "share_once E library_root sid opts = share_once_from_listener E library_root sid opts"

definition library_once_from_listener :: "transfer_env \<Rightarrow> path \<Rightarrow> serve_file_options \<Rightarrow> (network_error, etle_descriptor) io" where
  "library_once_from_listener E library_root opts =
     bindE accept_peer (\<lambda>_.
     bindE (server_protocol_handshake (e_wire E) (so_seeder_id opts)) (\<lambda>_.
     bindE (server_transfer_session_key_exchange E (so_auth_psk opts)) (\<lambda>session_key.
     bindE (bindE (net_receive (e_wire E)) (\<lambda>m. liftE (expect_request_share m))) (\<lambda>sid.
     bindE (load_share E library_root sid) (\<lambda>sh.
     serve_share E session_key sh)))))"

definition library_once :: "transfer_env \<Rightarrow> path \<Rightarrow> serve_file_options \<Rightarrow> (network_error, etle_descriptor) io" where
  "library_once E library_root opts = library_once_from_listener E library_root opts"

section \<open>The answers of a seeder\<close>

text \<open>
  The promise of a session, without bytes and files: a request for an available chunk is answered
  with its contents, for another one with an error; what the peer says it has is noted; the session
  ends when every chunk is known to be on the other side, or with the requests.
\<close>

definition answerable :: "wire_message bincode \<Rightarrow> u32 set \<Rightarrow> wire_message \<Rightarrow> bool" where
  "answerable C available m \<longleftrightarrow> (case m of
      Have _ \<Rightarrow> True
    | RequestChunk i \<Rightarrow> i \<in> available \<or> (\<exists>fr. frame_of C (ErrorMsg (unavailable_text i)) fr)
    | _ \<Rightarrow> False)"

fun answers :: "(u32 \<Rightarrow> bytes) \<Rightarrow> u32 set \<Rightarrow> nat \<Rightarrow> u32 set \<Rightarrow> wire_message list \<Rightarrow> wire_message list" where
  "answers content available n served [] = []"
| "answers content available n served (m # ms) =
     (if n \<le> card served then [] else case m of
        Have chunks \<Rightarrow> answers content available n (served \<union> (set chunks \<inter> available)) ms
      | RequestChunk i \<Rightarrow>
          if i \<in> available then Chunk i (content i) # answers content available n (insert i served) ms
          else ErrorMsg (unavailable_text i) # answers content available n served ms
      | _ \<Rightarrow> [])"

definition answer_to :: "(u32 \<Rightarrow> bytes) \<Rightarrow> u32 set \<Rightarrow> wire_message \<Rightarrow> wire_message list" where
  "answer_to content available m = (case m of
      RequestChunk i \<Rightarrow> [if i \<in> available then Chunk i (content i) else ErrorMsg (unavailable_text i)]
    | _ \<Rightarrow> [])"

definition stored_bytes :: "world \<Rightarrow> path \<Rightarrow> bytes" where
  "stored_bytes w p = (case lookup w p of Some (FileN bs) \<Rightarrow> bs | _ \<Rightarrow> [])"

definition chunk_bytes :: "world \<Rightarrow> loaded_share \<Rightarrow> u32 \<Rightarrow> bytes" where
  "chunk_bytes w sh i = stored_bytes w (chunk_path (ls_paths sh) i)"

text \<open>Every available chunk can be sent.\<close>

definition share_ready :: "world \<Rightarrow> loaded_share \<Rightarrow> bool" where
  "share_ready w sh \<longleftrightarrow> (\<forall>i \<in> set (ls_available sh). \<exists>meta bs.
     find (\<lambda>chunk. cm_index chunk = i) (d_chunks (ls_descriptor sh)) = Some meta \<and>
     lookup w (chunk_path (ls_paths sh) i) = Some (FileN bs) \<and> (of_nat (length bs) :: u64) = cm_encrypted_size meta \<and>
     RAW_CHUNK_HEADER_SIZE + length bs \<le> MAX_FRAME_SIZE)"

lemma serve_loop_done: "\<not> card served < length (d_chunks (ls_descriptor sh)) \<Longrightarrow> serve_loop E sh served w = (Inr (), w)"
  by (simp add: serve_loop.simps)

lemma serve_loop_end:
  assumes "faults w = []" and "inp w = []"
  shows "\<exists>w'. serve_loop E sh served w = (Inr (), w') \<and> out w' = out w"
proof (cases "card served < length (d_chunks (ls_descriptor sh))")
  case True
  have "receive (e_wire E) w = (Inl (ProtoIo UnexpectedEof), w)"
    using assms by (simp add: receive_def read_frame_len_def io_simps stream_read_exact_def)
  with True show ?thesis
    by (simp add: serve_loop.simps)
qed (simp add: serve_loop_done)

lemma serve_loop_next:
  assumes "card served < length (d_chunks (ls_descriptor sh))" and "net_receive (e_wire E) w = (Inr m, w1)"
    and "serve_message E sh served m w1 = (Inr served', w2)"
  shows "serve_loop E sh served w = serve_loop E sh served' w2"
proof -
  have "receive (e_wire E) w = (Inr m, w1)"
    using assms(2) by (simp add: net_receive_def)
  with assms(1,3) show ?thesis
    by (subst serve_loop.simps) simp
qed

lemma serve_message_answer:
  assumes "faults w = []" and "share_ready w sh" and "answerable (e_wire E) (set (ls_available sh)) m"
    and "card served < n"
  obtains served' w' reply where "serve_message E sh served m w = (Inr served', w')" "out w' = out w @ concat reply"
    "faults w' = []" "inp w' = inp w" "lookup w' = lookup w"
    "\<And>ms. answers (chunk_bytes w sh) (set (ls_available sh)) n served (m # ms) =
       (answer_to (chunk_bytes w sh) (set (ls_available sh)) m) @
       answers (chunk_bytes w sh) (set (ls_available sh)) n served' ms"
    "list_all2 (frame_of (e_wire E)) (answer_to (chunk_bytes w sh) (set (ls_available sh)) m) reply"
proof (cases m)
  case (Have chunks)
  have "{i \<in> set chunks. i \<in> set (ls_available sh)} = set chunks \<inter> set (ls_available sh)"
    by blast
  then show ?thesis
    using assms Have by (intro that [of "served \<union> (set chunks \<inter> set (ls_available sh))" w "[]"])
      (simp_all add: serve_message_def answer_to_def)
next
  case (RequestChunk i)
  show ?thesis
  proof (cases "i \<in> set (ls_available sh)")
    case False
    obtain fr where fr: "frame_of (e_wire E) (ErrorMsg (unavailable_text i)) fr"
      using assms(3) False RequestChunk by (auto simp: answerable_def)
    show ?thesis
      using assms False RequestChunk fr net_send_frame [OF assms(1) fr]
      by (intro that [of served "w\<lparr>out := out w @ fr\<rparr>" "[fr]"]) (simp_all add: serve_message_def answer_to_def io_simps fun_eq_iff)
  next
    case True
    then obtain meta bs where m: "find (\<lambda>chunk. cm_index chunk = i) (d_chunks (ls_descriptor sh)) = Some meta"
        and bs: "lookup w (chunk_path (ls_paths sh) i) = Some (FileN bs)" "(of_nat (length bs) :: u64) = cm_encrypted_size meta"
          "RAW_CHUNK_HEADER_SIZE + length bs \<le> MAX_FRAME_SIZE"
      using assms(2) by (auto simp: share_ready_def)
    obtain w' fr where run: "send_chunk_file i (chunk_path (ls_paths sh) i) (cm_encrypted_size meta) w = (Inr (), w')"
        and fr: "out w' = out w @ fr" "frame_of (e_wire E) (Chunk i bs) fr"
      using send_chunk_file_calm [OF assms(1) bs] by blast
    have "faults w' = []" "inp w' = inp w" "lookup w' = lookup w"
      using preserves_calmD [OF send_chunk_file_pres(3) run assms(1)] same_inputD [OF send_chunk_file_pres(1) run]
        frame_all_lookup [OF send_chunk_file_pres(2) run] by simp_all
    then show ?thesis
      using True RequestChunk m run fr bs assms(4) by (intro that [of "insert i served" w' "[fr]"])
        (simp_all add: serve_message_def answer_to_def io_simps stored_bytes_def chunk_bytes_def)
  qed
qed (use assms(3) in \<open>simp_all add: answerable_def\<close>)

lemma serve_loop_answers:
  assumes "wire_ok (e_wire E)" and "\<And>m. m \<in> set ms \<Longrightarrow> answerable (e_wire E) (set (ls_available sh)) m"
  shows "faults w = [] \<Longrightarrow> share_ready w sh \<Longrightarrow> frames_of (e_wire E) ms (inp w) \<Longrightarrow>
    \<exists>w' reply. serve_loop E sh served w = (Inr (), w') \<and> out w' = out w @ reply \<and>
      frames_of (e_wire E) (answers (chunk_bytes w sh) (set (ls_available sh))
        (length (d_chunks (ls_descriptor sh))) served ms) reply"
  using assms(2)
proof (induction ms arbitrary: served w)
  case Nil
  then show ?case
    using serve_loop_end [of w E sh served] by auto
next
  case (Cons m ms)
  let ?n = "length (d_chunks (ls_descriptor sh))"
  show ?case
  proof (cases "card served < ?n")
    case False
    then show ?thesis
      by (simp add: serve_loop_done)
  next
    case True
    obtain f g where f: "inp w = f @ g" "frame_of (e_wire E) m f" "frames_of (e_wire E) ms g"
      using Cons.prems(3) by (auto simp: frames_of_Cons)
    have rc: "net_receive (e_wire E) w = (Inr m, w\<lparr>inp := g\<rparr>)"
      using net_receive_frame [OF assms(1) Cons.prems(1) f(1,2)] .
    have ready: "faults (w\<lparr>inp := g\<rparr>) = []" "share_ready (w\<lparr>inp := g\<rparr>) sh" "answerable (e_wire E) (set (ls_available sh)) m"
      using Cons.prems by (simp_all add: share_ready_def)
    have same: "chunk_bytes (w\<lparr>inp := g\<rparr>) = chunk_bytes w"
      by (simp add: chunk_bytes_def stored_bytes_def fun_eq_iff)
    obtain served' w' reply where a: "serve_message E sh served m (w\<lparr>inp := g\<rparr>) = (Inr served', w')"
        "out w' = out (w\<lparr>inp := g\<rparr>) @ concat reply" "faults w' = []" "inp w' = inp (w\<lparr>inp := g\<rparr>)" "lookup w' = lookup (w\<lparr>inp := g\<rparr>)"
      and s: "\<And>ms. answers (chunk_bytes w sh) (set (ls_available sh)) ?n served (m # ms) =
          (answer_to (chunk_bytes w sh) (set (ls_available sh)) m) @
          answers (chunk_bytes w sh) (set (ls_available sh)) ?n served' ms"
        "list_all2 (frame_of (e_wire E)) (answer_to (chunk_bytes w sh) (set (ls_available sh)) m) reply"
      by (rule serve_message_answer [OF ready True, unfolded same]) (rule that, assumption+)
    have same': "chunk_bytes w' = chunk_bytes w"
      using a(5) by (simp add: chunk_bytes_def stored_bytes_def fun_eq_iff)
    have "share_ready w' sh" "frames_of (e_wire E) ms (inp w')"
      using a(4,5) Cons.prems(2) f(3) by (simp_all add: share_ready_def)
    then obtain w'' rest where r: "serve_loop E sh served' w' = (Inr (), w'')" "out w'' = out w' @ rest"
        "frames_of (e_wire E) (answers (chunk_bytes w sh) (set (ls_available sh)) ?n served' ms) rest"
      using Cons.IH [OF a(3)] Cons.prems(4) unfolding same' by fastforce
    have "frames_of (e_wire E) (answers (chunk_bytes w sh) (set (ls_available sh)) ?n served (m # ms)) (concat reply @ rest)"
      unfolding s(1) using s(2) r(3) unfolding frames_of_def by (metis concat_append list_all2_appendI)
    then show ?thesis
      using serve_loop_next [OF True rc a(1)] r(1,2) a(2) by auto
  qed
qed

section \<open>What a session leaves alone\<close>

lemma handshake_pres [intro!, simp]:
  "preserves (frame F) (server_protocol_handshake C i)"
  unfolding server_protocol_handshake_def server_hello_handshake_def receive_hello_def
    exchange_capabilities_as_server_def receive_and_validate_peer_capabilities_def send_local_capabilities_def
  by (auto intro!: frame.pres_bind split: wire_message.splits)

lemma key_exchange_pres [intro!, simp]: "preserves (frame F) (server_transfer_session_key_exchange E psk)"
  unfolding server_transfer_session_key_exchange_def server_authenticated_session_key_exchange_def
    server_session_key_exchange_def server_unauthenticated_session_key_exchange_def receive_key_exchange_def
    receive_auth_proof_def generate_keypair_def
  by (auto intro!: frame.pres_bind split: option.splits)

lemma read_records_pres [intro!, simp]:
  "preserves (frame F) (read_descriptor D L P)" "preserves (frame F) (read_secret L P)"
  unfolding read_descriptor_def read_secret_def by (auto intro!: frame.pres_bind frame.pres_into)

lemma load_share_pres [intro!, simp]: "preserves (frame F) (load_share E root sid)"
  unfolding load_share_def Let_def
  by (auto intro!: frame.pres_bind frame.pres_into)

lemma serve_message_pres [intro!, simp]: "preserves (frame F) (serve_message E sh served m)"
  by (cases m) (auto simp: serve_message_def intro!: frame.pres_bind frame.pres_into)

text \<open>Reasoning about the loop: what holds of every way out and is carried back over every round.\<close>

lemma serve_loop_rule:
  assumes finished: "\<And>w. Q w (Inr (), w)"
    and closed: "\<And>w e w1. receive (e_wire E) w = (Inl e, w1) \<Longrightarrow> Q w (Inr (), w1) \<and> Q w (Inl (NetProtocol e), w1)"
    and failed: "\<And>w m w1 served e w2. receive (e_wire E) w = (Inr m, w1) \<Longrightarrow>
      serve_message E sh served m w1 = (Inl e, w2) \<Longrightarrow> Q w (Inl e, w2)"
    and cont: "\<And>w m w1 served served' w2 r. receive (e_wire E) w = (Inr m, w1) \<Longrightarrow>
      serve_message E sh served m w1 = (Inr served', w2) \<Longrightarrow> Q w2 r \<Longrightarrow> Q w r"
  shows "Q w (serve_loop E sh served w)"
proof (induction "length (inp w)" arbitrary: served w rule: less_induct)
  case less
  obtain r w1 where rc: "receive (e_wire E) w = (r, w1)" by fastforce
  show ?case
  proof (cases "card served < length (d_chunks (ls_descriptor sh)) \<and> (\<exists>m. r = Inr m)")
    case False
    with rc closed finished show ?thesis
      by (subst serve_loop.simps) (auto split: sum.splits)
  next
    case True
    then obtain m where m: "r = Inr m" by blast
    obtain r2 w2 where sm: "serve_message E sh served m w1 = (r2, w2)" by fastforce
    show ?thesis
    proof (cases r2)
      case (Inl e)
      with True rc m sm failed show ?thesis
        by (subst serve_loop.simps) simp
    next
      case (Inr served')
      have "length (inp w2) < length (inp w)"
        using receive_consumes [of "e_wire E" w m w1] rc m same_inputD [OF serve_message_input sm] by simp
      with less [of w2 served'] cont [of w m w1 served served' w2] True rc m sm Inr show ?thesis
        by (subst serve_loop.simps) simp
    qed
  qed
qed

lemma serve_loop_pres [intro!, simp]: "preserves (frame F) (serve_loop E sh served)"
  unfolding preserves_def
proof (intro allI, rule serve_loop_rule [where Q = "\<lambda>w r. frame F w (snd r)"])
  have rc: "receive C w = (r, w1) \<Longrightarrow> frame F w w1" for C w r w1
    using receive_pres [of F C] unfolding preserves_def by (metis snd_conv)
  have sm: "serve_message E sh served m w1 = (r, w2) \<Longrightarrow> frame F w1 w2" for served m w1 r w2
    using serve_message_pres [of F E sh served m] unfolding preserves_def by (metis snd_conv)
  show "frame F w (snd (Inr (), w))" for w
    by (simp add: frame.R_refl)
  show "frame F w (snd (Inr (), w1)) \<and> frame F w (snd (Inl (NetProtocol e), w1))"
    if "receive (e_wire E) w = (Inl e, w1)" for w e w1
    using rc [OF that] by simp
  show "frame F w (snd (Inl e, w2))" if "receive (e_wire E) w = (Inr m, w1)" "serve_message E sh served m w1 = (Inl e, w2)"
    for w m w1 served e w2
    using frame.R_trans [OF rc [OF that(1)] sm [OF that(2)]] by simp
  show "frame F w (snd r)" if "receive (e_wire E) w = (Inr m, w1)" "serve_message E sh served m w1 = (Inr served', w2)"
    "frame F w2 (snd r)" for w m w1 served served' w2 r
    using frame.R_trans [OF frame.R_trans [OF rc [OF that(1)] sm [OF that(2)]] that(3)] .
qed

lemma wrap_pres [intro!, simp]: "preserves (frame F) (wrap_file_key D k fid key)"
  unfolding wrap_file_key_def generate_nonce_def by (auto intro!: frame.pres_bind simp: Let_def)

lemma serve_share_pres [intro!, simp]: "preserves (frame F) (serve_share E k sh)"
  unfolding serve_share_def send_share_header_def
  by (auto intro!: frame.pres_bind frame.pres_into)

lemma session_pres [intro!, simp]:
  "preserves (frame F) (library_connected_peer E root opts)" "preserves (frame F) (share_connected_peer E root sid opts)"
  unfolding library_connected_peer_def share_connected_peer_def
  by (auto intro!: frame.pres_bind)

text \<open>A computation that never fails with the error \<open>e\<close>.\<close>

definition never :: "'e \<Rightarrow> ('e, 'a) io \<Rightarrow> bool" where
  "never e m \<longleftrightarrow> (\<forall>w w'. m w \<noteq> (Inl e, w'))"

lemma never_bind [intro]: "never e m \<Longrightarrow> (\<And>x. never e (f x)) \<Longrightarrow> never e (bindE m f)"
  by (auto simp: never_def bindE_Inl)

lemma never_simps [intro!, simp]:
  "never e (returnE x)" "never e (Pair (Inr x))" "never e (tryE m)"
  "never e (throwE e') \<longleftrightarrow> e' \<noteq> e" "never e (liftE r) \<longleftrightarrow> r \<noteq> Inl e" "never e (Pair r') \<longleftrightarrow> r' \<noteq> Inl e"
  by (auto simp: never_def tryE_def split: prod.splits)

lemma never_into [intro]: "(\<And>x. g x \<noteq> e) \<Longrightarrow> never e (intoE g m)"
  by (auto simp: never_def intoE_Inl)

lemma never_net [intro!, simp]: "never PeerAuthenticationFailed (net_send C m)" "never PeerAuthenticationFailed (net_receive C)"
  by (auto simp: net_send_def net_receive_def intro!: never_into)

subsection \<open>Peers that cannot prove the pre-shared key\<close>

lemma never_handshake [intro!, simp]: "never PeerAuthenticationFailed (server_protocol_handshake C i)"
proof -
  have "check_capabilities fs rs \<noteq> Inl PeerAuthenticationFailed" for fs rs
    by (induction rs) auto
  moreover have "expect_hello m \<noteq> Inl PeerAuthenticationFailed" for m
    by (cases m) (auto simp: expect_hello_def)
  ultimately show ?thesis
    unfolding server_protocol_handshake_def server_hello_handshake_def receive_hello_def
      exchange_capabilities_as_server_def receive_and_validate_peer_capabilities_def send_local_capabilities_def
    by (auto intro!: never_bind split: wire_message.split)
qed

lemma never_serve_message [intro!, simp]: "never PeerAuthenticationFailed (serve_message E sh served m)"
  by (cases m) (auto simp: serve_message_def ok_or_def intro!: never_bind never_into split: option.splits)

lemma never_serve_loop [intro!, simp]: "never PeerAuthenticationFailed (serve_loop E sh served)"
proof -
  have "fst (serve_loop E sh served w) \<noteq> Inl PeerAuthenticationFailed" for w
    using never_serve_message [of E sh]
    by (intro serve_loop_rule [where Q = "\<lambda>w r. fst r \<noteq> Inl PeerAuthenticationFailed"]) (auto simp: never_def)
  then show ?thesis by (auto simp: never_def) (metis fst_conv)
qed

lemma never_serve_share [intro!, simp]: "never PeerAuthenticationFailed (serve_share E k sh)"
  by (auto simp: serve_share_def send_share_header_def intro!: never_bind never_into)

lemma never_load_share [intro!, simp]: "never PeerAuthenticationFailed (load_share E root sid)"
proof -
  have "never PeerAuthenticationFailed (available_chunk D P m)" for D P m
    by (auto simp: available_chunk_def has_chunk_def never_def bindE_Inl path_is_file_def tryE_def
        split: prod.splits sum.splits metadata.splits if_splits)
  then have "never PeerAuthenticationFailed (mapE (available_chunk D P) ms)" for D P ms
    by (induction ms) (auto intro!: never_bind)
  then show ?thesis
    by (auto simp: load_share_def Let_def available_chunk_indexes_def manifest_from_descriptor_def intro!: never_bind never_into)
qed

lemma server_handshake_sends:
  assumes "server_protocol_handshake C i w = (Inr r, w')"
  obtains f1 f2 where "out w' = out w @ f1 @ f2" "frame_of C (Hello i) f1"
    "frame_of C (Capabilities ETLE_WIRE_PROTOCOL_VERSION local_capabilities) f2"
proof -
  from assms obtain w1 w2 w3 where rh: "receive_hello C w = (Inr r, w1)" and s1: "net_send C (Hello i) w1 = (Inr (), w2)"
      and rc: "receive_and_validate_peer_capabilities C w2 = (Inr (), w3)"
      and s2: "net_send C (Capabilities ETLE_WIRE_PROTOCOL_VERSION local_capabilities) w3 = (Inr (), w')"
    by (auto simp: server_protocol_handshake_def server_hello_handshake_def exchange_capabilities_as_server_def
        send_local_capabilities_def bindE_Inr)
  have "out w1 = out w"
    using rh net_receive_Inr by (auto simp: receive_hello_def bindE_Inr)
  moreover have "out w3 = out w2"
  proof -
    from rc obtain m where "net_receive C w2 = (Inr m, w3)"
      unfolding receive_and_validate_peer_capabilities_def bindE_Inr
      by (elim exE conjE) (auto split: wire_message.splits if_splits)
    then show ?thesis using net_receive_Inr by blast
  qed
  ultimately show ?thesis
    using that net_send_Inr [OF s1] net_send_Inr [OF s2] by (metis append_assoc)
qed

lemma never_unauth: "never PeerAuthenticationFailed (server_unauthenticated_session_key_exchange D C)"
proof -
  have "expect_key_exchange m \<noteq> Inl PeerAuthenticationFailed" for m
    by (cases m) (auto simp: expect_key_exchange_def)
  moreover have "map_err NetCrypto r \<noteq> Inl PeerAuthenticationFailed" for r :: "(crypto_error, shared_secret_bytes) result"
    by (cases r) auto
  ultimately show ?thesis
    by (auto simp: server_unauthenticated_session_key_exchange_def receive_key_exchange_def generate_keypair_def fill_bytes_def
        never_def bindE_Inl net_send_def net_receive_def intoE_Inl)
qed

lemma never_session: "never PeerAuthenticationFailed (server_session_key_exchange D C)"
  unfolding server_session_key_exchange_def by (intro never_bind never_unauth) auto

lemma rejected_proof_sends:
  assumes "server_authenticated_session_key_exchange D C psk w = (Inl PeerAuthenticationFailed, w')"
  obtains s f where "out w' = out w @ f" "frame_of C (KeyExchange s) f"
proof -
  note n1 = never_unauth
  have n2: "expect_auth_proof m \<noteq> Inl PeerAuthenticationFailed" for m
    by (cases m) (auto simp: expect_auth_proof_def)
  from assms n1 obtain k c s w1 where un: "server_unauthenticated_session_key_exchange D C w = (Inr (k, c, s), w1)"
      and rest: "bindE (receive_auth_proof C) (\<lambda>client_tag.
        bindE (liftE (verify_auth_tag (derive_auth_tag D psk k c s Client) client_tag)) (\<lambda>_.
        bindE (net_send C (AuthProof (derive_auth_tag D psk k c s Server))) (\<lambda>_. returnE k))) w1 = (Inl PeerAuthenticationFailed, w')"
    by (auto simp: server_authenticated_session_key_exchange_def bindE_Inl never_def)
  from rest n2 never_net obtain t where "receive_auth_proof C w1 = (Inr t, w')"
    by (auto simp: bindE_Inl receive_auth_proof_def never_def bindE_Inr)
  then have "out w' = out w1"
    using receive_auth_proof_Inr by blast
  moreover from un obtain u1 u2 kp where "receive_key_exchange C w = (Inr c, u1)" "(generate_keypair D :: (network_error, ephemeral_keypair) io) u1 = (Inr kp, u2)"
      "s = kp_public kp" "net_send C (KeyExchange (kp_public kp)) u2 = (Inr (), w1)"
    unfolding server_unauthenticated_session_key_exchange_def bindE_Inr
    by (elim exE conjE) (auto intro!: that)
  moreover from this have "out u2 = out w"
    using receive_key_exchange_Inr by (auto simp: generate_keypair_run)
  ultimately show ?thesis
    using that net_send_Inr by metis
qed

subsection \<open>The start of a session over a connection that does not fail\<close>

lemma server_handshake_runs:
  assumes "wire_ok C" and "faults w = []" and "inp w = f1 @ f2 @ rest" and "frame_of C (Hello i) f1"
    and "frame_of C (Capabilities ETLE_WIRE_PROTOCOL_VERSION local_capabilities) f2" and "frame_of C (Hello j) g1"
  shows "server_protocol_handshake C j w = (Inr i, w\<lparr>inp := rest, out := out w @ g1 @ f2\<rparr>)"
proof -
  let ?w1 = "w\<lparr>inp := f2 @ rest, out := out w @ g1\<rparr>"
  have caps: "check_capabilities local_capabilities required_capabilities = Inr ()"
    by (simp add: local_capabilities_def required_capabilities_def)
  have "receive_hello C w = (Inr i, w\<lparr>inp := f2 @ rest\<rparr>)"
    using net_receive_frame [OF assms(1-4)] by (simp add: receive_hello_def io_simps expect_hello_def)
  moreover have "receive_and_validate_peer_capabilities C ?w1 = (Inr (), w\<lparr>inp := rest, out := out w @ g1\<rparr>)"
    using net_receive_frame [OF assms(1), of ?w1, OF _ _ assms(5)] assms(2) caps
    by (simp add: receive_and_validate_peer_capabilities_def io_simps)
  ultimately show ?thesis
    using net_send_frame [of "w\<lparr>inp := f2 @ rest\<rparr>", OF _ assms(6)]
      net_send_frame [of "w\<lparr>inp := rest, out := out w @ g1\<rparr>", OF _ assms(5)] assms(2)
    by (simp add: server_protocol_handshake_def server_hello_handshake_def exchange_capabilities_as_server_def
        send_local_capabilities_def io_simps)
qed

lemma server_exchange_runs:
  assumes "wire_ok C" and "faults w = []" and "inp w = f @ rest" and "frame_of C (KeyExchange c) f" and "frame_of C (KeyExchange s) g"
    and "s = kp_public (keypair_of D (next_secret w))" and "diffie_hellman D (keypair_of D (next_secret w)) c = Inr shared"
  shows "server_unauthenticated_session_key_exchange D C w = (Inr (derive_session_key_with_transcript D shared c s, c, s),
    w\<lparr>inp := rest, rng_pos := rng_pos w + 32, out := out w @ g\<rparr>)"
proof -
  let ?w1 = "w\<lparr>inp := rest\<rparr>"
  let ?w2 = "w\<lparr>inp := rest, rng_pos := rng_pos w + 32\<rparr>"
  have "receive_key_exchange C w = (Inr c, ?w1)"
    by (rule receive_key_exchange_frame [OF assms(1-4)])
  moreover have "(generate_keypair D :: (network_error, ephemeral_keypair) io) ?w1 = (Inr (keypair_of D (next_secret w)), ?w2)"
    by (simp add: generate_keypair_run next_secret_def)
  moreover have "net_send C (KeyExchange s) ?w2 = (Inr (), w\<lparr>inp := rest, rng_pos := rng_pos w + 32, out := out w @ g\<rparr>)"
    using net_send_frame [of ?w2, OF _ assms(5)] assms(2) by simp
  ultimately show ?thesis
    using assms(6,7) by (simp add: server_unauthenticated_session_key_exchange_def io_simps)
qed

section \<open>Properties\<close>

lemma load_share_Inr:
  assumes "load_share E root sid w = (Inr sh, w')"
  shows "lookup w' = lookup w \<and> ls_paths sh = for_share root sid \<and> manifest_from_descriptor (ls_descriptor sh) = Inr (ls_manifest sh) \<and>
    (\<forall>i \<in> set (ls_available sh). \<exists>meta \<in> set (d_chunks (ls_descriptor sh)). cm_index meta = i \<and>
      chunk_verified (e_deps E) (for_share root sid) w meta)"
proof -
  let ?P = "for_share root sid"
  from assms obtain w1 w2 where rd: "read_descriptor (e_deps E) (e_lib E) ?P w = (Inr (ls_descriptor sh), w1)"
      and rs: "read_secret (e_lib E) ?P w1 = (Inr (ls_secret sh), w2)"
      and m: "manifest_from_descriptor (ls_descriptor sh) = Inr (ls_manifest sh)"
      and av: "available_chunk_indexes (e_deps E) ?P (ls_descriptor sh) w2 = (Inr (ls_available sh), w')" and p: "ls_paths sh = ?P"
    by (auto simp: load_share_def Let_def bindE_Inr)
  have "lookup w1 = lookup w" "lookup w2 = lookup w1" "lookup w' = lookup w2"
    using frame_all_lookup [OF read_records_pres(1) rd] frame_all_lookup [OF read_records_pres(2) rs]
      frame_all_lookup [OF frame_available av] .
  then show ?thesis
    using m p available_sound [OF av] by (auto simp: chunk_verified_def)
qed

lemma loaded_share_ready:
  assumes "load_share E root sid w0 = (Inr sh, w)" and "distinct (map cm_index (d_chunks (ls_descriptor sh)))"
    and "sizes_fit_u64 w" and "\<And>c. c \<in> set (d_chunks (ls_descriptor sh)) \<Longrightarrow> RAW_CHUNK_HEADER_SIZE + unat (cm_encrypted_size c) \<le> MAX_FRAME_SIZE"
  shows "share_ready w sh"
  unfolding share_ready_def
proof
  fix i
  assume "i \<in> set (ls_available sh)"
  then obtain meta where meta: "meta \<in> set (d_chunks (ls_descriptor sh))" "cm_index meta = i"
      and v: "chunk_verified (e_deps E) (ls_paths sh) w meta"
    using load_share_Inr [OF assms(1)] by (auto simp: chunk_verified_def)
  have "find (\<lambda>chunk. cm_index chunk = i) (d_chunks (ls_descriptor sh)) = Some meta"
    using find_by_key [OF assms(2) meta(1)] meta(2) by simp
  moreover from v obtain bs where bs: "lookup w (chunk_path (ls_paths sh) i) = Some (FileN bs)"
      "(of_nat (length bs) :: u64) = cm_encrypted_size meta"
    by (auto simp: chunk_verified_def meta(2))
  moreover have "length bs = unat (cm_encrypted_size meta)"
    using sizes_fit_u64D [OF assms(3) bs(1)] by (simp add: bs(2) [symmetric] unat_of_nat take_bit_eq_mod)
  ultimately show "\<exists>meta bs. find (\<lambda>chunk. cm_index chunk = i) (d_chunks (ls_descriptor sh)) = Some meta \<and>
     lookup w (chunk_path (ls_paths sh) i) = Some (FileN bs) \<and> (of_nat (length bs) :: u64) = cm_encrypted_size meta \<and>
     RAW_CHUNK_HEADER_SIZE + length bs \<le> MAX_FRAME_SIZE"
    using assms(4) [OF meta(1)] by auto
qed

text \<open>C14: a seeder that has loaded a share answers the requests of a peer as specified: whoever reads
  its replies gets, message by message, the answers to the requests, with the verified bytes of the
  library as chunks and an error for a chunk it does not have.\<close>

theorem seeder_answers_requests:
  assumes "wire_ok (e_wire E)" and "load_share E root sid w0 = (Inr sh, w)" and "faults w = []" and "sizes_fit_u64 w"
    and "distinct (map cm_index (d_chunks (ls_descriptor sh)))"
    and "\<And>c. c \<in> set (d_chunks (ls_descriptor sh)) \<Longrightarrow> RAW_CHUNK_HEADER_SIZE + unat (cm_encrypted_size c) \<le> MAX_FRAME_SIZE"
    and "\<And>m. m \<in> set ms \<Longrightarrow> answerable (e_wire E) (set (ls_available sh)) m" and "frames_of (e_wire E) ms (inp w)"
    and "replies = answers (chunk_bytes w sh) (set (ls_available sh)) (length (d_chunks (ls_descriptor sh))) {} ms"
  shows "\<exists>w' sent. serve_loop E sh {} w = (Inr (), w') \<and> out w' = out w @ sent \<and>
    (\<forall>v rest. faults v = [] \<longrightarrow> inp v = sent @ rest \<longrightarrow> mapE (\<lambda>_. net_receive (e_wire E)) replies v = (Inr replies, v\<lparr>inp := rest\<rparr>)) \<and>
    (\<forall>i \<in> set (ls_available sh). \<exists>meta \<in> set (d_chunks (ls_descriptor sh)). cm_index meta = i \<and>
      hash_chunk (e_deps E) (chunk_bytes w sh i) = cm_hash meta)"
proof -
  have ready: "share_ready w sh"
    using assms(6) by (rule loaded_share_ready [OF assms(2,5,4)])
  obtain w' sent where "serve_loop E sh {} w = (Inr (), w')" "out w' = out w @ sent" "frames_of (e_wire E) replies sent"
    using serve_loop_answers [OF assms(1,7,3) ready assms(8)] assms(9) by blast
  moreover have "\<forall>i \<in> set (ls_available sh). \<exists>meta \<in> set (d_chunks (ls_descriptor sh)). cm_index meta = i \<and>
      hash_chunk (e_deps E) (chunk_bytes w sh i) = cm_hash meta"
    using load_share_Inr [OF assms(2)] by (force simp: chunk_verified_def chunk_bytes_def stored_bytes_def)
  ultimately show ?thesis
    using receive_frames [OF assms(1)] by blast
qed

definition sample_requests :: "wire_message list" where
  "sample_requests = [RequestChunk 5, RequestChunk 0]"

definition sample_serve_env :: transfer_env where
  "sample_serve_env = sample_env (sample_requests @ [ErrorMsg (unavailable_text 5)]) sample_seed_codecs"

definition sample_serve_world :: world where
  "sample_serve_world = sample_seed_world\<lparr>inp := table_stream (sample_requests @ [ErrorMsg (unavailable_text 5)]) sample_requests\<rparr>"

definition sample_loaded :: loaded_share where
  "sample_loaded = \<lparr>ls_paths = sample_seed_paths, ls_descriptor = sample_seed_descriptor, ls_secret = sample_seed_secret,
     ls_manifest = sample_seed_manifest, ls_available = [0]\<rparr>"

lemma sample_load:
  "load_share sample_serve_env [''r''] (d_share_id sample_seed_descriptor) sample_serve_world = (Inr sample_loaded, sample_serve_world)"
proof -
  let ?w = sample_serve_world
  have look: "lookup ?w = lookup sample_seed_world" and nf: "faults ?w = []"
    by (simp_all add: sample_serve_world_def sample_seed_files fun_eq_iff)
  have "read_descriptor sample_deps sample_seed_codecs sample_seed_paths ?w = (Inr sample_seed_descriptor, ?w)"
    using nf look by (simp add: read_descriptor_def io_simps fs_read_nofault sample_seed_files ensure_share_id_def
        sample_seed_codecs_def single_bincode_def descriptor_from_bytes_def decode_whole_def)
      (simp add: sample_seed_descriptor_def descriptor_from_manifest_def descriptor_new_verifies)
  moreover have "read_secret sample_seed_codecs sample_seed_paths ?w = (Inr sample_seed_secret, ?w)"
    using nf look by (simp add: read_secret_def io_simps fs_read_nofault sample_seed_files ensure_share_id_def
        sample_seed_codecs_def single_bincode_def secret_from_bytes_def decode_whole_def sample_seed_secret_def)
  moreover have "available_chunk_indexes sample_deps sample_seed_paths sample_seed_descriptor ?w = (Inr [0], ?w)"
    using available_calm [OF nf] sample_seed_verified [OF look] by (simp add: sample_seed_meta_def)
  ultimately show ?thesis
    by (simp add: load_share_def Let_def io_simps sample_serve_env_def sample_env_def sample_loaded_def
        sample_seed_paths_def [symmetric])
qed

theorem seeder_answers_requests_witness:
  "\<exists>w' sent. serve_loop sample_serve_env sample_loaded {} sample_serve_world = (Inr (), w') \<and> out w' = sent \<and>
     mapE (\<lambda>_. net_receive (e_wire sample_serve_env)) [ErrorMsg (unavailable_text 5), Chunk 0 sample_cipher] (empty_world\<lparr>inp := sent\<rparr>) =
       (Inr [ErrorMsg (unavailable_text 5), Chunk 0 sample_cipher], empty_world)"
proof -
  have look: "lookup sample_serve_world = lookup sample_seed_world" and nf: "faults sample_serve_world = []" "out sample_serve_world = []"
    by (simp_all add: sample_serve_world_def sample_seed_files fun_eq_iff)
  have reps: "[ErrorMsg (unavailable_text 5), Chunk 0 sample_cipher] = answers (chunk_bytes sample_serve_world sample_loaded)
      (set (ls_available sample_loaded)) (length (d_chunks (ls_descriptor sample_loaded))) {} sample_requests"
    by (simp add: sample_requests_def sample_loaded_def chunk_bytes_def stored_bytes_def look sample_seed_files)
  have ok: "wire_ok (e_wire sample_serve_env)"
    by (simp add: sample_serve_env_def sample_env_def table_wire_ok)
  have ans: "answerable (e_wire sample_serve_env) (set (ls_available sample_loaded)) m" if "m \<in> set sample_requests" for m
    using that table_frame [of "ErrorMsg (unavailable_text 5)" "sample_requests @ [ErrorMsg (unavailable_text 5)]"]
    by (auto simp: answerable_def sample_loaded_def sample_requests_def sample_serve_env_def sample_env_def)
  have fr: "frames_of (e_wire sample_serve_env) sample_requests (inp sample_serve_world)"
    unfolding sample_serve_world_def sample_serve_env_def sample_env_def
    by (auto simp: sample_requests_def intro!: table_frames)
  have fit: "sizes_fit_u64 sample_serve_world"
    by (auto simp: sizes_fit_u64_def sample_serve_world_def sample_seed_world_def empty_world_def)
  have "distinct (map cm_index (d_chunks (ls_descriptor sample_loaded)))"
      "\<And>c. c \<in> set (d_chunks (ls_descriptor sample_loaded)) \<Longrightarrow> RAW_CHUNK_HEADER_SIZE + unat (cm_encrypted_size c) \<le> MAX_FRAME_SIZE"
    by (simp_all add: sample_loaded_def sample_seed_meta_def RAW_CHUNK_HEADER_SIZE_def MAX_FRAME_SIZE_def)
  from seeder_answers_requests [OF ok sample_load nf(1) fit this ans fr reps]
  obtain w' sent where "serve_loop sample_serve_env sample_loaded {} sample_serve_world = (Inr (), w')" "out w' = sent"
      "mapE (\<lambda>_. net_receive (e_wire sample_serve_env)) [ErrorMsg (unavailable_text 5), Chunk 0 sample_cipher] (empty_world\<lparr>inp := sent @ []\<rparr>) =
       (Inr [ErrorMsg (unavailable_text 5), Chunk 0 sample_cipher], empty_world\<lparr>inp := sent, inp := []\<rparr>)"
    using nf(2) by (fastforce simp: empty_world_def)
  then show ?thesis
    by (simp add: empty_world_def)
qed

text \<open>C15: a peer that fails the authentication with the pre-shared key has been sent the greeting, the
  capabilities and an ephemeral public key, and nothing else: no name, no manifest, no key, no chunk.\<close>

theorem unauthenticated_peer_learns_nothing:
  assumes "library_connected_peer E root opts w = (Inl PeerAuthenticationFailed, w')"
  shows "\<exists>s sent. so_auth_psk opts \<noteq> None \<and> out w' = out w @ sent \<and>
    frames_of (e_wire E) [Hello (so_seeder_id opts), Capabilities ETLE_WIRE_PROTOCOL_VERSION local_capabilities, KeyExchange s] sent"
proof -
  have "expect_request_share m \<noteq> Inl PeerAuthenticationFailed" for m
    by (cases m) (auto simp: expect_request_share_def)
  then have later: "never PeerAuthenticationFailed (bindE (bindE (net_receive (e_wire E)) (\<lambda>m. liftE (expect_request_share m)))
      (\<lambda>sid. bindE (load_share E root sid) (\<lambda>sh. serve_share E k sh)))" for k
    by (auto intro!: never_bind)
  from assms never_handshake later obtain r w1 where hs: "server_protocol_handshake (e_wire E) (so_seeder_id opts) w = (Inr r, w1)"
      and kx: "server_transfer_session_key_exchange E (so_auth_psk opts) w1 = (Inl PeerAuthenticationFailed, w')"
    unfolding library_connected_peer_def bindE_Inl [of _ _ w] bindE_Inl [of "server_transfer_session_key_exchange E (so_auth_psk opts)"] never_def
    by blast
  obtain f1 f2 where f: "out w1 = out w @ f1 @ f2" "frame_of (e_wire E) (Hello (so_seeder_id opts)) f1"
      "frame_of (e_wire E) (Capabilities ETLE_WIRE_PROTOCOL_VERSION local_capabilities) f2"
    using server_handshake_sends [OF hs] .
  obtain psk where psk: "so_auth_psk opts = Some psk"
    using kx never_session by (cases "so_auth_psk opts") (auto simp: server_transfer_session_key_exchange_def never_def)
  with kx have "server_authenticated_session_key_exchange (e_deps E) (e_wire E) psk w1 = (Inl PeerAuthenticationFailed, w')"
    by (simp add: server_transfer_session_key_exchange_def)
  then obtain s f3 where "out w' = out w1 @ f3" "frame_of (e_wire E) (KeyExchange s) f3"
    by (rule rejected_proof_sends)
  with f psk show ?thesis
    unfolding frames_of_def by (intro exI [of _ s] exI [of _ "f1 @ f2 @ f3"]) (auto intro!: exI [of _ "[f1, f2, f3]"])
qed

text \<open>A peer whose proof was made with another key is turned away.\<close>

lemma wrong_proof_rejected:
  assumes "wire_ok C" and "faults w = []" and "inp w = f1 @ f2 @ f3 @ f4" and "D = e_deps E" and "C = e_wire E"
    and "frame_of C (Hello i) f1" and "frame_of C (Capabilities ETLE_WIRE_PROTOCOL_VERSION local_capabilities) f2"
    and "frame_of C (KeyExchange c) f3" and "frame_of C (AuthProof t) f4"
    and "frame_of C (Hello (so_seeder_id opts)) g1" and "frame_of C (KeyExchange s) g3" and "so_auth_psk opts = Some psk"
    and "s = kp_public (keypair_of D (next_secret w))" and "diffie_hellman D (keypair_of D (next_secret w)) c = Inr shared"
    and "t \<noteq> derive_auth_tag D psk (derive_session_key_with_transcript D shared c s) c s Client"
  shows "\<exists>w'. library_connected_peer E root opts w = (Inl PeerAuthenticationFailed, w')"
proof -
  let ?w2 = "w\<lparr>inp := f3 @ f4, out := out w @ g1 @ f2\<rparr>"
  let ?w3 = "w\<lparr>inp := f4, rng_pos := rng_pos w + 32, out := out w @ g1 @ f2 @ g3\<rparr>"
  have hs: "server_protocol_handshake C (so_seeder_id opts) w = (Inr i, ?w2)"
    by (rule server_handshake_runs [OF assms(1-3,6,7,10)])
  have un: "server_unauthenticated_session_key_exchange D C ?w2 =
      (Inr (derive_session_key_with_transcript D shared c s, c, s), ?w3)"
    using server_exchange_runs [OF assms(1), of ?w2 f3 f4 c s g3 D shared] assms(2,8,11,13,14) by (simp add: next_secret_def)
  have r2: "receive_auth_proof C ?w3 = (Inr t, ?w3\<lparr>inp := []\<rparr>)"
    using receive_auth_proof_frame [OF assms(1), of ?w3 _ "[]", OF _ _ assms(9)] assms(2) by simp
  have "server_transfer_session_key_exchange E (so_auth_psk opts) ?w2 = (Inl PeerAuthenticationFailed, ?w3\<lparr>inp := []\<rparr>)"
    using un r2 assms(4,5,12,15) by (simp add: server_transfer_session_key_exchange_def io_simps
        server_authenticated_session_key_exchange_def verify_auth_tag_def tags_equal)
  then show ?thesis
    using hs assms(5) by (simp add: library_connected_peer_def io_simps)
qed

definition sample_intruder_tag :: auth_tag where
  "sample_intruder_tag = derive_auth_tag sample_deps (AuthPsk 5) (derive_session_key_with_transcript sample_deps
     (SharedSecretBytes 9) (PublicKeyBytes 9) (PublicKeyBytes 9)) (PublicKeyBytes 9) (PublicKeyBytes 9) Client + 1"

definition sample_intruder :: "wire_message list" where
  "sample_intruder = [Hello ''p'', Capabilities ETLE_WIRE_PROTOCOL_VERSION local_capabilities,
     KeyExchange (PublicKeyBytes 9), AuthProof sample_intruder_tag]"

definition sample_serve_options :: serve_file_options where
  "sample_serve_options = serve_with_auth_psk (AuthPsk 5) (serve_options_new ''p'' Quiet)"

theorem unauthenticated_peer_learns_nothing_witness:
  "\<exists>w' s sent. library_connected_peer (sample_env sample_intruder sample_seed_codecs) [''r''] sample_serve_options
      (sample_client_world\<lparr>inp := table_stream sample_intruder sample_intruder\<rparr>) = (Inl PeerAuthenticationFailed, w') \<and>
    out w' = sent \<and> frames_of (table_wire sample_intruder) [Hello ''p'',
      Capabilities ETLE_WIRE_PROTOCOL_VERSION local_capabilities, KeyExchange s] sent"
proof -
  let ?w = "sample_client_world\<lparr>inp := table_stream sample_intruder sample_intruder\<rparr>"
  let ?E = "sample_env sample_intruder sample_seed_codecs"
  have fr: "frame_of (table_wire sample_intruder) m (table_bytes sample_intruder m)" if "m \<in> set sample_intruder" for m
    using that by (intro table_frame) (auto simp: sample_intruder_def)
  have sec: "next_secret ?w = 1"
    using sample_secret by (simp add: next_secret_def)
  have w: "faults ?w = []" "out ?w = []" "inp ?w = table_bytes sample_intruder (Hello ''p'') @
      table_bytes sample_intruder (Capabilities ETLE_WIRE_PROTOCOL_VERSION local_capabilities) @
      table_bytes sample_intruder (KeyExchange (PublicKeyBytes 9)) @ table_bytes sample_intruder (AuthProof sample_intruder_tag)"
    by (simp_all add: sample_client_world_def empty_world_def table_stream_def) (simp add: sample_intruder_def)
  have m: "Hello ''p'' \<in> set sample_intruder" "Capabilities ETLE_WIRE_PROTOCOL_VERSION local_capabilities \<in> set sample_intruder"
      "KeyExchange (PublicKeyBytes 9) \<in> set sample_intruder" "AuthProof sample_intruder_tag \<in> set sample_intruder"
    by (simp_all add: sample_intruder_def)
  have neq: "sample_intruder_tag \<noteq> derive_auth_tag sample_deps (AuthPsk 5) (derive_session_key_with_transcript sample_deps
     (SharedSecretBytes 9) (PublicKeyBytes 9) (PublicKeyBytes 9)) (PublicKeyBytes 9) (PublicKeyBytes 9) Client"
    unfolding sample_intruder_tag_def by (rule notI) (simp only: add_cancel_left_right one_neq_zero)
  have k: "PublicKeyBytes 9 = kp_public (keypair_of sample_deps (next_secret ?w))"
      "diffie_hellman sample_deps (keypair_of sample_deps (next_secret ?w)) (PublicKeyBytes 9) = Inr (SharedSecretBytes 9)"
    unfolding sec using sample_shared_not_zero by (simp_all add: keypair_of_def sample_deps_def)
  have o: "so_seeder_id sample_serve_options = ''p''" "so_auth_psk sample_serve_options = Some (AuthPsk 5)"
    by (simp_all add: sample_serve_options_def serve_with_auth_psk_def serve_options_new_def)
  have "\<exists>w'. library_connected_peer ?E [''r''] sample_serve_options ?w = (Inl PeerAuthenticationFailed, w')"
    using fr [OF m(1)] fr [OF m(2)] fr [OF m(3)] fr [OF m(4)]
    by (intro wrong_proof_rejected [OF table_wire_ok w(1,3) _ _ _ _ _ _ _ _ o(2) k neq])
      (simp_all add: sample_env_def o)
  then show ?thesis
    using unauthenticated_peer_learns_nothing [of ?E] w(2) o(1) by (fastforce simp: sample_env_def)
qed

text \<open>Whatever a peer sends and whatever system call fails, a session of a seeder returns and leaves
  every file of the machine as it was.\<close>

theorem serving_reads_only:
  "lookup (snd (library_connected_peer E root opts w)) = lookup w \<and>
   lookup (snd (share_connected_peer E root sid opts w)) = lookup w"
  using session_pres(1) [of "\<lambda>_. False" E root opts] session_pres(2) [of "\<lambda>_. False" E root sid opts]
  by (simp add: preserves_def frame_def fun_eq_iff)

end
