(* ===== verification/Etle_Download_Safe.thy ===== *)
theory Etle_Download_Safe
  imports Etle_Download Etle_Serve
begin

text \<open>
  What a download guarantees: the output has the hash of the manifest, the library holds every chunk
  and the state of a completed share, and the share can be served to others. The proofs follow the
  window loop by one rule for predicates on its state and the world, with the invariant that the
  progress in memory records exactly the completed chunks.
\<close>

section \<open>The state in memory\<close>

definition library_inv :: "library_paths \<Rightarrow> u32 set \<Rightarrow> library_state \<Rightarrow> bool" where
  "library_inv P completed state \<longleftrightarrow> (case state of
      None \<Rightarrow> True
    | Some st \<Rightarrow> ad_paths st = P \<and> progress_inv (ad_progress st) \<and> progress_set (ad_progress st) = completed)"

lemma flush_keeps:
  assumes "flush_download_progress E st mode out_dir w = (Inr (r, st'), w')"
  shows "ad_paths st' = ad_paths st \<and> ad_progress st' = ad_progress st"
proof -
  from assms obtain x :: "file_error + unit" and w1 where "(case x of Inl error \<Rightarrow> returnE (Inl (NetFile error), st)
      | Inr _ \<Rightarrow> bindE clock_now (\<lambda>now. returnE (Inr (), st\<lparr>ad_dirty_chunks := 0, ad_last_progress_flush := now\<rparr>))) w1 =
        (Inr (r, st') :: network_error + _, w')"
    unfolding flush_download_progress_def bindE_Inr by blast
  then show ?thesis
    by (cases x) (auto simp: bindE_Inr)
qed

lemma maybe_flush_keeps:
  "maybe_flush_download_progress E st out_dir w = (Inr (r, st'), w') \<Longrightarrow> ad_paths st' = ad_paths st \<and> ad_progress st' = ad_progress st"
  by (auto simp: maybe_flush_download_progress_def bindE_Inr dest: flush_keeps split: if_split_asm)

lemma count_chunk_simps [simp]:
  "ad_paths (count_chunk i st) = ad_paths st" "ad_progress (count_chunk i st) = mark_completed i (ad_progress st)"
  by (simp_all add: count_chunk_def)

lemma persist_file_Inr:
  assumes "persist_downloaded_chunk_file E (Some st) i temp out_dir w = (Inr (Inr u, state), w')"
  obtains st' w1 where "state = Some st'" "ad_paths st' = ad_paths st" "ad_progress st' = mark_completed i (ad_progress st)"
    "move_downloaded (ad_paths st) i temp w = (Inr (), w1)"
    "maybe_flush_download_progress E (count_chunk i st) out_dir w1 = (Inr (Inr u, st'), w')"
proof -
  from assms obtain x w1 where mv: "move_downloaded (ad_paths st) i temp w = (x, w1)"
      and k: "(case x of Inl error \<Rightarrow> returnE (Inl (NetIo error), Some st)
        | Inr _ \<Rightarrow> bindE (maybe_flush_download_progress E (count_chunk i st) out_dir) (\<lambda>(r, st'). returnE (r, Some st'))) w1 = (Inr (Inr u, state), w')"
    unfolding persist_downloaded_chunk_file_def option.case bindE_Inr by auto
  from k obtain st' where "x = Inr ()" "state = Some st'" "maybe_flush_download_progress E (count_chunk i st) out_dir w1 = (Inr (Inr u, st'), w')"
    by (cases x) (auto simp: bindE_Inr)
  then show ?thesis
    using that mv maybe_flush_keeps by fastforce
qed

lemma persist_chunk_Inr:
  assumes "persist_downloaded_chunk E (Some st) c out_dir w = (Inr (Inr u, state), w')"
  obtains st' w1 p where "state = Some st'" "ad_paths st' = ad_paths st" "ad_progress st' = mark_completed (ec_index c) (ad_progress st)"
    "write_chunk (ad_paths st) c w = (Inr p, w1)"
    "maybe_flush_download_progress E (count_chunk (ec_index c) st) out_dir w1 = (Inr (Inr u, st'), w')"
proof -
  from assms obtain x w1 where mv: "write_chunk (ad_paths st) c w = (x, w1)"
      and k: "(case x of Inl error \<Rightarrow> returnE (Inl (NetFile error), Some st)
        | Inr _ \<Rightarrow> bindE (maybe_flush_download_progress E (count_chunk (ec_index c) st) out_dir) (\<lambda>(r, st'). returnE (r, Some st'))) w1 = (Inr (Inr u, state), w')"
    unfolding persist_downloaded_chunk_def option.case bindE_Inr by auto
  from k obtain p st' where "x = Inr p" "state = Some st'" "maybe_flush_download_progress E (count_chunk (ec_index c) st) out_dir w1 = (Inr (Inr u, st'), w')"
    by (cases x) (auto simp: bindE_Inr)
  then show ?thesis
    using that mv maybe_flush_keeps by fastforce
qed

lemma library_inv_persist:
  assumes "library_inv P completed state"
  shows "persist_downloaded_chunk_file E state i temp out_dir w = (Inr (Inr u, state'), w') \<Longrightarrow> library_inv P (insert i completed) state'"
    and "persist_downloaded_chunk E state c out_dir w = (Inr (Inr u, state'), w') \<Longrightarrow> library_inv P (insert (ec_index c) completed) state'"
proof -
  have mark: "progress_inv (mark_completed j p)" "progress_set (mark_completed j p) = insert j (progress_set p)" if "progress_inv p" for j p
    using mark_completed_refines [OF that, of j] by simp_all
  show "library_inv P (insert i completed) state'"
    if "persist_downloaded_chunk_file E state i temp out_dir w = (Inr (Inr u, state'), w')"
  proof (cases state)
    case None
    with that show ?thesis
      by (auto simp: persist_downloaded_chunk_file_def library_inv_def bindE_Inr)
  next
    case (Some st)
    from that [unfolded Some] show ?thesis
      by (rule persist_file_Inr) (use assms mark Some in \<open>auto simp: library_inv_def\<close>)
  qed
  show "library_inv P (insert (ec_index c) completed) state'"
    if "persist_downloaded_chunk E state c out_dir w = (Inr (Inr u, state'), w')"
  proof (cases state)
    case None
    with that show ?thesis
      by (auto simp: persist_downloaded_chunk_def library_inv_def)
  next
    case (Some st)
    from that [unfolded Some] show ?thesis
      by (rule persist_chunk_Inr) (use assms mark Some in \<open>auto simp: library_inv_def\<close>)
  qed
qed

section \<open>Following the window loop\<close>

text \<open>A predicate that filling the window and accepting a chunk keep holds when the loop ends.\<close>

lemma window_loop_rule:
  assumes fill: "\<And>st w in_flight rest w1. I st w \<Longrightarrow>
      fill_window (e_wire E) avail (ws_completed st) (ws_active st) (ws_in_flight st) (ws_rest st) w = (Inr (in_flight, rest), w1) \<Longrightarrow>
      I (st\<lparr>ws_in_flight := in_flight, ws_rest := rest\<rparr>) w1"
    and acc: "\<And>st w r w1 st' w2. I st w \<Longrightarrow> receive_for_window E streaming (ws_library st) w = (Inr r, w1) \<Longrightarrow>
      accept_received E streaming out_dir mx st r w1 = (Inr st', w2) \<Longrightarrow> I st' w2"
  shows "window_loop E avail streaming out_dir mx st w = (Inr st', w') \<Longrightarrow> I st w \<Longrightarrow> I st' w'"
proof (induction "length (ws_in_flight st) + length (ws_rest st)" arbitrary: st w rule: less_induct)
  case less
  let ?fill = "fill_window (e_wire E) avail (ws_completed st) (ws_active st) (ws_in_flight st) (ws_rest st) w"
  obtain in_flight rest w1 where fw: "?fill = (Inr (in_flight, rest), w1)"
    using less.prems(1) by (cases ?fill rule: prod.exhaust; cases "fst ?fill") (auto simp: window_loop.simps [of E avail streaming out_dir mx st w])
  let ?st = "st\<lparr>ws_in_flight := in_flight, ws_rest := rest\<rparr>"
  have I1: "I ?st w1"
    using fill [OF less.prems(2) fw] .
  show ?case
  proof (cases "in_flight = []")
    case True
    with less.prems(1) fw I1 show ?thesis
      by (simp add: window_loop.simps [of E avail streaming out_dir mx st w])
  next
    case False
    let ?next = "bindE (receive_for_window E streaming (ws_library st)) (accept_received E streaming out_dir mx ?st) w1"
    obtain st1 w2 where nx: "?next = (Inr st1, w2)" and rest: "window_loop E avail streaming out_dir mx st1 w2 = (Inr st', w')"
      using less.prems(1) fw False by (cases ?next rule: prod.exhaust; cases "fst ?next") (auto simp: window_loop.simps [of E avail streaming out_dir mx st w])
    from nx obtain r u where "receive_for_window E streaming (ws_library ?st) w1 = (Inr r, u)" "accept_received E streaming out_dir mx ?st r u = (Inr st1, w2)"
      by (auto simp: bindE_Inr)
    from less.hyps [OF window_loop_decreases [OF fw nx] rest acc [OF I1 this]] show ?thesis .
  qed
qed

lemma window_loop_in_flight:
  "window_loop E avail streaming out_dir mx st w = (Inr st', w') \<Longrightarrow> ws_in_flight st' = []"
proof (induction "length (ws_in_flight st) + length (ws_rest st)" arbitrary: st w rule: less_induct)
  case less
  let ?fill = "fill_window (e_wire E) avail (ws_completed st) (ws_active st) (ws_in_flight st) (ws_rest st) w"
  obtain in_flight rest w1 where fw: "?fill = (Inr (in_flight, rest), w1)"
    using less.prems(1) by (cases ?fill rule: prod.exhaust; cases "fst ?fill") (auto simp: window_loop.simps [of E avail streaming out_dir mx st w])
  let ?st = "st\<lparr>ws_in_flight := in_flight, ws_rest := rest\<rparr>"
  show ?case
  proof (cases "in_flight = []")
    case True
    with less.prems(1) fw show ?thesis
      by (auto simp: window_loop.simps [of E avail streaming out_dir mx st w])
  next
    case False
    let ?next = "bindE (receive_for_window E streaming (ws_library st)) (accept_received E streaming out_dir mx ?st) w1"
    obtain st1 w2 where nx: "?next = (Inr st1, w2)" and rest: "window_loop E avail streaming out_dir mx st1 w2 = (Inr st', w')"
      using less.prems(1) fw False by (cases ?next rule: prod.exhaust; cases "fst ?next") (auto simp: window_loop.simps [of E avail streaming out_dir mx st w])
    from less.hyps [OF window_loop_decreases [OF fw nx] rest] show ?thesis .
  qed
qed

text \<open>The requests in flight are chunks of the manifest, under their index.\<close>

definition window_inv :: "library_paths \<Rightarrow> chunk_meta list \<Rightarrow> window_state \<Rightarrow> bool" where
  "window_inv P metas st \<longleftrightarrow> library_inv P (ws_completed st) (ws_library st) \<and> set (ws_rest st) \<subseteq> set metas \<and>
     (\<forall>(i, meta) \<in> set (ws_in_flight st). meta \<in> set metas \<and> cm_index meta = i) \<and>
     ws_completed st \<subseteq> cm_index ` set metas"

lemma set_update: "set (AList.update k v xs) \<subseteq> insert (k, v) (set xs)"
  by (induction xs) auto

lemma fill_window_sets:
  "fill_window C avail completed active in_flight rest w = (Inr (in_flight', rest'), w') \<Longrightarrow>
     set rest' \<subseteq> set rest \<and> set in_flight' \<subseteq> set in_flight \<union> {(cm_index m, m) |m. m \<in> set rest}"
proof (induction rest arbitrary: in_flight w)
  case (Cons m ms)
  consider (stop) "in_flight' = in_flight" "rest' = m # ms"
    | (skip) "fill_window C avail completed active in_flight ms w = (Inr (in_flight', rest'), w')"
    | (request) w1 where "fill_window C avail completed active (AList.update (cm_index m) m in_flight) ms w1 = (Inr (in_flight', rest'), w')"
    using Cons.prems by (auto simp: bindE_Inr split: if_split_asm)
  then show ?case
  proof cases
    case stop
    then show ?thesis by auto
  next
    case skip
    from Cons.IH [OF this] show ?thesis by auto
  next
    case request
    from Cons.IH [OF this] set_update [of "cm_index m" m in_flight] show ?thesis by fastforce
  qed
qed auto

lemma accepted_library:
  assumes "accept_received E streaming out_dir mx st r w = (Inr st', w')" and "library_inv P (ws_completed st) (ws_library st)"
  shows "library_inv P (ws_completed st') (ws_library st')"
proof -
  have cd: "ws_library (chunk_done mx i state st) = state" "ws_completed (chunk_done mx i state st) = insert i (ws_completed st)" for i state st
    by (simp_all add: chunk_done_def split: prod.splits)
  obtain fr t where r: "r = (fr, t)" by fastforce
  show ?thesis
  proof (cases fr)
    case (RawChunkFile chunk)
    with assms(1) r obtain temp state u v where
        "persist_downloaded_chunk_file E (ws_library st) (rr_index chunk) temp out_dir u = (Inr (Inr v, state), w')"
        "st' = chunk_done mx (rr_index chunk) state st"
      by (cases t) (auto simp: accept_received_def accept_raw_file_def bindE_Inr split: if_split_asm)
    then show ?thesis
      using library_inv_persist(1) [OF assms(2)] cd by simp
  next
    case (Message m)
    with assms(1) r obtain j data state u v where
        "persist_downloaded_chunk E (ws_library st) \<lparr>ec_index = j, ec_data = data\<rparr> out_dir u = (Inr (Inr v, state), w')"
        "st' = chunk_done mx j state (if streaming then st else st\<lparr>ws_chunks := (ws_chunks st)(j \<mapsto> \<lparr>ec_index = j, ec_data = data\<rparr>)\<rparr>)"
      by (cases m) (auto simp: accept_received_def accept_chunk_message_def bindE_Inr Let_def split: if_split_asm)
    then show ?thesis
      using library_inv_persist(2) [OF assms(2)] cd by fastforce
  qed
qed

lemma window_inv_fill:
  assumes inv: "window_inv P metas st"
    and fw: "fill_window C avail (ws_completed st) (ws_active st) (ws_in_flight st) (ws_rest st) w = (Inr (in_flight, rest), w1)"
  shows "window_inv P metas (st\<lparr>ws_in_flight := in_flight, ws_rest := rest\<rparr>)"
proof -
  from fill_window_sets [OF fw] have sets: "set rest \<subseteq> set (ws_rest st)"
      "set in_flight \<subseteq> set (ws_in_flight st) \<union> {(cm_index m, m) |m. m \<in> set (ws_rest st)}"
    by simp_all
  have "(case x of (i, meta) \<Rightarrow> meta \<in> set metas \<and> cm_index meta = i)" if "x \<in> set in_flight" for x
    using subsetD [OF sets(2) that] inv by (auto simp: window_inv_def)
  with inv sets(1) show ?thesis
    using subset_trans by (simp add: window_inv_def) blast
qed

lemma window_inv_accept:
  assumes inv: "window_inv P metas st" and acc: "accept_received E streaming out_dir mx st r w1 = (Inr st', w2)"
  shows "window_inv P metas st'"
proof -
  from acc obtain i where "i \<in> fst ` set (ws_in_flight st)" "ws_in_flight st' = AList.delete i (ws_in_flight st)"
      "ws_rest st' = ws_rest st" "ws_completed st' = insert i (ws_completed st)"
    by (rule accept_received_Inr)
  with inv accepted_library [OF acc] show "window_inv P metas st'"
    by (force simp: window_inv_def AList.delete_eq)
qed

lemma window_loop_inv:
  assumes "window_loop E avail streaming out_dir mx st w = (Inr st', w')" and "window_inv P metas st"
  shows "window_inv P metas st'"
  by (rule window_loop_rule [where I = "\<lambda>st w. window_inv P metas st", OF _ _ assms])
    (blast intro: window_inv_fill window_inv_accept)+

section \<open>What a download touches\<close>

text \<open>The part of the library that receiving chunks may change: progress, state and chunk files.\<close>

definition download_area :: "library_paths \<Rightarrow> path \<Rightarrow> bool" where
  "download_area P q \<longleftrightarrow> prefix (chunks_dir P) q \<or> prefix q (chunks_dir P) \<or>
     touches (progress_path P) q \<or> touches (state_path P) q"

lemma area_chunk [simp]:
  "download_area P (chunks_dir P @ x)" "download_area P (chunks_dir P)" "download_area P (chunk_path P i)"
  by (auto simp: download_area_def chunk_path_def)

lemma area_above_chunks: "prefix q (chunks_dir P) \<Longrightarrow> download_area P q"
  by (simp add: download_area_def)

lemma frame_area_writes [intro]:
  "preserves (frame (download_area P)) (write_progress L P p)"
  "preserves (frame (download_area P)) (write_state L P s)"
  "preserves (frame (download_area P)) (write_chunk P c)"
proof -
  have "touches (chunk_path P (ec_index c)) q \<Longrightarrow> download_area P q" for q
    by (auto simp: touches_def scratch_of_def download_area_def chunk_path_def)
  then show "preserves (frame (download_area P)) (write_chunk P c)"
    by (rule frame_mono [OF frame_write_chunk])
qed (auto intro: frame_mono [OF frame_write_files(3)] frame_mono [OF frame_write_files(4)] simp: download_area_def)

lemma frame_flush_progress [intro]:
  assumes "ad_paths st = P"
  shows "preserves (frame (download_area P)) (flush_download_progress E st mode out_dir)"
    "preserves (frame (download_area P)) (maybe_flush_download_progress E st out_dir)"
proof -
  show fl: "preserves (frame (download_area P)) (flush_download_progress E st mode out_dir)" for mode
    unfolding flush_download_progress_def using assms
    by (intro frame.pres_bind frame.pres_try) (auto intro!: frame.pres_bind split: sum.split)
  show "preserves (frame (download_area P)) (maybe_flush_download_progress E st out_dir)"
    unfolding maybe_flush_download_progress_def should_flush_download_progress_def
    by (auto intro!: frame.pres_bind fl)
qed

lemma frame_remove_if_exists: "F p \<Longrightarrow> preserves (frame F) (remove_file_if_exists p)"
  unfolding remove_file_if_exists_def by (auto intro!: frame.pres_bind frame.pres_try frame_remove_file)

lemma frame_move_downloaded: "download_area P temp \<Longrightarrow> preserves (frame (download_area P)) (move_downloaded P i temp)"
  unfolding move_downloaded_def
  by (intro frame.pres_bind frame_create_dir_all frame_rename) (auto intro: frame_remove_file area_above_chunks)

definition state_at :: "library_paths \<Rightarrow> library_state \<Rightarrow> bool" where
  "state_at P state \<longleftrightarrow> (\<forall>st. state = Some st \<longrightarrow> ad_paths st = P)"

lemma library_inv_at: "library_inv P completed state \<Longrightarrow> state_at P state"
  by (auto simp: library_inv_def state_at_def)

lemma frame_persist:
  assumes "state_at P state"
  shows "download_area P temp \<Longrightarrow> preserves (frame (download_area P)) (persist_downloaded_chunk_file E state i temp out_dir)"
    "preserves (frame (download_area P)) (persist_downloaded_chunk E state c out_dir)"
  using assms unfolding persist_downloaded_chunk_file_def persist_downloaded_chunk_def
  by (auto intro!: frame.pres_bind frame.pres_try frame_remove_if_exists frame_move_downloaded frame_flush_progress(2) simp: state_at_def split: option.split sum.split)

lemma frame_settle [intro]: "preserves (frame F) m \<Longrightarrow> preserves (frame F) (settle m)"
  unfolding settle_def by (auto intro!: frame.pres_bind split: sum.split)

lemma frame_accept:
  assumes "state_at P (ws_library st)" and "\<And>temp. snd r = Some temp \<Longrightarrow> download_area P temp"
  shows "preserves (frame (download_area P)) (accept_received E streaming out_dir mx st r)"
proof -
  have disc: "preserves (frame (download_area P)) (discard_temp t)" if "\<And>temp. t = Some temp \<Longrightarrow> download_area P temp" for t
    using that by (auto simp: discard_temp_def intro: frame_remove_if_exists split: option.split)
  have raw: "preserves (frame (download_area P)) (accept_raw_file E out_dir mx st chunk temp)" if "download_area P temp" for chunk temp
    unfolding accept_raw_file_def using that assms(1)
    by (auto intro!: frame.pres_bind frame_settle frame_persist frame_remove_if_exists)
  have msg: "preserves (frame (download_area P)) (accept_chunk_message E streaming out_dir mx st j data t)"
    if "\<And>temp. t = Some temp \<Longrightarrow> download_area P temp" for j data t
    unfolding accept_chunk_message_def Let_def using that assms(1)
    by (auto intro!: frame.pres_bind frame_settle frame_persist disc)
  obtain fr t where r: "r = (fr, t)" by fastforce
  show ?thesis
  proof (cases fr)
    case (RawChunkFile chunk)
    with r assms(2) raw show ?thesis
      by (cases t) (auto simp: accept_received_def)
  next
    case (Message m)
    with r assms(2) show ?thesis
      by (cases m) (auto simp: accept_received_def intro!: msg disc frame.pres_bind)
  qed
qed

lemma frame_receive_data: "F p \<Longrightarrow> preserves (frame F) (receive_data_loop p n h)"
proof (induction n arbitrary: h rule: less_induct)
  case (less n)
  show ?case
  proof (cases "n = 0")
    case True
    then have "receive_data_loop p n h = returnE h"
      by (simp add: fun_eq_iff receive_data_loop_step)
    then show ?thesis by simp
  next
    case False
    then have "receive_data_loop p n h = bindE (intoE ProtoIo (stream_read_exact (min n (64 * 1024)))) (\<lambda>buffer.
        bindE (intoE ProtoIo (fs_write_all p buffer)) (\<lambda>_. receive_data_loop p (n - min n (64 * 1024)) (h @ buffer)))"
      by (simp add: fun_eq_iff receive_data_loop_step [of p n])
    moreover have "n - min n (64 * 1024) < n"
      using False by simp
    ultimately show ?thesis
      using less by (auto intro!: frame.pres_bind frame.pres_into frame_write_all)
  qed
qed

lemma frame_receive_to_file:
  assumes "F p" and "\<And>q. prefix q (butlast p) \<Longrightarrow> F q"
  shows "preserves (frame F) (receive_chunk_to_file D C p)"
  unfolding receive_chunk_to_file_def receive_raw_chunk_frame_to_file_after_tag_def read_frame_len_def
    receive_encoded_frame_after_first_byte_def Let_def
  using assms by (auto intro!: frame.pres_bind frame.pres_into frame_create_dir_all frame_create frame_receive_data split: option.split)

lemma receive_for_window_Inr:
  assumes "receive_for_window E streaming state w = (Inr r, w')" and "state_at P state"
  shows "(\<forall>temp. snd r = Some temp \<longrightarrow> download_area P temp) \<and> frame (download_area P) w w'"
proof (cases streaming)
  case False
  with assms(1) obtain m where m: "net_receive (e_wire E) w = (Inr m, w')" "r = (Message m, None)"
    by (auto simp: receive_for_window_def bindE_Inr)
  have "lookup w' = lookup w"
    using frame_all_lookup [OF net_pres(2) m(1)] .
  with m(2) show ?thesis
    by (simp add: frame_def)
next
  case True
  with assms(1) obtain temp w1 fr where tp: "download_chunk_temp_path state 0 w = (Inr temp, w1)"
      and rc: "receive_chunk_to_file (e_deps E) (e_wire E) temp w1 = (Inr fr, w')" and r: "r = (fr, Some temp)"
    by (auto simp: receive_for_window_def bindE_Inr)
  from tp obtain st where st: "state = Some st"
    by (cases state) (auto simp: download_chunk_temp_path_def active_download_state_def bindE_Inr)
  with assms(2) have P: "ad_paths st = P"
    by (simp add: state_at_def)
  have temp: "butlast temp = chunks_dir P" "download_area P temp" and w1: "lookup w1 = lookup w"
    using tp P unfolding st by (auto simp: download_chunk_temp_path_def active_download_state_def bindE_Inr staging_timestamp_def clock_now_def fun_eq_iff)
  have "preserves (frame (download_area P)) (receive_chunk_to_file (e_deps E) (e_wire E) temp)"
    using temp by (intro frame_receive_to_file) (auto intro: area_above_chunks)
  then have "frame (download_area P) w1 w'"
    using rc unfolding preserves_def by (metis snd_conv)
  with w1 r temp(2) show ?thesis
    by (simp add: frame_def)
qed

lemma fill_window_pres [intro!, simp]: "preserves (frame F) (fill_window C avail completed active in_flight rest)"
  by (induction rest arbitrary: in_flight) (auto intro!: frame.pres_bind)

lemma window_loop_frame:
  assumes "window_loop E avail streaming out_dir mx st w = (Inr st', w')" and "window_inv P metas st"
  shows "frame (download_area P) w w'"
proof -
  have "window_inv P metas st' \<and> frame (download_area P) w w'"
  proof (rule window_loop_rule [where I = "\<lambda>st v. window_inv P metas st \<and> frame (download_area P) w v", OF _ _ assms(1)])
    fix st v in_flight rest w1
    assume I: "window_inv P metas st \<and> frame (download_area P) w v"
      and fw: "fill_window (e_wire E) avail (ws_completed st) (ws_active st) (ws_in_flight st) (ws_rest st) v = (Inr (in_flight, rest), w1)"
    have "lookup w1 = lookup v"
      using frame_all_lookup [OF fill_window_pres fw] .
    with I window_inv_fill [OF _ fw] show "window_inv P metas (st\<lparr>ws_in_flight := in_flight, ws_rest := rest\<rparr>) \<and> frame (download_area P) w w1"
      by (simp add: frame_def)
  next
    fix st v r w1 st' w2
    assume I: "window_inv P metas st \<and> frame (download_area P) w v" and rw: "receive_for_window E streaming (ws_library st) v = (Inr r, w1)"
      and acc: "accept_received E streaming out_dir mx st r w1 = (Inr st', w2)"
    have at: "state_at P (ws_library st)"
      using I by (auto simp: window_inv_def intro: library_inv_at)
    note rc = receive_for_window_Inr [OF rw at]
    have "frame (download_area P) w1 w2"
      using frame_accept [OF at, of r E streaming out_dir mx] rc acc unfolding preserves_def by (metis snd_conv)
    with I rc window_inv_accept [OF _ acc] show "window_inv P metas st' \<and> frame (download_area P) w w2"
      using frame.R_trans by blast
  qed (use assms(2) in \<open>simp add: frame.R_refl\<close>)
  then show ?thesis by simp
qed

end
