(* ===== verification/Etle_Complete.thy ===== *)
theory Etle_Complete
  imports Etle_Download_Safe
begin

text \<open>
  What holds when a download from a peer returns successfully, whatever the peer sent and whatever
  system calls failed on the way: the phases of \<open>from_peer_with\<close> put together. It also holds the
  fallback over several peers and the bounds on the window of requests.
\<close>

section \<open>The library around a download\<close>

definition share_area :: "library_paths \<Rightarrow> path \<Rightarrow> bool" where
  "share_area P q \<longleftrightarrow> prefix (share_dir P) q \<or> prefix q (share_dir P)"

lemma share_area_below: "butlast p = share_dir P \<Longrightarrow> p \<noteq> [] \<Longrightarrow> touches p q \<Longrightarrow> share_area P q"
  by (auto simp: touches_def scratch_of_def share_area_def) (metis append_butlast_last_id prefixI)

lemma download_area_share: "download_area P q \<Longrightarrow> share_area P q"
  using share_area_below [of "progress_path P" P q] share_area_below [of "state_path P" P q]
  by (auto simp: download_area_def share_area_def chunks_dir_def prefix_append dest: append_prefixD)

definition outside_library :: "path \<Rightarrow> path \<Rightarrow> bool" where
  "outside_library root p \<longleftrightarrow> \<not> prefix (root @ [''.etle'']) p \<and> \<not> prefix p (root @ [''.etle''])"

lemma outside_share:
  assumes "outside_library (lp_root P) p"
  shows "\<not> share_area P p"
proof -
  have below: "prefix (lp_root P @ [''.etle'']) (share_dir P)"
    by (simp add: share_dir_def library_dir_def etle_dir_def)
  show ?thesis
    using assms prefix_order.trans [OF below] prefix_same_cases [OF _ below]
    by (auto simp: outside_library_def share_area_def)
qed

lemma outside_chunks: "outside_library (lp_root P) p \<Longrightarrow> apart P p metas"
  using outside_share [of P p] by (auto simp: apart_def share_area_def chunk_path_def chunks_dir_def)

lemma frame_library_init: "preserves (frame (share_area (for_share root (d_share_id d)))) (library_init L root d key mode out_dir)"
proof -
  let ?P = "for_share root (d_share_id d)"
  have dirs: "prefix q (chunks_dir ?P) \<or> prefix q (output_dir ?P) \<Longrightarrow> share_area ?P q" for q
    by (auto simp: share_area_def chunks_dir_def output_dir_def)
  show ?thesis
    unfolding library_init_def Let_def
    by (intro frame.pres_bind frame.pres_into frame_create_dir_all frame_mono [OF frame_write_files(1)] frame_mono [OF frame_write_files(2)]
        frame_mono [OF frame_write_files(3)] frame_mono [OF frame_write_files(4)])
      (auto intro: dirs share_area_below [rotated -1])
qed

lemma library_init_Inr:
  assumes "library_init L root d key mode out_dir w = (Inr P, w')"
  shows "P = for_share root (d_share_id d)"
    and "\<exists>b. descriptor_to_bytes (lc_descriptor L) d = Inr b \<and> lookup w' (descriptor_path P) = Some (FileN b)"
    and "\<exists>b. secret_to_bytes (lc_secret L) \<lparr>es_share_id = d_share_id d, es_file_key = key\<rparr> = Inr b \<and> lookup w' (secret_path P) = Some (FileN b)"
proof -
  from assms obtain p s w1 w2 w3 w4 where P: "P = for_share root (d_share_id d)"
      and wd: "write_descriptor L P d w1 = (Inr (), w2)"
      and ws: "write_secret L P \<lparr>es_share_id = d_share_id d, es_file_key = key\<rparr> w2 = (Inr (), w3)"
      and wp: "write_progress L P p w3 = (Inr (), w4)" and wt: "write_state L P s w4 = (Inr (), w')"
    by (auto simp: library_init_def Let_def bindE_Inr split: if_splits)
  note keep = preserves_frameD [OF frame_write_files(2) ws] preserves_frameD [OF frame_write_files(3) wp]
    preserves_frameD [OF frame_write_files(4) wt]
  show "P = for_share root (d_share_id d)" by (rule P)
  show "\<exists>b. descriptor_to_bytes (lc_descriptor L) d = Inr b \<and> lookup w' (descriptor_path P) = Some (FileN b)"
    using write_files_Inr(1) [OF wd] by (simp add: keep)
  show "\<exists>b. secret_to_bytes (lc_secret L) \<lparr>es_share_id = d_share_id d, es_file_key = key\<rparr> = Inr b \<and> lookup w' (secret_path P) = Some (FileN b)"
    using write_files_Inr(2) [OF ws] by (simp add: keep)
qed

section \<open>The phases of a download\<close>

lemma initialize_Inr:
  assumes "initialize_download_library_state E (Some root) d key out_dir resume w = (Inr state, w')"
  obtains st b c where "state = Some st" "ad_paths st = for_share root (d_share_id d)"
    "descriptor_to_bytes (lc_descriptor (e_lib E)) d = Inr b" "lookup w' (descriptor_path (ad_paths st)) = Some (FileN b)"
    "secret_to_bytes (lc_secret (e_lib E)) \<lparr>es_share_id = d_share_id d, es_file_key = key\<rparr> = Inr c"
    "lookup w' (secret_path (ad_paths st)) = Some (FileN c)"
proof -
  from assms obtain P progress now w1 w2 w3 where li: "library_init (e_lib E) root d key Downloading out_dir w1 = (Inr P, w2)"
      and rec: "(if dp_completed progress = [] then returnE ()
          else bindE (intoE NetFile (write_progress (e_lib E) P progress)) (\<lambda>_.
            intoE NetFile (write_state (e_lib E) P (share_state_from_progress Downloading out_dir progress)))) w2 = (Inr () :: network_error + unit, w3)"
      and now: "clock_now w3 = (Inr now :: network_error + nat, w')"
      and state: "state = Some \<lparr>ad_paths = P, ad_progress = progress, ad_dirty_chunks = 0, ad_last_progress_flush = now\<rparr>"
    by (auto simp: initialize_download_library_state_def Let_def bindE_Inr)
  have "lookup w3 q = lookup w2 q" if "\<not> touches (progress_path P) q" "\<not> touches (state_path P) q" for q
    using rec that by (auto simp: bindE_Inr dest!: preserves_frameD [OF frame_write_files(3)] preserves_frameD [OF frame_write_files(4)] split: if_split_asm)
  moreover have "lookup w' = lookup w3"
    using now by (auto simp: clock_now_def lookup_def)
  ultimately have "lookup w' (descriptor_path P) = lookup w2 (descriptor_path P)" "lookup w' (secret_path P) = lookup w2 (secret_path P)"
    by simp_all
  then show ?thesis
    using that [of "\<lparr>ad_paths = P, ad_progress = progress, ad_dirty_chunks = 0, ad_last_progress_flush = now\<rparr>"] state library_init_Inr [OF li] by auto
qed

lemma resumable_chunk_Inr:
  assumes "resumable_chunk D st meta w = (Inr cs, w')"
  shows "set (map ec_index cs) \<subseteq> {cm_index meta}"
  using assms by (auto simp: resumable_chunk_def bindE_Inr read_chunk_def ok_or_def split: if_split_asm)

lemma mapE_resumable_indexes:
  "mapE (resumable_chunk D st) metas w = (Inr found, w') \<Longrightarrow> set (map ec_index (concat found)) \<subseteq> cm_index ` set metas"
proof (induction metas arbitrary: w found)
  case (Cons m ms)
  then obtain cs w1 found' where one: "resumable_chunk D st m w = (Inr cs, w1)" and rest: "mapE (resumable_chunk D st) ms w1 = (Inr found', w')"
      and "found = cs # found'"
    by (auto simp: bindE_Inr)
  with Cons.IH [OF rest] resumable_chunk_Inr [OF one] show ?case by auto
qed simp

lemma resumable_pres [intro!, simp]: "preserves (frame F) (resumable_chunk D st meta)"
  unfolding resumable_chunk_def by (auto intro!: frame.pres_bind frame.pres_into)

lemma store_resumed_Inr:
  assumes "store_resumed E out_dir st chunks w = (Inr st', w')"
  shows "ad_paths st' = ad_paths st \<and> progress_inv (ad_progress st') \<and> progress_set (ad_progress st') = set (map ec_index chunks)"
proof -
  have e: "progress_inv (progress_empty sid)" "progress_set (progress_empty sid) = {}" for sid
    by (simp_all add: progress_inv_def progress_set_def progress_empty_def progress_new_def normalize_chunk_list_def)
  have "progress_inv (fold mark_completed is (progress_empty sid)) \<and> progress_set (fold mark_completed is (progress_empty sid)) = set is" for "is" sid
    using progress.inv_marks [OF e(1)] progress.content_marks [OF e(1)] e(2) by simp
  with assms show ?thesis
    by (auto simp: store_resumed_def Let_def bindE_Inr)
qed

lemma frame_store_resumed: "ad_paths st = P \<Longrightarrow> preserves (frame (download_area P)) (store_resumed E out_dir st chunks)"
  unfolding store_resumed_def Let_def by (auto intro!: frame.pres_bind frame.pres_into)

lemma resume_Some:
  assumes "resume_chunks E (Some st) m out_dir w = (Inr (state', chunks, completed), w')" and "ad_paths st = P"
  shows "library_inv P completed state' \<and> state' \<noteq> None \<and> completed \<subseteq> cm_index ` set (m_chunks m) \<and> frame (download_area P) w w'"
proof -
  from assms(1) obtain found w1 st' where found: "mapE (resumable_chunk (e_deps E) st) (m_chunks m) w = (Inr found, w1)"
      and sr: "store_resumed E out_dir st (concat found) w1 = (Inr st', w')" and r: "state' = Some st'" "completed = set (map ec_index (concat found))"
    by (auto simp: resume_chunks_def load_resumable_chunk_indexes_def bindE_Inr)
  have "lookup w1 = lookup w"
    by (rule frame_all_lookup [OF frame.pres_map found]) simp
  moreover have "frame (download_area P) w1 w'"
    using frame_store_resumed [OF assms(2)] sr unfolding preserves_def by (metis snd_conv)
  ultimately have "frame (download_area P) w w'"
    by (simp add: frame_def)
  with r assms(2) store_resumed_Inr [OF sr] mapE_resumable_indexes [OF found] show ?thesis
    by (simp add: library_inv_def)
qed

lemma check_all_received_Inr:
  assumes "check_all_received m completed = Inr ()" and "completed \<subseteq> cm_index ` set (m_chunks m)"
  shows "completed = cm_index ` set (m_chunks m)"
proof (cases "card completed = length (m_chunks m)")
  case True
  have "card (cm_index ` set (m_chunks m)) \<le> length (m_chunks m)"
    by (metis card_image_le card_length finite_set le_trans)
  with True assms(2) show ?thesis
    by (intro card_seteq) simp_all
next
  case False
  with assms(1) have "\<forall>meta \<in> set (m_chunks m). cm_index meta \<in> completed"
    by (auto simp: check_all_received_def find_None_iff split: option.split_asm)
  with assms(2) show ?thesis by auto
qed

lemma download_windowed_Inr:
  assumes "download_missing_chunks_windowed E m avail state chunks completed streaming out_dir window w = (Inr st, w')"
    and "library_inv P completed state" and "completed \<subseteq> cm_index ` set (m_chunks m)"
  shows "library_inv P (ws_completed st) (ws_library st) \<and> ws_completed st \<subseteq> cm_index ` set (m_chunks m) \<and> frame (download_area P) w w'"
proof -
  let ?mx = "max window 1"
  let ?st = "\<lparr>ws_active = initial_request_window ?mx, ws_since_growth = 0, ws_rest = m_chunks m, ws_in_flight = [],
         ws_library = state, ws_chunks = chunks, ws_completed = completed\<rparr>"
  have run: "window_loop E avail streaming out_dir ?mx ?st w = (Inr st, w')"
    using assms(1) by (simp add: download_missing_chunks_windowed_def Let_def)
  have inv: "window_inv P (m_chunks m) ?st"
    using assms(2,3) by (simp add: window_inv_def)
  show ?thesis
    using window_loop_inv [OF run inv] window_loop_frame [OF run inv] by (simp add: window_inv_def)
qed

section \<open>Writing the output\<close>

lemma receive_result_pres: "preserves (frame (\<lambda>q. q = target)) (receive_result target st r)"
  unfolding receive_result_def by (auto intro!: frame.pres_bind drain_frame split: sum.split)

lemma write_decrypted_pres: "preserves (frame (\<lambda>q. q = target)) (write_decrypted D P fid key target h metas)"
  by (induction metas arbitrary: h) (auto intro!: frame.pres_bind frame.pres_into frame_write_all)

lemma receive_results_pres: "preserves (frame (\<lambda>q. q = target)) (receive_results D P fid key target st metas)"
  by (induction metas arbitrary: st) (auto intro!: frame.pres_bind frame.pres_try receive_result_pres)

definition output_area :: "path \<Rightarrow> path \<Rightarrow> bool" where
  "output_area p q \<longleftrightarrow> q = p \<or> prefix q (butlast p)"

lemma frame_only_output: "preserves (frame (\<lambda>q. q = p)) k \<Longrightarrow> preserves (frame (output_area p)) k"
  by (erule frame_mono) (simp add: output_area_def)

lemma frame_output:
  "preserves (frame (output_area p)) (decrypt_library_chunks_to_file E P m key p)"
proof -
  have fin: "preserves (frame F) (finalize_streamed_output D target h fid)" for F D target h fid
    unfolding finalize_streamed_output_def by (auto intro!: frame.pres_bind frame.pres_into)
  have prep: "preserves (frame (output_area p)) (prepare_output_file_parent p)"
    unfolding prepare_output_file_parent_def by (auto intro!: frame.pres_into frame_create_dir_all simp: output_area_def)
  show ?thesis
    unfolding decrypt_library_chunks_to_file_def decrypt_library_chunks_to_file_sequential_def decrypt_library_chunks_to_file_parallel_def
    by (auto intro!: frame.pres_bind frame.pres_into frame_create prep frame_only_output [OF write_decrypted_pres] frame_only_output [OF receive_results_pres] fin
        simp: output_area_def split: option.split)
qed

text \<open>A successful reconstruction has found and verified every chunk.\<close>

lemma receive_results_plain:
  "receive_results D P fid key target st metas w = (Inr st', w') \<Longrightarrow> ra_error st' = None \<Longrightarrow> apart P target metas \<Longrightarrow>
     \<forall>m \<in> set metas. plain_of D P fid key w m \<noteq> None"
proof (induction metas arbitrary: st w)
  case (Cons m ms)
  then obtain r w1 st1 w2 where dl: "decrypt_library_chunk D P fid key m w = (r, w1)"
      and rr: "receive_result target st r w1 = (Inr st1, w2)" and rest: "receive_results D P fid key target st1 ms w2 = (Inr st', w')"
    by (auto simp: bindE_Inr)
  have ok: "ra_error st1 = None"
    using receive_results_error [OF rest] Cons.prems(2) by blast
  then obtain d where "r = Inr d"
    using rr by (cases r) (auto simp: receive_result_def split: if_split_asm)
  with dl have m: "plain_of D P fid key w m \<noteq> None"
    using decrypt_library_chunk_Inr(1) by fastforce
  have "lookup w2 q = lookup w q" if "q \<noteq> target" for q
    using preserves_frameD [OF receive_result_pres rr that] decrypt_library_chunk_lookup [OF dl] by simp
  then have "plain_of D P fid key w2 c = plain_of D P fid key w c" if "c \<in> set ms" for c
    using that Cons.prems(3) plain_of_apart [of target w2 w P ms] by simp
  with m Cons.IH [OF rest Cons.prems(2)] Cons.prems(3) show ?case by auto
qed simp

lemma reconstruct_plain:
  assumes "decrypt_library_chunks_to_file E P m key p w = (Inr (), w')" and "apart P p (m_chunks m)"
    and "mset (e_arrival E (m_chunks m)) = mset (m_chunks m)" and "c \<in> set (m_chunks m)"
  shows "plain_of (e_deps E) P (m_file_id m) key w c \<noteq> None"
proof -
  obtain w1 w2 where pr: "prepare_output_file_parent p w = (Inr (), w1)" and cr: "fs_create p w1 = (Inr (), w2)"
    using assms(1) by (auto simp: decrypt_library_chunks_to_file_def decrypt_library_chunks_to_file_sequential_def
        decrypt_library_chunks_to_file_parallel_def bindE_Inr split: if_split_asm)
  note same = plain_of_started [OF pr cr assms(2)]
  consider (seq) h w3 where "write_decrypted (e_deps E) P (m_file_id m) key p [] (m_chunks m) w2 = (Inr h, w3)"
    | (par) st w3 where "receive_results (e_deps E) P (m_file_id m) key p
        \<lparr>ra_expected = map cm_index (m_chunks m), ra_pending = [], ra_hashed = [], ra_error = None\<rparr> (e_arrival E (m_chunks m)) w2 = (Inr st, w3)"
        "ra_error st = None"
  proof (cases "default_decrypt_worker_count (e_cores E) (length (m_chunks m)) \<le> 1")
    case True
    with assms(1) pr cr show ?thesis
      by (auto simp: decrypt_library_chunks_to_file_def decrypt_library_chunks_to_file_sequential_def bindE_Inr intro: seq)
  next
    case False
    with assms(1) pr cr show ?thesis
      by (auto simp: decrypt_library_chunks_to_file_def decrypt_library_chunks_to_file_parallel_def bindE_Inr split: option.split_asm intro: par)
  qed
  then show ?thesis
  proof cases
    case seq
    from write_decrypted_Inr [OF this start_output(1) [OF pr cr] assms(2)]
    obtain datas where "map (plain_of (e_deps E) P (m_file_id m) key w2) (m_chunks m) = map Some datas"
      by blast
    then show ?thesis
      using assms(4) same by (metis (no_types, lifting) in_set_conv_nth length_map nth_map option.distinct(1))
  next
    case par
    have arr: "set (e_arrival E (m_chunks m)) = set (m_chunks m)"
      using mset_eq_setD [OF assms(3)] .
    then have "apart P p (e_arrival E (m_chunks m))"
      using assms(2) by (simp add: apart_def)
    from receive_results_plain [OF par this] arr assms(4) same show ?thesis by auto
  qed
qed

lemma plain_verified: "plain_of D P fid key w c \<noteq> None \<Longrightarrow> chunk_verified D P w c"
  by (auto simp: plain_of_def chunk_verified_def split: option.split_asm node.split_asm if_split_asm)

section \<open>The end of a download\<close>

lemma mark_complete_Some:
  assumes "mark_download_library_complete E (Some st) out_dir w = (Inr state, w')" and "ad_paths st = P"
  shows "frame (\<lambda>q. touches (progress_path P) q \<or> touches (state_path P) q) w w'"
    and "\<exists>b. encode_state (lc_states (e_lib E)) (share_state_from_progress Completed out_dir (ad_progress st)) = Inr b \<and>
      lookup w' (state_path P) = Some (FileN b) \<and> lp_share_id P = dp_share_id (ad_progress st)"
proof -
  let ?F = "\<lambda>q. touches (progress_path P) q \<or> touches (state_path P) q"
  have wr: "preserves (frame ?F) (write_progress (e_lib E) P p)" "preserves (frame ?F) (write_state (e_lib E) P s)" for p s
    by (rule frame_mono [OF frame_write_files(3)] frame_mono [OF frame_write_files(4)]; simp)+
  have fl: "preserves (frame ?F) (flush_download_progress E st mode out_dir)" for mode
    unfolding flush_download_progress_def assms(2)
    by (intro frame.pres_bind frame.pres_try wr) (auto intro!: frame.pres_bind split: sum.split)
  from assms(1) obtain st' w1 where first: "(if 0 < ad_dirty_chunks st then settle (flush_download_progress E st Downloading out_dir) else returnE st) w = (Inr st', w1)"
      and ws: "write_state (e_lib E) (ad_paths st') (share_state_from_progress Completed out_dir (ad_progress st')) w1 = (Inr (), w')"
    by (auto simp: mark_download_library_complete_def bindE_Inr)
  have keep: "ad_paths st' = P" "ad_progress st' = ad_progress st"
  proof -
    have "ad_paths st' = ad_paths st \<and> ad_progress st' = ad_progress st"
    proof (cases "0 < ad_dirty_chunks st")
      case True
      with first obtain u where "flush_download_progress E st Downloading out_dir w = (Inr (Inr u, st'), w1)"
        by (simp only: if_True settle_Inr) blast
      then show ?thesis by (rule flush_keeps)
    qed (use first in simp)
    with assms(2) show "ad_paths st' = P" "ad_progress st' = ad_progress st" by simp_all
  qed
  have "preserves (frame ?F) (if 0 < ad_dirty_chunks st then settle (flush_download_progress E st Downloading out_dir) else returnE st)"
    using fl by auto
  then have "frame ?F w w1"
    using first unfolding preserves_def by (metis snd_conv)
  moreover have "frame ?F w1 w'"
    using wr(2) ws unfolding preserves_def keep by (metis snd_conv)
  ultimately show "frame ?F w w'"
    by (rule frame.R_trans)
  show "\<exists>b. encode_state (lc_states (e_lib E)) (share_state_from_progress Completed out_dir (ad_progress st)) = Inr b \<and>
      lookup w' (state_path P) = Some (FileN b) \<and> lp_share_id P = dp_share_id (ad_progress st)"
    using write_files_Inr(4) [OF ws] unfolding keep by (auto simp: share_state_from_progress_def share_state_new_def)
qed

lemma from_peer_with_Inr:
  assumes "from_peer_with E peer_addr output_path opts w = (Inr m, w')"
  obtains key w1 state0 w2 state chunks completed avail w3 w4 st w5 w6 state' where
    "initialize_download_library_state E (do_library_root opts) (descriptor_from_manifest (e_deps E) m) key (output_parent_dir output_path)
       (do_resume opts) w1 = (Inr state0, w2)"
    "resume_chunks E state0 m (output_parent_dir output_path) w2 = (Inr (state, chunks, completed), w3)"
    "lookup w4 = lookup w3"
    "download_missing_chunks_windowed E m avail state chunks completed (state0 \<noteq> None) (output_parent_dir output_path)
       (do_request_window opts) w4 = (Inr st, w5)"
    "check_all_received m (ws_completed st) = Inr ()"
    "write_output E (state0 \<noteq> None) st m key output_path w5 = (Inr (), w6)"
    "mark_download_library_complete E (ws_library st) (output_parent_dir output_path) w6 = (Inr state', w')"
proof -
  from assms obtain peer :: connected_download_peer and w1 state0 w2 state chunks completed w3 w4 st w5 w6 state' where m: "m = cp_manifest peer"
      and init: "initialize_download_library_state E (do_library_root opts) (descriptor_from_manifest (e_deps E) m) (cp_file_key peer)
         (output_parent_dir output_path) (do_resume opts) w1 = (Inr state0, w2)"
      and res: "resume_chunks E state0 m (output_parent_dir output_path) w2 = (Inr (state, chunks, completed), w3)"
      and sent: "(if completed \<noteq> {} then net_send (e_wire E) (Have (sorted_list_of_set completed)) else returnE ()) w3 = (Inr (), w4)"
      and dl: "download_missing_chunks_windowed E m (cp_available_chunks peer) state chunks completed (state0 \<noteq> None)
         (output_parent_dir output_path) (do_request_window opts) w4 = (Inr st, w5)"
      and chk: "check_all_received m (ws_completed st) = Inr ()"
      and wo: "write_output E (state0 \<noteq> None) st m (cp_file_key peer) output_path w5 = (Inr (), w6)"
      and mc: "mark_download_library_complete E (ws_library st) (output_parent_dir output_path) w6 = (Inr state', w')"
    by (auto simp: from_peer_with_def Let_def bindE_Inr simp del: not_None_eq)
  have "preserves (frame (\<lambda>_. False)) (if completed \<noteq> {} then net_send (e_wire E) (Have (sorted_list_of_set completed)) else returnE ())"
    by simp
  from frame_all_lookup [OF this sent] that [OF init res _ dl chk wo mc] show ?thesis by simp
qed

text \<open>The download with a library: the paths, the invariant at the end, and what is on disk.\<close>

lemma library_download_Inr:
  assumes "from_peer_with E peer_addr output_path opts w = (Inr m, w')" and "do_library_root opts = Some root"
  defines "P \<equiv> for_share root (d_share_id (descriptor_from_manifest (e_deps E) m))"
  obtains key b c st w5 w6 state' where
    "descriptor_to_bytes (lc_descriptor (e_lib E)) (descriptor_from_manifest (e_deps E) m) = Inr b" "lookup w5 (descriptor_path P) = Some (FileN b)"
    "secret_to_bytes (lc_secret (e_lib E)) \<lparr>es_share_id = lp_share_id P, es_file_key = key\<rparr> = Inr c" "lookup w5 (secret_path P) = Some (FileN c)"
    "ad_paths st = P" "progress_inv (ad_progress st)" "progress_set (ad_progress st) = cm_index ` set (m_chunks m)"
    "decrypt_library_chunks_to_file E P m key output_path w5 = (Inr (), w6)"
    "mark_download_library_complete E (Some st) (output_parent_dir output_path) w6 = (Inr state', w')"
proof -
  let ?d = "descriptor_from_manifest (e_deps E) m"
  from assms(1) obtain key w1 state0 w2 state chunks completed avail w3 w4 st w5 w6 state' where
    init: "initialize_download_library_state E (do_library_root opts) ?d key (output_parent_dir output_path) (do_resume opts) w1 = (Inr state0, w2)"
    and res: "resume_chunks E state0 m (output_parent_dir output_path) w2 = (Inr (state, chunks, completed), w3)"
    and w4: "lookup w4 = lookup w3"
    and dl: "download_missing_chunks_windowed E m avail state chunks completed (state0 \<noteq> None) (output_parent_dir output_path)
       (do_request_window opts) w4 = (Inr st, w5)"
    and chk: "check_all_received m (ws_completed st) = Inr ()"
    and wo: "write_output E (state0 \<noteq> None) st m key output_path w5 = (Inr (), w6)"
    and mc: "mark_download_library_complete E (ws_library st) (output_parent_dir output_path) w6 = (Inr state', w')"
    by (rule from_peer_with_Inr)
  from init [unfolded assms(2)] obtain st0 b c where st0: "state0 = Some st0" "ad_paths st0 = P"
      and files: "descriptor_to_bytes (lc_descriptor (e_lib E)) ?d = Inr b" "lookup w2 (descriptor_path P) = Some (FileN b)"
        "secret_to_bytes (lc_secret (e_lib E)) \<lparr>es_share_id = d_share_id ?d, es_file_key = key\<rparr> = Inr c" "lookup w2 (secret_path P) = Some (FileN c)"
    unfolding P_def by (rule initialize_Inr) simp
  note r = resume_Some [OF res [unfolded st0(1)] st0(2)]
  note d = download_windowed_Inr [OF dl conjunct1 [OF r]]
  have sub: "completed \<subseteq> cm_index ` set (m_chunks m)" using r by blast
  have all: "ws_completed st = cm_index ` set (m_chunks m)"
    using check_all_received_Inr [OF chk] d [OF sub] by blast
  obtain act where act: "ws_library st = Some act" "decrypt_library_chunks_to_file E (ad_paths act) m key output_path w5 = (Inr (), w6)"
    using wo st0(1) by (cases "ws_library st") (auto simp: write_output_def active_download_state_def bindE_Inr)
  have inv: "ad_paths act = P" "progress_inv (ad_progress act)" "progress_set (ad_progress act) = cm_index ` set (m_chunks m)"
    using d [OF sub] act(1) all by (simp_all add: library_inv_def)
  have "frame (download_area P) w2 w3" "frame (download_area P) w4 w5"
    using r d [OF sub] by blast+
  then have "lookup w5 q = lookup w2 q" if "\<not> download_area P q" for q
    using that w4 by (simp add: frame_def)
  moreover have "\<not> download_area P (descriptor_path P)" "\<not> download_area P (secret_path P)"
    by (simp_all add: download_area_def) (auto simp: path_defs)
  ultimately show ?thesis
    using that [OF files(1) _ _ _ inv act(2) [unfolded inv(1)] mc [unfolded act(1)]] files by (simp add: P_def for_share_def)
qed

section \<open>Several peers\<close>

text \<open>Attempts that all failed, with their errors, and the worlds before and after.\<close>

fun failed_attempts :: "transfer_env \<Rightarrow> path \<Rightarrow> download_file_options \<Rightarrow> string list \<Rightarrow> network_error list \<Rightarrow> world \<Rightarrow> world \<Rightarrow> bool" where
  "failed_attempts E p opts [] [] w w' \<longleftrightarrow> w' = w"
| "failed_attempts E p opts (a # as) (e # es) w w' \<longleftrightarrow> (\<exists>w1. from_peer_with E a p opts w = (Inl e, w1) \<and> failed_attempts E p opts as es w1 w')"
| "failed_attempts E p opts _ _ w w' \<longleftrightarrow> False"

lemma failed_attempts_Nil: "failed_attempts E p opts [] es w w' \<longleftrightarrow> es = [] \<and> w' = w"
  by (cases es) auto

lemma failed_attempts_Cons: "failed_attempts E p opts (a # as) es w w' \<longleftrightarrow>
  (\<exists>e fs w1. es = e # fs \<and> from_peer_with E a p opts w = (Inl e, w1) \<and> failed_attempts E p opts as fs w1 w')"
  by (cases es) auto

text \<open>The first success after failed attempts.\<close>

definition found_at :: "transfer_env \<Rightarrow> path \<Rightarrow> download_file_options \<Rightarrow> string list \<Rightarrow> world \<Rightarrow> (network_error, manifest) result \<Rightarrow> world \<Rightarrow> bool" where
  "found_at E p opts peers w r w' \<longleftrightarrow>
     (\<exists>before a after es w1 m. peers = before @ a # after \<and> failed_attempts E p opts before es w w1 \<and>
       from_peer_with E a p opts w1 = (Inr m, w') \<and> r = Inr m)"

lemma found_at_Nil [simp]: "\<not> found_at E p opts [] w r w'"
  by (simp add: found_at_def)

lemma found_at_first:
  assumes "from_peer_with E a p opts w = (Inr m, w1)"
  shows "found_at E p opts (a # as) w r w' \<longleftrightarrow> r = Inr m \<and> w' = w1"
proof
  show "found_at E p opts (a # as) w r w' \<Longrightarrow> r = Inr m \<and> w' = w1"
    using assms by (auto simp: found_at_def Cons_eq_append_conv failed_attempts_Nil failed_attempts_Cons)
  show "r = Inr m \<and> w' = w1 \<Longrightarrow> found_at E p opts (a # as) w r w'"
    unfolding found_at_def using assms
    by (intro exI [of _ "[]"] exI [of _ a] exI [of _ as] exI [of _ w] exI [of _ m]) simp
qed

lemma found_at_later:
  assumes "from_peer_with E a p opts w = (Inl e, w1)"
  shows "found_at E p opts (a # as) w r w' \<longleftrightarrow> found_at E p opts as w1 r w'"
proof
  assume "found_at E p opts (a # as) w r w'"
  then obtain before b after es w2 m where l: "a # as = before @ b # after" "failed_attempts E p opts before es w w2"
      "from_peer_with E b p opts w2 = (Inr m, w')" "r = Inr m"
    by (auto simp: found_at_def)
  from l(1-3) assms obtain before' es' where "as = before' @ b # after" "failed_attempts E p opts before' es' w1 w2"
    by (cases before) (auto simp: failed_attempts_Nil failed_attempts_Cons)
  with l(3,4) show "found_at E p opts as w1 r w'" by (auto simp: found_at_def)
next
  assume "found_at E p opts as w1 r w'"
  then obtain before b after es w2 m where l: "as = before @ b # after" "failed_attempts E p opts before es w1 w2"
      "from_peer_with E b p opts w2 = (Inr m, w')" "r = Inr m"
    by (auto simp: found_at_def)
  then have "a # as = (a # before) @ b # after" "failed_attempts E p opts (a # before) (e # es) w w2"
    using assms by simp_all
  with l(3,4) show "found_at E p opts (a # as) w r w'" unfolding found_at_def by blast
qed

text \<open>The text of the error when all attempts have failed.\<close>

definition last_text :: "transfer_env \<Rightarrow> string option \<Rightarrow> network_error list \<Rightarrow> string" where
  "last_text E last_error es = (case map (e_show_error E) es of
      [] \<Rightarrow> (case last_error of Some e \<Rightarrow> e | None \<Rightarrow> ''unknown error'')
    | ss \<Rightarrow> last ss)"

lemma last_text_Cons: "last_text E last_error (e # es) = last_text E (Some (e_show_error E e)) es"
  by (cases es) (simp_all add: last_text_def)

lemma try_peers_found:
  assumes "1 < n \<or> length peers \<le> 1 \<and> attempt = 0" and "opts' = (if 1 < n then with_resume True opts else opts)"
  shows "try_peers E p opts n attempt last_error peers w = (r, w') \<longleftrightarrow>
    (\<exists>es. failed_attempts E p opts' peers es w w' \<and> r = Inl (AllPeersFailed n (last_text E last_error es))) \<or> found_at E p opts' peers w r w'"
  using assms
proof (induction peers arbitrary: attempt last_error w)
  case Nil
  then show ?case by (auto simp: failed_attempts_Nil last_text_def)
next
  case (Cons a as)
  have o: "(if 1 < n \<or> 0 < attempt then with_resume True opts else opts) = opts'"
    using Cons.prems by auto
  obtain x w1 where run: "from_peer_with E a p opts' w = (x, w1)" by fastforce
  show ?case
  proof (cases x)
    case (Inr m)
    then have "try_peers E p opts n attempt last_error (a # as) w = (Inr m, w1)"
      using run unfolding try_peers.simps o by (simp add: bindE_run tryE_run)
    moreover have "\<not> failed_attempts E p opts' (a # as) es w w'" for es
      using run Inr by (simp add: failed_attempts_Cons)
    ultimately show ?thesis
      using found_at_first [OF run [unfolded Inr]] by auto
  next
    case (Inl e)
    have step: "try_peers E p opts n attempt last_error (a # as) w = try_peers E p opts n (Suc attempt) (Some (e_show_error E e)) as w1"
      using run Inl unfolding try_peers.simps o by (simp add: bindE_run tryE_run)
    have IH: "try_peers E p opts n (Suc attempt) (Some (e_show_error E e)) as w1 = (r, w') \<longleftrightarrow>
      (\<exists>es. failed_attempts E p opts' as es w1 w' \<and> r = Inl (AllPeersFailed n (last_text E last_error (e # es)))) \<or> found_at E p opts' as w1 r w'"
    proof (cases "as = []")
      case True
      then show ?thesis by (auto simp: failed_attempts_Nil last_text_def)
    next
      case False
      then have "1 < n" using Cons.prems(1) by (cases as) auto
      then show ?thesis
        using Cons.IH [OF disjI1 Cons.prems(2), of "Suc attempt" "Some (e_show_error E e)" w1] by (simp only: last_text_Cons)
    qed
    show ?thesis
      unfolding step IH found_at_later [OF run [unfolded Inl]] using run Inl by (auto simp: failed_attempts_Cons)
  qed
qed

lemmas try_peers_run = try_peers_found [unfolded found_at_def last_text_def]


end
