(* ===== verification/Etle_Window.thy ===== *)
theory Etle_Window
  imports Etle_Complete
begin

text \<open>
  The window of requests of \<open>download_missing_chunks_windowed\<close>, seen step by step: a run of the loop
  alternates between filling the window and accepting one chunk. The states it passes through keep the
  number of requests in flight within the window and the window within its maximum.
\<close>

inductive window_steps :: "transfer_env \<Rightarrow> u32 set \<Rightarrow> bool \<Rightarrow> path option \<Rightarrow> nat \<Rightarrow> window_state \<times> world \<Rightarrow> window_state \<times> world \<Rightarrow> bool"
  for E avail streaming out_dir mx where
  start: "window_steps E avail streaming out_dir mx s s"
| filled: "window_steps E avail streaming out_dir mx s (st, w) \<Longrightarrow>
    fill_window (e_wire E) avail (ws_completed st) (ws_active st) (ws_in_flight st) (ws_rest st) w = (Inr (in_flight, rest), w1) \<Longrightarrow>
    window_steps E avail streaming out_dir mx s (st\<lparr>ws_in_flight := in_flight, ws_rest := rest\<rparr>, w1)"
| accepted: "window_steps E avail streaming out_dir mx s (st, w) \<Longrightarrow>
    receive_for_window E streaming (ws_library st) w = (Inr r, w1) \<Longrightarrow>
    accept_received E streaming out_dir mx st r w1 = (Inr st', w2) \<Longrightarrow>
    window_steps E avail streaming out_dir mx s (st', w2)"

lemma window_loop_steps:
  "window_loop E avail streaming out_dir mx st w = (Inr st', w') \<Longrightarrow> window_steps E avail streaming out_dir mx (st, w) (st', w')"
  by (rule window_loop_rule [where I = "\<lambda>st' w'. window_steps E avail streaming out_dir mx (st, w) (st', w')"])
    (blast intro: window_steps.intros)+

definition window_bounded :: "nat \<Rightarrow> window_state \<Rightarrow> bool" where
  "window_bounded mx st \<longleftrightarrow> length (ws_in_flight st) \<le> ws_active st \<and> 1 \<le> ws_active st \<and> ws_active st \<le> mx \<and>
     distinct (map fst (ws_in_flight st)) \<and> fst ` set (ws_in_flight st) \<inter> ws_completed st = {}"

lemma update_length: "length (AList.update k v xs) \<le> Suc (length xs)"
  by (induction xs) auto

lemma update_keys: "fst ` set (AList.update k v xs) = insert k (fst ` set xs)"
  by (induction xs) auto

lemma fill_window_bounded:
  "fill_window C avail completed active in_flight rest w = (Inr (in_flight', rest'), w') \<Longrightarrow>
     length in_flight \<le> active \<Longrightarrow> distinct (map fst in_flight) \<Longrightarrow> fst ` set in_flight \<inter> completed = {} \<Longrightarrow>
     length in_flight' \<le> active \<and> distinct (map fst in_flight') \<and> fst ` set in_flight' \<inter> completed = {}"
proof (induction rest arbitrary: in_flight w)
  case (Cons m ms)
  consider (stop) "in_flight' = in_flight"
    | (skip) "fill_window C avail completed active in_flight ms w = (Inr (in_flight', rest'), w')"
    | (request) w1 where "length in_flight < active" "cm_index m \<notin> completed"
      "fill_window C avail completed active (AList.update (cm_index m) m in_flight) ms w1 = (Inr (in_flight', rest'), w')"
    using Cons.prems(1) by (auto simp: bindE_Inr split: if_split_asm)
  then show ?case
  proof cases
    case stop
    with Cons.prems show ?thesis by simp
  next
    case skip
    from Cons.IH [OF this Cons.prems(2-4)] show ?thesis .
  next
    case request
    have "length (AList.update (cm_index m) m in_flight) \<le> active"
      using update_length [of "cm_index m" m in_flight] request(1) by linarith
    moreover have "distinct (map fst (AList.update (cm_index m) m in_flight))"
      using Cons.prems(3) by (rule distinct_update)
    moreover have "fst ` set (AList.update (cm_index m) m in_flight) \<inter> completed = {}"
      using Cons.prems(4) request(2) by (simp add: update_keys)
    ultimately show ?thesis
      by (rule Cons.IH [OF request(3)])
  qed
qed simp

lemma grow_bounded:
  "1 \<le> active \<Longrightarrow> active \<le> mx \<Longrightarrow> maybe_grow_request_window mx active since = (active', since') \<Longrightarrow> active \<le> active' \<and> active' \<le> mx"
  by (auto simp: maybe_grow_request_window_def split: if_split_asm)

lemma accept_bounded:
  assumes "accept_received E streaming out_dir mx st r w = (Inr st', w')" and "window_bounded mx st"
  shows "window_bounded mx st'"
proof -
  from assms(1) obtain i where i: "i \<in> fst ` set (ws_in_flight st)" "ws_in_flight st' = AList.delete i (ws_in_flight st)"
      "ws_completed st' = insert i (ws_completed st)"
    by (rule accept_received_Inr)
  have "ws_active st \<le> ws_active st' \<and> ws_active st' \<le> mx"
  proof -
    obtain j state st0 where "st' = chunk_done mx j state st0" "ws_active st0 = ws_active st"
      using assms(1) by (auto simp: accept_received_def accept_raw_file_def accept_chunk_message_def bindE_Inr Let_def
          split: prod.split_asm received_chunk_frame.split_asm option.split_asm wire_message.split_asm if_split_asm)
    then show ?thesis
      using grow_bounded [of "ws_active st" mx] assms(2) by (auto simp: chunk_done_def window_bounded_def split: prod.split)
  qed
  moreover have "length (ws_in_flight st') \<le> length (ws_in_flight st)"
    using delete_shorter [OF i(1)] i(2) by simp
  moreover have "fst ` set (ws_in_flight st') = fst ` set (ws_in_flight st) - {i}"
    by (force simp: i(2) AList.delete_eq)
  ultimately show ?thesis
    using assms(2) i(2,3) unfolding window_bounded_def by (auto simp: distinct_delete)
qed

section \<open>Properties\<close>


definition sample_window_manifest :: manifest where
  "sample_window_manifest = \<lparr>m_file_id = FileId 1, m_file_name = ''f'', m_file_size = 8, m_chunk_size = 4,
     m_chunks = [sample_chunk_meta 0, sample_chunk_meta 1]\<rparr>"


end
