(* ===== verification/Etle_Text.thy ===== *)
theory Etle_Text
  imports Etle_Prelude
begin

text \<open>
  What the configuration, the discovery and the daemon use of Rust's \<open>str\<close>, \<open>Path\<close> and \<open>net\<close> modules:
  trimming and splitting, the parsers of unsigned integers and of IP and socket addresses, and paths
  as text. A string is its UTF-8 bytes, so a white space character beyond ASCII is a sequence of bytes.
\<close>

section \<open>Strings\<close>

text \<open>The characters with the Unicode property \<open>White_Space\<close>.\<close>

definition white_space :: "string list" where
  "white_space = map (map char_of) ([[9], [10], [11], [12], [13], [32], [194, 133], [194, 160], [225, 154, 128 :: nat]]
     @ map (\<lambda>b. [226, 128, b]) ([128..<139] @ [168, 169, 175]) @ [[226, 129, 159], [227, 128, 128]])"

function strip_all :: "string list \<Rightarrow> string \<Rightarrow> string" where
  "strip_all ws s = (case find (\<lambda>p. p \<noteq> [] \<and> prefix p s) ws of
      None \<Rightarrow> s
    | Some p \<Rightarrow> strip_all ws (drop (length p) s))"
  by pat_completeness auto
termination
  by (relation "measure (\<lambda>(ws, s). length s)") (auto simp: find_Some_iff prefix_def)

declare strip_all.simps [simp del]

definition trim_start :: "string \<Rightarrow> string" where
  "trim_start s = strip_all white_space s"

definition trim_end :: "string \<Rightarrow> string" where
  "trim_end s = rev (strip_all (map rev white_space) (rev s))"

definition trim :: "string \<Rightarrow> string" where
  "trim s = trim_end (trim_start s)"

definition strip_prefix :: "string \<Rightarrow> string \<Rightarrow> string option" where
  "strip_prefix p s = (if prefix p s then Some (drop (length p) s) else None)"

definition strip_suffix :: "string \<Rightarrow> string \<Rightarrow> string option" where
  "strip_suffix p s = (if suffix p s then Some (take (length s - length p) s) else None)"

definition split_once :: "char \<Rightarrow> string \<Rightarrow> (string \<times> string) option" where
  "split_once c s = (if c \<in> set s then Some (takeWhile (\<lambda>x. x \<noteq> c) s, tl (dropWhile (\<lambda>x. x \<noteq> c) s)) else None)"

text \<open>\<open>split(char)\<close>: one piece more than there are separators.\<close>

fun split_on :: "(char \<Rightarrow> bool) \<Rightarrow> string \<Rightarrow> string list" where
  "split_on p [] = [[]]"
| "split_on p (c # s) = (if p c then [] # split_on p s
     else case split_on p s of piece # pieces \<Rightarrow> (c # piece) # pieces | [] \<Rightarrow> [[c]])"

text \<open>\<open>lines\<close>: pieces up to and including a line feed, with the line feed and a carriage return before it removed.\<close>

fun split_inclusive_nl :: "string \<Rightarrow> string list" where
  "split_inclusive_nl [] = []"
| "split_inclusive_nl (c # s) = (if c = CHR 0x0A then [c] # split_inclusive_nl s
     else case split_inclusive_nl s of piece # pieces \<Rightarrow> (c # piece) # pieces | [] \<Rightarrow> [[c]])"

definition strip_line_end :: "string \<Rightarrow> string" where
  "strip_line_end line = (case strip_suffix [CHR 0x0A] line of
      None \<Rightarrow> line
    | Some l \<Rightarrow> (case strip_suffix [CHR 0x0D] l of None \<Rightarrow> l | Some l' \<Rightarrow> l'))"

definition str_lines :: "string \<Rightarrow> string list" where
  "str_lines s = map strip_line_end (split_inclusive_nl s)"

text \<open>Whether bytes are well-formed UTF-8, as \<open>str::from_utf8\<close> decides it.\<close>

definition continues :: "nat \<Rightarrow> nat \<Rightarrow> nat list \<Rightarrow> bool" where
  "continues lo hi bs \<longleftrightarrow> (case bs of b # _ \<Rightarrow> lo \<le> b \<and> b \<le> hi | [] \<Rightarrow> False)"

fun valid_utf8 :: "nat list \<Rightarrow> bool" where
  "valid_utf8 [] = True"
| "valid_utf8 (b # bs) =
     (if b < 128 then valid_utf8 bs
      else if 194 \<le> b \<and> b \<le> 223 then continues 128 191 bs \<and> valid_utf8 (drop 1 bs)
      else if 224 \<le> b \<and> b \<le> 239 then
        continues (if b = 224 then 160 else 128) (if b = 237 then 159 else 191) bs \<and> continues 128 191 (drop 1 bs) \<and> valid_utf8 (drop 2 bs)
      else if 240 \<le> b \<and> b \<le> 244 then
        continues (if b = 240 then 144 else 128) (if b = 244 then 143 else 191) bs \<and> continues 128 191 (drop 1 bs) \<and>
        continues 128 191 (drop 2 bs) \<and> valid_utf8 (drop 3 bs)
      else False)"

section \<open>Numbers\<close>

definition is_ascii_digit :: "char \<Rightarrow> bool" where
  "is_ascii_digit c \<longleftrightarrow> 48 \<le> (of_char c :: nat) \<and> (of_char c :: nat) \<le> 57"

text \<open>\<open>from_str\<close> of an unsigned integer of \<open>w\<close> bits.\<close>

definition parse_unsigned :: "nat \<Rightarrow> string \<Rightarrow> nat option" where
  "parse_unsigned w s =
     (let ds = (case s of c # cs \<Rightarrow> if c = CHR ''+'' then cs else s | [] \<Rightarrow> []) in
      if ds = [] \<or> \<not> list_all is_ascii_digit ds \<or> 2 ^ w \<le> digits_nat ds then None else Some (digits_nat ds))"

section \<open>Addresses\<close>

type_synonym ipv4_addr = u32
type_synonym ipv6_addr = "128 word"

datatype ip_addr = V4 ipv4_addr | V6 ipv6_addr

datatype socket_addr = SocketV4 ipv4_addr u16 | SocketV6 ipv6_addr u32 u16

definition ipv4_new :: "nat \<Rightarrow> nat \<Rightarrow> nat \<Rightarrow> nat \<Rightarrow> ipv4_addr" where
  "ipv4_new a b c d = of_nat (((a * 256 + b) * 256 + c) * 256 + d)"

definition ipv4_octets :: "ipv4_addr \<Rightarrow> nat list" where
  "ipv4_octets ip = [unat ip div 2 ^ 24 mod 256, unat ip div 2 ^ 16 mod 256, unat ip div 2 ^ 8 mod 256, unat ip mod 256]"

definition ipv4_is_multicast :: "ipv4_addr \<Rightarrow> bool" where
  "ipv4_is_multicast ip \<longleftrightarrow> (let a = unat ip div 2 ^ 24 in 224 \<le> a \<and> a \<le> 239)"

definition ipv4_is_loopback :: "ipv4_addr \<Rightarrow> bool" where
  "ipv4_is_loopback ip \<longleftrightarrow> unat ip div 2 ^ 24 = 127"

fun ip_is_loopback :: "ip_addr \<Rightarrow> bool" where
  "ip_is_loopback (V4 ip) \<longleftrightarrow> ipv4_is_loopback ip"
| "ip_is_loopback (V6 ip) \<longleftrightarrow> ip = 1"

fun ip_is_unspecified :: "ip_addr \<Rightarrow> bool" where
  "ip_is_unspecified (V4 ip) \<longleftrightarrow> ip = 0"
| "ip_is_unspecified (V6 ip) \<longleftrightarrow> ip = 0"

fun socket_ip :: "socket_addr \<Rightarrow> ip_addr" where
  "socket_ip (SocketV4 ip _) = V4 ip"
| "socket_ip (SocketV6 ip _ _) = V6 ip"

fun socket_port :: "socket_addr \<Rightarrow> u16" where
  "socket_port (SocketV4 _ p) = p"
| "socket_port (SocketV6 _ _ p) = p"

fun socket_new :: "ip_addr \<Rightarrow> u16 \<Rightarrow> socket_addr" where
  "socket_new (V4 ip) p = SocketV4 ip p"
| "socket_new (V6 ip) p = SocketV6 ip 0 p"

subsection \<open>Parsing of addresses\<close>

text \<open>A reader takes a value from the front of the text, or leaves the text alone.\<close>

type_synonym 'a reader = "string \<Rightarrow> ('a \<times> string) option"

definition radix_digit :: "nat \<Rightarrow> char \<Rightarrow> nat option" where
  "radix_digit radix c = (let n = of_char c :: nat;
       d = (if 48 \<le> n \<and> n \<le> 57 then n - 48 else if 97 \<le> n \<and> n \<le> 122 then n - 87 else if 65 \<le> n \<and> n \<le> 90 then n - 55 else radix) in
     if d < radix then Some d else None)"

definition radix_value :: "nat \<Rightarrow> string \<Rightarrow> nat" where
  "radix_value radix ds = foldl (\<lambda>n c. n * radix + the (radix_digit radix c)) 0 ds"

definition read_number :: "nat \<Rightarrow> nat option \<Rightarrow> bool \<Rightarrow> nat \<Rightarrow> nat reader" where
  "read_number radix max_digits allow_zero_prefix bits s =
     (let ds = takeWhile (\<lambda>c. radix_digit radix c \<noteq> None) s; n = radix_value radix ds in
      if ds = [] \<or> (case max_digits of Some m \<Rightarrow> m < length ds | None \<Rightarrow> False) then None
      else if \<not> allow_zero_prefix \<and> hd ds = CHR ''0'' \<and> 1 < length ds then None
      else if 2 ^ bits \<le> n then None
      else Some (n, drop (length ds) s))"

definition read_given_char :: "char \<Rightarrow> unit reader" where
  "read_given_char c s = (case s of d # rest \<Rightarrow> if d = c then Some ((), rest) else None | [] \<Rightarrow> None)"

definition read_separator :: "char \<Rightarrow> nat \<Rightarrow> 'a reader \<Rightarrow> 'a reader" where
  "read_separator c i r s = (if i = 0 then r s else Option.bind (read_given_char c s) (\<lambda>(_, rest). r rest))"

definition read_ipv4_addr :: "ipv4_addr reader" where
  "read_ipv4_addr s =
     Option.bind (read_number 10 (Some 3) False 8 s) (\<lambda>(a, s1).
     Option.bind (read_separator CHR ''.'' 1 (read_number 10 (Some 3) False 8) s1) (\<lambda>(b, s2).
     Option.bind (read_separator CHR ''.'' 2 (read_number 10 (Some 3) False 8) s2) (\<lambda>(c, s3).
     Option.bind (read_separator CHR ''.'' 3 (read_number 10 (Some 3) False 8) s3) (\<lambda>(d, s4).
     Some (ipv4_new a b c d, s4)))))"

text \<open>The groups read from position \<open>i\<close> on, whether they ended with an embedded IPv4 address, and the rest.\<close>

function read_groups :: "nat \<Rightarrow> nat \<Rightarrow> string \<Rightarrow> nat list \<times> bool \<times> string" where
  "read_groups limit i s =
     (if limit \<le> i then ([], False, s)
      else case (if i + 1 < limit then read_separator CHR '':'' i read_ipv4_addr s else None) of
        Some (ip, rest) \<Rightarrow> ([unat ip div 2 ^ 16, unat ip mod 2 ^ 16], True, rest)
      | None \<Rightarrow> (case read_separator CHR '':'' i (read_number 16 (Some 4) True 16) s of
            None \<Rightarrow> ([], False, s)
          | Some (g, rest) \<Rightarrow> (case read_groups limit (i + 1) rest of (gs, v4, rest') \<Rightarrow> (g # gs, v4, rest'))))"
  by pat_completeness auto
termination
  by (relation "measure (\<lambda>(limit, i, s). limit - i)") auto

declare read_groups.simps [simp del]

definition ipv6_of_groups :: "nat list \<Rightarrow> ipv6_addr" where
  "ipv6_of_groups gs = of_nat (foldl (\<lambda>n g. n * 2 ^ 16 + g) 0 gs)"

definition read_ipv6_addr :: "ipv6_addr reader" where
  "read_ipv6_addr s = (case read_groups 8 0 s of (head, head_ipv4, s1) \<Rightarrow>
     if length head = 8 then Some (ipv6_of_groups head, s1)
     else if head_ipv4 then None
     else Option.bind (read_given_char CHR '':'' s1) (\<lambda>(_, s2).
       Option.bind (read_given_char CHR '':'' s2) (\<lambda>(_, s3).
       case read_groups (8 - (length head + 1)) 0 s3 of (tail, _, s4) \<Rightarrow>
         Some (ipv6_of_groups (head @ replicate (8 - length head - length tail) 0 @ tail), s4))))"

definition read_port :: "u16 reader" where
  "read_port s = Option.bind (read_given_char CHR '':'' s) (\<lambda>(_, s1).
     Option.bind (read_number 10 None True 16 s1) (\<lambda>(n, s2). Some (of_nat n, s2)))"

definition read_socket_addr_v4 :: "socket_addr reader" where
  "read_socket_addr_v4 s = Option.bind (read_ipv4_addr s) (\<lambda>(ip, s1).
     Option.bind (read_port s1) (\<lambda>(p, s2). Some (SocketV4 ip p, s2)))"

definition read_scope_id :: "string \<Rightarrow> nat \<times> string" where
  "read_scope_id s = (case Option.bind (read_given_char CHR ''%'' s) (\<lambda>(_, s1). read_number 10 None True 32 s1) of
      Some (n, rest) \<Rightarrow> (n, rest)
    | None \<Rightarrow> (0, s))"

definition read_socket_addr_v6 :: "socket_addr reader" where
  "read_socket_addr_v6 s = Option.bind (read_given_char CHR ''['' s) (\<lambda>(_, s1).
     Option.bind (read_ipv6_addr s1) (\<lambda>(ip, s2).
     case read_scope_id s2 of (scope, s3) \<Rightarrow>
     Option.bind (read_given_char CHR '']'' s3) (\<lambda>(_, s4).
     Option.bind (read_port s4) (\<lambda>(p, s5). Some (SocketV6 ip (of_nat scope) p, s5)))))"

definition parse_with :: "'a reader \<Rightarrow> string \<Rightarrow> 'a option" where
  "parse_with r s = (case r s of Some (x, []) \<Rightarrow> Some x | _ \<Rightarrow> None)"

definition parse_ipv4_addr :: "string \<Rightarrow> ipv4_addr option" where
  "parse_ipv4_addr s = (if 15 < length s then None else parse_with read_ipv4_addr s)"

definition parse_socket_addr :: "string \<Rightarrow> socket_addr option" where
  "parse_socket_addr s = parse_with (\<lambda>t. case read_socket_addr_v4 t of Some r \<Rightarrow> Some r | None \<Rightarrow> read_socket_addr_v6 t) s"

text \<open>\<open>Display\<close> of an IPv4 address.\<close>

definition show_ipv4 :: "ipv4_addr \<Rightarrow> string" where
  "show_ipv4 ip = (case map show_nat (ipv4_octets ip) of [a, b, c, d] \<Rightarrow> a @ ''.'' @ b @ ''.'' @ c @ ''.'' @ d | _ \<Rightarrow> [])"

section \<open>Paths as text\<close>

text \<open>\<open>Path::join\<close> on Unix: an absolute second path replaces the first.\<close>

definition join_text :: "string \<Rightarrow> string \<Rightarrow> string" where
  "join_text a b = (if prefix ''/'' b then b else if a = [] \<or> suffix ''/'' a then a @ b else a @ ''/'' @ b)"

text \<open>The normal components of a path, and the last of them if the path does not end in \<open>..\<close>.\<close>

definition path_components :: "string \<Rightarrow> string list" where
  "path_components s = filter (\<lambda>c. c \<noteq> [] \<and> c \<noteq> ''.'') (split_on (\<lambda>c. c = CHR ''/'') s)"

definition path_file_name :: "string \<Rightarrow> string option" where
  "path_file_name s = (let cs = path_components s in if cs = [] \<or> last cs = ''..'' then None else Some (last cs))"

section \<open>Facts about strings\<close>

text \<open>A printable ASCII character: no white space begins or ends with one.\<close>

definition solid :: "char \<Rightarrow> bool" where
  "solid c \<longleftrightarrow> 33 \<le> (of_char c :: nat) \<and> (of_char c :: nat) < 127"

lemma white_space_ends: "list_all (\<lambda>p. p \<noteq> [] \<and> \<not> solid (hd p) \<and> \<not> solid (last p)) white_space"
  by code_simp

lemma white_space_not_solid:
  "p \<in> set white_space \<Longrightarrow> p \<noteq> [] \<and> \<not> solid (hd p)"
  "p \<in> set (map rev white_space) \<Longrightarrow> p \<noteq> [] \<and> \<not> solid (hd p)"
  using white_space_ends by (auto simp: list_all_iff hd_rev)

lemma strip_all_solid:
  assumes "s = [] \<or> solid (hd s)" and "\<And>p. p \<in> set ws \<Longrightarrow> p \<noteq> [] \<and> \<not> solid (hd p)"
  shows "strip_all ws s = s"
proof -
  have "find (\<lambda>p. p \<noteq> [] \<and> prefix p s) ws = None"
    using assms by (auto simp: find_None_iff prefix_def hd_append)
  then show ?thesis
    by (subst strip_all.simps) simp
qed

lemma strip_all_space:
  assumes "\<And>p. p \<in> set ws \<Longrightarrow> p \<noteq> [] \<and> (hd p = CHR '' '' \<longrightarrow> p = '' '')" and "'' '' \<in> set ws"
  shows "strip_all ws (CHR '' '' # s) = strip_all ws s"
proof -
  have "find (\<lambda>p. p \<noteq> [] \<and> prefix p (CHR '' '' # s)) ws \<noteq> None"
    using assms(2) by (auto simp: find_None_iff)
  then obtain p where p: "find (\<lambda>p. p \<noteq> [] \<and> prefix p (CHR '' '' # s)) ws = Some p"
    by blast
  then have mem: "p \<in> set ws" and "p \<noteq> []" "prefix p (CHR '' '' # s)"
    by (auto simp: find_Some_iff)
  then have "hd p = CHR '' ''"
    by (simp add: prefix_Cons) auto
  then have "p = '' ''"
    using assms(1) [OF mem] by simp
  then show ?thesis
    using p by (subst strip_all.simps) simp
qed

lemma white_space_space: "list_all (\<lambda>p. (hd p = CHR '' '' \<longrightarrow> p = '' '') \<and> (last p = CHR '' '' \<longrightarrow> p = '' '')) white_space"
  by code_simp

lemma space_is_white: "'' '' \<in> set white_space"
  by code_simp

lemma strip_space:
  "strip_all white_space (CHR '' '' # s) = strip_all white_space s"
  "strip_all (map rev white_space) (CHR '' '' # s) = strip_all (map rev white_space) s"
proof -
  have p: "p \<noteq> [] \<and> (hd p = CHR '' '' \<longrightarrow> p = '' '') \<and> (last p = CHR '' '' \<longrightarrow> p = '' '')" if "p \<in> set white_space" for p
    using that white_space_space white_space_ends unfolding list_all_iff by blast
  show "strip_all white_space (CHR '' '' # s) = strip_all white_space s"
    using p space_is_white by (intro strip_all_space) blast+
  have "rev '' '' \<in> rev ` set white_space"
    using space_is_white by (rule imageI)
  then have sp: "'' '' \<in> set (map rev white_space)"
    by (simp only: set_map) simp
  show "strip_all (map rev white_space) (CHR '' '' # s) = strip_all (map rev white_space) s"
  proof (rule strip_all_space [OF _ sp])
    fix q assume "q \<in> set (map rev white_space)"
    then obtain p' where p': "p' \<in> set white_space" "q = rev p'"
      unfolding set_map by blast
    then show "q \<noteq> [] \<and> (hd q = CHR '' '' \<longrightarrow> q = '' '')"
      using p [OF p'(1)] by (simp add: hd_rev) (metis rev_singleton_conv)
  qed
qed

lemma strip_solid:
  "s = [] \<or> solid (hd s) \<Longrightarrow> strip_all white_space s = s"
  "s = [] \<or> solid (hd s) \<Longrightarrow> strip_all (map rev white_space) s = s"
  by (rule strip_all_solid; use white_space_not_solid in blast)+

lemma trim_Nil [simp]: "trim [] = []"
  using strip_solid [of "[]"] by (simp add: trim_def trim_start_def trim_end_def)

lemma trim_solid: "solid (hd s) \<Longrightarrow> solid (last s) \<Longrightarrow> trim s = s"
  by (cases "s = []") (simp_all add: trim_def trim_start_def trim_end_def strip_solid hd_rev)

lemma trim_space_left: "trim (CHR '' '' # s) = trim s"
  by (simp only: trim_def trim_start_def strip_space)

lemma trim_space_right:
  assumes "solid (hd s)" and "solid (last s)" and "s \<noteq> []"
  shows "trim (s @ '' '') = s"
proof -
  have "strip_all white_space (s @ '' '') = s @ '' ''"
    using assms by (intro strip_solid) simp
  moreover have "strip_all (map rev white_space) (rev s) = rev s"
    using assms by (intro strip_solid) (simp add: hd_rev)
  ultimately show ?thesis
    by (simp add: trim_def trim_start_def trim_end_def strip_space)
qed

lemma split_once_at: "c \<notin> set a \<Longrightarrow> split_once c (a @ c # b) = Some (a, b)"
  by (auto simp: split_once_def takeWhile_tail takeWhile_append dropWhile_append)

lemma split_once_Some: "split_once c s = Some (a, b) \<longleftrightarrow> s = a @ c # b \<and> c \<notin> set a"
proof
  assume "split_once c s = Some (a, b)"
  then have c: "c \<in> set s" and a: "a = takeWhile (\<lambda>x. x \<noteq> c) s" and b: "b = tl (dropWhile (\<lambda>x. x \<noteq> c) s)"
    by (auto simp: split_once_def split: if_splits)
  then have "dropWhile (\<lambda>x. x \<noteq> c) s = c # b"
    by (metis (mono_tags, lifting) dropWhile_eq_Nil_conv hd_dropWhile list.collapse)
  then show "s = a @ c # b \<and> c \<notin> set a"
    using a takeWhile_dropWhile_id [of "\<lambda>x. x \<noteq> c" s] by (auto dest: set_takeWhileD)
qed (simp add: split_once_at)

lemma split_on_nonempty: "split_on p s \<noteq> []"
  by (induction s) (auto split: list.splits)

lemma split_on_pieces: "piece \<in> set (split_on p s) \<Longrightarrow> c \<in> set piece \<Longrightarrow> \<not> p c \<and> c \<in> set s"
proof (induction s arbitrary: piece)
  case (Cons d s)
  show ?case
  proof (cases "split_on p s")
    case Nil
    then show ?thesis using split_on_nonempty by blast
  next
    case (Cons x xs)
    then show ?thesis
      using Cons.IH [of piece] Cons.IH [of x] Cons.prems by (auto split: if_splits)
  qed
qed simp

text \<open>Lines that end in a printable character are read back from their concatenation.\<close>

lemma split_inclusive_line: "CHR 0x0A \<notin> set l \<Longrightarrow> split_inclusive_nl (l @ CHR 0x0A # s) = (l @ [CHR 0x0A]) # split_inclusive_nl s"
  by (induction l) auto

lemma str_lines_unlines:
  "(\<And>l. l \<in> set ls \<Longrightarrow> CHR 0x0A \<notin> set l \<and> (l = [] \<or> last l \<noteq> CHR 0x0D)) \<Longrightarrow> str_lines (concat (map (\<lambda>l. l @ [CHR 0x0A]) ls)) = ls"
proof (induction ls)
  case (Cons l ls)
  have "strip_line_end (l @ [CHR 0x0A]) = l"
    using Cons.prems [of l] by (auto simp: strip_line_end_def strip_suffix_def suffix_def)
  with Cons show ?case
    by (simp add: str_lines_def split_inclusive_line)
qed (simp add: str_lines_def)

section \<open>Facts about numbers and addresses\<close>

lemma digit_char_ascii: "d < 10 \<Longrightarrow> is_ascii_digit (digit_char d)"
  by (simp add: is_ascii_digit_def)

lemma show_nat_ascii: "list_all is_ascii_digit (show_nat n)"
  using show_nat_digits digit_char_ascii by (auto simp: list_all_iff)

lemma show_nat_not_Nil [simp]: "show_nat n \<noteq> []"
  by (subst show_nat.simps) simp

lemma parse_unsigned_show: "n < 2 ^ w \<Longrightarrow> parse_unsigned w (show_nat n) = Some n"
proof -
  have "hd (show_nat n) \<noteq> CHR ''+''"
    using show_nat_ascii [of n] by (cases "show_nat n") (auto simp: is_ascii_digit_def)
  moreover assume "n < 2 ^ w"
  ultimately show ?thesis
    using show_nat_ascii [of n] digits_nat_show_nat [of n]
    by (cases "show_nat n") (simp_all add: parse_unsigned_def Let_def del: digits_nat_show_nat)
qed

lemma radix_digit_10: "d < 10 \<Longrightarrow> radix_digit 10 (digit_char d) = Some d"
  by (simp add: radix_digit_def Let_def)

lemma radix_value_show: "radix_value 10 (show_nat n) = n"
proof (induction n rule: show_nat.induct)
  case (1 n)
  show ?case
  proof (cases "n < 10")
    case True
    then show ?thesis by (simp add: show_nat.simps [of n] radix_value_def radix_digit_10)
  next
    case False
    then have "radix_value 10 (show_nat (n div 10)) = n div 10"
      using 1 by simp
    with False show ?thesis
      by (simp add: show_nat.simps [of n] radix_value_def radix_digit_10)
  qed
qed

lemma show_nat_hd_zero: "hd (show_nat n) = CHR ''0'' \<Longrightarrow> n = 0"
proof (induction n rule: show_nat.induct)
  case (1 n)
  have z: "digit_char d = CHR ''0'' \<Longrightarrow> d < 10 \<Longrightarrow> d = 0" for d
    by (drule arg_cong [of _ _ "of_char :: char \<Rightarrow> nat"]) simp
  show ?case
  proof (cases "n < 10")
    case True
    with "1.prems" show ?thesis
      using z by (simp add: show_nat.simps [of n])
  next
    case False
    with "1.prems" have "hd (show_nat (n div 10)) = CHR ''0''"
      by (simp add: show_nat.simps [of n])
    with 1 False show ?thesis
      by simp
  qed
qed

lemma length_show_nat: "n < 10 ^ Suc k \<Longrightarrow> length (show_nat n) \<le> Suc k"
proof (induction k arbitrary: n)
  case 0
  then show ?case by (simp add: show_nat.simps [of n])
next
  case (Suc k)
  then have "length (show_nat (n div 10)) \<le> Suc k"
    by (intro Suc.IH) (simp add: less_mult_imp_div_less mult.commute)
  then show ?case
    by (subst show_nat.simps) simp
qed

lemma read_number_show:
  assumes "s = [] \<or> radix_digit 10 (hd s) = None" and "n < 2 ^ bits" and "case m of Some k \<Rightarrow> length (show_nat n) \<le> k | None \<Rightarrow> True"
  shows "read_number 10 m z bits (show_nat n @ s) = Some (n, s)"
proof -
  have d: "\<forall>c \<in> set (show_nat n). radix_digit 10 c \<noteq> None"
    using show_nat_digits radix_digit_10 by (metis option.distinct(1))
  then have tw: "takeWhile (\<lambda>c. radix_digit 10 c \<noteq> None) (show_nat n @ s) = show_nat n"
    using assms(1) by (cases s) auto
  have "\<not> (hd (show_nat n) = CHR ''0'' \<and> 1 < length (show_nat n))"
    using show_nat_hd_zero [of n] by (auto simp: show_nat.simps [of 0])
  then show ?thesis
    using assms(2,3) unfolding read_number_def Let_def tw by (auto simp: radix_value_show split: option.splits)
qed

lemma ipv4_octets_bound: "list_all (\<lambda>n. n < 256) (ipv4_octets ip)"
  by (simp add: ipv4_octets_def)

lemma ipv4_new_octets: "ipv4_octets ip = [a, b, c, d] \<Longrightarrow> ipv4_new a b c d = ip"
proof -
  assume o: "ipv4_octets ip = [a, b, c, d]"
  let ?n = "unat ip"
  have n: "?n < 2 ^ 32"
    using unat_u32_bound [of ip] by simp
  have "a = ?n div 2 ^ 24" "b = ?n div 2 ^ 16 mod 256" "c = ?n div 2 ^ 8 mod 256" "d = ?n mod 256"
    using o n by (auto simp: ipv4_octets_def)
  moreover have "?n div 2 ^ 24 = ?n div 2 ^ 16 div 256" "?n div 2 ^ 16 = ?n div 2 ^ 8 div 256" "?n div 2 ^ 8 = ?n div 256"
    by (simp_all flip: div_mult2_eq)
  then have "((?n div 2 ^ 24 * 256 + ?n div 2 ^ 16 mod 256) * 256 + ?n div 2 ^ 8 mod 256) * 256 + ?n mod 256 = ?n"
    by (metis div_mult_mod_eq)
  ultimately show ?thesis
    by (simp add: ipv4_new_def)
qed

lemma read_ipv4_show:
  assumes "s = [] \<or> radix_digit 10 (hd s) = None"
  shows "read_ipv4_addr (show_ipv4 ip @ s) = Some (ip, s)"
proof -
  obtain a b c d where o: "ipv4_octets ip = [a, b, c, d]"
    by (simp add: ipv4_octets_def)
  then have small: "a < 256" "b < 256" "c < 256" "d < 256"
    using ipv4_octets_bound [of ip] by simp_all
  have len: "length (show_nat n) \<le> 3" if "n < 256" for n
    using length_show_nat [of n 2] that by simp
  have dot: "radix_digit 10 CHR ''.'' = None"
    by (simp add: radix_digit_def)
  note rn = read_number_show [where m = "Some 3" and z = False and bits = 8]
  show ?thesis
    using small len assms dot
    by (simp add: show_ipv4_def o read_ipv4_addr_def read_separator_def read_given_char_def rn ipv4_new_octets [OF o])
qed

lemma parse_ipv4_show: "parse_ipv4_addr (show_ipv4 ip) = Some ip"
proof -
  obtain a b c d where o: "ipv4_octets ip = [a, b, c, d]"
    by (simp add: ipv4_octets_def)
  then have small: "a < 256" "b < 256" "c < 256" "d < 256"
    using ipv4_octets_bound [of ip] by simp_all
  have "length (show_nat n) \<le> 3" if "n < 256" for n
    using length_show_nat [of n 2] that by simp
  then have "length (show_nat a) \<le> 3" "length (show_nat b) \<le> 3" "length (show_nat c) \<le> 3" "length (show_nat d) \<le> 3"
    using small by blast+
  then have "length (show_ipv4 ip) \<le> 15"
    by (simp add: show_ipv4_def o)
  then show ?thesis
    using read_ipv4_show [of "[]" ip] by (simp add: parse_ipv4_addr_def parse_with_def)
qed

end
