(* ===== verification/Etle_Config.thy ===== *)
theory Etle_Config
  imports Etle_World Etle_Text
begin

text \<open>
  \<open>src/config\<close>: the configuration file, a sequence of lines \<open>key = value\<close> with comments, and the values
  that are used when a key is absent. The environment variables are a map from names to values.
\<close>

section \<open>Operations\<close>

datatype config_error = ConfigIo io_error
  | InvalidLine nat string
  | InvalidValue nat string string
  | UnknownKey nat string

record etle_config =
  cf_library_root :: "string option"
  cf_ipc_socket :: "string option"
  cf_listen :: "socket_addr option"
  cf_discovery_port :: "u16 option"
  cf_discovery_multicast :: "ipv4_addr option"
  cf_discovery_timeout_ms :: "u64 option"
  cf_request_window :: "nat option"
  cf_parallel :: "nat option"
  cf_auth_psk :: "string option"

definition config_default :: etle_config where
  "config_default = \<lparr>cf_library_root = None, cf_ipc_socket = None, cf_listen = None, cf_discovery_port = None,
     cf_discovery_multicast = None, cf_discovery_timeout_ms = None, cf_request_window = None, cf_parallel = None, cf_auth_psk = None\<rparr>"

subsection \<open>Parsing\<close>

fun unescape_basic_string :: "string \<Rightarrow> string" where
  "unescape_basic_string [] = []"
| "unescape_basic_string (c # s) =
     (if c \<noteq> CHR 0x5C then c # unescape_basic_string s
      else case s of
        [] \<Rightarrow> [CHR 0x5C]
      | d # s' \<Rightarrow>
          (if d = CHR 0x22 then [CHR 0x22]
           else if d = CHR 0x5C then [CHR 0x5C]
           else if d = CHR ''n'' then [CHR 0x0A]
           else if d = CHR ''t'' then [CHR 0x09]
           else [CHR 0x5C, d]) @ unescape_basic_string s')"

definition parse_string_value :: "string \<Rightarrow> string" where
  "parse_string_value value = (let v = trim value in
     case Option.bind (strip_prefix [CHR 0x22] v) (strip_suffix [CHR 0x22]) of
       Some inner \<Rightarrow> unescape_basic_string inner
     | None \<Rightarrow> v)"

text \<open>The loop of \<open>strip_comment\<close> with its two flags.\<close>

fun strip_comment_loop :: "bool \<Rightarrow> bool \<Rightarrow> string \<Rightarrow> string" where
  "strip_comment_loop in_string escaped [] = []"
| "strip_comment_loop in_string escaped (ch # s) =
     (if escaped then ch # strip_comment_loop in_string False s
      else if ch = CHR 0x5C \<and> in_string then ch # strip_comment_loop in_string True s
      else if ch = CHR 0x22 then ch # strip_comment_loop (\<not> in_string) False s
      else if ch = CHR ''#'' \<and> \<not> in_string then []
      else ch # strip_comment_loop in_string False s)"

definition strip_comment :: "string \<Rightarrow> string" where
  "strip_comment line = strip_comment_loop False False line"

definition parse_value :: "(string \<Rightarrow> 'a option) \<Rightarrow> nat \<Rightarrow> string \<Rightarrow> string \<Rightarrow> (config_error, 'a) result" where
  "parse_value from_str line key value = ok_or (InvalidValue line key value) (from_str value)"

definition parse_u16 :: "string \<Rightarrow> u16 option" where
  "parse_u16 s = map_option of_nat (parse_unsigned 16 s)"

definition parse_u64 :: "string \<Rightarrow> u64 option" where
  "parse_u64 s = map_option of_nat (parse_unsigned 64 s)"

text \<open>The \<open>match\<close> on the key.\<close>

definition set_key :: "nat \<Rightarrow> string \<Rightarrow> string \<Rightarrow> etle_config \<Rightarrow> (config_error, etle_config) result" where
  "set_key line key value c =
     (if key = ''library_root'' then Inr (c\<lparr>cf_library_root := Some (parse_string_value value)\<rparr>)
      else if key = ''ipc_socket'' then Inr (c\<lparr>cf_ipc_socket := Some (parse_string_value value)\<rparr>)
      else if key = ''listen'' then
        and_then (parse_value parse_socket_addr line key (parse_string_value value)) (\<lambda>a. Inr (c\<lparr>cf_listen := Some a\<rparr>))
      else if key = ''discovery_port'' then
        and_then (parse_value parse_u16 line key value) (\<lambda>p. Inr (c\<lparr>cf_discovery_port := Some p\<rparr>))
      else if key = ''discovery_multicast'' then
        and_then (parse_value parse_ipv4_addr line key (parse_string_value value)) (\<lambda>multicast.
        if \<not> ipv4_is_multicast multicast then Inl (InvalidValue line key (show_ipv4 multicast))
        else Inr (c\<lparr>cf_discovery_multicast := Some multicast\<rparr>))
      else if key = ''discovery_timeout_ms'' then
        and_then (parse_value parse_u64 line key value) (\<lambda>t. Inr (c\<lparr>cf_discovery_timeout_ms := Some t\<rparr>))
      else if key = ''request_window'' then
        and_then (parse_value (parse_unsigned 64) line key value) (\<lambda>n. Inr (c\<lparr>cf_request_window := Some n\<rparr>))
      else if key = ''parallel'' then
        and_then (parse_value (parse_unsigned 64) line key value) (\<lambda>n. Inr (c\<lparr>cf_parallel := Some n\<rparr>))
      else if key = ''auth_psk'' then Inr (c\<lparr>cf_auth_psk := Some (parse_string_value value)\<rparr>)
      else Inl (UnknownKey line key))"

definition parse_line :: "nat \<Rightarrow> string \<Rightarrow> etle_config \<Rightarrow> (config_error, etle_config) result" where
  "parse_line line raw_line c =
     (let l = trim (strip_comment raw_line) in
      if l = [] then Inr c
      else case split_once CHR ''='' l of
        None \<Rightarrow> Inl (InvalidLine line ''expected `key = value`'')
      | Some (k, v) \<Rightarrow>
          let key = trim k; value = trim v in
          if key = [] \<or> value = [] then Inl (InvalidLine line ''key and value must be non-empty'')
          else set_key line key value c)"

fun parse_lines :: "nat \<Rightarrow> string list \<Rightarrow> etle_config \<Rightarrow> (config_error, etle_config) result" where
  "parse_lines line [] c = Inr c"
| "parse_lines line (l # ls) c = and_then (parse_line line l c) (parse_lines (line + 1) ls)"

definition config_parse :: "string \<Rightarrow> (config_error, etle_config) result" where
  "config_parse source = parse_lines 1 (str_lines source) config_default"

subsection \<open>Loading\<close>

type_synonym environment = "string \<rightharpoonup> string"

definition default_config_path :: "environment \<Rightarrow> string option" where
  "default_config_path env =
     (case env ''ETLE_CONFIG'' of
        Some p \<Rightarrow> Some p
      | None \<Rightarrow> (case env ''XDG_CONFIG_HOME'' of
            Some p \<Rightarrow> Some (join_text (join_text p ''etle'') ''config.toml'')
          | None \<Rightarrow> map_option (\<lambda>home. join_text (join_text (join_text home ''.config'') ''etle'') ''config.toml'') (env ''HOME'')))"

text \<open>The file a path names is looked up by its components; \<open>to_path\<close> resolves the text against the working directory.\<close>

definition from_path :: "(string \<Rightarrow> path) \<Rightarrow> string \<Rightarrow> (config_error, etle_config) io" where
  "from_path to_path p = (\<lambda>w. case fs_read (to_path p) w of
      (Inr source, w') \<Rightarrow>
        (if valid_utf8 (map unat source) then config_parse (map char_of_byte source) else Inl (ConfigIo InvalidData), w')
    | (Inl error, w') \<Rightarrow> (if error = NotFound then Inr config_default else Inl (ConfigIo error), w'))"

definition load :: "environment \<Rightarrow> (string \<Rightarrow> path) \<Rightarrow> (config_error, etle_config) io" where
  "load env to_path = (case default_config_path env of
      None \<Rightarrow> returnE config_default
    | Some p \<Rightarrow> from_path to_path p)"

subsection \<open>Values with their defaults\<close>

definition DEFAULT_P2P_PORT :: u16 where "DEFAULT_P2P_PORT = 7000"
definition DEFAULT_DISCOVERY_PORT :: u16 where "DEFAULT_DISCOVERY_PORT = 37037"
definition DEFAULT_DISCOVERY_TIMEOUT_MS :: u64 where "DEFAULT_DISCOVERY_TIMEOUT_MS = 3000"
definition DEFAULT_DISCOVERY_MULTICAST_ADDR :: ipv4_addr where "DEFAULT_DISCOVERY_MULTICAST_ADDR = ipv4_new 239 255 0 86"
definition CONFIG_REQUEST_WINDOW :: nat where "CONFIG_REQUEST_WINDOW = 16"
definition DEFAULT_DOWNLOAD_PARALLELISM :: nat where "DEFAULT_DOWNLOAD_PARALLELISM = 0"

definition home_dir :: "environment \<Rightarrow> string option" where
  "home_dir env = env ''HOME''"

definition expand_tilde_path :: "environment \<Rightarrow> string \<Rightarrow> string" where
  "expand_tilde_path env p =
     (if p = ''~'' then (case home_dir env of Some home \<Rightarrow> home | None \<Rightarrow> p)
      else case (strip_prefix ''~/'' p, home_dir env) of
        (Some rest, Some home) \<Rightarrow> join_text home rest
      | _ \<Rightarrow> p)"

definition default_listen_addr :: socket_addr where
  "default_listen_addr = SocketV4 0 DEFAULT_P2P_PORT"

definition config_library_root :: "environment \<Rightarrow> etle_config \<Rightarrow> string option" where
  "config_library_root env c = map_option (expand_tilde_path env) (cf_library_root c)"

definition config_ipc_socket :: "environment \<Rightarrow> etle_config \<Rightarrow> string option" where
  "config_ipc_socket env c = map_option (expand_tilde_path env) (cf_ipc_socket c)"

definition or_default :: "'a \<Rightarrow> 'a option \<Rightarrow> 'a" where
  "or_default d x = (case x of Some y \<Rightarrow> y | None \<Rightarrow> d)"

definition config_listen_addr :: "etle_config \<Rightarrow> socket_addr" where
  "config_listen_addr c = or_default default_listen_addr (cf_listen c)"

definition config_discovery_port :: "etle_config \<Rightarrow> u16" where
  "config_discovery_port c = or_default DEFAULT_DISCOVERY_PORT (cf_discovery_port c)"

definition config_discovery_multicast :: "etle_config \<Rightarrow> ipv4_addr" where
  "config_discovery_multicast c = or_default DEFAULT_DISCOVERY_MULTICAST_ADDR (cf_discovery_multicast c)"

definition config_discovery_timeout_ms :: "etle_config \<Rightarrow> u64" where
  "config_discovery_timeout_ms c = or_default DEFAULT_DISCOVERY_TIMEOUT_MS (cf_discovery_timeout_ms c)"

definition config_request_window :: "etle_config \<Rightarrow> nat" where
  "config_request_window c = or_default CONFIG_REQUEST_WINDOW (cf_request_window c)"

definition config_parallel :: "etle_config \<Rightarrow> nat" where
  "config_parallel c = or_default DEFAULT_DOWNLOAD_PARALLELISM (cf_parallel c)"

definition config_auth_psk :: "etle_config \<Rightarrow> string option" where
  "config_auth_psk c = cf_auth_psk c"

subsection \<open>The default library root\<close>

definition default_library_root_from_home :: "string \<Rightarrow> string" where
  "default_library_root_from_home home = join_text (join_text home ''Downloads'') ''ETLE''"

definition windows_home_from_drive_and_path :: "environment \<Rightarrow> string option" where
  "windows_home_from_drive_and_path env = (case env ''HOMEDRIVE'' of
      None \<Rightarrow> None
    | Some drive \<Rightarrow> (case env ''HOMEPATH'' of None \<Rightarrow> None | Some home_path \<Rightarrow> Some (drive @ home_path)))"

text \<open>The flag says whether the program was compiled for Windows.\<close>

definition home_dir_from_env :: "bool \<Rightarrow> environment \<Rightarrow> string option" where
  "home_dir_from_env windows env =
     (if windows then (case env ''USERPROFILE'' of Some home \<Rightarrow> Some home | None \<Rightarrow> windows_home_from_drive_and_path env)
      else env ''HOME'')"

definition default_library_root :: "bool \<Rightarrow> environment \<Rightarrow> string" where
  "default_library_root windows env = (case env ''ETLE_LIBRARY_ROOT'' of
      Some root \<Rightarrow> root
    | None \<Rightarrow> (case home_dir_from_env windows env of
          Some home \<Rightarrow> default_library_root_from_home home
        | None \<Rightarrow> default_library_root_from_home ''.''))"

section \<open>Writing a configuration\<close>

text \<open>A reference printer: one line per key that is set, strings in quotes.\<close>

fun escape_basic_string :: "string \<Rightarrow> string" where
  "escape_basic_string [] = []"
| "escape_basic_string (c # s) =
     (if c = CHR 0x22 then [CHR 0x5C, CHR 0x22]
      else if c = CHR 0x5C then [CHR 0x5C, CHR 0x5C]
      else if c = CHR 0x0A then [CHR 0x5C, CHR ''n'']
      else if c = CHR 0x09 then [CHR 0x5C, CHR ''t'']
      else [c]) @ escape_basic_string s"

definition quoted :: "string \<Rightarrow> string" where
  "quoted s = CHR 0x22 # escape_basic_string s @ [CHR 0x22]"

fun show_socket_v4 :: "socket_addr \<Rightarrow> string" where
  "show_socket_v4 (SocketV4 ip p) = show_ipv4 ip @ '':'' @ show_nat (unat p)"
| "show_socket_v4 (SocketV6 _ _ _) = []"

definition key_line :: "string \<Rightarrow> ('a \<Rightarrow> string) \<Rightarrow> 'a option \<Rightarrow> string list" where
  "key_line key pr x = (case x of None \<Rightarrow> [] | Some v \<Rightarrow> [key @ '' = '' @ pr v])"

definition config_lines :: "etle_config \<Rightarrow> string list" where
  "config_lines c =
     key_line ''library_root'' quoted (cf_library_root c) @
     key_line ''ipc_socket'' quoted (cf_ipc_socket c) @
     key_line ''listen'' (\<lambda>a. quoted (show_socket_v4 a)) (cf_listen c) @
     key_line ''discovery_port'' (\<lambda>p. show_nat (unat p)) (cf_discovery_port c) @
     key_line ''discovery_multicast'' (\<lambda>a. quoted (show_ipv4 a)) (cf_discovery_multicast c) @
     key_line ''discovery_timeout_ms'' (\<lambda>t. show_nat (unat t)) (cf_discovery_timeout_ms c) @
     key_line ''request_window'' show_nat (cf_request_window c) @
     key_line ''parallel'' show_nat (cf_parallel c) @
     key_line ''auth_psk'' quoted (cf_auth_psk c)"

definition config_render :: "etle_config \<Rightarrow> string" where
  "config_render c = concat (map (\<lambda>l. l @ [CHR 0x0A]) (config_lines c))"

definition config_ok :: "etle_config \<Rightarrow> bool" where
  "config_ok c \<longleftrightarrow> (case cf_listen c of Some (SocketV6 _ _ _) \<Rightarrow> False | _ \<Rightarrow> True) \<and>
     (case cf_discovery_multicast c of Some m \<Rightarrow> ipv4_is_multicast m | None \<Rightarrow> True) \<and>
     (case cf_request_window c of Some n \<Rightarrow> n < 2 ^ 64 | None \<Rightarrow> True) \<and> (case cf_parallel c of Some n \<Rightarrow> n < 2 ^ 64 | None \<Rightarrow> True)"

subsection \<open>Strings\<close>

lemma unescape_escape: "unescape_basic_string (escape_basic_string s) = s"
  by (induction s) auto

lemma escape_no_newline: "CHR 0x0A \<notin> set (escape_basic_string s)"
  by (induction s) auto

lemma solid_quote [simp]: "solid CHR 0x22"
  by (simp add: solid_def)

lemma quoted_ends: "hd (quoted s) = CHR 0x22" "last (quoted s) = CHR 0x22" "quoted s \<noteq> []" "CHR 0x0A \<notin> set (quoted s)"
  using escape_no_newline by (simp_all add: quoted_def)

lemma parse_quoted: "parse_string_value (quoted s) = s"
proof -
  have t: "trim (quoted s) = quoted s"
    by (rule trim_solid) (simp_all add: quoted_ends)
  have "strip_prefix [CHR 0x22] (quoted s) = Some (escape_basic_string s @ [CHR 0x22])"
    by (simp add: quoted_def strip_prefix_def)
  moreover have "strip_suffix [CHR 0x22] (escape_basic_string s @ [CHR 0x22]) = Some (escape_basic_string s)"
    by (simp add: strip_suffix_def)
  ultimately show ?thesis
    by (simp add: parse_string_value_def t unescape_escape Let_def)
qed

lemma comment_in_string:
  "strip_comment_loop True False (escape_basic_string s @ CHR 0x22 # rest) = escape_basic_string s @ CHR 0x22 # strip_comment_loop False False rest"
  by (induction s) auto

text \<open>Text without quotes and hashes is no comment.\<close>

definition plain_text :: "string \<Rightarrow> bool" where
  "plain_text s \<longleftrightarrow> CHR 0x22 \<notin> set s \<and> CHR ''#'' \<notin> set s"

lemma comment_plain: "plain_text s \<Longrightarrow> strip_comment_loop False False (s @ rest) = s @ strip_comment_loop False False rest"
  by (induction s) (auto simp: plain_text_def)

lemma strip_comment_quoted: "plain_text k \<Longrightarrow> strip_comment (k @ quoted s) = k @ quoted s"
  by (simp add: strip_comment_def comment_plain quoted_def comment_in_string)

lemma strip_comment_plain: "plain_text k \<Longrightarrow> strip_comment k = k"
  using comment_plain [of k "[]"] by (simp add: strip_comment_def)

lemma digits_text:
  "plain_text (show_nat n)" "solid (hd (show_nat n))" "solid (last (show_nat n))" "CHR 0x0A \<notin> set (show_nat n)"
proof -
  have d: "48 \<le> (of_char c :: nat) \<and> (of_char c :: nat) \<le> 57" if "c \<in> set (show_nat n)" for c
    using show_nat_ascii [of n] that by (auto simp: list_all_iff is_ascii_digit_def)
  show "plain_text (show_nat n)" "CHR 0x0A \<notin> set (show_nat n)"
    using d [of "CHR 0x22"] d [of "CHR ''#''"] d [of "CHR 0x0A"] by (auto simp: plain_text_def)
  show "solid (hd (show_nat n))" "solid (last (show_nat n))"
    using d [of "hd (show_nat n)"] d [of "last (show_nat n)"] by (auto simp: solid_def)
qed

subsection \<open>Lines\<close>

lemma parse_line_rendered:
  assumes "key \<noteq> []" and "solid (hd key)" and "solid (last key)" and "CHR ''='' \<notin> set key" and "solid (hd v)" and "solid (last v)" and "v \<noteq> []"
    and "strip_comment (key @ '' = '' @ v) = key @ '' = '' @ v"
  shows "parse_line n (key @ '' = '' @ v) c = set_key n key v c"
proof -
  have t: "trim (key @ '' = '' @ v) = key @ '' = '' @ v"
    using assms by (intro trim_solid) simp_all
  have "split_once CHR ''='' (key @ '' = '' @ v) = Some (key @ '' '', CHR '' '' # v)"
    using split_once_at [of "CHR ''=''" "key @ '' ''" "CHR '' '' # v"] assms(4) by simp
  moreover have "trim (key @ '' '') = key" "trim (CHR '' '' # v) = v"
    using assms by (simp_all add: trim_space_right trim_space_left trim_solid)
  ultimately show ?thesis
    using assms(1,7) unfolding parse_line_def Let_def assms(8) t by simp
qed

definition good_key :: "string \<Rightarrow> bool" where
  "good_key key \<longleftrightarrow> key \<noteq> [] \<and> solid (hd key) \<and> solid (last key) \<and> CHR ''='' \<notin> set key \<and> plain_text key"

lemma key_line_None: "parse_lines n (key_line key pr None) c = Inr c"
  by (simp add: key_line_def)

lemma key_line_Some: "parse_lines n (key_line key pr (Some v)) c = parse_line n (key @ '' = '' @ pr v) c"
  unfolding key_line_def by (cases "parse_line n (key @ '' = '' @ pr v) c") simp_all

lemma parse_line_string:
  assumes "good_key key"
  shows "parse_line n (key @ '' = '' @ quoted s) c = set_key n key (quoted s) c"
  using assms strip_comment_quoted [of "key @ '' = ''" s] unfolding good_key_def
  by (intro parse_line_rendered) (simp_all add: quoted_ends plain_text_def)

lemma parse_line_number:
  assumes "good_key key"
  shows "parse_line n (key @ '' = '' @ show_nat k) c = set_key n key (show_nat k) c"
  using assms digits_text [of k] strip_comment_plain [of "key @ '' = '' @ show_nat k"] unfolding good_key_def
  by (intro parse_line_rendered) (simp_all add: plain_text_def)

lemma key_line_string:
  assumes "good_key key"
  shows "parse_lines n (key_line key (\<lambda>v. quoted (f v)) x) c = (case x of None \<Rightarrow> Inr c | Some v \<Rightarrow> set_key n key (quoted (f v)) c)"
  by (cases x) (simp_all only: key_line_None key_line_Some parse_line_string [OF assms] option.case)

lemma key_line_number:
  assumes "good_key key"
  shows "parse_lines n (key_line key (\<lambda>v. show_nat (f v)) x) c = (case x of None \<Rightarrow> Inr c | Some v \<Rightarrow> set_key n key (show_nat (f v)) c)"
  by (cases x) (simp_all only: key_line_None key_line_Some parse_line_number [OF assms] option.case)

lemma good_keys:
  "good_key ''library_root''" "good_key ''ipc_socket''" "good_key ''listen''" "good_key ''discovery_port''" "good_key ''discovery_multicast''"
  "good_key ''discovery_timeout_ms''" "good_key ''request_window''" "good_key ''parallel''" "good_key ''auth_psk''"
  by (simp_all add: good_key_def plain_text_def solid_def)

lemma parse_lines_append: "parse_lines n (xs @ ys) c = and_then (parse_lines n xs c) (parse_lines (n + length xs) ys)"
proof (induction xs arbitrary: n c)
  case (Cons x xs)
  then show ?case
    by (cases "parse_line n x c") simp_all
qed simp

lemma parse_socket_show: "parse_socket_addr (show_ipv4 ip @ '':'' @ show_nat (unat p)) = Some (SocketV4 ip p)"
proof -
  have c: "radix_digit 10 CHR '':'' = None"
    by (simp add: radix_digit_def)
  have "unat p < 2 ^ 16"
    using unsigned_less [of p, where ?'a = nat] by simp
  then have n: "read_number 10 None True 16 (show_nat (unat p)) = Some (unat p, [])"
    using read_number_show [of "[]" "unat p" 16 None True] by simp
  have "read_ipv4_addr (show_ipv4 ip @ CHR '':'' # show_nat (unat p)) = Some (ip, CHR '':'' # show_nat (unat p))"
    by (rule read_ipv4_show) (simp add: c)
  then show ?thesis
    by (simp add: parse_socket_addr_def parse_with_def read_socket_addr_v4_def read_port_def read_given_char_def n)
qed

lemma parse_word_show: "parse_u16 (show_nat (unat p)) = Some p" "parse_u64 (show_nat (unat q)) = Some q"
proof -
  have "unat p < 2 ^ 16" "unat q < 2 ^ 64"
    using unsigned_less [of p, where ?'a = nat] unsigned_less [of q, where ?'a = nat] by simp_all
  then show "parse_u16 (show_nat (unat p)) = Some p" "parse_u64 (show_nat (unat q)) = Some q"
    using parse_unsigned_show [of "unat p" 16] parse_unsigned_show [of "unat q" 64] by (simp_all add: parse_u16_def parse_u64_def)
qed

text \<open>What the line of each key does to a configuration in which that key is not set yet.\<close>

lemma key_lines_parsed:
  "cf_library_root c = None \<Longrightarrow> parse_lines n (key_line ''library_root'' quoted s) c = Inr (c\<lparr>cf_library_root := s\<rparr>)"
  "cf_ipc_socket c = None \<Longrightarrow> parse_lines n (key_line ''ipc_socket'' quoted s) c = Inr (c\<lparr>cf_ipc_socket := s\<rparr>)"
  "cf_auth_psk c = None \<Longrightarrow> parse_lines n (key_line ''auth_psk'' quoted s) c = Inr (c\<lparr>cf_auth_psk := s\<rparr>)"
  "cf_discovery_port c = None \<Longrightarrow> parse_lines n (key_line ''discovery_port'' (\<lambda>p. show_nat (unat p)) port) c = Inr (c\<lparr>cf_discovery_port := port\<rparr>)"
  "cf_discovery_timeout_ms c = None \<Longrightarrow> parse_lines n (key_line ''discovery_timeout_ms'' (\<lambda>t. show_nat (unat t)) t) c = Inr (c\<lparr>cf_discovery_timeout_ms := t\<rparr>)"
  using key_line_string [where f = "\<lambda>s. s", OF good_keys(1)] key_line_string [where f = "\<lambda>s. s", OF good_keys(2)] key_line_string [where f = "\<lambda>s. s", OF good_keys(9)]
    key_line_number [where f = "unat :: u16 \<Rightarrow> nat", OF good_keys(4)] key_line_number [where f = "unat :: u64 \<Rightarrow> nat", OF good_keys(6)]
  by (auto simp: set_key_def parse_quoted parse_value_def ok_or_def parse_word_show split: option.split)

lemma key_line_counts:
  assumes "case x of Some k \<Rightarrow> k < 2 ^ 64 | None \<Rightarrow> True"
  shows "cf_request_window c = None \<Longrightarrow> parse_lines n (key_line ''request_window'' show_nat x) c = Inr (c\<lparr>cf_request_window := x\<rparr>)"
    and "cf_parallel c = None \<Longrightarrow> parse_lines n (key_line ''parallel'' show_nat x) c = Inr (c\<lparr>cf_parallel := x\<rparr>)"
  using assms key_line_number [where f = "\<lambda>n. n", OF good_keys(7)] key_line_number [where f = "\<lambda>n. n", OF good_keys(8)] parse_unsigned_show [of _ 64]
  by (auto simp: set_key_def parse_value_def ok_or_def split: option.split)

lemma key_line_listen:
  assumes "case a of Some (SocketV6 _ _ _) \<Rightarrow> False | _ \<Rightarrow> True" and "cf_listen c = None"
  shows "parse_lines n (key_line ''listen'' (\<lambda>a. quoted (show_socket_v4 a)) a) c = Inr (c\<lparr>cf_listen := a\<rparr>)"
proof (cases a)
  case (Some x)
  then obtain ip p where "x = SocketV4 ip p"
    using assms(1) by (cases x) auto
  with Some show ?thesis
    using key_line_string [where f = show_socket_v4, OF good_keys(3)] parse_socket_show
    by (simp add: set_key_def parse_quoted parse_value_def ok_or_def)
qed (use assms(2) in \<open>simp add: key_line_None\<close>)

lemma key_line_multicast:
  assumes "case m of Some m \<Rightarrow> ipv4_is_multicast m | None \<Rightarrow> True" and "cf_discovery_multicast c = None"
  shows "parse_lines n (key_line ''discovery_multicast'' (\<lambda>a. quoted (show_ipv4 a)) m) c = Inr (c\<lparr>cf_discovery_multicast := m\<rparr>)"
  using assms key_line_string [where f = show_ipv4, OF good_keys(5)]
  by (auto simp: set_key_def parse_quoted parse_value_def ok_or_def parse_ipv4_show split: option.split_asm option.split)

lemma config_lines_parsed: "config_ok c \<Longrightarrow> parse_lines n (config_lines c) config_default = Inr c"
  unfolding config_lines_def parse_lines_append
  by (simp add: config_ok_def config_default_def key_lines_parsed key_line_counts key_line_listen key_line_multicast)

section \<open>Properties\<close>

definition one_line :: "string \<Rightarrow> bool" where
  "one_line l \<longleftrightarrow> CHR 0x0A \<notin> set l \<and> last l \<noteq> CHR 0x0D"

lemma key_line_text:
  "CHR 0x0A \<notin> set key \<Longrightarrow> list_all one_line (key_line key (\<lambda>v. quoted (f v)) x)"
  "CHR 0x0A \<notin> set key \<Longrightarrow> list_all one_line (key_line key (\<lambda>v. show_nat (g v)) y)"
proof -
  have "last (show_nat n) \<noteq> CHR 0x0D" for n
    using digits_text(3) [of n] by (auto simp: solid_def)
  then show "CHR 0x0A \<notin> set key \<Longrightarrow> list_all one_line (key_line key (\<lambda>v. quoted (f v)) x)"
    and "CHR 0x0A \<notin> set key \<Longrightarrow> list_all one_line (key_line key (\<lambda>v. show_nat (g v)) y)"
    using quoted_ends digits_text(4) by (simp_all add: key_line_def one_line_def split: option.split)
qed

lemma config_lines_text: "list_all one_line (config_lines c)"
  unfolding config_lines_def list_all_append
  using key_line_text(1) [where f = "\<lambda>s. s"] key_line_text(1) [where f = show_socket_v4] key_line_text(1) [where f = show_ipv4]
    key_line_text(2) [where g = "unat :: u16 \<Rightarrow> nat"] key_line_text(2) [where g = "unat :: u64 \<Rightarrow> nat"] key_line_text(2) [where g = "\<lambda>n. n"]
  by simp

text \<open>A configuration written by the reference printer is parsed back as it was: every string survives
  its quoting, whatever quotes, backslashes, hashes, line feeds and spaces it holds, and no value
  is mistaken for a comment or for another key.\<close>

theorem config_roundtrip:
  assumes "config_ok c"
  shows "config_parse (config_render c) = Inr c"
  unfolding config_parse_def config_render_def
  using str_lines_unlines [of "config_lines c"] config_lines_text [of c] config_lines_parsed [OF assms]
  by (simp add: list_all_iff one_line_def)

theorem config_roundtrip_witness:
  "config_parse (config_render (config_default\<lparr>cf_library_root := Some ''~/a#b'', cf_listen := Some default_listen_addr, cf_parallel := Some 3\<rparr>)) =
     Inr (config_default\<lparr>cf_library_root := Some ''~/a#b'', cf_listen := Some default_listen_addr, cf_parallel := Some 3\<rparr>)"
  by (rule config_roundtrip) (simp add: config_ok_def config_default_def default_listen_addr_def)

text \<open>The line an error names.\<close>

fun error_line :: "config_error \<Rightarrow> nat option" where
  "error_line (ConfigIo _) = None"
| "error_line (InvalidLine n _) = Some n"
| "error_line (InvalidValue n _ _) = Some n"
| "error_line (UnknownKey n _) = Some n"

lemma parse_line_error: "parse_line n l c = Inl e \<Longrightarrow> error_line e = Some n"
  by (auto simp: parse_line_def set_key_def parse_value_def ok_or_def and_then_def Let_def
      split: if_split_asm option.split_asm prod.split_asm sum.split_asm)

lemma parse_lines_error:
  "parse_lines n ls c = Inl e \<longleftrightarrow>
     (\<exists>k c'. k < length ls \<and> parse_lines n (take k ls) c = Inr c' \<and> parse_line (n + k) (ls ! k) c' = Inl e)"
proof (induction ls arbitrary: n c)
  case (Cons l ls)
  have split: "(\<exists>k. P k) \<longleftrightarrow> P 0 \<or> (\<exists>k. P (Suc k))" for P :: "nat \<Rightarrow> bool"
    by (metis not0_implies_Suc)
  show ?case
    unfolding split [of "\<lambda>k. \<exists>c'. k < length (l # ls) \<and> parse_lines n (take k (l # ls)) c = Inr c' \<and> parse_line (n + k) ((l # ls) ! k) c' = Inl e"]
    using Cons.IH [of "n + 1"] by (cases "parse_line n l c") simp_all
qed simp

text \<open>The first line that cannot be accepted is the one reported: parsing fails exactly when some line is
  rejected after all lines before it were accepted, and the error carries the number of that line.\<close>

theorem config_error_names_first_bad_line:
  "config_parse source = Inl e \<longleftrightarrow>
     (\<exists>k c. k < length (str_lines source) \<and> parse_lines 1 (take k (str_lines source)) config_default = Inr c \<and>
        parse_line (k + 1) (str_lines source ! k) c = Inl e \<and> error_line e = Some (k + 1))"
  unfolding config_parse_def parse_lines_error by (auto simp: add.commute dest: parse_line_error)

end
