(* ===== verification/Etle_Discovery.thy ===== *)
theory Etle_Discovery
  imports Etle_Library Etle_Config
begin

text \<open>
  \<open>src/discovery\<close>: finding peers for a share over UDP. A downloader sends a query to broadcast, loopback
  and multicast addresses and collects the responses that arrive before a deadline; a daemon answers
  the queries for shares of its library.

  The datagrams that arrive are parameters: for the downloader those received before the deadline, with
  the address each came from, for the daemon the results of its calls of \<open>recv_from\<close>. The list of network
  interfaces comes from the crate \<open>get_if_addrs\<close> and is a parameter as well.
\<close>

section \<open>Messages\<close>

definition DISCOVERY_MAGIC :: string where
  "DISCOVERY_MAGIC = ''etle-discovery-v1''"

definition MAX_DISCOVERY_PACKET_SIZE :: nat where
  "MAX_DISCOVERY_PACKET_SIZE = 4096"

datatype discovery_message = Query string share_id
  | Response string share_id socket_addr u16 string string string

definition encode_message :: "discovery_message bincode \<Rightarrow> discovery_message \<Rightarrow> (io_error, bytes) result" where
  "encode_message C m = map_err (\<lambda>_. InvalidData) (encode_whole C m)"

definition decode_message :: "discovery_message bincode \<Rightarrow> bytes \<Rightarrow> (decode_error, discovery_message) result" where
  "decode_message C bytes = decode_whole ''discovery message'' C bytes"

section \<open>Addresses\<close>

text \<open>The order of \<open>SocketAddr\<close>: addresses of version 4 first, then by address, port and scope.\<close>

fun socket_key :: "socket_addr \<Rightarrow> nat \<times> nat \<times> nat \<times> nat" where
  "socket_key (SocketV4 ip p) = (0, unat ip, unat p, 0)"
| "socket_key (SocketV6 ip scope p) = (1, unat ip, unat p, unat scope)"

lemma socket_key_inj: "socket_key a = socket_key b \<longleftrightarrow> a = b"
  by (cases a; cases b) (auto simp: word_unat_eq_iff)

instantiation socket_addr :: linorder
begin

definition less_eq_socket_addr :: "socket_addr \<Rightarrow> socket_addr \<Rightarrow> bool" where
  "less_eq_socket_addr a b \<longleftrightarrow> socket_key a \<le> socket_key b"

definition less_socket_addr :: "socket_addr \<Rightarrow> socket_addr \<Rightarrow> bool" where
  "less_socket_addr a b \<longleftrightarrow> socket_key a < socket_key b"

instance
  by standard (auto simp: less_eq_socket_addr_def less_socket_addr_def less_le_not_le socket_key_inj [symmetric] intro: antisym)

end

record discovery_interface =
  di_ip :: ipv4_addr
  di_broadcast :: "ipv4_addr option"

record discovery_options =
  dso_port :: u16
  dso_timeout_ms :: u64
  dso_multicast :: "ipv4_addr option"
  dso_verbose :: bool

definition discovery_options_new :: "u16 \<Rightarrow> discovery_options" where
  "discovery_options_new port = \<lparr>dso_port = port, dso_timeout_ms = DEFAULT_DISCOVERY_TIMEOUT_MS,
     dso_multicast = Some DEFAULT_DISCOVERY_MULTICAST_ADDR, dso_verbose = False\<rparr>"

definition with_timeout :: "u64 \<Rightarrow> discovery_options \<Rightarrow> discovery_options" where
  "with_timeout t opts = opts\<lparr>dso_timeout_ms := t\<rparr>"

definition with_multicast :: "ipv4_addr \<Rightarrow> discovery_options \<Rightarrow> discovery_options" where
  "with_multicast m opts = opts\<lparr>dso_multicast := (if ipv4_is_multicast m then Some m else None)\<rparr>"

definition without_multicast :: "discovery_options \<Rightarrow> discovery_options" where
  "without_multicast opts = opts\<lparr>dso_multicast := None\<rparr>"

definition with_verbose :: "bool \<Rightarrow> discovery_options \<Rightarrow> discovery_options" where
  "with_verbose v opts = opts\<lparr>dso_verbose := v\<rparr>"

definition advertised_p2p_addr :: "socket_addr \<Rightarrow> ip_addr \<Rightarrow> socket_addr" where
  "advertised_p2p_addr p2p_listen source_ip = p2p_listen"

definition insert_preferred_peer :: "string \<Rightarrow> socket_addr \<Rightarrow> (string \<rightharpoonup> socket_addr) \<Rightarrow> (string \<rightharpoonup> socket_addr)" where
  "insert_preferred_peer instance_id candidate peers = (case peers instance_id of
      None \<Rightarrow> peers(instance_id \<mapsto> candidate)
    | Some existing \<Rightarrow>
        if ip_is_loopback (socket_ip candidate) \<and> \<not> ip_is_loopback (socket_ip existing)
        then peers(instance_id \<mapsto> candidate) else peers)"

definition subnet_broadcast :: "ipv4_addr \<Rightarrow> ipv4_addr \<Rightarrow> ipv4_addr option" where
  "subnet_broadcast ip netmask = (if netmask = - 1 then None else Some (or ip (not netmask)))"

text \<open>An entry of \<open>get_if_addrs\<close>: an IPv4 address with its netmask and broadcast address, or something else.\<close>

datatype if_addr = IfV4 ipv4_addr ipv4_addr "ipv4_addr option" | IfV6 ipv6_addr

definition active_interface :: "if_addr \<Rightarrow> discovery_interface list" where
  "active_interface i = (case i of
      IfV6 _ \<Rightarrow> []
    | IfV4 ip netmask broadcast \<Rightarrow>
        if ip = 0 then []
        else [\<lparr>di_ip = ip, di_broadcast = (case broadcast of Some b \<Rightarrow> Some b | None \<Rightarrow> subnet_broadcast ip netmask)\<rparr>])"

definition active_ipv4_interfaces :: "(io_error, if_addr list) result \<Rightarrow> (io_error, discovery_interface list) result" where
  "active_ipv4_interfaces if_addrs = and_then if_addrs (\<lambda>is. Inr (concat (map active_interface is)))"

definition unwrap_or_default :: "('e, 'a list) result \<Rightarrow> 'a list" where
  "unwrap_or_default r = (case r of Inr xs \<Rightarrow> xs | Inl _ \<Rightarrow> [])"

definition query_targets :: "(io_error, if_addr list) result \<Rightarrow> u16 \<Rightarrow> ipv4_addr option \<Rightarrow> socket_addr list" where
  "query_targets if_addrs port multicast = sorted_list_of_set (
     {SocketV4 (ipv4_new 255 255 255 255) port, SocketV4 (ipv4_new 127 0 0 1) port} \<union>
     (case multicast of Some m \<Rightarrow> if ipv4_is_multicast m then {SocketV4 m port} else {} | None \<Rightarrow> {}) \<union>
     (\<Union>i \<in> set (unwrap_or_default (active_ipv4_interfaces if_addrs)).
        case di_broadcast i of Some b \<Rightarrow> {SocketV4 b port} | None \<Rightarrow> {}))"

text \<open>The groups a daemon tries to join: the interface address of each attempt, the last one unspecified.\<close>

definition join_multicast_on_active_interfaces :: "(io_error, if_addr list) result \<Rightarrow> ipv4_addr \<Rightarrow> (ipv4_addr \<times> ipv4_addr) list" where
  "join_multicast_on_active_interfaces if_addrs multicast =
     (if \<not> ipv4_is_multicast multicast then []
      else map (\<lambda>i. (multicast, di_ip i)) (unwrap_or_default (active_ipv4_interfaces if_addrs)) @ [(multicast, 0)])"

definition discovery_instance_id :: "deps \<Rightarrow> (socket_addr \<Rightarrow> string) \<Rightarrow> string \<Rightarrow> socket_addr \<Rightarrow> string \<Rightarrow> nat \<Rightarrow> string" where
  "discovery_instance_id D show_addr library_root p2p_listen peer_id process_id =
     hex_string (arr32_bytes (blake3 D (str_bytes DISCOVERY_MAGIC @ str_bytes peer_id @ str_bytes library_root @
       str_bytes (show_addr p2p_listen) @ str_bytes (show_nat process_id))))"

section \<open>The daemon\<close>

text \<open>The shares a daemon tells others about.\<close>

primrec any_chunk_file :: "library_paths \<Rightarrow> chunk_meta list \<Rightarrow> (io_error, bool) io" where
  "any_chunk_file P [] = returnE False"
| "any_chunk_file P (c # cs) = bindE (path_is_file (chunk_path P (cm_index c))) (\<lambda>b. if b then returnE True else any_chunk_file P cs)"

definition is_discoverable_share :: "local_share_summary \<Rightarrow> (io_error, bool) io" where
  "is_discoverable_share s =
     (if \<not> lss_has_secret s then returnE False
      else if summary_mode s \<notin> {Some Seeding, Some Completed, Some Downloading} then returnE False
      else if summary_total_chunks s = 0 then returnE False
      else if 0 < summary_completed_chunks s then returnE True
      else any_chunk_file (lss_paths s) (d_chunks (lss_descriptor s)))"

primrec find_discoverable :: "share_id \<Rightarrow> local_share_summary list \<Rightarrow> (io_error, string option) io" where
  "find_discoverable sid [] = returnE None"
| "find_discoverable sid (s # ss) =
     (if d_share_id (lss_descriptor s) = sid
      then bindE (is_discoverable_share s) (\<lambda>b. if b then returnE (Some (d_name (lss_descriptor s))) else find_discoverable sid ss)
      else find_discoverable sid ss)"

definition local_share_name :: "deps \<Rightarrow> library_codecs \<Rightarrow> path \<Rightarrow> share_id \<Rightarrow> (io_error, string option) io" where
  "local_share_name D L root sid =
     bindE (tryE (library_list D L root)) (\<lambda>r. case r of
         Inl _ \<Rightarrow> returnE None
       | Inr shares \<Rightarrow> find_discoverable sid shares)"

record discovery_server =
  ds_codec :: "discovery_message bincode"
  ds_library_root :: path
  ds_p2p_listen :: socket_addr
  ds_peer_id :: string
  ds_instance_id :: string

text \<open>One round of the loop of \<open>serve_with\<close>: the datagram sent back, if any.\<close>

definition answer_datagram :: "deps \<Rightarrow> library_codecs \<Rightarrow> discovery_server \<Rightarrow> bytes \<times> socket_addr \<Rightarrow> (io_error, (bytes \<times> socket_addr) option) io" where
  "answer_datagram D L S datagram = (case datagram of (packet, source) \<Rightarrow>
     (case decode_message (ds_codec S) (take MAX_DISCOVERY_PACKET_SIZE packet) of
        Inr (Query magic sid) \<Rightarrow>
          if magic \<noteq> DISCOVERY_MAGIC then returnE None
          else bindE (local_share_name D L (ds_library_root S) sid) (\<lambda>found. case found of
              None \<Rightarrow> returnE None
            | Some name \<Rightarrow>
                let response = Response DISCOVERY_MAGIC sid (advertised_p2p_addr (ds_p2p_listen S) (socket_ip source))
                      (socket_port (ds_p2p_listen S)) (ds_peer_id S) (ds_instance_id S) name in
                returnE (case encode_message (ds_codec S) response of Inr payload \<Rightarrow> Some (payload, source) | Inl _ \<Rightarrow> None))
      | _ \<Rightarrow> returnE None))"

primrec serve_discovery :: "deps \<Rightarrow> library_codecs \<Rightarrow> discovery_server \<Rightarrow> (io_error + bytes \<times> socket_addr) list \<Rightarrow> (bytes \<times> socket_addr) list \<Rightarrow>
    (io_error, (bytes \<times> socket_addr) list) io" where
  "serve_discovery D L S [] sent = returnE sent"
| "serve_discovery D L S (received # rest) sent = (case received of
      Inl error \<Rightarrow> throwE error
    | Inr datagram \<Rightarrow> bindE (answer_datagram D L S datagram) (\<lambda>reply.
        serve_discovery D L S rest (sent @ (case reply of Some r \<Rightarrow> [r] | None \<Rightarrow> []))))"

text \<open>
  The whole of \<open>serve_with\<close>: \<open>bound\<close> is the outcome of binding the socket and allowing broadcasts, \<open>library_text\<close> the
  library root as text. The result is the list of multicast groups joined and the datagrams sent.
\<close>

definition serve_with :: "deps \<Rightarrow> library_codecs \<Rightarrow> discovery_message bincode \<Rightarrow> (socket_addr \<Rightarrow> string) \<Rightarrow> nat \<Rightarrow> (io_error, unit) result \<Rightarrow>
    (io_error, if_addr list) result \<Rightarrow> string \<Rightarrow> path \<Rightarrow> socket_addr \<Rightarrow> string \<Rightarrow> discovery_options \<Rightarrow> (io_error + bytes \<times> socket_addr) list \<Rightarrow>
    (io_error, (ipv4_addr \<times> ipv4_addr) list \<times> (bytes \<times> socket_addr) list) io" where
  "serve_with D L C show_addr process_id bound if_addrs library_text root p2p_listen peer_id opts received =
     (let S = \<lparr>ds_codec = C, ds_library_root = root, ds_p2p_listen = p2p_listen, ds_peer_id = peer_id,
        ds_instance_id = discovery_instance_id D show_addr library_text p2p_listen peer_id process_id\<rparr> in
      bindE (liftE bound) (\<lambda>_.
      let joined = (case dso_multicast opts of Some m \<Rightarrow> join_multicast_on_active_interfaces if_addrs m | None \<Rightarrow> []) in
      bindE (serve_discovery D L S received []) (\<lambda>sent. returnE (joined, sent))))"

definition serve_on_port :: "deps \<Rightarrow> library_codecs \<Rightarrow> discovery_message bincode \<Rightarrow> (socket_addr \<Rightarrow> string) \<Rightarrow> nat \<Rightarrow> (io_error, unit) result \<Rightarrow>
    (io_error, if_addr list) result \<Rightarrow> string \<Rightarrow> path \<Rightarrow> socket_addr \<Rightarrow> string \<Rightarrow> u16 \<Rightarrow> (io_error + bytes \<times> socket_addr) list \<Rightarrow>
    (io_error, (ipv4_addr \<times> ipv4_addr) list \<times> (bytes \<times> socket_addr) list) io" where
  "serve_on_port D L C show_addr process_id bound if_addrs library_text root p2p_listen peer_id port =
     serve_with D L C show_addr process_id bound if_addrs library_text root p2p_listen peer_id (discovery_options_new port)"

section \<open>The downloader\<close>

type_synonym collected = "(string \<rightharpoonup> socket_addr) \<times> socket_addr set"

definition collect_datagram :: "discovery_message bincode \<Rightarrow> share_id \<Rightarrow> bytes \<times> socket_addr \<Rightarrow> collected \<Rightarrow> collected" where
  "collect_datagram C sid datagram found = (case datagram of (packet, source) \<Rightarrow> (case found of (by_instance, peers) \<Rightarrow>
     (case decode_message C (take MAX_DISCOVERY_PACKET_SIZE packet) of
        Inr (Response magic response_sid listen_addr listen_port _ instance_id _) \<Rightarrow>
          if magic \<noteq> DISCOVERY_MAGIC \<or> response_sid \<noteq> sid then found
          else let peer_addr = (if ip_is_unspecified (socket_ip listen_addr) then socket_new (socket_ip source) listen_port else listen_addr) in
            if instance_id = [] then (by_instance, insert peer_addr peers)
            else (insert_preferred_peer instance_id peer_addr by_instance, peers)
      | _ \<Rightarrow> found)))"

definition collect_peers :: "discovery_message bincode \<Rightarrow> share_id \<Rightarrow> (bytes \<times> socket_addr) list \<Rightarrow> socket_addr list" where
  "collect_peers C sid datagrams = (case fold (collect_datagram C sid) datagrams (Map.empty, {}) of
     (by_instance, peers) \<Rightarrow> sorted_list_of_set (peers \<union> ran by_instance))"

text \<open>The datagrams sent out and the peers found; \<open>bound\<close> is the outcome of binding the socket and allowing broadcasts.\<close>

definition peers_with :: "discovery_message bincode \<Rightarrow> (io_error, unit) result \<Rightarrow> (io_error, if_addr list) result \<Rightarrow> share_id \<Rightarrow> discovery_options \<Rightarrow> (bytes \<times> socket_addr) list \<Rightarrow>
    (io_error, (bytes \<times> socket_addr) list \<times> socket_addr list) result" where
  "peers_with C bound if_addrs sid opts datagrams =
     and_then bound (\<lambda>_. and_then (encode_message C (Query DISCOVERY_MAGIC sid)) (\<lambda>payload.
     Inr (map (Pair payload) (query_targets if_addrs (dso_port opts) (dso_multicast opts)), collect_peers C sid datagrams)))"

definition discover_peers :: "discovery_message bincode \<Rightarrow> (io_error, unit) result \<Rightarrow> (io_error, if_addr list) result \<Rightarrow> share_id \<Rightarrow> u16 \<Rightarrow> u64 \<Rightarrow> (bytes \<times> socket_addr) list \<Rightarrow>
    (io_error, (bytes \<times> socket_addr) list \<times> socket_addr list) result" where
  "discover_peers C bound if_addrs sid port timeout datagrams =
     peers_with C bound if_addrs sid (with_timeout timeout (discovery_options_new port)) datagrams"

section \<open>What the daemon answers\<close>

definition discoverable :: "world \<Rightarrow> local_share_summary \<Rightarrow> bool" where
  "discoverable w s \<longleftrightarrow> lss_has_secret s \<and> summary_mode s \<in> {Some Seeding, Some Completed, Some Downloading} \<and> 0 < summary_total_chunks s \<and>
     (0 < summary_completed_chunks s \<or> (\<exists>c \<in> set (d_chunks (lss_descriptor s)). is_file w (chunk_path (lss_paths s) (cm_index c))))"

lemma path_is_file_Inr: "path_is_file p w = (Inr b, w') \<Longrightarrow> (b \<longrightarrow> is_file w p) \<and> lookup w' = lookup w"
  using frame_all_lookup [OF frame_path_tests(1), of p w "Inr b" w']
  by (auto simp: path_is_file_def fs_metadata_def syscall_def is_file_def no_effect_def
      split: list.split_asm option.split_asm node.split_asm prod.split_asm if_split_asm sum.split_asm metadata.split_asm)

lemma any_chunk_file_Inr:
  "any_chunk_file P cs w = (Inr b, w') \<Longrightarrow> (b \<longrightarrow> (\<exists>c \<in> set cs. is_file w (chunk_path P (cm_index c)))) \<and> lookup w' = lookup w"
proof (induction cs arbitrary: w)
  case (Cons c cs)
  then obtain b1 w1 where t: "path_is_file (chunk_path P (cm_index c)) w = (Inr b1 :: io_error + bool, w1)"
      and r: "(if b1 then returnE True else any_chunk_file P cs) w1 = (Inr b, w')"
    by (auto simp: bindE_Inr)
  note f = path_is_file_Inr [OF t]
  show ?case
  proof (cases b1)
    case True
    with r f show ?thesis by simp
  next
    case False
    with r Cons.IH [of w1] f show ?thesis by (auto simp: is_file_def)
  qed
qed simp

lemma is_discoverable_Inr: "is_discoverable_share s w = (Inr b, w') \<Longrightarrow> (b \<longrightarrow> discoverable w s) \<and> lookup w' = lookup w"
  unfolding is_discoverable_share_def discoverable_def
  by (auto split: if_split_asm dest!: any_chunk_file_Inr)

lemma find_discoverable_Inr:
  "find_discoverable sid ss w = (Inr found, w') \<Longrightarrow>
     (\<forall>name. found = Some name \<longrightarrow> (\<exists>s \<in> set ss. d_share_id (lss_descriptor s) = sid \<and> d_name (lss_descriptor s) = name \<and> discoverable w s)) \<and>
     lookup w' = lookup w"
proof (induction ss arbitrary: w)
  case (Cons s ss)
  show ?case
  proof (cases "d_share_id (lss_descriptor s) = sid")
    case True
    with Cons.prems obtain b w1 where t: "is_discoverable_share s w = (Inr b :: io_error + bool, w1)"
        and r: "(if b then returnE (Some (d_name (lss_descriptor s))) else find_discoverable sid ss) w1 = (Inr found, w')"
      by (auto simp: bindE_Inr)
    note f = is_discoverable_Inr [OF t]
    have "discoverable w1 x = discoverable w x" for x
      using f by (simp add: discoverable_def is_file_def)
    with r f Cons.IH [of w1] True show ?thesis
      by (cases b) auto
  next
    case False
    with Cons.prems Cons.IH [of w] show ?thesis by auto
  qed
qed simp

lemma answer_datagram_Some:
  assumes "answer_datagram D L S (packet, source) w = (Inr (Some (payload, target)), w')"
  obtains sid name where "target = source" "decode_message (ds_codec S) (take MAX_DISCOVERY_PACKET_SIZE packet) = Inr (Query DISCOVERY_MAGIC sid)"
    "local_share_name D L (ds_library_root S) sid w = (Inr (Some name) :: io_error + string option, w')"
    "encode_message (ds_codec S) (Response DISCOVERY_MAGIC sid (ds_p2p_listen S) (socket_port (ds_p2p_listen S)) (ds_peer_id S) (ds_instance_id S) name) = Inr payload"
proof -
  from assms obtain sid where q: "decode_message (ds_codec S) (take MAX_DISCOVERY_PACKET_SIZE packet) = Inr (Query DISCOVERY_MAGIC sid)"
    by (auto simp: answer_datagram_def split: sum.split_asm discovery_message.split_asm if_split_asm)
  with assms obtain found w1 where f: "local_share_name D L (ds_library_root S) sid w = (Inr found :: io_error + string option, w1)"
      and r: "(case found of None \<Rightarrow> returnE None | Some name \<Rightarrow>
        returnE (case encode_message (ds_codec S) (Response DISCOVERY_MAGIC sid (advertised_p2p_addr (ds_p2p_listen S) (socket_ip source))
              (socket_port (ds_p2p_listen S)) (ds_peer_id S) (ds_instance_id S) name) of Inr payload \<Rightarrow> Some (payload, source) | Inl _ \<Rightarrow> None)) w1 = (Inr (Some (payload, target)) :: io_error + _, w')"
    by (auto simp: answer_datagram_def bindE_Inr Let_def)
  from r obtain name where "found = Some name" "target = source" "w1 = w'"
      "encode_message (ds_codec S) (Response DISCOVERY_MAGIC sid (ds_p2p_listen S) (socket_port (ds_p2p_listen S)) (ds_peer_id S) (ds_instance_id S) name) = Inr payload"
    by (auto simp: Let_def advertised_p2p_addr_def split: option.split_asm sum.split_asm)
  with that q f show ?thesis by blast
qed

text \<open>What listing a library does to the world is what its reading calls do.\<close>

locale library_reading = world_order +
  assumes reads [intro!, simp]: "preserves R (fs_read p)" "preserves R (fs_metadata p)" "preserves R (fs_read_dir p)"
begin

lemma pres_path_tests [intro!, simp]: "preserves R (path_is_file p :: (file_error, bool) io)" "preserves R (path_exists p :: (file_error, bool) io)"
  using reads(2) [of p] unfolding preserves_def path_is_file_def path_exists_def
  by (auto split: prod.splits sum.splits metadata.splits) (metis snd_conv)+

lemma pres_readers [intro!, simp]:
  "preserves R (read_descriptor D L P)" "preserves R (read_progress L P)" "preserves R (read_state L P)"
  unfolding read_descriptor_def read_progress_def read_state_def by (auto intro!: pres_bind pres_into)

lemma pres_list_entry: "preserves R (list_entry D L root dir name)"
  unfolding list_entry_def Let_def by (auto intro!: pres_bind pres_into split: sum.split)

lemma pres_library_list: "preserves R (library_list D L root)"
  unfolding library_list_def Let_def by (auto intro!: pres_bind pres_into pres_map pres_list_entry)

end

interpretation frame_reading: library_reading "frame F" for F
  by unfold_locales auto

lemma local_share_name_Some:
  assumes "local_share_name D L root sid w = (Inr (Some name), w')"
  shows "\<exists>shares w1 s. library_list D L root w = (Inr shares, w1) \<and> s \<in> set shares \<and> d_share_id (lss_descriptor s) = sid \<and>
      d_name (lss_descriptor s) = name \<and> discoverable w s"
    and "lookup w' = lookup w"
proof -
  from assms obtain r w1 where l: "library_list D L root w = (r, w1)"
      and f: "(case r of Inl _ \<Rightarrow> returnE None | Inr shares \<Rightarrow> find_discoverable sid shares) w1 = (Inr (Some name), w')"
    by (auto simp: local_share_name_def bindE_Inr tryE_def split: prod.split_asm)
  from f obtain shares where shares: "r = Inr shares" "find_discoverable sid shares w1 = (Inr (Some name), w')"
    by (cases r) auto
  have same: "lookup w1 = lookup w"
    using frame_all_lookup [OF frame_reading.pres_library_list l] .
  then have "discoverable w1 s = discoverable w s" for s
    by (simp add: discoverable_def is_file_def)
  with find_discoverable_Inr [OF shares(2)] l shares(1) same
  show "\<exists>shares w1 s. library_list D L root w = (Inr shares, w1) \<and> s \<in> set shares \<and> d_share_id (lss_descriptor s) = sid \<and>
      d_name (lss_descriptor s) = name \<and> discoverable w s" and "lookup w' = lookup w"
    by auto
qed

section \<open>What the downloader collects\<close>

text \<open>The offer a datagram makes: the instance and the address to connect to.\<close>

definition offer :: "discovery_message bincode \<Rightarrow> share_id \<Rightarrow> bytes \<times> socket_addr \<Rightarrow> (string \<times> socket_addr) option" where
  "offer C sid datagram = (case datagram of (packet, source) \<Rightarrow>
     (case decode_message C (take MAX_DISCOVERY_PACKET_SIZE packet) of
        Inr (Response magic response_sid listen_addr listen_port _ instance_id _) \<Rightarrow>
          if magic = DISCOVERY_MAGIC \<and> response_sid = sid
          then Some (instance_id, if ip_is_unspecified (socket_ip listen_addr) then socket_new (socket_ip source) listen_port else listen_addr)
          else None
      | _ \<Rightarrow> None))"

definition offers :: "discovery_message bincode \<Rightarrow> share_id \<Rightarrow> (bytes \<times> socket_addr) list \<Rightarrow> (string \<times> socket_addr) list" where
  "offers C sid datagrams = List.map_filter (offer C sid) datagrams"

text \<open>The address kept of an instance: the first one on the loopback interface, or else the first one.\<close>

definition preferred :: "socket_addr list \<Rightarrow> socket_addr" where
  "preferred as = (case find (\<lambda>a. ip_is_loopback (socket_ip a)) as of Some a \<Rightarrow> a | None \<Rightarrow> hd as)"

definition addresses_of :: "string \<Rightarrow> (string \<times> socket_addr) list \<Rightarrow> socket_addr list" where
  "addresses_of i os = map snd (filter (\<lambda>o'. fst o' = i) os)"

definition chosen :: "(string \<times> socket_addr) list \<Rightarrow> collected" where
  "chosen os = (\<lambda>i. if i = [] \<or> addresses_of i os = [] then None else Some (preferred (addresses_of i os)), set (addresses_of [] os))"

lemma collect_offer:
  "collect_datagram C sid datagram found = (case offer C sid datagram of
      None \<Rightarrow> found
    | Some (i, a) \<Rightarrow> if i = [] then (fst found, insert a (snd found)) else (insert_preferred_peer i a (fst found), snd found))"
  by (auto simp: collect_datagram_def offer_def Let_def split: prod.split sum.split discovery_message.split)

lemma preferred_snoc:
  "as \<noteq> [] \<Longrightarrow> preferred (as @ [a]) = (if ip_is_loopback (socket_ip a) \<and> \<not> ip_is_loopback (socket_ip (preferred as)) then a else preferred as)"
proof -
  assume "as \<noteq> []"
  have "find p (as @ [a]) = (case find p as of Some x \<Rightarrow> Some x | None \<Rightarrow> if p a then Some a else None)" for p :: "socket_addr \<Rightarrow> bool"
    by (induction as) auto
  moreover have "find (\<lambda>a. ip_is_loopback (socket_ip a)) as = None \<Longrightarrow> \<not> ip_is_loopback (socket_ip (hd as))"
    using \<open>as \<noteq> []\<close> by (simp add: find_None_iff)
  moreover have "ip_is_loopback (socket_ip x)" if "find (\<lambda>a. ip_is_loopback (socket_ip a)) as = Some x" for x
    using that by (auto simp: find_Some_iff)
  ultimately show ?thesis
    using \<open>as \<noteq> []\<close> by (cases "find (\<lambda>a. ip_is_loopback (socket_ip a)) as") (simp_all add: preferred_def)
qed

lemma addresses_of_snoc: "addresses_of i (os @ [(j, a)]) = addresses_of i os @ (if i = j then [a] else [])"
  by (auto simp: addresses_of_def)

lemma chosen_snoc:
  "chosen (os @ [(i, a)]) = (if i = [] then (fst (chosen os), insert a (snd (chosen os))) else (insert_preferred_peer i a (fst (chosen os)), snd (chosen os)))"
  unfolding chosen_def insert_preferred_peer_def
  by (auto simp: addresses_of_snoc preferred_snoc fun_eq_iff) (auto simp: preferred_def)

lemma fold_collect: "fold (collect_datagram C sid) datagrams (chosen os) = chosen (os @ offers C sid datagrams)"
proof (induction datagrams arbitrary: os)
  case Nil
  then show ?case by (simp add: offers_def map_filter_def)
next
  case (Cons d ds)
  show ?case
  proof (cases "offer C sid d")
    case None
    then show ?thesis
      using Cons [of os] by (simp add: collect_offer offers_def map_filter_simps)
  next
    case (Some ia)
    obtain i a where ia: "ia = (i, a)"
      by fastforce
    have "collect_datagram C sid d (chosen os) = chosen (os @ [(i, a)])"
      by (simp add: collect_offer Some ia chosen_snoc)
    then show ?thesis
      using Cons [of "os @ [(i, a)]"] Some ia by (simp add: offers_def map_filter_simps)
  qed
qed

lemma collect_peers_set:
  "set (collect_peers C sid datagrams) = snd (chosen (offers C sid datagrams)) \<union> ran (fst (chosen (offers C sid datagrams)))"
proof -
  have folded: "fold (collect_datagram C sid) datagrams (Map.empty, {}) = chosen (offers C sid datagrams)"
    using fold_collect [of C sid datagrams "[]"] by (simp add: chosen_def addresses_of_def)
  have "ran (fst (chosen os)) \<subseteq> (\<lambda>i. preferred (addresses_of i os)) ` fst ` set os" for os
    by (auto simp: chosen_def ran_def addresses_of_def filter_empty_conv)
  then have "finite (ran (fst (chosen os)))" for os
    by (rule finite_subset) simp
  moreover have "finite (snd (chosen os))" for os
    by (simp add: chosen_def)
  ultimately show ?thesis
    by (simp add: collect_peers_def folded case_prod_beta)
qed

lemma singleton_list: "set xs = {x} \<Longrightarrow> distinct xs \<Longrightarrow> xs = [x]"
  by (cases xs) (auto simp: subset_singleton_iff)

section \<open>A library with one share\<close>

text \<open>A world in which the library at the root holds the share \<open>sample_share\<close>, and a daemon that serves it.\<close>

lemma share_id_from_str_to_string: "share_id_from_str (share_id_to_string i) = Inr i"
  by (cases i) (simp add: share_id_from_str_def decode_hex_string arr32_bytes_def from_be_bytes_to_be_bytes)

definition sample_dir :: library_paths where
  "sample_dir = for_share [] (d_share_id sample_share)"

definition sample_seeding :: share_state where
  "sample_seeding = share_state_from_progress Seeding None (progress_new (d_share_id sample_share) [0])"

definition sample_state_bytes :: bytes where
  "sample_state_bytes = COMPACT_STATE_MAGIC @ [1]"

definition sample_library_world :: world where
  "sample_library_world = empty_world\<lparr>nodes := [([''.etle'', ''library''], DirN), (share_dir sample_dir, DirN),
     (descriptor_path sample_dir, FileN [1]), (secret_path sample_dir, FileN [1]), (state_path sample_dir, FileN sample_state_bytes),
     (chunk_path sample_dir 0, FileN [7])]\<rparr>"

definition sample_query :: discovery_message where
  "sample_query = Query DISCOVERY_MAGIC (d_share_id sample_share)"

definition sample_listen :: socket_addr where
  "sample_listen = SocketV4 0 7000"

definition sample_response :: discovery_message where
  "sample_response = Response DISCOVERY_MAGIC (d_share_id sample_share) sample_listen 7000 ''p'' ''i'' ''n''"

definition sample_discovery_codec :: "discovery_message bincode" where
  "sample_discovery_codec = \<lparr>encode_to_vec = (\<lambda>m. if m = sample_query then Some [1] else if m = sample_response then Some [2] else None),
     decode_from_slice = (\<lambda>bs. case bs of [] \<Rightarrow> None | b # _ \<Rightarrow>
       if b = 1 then Some (sample_query, 1) else if b = 2 then Some (sample_response, 1) else None)\<rparr>"

definition sample_daemon :: discovery_server where
  "sample_daemon = \<lparr>ds_codec = sample_discovery_codec, ds_library_root = [], ds_p2p_listen = sample_listen, ds_peer_id = ''p'', ds_instance_id = ''i''\<rparr>"

lemma sample_discovery_codec_ok: "bincode_ok sample_discovery_codec"
  by (simp add: bincode_ok_def sample_discovery_codec_def sample_query_def sample_response_def)

lemmas sample_path_simps = sample_dir_def for_share_def path_defs share_dir_def library_dir_def etle_dir_def

lemma sample_library_world_fields: "faults sample_library_world = []"
  by (simp add: sample_library_world_def empty_world_def)

lemma sample_library_lookups:
  "lookup sample_library_world [''.etle'', ''library''] = Some DirN"
  "lookup sample_library_world [''.etle'', ''library'', share_id_to_string (d_share_id sample_share)] = Some DirN"
  "lookup sample_library_world (descriptor_path sample_dir) = Some (FileN [1])"
  "lookup sample_library_world (secret_path sample_dir) = Some (FileN [1])"
  "lookup sample_library_world (state_path sample_dir) = Some (FileN sample_state_bytes)"
  "lookup sample_library_world (progress_path sample_dir) = None"
  "lookup sample_library_world (chunk_path sample_dir 0) = Some (FileN [7])"
  by (simp_all add: lookup_def sample_library_world_def sample_path_simps)

lemma sample_library_names:
  "map last (filter (\<lambda>q. q \<noteq> [] \<and> butlast q = [''.etle'', ''library'']) (remdups (map fst (nodes sample_library_world)))) =
     [share_id_to_string (d_share_id sample_share)]"
  by (simp add: sample_library_world_def sample_path_simps)

lemma sample_state_read: "read_state sample_library_codecs sample_dir sample_library_world = (Inr sample_seeding, sample_library_world)"
  by (rule read_state_back [OF sample_share_ok(1), where b = sample_state_bytes])
    (simp_all add: sample_library_world_def empty_world_def sample_seeding_def share_state_from_progress_def share_state_new_def progress_new_def
      normalize_strict sample_path_simps lookup_def sample_library_codecs_def encode_state_def encode_with_magic_def encode_whole_def single_bincode_def sample_state_bytes_def)

lemma sample_descriptor_read: "read_descriptor sample_deps sample_library_codecs sample_dir sample_library_world = (Inr sample_share, sample_library_world)"
  by (rule read_descriptor_back [OF sample_share_ok(1) _ sample_share_ok(2), where b = "[1]"])
    (simp_all add: sample_library_world_def empty_world_def sample_path_simps lookup_def sample_library_codecs_def
      descriptor_to_bytes_def encode_whole_def single_bincode_def)

definition sample_summary :: local_share_summary where
  "sample_summary = \<lparr>lss_paths = sample_dir, lss_descriptor = sample_share, lss_progress = None, lss_state = Some sample_seeding, lss_has_secret = True\<rparr>"

lemma sample_listing: "library_list sample_deps sample_library_codecs [] sample_library_world = (Inr [sample_summary], sample_library_world)"
proof -
  have "list_entry sample_deps sample_library_codecs [] [''.etle'', ''library''] (share_id_to_string (d_share_id sample_share)) sample_library_world =
      (Inr [sample_summary], sample_library_world)"
    unfolding list_entry_def Let_def share_id_from_str_to_string sum.case sample_dir_def [symmetric]
    using sample_descriptor_read sample_state_read
    by (simp add: bindE_run intoE_run fs_metadata_def path_is_file_nofault is_file_def sample_library_world_fields sample_library_lookups sample_summary_def)
  then show ?thesis
    by (simp add: library_list_def Let_def bindE_run intoE_run path_exists_nofault exists_path_def fs_read_dir_def is_dir_def
        sample_library_world_fields sample_library_lookups sample_library_names)
qed

lemma sample_answer:
  "answer_datagram sample_deps sample_library_codecs sample_daemon ([1], SocketV4 7 9) sample_library_world = (Inr (Some ([2], SocketV4 7 9)), sample_library_world)"
proof -
  have "find_discoverable (d_share_id sample_share) [sample_summary] sample_library_world = (Inr (Some ''n''), sample_library_world)"
    by (simp add: bindE_run is_discoverable_share_def sample_summary_def summary_mode_def sample_seeding_def share_state_from_progress_def
        share_state_new_def summary_total_chunks_def summary_completed_chunks_def sample_share_def descriptor_new_def sample_chunk_meta_def
        path_is_file_nofault is_file_def sample_library_world_fields sample_library_lookups)
  then have "local_share_name sample_deps sample_library_codecs [] (d_share_id sample_share) sample_library_world = (Inr (Some ''n''), sample_library_world)"
    by (simp add: local_share_name_def bindE_run tryE_run sample_listing)
  then show ?thesis
    by (simp add: answer_datagram_def sample_daemon_def decode_message_def encode_message_def decode_whole_def encode_whole_def sample_discovery_codec_def
        sample_query_def sample_response_def advertised_p2p_addr_def sample_listen_def bindE_run MAX_DISCOVERY_PACKET_SIZE_def Let_def)
qed

section \<open>Properties\<close>

text \<open>C31: a daemon answers a datagram only if it is a query for a share of its library that has its secret, is
  seeding, completed or downloading, and has chunks of which at least one is recorded or stored; the
  response goes to the sender of the query and names that share. Answering changes no file.\<close>

theorem discovery_answers_only_local_shares:
  assumes "answer_datagram D L S (packet, source) w = (Inr (Some (payload, target)), w')"
  shows "\<exists>sid shares w1 s. target = source \<and> lookup w' = lookup w \<and>
    decode_message (ds_codec S) (take MAX_DISCOVERY_PACKET_SIZE packet) = Inr (Query DISCOVERY_MAGIC sid) \<and>
    library_list D L (ds_library_root S) w = (Inr shares, w1) \<and> s \<in> set shares \<and> d_share_id (lss_descriptor s) = sid \<and> discoverable w s \<and>
    encode_message (ds_codec S) (Response DISCOVERY_MAGIC sid (ds_p2p_listen S) (socket_port (ds_p2p_listen S)) (ds_peer_id S)
      (ds_instance_id S) (d_name (lss_descriptor s))) = Inr payload"
proof -
  obtain sid name where a: "target = source" "decode_message (ds_codec S) (take MAX_DISCOVERY_PACKET_SIZE packet) = Inr (Query DISCOVERY_MAGIC sid)"
      "local_share_name D L (ds_library_root S) sid w = (Inr (Some name), w')"
      "encode_message (ds_codec S) (Response DISCOVERY_MAGIC sid (ds_p2p_listen S) (socket_port (ds_p2p_listen S)) (ds_peer_id S) (ds_instance_id S) name) = Inr payload"
    by (rule answer_datagram_Some [OF assms])
  obtain shares w1 s where "library_list D L (ds_library_root S) w = (Inr shares, w1)" "s \<in> set shares" "d_share_id (lss_descriptor s) = sid"
      "d_name (lss_descriptor s) = name" "discoverable w s"
    using local_share_name_Some(1) [OF a(3)] by blast
  with a local_share_name_Some(2) [OF a(3)] show ?thesis
    by (intro exI [of _ sid] exI [of _ shares] exI [of _ w1] exI [of _ s]) simp
qed

theorem discovery_answers_only_local_shares_witness:
  "answer_datagram sample_deps sample_library_codecs sample_daemon ([1], SocketV4 7 9) sample_library_world = (Inr (Some ([2], SocketV4 7 9)), sample_library_world) \<and>
   (\<exists>shares w1 s. library_list sample_deps sample_library_codecs [] sample_library_world = (Inr shares, w1) \<and> s \<in> set shares \<and>
      discoverable sample_library_world s)"
  using sample_answer discovery_answers_only_local_shares [OF sample_answer] by (auto simp: sample_daemon_def)

text \<open>What a downloader collects is what the offers say, each daemon counted once: the peers are the
  addresses offered without an instance and, for every instance, its first address on the loopback
  interface or else its first address.\<close>

theorem discovered_peers_by_instance:
  "set (collect_peers C sid datagrams) = {a. ([], a) \<in> set (offers C sid datagrams)} \<union>
     {preferred (addresses_of i (offers C sid datagrams)) | i. i \<noteq> [] \<and> i \<in> fst ` set (offers C sid datagrams)}"
proof -
  have "addresses_of i os = [] \<longleftrightarrow> i \<notin> fst ` set os" for i os
    by (auto simp: addresses_of_def filter_empty_conv)
  moreover have "set (addresses_of [] os) = {a. ([], a) \<in> set os}" for os
    by (force simp: addresses_of_def)
  ultimately show ?thesis
    unfolding collect_peers_set by (auto simp: chosen_def ran_def)
qed



end
