(* ===== verification/Etle_Ipc.thy ===== *)
theory Etle_Ipc
  imports Etle_Protocol Etle_Discovery
begin

text \<open>
  \<open>src/ipc\<close> without the server: the commands, responses and events a client exchanges with the daemon over
  a local socket (\<open>message.rs\<close>), their frames (\<open>codec.rs\<close>), the address of the socket (\<open>path.rs\<close>) and the
  client (\<open>client.rs\<close>). The serializers are parameters, as for the messages between peers; the stream of a
  local connection is the stream of the world.
\<close>

section \<open>Messages\<close>

datatype ipc_error = IpcIo io_error | IpcEncode encode_error | IpcDecode decode_error | IpcEmptyFrame
  | IpcFrameTooLarge nat nat | IpcTrailingBytes nat nat | UnsupportedPlatform string

record ipc_download =
  id_share_id :: share_id
  id_peers :: "socket_addr list"
  id_output :: "path option"
  id_parallelism :: nat
  id_request_window :: nat
  id_discovery_port :: u16
  id_discovery_timeout_ms :: u64
  id_discovery_multicast :: ipv4_addr
  id_auth_psk :: "string option"

datatype ipc_command = Ping | ListShares | SeedFile path nat | StartServing socket_addr | StopServing
  | DeleteShare share_id | Download ipc_download | DownloadFresh ipc_download | Pause share_id | Resume share_id
  | SubscribeEvents | Shutdown

record ipc_share_summary =
  is_share_id :: share_id
  is_name :: string
  is_completed_chunks :: nat
  is_total_chunks :: nat
  is_has_secret :: bool
  is_mode :: "string option"

datatype ipc_response = Pong | Ack string | Shares "ipc_share_summary list" | ShareAdded ipc_share_summary
  | ShareDeleted share_id string | TransferQueued share_id string | TransferCompleted share_id path string u64 nat
  | ResponseError string

datatype ipc_event = ServerStarted socket_addr | ServerStopped | ShareUpdated ipc_share_summary
  | ShareDeletedEvent share_id | PeerConnected string | ChunkCompleted share_id nat nat
  | TaskProgress "string option" string string nat nat u64 u64 u64
  | TransferProgress "string option" share_id nat nat u64 u64 u64
  | TransferCompletedEvent "string option" share_id path
  | EventError string

section \<open>Frames\<close>

definition MAX_IPC_FRAME_SIZE :: nat where
  "MAX_IPC_FRAME_SIZE = 4 * 1024 * 1024"

definition validate_ipc_frame_len :: "nat \<Rightarrow> (ipc_error, unit) result" where
  "validate_ipc_frame_len len =
     (if len = 0 then Inl IpcEmptyFrame
      else if MAX_IPC_FRAME_SIZE < len then Inl (IpcFrameTooLarge len MAX_IPC_FRAME_SIZE)
      else Inr ())"

definition send_ipc_message :: "'a bincode \<Rightarrow> 'a \<Rightarrow> (ipc_error, unit) io" where
  "send_ipc_message C message =
     bindE (liftE (map_err IpcEncode (encode_whole C message))) (\<lambda>payload.
     bindE (liftE (validate_ipc_frame_len (length payload))) (\<lambda>_.
     bindE (intoE IpcIo (stream_write_all (to_be_bytes (of_nat (length payload) :: u32)))) (\<lambda>_.
     bindE (intoE IpcIo (stream_write_all payload)) (\<lambda>_.
     intoE IpcIo stream_flush))))"

definition receive_ipc_message :: "'a bincode \<Rightarrow> (ipc_error, 'a) io" where
  "receive_ipc_message C =
     bindE (intoE IpcIo (stream_read_exact 4)) (\<lambda>len_bytes.
     let len = unat (from_be_bytes len_bytes :: u32) in
     bindE (liftE (validate_ipc_frame_len len)) (\<lambda>_.
     bindE (intoE IpcIo (stream_read_exact len)) (\<lambda>payload.
     case decode_from_slice C payload of
       None \<Rightarrow> throwE (IpcDecode DecodeError)
     | Some (message, bytes_read) \<Rightarrow>
         if bytes_read \<noteq> length payload then throwE (IpcTrailingBytes bytes_read (length payload))
         else returnE message)))"

section \<open>The socket\<close>

definition default_windows_pipe_name :: string where
  "default_windows_pipe_name = [CHR 0x5C, CHR 0x5C, CHR ''.'', CHR 0x5C] @ ''pipe'' @ [CHR 0x5C] @ ''etled''"

definition default_ipc_socket_path :: "bool \<Rightarrow> string \<Rightarrow> string" where
  "default_ipc_socket_path windows library_root =
     (if windows then default_windows_pipe_name else join_text (join_text library_root ''.etle'') ''etled.sock'')"

section \<open>The client\<close>

definition send_ipc_command :: "ipc_command bincode \<Rightarrow> ipc_response bincode \<Rightarrow> ipc_command \<Rightarrow> (ipc_error, ipc_response) io" where
  "send_ipc_command C R command =
     bindE (intoE IpcIo stream_connect) (\<lambda>_.
     bindE (send_ipc_message C command) (\<lambda>_.
     receive_ipc_message R))"

lemma stream_read_exact_Inr:
  "stream_read_exact n w = (Inr bs, w') \<Longrightarrow> inp w = bs @ inp w' \<and> length bs = n"
  by (auto simp: stream_read_exact_def syscall_def split: list.splits option.splits prod.splits if_splits)

lemma decoded_keeps_world:
  "(case d of None \<Rightarrow> throwE e | Some (message, n) \<Rightarrow> if n \<noteq> k then throwE (f n) else returnE message) v = (Inr m, w') \<Longrightarrow> w' = v"
  by (cases d) (auto split: if_splits)

lemma receive_ipc_decreases: "receive_ipc_message C w = (Inr m, w') \<Longrightarrow> length (inp w') < length (inp w)"
  by (auto simp: receive_ipc_message_def bindE_Inr Let_def dest!: decoded_keeps_world stream_read_exact_Inr)

text \<open>
  The loop of \<open>subscribe_ipc_events\<close> ends with the error of the last reception, at the latest when the stream
  ends. The events given to the callback are collected in order.
\<close>

function event_loop :: "ipc_event bincode \<Rightarrow> ipc_event list \<Rightarrow> world \<Rightarrow> (ipc_event list \<times> ipc_error) \<times> world" where
  "event_loop C seen w = (case receive_ipc_message C w of
      (Inl error, w') \<Rightarrow> ((seen, error), w')
    | (Inr event, w') \<Rightarrow> event_loop C (seen @ [event]) w')"
  by pat_completeness auto
termination
  by (relation "measure (\<lambda>(C, seen, w). length (inp w))") (auto dest: receive_ipc_decreases [OF sym])

declare event_loop.simps [simp del]

definition subscribe_ipc_events :: "ipc_command bincode \<Rightarrow> ipc_response bincode \<Rightarrow> ipc_event bincode \<Rightarrow> (ipc_error, ipc_event list \<times> ipc_error) io" where
  "subscribe_ipc_events C R V =
     bindE (intoE IpcIo stream_connect) (\<lambda>_.
     bindE (send_ipc_message C SubscribeEvents) (\<lambda>_.
     bindE (receive_ipc_message R) (\<lambda>ack w.
     case event_loop V [] w of (r, w') \<Rightarrow> (Inr r, w'))))"

section \<open>The frames are a codec\<close>

lemma validate_ipc_frame_len_Inr [simp]: "validate_ipc_frame_len n = Inr u \<longleftrightarrow> 0 < n \<and> n \<le> MAX_IPC_FRAME_SIZE"
  by (cases u) (auto simp: validate_ipc_frame_len_def)

lemma send_ipc_Inr:
  assumes "send_ipc_message C m w = (Inr (), w')"
  obtains payload where "encode_to_vec C m = Some payload" "0 < length payload" "length payload \<le> MAX_IPC_FRAME_SIZE"
    "out w' = out w @ to_be_bytes (of_nat (length payload) :: u32) @ payload" "inp w' = inp w" "nodes w' = nodes w"
proof -
  from assms obtain payload where "encode_to_vec C m = Some payload"
    by (auto simp: send_ipc_message_def bindE_Inr encode_whole_def)
  with assms show ?thesis
    by (intro that [of payload]) (auto simp: send_ipc_message_def bindE_Inr encode_whole_def dest!: stream_write_all_Inr stream_flush_Inr)
qed

lemma receive_ipc_frame:
  assumes "bincode_ok C" and "faults v = []" and "inp v = to_be_bytes (of_nat (length payload) :: u32) @ payload @ rest"
    and "0 < length payload" and "length payload \<le> MAX_IPC_FRAME_SIZE" and "encode_to_vec C m = Some payload"
  shows "receive_ipc_message C v = (Inr m, v\<lparr>inp := rest\<rparr>)"
proof -
  have "stream_read_exact 4 v = (Inr (to_be_bytes (of_nat (length payload) :: u32)), v\<lparr>inp := payload @ rest\<rparr>)"
    by (rule stream_read_exact_nofault [OF assms(2,3)]) (simp add: length_to_be_bytes)
  moreover have "unat (of_nat (length payload) :: u32) = length payload"
    using assms(5) by (simp add: unat_of_nat MAX_IPC_FRAME_SIZE_def)
  moreover have "validate_ipc_frame_len (length payload) = Inr ()"
    using assms(4,5) by simp
  moreover have "stream_read_exact (length payload) (v\<lparr>inp := payload @ rest\<rparr>) = (Inr payload, v\<lparr>inp := rest\<rparr>)"
    by (subst stream_read_exact_nofault [of _ payload rest]) (simp_all add: assms(2))
  moreover have "decode_from_slice C (payload @ []) = Some (m, length payload)"
    using assms(1,6) unfolding bincode_ok_def by blast
  ultimately show ?thesis
    by (simp add: receive_ipc_message_def io_simps from_be_bytes_to_be_bytes Let_def del: validate_ipc_frame_len_Inr)
qed

interpretation ipc: frame_codec bincode_ok send_ipc_message receive_ipc_message
proof
  fix C :: "'a bincode" and m w w'
  assume "send_ipc_message C m w = (Inr (), w')"
  then show "\<exists>fr. out w' = out w @ fr"
    by (rule send_ipc_Inr) blast
next
  fix C :: "'a bincode" and m w w' fr rest and v :: world
  assume ok: "bincode_ok C" "send_ipc_message C m w = (Inr (), w')" and o: "out w' = out w @ fr"
    and v: "faults v = []" "inp v = fr @ rest"
  from ok(2) obtain payload where p: "encode_to_vec C m = Some payload" "0 < length payload" "length payload \<le> MAX_IPC_FRAME_SIZE"
      "out w' = out w @ to_be_bytes (of_nat (length payload) :: u32) @ payload"
    by (rule send_ipc_Inr)
  then show "receive_ipc_message C v = (Inr m, v\<lparr>inp := rest\<rparr>)"
    using receive_ipc_frame [OF ok(1) v(1) _ p(2,3,1)] o v(2) by simp
qed

end
