(* ===== verification/Etle_Calm.thy ===== *)
theory Etle_Calm
  imports Etle_Download
begin

text \<open>
  The library on a machine where no system call fails: the operations that write the files of a share
  succeed when their directory is in order, and change nothing but that file.
\<close>

definition placed :: "path \<Rightarrow> bytes \<Rightarrow> world \<Rightarrow> world \<Rightarrow> bool" where
  "placed p bs w w' \<longleftrightarrow> faults w' = [] \<and> lookup w' p = Some (FileN bs) \<and>
     (\<forall>q. q \<noteq> p \<longrightarrow> lookup w' q = (if lookup w q = None \<and> q \<noteq> [] \<and> prefix q (butlast p) then Some DirN else lookup w q))"

definition clean_dir :: "path \<Rightarrow> world \<Rightarrow> bool" where
  "clean_dir d w \<longleftrightarrow> (\<forall>q. prefix q d \<longrightarrow> \<not> is_file w q) \<and> (\<forall>name. lookup w (d @ [''.'' @ name]) = None)"

lemma create_dir_all_runs:
  assumes "faults w = []" and "\<And>q. prefix q d \<Longrightarrow> \<not> is_file w q"
  shows "fs_create_dir_all d w = (Inr (), make_dirs d w)"
  using assms by (auto simp: fs_create_dir_all_def list_ex_iff dest!: in_set_butlastD)

lemma lookup_made:
  "lookup (make_dirs d w) q = (if lookup w q = None \<and> q \<noteq> [] \<and> prefix q d then Some DirN else lookup w q)"
  by (auto simp: lookup_make_dirs)

lemma write_file_atomic_runs:
  assumes "faults w = []" and "p \<noteq> []" and "clean_dir (butlast p) w" and "\<not> is_dir w p"
  shows "\<exists>w'. write_file_atomic p bs w = (Inr (), w') \<and> placed p bs w w'"
proof -
  let ?d = "butlast p"
  let ?t = "clock w (clock_pos w)"
  let ?tmp = "?d @ [tmp_name (last p) (pid w) ?t]"
  let ?w1 = "make_dirs ?d w"
  let ?w2 = "?w1\<lparr>clock_pos := Suc (clock_pos w)\<rparr>"
  have p: "?tmp \<noteq> p" "\<not> prefix p ?d" "\<not> prefix ?tmp ?d"
    using tmp_path_neq [of p "pid w" ?t] not_prefix_butlast [OF assms(2)] assms(2) by (auto dest: prefix_length_le)
  have mk: "fs_create_dir_all ?d w = (Inr (), ?w1)"
    using assms(1,3) by (intro create_dir_all_runs) (auto simp: clean_dir_def)
  have look2: "lookup ?w2 q = lookup ?w1 q" for q
    by (simp add: lookup_def)
  have fresh: "lookup ?w2 ?tmp = None"
    using assms(3) p(3) by (simp add: look2 lookup_made clean_dir_def tmp_name_def)
  have dir: "is_dir ?w2 ?d"
    using assms(3) is_dir_make_dirs [of w ?d ?d] by (simp add: is_dir_def look2 clean_dir_def)
  have np: "\<not> is_dir ?w2 p"
    using assms(2,4) p(2) by (simp add: is_dir_def look2 lookup_made)
  have f: "faults ?w2 = []"
    using assms(1) by simp
  let ?w3 = "set_node ?tmp (FileN []) ?w2"
  let ?w4 = "set_node ?tmp (FileN bs) ?w3"
  let ?w5 = "set_node p (FileN bs) (del_node ?tmp ?w4)"
  have cn: "fs_create_new ?tmp ?w2 = (Inr (), ?w3)"
    using f fresh dir by (simp add: fs_create_new_def exists_path_def)
  have wa: "fs_write_all ?tmp bs ?w3 = (Inr (), ?w4)"
    using f by (simp add: fs_write_all_def append_file_def)
  have sy: "fs_sync_all ?tmp ?w4 = (Inr (), ?w4)"
    using f by (simp add: fs_sync_all_def)
  have d4: "is_dir ?w4 ?d" "\<not> is_dir ?w4 p"
    using dir np p(1) by (auto simp: is_dir_def)
  have rn: "fs_rename ?tmp p ?w4 = (Inr (), ?w5)"
    using f d4 p(1) by (simp add: fs_rename_def)
  have same: "pid ?w1 = pid w"
    unfolding make_dirs_def by (subst ensure_dirs_only_nodes) simp
  have ck: "(clock_now :: (io_error, nat) io) ?w1 = (Inr ?t, ?w2)"
    by (simp add: clock_now_def)
  have "write_file_atomic p bs w = (Inr (), ?w5)"
    using assms(2) mk ck cn wa sy rn same by (simp add: write_file_atomic_def Let_def io_simps)
  moreover have "placed p bs w ?w5"
    using f fresh p by (auto simp: placed_def look2 lookup_made)
  ultimately show ?thesis by blast
qed

text \<open>The directory of a share, ready for its files.\<close>

definition share_ready :: "library_paths \<Rightarrow> world \<Rightarrow> bool" where
  "share_ready P w \<longleftrightarrow> faults w = [] \<and> clean_dir (share_dir P) w \<and> \<not> is_file w (chunks_dir P) \<and> \<not> is_file w (output_dir P) \<and>
     \<not> is_dir w (descriptor_path P) \<and> \<not> is_dir w (secret_path P) \<and> \<not> is_dir w (progress_path P) \<and> \<not> is_dir w (state_path P)"

lemma share_ready_placed:
  assumes "share_ready P w" and "placed p bs w w'" and "p \<in> {descriptor_path P, secret_path P, progress_path P, state_path P}"
  shows "share_ready P w'"
proof -
  have look: "lookup w' q = (if q = p then Some (FileN bs) else if lookup w q = None \<and> q \<noteq> [] \<and> prefix q (share_dir P) then Some DirN else lookup w q)" for q
    using assms(2,3) by (auto simp: placed_def)
  have long: "\<not> prefix (share_dir P @ [x]) (share_dir P)" for x
    by (auto dest: prefix_length_le)
  have p: "p = share_dir P @ [last p]" "\<forall>name. last p \<noteq> ''.'' @ name" "last p \<noteq> ''chunks''" "last p \<noteq> ''output''"
    using assms(3) by (auto simp: path_defs)
  have nd: "\<not> is_dir w' q" if "\<not> is_dir w q" "\<not> prefix q (share_dir P)" for q
    using that unfolding is_dir_def look by auto
  have nf: "\<not> is_file w' q" if "\<not> is_file w q" "q \<noteq> p" for q
    using that unfolding is_file_def look by auto
  have "p \<noteq> chunks_dir P" "p \<noteq> output_dir P"
    using p by (auto simp: chunks_dir_def output_dir_def)
  moreover have "clean_dir (share_dir P) w'"
    using assms(1) p nf unfolding share_ready_def clean_dir_def by (metis append1_eq_conv long look)
  ultimately show ?thesis
    using assms(1,2) nd nf long unfolding share_ready_def path_defs placed_def by simp
qed

lemma share_ready_made:
  assumes "share_ready P w" and "d \<in> {share_dir P, chunks_dir P, output_dir P}"
  shows "share_ready P (make_dirs d w)"
proof -
  have pre: "prefix (share_dir P @ [x]) d \<Longrightarrow> x = ''chunks'' \<or> x = ''output''" for x
    using assms(2) by (auto simp: path_defs output_dir_def dest: prefix_length_le)
  have nd: "\<not> is_dir (make_dirs d w) q" if "\<not> is_dir w q" "\<not> prefix q d" for q
    using that by (auto simp: is_dir_def lookup_made)
  have nf: "\<not> is_file (make_dirs d w) q" if "\<not> is_file w q" for q
    using that by (auto simp: is_file_def lookup_made split: if_splits)
  have "clean_dir (share_dir P) (make_dirs d w)"
    using assms(1) nf pre by (fastforce simp: share_ready_def clean_dir_def lookup_made)
  moreover have "\<not> prefix (descriptor_path P) d" "\<not> prefix (secret_path P) d" "\<not> prefix (progress_path P) d" "\<not> prefix (state_path P) d"
    using pre by (auto simp: path_defs)
  ultimately show ?thesis
    using assms(1) nd nf by (simp add: share_ready_def)
qed

lemma share_dir_runs:
  assumes "share_ready P w" and "d \<in> {share_dir P, chunks_dir P, output_dir P}"
  shows "fs_create_dir_all d w = (Inr (), make_dirs d w)"
proof -
  have "\<not> is_file w q" if "prefix q d" for q
    using assms that by (auto simp: share_ready_def clean_dir_def path_defs output_dir_def)
  then show ?thesis
    using assms(1) by (intro create_dir_all_runs) (auto simp: share_ready_def)
qed

lemma share_file_runs:
  assumes "share_ready P w" and "p \<in> {descriptor_path P, secret_path P, progress_path P, state_path P}"
  shows "\<exists>w'. write_file_atomic p bs (make_dirs (share_dir P) w) = (Inr (), w') \<and> share_ready P w'"
proof -
  let ?w = "make_dirs (share_dir P) w"
  have r: "share_ready P ?w"
    using share_ready_made [OF assms(1)] by simp
  have "butlast p = share_dir P" "p \<noteq> []" "\<not> is_dir ?w p"
    using assms(2) r unfolding share_ready_def by (elim insertE emptyE; simp)+
  then obtain w' where "write_file_atomic p bs ?w = (Inr (), w')" "placed p bs ?w w'"
    using write_file_atomic_runs [of ?w p bs] r by (auto simp: share_ready_def)
  with share_ready_placed [OF r _ assms(2)] show ?thesis by blast
qed

lemma write_files_run:
  assumes "share_ready P w"
  shows "lp_share_id P = d_share_id d \<Longrightarrow> descriptor_to_bytes (lc_descriptor L) d = Inr b \<Longrightarrow>
      \<exists>w'. write_descriptor L P d w = (Inr (), w') \<and> share_ready P w'"
    and "lp_share_id P = es_share_id s \<Longrightarrow> secret_to_bytes (lc_secret L) s = Inr b \<Longrightarrow>
      \<exists>w'. write_secret L P s w = (Inr (), w') \<and> share_ready P w'"
    and "lp_share_id P = dp_share_id p \<Longrightarrow> encode_progress (lc_states L) p = Inr b \<Longrightarrow>
      \<exists>w'. write_progress L P p w = (Inr (), w') \<and> share_ready P w'"
    and "lp_share_id P = ss_share_id st \<Longrightarrow> encode_state (lc_states L) st = Inr b \<Longrightarrow>
      \<exists>w'. write_state L P st w = (Inr (), w') \<and> share_ready P w'"
  using share_file_runs [OF assms, of "descriptor_path P" b] share_file_runs [OF assms, of "secret_path P" b]
    share_file_runs [OF assms, of "progress_path P" b] share_file_runs [OF assms, of "state_path P" b] share_dir_runs [OF assms, of "share_dir P"]
  unfolding write_descriptor_def write_secret_def write_progress_def write_state_def
  by (auto simp: ensure_share_id_def io_simps)

lemma library_init_runs:
  assumes "share_ready (for_share root (d_share_id d)) w"
    and "descriptor_to_bytes (lc_descriptor L) d = Inr b1" and "secret_to_bytes (lc_secret L) \<lparr>es_share_id = d_share_id d, es_file_key = key\<rparr> = Inr b2"
    and "progress = (if mode = Seeding \<or> mode = Completed then progress_new (d_share_id d) (map cm_index (d_chunks d)) else progress_empty (d_share_id d))"
    and "encode_progress (lc_states L) progress = Inr b3" and "encode_state (lc_states L) (share_state_from_progress mode out_dir progress) = Inr b4"
  shows "\<exists>w'. library_init L root d key mode out_dir w = (Inr (for_share root (d_share_id d)), w') \<and> share_ready (for_share root (d_share_id d)) w'"
proof -
  let ?P = "for_share root (d_share_id d)"
  have ids: "lp_share_id ?P = d_share_id d" "dp_share_id progress = d_share_id d"
      "ss_share_id (share_state_from_progress mode out_dir progress) = d_share_id d"
    using assms(4) by (simp_all add: for_share_def progress_new_def progress_empty_def share_state_from_progress_def share_state_new_def)
  define w2 where "w2 = make_dirs (output_dir ?P) (make_dirs (chunks_dir ?P) w)"
  have r1: "share_ready ?P (make_dirs (chunks_dir ?P) w)"
    using share_ready_made [OF assms(1)] by simp
  have r2: "share_ready ?P w2"
    unfolding w2_def using share_ready_made [OF r1] by simp
  have mk: "fs_create_dir_all (chunks_dir ?P) w = (Inr (), make_dirs (chunks_dir ?P) w)"
      "fs_create_dir_all (output_dir ?P) (make_dirs (chunks_dir ?P) w) = (Inr (), w2)"
    using share_dir_runs [OF assms(1)] share_dir_runs [OF r1] by (simp_all add: w2_def)
  obtain w3 where w3: "write_descriptor L ?P d w2 = (Inr (), w3)" "share_ready ?P w3"
    using write_files_run(1) [OF r2 ids(1) assms(2)] by blast
  obtain w4 where w4: "write_secret L ?P \<lparr>es_share_id = d_share_id d, es_file_key = key\<rparr> w3 = (Inr (), w4)" "share_ready ?P w4"
    using write_files_run(2) [OF w3(2) _ assms(3)] ids by auto
  obtain w5 where w5: "write_progress L ?P progress w4 = (Inr (), w5)" "share_ready ?P w5"
    using write_files_run(3) [OF w4(2) _ assms(5)] ids by auto
  obtain w6 where w6: "write_state L ?P (share_state_from_progress mode out_dir progress) w5 = (Inr (), w6)" "share_ready ?P w6"
    using write_files_run(4) [OF w5(2) _ assms(6)] ids by auto
  show ?thesis
    using mk w3(1) w4(1) w5(1) w6 by (auto simp: library_init_def Let_def io_simps assms(4) [symmetric])
qed

end
