(* ===== verification/Etle_Honest.thy ===== *)
theory Etle_Honest
  imports Etle_Complete Etle_Calm
begin

text \<open>
  Downloads end to end. From a peer that follows the protocol, over a connection and a file system that
  do not fail, a download completes and writes the plain file; whatever the peer does, a download that
  completes has written a file with the hash of the manifest, and the share it leaves in the library can
  be served.
\<close>

section \<open>Connecting to an honest peer\<close>

text \<open>The world after messages went to and fro: only the streams and the random source have moved.\<close>

definition talked :: "world \<Rightarrow> bytes \<Rightarrow> world \<Rightarrow> bool" where
  "talked w rest w' \<longleftrightarrow> faults w' = [] \<and> inp w' = rest \<and> nodes w' = nodes w \<and> clock w' = clock w \<and>
     clock_pos w' = clock_pos w \<and> pid w' = pid w \<and> lookup w' = lookup w"

lemma client_handshake_runs:
  assumes "wire_ok C" and "faults w = []" and "inp w = g1 @ g2 @ rest"
    and "frame_of C (Hello peer_id) f1" and "frame_of C (Hello i) g1"
    and "frame_of C (Capabilities ETLE_WIRE_PROTOCOL_VERSION local_capabilities) g2"
  shows "\<exists>w'. client_protocol_handshake C peer_id w = (Inr i, w') \<and> talked w rest w' \<and> next_secret w' = next_secret w \<and> out w' = out w @ f1 @ g2"
proof -
  let ?w1 = "w\<lparr>out := out w @ f1\<rparr>"
  let ?w2 = "?w1\<lparr>inp := g2 @ rest\<rparr>"
  let ?w3 = "?w2\<lparr>out := out w @ f1 @ g2\<rparr>"
  have caps: "check_capabilities local_capabilities required_capabilities = Inr ()"
    by (simp add: local_capabilities_def required_capabilities_def)
  have s1: "net_send C (Hello peer_id) w = (Inr (), ?w1)"
    using net_send_frame [OF assms(2,4)] .
  have r1: "net_receive C ?w1 = (Inr (Hello i), ?w2)"
    using net_receive_frame [OF assms(1), of ?w1, OF _ _ assms(5)] assms(2,3) by simp
  have s2: "net_send C (Capabilities ETLE_WIRE_PROTOCOL_VERSION local_capabilities) ?w2 = (Inr (), ?w3)"
    using net_send_frame [of ?w2, OF _ assms(6)] assms(2) by simp
  have r2: "net_receive C ?w3 = (Inr (Capabilities ETLE_WIRE_PROTOCOL_VERSION local_capabilities), ?w3\<lparr>inp := rest\<rparr>)"
    using net_receive_frame [OF assms(1), of ?w3, OF _ _ assms(6)] assms(2) by simp
  have "client_protocol_handshake C peer_id w = (Inr i, ?w3\<lparr>inp := rest\<rparr>)"
    using s1 r1 s2 r2 caps
    by (simp add: client_protocol_handshake_def client_hello_handshake_def receive_hello_def exchange_capabilities_as_client_def
        send_local_capabilities_def receive_and_validate_peer_capabilities_def expect_hello_def io_simps)
  with assms(2) show ?thesis
    by (simp add: talked_def next_secret_def lookup_def fun_eq_iff)
qed

lemma client_exchange_runs:
  assumes "wire_ok C" and "faults w = []" and "inp w = g @ rest"
    and "frame_of C (KeyExchange (kp_public (keypair_of D (next_secret w)))) f" and "frame_of C (KeyExchange s) g"
    and "diffie_hellman D (keypair_of D (next_secret w)) s = Inr shared"
  shows "\<exists>w'. client_session_key_exchange D C w =
      (Inr (derive_session_key_with_transcript D shared (kp_public (keypair_of D (next_secret w))) s), w') \<and> talked w rest w' \<and> out w' = out w @ f"
proof -
  let ?w1 = "w\<lparr>rng_pos := rng_pos w + 32\<rparr>"
  let ?w2 = "?w1\<lparr>out := out w @ f\<rparr>"
  have gen: "(generate_keypair D :: (network_error, ephemeral_keypair) io) w = (Inr (keypair_of D (next_secret w)), ?w1)"
    by (simp add: generate_keypair_run next_secret_def)
  have s1: "net_send C (KeyExchange (kp_public (keypair_of D (next_secret w)))) ?w1 = (Inr (), ?w2)"
    using net_send_frame [of ?w1, OF _ assms(4)] assms(2) by simp
  have r1: "receive_key_exchange C ?w2 = (Inr s, ?w2\<lparr>inp := rest\<rparr>)"
    using receive_key_exchange_frame [OF assms(1), of ?w2, OF _ _ assms(5)] assms(2,3) by simp
  have "client_session_key_exchange D C w =
      (Inr (derive_session_key_with_transcript D shared (kp_public (keypair_of D (next_secret w))) s), ?w2\<lparr>inp := rest\<rparr>)"
    using gen s1 r1 assms(6) by (simp add: client_session_key_exchange_def client_unauthenticated_session_key_exchange_def io_simps)
  with assms(2) show ?thesis
    by (simp add: talked_def lookup_def fun_eq_iff)
qed

text \<open>What an honest peer sends before the chunks, to a client that knows no pre-shared key.\<close>

definition header_messages :: "string \<Rightarrow> public_key_bytes \<Rightarrow> manifest \<Rightarrow> wrapped_file_key \<Rightarrow> u32 list \<Rightarrow> wire_message list" where
  "header_messages i s m wrapped available = [Hello i, Capabilities ETLE_WIRE_PROTOCOL_VERSION local_capabilities, KeyExchange s,
     ManifestMsg m, WrappedFileKeyMsg (wk_nonce wrapped) (wk_data wrapped), Have available]"

lemma connect_runs:
  assumes "wire_ok (e_wire E)" and "faults w = []" and "conns w = Inr (header @ rest) # cs"
    and "frames_of (e_wire E) (header_messages i s m wrapped available) header"
    and "frame_of (e_wire E) (Hello peer_id) f1" and "frame_of (e_wire E) (KeyExchange (kp_public (keypair_of (e_deps E) (next_secret w)))) f2"
    and "diffie_hellman (e_deps E) (keypair_of (e_deps E) (next_secret w)) s = Inr shared"
    and "unwrap_file_key (e_deps E) (derive_session_key_with_transcript (e_deps E) shared
       (kp_public (keypair_of (e_deps E) (next_secret w))) s) (m_file_id m) wrapped = Inr key"
    and "case requested of None \<Rightarrow> f3 = [] | Some sid \<Rightarrow> frame_of (e_wire E) (RequestShare sid) f3"
  shows "\<exists>w' fc. connect_download_peer E addr peer_id requested None w =
      (Inr \<lparr>cp_peer_addr = addr, cp_manifest = m, cp_file_key = key, cp_available_chunks = set available\<rparr>, w') \<and> talked w rest w' \<and>
      frame_of (e_wire E) (Capabilities ETLE_WIRE_PROTOCOL_VERSION local_capabilities) fc \<and> out w' = f1 @ fc @ f2 @ f3"
proof -
  let ?C = "e_wire E"
  let ?w0 = "w\<lparr>conns := cs, inp := header @ rest, out := []\<rparr>"
  from assms(4) obtain g1 g2 g3 g4 g5 g6 where fr: "header = g1 @ g2 @ g3 @ g4 @ g5 @ g6" "frame_of ?C (Hello i) g1"
      "frame_of ?C (Capabilities ETLE_WIRE_PROTOCOL_VERSION local_capabilities) g2" "frame_of ?C (KeyExchange s) g3"
      "frame_of ?C (ManifestMsg m) g4" "frame_of ?C (WrappedFileKeyMsg (wk_nonce wrapped) (wk_data wrapped)) g5" "frame_of ?C (Have available) g6"
    by (auto simp: header_messages_def frames_of_Cons)
  define g where "g = g4 @ g5 @ g6"
  have hd: "header = g1 @ g2 @ g3 @ g" "frame_of ?C (Hello i) g1"
      "frame_of ?C (Capabilities ETLE_WIRE_PROTOCOL_VERSION local_capabilities) g2" "frame_of ?C (KeyExchange s) g3"
    using fr by (simp_all add: g_def)
  note tl = g_def fr(5-7)
  have con: "connect_peer addr w = (Inr (), ?w0)"
    using assms(2,3) by (simp add: connect_peer_def stream_connect_def io_simps)
  obtain w1 where hs: "client_protocol_handshake ?C peer_id ?w0 = (Inr i, w1)" "talked ?w0 (g3 @ g @ rest) w1" "next_secret w1 = next_secret w"
      "out w1 = f1 @ g2"
    using client_handshake_runs [OF assms(1), of ?w0 g1 g2 "g3 @ g @ rest", OF _ _ assms(5) hd(2,3)] assms(2) hd(1)
    by (auto simp: next_secret_def)
  obtain w2 where kx: "client_session_key_exchange (e_deps E) ?C w1 = (Inr (derive_session_key_with_transcript (e_deps E) shared
      (kp_public (keypair_of (e_deps E) (next_secret w))) s), w2)" "talked w1 (g @ rest) w2" "out w2 = f1 @ g2 @ f2"
    using client_exchange_runs [OF assms(1), of w1 g3 "g @ rest" "e_deps E" f2 s shared] hs(2,3,4) hd(4) assms(6,7) by (auto simp: talked_def)
  obtain w3 where sr: "send_requested_share_if_needed E requested w2 = (Inr (), w3)" "talked w1 (g @ rest) w3" "out w3 = f1 @ g2 @ f2 @ f3"
  proof (cases requested)
    case None
    with kx(2,3) assms(9) that [of w2] show ?thesis
      by (simp add: send_requested_share_if_needed_def)
  next
    case (Some sid)
    with assms(9) have "frame_of ?C (RequestShare sid) f3" by simp
    with kx(2,3) Some that [of "w2\<lparr>out := out w2 @ f3\<rparr>"] show ?thesis
      by (simp add: send_requested_share_if_needed_def net_send_frame talked_def lookup_def fun_eq_iff)
  qed
  have r: "net_receive ?C w3 = (Inr (ManifestMsg m), w3\<lparr>inp := g5 @ g6 @ rest\<rparr>)"
      "net_receive ?C (w3\<lparr>inp := g5 @ g6 @ rest\<rparr>) = (Inr (WrappedFileKeyMsg (wk_nonce wrapped) (wk_data wrapped)), w3\<lparr>inp := g6 @ rest\<rparr>)"
      "net_receive ?C (w3\<lparr>inp := g6 @ rest\<rparr>) = (Inr (Have available), w3\<lparr>inp := rest\<rparr>)"
    using net_receive_frame [OF assms(1), of w3, OF _ _ tl(2)] net_receive_frame [OF assms(1), of "w3\<lparr>inp := g5 @ g6 @ rest\<rparr>", OF _ _ tl(3)]
      net_receive_frame [OF assms(1), of "w3\<lparr>inp := g6 @ rest\<rparr>", OF _ _ tl(4)] sr(2) tl(1) by (simp_all add: talked_def)
  have eta: "\<lparr>wk_nonce = wk_nonce wrapped, wk_data = wk_data wrapped\<rparr> = wrapped"
    by simp
  have "connect_download_peer E addr peer_id requested None w =
      (Inr \<lparr>cp_peer_addr = addr, cp_manifest = m, cp_file_key = key, cp_available_chunks = set available\<rparr>, w3\<lparr>inp := rest\<rparr>)"
    using con hs(1) kx(1) sr(1) r assms(8)
    by (simp add: eta connect_download_peer_def client_transfer_session_key_exchange_def
        receive_peer_availability_def expect_manifest_def expect_wrapped_file_key_def expect_availability_def io_simps)
  with hs(2) sr(2,3) hd(3) show ?thesis
    by (auto simp: talked_def lookup_def fun_eq_iff)
qed

section \<open>The chunks of an honest peer\<close>

definition in_window :: "chunk_meta list \<Rightarrow> (u32 \<times> chunk_meta) list" where
  "in_window metas = map (\<lambda>m. (cm_index m, m)) metas"

lemma in_window_simps [simp]:
  "in_window [] = []" "in_window (m # ms) = (cm_index m, m) # in_window ms" "in_window (xs @ ys) = in_window xs @ in_window ys"
  "length (in_window xs) = length xs" "in_window xs = [] \<longleftrightarrow> xs = []"
  by (simp_all add: in_window_def)

lemma update_fresh: "k \<notin> fst ` set xs \<Longrightarrow> AList.update k v xs = xs @ [(k, v)]"
  by (induction xs) auto

lemma in_window_keys: "fst ` set (in_window xs) = cm_index ` set xs"
  by (force simp: in_window_def)

lemma fill_window_runs:
  assumes "\<And>m. m \<in> set rest \<Longrightarrow> frame_of C (RequestChunk (cm_index m)) (rq m)"
  shows "faults w = [] \<Longrightarrow> cm_index ` set rest \<inter> completed = {} \<Longrightarrow> cm_index ` set rest \<subseteq> avail \<Longrightarrow>
    distinct (map cm_index (front @ rest)) \<Longrightarrow>
    \<exists>w' xs ys. fill_window C avail completed active (in_window front) rest w = (Inr (in_window (front @ xs), ys), w') \<and>
      rest = xs @ ys \<and> talked w (inp w) w' \<and> out w' = out w @ concat (map rq xs) \<and> (rest \<noteq> [] \<longrightarrow> length front < active \<longrightarrow> xs \<noteq> [])"
  using assms
proof (induction rest arbitrary: front w)
  case Nil
  then show ?case by (simp add: talked_def)
next
  case (Cons m ms)
  show ?case
  proof (cases "length front < active")
    case False
    with Cons.prems(1) show ?thesis by (simp add: talked_def)
  next
    case True
    have f: "frame_of C (RequestChunk (cm_index m)) (rq m)"
      using Cons.prems(5) by auto
    let ?w1 = "w\<lparr>out := out w @ rq m\<rparr>"
    have send: "net_send C (RequestChunk (cm_index m)) w = (Inr (), ?w1)"
      using net_send_frame [OF Cons.prems(1) f] .
    have upd: "AList.update (cm_index m) m (in_window front) = in_window (front @ [m])"
      using Cons.prems(4) by (subst update_fresh) (auto simp: in_window_keys)
    have "\<exists>w' xs ys. fill_window C avail completed active (in_window (front @ [m])) ms ?w1 = (Inr (in_window ((front @ [m]) @ xs), ys), w') \<and>
      ms = xs @ ys \<and> talked ?w1 (inp ?w1) w' \<and> out w' = out ?w1 @ concat (map rq xs) \<and> (ms \<noteq> [] \<longrightarrow> length (front @ [m]) < active \<longrightarrow> xs \<noteq> [])"
      using Cons.prems by (intro Cons.IH) auto
    then obtain w' xs ys where rest: "fill_window C avail completed active (in_window (front @ [m])) ms ?w1 = (Inr (in_window (front @ m # xs), ys), w')"
        "ms = xs @ ys" "talked ?w1 (inp ?w1) w'" "out w' = out ?w1 @ concat (map rq xs)"
      by auto
    have "fill_window C avail completed active (in_window front) (m # ms) w = (Inr (in_window (front @ m # xs), ys), w')"
      using True Cons.prems(2,3) send upd rest(1) by (simp add: io_simps)
    with rest(2,3,4) show ?thesis
      by (intro exI [of _ w'] exI [of _ "m # xs"] exI [of _ ys]) (simp add: talked_def lookup_def fun_eq_iff)
  qed
qed

definition sealed :: "(chunk_meta \<Rightarrow> bytes) \<Rightarrow> chunk_meta \<Rightarrow> encrypted_chunk" where
  "sealed cipher m = \<lparr>ec_index = cm_index m, ec_data = cipher m\<rparr>"

lemma delete_in_window: "distinct (map cm_index (m # ms)) \<Longrightarrow> AList.delete (cm_index m) (in_window (m # ms)) = in_window ms"
  by (auto simp: in_window_def AList.delete_eq filter_id_conv)

lemma grown_positive: "0 < mx \<Longrightarrow> 0 < active \<Longrightarrow> 0 < fst (maybe_grow_request_window mx active since)"
  by (auto simp: maybe_grow_request_window_def)

lemma accept_runs:
  assumes "ws_in_flight st = in_window (m # ms)" and "ws_library st = None" and "distinct (map cm_index (m # ms))"
    and "hash_chunk (e_deps E) (cipher m) = cm_hash m" and "0 < mx" and "0 < ws_active st"
  shows "\<exists>st'. accept_received E False out_dir mx st (Message (Chunk (cm_index m) (cipher m)), None) w = (Inr st', w) \<and>
    ws_in_flight st' = in_window ms \<and> ws_rest st' = ws_rest st \<and> ws_library st' = None \<and> 0 < ws_active st' \<and>
    ws_completed st' = insert (cm_index m) (ws_completed st) \<and> ws_chunks st' = insert_chunk (sealed cipher m) (ws_chunks st)"
proof -
  let ?grow = "maybe_grow_request_window mx (ws_active st) (min (ws_since_growth st + 1) usize_max)"
  obtain active since where g: "?grow = (active, since)" by fastforce
  have "0 < active"
    using grown_positive [OF assms(5,6), of "min (ws_since_growth st + 1) usize_max"] g by simp
  moreover have "take_in_flight (ws_in_flight st) (cm_index m) = Inr m"
    using assms(1) by (simp add: take_in_flight_def ok_or_def)
  ultimately show ?thesis
    using assms(2,4) g delete_in_window [OF assms(3)]
    by (simp add: accept_received_def accept_chunk_message_def discard_temp_def persist_downloaded_chunk_def settle_def chunk_done_def
        sealed_def insert_chunk_def assms(1) io_simps del: in_window_simps)
qed

lemma window_loop_runs:
  assumes wire: "wire_ok (e_wire E)" and "0 < mx"
    and requests: "\<And>m. m \<in> set metas \<Longrightarrow> frame_of (e_wire E) (RequestChunk (cm_index m)) (rq m)"
    and frames: "\<And>m. m \<in> set metas \<Longrightarrow> frame_of (e_wire E) (Chunk (cm_index m) (cipher m)) (fr m)"
    and hashes: "\<And>m. m \<in> set metas \<Longrightarrow> hash_chunk (e_deps E) (cipher m) = cm_hash m"
    and avail: "cm_index ` set metas \<subseteq> avail"
  shows "ws_in_flight st = in_window front \<Longrightarrow> ws_rest st = rest \<Longrightarrow> set (front @ rest) \<subseteq> set metas \<Longrightarrow> ws_library st = None \<Longrightarrow>
    0 < ws_active st \<Longrightarrow> distinct (map cm_index (front @ rest)) \<Longrightarrow> cm_index ` set (front @ rest) \<inter> ws_completed st = {} \<Longrightarrow>
    inp w = concat (map fr (front @ rest)) @ tail \<Longrightarrow> faults w = [] \<Longrightarrow>
    \<exists>st' w'. window_loop E avail False out_dir mx st w = (Inr st', w') \<and> talked w tail w' \<and> out w' = out w @ concat (map rq rest) \<and>
      ws_library st' = None \<and> ws_completed st' = ws_completed st \<union> cm_index ` set (front @ rest) \<and>
      ws_chunks st' = fold insert_chunk (map (sealed cipher) (front @ rest)) (ws_chunks st)"
proof (induction "length (front @ rest)" arbitrary: st front rest w)
  case 0
  then show ?case
    by (simp add: window_loop.simps talked_def)
next
  case (Suc n)
  have sub: "set rest \<subseteq> set metas" "cm_index ` set rest \<inter> ws_completed st = {}" "cm_index ` set rest \<subseteq> avail"
    using Suc.prems(3,7) avail by (auto simp: image_subset_iff)
  have "\<exists>w' xs ys. fill_window (e_wire E) avail (ws_completed st) (ws_active st) (in_window front) rest w = (Inr (in_window (front @ xs), ys), w') \<and>
      rest = xs @ ys \<and> talked w (inp w) w' \<and> out w' = out w @ concat (map rq xs) \<and> (rest \<noteq> [] \<longrightarrow> length front < ws_active st \<longrightarrow> xs \<noteq> [])"
    by (rule fill_window_runs) (use requests sub Suc.prems(6,9) in auto)
  then obtain w1 xs ys where fill: "fill_window (e_wire E) avail (ws_completed st) (ws_active st) (ws_in_flight st) (ws_rest st) w =
        (Inr (in_window (front @ xs), ys), w1)" "rest = xs @ ys" "talked w (inp w) w1" "rest \<noteq> [] \<longrightarrow> length front < ws_active st \<longrightarrow> xs \<noteq> []"
        "out w1 = out w @ concat (map rq xs)"
    using Suc.prems(1,2) by auto
  have ne: "front @ xs \<noteq> []"
    using fill(4) Suc.hyps(2) Suc.prems(5) by (cases front) auto
  then obtain h t where ht: "front @ xs = h # t"
    by (cases "front @ xs") auto
  then have all: "front @ rest = h # t @ ys"
    using fill(2) by (metis append.assoc append_Cons)
  have h: "h \<in> set metas"
    using Suc.prems(3) all by auto
  let ?st = "st\<lparr>ws_in_flight := in_window (h # t), ws_rest := ys\<rparr>"
  let ?w2 = "w1\<lparr>inp := concat (map fr (t @ ys)) @ tail\<rparr>"
  have rc: "net_receive (e_wire E) w1 = (Inr (Chunk (cm_index h) (cipher h)), ?w2)"
    using net_receive_frame [OF wire, of w1, OF _ _ frames [OF h]] fill(3) Suc.prems(8) all by (simp add: talked_def)
  obtain st1 where st1: "accept_received E False out_dir mx ?st (Message (Chunk (cm_index h) (cipher h)), None) ?w2 = (Inr st1, ?w2)"
      "ws_in_flight st1 = in_window t" "ws_rest st1 = ys" "ws_library st1 = None" "0 < ws_active st1"
      "ws_completed st1 = insert (cm_index h) (ws_completed st)" "ws_chunks st1 = insert_chunk (sealed cipher h) (ws_chunks st)"
    using accept_runs [of ?st h t E cipher mx out_dir ?w2] hashes [OF h] assms(2) Suc.prems(4,5,6) all by auto
  have "\<exists>st' w'. window_loop E avail False out_dir mx st1 ?w2 = (Inr st', w') \<and> talked ?w2 tail w' \<and> out w' = out ?w2 @ concat (map rq ys) \<and> ws_library st' = None \<and>
      ws_completed st' = ws_completed st1 \<union> cm_index ` set (t @ ys) \<and> ws_chunks st' = fold insert_chunk (map (sealed cipher) (t @ ys)) (ws_chunks st1)"
    by (rule Suc.hyps(1)) (use Suc.hyps(2) Suc.prems(3,6,7) all st1(2-6) fill(3) in \<open>auto simp: talked_def\<close>)
  then obtain st' w' where loop: "window_loop E avail False out_dir mx st1 ?w2 = (Inr st', w')" "talked ?w2 tail w'" "ws_library st' = None"
      "out w' = out ?w2 @ concat (map rq ys)"
      "ws_completed st' = ws_completed st1 \<union> cm_index ` set (t @ ys)" "ws_chunks st' = fold insert_chunk (map (sealed cipher) (t @ ys)) (ws_chunks st1)"
    by blast
  have "window_loop E avail False out_dir mx st w = (Inr st', w')"
    using fill(1) rc st1(1) loop(1) unfolding ht
    by (subst window_loop.simps) (simp add: receive_for_window_def io_simps)
  moreover have "talked w tail w'" "out w' = out w @ concat (map rq rest)"
    using loop(2,4) fill(2,3,5) by (simp_all add: talked_def lookup_def fun_eq_iff)
  ultimately show ?case
    using loop(3,5,6) st1(6,7) unfolding all by auto
qed

lemma decrypt_runs:
  assumes "sorted (map cm_index (m_chunks m))" and "distinct (map cm_index (m_chunks m))"
    and "\<And>c. c \<in> set (m_chunks m) \<Longrightarrow> hash_chunk D (cipher c) = cm_hash c"
    and "\<And>c. c \<in> set (m_chunks m) \<Longrightarrow>
      decrypt_chunk D key (cm_nonce c) (cipher c) (build_chunk_aad (m_file_id m) (cm_index c) (cm_plain_size c)) = Inr (plain c)"
    and "hash_file_id D (concat (map plain (m_chunks m))) = m_file_id m"
  shows "decrypt_to_bytes D \<lparr>ef_manifest = m, ef_chunks = fold insert_chunk (map (sealed cipher) (m_chunks m)) Map.empty\<rparr> key =
    Inr (concat (map plain (m_chunks m)))"
proof -
  let ?ef = "\<lparr>ef_manifest = m, ef_chunks = fold insert_chunk (map (sealed cipher) (m_chunks m)) Map.empty\<rparr>"
  have idx: "map ec_index (map (sealed cipher) xs) = map cm_index xs" for xs
    by (simp add: sealed_def)
  have "ef_chunks ?ef (cm_index c) = Some (sealed cipher c)" if "c \<in> set (m_chunks m)" for c
    using insert_chunks_mem [of "map (sealed cipher) (m_chunks m)" "sealed cipher c" Map.empty] that assms(2)
    by (simp add: sealed_def o_def)
  then have "decrypt_one D ?ef key c = Inr \<lparr>pc_index = cm_index c, pc_data = plain c\<rparr>" if "c \<in> set (m_chunks m)" for c
    using that assms(3,4) by (simp add: decrypt_one_def ok_or_def sealed_def)
  then have "try_map (decrypt_one D ?ef key) (m_chunks m) = Inr (map (\<lambda>c. \<lparr>pc_index = cm_index c, pc_data = plain c\<rparr>) (m_chunks m))"
    by (rule try_map_InrI)
  moreover have "sort_key pc_index (map (\<lambda>c. \<lparr>pc_index = cm_index c, pc_data = plain c\<rparr>) (m_chunks m)) =
      map (\<lambda>c. \<lparr>pc_index = cm_index c, pc_data = plain c\<rparr>) (m_chunks m)"
    using assms(1) by (intro sort_key_id_if_sorted) (simp add: o_def)
  ultimately show ?thesis
    using assms(5) by (simp add: decrypt_to_bytes_def join_chunks_def hash_file_id_def o_def)
qed

lemma fs_write_runs:
  assumes "faults w = []" and "p \<noteq> []" and "\<not> is_dir w p" and "is_dir w (butlast p)"
  shows "\<exists>w'. fs_write p bs w = (Inr (), w') \<and> lookup w' p = Some (FileN bs) \<and> out w' = out w"
  using assms by (simp add: fs_write_def fs_create_def fs_write_all_def append_file_def io_simps)

text \<open>
  The next connection is to a peer that follows the protocol and holds the whole file: it sends its
  greeting, its capabilities and its public key, the manifest, the file key under the session key, the
  indexes of all chunks, and the encrypted chunks in the order of the manifest. The messages of the
  client can be serialised, and the chunks are what the manifest says they are.
\<close>

definition honest_peer :: "transfer_env \<Rightarrow> string \<Rightarrow> world \<Rightarrow> manifest \<Rightarrow> (chunk_meta \<Rightarrow> bytes) \<Rightarrow> bool" where
  "honest_peer E peer_id w m plain \<longleftrightarrow> (\<exists>header fr cs i s wrapped f1 f2 shared key cipher.
     conns w = Inr (header @ concat (map fr (m_chunks m))) # cs \<and>
     frames_of (e_wire E) (header_messages i s m wrapped (map cm_index (m_chunks m))) header \<and>
     frame_of (e_wire E) (Hello peer_id) f1 \<and>
     frame_of (e_wire E) (KeyExchange (kp_public (keypair_of (e_deps E) (next_secret w)))) f2 \<and>
     diffie_hellman (e_deps E) (keypair_of (e_deps E) (next_secret w)) s = Inr shared \<and>
     unwrap_file_key (e_deps E) (derive_session_key_with_transcript (e_deps E) shared
       (kp_public (keypair_of (e_deps E) (next_secret w))) s) (m_file_id m) wrapped = Inr key \<and>
     (\<forall>c \<in> set (m_chunks m). frame_of (e_wire E) (Chunk (cm_index c) (cipher c)) (fr c) \<and>
       (\<exists>f. frame_of (e_wire E) (RequestChunk (cm_index c)) f) \<and> hash_chunk (e_deps E) (cipher c) = cm_hash c \<and>
       decrypt_chunk (e_deps E) key (cm_nonce c) (cipher c) (build_chunk_aad (m_file_id m) (cm_index c) (cm_plain_size c)) = Inr (plain c)) \<and>
     hash_file_id (e_deps E) (concat (map plain (m_chunks m))) = m_file_id m \<and>
     sorted (map cm_index (m_chunks m)) \<and> distinct (map cm_index (m_chunks m)))"

text \<open>The whole download, with the bytes that the client sends.\<close>

lemma download_runs:
  assumes wire: "wire_ok (e_wire E)" and calm: "faults w = []"
    and h: "conns w = Inr (header @ concat (map fr (m_chunks m))) # cs"
       "frames_of (e_wire E) (header_messages i s m wrapped (map cm_index (m_chunks m))) header"
       "frame_of (e_wire E) (Hello (do_peer_id opts)) f1"
       "frame_of (e_wire E) (KeyExchange (kp_public (keypair_of (e_deps E) (next_secret w)))) f2"
       "diffie_hellman (e_deps E) (keypair_of (e_deps E) (next_secret w)) s = Inr shared"
       "unwrap_file_key (e_deps E) (derive_session_key_with_transcript (e_deps E) shared
         (kp_public (keypair_of (e_deps E) (next_secret w))) s) (m_file_id m) wrapped = Inr key"
       "case do_requested_share_id opts of None \<Rightarrow> f3 = [] | Some sid \<Rightarrow> frame_of (e_wire E) (RequestShare sid) f3"
    and chunk: "\<And>c. c \<in> set (m_chunks m) \<Longrightarrow> frame_of (e_wire E) (Chunk (cm_index c) (cipher c)) (fr c)"
       "\<And>c. c \<in> set (m_chunks m) \<Longrightarrow> frame_of (e_wire E) (RequestChunk (cm_index c)) (rq c)"
       "\<And>c. c \<in> set (m_chunks m) \<Longrightarrow> hash_chunk (e_deps E) (cipher c) = cm_hash c"
       "\<And>c. c \<in> set (m_chunks m) \<Longrightarrow>
         decrypt_chunk (e_deps E) key (cm_nonce c) (cipher c) (build_chunk_aad (m_file_id m) (cm_index c) (cm_plain_size c)) = Inr (plain c)"
    and hash: "hash_file_id (e_deps E) (concat (map plain (m_chunks m))) = m_file_id m"
    and order: "sorted (map cm_index (m_chunks m))" "distinct (map cm_index (m_chunks m))"
    and opts: "do_library_root opts = None" "do_auth_psk opts = None"
    and path: "p \<noteq> []" "\<not> is_dir w p" "is_dir w (butlast p)"
  shows "\<exists>w' fc. from_peer_with E addr p opts w = (Inr m, w') \<and> lookup w' p = Some (FileN (concat (map plain (m_chunks m)))) \<and>
    frame_of (e_wire E) (Capabilities ETLE_WIRE_PROTOCOL_VERSION local_capabilities) fc \<and>
    out w' = f1 @ fc @ f2 @ f3 @ concat (map rq (m_chunks m))"
proof -
  let ?mx = "max (do_request_window opts) 1"
  let ?st = "\<lparr>ws_active = initial_request_window ?mx, ws_since_growth = 0, ws_rest = m_chunks m, ws_in_flight = [],
         ws_library = None, ws_chunks = Map.empty, ws_completed = {}\<rparr>"
  obtain w1 fc where con: "connect_download_peer E addr (do_peer_id opts) (do_requested_share_id opts) None w =
      (Inr \<lparr>cp_peer_addr = addr, cp_manifest = m, cp_file_key = key, cp_available_chunks = set (map cm_index (m_chunks m))\<rparr>, w1)"
      and w1: "talked w (concat (map fr (m_chunks m))) w1"
      and fc: "frame_of (e_wire E) (Capabilities ETLE_WIRE_PROTOCOL_VERSION local_capabilities) fc" "out w1 = f1 @ fc @ f2 @ f3"
    using connect_runs [OF wire calm h] by blast
  have "\<exists>st' w'. window_loop E (set (map cm_index (m_chunks m))) False (output_parent_dir p) ?mx ?st w1 = (Inr st', w') \<and> talked w1 [] w' \<and>
      out w' = out w1 @ concat (map rq (m_chunks m)) \<and>
      ws_library st' = None \<and> ws_completed st' = ws_completed ?st \<union> cm_index ` set ([] @ m_chunks m) \<and>
      ws_chunks st' = fold insert_chunk (map (sealed cipher) ([] @ m_chunks m)) (ws_chunks ?st)"
    by (rule window_loop_runs [OF wire _ chunk(2,1,3)])
      (use order(2) w1 in \<open>auto simp: talked_def initial_request_window_def\<close>)
  then obtain st w2 where loop: "window_loop E (set (map cm_index (m_chunks m))) False (output_parent_dir p) ?mx ?st w1 = (Inr st, w2)"
      "talked w1 [] w2" "ws_library st = None" "ws_completed st = cm_index ` set (m_chunks m)"
      "ws_chunks st = fold insert_chunk (map (sealed cipher) (m_chunks m)) Map.empty" "out w2 = out w1 @ concat (map rq (m_chunks m))"
    by auto
  have chk: "check_all_received m (ws_completed st) = Inr ()"
    using loop(4) order(2) by (simp add: check_all_received_def card_image distinct_map distinct_card)
  have "is_dir w2 q = is_dir w q" for q
    using w1 loop(2) by (simp add: talked_def is_dir_def)
  then obtain w3 where wr: "fs_write p (concat (map plain (m_chunks m))) w2 = (Inr (), w3)" "lookup w3 p = Some (FileN (concat (map plain (m_chunks m))))"
      "out w3 = out w2"
    using fs_write_runs [of w2 p] loop(2) path by (auto simp: talked_def)
  have wo: "write_output E False st m key p w2 = (Inr (), w3)"
    using decrypt_runs [OF order chunk(3,4) hash] wr(1) loop(5) by (simp add: write_output_def decrypt_to_file_def io_simps)
  have "from_peer_with E addr p opts w = (Inr m, w3)"
    using con loop(1,3) chk wo opts
    by (auto simp: from_peer_with_def Let_def io_simps initialize_download_library_state_def resume_chunks_def load_resumable_chunks_def
        download_missing_chunks_windowed_def mark_download_library_complete_def split: option.split)
  with wr(2,3) loop(6) fc show ?thesis by auto
qed

lemma honest_download:
  assumes wire: "wire_ok (e_wire E)" and calm: "faults w = []" and honest: "honest_peer E (do_peer_id opts) w m plain"
    and opts: "do_library_root opts = None" "do_requested_share_id opts = None" "do_auth_psk opts = None"
    and path: "p \<noteq> []" "\<not> is_dir w p" "is_dir w (butlast p)"
  shows "\<exists>w'. from_peer_with E addr p opts w = (Inr m, w') \<and> lookup w' p = Some (FileN (concat (map plain (m_chunks m))))"
proof -
  from honest obtain header fr cs i s wrapped f1 f2 shared key cipher where
    h: "conns w = Inr (header @ concat (map fr (m_chunks m))) # cs"
       "frames_of (e_wire E) (header_messages i s m wrapped (map cm_index (m_chunks m))) header"
       "frame_of (e_wire E) (Hello (do_peer_id opts)) f1"
       "frame_of (e_wire E) (KeyExchange (kp_public (keypair_of (e_deps E) (next_secret w)))) f2"
       "diffie_hellman (e_deps E) (keypair_of (e_deps E) (next_secret w)) s = Inr shared"
       "unwrap_file_key (e_deps E) (derive_session_key_with_transcript (e_deps E) shared
         (kp_public (keypair_of (e_deps E) (next_secret w))) s) (m_file_id m) wrapped = Inr key"
    and chunk: "\<And>c. c \<in> set (m_chunks m) \<Longrightarrow> frame_of (e_wire E) (Chunk (cm_index c) (cipher c)) (fr c)"
       "\<forall>c \<in> set (m_chunks m). \<exists>f. frame_of (e_wire E) (RequestChunk (cm_index c)) f"
       "\<And>c. c \<in> set (m_chunks m) \<Longrightarrow> hash_chunk (e_deps E) (cipher c) = cm_hash c"
       "\<And>c. c \<in> set (m_chunks m) \<Longrightarrow>
         decrypt_chunk (e_deps E) key (cm_nonce c) (cipher c) (build_chunk_aad (m_file_id m) (cm_index c) (cm_plain_size c)) = Inr (plain c)"
    and last: "hash_file_id (e_deps E) (concat (map plain (m_chunks m))) = m_file_id m"
       "sorted (map cm_index (m_chunks m))" "distinct (map cm_index (m_chunks m))"
    unfolding honest_peer_def by blast
  from bchoice [OF chunk(2)] obtain rq where rq: "\<And>c. c \<in> set (m_chunks m) \<Longrightarrow> frame_of (e_wire E) (RequestChunk (cm_index c)) (rq c)"
    by blast
  have "case do_requested_share_id opts of None \<Rightarrow> [] = [] | Some sid \<Rightarrow> frame_of (e_wire E) (RequestShare sid) []"
    by (simp add: opts)
  from download_runs [OF wire calm h this chunk(1) rq chunk(3,4) last opts(1,3) path] show ?thesis
    by auto
qed

lemma windowed_without_library:
  assumes "download_missing_chunks_windowed E m avail None chunks completed streaming out_dir window w = (Inr st, w')"
  shows "ws_library st = None"
proof -
  have "ws_library st' = None" if "ws_library st = None" and "accept_received E streaming out_dir mx st r w = (Inr st', w')" for mx st r w st' w'
    using that by (auto simp: accept_received_def accept_raw_file_def accept_chunk_message_def persist_downloaded_chunk_file_def
        persist_downloaded_chunk_def chunk_done_def bindE_Inr Let_def split: prod.split_asm received_chunk_frame.split_asm option.split_asm
        wire_message.split_asm if_split_asm)
  from window_loop_rule [where I = "\<lambda>st w. ws_library st = None", OF _ this] assms show ?thesis
    by (force simp: download_missing_chunks_windowed_def Let_def)
qed

lemma descriptor_from_manifest_verifies: "verify_share_id D (descriptor_from_manifest D m)"
  by (simp add: descriptor_from_manifest_def descriptor_new_verifies)

lemma download_verified:
  assumes "from_peer_with E addr p opts w = (Inr m, w')" and "\<forall>root. do_library_root opts = Some root \<longrightarrow> outside_library root p"
  shows "\<exists>bs. lookup w' p = Some (FileN bs) \<and> hash_file_id (e_deps E) bs = m_file_id m"
proof (cases "do_library_root opts")
  case None
  from assms(1) obtain key w1 state0 w2 state chunks completed avail w3 w4 st w5 w6 state' where
    init: "initialize_download_library_state E (do_library_root opts) (descriptor_from_manifest (e_deps E) m) key (output_parent_dir p) (do_resume opts) w1 =
       (Inr state0, w2)"
    and res: "resume_chunks E state0 m (output_parent_dir p) w2 = (Inr (state, chunks, completed), w3)"
    and dl: "download_missing_chunks_windowed E m avail state chunks completed (state0 \<noteq> None) (output_parent_dir p) (do_request_window opts) w4 = (Inr st, w5)"
    and wo: "write_output E (state0 \<noteq> None) st m key p w5 = (Inr (), w6)"
    and mc: "mark_download_library_complete E (ws_library st) (output_parent_dir p) w6 = (Inr state', w')"
    by (rule from_peer_with_Inr)
  have s0: "state0 = None"
    using init None by (simp add: initialize_download_library_state_def)
  with res have "state = None"
    by (auto simp: resume_chunks_def load_resumable_chunks_def)
  with dl have "ws_library st = None"
    using windowed_without_library by blast
  with mc have w': "w' = w6"
    by (simp add: mark_download_library_complete_def)
  from wo s0 obtain bs where bs: "decrypt_to_bytes (e_deps E) \<lparr>ef_manifest = m, ef_chunks = ws_chunks st\<rparr> key = Inr bs" "fs_write p bs w5 = (Inr (), w6)"
    by (auto simp: write_output_def decrypt_to_file_def bindE_Inr)
  have "hash_file_id (e_deps E) bs = m_file_id m"
    using bs(1) by (auto simp: decrypt_to_bytes_def and_then_def Let_def hash_file_id_def split: sum.split_asm if_split_asm)
  with fs_write_Inr [OF bs(2), of p] w' show ?thesis by simp
next
  case (Some root)
  let ?P = "for_share root (d_share_id (descriptor_from_manifest (e_deps E) m))"
  from assms(1) Some obtain key b c st w5 w6 state' where st: "ad_paths st = ?P"
    and rc: "decrypt_library_chunks_to_file E ?P m key p w5 = (Inr (), w6)"
    and mc: "mark_download_library_complete E (Some st) (output_parent_dir p) w6 = (Inr state', w')"
    by (rule library_download_Inr)
  have "\<not> share_area ?P p"
    using assms(2) Some by (intro outside_share) (simp add: for_share_def)
  then have "\<not> touches (progress_path ?P) p" "\<not> touches (state_path ?P) p"
    using share_area_below [of "progress_path ?P" ?P p] share_area_below [of "state_path ?P" ?P p] by auto
  then have "lookup w' p = lookup w6 p"
    using mark_complete_Some(1) [OF mc st] by (simp add: frame_def)
  with reconstruct_hash [OF rc] show ?thesis by simp
qed

section \<open>A sample session\<close>

definition sample_session_key :: symmetric_key where
  "sample_session_key = derive_session_key_with_transcript sample_deps (SharedSecretBytes 9) (PublicKeyBytes 9) (PublicKeyBytes 9)"

definition sample_wrapped :: "file_id \<Rightarrow> wrapped_file_key" where
  "sample_wrapped fid = (case sample_session_key of SymmetricKey k \<Rightarrow>
     \<lparr>wk_nonce = Nonce 0, wk_data = arr32_bytes 9 @ sample_tag k 0 (build_file_key_aad fid)\<rparr>)"

lemma sample_unwrap: "unwrap_file_key sample_deps sample_session_key fid (sample_wrapped fid) = Inr (SymmetricKey 9)"
proof -
  obtain k where k: "sample_session_key = SymmetricKey k"
    by (cases sample_session_key)
  have "length (sample_tag k 0 a) = 16" for a
    by (simp add: sample_tag_def)
  then have "decrypt_chunk sample_deps (SymmetricKey k) (Nonce 0) (arr32_bytes 9 @ sample_tag k 0 a) a = Inr (arr32_bytes 9)" for a
    by (simp add: sample_deps_def)
  then show ?thesis
    by (simp add: unwrap_file_key_def sample_wrapped_def k ok_or_def)
qed

text \<open>The messages of a session about the manifest \<open>m\<close>, and the client when it is about to connect.\<close>

definition sample_table :: "manifest \<Rightarrow> wire_message list" where
  "sample_table m = header_messages ''s'' (PublicKeyBytes 9) m (sample_wrapped (m_file_id m)) (map cm_index (m_chunks m)) @
     [Hello ''p'', Hello ''etle-daemon'', RequestChunk 0, RequestShare (d_share_id (descriptor_from_manifest sample_deps m))]"

definition sample_chunk_frame :: "u32 \<Rightarrow> bytes \<Rightarrow> bytes" where
  "sample_chunk_frame i data = frame_len_bytes (5 + length data) @ RAW_CHUNK_FRAME_TAG # to_be_bytes i @ data"

definition sample_header :: "manifest \<Rightarrow> bytes" where
  "sample_header m = table_stream (sample_table m)
     (header_messages ''s'' (PublicKeyBytes 9) m (sample_wrapped (m_file_id m)) (map cm_index (m_chunks m)))"

definition sample_download_world :: "manifest \<Rightarrow> bytes \<Rightarrow> world" where
  "sample_download_world m chunks = sample_client_world\<lparr>conns := [Inr (sample_header m @ chunks)]\<rparr>"

lemma sample_download_world_simps [simp]:
  "faults (sample_download_world m chunks) = []" "conns (sample_download_world m chunks) = [Inr (sample_header m @ chunks)]"
  "lookup (sample_download_world m chunks) = lookup empty_world" "next_secret (sample_download_world m chunks) = 1"
  using sample_secret by (simp_all add: sample_download_world_def sample_client_world_def empty_world_def lookup_def fun_eq_iff next_secret_def)

lemma sample_keys:
  "kp_public (keypair_of sample_deps 1) = PublicKeyBytes 9"
  "diffie_hellman sample_deps (keypair_of sample_deps 1) (PublicKeyBytes 9) = Inr (SharedSecretBytes 9)"
  using sample_shared_not_zero by (simp_all add: keypair_of_def sample_deps_def)

lemma sample_header_frames:
  "frames_of (table_wire (sample_table m)) (header_messages ''s'' (PublicKeyBytes 9) m (sample_wrapped (m_file_id m))
     (map cm_index (m_chunks m))) (sample_header m)"
  unfolding sample_header_def by (rule table_frames) (auto simp: sample_table_def header_messages_def)

lemma sample_client_frames:
  "\<exists>f. frame_of (table_wire (sample_table m)) (Hello ''p'') f" "\<exists>f. frame_of (table_wire (sample_table m)) (RequestChunk 0) f"
  "\<exists>f. frame_of (table_wire (sample_table m)) (KeyExchange (PublicKeyBytes 9)) f"
  "\<exists>f. frame_of (table_wire (sample_table m)) (Hello ''etle-daemon'') f"
  "\<exists>f. frame_of (table_wire (sample_table m)) (RequestShare (d_share_id (descriptor_from_manifest sample_deps m))) f"
  by (rule exI, rule table_frame; simp add: sample_table_def header_messages_def)+

lemma sample_chunk_frame:
  "length data < 100 \<Longrightarrow> frame_of C (Chunk i data) (sample_chunk_frame i data)"
  by (simp add: frame_of_def payload_of_def sample_chunk_frame_def MAX_FRAME_SIZE_def)

lemma sample_seed_plain:
  "decrypt_chunk sample_deps (SymmetricKey 9) (Nonce 0) sample_cipher (build_chunk_aad (hash_file_id sample_deps [7]) 0 1) = Inr [7]"
  by (simp add: sample_cipher_def sample_deps_def sample_tag_def)

lemma sample_honest_peer:
  "honest_peer (sample_env (sample_table sample_seed_manifest) sample_seed_codecs) ''p''
     (sample_download_world sample_seed_manifest (sample_chunk_frame 0 sample_cipher)) sample_seed_manifest (\<lambda>_. [7])"
proof -
  let ?m = sample_seed_manifest
  have m: "m_chunks ?m = [sample_seed_meta]" "cm_index sample_seed_meta = 0" "cm_nonce sample_seed_meta = Nonce 0" "cm_plain_size sample_seed_meta = 1"
      "cm_hash sample_seed_meta = hash_chunk sample_deps sample_cipher" "m_file_id ?m = hash_file_id sample_deps [7]"
    by (simp_all add: sample_seed_manifest_def sample_seed_meta_def)
  obtain f1 f2 where f: "frame_of (table_wire (sample_table ?m)) (Hello ''p'') f1" "frame_of (table_wire (sample_table ?m)) (KeyExchange (PublicKeyBytes 9)) f2"
    using sample_client_frames by blast
  have key: "unwrap_file_key sample_deps (derive_session_key_with_transcript sample_deps (SharedSecretBytes 9) (PublicKeyBytes 9) (PublicKeyBytes 9))
      (m_file_id ?m) (sample_wrapped (m_file_id ?m)) = Inr (SymmetricKey 9)"
    using sample_unwrap [of "m_file_id ?m"] by (simp add: sample_session_key_def)
  show ?thesis
    unfolding honest_peer_def
    apply (rule exI [of _ "sample_header ?m"], rule exI [of _ "\<lambda>_. sample_chunk_frame 0 sample_cipher"], rule exI [of _ "[]"], rule exI [of _ "''s''"])
    apply (rule exI [of _ "PublicKeyBytes 9"], rule exI [of _ "sample_wrapped (m_file_id ?m)"], rule exI [of _ f1], rule exI [of _ f2])
    apply (rule exI [of _ "SharedSecretBytes 9"], rule exI [of _ "SymmetricKey 9"], rule exI [of _ "\<lambda>_. sample_cipher"])
    using m f key sample_header_frames [of ?m] sample_client_frames(2) [of ?m] sample_seed_plain sample_chunk_frame [of sample_cipher]
    by (simp add: sample_env_def sample_keys del: diffie_hellman.simps)
qed

text \<open>A session about an empty file, with a library at the root of the file system.\<close>

definition listed_bincode :: "'a list \<Rightarrow> 'a bincode" where
  "listed_bincode vs = \<lparr>encode_to_vec = (\<lambda>x. if x \<in> set vs \<and> length vs < 256 then Some [of_nat (length (takeWhile (\<lambda>v. v \<noteq> x) vs))] else None),
     decode_from_slice = (\<lambda>bs. case bs of [] \<Rightarrow> None | b # _ \<Rightarrow> if unat b < length vs then Some (vs ! unat b, 1) else None)\<rparr>"

lemma listed_bincode_ok: "bincode_ok (listed_bincode vs)"
proof -
  have pos: "x \<in> set vs \<Longrightarrow> length (takeWhile (\<lambda>v. v \<noteq> x) vs) < length vs \<and> vs ! length (takeWhile (\<lambda>v. v \<noteq> x) vs) = x" for x
    by (induction vs) auto
  then have "unat (of_nat (length (takeWhile (\<lambda>v. v \<noteq> x) vs)) :: byte) = length (takeWhile (\<lambda>v. v \<noteq> x) vs)"
    if "x \<in> set vs" "length vs < 256" for x
    using that by (fastforce simp: unat_of_nat take_bit_eq_mod intro: mod_less)
  with pos show ?thesis
    by (auto simp: bincode_ok_def listed_bincode_def split: if_splits)
qed

definition empty_file_manifest :: manifest where
  "empty_file_manifest = \<lparr>m_file_id = hash_file_id sample_deps [], m_file_name = ''e'', m_file_size = 0, m_chunk_size = 4, m_chunks = []\<rparr>"

definition empty_file_share :: share_id where
  "empty_file_share = d_share_id (descriptor_from_manifest sample_deps empty_file_manifest)"

definition empty_file_state :: "share_mode \<Rightarrow> share_state" where
  "empty_file_state mode = share_state_from_progress mode None (progress_empty empty_file_share)"

definition empty_file_codecs :: library_codecs where
  "empty_file_codecs = \<lparr>lc_descriptor = single_bincode (descriptor_from_manifest sample_deps empty_file_manifest),
     lc_secret = single_bincode \<lparr>es_share_id = empty_file_share, es_file_key = SymmetricKey 9\<rparr>,
     lc_states = \<lparr>sc_progress = listed_bincode [compact_from_progress (progress_empty empty_file_share)], sc_legacy_progress = listed_bincode [],
       sc_state = listed_bincode [compact_from_state (empty_file_state Downloading), compact_from_state (empty_file_state Completed)],
       sc_legacy_state = listed_bincode []\<rparr>\<rparr>"

definition empty_file_env :: transfer_env where
  "empty_file_env = sample_env (sample_table empty_file_manifest) empty_file_codecs"

definition empty_file_options :: download_file_options where
  "empty_file_options = with_library_root [] (download_options_new ''p'' Quiet)"

definition empty_file_paths :: library_paths where
  "empty_file_paths = for_share [] empty_file_share"

lemma empty_file_encodes:
  "\<exists>b. descriptor_to_bytes (lc_descriptor empty_file_codecs) (descriptor_from_manifest sample_deps empty_file_manifest) = Inr b"
  "\<exists>b. secret_to_bytes (lc_secret empty_file_codecs) \<lparr>es_share_id = empty_file_share, es_file_key = SymmetricKey 9\<rparr> = Inr b"
  "\<exists>b. encode_progress (lc_states empty_file_codecs) (progress_empty empty_file_share) = Inr b"
  "mode = Downloading \<or> mode = Completed \<Longrightarrow> \<exists>b. encode_state (lc_states empty_file_codecs) (empty_file_state mode) = Inr b"
  by (auto simp: descriptor_to_bytes_def secret_to_bytes_def encode_progress_def encode_state_def encode_with_magic_def encode_whole_def
      empty_file_codecs_def single_bincode_def listed_bincode_def)

lemma empty_file_codecs_ok: "codecs_ok (e_lib empty_file_env)"
  by (simp add: codecs_ok_def empty_file_env_def sample_env_def empty_file_codecs_def single_bincode_ok listed_bincode_ok)

lemma empty_file_write:
  assumes "share_ready empty_file_paths w"
  shows "\<exists>w'. write_progress empty_file_codecs empty_file_paths (progress_empty empty_file_share) w = (Inr (), w') \<and> share_ready empty_file_paths w'"
    and "mode = Downloading \<or> mode = Completed \<Longrightarrow>
      \<exists>w'. write_state empty_file_codecs empty_file_paths (empty_file_state mode) w = (Inr (), w') \<and> share_ready empty_file_paths w'"
  using write_files_run(3) [OF assms] write_files_run(4) [OF assms] empty_file_encodes
  by (fastforce simp: empty_file_paths_def for_share_def progress_empty_def progress_new_def empty_file_state_def share_state_from_progress_def share_state_new_def)+

lemma share_ready_cong:
  assumes "share_ready P w" and "faults w' = []" and "\<And>q. share_area P q \<Longrightarrow> lookup w' q = lookup w q"
  shows "share_ready P w'"
proof -
  have "is_file w' q = is_file w q" "is_dir w' q = is_dir w q" if "share_area P q" for q
    using assms(3) [OF that] by (simp_all add: is_file_def is_dir_def)
  moreover have "share_area P (share_dir P @ x)" "prefix q (share_dir P) \<Longrightarrow> share_area P q" for x q
    by (simp_all add: share_area_def)
  ultimately show ?thesis
    using assms unfolding share_ready_def clean_dir_def path_defs output_dir_def by simp
qed

lemma empty_file_init:
  assumes "faults w = []" and "lookup w = lookup empty_world"
  shows "\<exists>st w'. initialize_download_library_state empty_file_env (Some []) (descriptor_from_manifest sample_deps empty_file_manifest) (SymmetricKey 9) None True w =
      (Inr (Some st), w') \<and> ad_paths st = empty_file_paths \<and> ad_dirty_chunks st = 0 \<and> share_ready empty_file_paths w' \<and> lookup w' [''o''] = None"
proof -
  let ?d = "descriptor_from_manifest sample_deps empty_file_manifest"
  have none: "lookup w q = None" for q
    using assms(2) by (simp add: lookup_def empty_world_def)
  have ready: "share_ready empty_file_paths w"
    using assms(1) none by (simp add: share_ready_def clean_dir_def is_file_def is_dir_def path_defs output_dir_def)
  obtain w1 where li: "library_init empty_file_codecs [] ?d (SymmetricKey 9) Downloading None w = (Inr empty_file_paths, w1)" "share_ready empty_file_paths w1"
    using library_init_runs [of "[]" ?d w empty_file_codecs _ "SymmetricKey 9" _ "progress_empty (d_share_id ?d)" Downloading _ None] ready empty_file_encodes
    unfolding empty_file_state_def empty_file_paths_def empty_file_share_def by (metis share_mode.distinct)
  have "lookup w1 [''o''] = None"
    using preserves_frameD [OF frame_library_init li(1), of "[''o'']"] none
    by (simp add: share_area_def share_dir_def library_dir_def etle_dir_def for_share_def)
  moreover have "share_ready empty_file_paths (w1\<lparr>clock_pos := n\<rparr>)" for n
    by (rule share_ready_cong [OF li(2)]) (use li(2) in \<open>simp_all add: share_ready_def lookup_def\<close>)
  moreover have "path_is_file (progress_path (for_share [] (d_share_id ?d))) w = (Inr False :: network_error + bool, w)"
    using none assms(1) by (simp add: path_is_file_nofault is_file_def)
  ultimately show ?thesis
    using li(1) by (simp add: initialize_download_library_state_def Let_def io_simps empty_file_env_def sample_env_def progress_empty_def progress_new_def
        normalize_chunk_list_def clock_now_def lookup_def)
qed

lemma empty_file_resume:
  assumes "share_ready empty_file_paths w" and "ad_paths st = empty_file_paths" and "lookup w [''o''] = None"
  shows "\<exists>st' w'. resume_chunks empty_file_env (Some st) empty_file_manifest None w = (Inr (Some st', Map.empty, {}), w') \<and>
    ad_paths st' = empty_file_paths \<and> ad_progress st' = progress_empty empty_file_share \<and> ad_dirty_chunks st' = ad_dirty_chunks st \<and>
    share_ready empty_file_paths w' \<and> lookup w' [''o''] = None"
proof -
  obtain w1 where w1: "write_progress empty_file_codecs empty_file_paths (progress_empty empty_file_share) w = (Inr (), w1)" "share_ready empty_file_paths w1"
    using empty_file_write(1) [OF assms(1)] by blast
  obtain w2 where w2: "write_state empty_file_codecs empty_file_paths (empty_file_state Downloading) w1 = (Inr (), w2)" "share_ready empty_file_paths w2"
    using empty_file_write(2) [OF w1(2), of Downloading] by blast
  have "\<not> touches (progress_path empty_file_paths) [''o'']" "\<not> touches (state_path empty_file_paths) [''o'']"
    by (simp_all add: touches_def scratch_of_def path_defs share_dir_def library_dir_def etle_dir_def empty_file_paths_def for_share_def)
  then have "lookup w2 [''o''] = None"
    using preserves_frameD [OF frame_write_files(3) w1(1)] preserves_frameD [OF frame_write_files(4) w2(1)] assms(3) by simp
  moreover have "lp_share_id empty_file_paths = empty_file_share"
    by (simp add: empty_file_paths_def for_share_def)
  ultimately show ?thesis
    using w1(1) w2 assms(2) by (simp add: resume_chunks_def load_resumable_chunk_indexes_def store_resumed_def Let_def io_simps empty_file_manifest_def
        empty_file_env_def sample_env_def empty_file_state_def)
qed

lemma empty_file_output:
  assumes "share_ready empty_file_paths w" and "lookup w [''o''] = None"
  shows "\<exists>w'. decrypt_library_chunks_to_file empty_file_env empty_file_paths empty_file_manifest (SymmetricKey 9) [''o''] w = (Inr (), w') \<and>
    share_ready empty_file_paths w'"
proof -
  let ?w = "set_node [''o''] (FileN []) w"
  have f: "faults w = []"
    using assms(1) by (simp add: share_ready_def)
  have "share_ready empty_file_paths ?w"
    by (rule share_ready_cong [OF assms(1)])
      (use f in \<open>auto simp: share_area_def share_dir_def library_dir_def etle_dir_def empty_file_paths_def for_share_def\<close>)
  moreover have "fs_create [''o''] w = (Inr (), ?w)"
    using f assms(2) by (simp add: fs_create_def is_dir_def)
  moreover have "fs_flush [''o''] ?w = (Inr (), ?w)"
    using f by (simp add: fs_flush_def)
  ultimately show ?thesis
    by (simp add: decrypt_library_chunks_to_file_def default_decrypt_worker_count_def empty_file_manifest_def decrypt_library_chunks_to_file_sequential_def
        prepare_output_file_parent_def finalize_streamed_output_def hash_file_id_def hash_bytes_def empty_file_env_def sample_env_def io_simps)
qed

definition empty_file_request :: "download_file_options \<Rightarrow> bool" where
  "empty_file_request opts \<longleftrightarrow> do_peer_id opts \<in> {''p'', ''etle-daemon''} \<and> do_library_root opts = Some [] \<and> do_resume opts \<and>
     do_requested_share_id opts \<in> {None, Some empty_file_share} \<and> do_auth_psk opts = None"

lemma empty_file_download:
  assumes "empty_file_request opts"
  shows "\<exists>w'. from_peer_with empty_file_env ''a'' [''o''] opts (sample_download_world empty_file_manifest []) = (Inr empty_file_manifest, w') \<and> faults w' = []"
proof -
  let ?m = empty_file_manifest
  let ?E = empty_file_env
  let ?w = "sample_download_world ?m []"
  let ?d = "descriptor_from_manifest sample_deps ?m"
  note opts = assms [unfolded empty_file_request_def]
  have m: "m_chunks ?m = []" and E: "e_deps ?E = sample_deps" "e_wire ?E = table_wire (sample_table ?m)" "e_lib ?E = empty_file_codecs"
    by (simp_all add: empty_file_manifest_def empty_file_env_def sample_env_def)
  obtain f1 f2 where f: "frame_of (table_wire (sample_table ?m)) (Hello (do_peer_id opts)) f1" "frame_of (table_wire (sample_table ?m)) (KeyExchange (PublicKeyBytes 9)) f2"
    using sample_client_frames(1,3,4) [of ?m] opts by auto
  obtain f3 where rs: "case do_requested_share_id opts of None \<Rightarrow> f3 = [] | Some sid \<Rightarrow> frame_of (e_wire ?E) (RequestShare sid) f3"
    using opts sample_client_frames(5) [of ?m] E(2) by (auto simp: empty_file_share_def)
  have "\<exists>w' fc. connect_download_peer ?E ''a'' (do_peer_id opts) (do_requested_share_id opts) None ?w =
      (Inr \<lparr>cp_peer_addr = ''a'', cp_manifest = ?m, cp_file_key = SymmetricKey 9, cp_available_chunks = set []\<rparr>, w') \<and> talked ?w [] w' \<and>
      frame_of (e_wire ?E) (Capabilities ETLE_WIRE_PROTOCOL_VERSION local_capabilities) fc \<and> out w' = f1 @ fc @ f2 @ f3"
    by (rule connect_runs [where s = "PublicKeyBytes 9" and shared = "SharedSecretBytes 9" and wrapped = "sample_wrapped (m_file_id ?m)" and
          header = "sample_header ?m" and cs = "[]" and i = "''s''"])
      (use f rs sample_header_frames [of ?m] sample_unwrap m E in \<open>simp_all add: table_wire_ok sample_keys sample_session_key_def del: diffie_hellman.simps\<close>)
  then obtain w1 where con: "connect_download_peer ?E ''a'' (do_peer_id opts) (do_requested_share_id opts) None ?w =
      (Inr \<lparr>cp_peer_addr = ''a'', cp_manifest = ?m, cp_file_key = SymmetricKey 9, cp_available_chunks = {}\<rparr>, w1)"
      and w1: "faults w1 = []" "lookup w1 = lookup empty_world"
    by (auto simp: talked_def)
  obtain st w2 where init: "initialize_download_library_state ?E (Some []) ?d (SymmetricKey 9) None True w1 = (Inr (Some st), w2)" "ad_paths st = empty_file_paths"
      "ad_dirty_chunks st = 0" "share_ready empty_file_paths w2" "lookup w2 [''o''] = None"
    using empty_file_init [OF w1] by blast
  obtain st' w3 where res: "resume_chunks ?E (Some st) ?m None w2 = (Inr (Some st', Map.empty, {}), w3)" "ad_paths st' = empty_file_paths"
      "ad_progress st' = progress_empty empty_file_share" "ad_dirty_chunks st' = 0" "share_ready empty_file_paths w3" "lookup w3 [''o''] = None"
    using empty_file_resume [OF init(4,2,5)] init(3) by auto
  obtain w4 where wo: "decrypt_library_chunks_to_file ?E empty_file_paths ?m (SymmetricKey 9) [''o''] w3 = (Inr (), w4)" "share_ready empty_file_paths w4"
    using empty_file_output [OF res(5,6)] by blast
  obtain w5 where ws: "write_state empty_file_codecs empty_file_paths (empty_file_state Completed) w4 = (Inr (), w5)" "share_ready empty_file_paths w5"
    using empty_file_write(2) [OF wo(2), of Completed] by blast
  have mc: "mark_download_library_complete ?E (Some st') None w4 = (Inr (Some st'), w5)"
    using ws(1) res(2-4) E(3) by (simp add: mark_download_library_complete_def io_simps empty_file_state_def)
  have dl: "download_missing_chunks_windowed ?E ?m {} (Some st') Map.empty {} True None n w3 = (Inr \<lparr>ws_active = initial_request_window (max n 1),
      ws_since_growth = 0, ws_rest = [], ws_in_flight = [], ws_library = Some st', ws_chunks = Map.empty, ws_completed = {}\<rparr>, w3)" for n
    by (simp add: download_missing_chunks_windowed_def Let_def m window_loop.simps)
  have "from_peer_with ?E ''a'' [''o''] opts ?w = (Inr ?m, w5)"
    using con init(1) res(1,2) wo(1) mc dl opts
    by (simp add: from_peer_with_def Let_def io_simps output_parent_dir_def E(1) m
        check_all_received_def write_output_def active_download_state_def ok_or_def)
  with ws(2) show ?thesis
    by (auto simp: share_ready_def)
qed

lemma empty_file_options_request: "empty_file_request empty_file_options"
  by (simp add: empty_file_request_def empty_file_options_def with_library_root_def download_options_new_def)

section \<open>Properties\<close>


definition sample_download_options :: download_file_options where
  "sample_download_options = download_options_new ''p'' Quiet"

lemma sample_download_options_simps [simp]:
  "do_peer_id sample_download_options = ''p''" "do_library_root sample_download_options = None"
  "do_requested_share_id sample_download_options = None" "do_auth_psk sample_download_options = None"
  by (simp_all add: sample_download_options_def download_options_new_def)


text \<open>C20: after a download into a library has returned, whatever failed on the way, the share can be
  served: loading it gives the manifest that was downloaded with every chunk available, and its state
  is read back as completed with all chunks.\<close>

theorem downloaded_share_can_be_served:
  assumes "from_peer_with E addr p opts w = (Inr m, w')" and "do_library_root opts = Some root" and "outside_library root p"
    and "codecs_ok (e_lib E)" and "mset (e_arrival E (m_chunks m)) = mset (m_chunks m)" and "faults w' = []"
  defines "P \<equiv> for_share root (d_share_id (descriptor_from_manifest (e_deps E) m))"
  shows "\<exists>sh s. load_share E root (lp_share_id P) w' = (Inr sh, w') \<and> ls_manifest sh = m \<and> ls_available sh = map cm_index (m_chunks m) \<and>
    read_state (e_lib E) P w' = (Inr s, w') \<and> ss_mode s = Completed \<and> set (ss_completed s) = cm_index ` set (m_chunks m)"
proof -
  let ?d = "descriptor_from_manifest (e_deps E) m"
  from assms(1,2) obtain key b c st w5 w6 state' where
      files: "descriptor_to_bytes (lc_descriptor (e_lib E)) ?d = Inr b" "lookup w5 (descriptor_path P) = Some (FileN b)"
        "secret_to_bytes (lc_secret (e_lib E)) \<lparr>es_share_id = lp_share_id P, es_file_key = key\<rparr> = Inr c" "lookup w5 (secret_path P) = Some (FileN c)"
      and st: "ad_paths st = P" "progress_inv (ad_progress st)" "progress_set (ad_progress st) = cm_index ` set (m_chunks m)"
      and rc: "decrypt_library_chunks_to_file E P m key p w5 = (Inr (), w6)"
      and mc: "mark_download_library_complete E (Some st) (output_parent_dir p) w6 = (Inr state', w')"
    unfolding P_def by (rule library_download_Inr)
  have root: "lp_root P = root" and P: "lp_share_id P = d_share_id ?d" "P = for_share root (d_share_id ?d)"
    by (simp_all add: P_def for_share_def)
  have out: "\<not> share_area P p" "apart P p (m_chunks m)"
    using assms(3) root outside_share outside_chunks by auto
  have kept: "lookup w6 q = lookup w5 q" if "prefix (share_dir P) q" for q
  proof -
    have "\<not> output_area p q"
      using out(1) that unfolding output_area_def share_area_def
      by (metis not_prefix_butlast prefix_order.trans prefixeq_butlast prefix_bot.bot_least)
    then show ?thesis
      using preserves_frameD [OF frame_output rc] by simp
  qed
  have still: "lookup w' q = lookup w6 q" if "\<not> touches (progress_path P) q" "\<not> touches (state_path P) q" for q
    using mark_complete_Some(1) [OF mc st(1)] that by (simp add: frame_def)
  have "chunk_verified (e_deps E) P w' meta" if "meta \<in> set (m_chunks m)" for meta
  proof -
    have "chunk_verified (e_deps E) P w5 meta"
      using plain_verified [OF reconstruct_plain [OF rc out(2) assms(5) that]] .
    moreover have "lookup w' (chunk_path P (cm_index meta)) = lookup w5 (chunk_path P (cm_index meta))"
      using still [of "chunk_path P (cm_index meta)"] kept [of "chunk_path P (cm_index meta)"]
      by (simp add: touches_def scratch_of_def path_defs)
    ultimately show ?thesis
      by (simp add: chunk_verified_def)
  qed
  then have avail: "available_chunk_indexes (e_deps E) P ?d w' = (Inr (map cm_index (m_chunks m)), w')"
    using available_calm [OF assms(6)] by (simp add: descriptor_from_manifest_def descriptor_new_def)
  have "lookup w' (descriptor_path P) = Some (FileN b)" "lookup w' (secret_path P) = Some (FileN c)"
    using files(2,4) still kept by (simp_all add: path_defs touches_snoc)
  then have rd: "read_descriptor (e_deps E) (e_lib E) P w' = (Inr ?d, w')"
      "read_secret (e_lib E) P w' = (Inr \<lparr>es_share_id = lp_share_id P, es_file_key = key\<rparr>, w')"
    using read_descriptor_back [OF assms(4,6) descriptor_from_manifest_verifies P(1) files(1)] read_secret_back [OF assms(4,6) _ files(3)] by simp_all
  have "load_share E root (lp_share_id P) w' = (Inr \<lparr>ls_paths = P, ls_descriptor = ?d, ls_secret = \<lparr>es_share_id = lp_share_id P, es_file_key = key\<rparr>,
      ls_manifest = m, ls_available = map cm_index (m_chunks m)\<rparr>, w')"
    using rd avail by (simp add: load_share_def Let_def io_simps P(1) P(2) [symmetric] manifest_descriptor_manifest)
  moreover obtain bs where "encode_state (lc_states (e_lib E)) (share_state_from_progress Completed (output_parent_dir p) (ad_progress st)) = Inr bs"
      "lookup w' (state_path P) = Some (FileN bs)" "lp_share_id P = dp_share_id (ad_progress st)"
    using mark_complete_Some(2) [OF mc st(1)] by blast
  then have "read_state (e_lib E) P w' = (Inr (share_state_from_progress Completed (output_parent_dir p) (ad_progress st)), w')"
    by (intro read_state_back [OF assms(4,6)]) (simp_all add: share_state_from_progress_def share_state_new_def normalize_strict)
  ultimately show ?thesis
    using st(3) by (auto simp: share_state_from_progress_def share_state_new_def progress_set_def)
qed

theorem downloaded_share_can_be_served_witness:
  "\<exists>w' sh. from_peer_with empty_file_env ''a'' [''o''] empty_file_options (sample_download_world empty_file_manifest []) = (Inr empty_file_manifest, w') \<and>
     load_share empty_file_env [] empty_file_share w' = (Inr sh, w') \<and> ls_manifest sh = empty_file_manifest"
proof -
  obtain w' where run: "from_peer_with empty_file_env ''a'' [''o''] empty_file_options (sample_download_world empty_file_manifest []) = (Inr empty_file_manifest, w')"
      and f: "faults w' = []"
    using empty_file_download [OF empty_file_options_request] by blast
  have "do_library_root empty_file_options = Some []" "outside_library [] [''o'']" "mset (e_arrival empty_file_env (m_chunks empty_file_manifest)) = mset (m_chunks empty_file_manifest)"
    by (simp_all add: empty_file_options_def with_library_root_def outside_library_def empty_file_env_def sample_env_def)
  from downloaded_share_can_be_served [OF run this(1,2) empty_file_codecs_ok this(3) f] run show ?thesis
    by (auto simp: empty_file_env_def sample_env_def for_share_def empty_file_share_def)
qed

end
