(* ===== verification/Etle_Seed.thy ===== *)
theory Etle_Seed
  imports Etle_Honest
begin

text \<open>
  \<open>src/network/transfer/seed.rs\<close> and the direct serving of one file in \<open>src/network/transfer/serve.rs\<close>:
  a file is hashed, read in chunks that several threads encrypt and one thread writes into a staging
  directory, and then moved chunk by chunk into the share that was initialised for it.

  The threads are linked by two bounded channels. What the rest of the program sees of them is the
  order in which encrypted chunks reach the writer, the parameter \<open>arrival\<close>; the reads of the input
  and the writes to the staging directory are made on different files, so the model makes all the
  reads first. The theory on the pipeline states when the threads come to an end.
\<close>

section \<open>Directories with fresh names\<close>

definition fs_create_dir :: "path \<Rightarrow> (io_error, unit) io" where
  "fs_create_dir p = syscall no_effect (\<lambda>w.
     if exists_path w p then (Inl AlreadyExists, w)
     else if \<not> is_dir w (butlast p) then (Inl NotFound, w)
     else (Inr (), set_node p DirN w))"

definition fresh_name :: "string \<Rightarrow> nat \<Rightarrow> nat \<Rightarrow> nat \<Rightarrow> string" where
  "fresh_name tag process_id nanos attempt =
     tag @ show_nat process_id @ ''-'' @ show_nat nanos @ ''-'' @ show_nat attempt"

text \<open>The paths at which an attempt from \<open>attempt\<close> on can find something in its way.\<close>

definition obstacles :: "path \<Rightarrow> string \<Rightarrow> nat \<Rightarrow> world \<Rightarrow> path set" where
  "obstacles base tag attempt w = {q \<in> fst ` set (nodes w). \<exists>nanos k. attempt \<le> k \<and> q = base @ [fresh_name tag (pid w) nanos k]}"

lemma no_dash_in_number: "CHR ''-'' \<notin> set (show_nat n)"
proof
  assume "CHR ''-'' \<in> set (show_nat n)"
  then obtain d where "d < 10" "CHR ''-'' = digit_char d"
    using show_nat_digits by blast
  then have "of_char CHR ''-'' = (of_char (digit_char d) :: nat)"
    by simp
  with \<open>d < 10\<close> show False
    by (simp add: digit_char_def)
qed

lemma fresh_name_attempt: "fresh_name tag p n k = fresh_name tag p n' k' \<Longrightarrow> k = k'"
proof -
  assume "fresh_name tag p n k = fresh_name tag p n' k'"
  then have eq: "show_nat n @ CHR ''-'' # show_nat k = show_nat n' @ CHR ''-'' # show_nat k'"
    by (simp add: fresh_name_def)
  then have "takeWhile ((\<noteq>) CHR ''-'') (show_nat n @ CHR ''-'' # show_nat k) = takeWhile ((\<noteq>) CHR ''-'') (show_nat n' @ CHR ''-'' # show_nat k')"
    by simp
  then have "show_nat n = show_nat n'"
    using no_dash_in_number by (subst (asm) takeWhile_append2 takeWhile_append2) (auto simp: takeWhile_tail)
  with eq show "k = k'" by simp
qed

lemma create_dir_refused:
  assumes "fs_create_dir p w = (Inl AlreadyExists, w')"
  shows "nodes w' = nodes w" "pid w' = pid w"
    and "length (faults w') < length (faults w) \<or> faults w' = faults w \<and> (p = [] \<or> p \<in> fst ` set (nodes w))"
  using assms
  by (auto simp: fs_create_dir_def syscall_def no_effect_def exists_path_def lookup_def map_of_eq_None_iff
      split: list.splits option.splits if_splits prod.splits)

lemma finite_obstacles [simp]: "finite (obstacles base tag attempt w)"
  by (simp add: obstacles_def)

lemma obstacles_shrink:
  assumes "nodes w' = nodes w" and "pid w' = pid w"
  shows "card (obstacles base tag (Suc attempt) w') \<le> card (obstacles base tag attempt w)"
    and "base @ [fresh_name tag (pid w) nanos attempt] \<in> fst ` set (nodes w) \<Longrightarrow>
      card (obstacles base tag (Suc attempt) w') < card (obstacles base tag attempt w)"
proof -
  let ?q = "base @ [fresh_name tag (pid w) nanos attempt]"
  have sub: "obstacles base tag (Suc attempt) w' \<subseteq> obstacles base tag attempt w"
    unfolding obstacles_def assms by (auto dest: Suc_leD)
  show "card (obstacles base tag (Suc attempt) w') \<le> card (obstacles base tag attempt w)"
    by (rule card_mono [OF finite_obstacles sub])
  assume "?q \<in> fst ` set (nodes w)"
  then have "?q \<in> obstacles base tag attempt w"
    unfolding obstacles_def by blast
  moreover have "?q \<notin> obstacles base tag (Suc attempt) w'"
    unfolding obstacles_def assms by (auto dest!: fresh_name_attempt)
  ultimately show "card (obstacles base tag (Suc attempt) w') < card (obstacles base tag attempt w)"
    using sub by (intro psubset_card_mono finite_obstacles) blast
qed

text \<open>
  The loop \<open>for attempt in 0_u32..\<close> of both \<open>create\<close> functions, which ends because every refused attempt
  has met another of the finitely many obstacles, or a failing call.
\<close>

function create_fresh_loop :: "path \<Rightarrow> string \<Rightarrow> nat \<Rightarrow> (io_error, path) io" where
  "create_fresh_loop base tag attempt w =
     (case clock_now w of
        (Inl error, w1) \<Rightarrow> (Inl error, w1)
      | (Inr nanos, w1) \<Rightarrow>
          let candidate = base @ [fresh_name tag (pid w1) nanos attempt] in
          (case fs_create_dir candidate w1 of
             (Inr _, w2) \<Rightarrow> (Inr candidate, w2)
           | (Inl error, w2) \<Rightarrow> if error = AlreadyExists then create_fresh_loop base tag (Suc attempt) w2 else (Inl error, w2)))"
  by pat_completeness auto
termination
proof (relation "measure (\<lambda>(base, tag, attempt, w). length (faults w) + card (obstacles base tag attempt w))")
  fix base :: path and tag :: string and attempt nanos :: nat and w w1 w2 :: world and x candidate y
  assume a: "(x, w1) = clock_now w" "x = Inr nanos" "candidate = base @ [fresh_name tag (pid w1) nanos attempt]"
    "(y, w2) = fs_create_dir candidate w1"
  fix error :: io_error
  assume e: "y = Inl error" "error = AlreadyExists"
  have w1: "nodes w1 = nodes w" "pid w1 = pid w" "faults w1 = faults w"
    using a(1) by (auto simp: clock_now_def)
  have c: "fs_create_dir (base @ [fresh_name tag (pid w) nanos attempt]) w1 = (Inl AlreadyExists, w2)"
    using a e w1 by simp
  have w2: "nodes w2 = nodes w" "pid w2 = pid w"
    using create_dir_refused(1,2) [OF c] w1 by simp_all
  have "length (faults w2) + card (obstacles base tag (Suc attempt) w2) < length (faults w) + card (obstacles base tag attempt w)"
  proof (cases "length (faults w2) < length (faults w)")
    case True
    then show ?thesis
      using obstacles_shrink(1) [OF w2] by (rule add_less_le_mono)
  next
    case False
    then have "faults w2 = faults w" and "base @ [fresh_name tag (pid w) nanos attempt] \<in> fst ` set (nodes w)"
      using create_dir_refused(3) [OF c] by (simp_all add: w1)
    then show ?thesis
      using obstacles_shrink(2) [OF w2] by simp
  qed
  then show "((base, tag, Suc attempt, w2), (base, tag, attempt, w)) \<in> measure (\<lambda>(base, tag, attempt, w). length (faults w) + card (obstacles base tag attempt w))"
    by simp
qed simp

declare create_fresh_loop.simps [simp del]

section \<open>Staging\<close>

definition staged_chunk_dir_create :: "path \<Rightarrow> (io_error, path) io" where
  "staged_chunk_dir_create library_root =
     (let base = library_root @ [''.etle'', ''staging''] in
      bindE (fs_create_dir_all base) (\<lambda>_. create_fresh_loop base ''seed-'' 0))"

definition temporary_library_root_create :: "path \<Rightarrow> (io_error, path) io" where
  "temporary_library_root_create temp_dir =
     (let base = temp_dir @ [''etle-transient-serve''] in
      bindE (fs_create_dir_all base) (\<lambda>_. create_fresh_loop base [] 0))"

definition staged_chunk_path :: "path \<Rightarrow> u32 \<Rightarrow> path" where
  "staged_chunk_path staging index = staging @ [show_06 (unat index) @ ''.etle'']"

definition staged_write_chunk :: "path \<Rightarrow> u32 \<Rightarrow> bytes \<Rightarrow> (io_error, unit) io" where
  "staged_write_chunk staging index data = fs_write (staged_chunk_path staging index) data"

definition move_chunk :: "path \<Rightarrow> u32 \<Rightarrow> path \<Rightarrow> (io_error, unit) io" where
  "move_chunk staging index destination =
     bindE (if destination \<noteq> [] then fs_create_dir_all (butlast destination) else returnE ()) (\<lambda>_.
     bindE (path_exists destination) (\<lambda>present.
     bindE (if present then fs_remove_file destination else returnE ()) (\<lambda>_.
     fs_rename (staged_chunk_path staging index) destination)))"

text \<open>\<open>Drop\<close>: the directory is removed whichever way its scope is left, and a failure to do so is ignored.\<close>

definition dropping :: "path \<Rightarrow> ('e, 'a) io \<Rightarrow> ('e, 'a) io" where
  "dropping dir m = (\<lambda>w. case m w of (r, w1) \<Rightarrow> (case fs_remove_dir_all dir w1 of (_, w2) \<Rightarrow> (r, w2)))"

section \<open>Encrypting a file into the staging directory\<close>

type_synonym seed_plain_chunk = plain_chunk

record seed_encrypted_chunk =
  se_meta :: chunk_meta
  se_ciphertext :: bytes

definition encrypt_seed_chunk :: "deps \<Rightarrow> file_id \<Rightarrow> symmetric_key \<Rightarrow> seed_plain_chunk \<Rightarrow> (network_error, seed_encrypted_chunk) io" where
  "encrypt_seed_chunk D fid key chunk =
     bindE generate_nonce (\<lambda>nonce.
     let sample_len = length (pc_data chunk); aad = build_chunk_aad fid (pc_index chunk) (of_nat sample_len) in
     bindE (liftE (map_err NetCrypto (encrypt_chunk D key nonce (pc_data chunk) aad))) (\<lambda>ciphertext.
     returnE \<lparr>se_meta = \<lparr>cm_index = pc_index chunk, cm_plain_size = of_nat sample_len,
         cm_encrypted_size = of_nat (length ciphertext), cm_nonce = nonce, cm_hash = hash_chunk D ciphertext\<rparr>,
       se_ciphertext = ciphertext\<rparr>))"

definition default_seed_worker_count :: "nat option \<Rightarrow> nat" where
  "default_seed_worker_count cores = max 1 (min (case cores of Some n \<Rightarrow> n | None \<Rightarrow> 2) 4)"

definition total_chunks_for_size :: "u64 \<Rightarrow> nat \<Rightarrow> nat" where
  "total_chunks_for_size total_size chunk_size =
     (if total_size = 0 \<or> chunk_size = 0 then 0
      else let c = unat (of_nat chunk_size :: u64) in (unat total_size + (c - 1)) div c)"

definition manifest_file_name :: "path \<Rightarrow> string" where
  "manifest_file_name p = (if p = [] \<or> last p = [] then ''unnamed'' else last p)"

text \<open>The loop of the reading thread: the chunks it sent, and the error it stopped with.\<close>

function read_seed_chunks :: "nat \<Rightarrow> u32 \<Rightarrow> seed_plain_chunk list \<Rightarrow> bytes \<Rightarrow> world \<Rightarrow> (seed_plain_chunk list \<times> network_error option) \<times> world" where
  "read_seed_chunks chunk_size index chunks rem w =
     (case file_read chunk_size rem w of
        (Inl e, w') \<Rightarrow> ((chunks, Some (NetIo e)), w')
      | (Inr (buffer, rem'), w') \<Rightarrow>
          if buffer = [] then ((chunks, None), w')
          else let chunks' = chunks @ [\<lparr>pc_index = index, pc_data = buffer\<rparr>] in
            (case checked_add_u32 index 1 of
              None \<Rightarrow> ((chunks', Some (NetFile TooManyChunks)), w')
            | Some index' \<Rightarrow> read_seed_chunks chunk_size index' chunks' rem' w'))"
  by pat_completeness auto
termination
  by (relation "measure (\<lambda>(chunk_size, index, chunks, rem, w). length rem)")
    (auto dest: file_read_decreases [OF sym])

declare read_seed_chunks.simps [simp del]

definition stage_chunk :: "deps \<Rightarrow> file_id \<Rightarrow> symmetric_key \<Rightarrow> path \<Rightarrow> seed_plain_chunk \<Rightarrow> (network_error, chunk_meta) io" where
  "stage_chunk D fid key staging chunk =
     bindE (encrypt_seed_chunk D fid key chunk) (\<lambda>encrypted.
     bindE (intoE NetIo (staged_write_chunk staging (cm_index (se_meta encrypted)) (se_ciphertext encrypted))) (\<lambda>_.
     returnE (se_meta encrypted)))"

definition encrypt_file_to_staging_parallel ::
    "deps \<Rightarrow> (seed_plain_chunk list \<Rightarrow> seed_plain_chunk list) \<Rightarrow> path \<Rightarrow> file_id \<Rightarrow> symmetric_key \<Rightarrow> nat \<Rightarrow> path \<Rightarrow> (network_error, chunk_meta list) io" where
  "encrypt_file_to_staging_parallel D arrival input_path fid key chunk_size staging =
     bindE (intoE NetIo (fs_metadata input_path)) (\<lambda>_.
     bindE (intoE NetIo (fs_open input_path)) (\<lambda>input.
     bindE (\<lambda>w. case read_seed_chunks chunk_size 0 [] input w of (r, w') \<Rightarrow> (Inr r, w')) (\<lambda>(chunks, read_error).
     bindE (tryE (mapE (stage_chunk D fid key staging) (arrival chunks))) (\<lambda>staged.
     case read_error of
       Some error \<Rightarrow> throwE error
     | None \<Rightarrow> bindE (liftE staged) (\<lambda>metas. returnE (sort_key cm_index metas))))))"

section \<open>Adding a file\<close>

text \<open>The part of \<open>add_streaming\<close> during which the staging directory exists.\<close>

definition add_staged ::
    "transfer_env \<Rightarrow> (seed_plain_chunk list \<Rightarrow> seed_plain_chunk list) \<Rightarrow> path \<Rightarrow> symmetric_key \<Rightarrow> nat \<Rightarrow> path \<Rightarrow> file_id \<Rightarrow> u64 \<Rightarrow> path \<Rightarrow>
     (network_error, etle_descriptor) io" where
  "add_staged E arrival input_path key chunk_size library_root fid file_size staging =
     bindE (encrypt_file_to_staging_parallel (e_deps E) arrival input_path fid key chunk_size staging) (\<lambda>chunk_metas.
     let m = \<lparr>m_file_id = fid, m_file_name = manifest_file_name input_path, m_file_size = file_size,
           m_chunk_size = of_nat chunk_size, m_chunks = chunk_metas\<rparr>;
         d = descriptor_from_manifest (e_deps E) m in
     bindE (intoE NetFile (library_init (e_lib E) library_root d key Seeding None)) (\<lambda>P.
     bindE (forE (m_chunks m) (\<lambda>meta. intoE NetIo (move_chunk staging (cm_index meta) (chunk_path P (cm_index meta))))) (\<lambda>_.
     returnE d)))"

definition add_streaming ::
    "transfer_env \<Rightarrow> (seed_plain_chunk list \<Rightarrow> seed_plain_chunk list) \<Rightarrow> path \<Rightarrow> symmetric_key \<Rightarrow> nat \<Rightarrow> path \<Rightarrow> (network_error, etle_descriptor) io" where
  "add_streaming E arrival input_path key chunk_size library_root =
     (if chunk_size = 0 then throwE (NetFile (InvalidChunkSize chunk_size))
      else bindE (intoE NetIo (hash_file (e_deps E) input_path)) (\<lambda>fid.
        bindE (intoE NetIo (fs_metadata input_path)) (\<lambda>md.
        let file_size = (case md of FileMeta n \<Rightarrow> n | DirMeta \<Rightarrow> 0) in
        bindE (intoE NetIo (staged_chunk_dir_create library_root)) (\<lambda>staging.
        dropping staging (add_staged E arrival input_path key chunk_size library_root fid file_size staging)))))"

definition add :: "transfer_env \<Rightarrow> (seed_plain_chunk list \<Rightarrow> seed_plain_chunk list) \<Rightarrow> path \<Rightarrow> nat \<Rightarrow> path \<Rightarrow> (network_error, etle_descriptor) io" where
  "add E arrival input_path chunk_size library_root =
     bindE generate_file_key (\<lambda>key. add_streaming E arrival input_path key chunk_size library_root)"

section \<open>Serving one file\<close>

definition serve_added :: "transfer_env \<Rightarrow> (seed_plain_chunk list \<Rightarrow> seed_plain_chunk list) \<Rightarrow> path \<Rightarrow> nat \<Rightarrow> path \<Rightarrow> serve_file_options \<Rightarrow> (network_error, unit) io" where
  "serve_added E arrival input_path chunk_size library_root opts =
     bindE (add E arrival input_path chunk_size library_root) (\<lambda>d.
     let fresh = serve_with_library_root library_root (serve_options_new (so_seeder_id opts) (so_log_level opts));
         fresh = (case so_auth_psk opts of Some psk \<Rightarrow> serve_with_auth_psk psk fresh | None \<Rightarrow> fresh) in
     bindE (share_once_from_listener E library_root (d_share_id d) fresh) (\<lambda>_. returnE ()))"

definition file_once_with :: "transfer_env \<Rightarrow> (seed_plain_chunk list \<Rightarrow> seed_plain_chunk list) \<Rightarrow> path \<Rightarrow> path \<Rightarrow> nat \<Rightarrow> serve_file_options \<Rightarrow> (network_error, unit) io" where
  "file_once_with E arrival temp_dir input_path chunk_size opts = (case so_library_root opts of
      Some root \<Rightarrow> serve_added E arrival input_path chunk_size root opts
    | None \<Rightarrow> bindE (intoE NetIo (temporary_library_root_create temp_dir)) (\<lambda>root.
        dropping root (serve_added E arrival input_path chunk_size root opts)))"

definition file_once :: "transfer_env \<Rightarrow> (seed_plain_chunk list \<Rightarrow> seed_plain_chunk list) \<Rightarrow> path \<Rightarrow> path \<Rightarrow> nat \<Rightarrow> string \<Rightarrow> (network_error, unit) io" where
  "file_once E arrival temp_dir input_path chunk_size seeder_id =
     file_once_with E arrival temp_dir input_path chunk_size (serve_options_new seeder_id Quiet)"

section \<open>What adding a file does\<close>

subsection \<open>Fresh directories\<close>

lemma create_dir_Inr:
  assumes "fs_create_dir p w = (Inr u, w')"
  shows "lookup w p = None" and "lookup w' = (lookup w)(p \<mapsto> DirN)"
  using assms by (auto simp: fs_create_dir_def syscall_def exists_path_def split: list.splits option.splits if_splits prod.splits)

lemma create_dir_Inl: "fs_create_dir p w = (Inl e, w') \<Longrightarrow> lookup w' = lookup w"
  by (auto simp: fs_create_dir_def syscall_def no_effect_def lookup_def split: list.splits option.splits if_splits prod.splits)

lemma create_fresh_loop_cases:
  "case create_fresh_loop base tag attempt w of
     (Inl e, w') \<Rightarrow> lookup w' = lookup w
   | (Inr p, w') \<Rightarrow> \<exists>name. p = base @ [name] \<and> lookup w p = None \<and> lookup w' = (lookup w)(p \<mapsto> DirN)"
proof (induction base tag attempt w rule: create_fresh_loop.induct)
  case (1 base tag attempt w)
  let ?w1 = "w\<lparr>clock_pos := Suc (clock_pos w)\<rparr>"
  let ?c = "base @ [fresh_name tag (pid ?w1) (clock w (clock_pos w)) attempt]"
  have now: "clock_now w = (Inr (clock w (clock_pos w)) :: io_error + nat, ?w1)"
    by (simp add: clock_now_def)
  obtain r w2 where r: "fs_create_dir ?c ?w1 = (r, w2)"
    by fastforce
  show ?case
  proof (cases r)
    case (Inr u)
    then have "create_fresh_loop base tag attempt w = (Inr ?c, w2)"
      using now r by (subst create_fresh_loop.simps) (simp add: Let_def)
    then show ?thesis
      using create_dir_Inr [of ?c ?w1 u w2] r Inr by (simp add: fun_eq_iff)
  next
    case (Inl e)
    have same: "lookup w2 = lookup w"
      using create_dir_Inl [of ?c ?w1 e w2] r Inl by (simp add: fun_eq_iff)
    show ?thesis
    proof (cases "e = AlreadyExists")
      case True
      then have "create_fresh_loop base tag attempt w = create_fresh_loop base tag (Suc attempt) w2"
        using now r Inl by (subst create_fresh_loop.simps) (simp add: Let_def)
      then show ?thesis
        using "1.IH" [OF now [symmetric] refl refl r [symmetric] Inl True] unfolding same by (simp only:)
    next
      case False
      then have "create_fresh_loop base tag attempt w = (Inl e, w2)"
        using now r Inl by (subst create_fresh_loop.simps) (simp add: Let_def)
      then show ?thesis
        using same by simp
    qed
  qed
qed

lemma create_fresh_loop_Inr:
  assumes "create_fresh_loop base tag attempt w = (Inr p, w')"
  obtains name where "p = base @ [name]" "lookup w p = None" "lookup w' = (lookup w)(p \<mapsto> DirN)"
  using create_fresh_loop_cases [where base = base and tag = tag and attempt = attempt and w = w] assms by auto

lemma frame_create_fresh:
  assumes "\<And>name. F (base @ [name])"
  shows "preserves (frame F) (create_fresh_loop base tag attempt)"
  unfolding preserves_def frame_def
proof (intro allI impI)
  fix w q assume "\<not> F q"
  then have "q \<noteq> base @ [name]" for name
    using assms by auto
  then show "lookup (snd (create_fresh_loop base tag attempt w)) q = lookup w q"
    using create_fresh_loop_cases [where base = base and tag = tag and attempt = attempt and w = w]
    by (cases "create_fresh_loop base tag attempt w"; cases "fst (create_fresh_loop base tag attempt w)") auto
qed

definition staging_base :: "path \<Rightarrow> path" where
  "staging_base root = root @ [''.etle'', ''staging'']"

lemma staged_chunk_dir_create_Inr:
  assumes "staged_chunk_dir_create root w = (Inr staging, w')"
  obtains name where "staging = staging_base root @ [name]" "\<And>q. \<not> prefix q staging \<Longrightarrow> lookup w' q = lookup w q"
proof -
  from assms obtain w1 where mk: "fs_create_dir_all (staging_base root) w = (Inr (), w1)"
      and lp: "create_fresh_loop (staging_base root) ''seed-'' 0 w1 = (Inr staging, w')"
    by (auto simp: staged_chunk_dir_create_def Let_def bindE_Inr staging_base_def)
  obtain name where n: "staging = staging_base root @ [name]" "lookup w' = (lookup w1)(staging \<mapsto> DirN)"
    using create_fresh_loop_Inr [OF lp] by metis
  have "lookup w' q = lookup w q" if "\<not> prefix q staging" for q
    using preserves_frameD [OF frame_create_dir_all [of "staging_base root" "\<lambda>q. prefix q (staging_base root)"] mk, of q] that n
    by (auto simp: prefix_append)
  then show ?thesis
    using that n by blast
qed

subsection \<open>Reading and encrypting\<close>

text \<open>A reading thread that meets no error has read what \<open>read_file_chunks\<close> reads.\<close>

lemma read_seed_chunks_agrees:
  "read_seed_chunks cs i chunks rem w = ((all, None), w') \<Longrightarrow> read_chunks_loop cs i chunks rem w = (Inr all, w')"
proof (induction cs i chunks rem w rule: read_seed_chunks.induct)
  case (1 cs i chunks rem w)
  obtain r w1 where r: "file_read cs rem w = (r, w1)"
    by fastforce
  show ?case
  proof (cases r)
    case (Inl e)
    with "1.prems" r show ?thesis
      by (subst (asm) read_seed_chunks.simps) simp
  next
    case (Inr got)
    obtain buffer rem' where got: "got = (buffer, rem')"
      by fastforce
    show ?thesis
    proof (cases "buffer = []")
      case True
      with "1.prems" r Inr got show ?thesis
        by (subst (asm) read_seed_chunks.simps, subst read_chunks_loop.simps) simp
    next
      case False
      let ?next = "chunks @ [\<lparr>pc_index = i, pc_data = buffer\<rparr>]"
      from "1.prems" r Inr got False obtain i' where i': "checked_add_u32 i 1 = Some i'"
          and rec: "read_seed_chunks cs i' ?next rem' w1 = ((all, None), w')"
        by (subst (asm) read_seed_chunks.simps) (auto simp: Let_def split: option.split_asm)
      have "read_chunks_loop cs i' ?next rem' w1 = (Inr all, w')"
        using "1.IH" [OF r [symmetric] _ got [symmetric] False refl i' rec] Inr by simp
      then show ?thesis
        using r Inr got False i' by (subst read_chunks_loop.simps) simp
    qed
  qed
qed

lemma read_seed_chunks_lookup: "lookup (snd (read_seed_chunks cs i chunks rem w)) = lookup w"
proof (induction cs i chunks rem w rule: read_seed_chunks.induct)
  case (1 cs i chunks rem w)
  obtain r w1 where r: "file_read cs rem w = (r, w1)"
    by fastforce
  have same: "lookup w1 = lookup w"
    using frame_all_lookup [OF frame_file_read r] .
  show ?case
  proof (cases r)
    case (Inl e)
    with r same show ?thesis
      by (subst read_seed_chunks.simps) simp
  next
    case (Inr got)
    obtain buffer rem' where got: "got = (buffer, rem')"
      by fastforce
    show ?thesis
    proof (cases "buffer = [] \<or> checked_add_u32 i 1 = None")
      case True
      with r same Inr got show ?thesis
        by (subst read_seed_chunks.simps) (auto simp: Let_def)
    next
      case False
      then obtain i' where i': "checked_add_u32 i 1 = Some i'"
        by auto
      from False have "buffer \<noteq> []"
        by simp
      from "1.IH" [OF r [symmetric] Inr got [symmetric] this refl i'] show ?thesis
        using r same Inr got False i' by (subst read_seed_chunks.simps) (simp add: Let_def)
    qed
  qed
qed

lemma encrypt_seed_chunk_Inr:
  "encrypt_seed_chunk D fid key c w = (Inr e, w') \<Longrightarrow>
     encrypts D key fid c (se_meta e, \<lparr>ec_index = pc_index c, ec_data = se_ciphertext e\<rparr>) \<and> lookup w' = lookup w"
  by (auto simp: encrypt_seed_chunk_def encrypts_def Let_def bindE_Inr generate_nonce_def fill_bytes_def lookup_def)

text \<open>The chunk \<open>c\<close> lies encrypted at \<open>p\<close>, as \<open>meta\<close> describes it.\<close>

definition sealed_at :: "deps \<Rightarrow> symmetric_key \<Rightarrow> file_id \<Rightarrow> world \<Rightarrow> path \<Rightarrow> plain_chunk \<Rightarrow> chunk_meta \<Rightarrow> bool" where
  "sealed_at D key fid w p c meta \<longleftrightarrow> (\<exists>ct. encrypts D key fid c (meta, \<lparr>ec_index = pc_index c, ec_data = ct\<rparr>) \<and> lookup w p = Some (FileN ct))"

lemma sealed_index: "sealed_at D key fid w p c meta \<Longrightarrow> cm_index meta = pc_index c"
  by (auto simp: sealed_at_def encrypts_def)

lemma sealed_at_lookup: "lookup w' p' = lookup w p \<Longrightarrow> sealed_at D key fid w p c meta \<Longrightarrow> sealed_at D key fid w' p' c meta"
  by (simp add: sealed_at_def)

lemma staged_chunk_path_inj [simp]: "staged_chunk_path staging i = staged_chunk_path staging j \<longleftrightarrow> i = j"
  by (simp add: staged_chunk_path_def word_unat_eq_iff)

lemma stage_chunk_Inr:
  assumes "stage_chunk D fid key staging c w = (Inr meta, w')"
  shows "sealed_at D key fid w' (staged_chunk_path staging (pc_index c)) c meta"
    and "q \<noteq> staged_chunk_path staging (pc_index c) \<Longrightarrow> lookup w' q = lookup w q"
proof -
  from assms obtain e w1 where e: "encrypt_seed_chunk D fid key c w = (Inr e, w1)" and meta: "meta = se_meta e"
      and wr: "fs_write (staged_chunk_path staging (cm_index (se_meta e))) (se_ciphertext e) w1 = (Inr (), w')"
    by (auto simp: stage_chunk_def staged_write_chunk_def bindE_Inr)
  note f = encrypt_seed_chunk_Inr [OF e]
  have ix: "cm_index (se_meta e) = pc_index c"
    using f by (simp add: encrypts_def)
  show "sealed_at D key fid w' (staged_chunk_path staging (pc_index c)) c meta"
    using f fs_write_Inr [OF wr] unfolding sealed_at_def meta ix by auto
  show "q \<noteq> staged_chunk_path staging (pc_index c) \<Longrightarrow> lookup w' q = lookup w q"
    using f fs_write_Inr [OF wr] unfolding ix by auto
qed

lemma stage_chunks_Inr:
  assumes "mapE (stage_chunk D fid key staging) cs w = (Inr metas, w')" and "distinct (map pc_index cs)"
  shows "list_all2 (\<lambda>c meta. sealed_at D key fid w' (staged_chunk_path staging (pc_index c)) c meta) cs metas"
    and "(\<And>i. q \<noteq> staged_chunk_path staging i) \<Longrightarrow> lookup w' q = lookup w q"
proof -
  have "list_all2 (\<lambda>c meta. sealed_at D key fid w' (staged_chunk_path staging (pc_index c)) c meta) cs metas \<and>
    (\<forall>q. q \<notin> (\<lambda>c. staged_chunk_path staging (pc_index c)) ` set cs \<longrightarrow> lookup w' q = lookup w q)"
    using assms
  proof (induction cs arbitrary: w metas)
    case (Cons c cs)
    from Cons.prems(1) obtain m w1 ms where c: "stage_chunk D fid key staging c w = (Inr m, w1)"
        and cs: "mapE (stage_chunk D fid key staging) cs w1 = (Inr ms, w')" and metas: "metas = m # ms"
      by (auto simp: bindE_Inr)
    have IH: "list_all2 (\<lambda>c meta. sealed_at D key fid w' (staged_chunk_path staging (pc_index c)) c meta) cs ms"
      "\<And>q. q \<notin> (\<lambda>c. staged_chunk_path staging (pc_index c)) ` set cs \<Longrightarrow> lookup w' q = lookup w1 q"
      using Cons.IH [OF cs] Cons.prems(2) by auto
    have "sealed_at D key fid w' (staged_chunk_path staging (pc_index c)) c m"
      using Cons.prems(2) by (intro sealed_at_lookup [OF _ stage_chunk_Inr(1) [OF c]] IH(2)) auto
    then show ?case
      using IH stage_chunk_Inr(2) [OF c] by (simp add: metas)
  qed simp
  then show "list_all2 (\<lambda>c meta. sealed_at D key fid w' (staged_chunk_path staging (pc_index c)) c meta) cs metas"
    and "(\<And>i. q \<noteq> staged_chunk_path staging i) \<Longrightarrow> lookup w' q = lookup w q"
    by auto
qed

lemma list_all2_member: "list_all2 R xs ys \<Longrightarrow> y \<in> set ys \<Longrightarrow> \<exists>x \<in> set xs. R x y"
  by (induction rule: list_all2_induct) auto

lemma list_all2_insort:
  "list_all2 R xs ys \<Longrightarrow> R x y \<Longrightarrow> (\<And>a b. R a b \<Longrightarrow> f a = g b) \<Longrightarrow> list_all2 R (insort_key f x xs) (insort_key g y ys)"
  by (induction rule: list_all2_induct) auto

lemma list_all2_sort:
  "list_all2 R xs ys \<Longrightarrow> (\<And>a b. R a b \<Longrightarrow> f a = g b) \<Longrightarrow> list_all2 R (sort_key f xs) (sort_key g ys)"
  by (induction rule: list_all2_induct) (auto simp: sort_key_simps intro: list_all2_insort)

text \<open>In whatever order the chunks reached the writer, the metadata come out in the order of the file.\<close>

lemma encrypt_to_staging_Inr:
  assumes "encrypt_file_to_staging_parallel D arrival p fid key cs staging w = (Inr metas, w')"
    and "\<And>xs. mset (arrival xs) = mset xs" and "0 < cs"
  obtains bs plain where "lookup w p = Some (FileN bs)" "concat (map pc_data plain) = bs" "indexed plain"
    "list_all2 (\<lambda>c meta. sealed_at D key fid w' (staged_chunk_path staging (pc_index c)) c meta) plain metas"
    "\<And>q. \<not> prefix staging q \<Longrightarrow> lookup w' q = lookup w q"
    "read_caps w = [] \<Longrightarrow> map pc_data plain = chop cs bs" "\<forall>c \<in> set plain. length (pc_data c) \<le> cs"
proof -
  let ?stage = "\<lambda>(chunks, read_error). bindE (tryE (mapE (stage_chunk D fid key staging) (arrival chunks))) (\<lambda>staged.
     case read_error of Some error \<Rightarrow> throwE error | None \<Rightarrow> bindE (liftE staged) (\<lambda>metas. returnE (sort_key cm_index metas)))"
  from assms(1) obtain md w1 bs w2 where md: "fs_metadata p w = (Inr md, w1)" and op: "fs_read p w1 = (Inr bs, w2)"
      and rest: "bindE (\<lambda>w. case read_seed_chunks cs 0 [] bs w of (r, w') \<Rightarrow> (Inr r, w')) ?stage w2 = (Inr metas, w')"
    by (auto simp: encrypt_file_to_staging_parallel_def fs_open_def bindE_Inr [of "intoE _ _"])
  obtain plain err w3 where rd: "read_seed_chunks cs 0 [] bs w2 = ((plain, err), w3)"
    by (metis surj_pair)
  from rest have "?stage (plain, err) w3 = (Inr metas, w')"
    unfolding bindE_def rd by simp
  then obtain ms where err: "err = None" and st: "mapE (stage_chunk D fid key staging) (arrival plain) w3 = (Inr ms, w')"
      and metas: "metas = sort_key cm_index ms"
    by (auto simp: bindE_Inr split: option.split_asm)
  note rd = rd [unfolded err]
  note lp = read_seed_chunks_agrees [OF rd]
  have "indexed []"
    by (simp add: indexed_def)
  from read_chunks_loop_Inr [OF lp assms(3) this]
  have plain: "indexed plain" "concat (map pc_data plain) = bs" "read_caps w2 = [] \<longrightarrow> map pc_data plain = chop cs bs"
      "\<forall>c \<in> set plain. length (pc_data c) \<le> cs"
    by auto
  have same: "lookup w1 = lookup w" "lookup w2 = lookup w1" "lookup w3 = lookup w2"
    using fs_metadata_Inr [OF md] frame_all_lookup [OF frame_read op] read_seed_chunks_lookup [of cs 0 "[]" bs w2] rd by simp_all
  have caps: "read_caps w2 = read_caps w"
    using md op by (auto simp: fs_metadata_def fs_read_def syscall_def split: list.splits option.splits node.splits if_splits prod.splits)
  let ?R = "\<lambda>c meta. sealed_at D key fid w' (staged_chunk_path staging (pc_index c)) c meta"
  have dist: "distinct (map pc_index (arrival plain))"
    using indexed_distinct [OF plain(1)] mset_eq_imp_distinct_iff [of "map pc_index (arrival plain)" "map pc_index plain"] assms(2) by simp
  have "list_all2 ?R (sort_key pc_index (arrival plain)) metas"
    unfolding metas by (rule list_all2_sort [OF stage_chunks_Inr(1) [OF st dist]]) (simp add: sealed_index)
  moreover have "sort_key pc_index (arrival plain) = plain"
  proof (rule sort_key_inj_key_eq)
    show "mset (arrival plain) = mset plain" by (rule assms(2))
    show "sorted (map pc_index plain)" using indexed_sorted [OF plain(1)] .
    show "inj_on pc_index (set (arrival plain))" using dist by (simp add: distinct_map)
  qed
  moreover have "lookup w' q = lookup w q" if "\<not> prefix staging q" for q
    using stage_chunks_Inr(2) [OF st dist, of q] that same unfolding staged_chunk_path_def by (metis prefixI)
  ultimately show ?thesis
    using that [of bs plain] plain same caps fs_read_Inr [OF op] by simp
qed

subsection \<open>Moving the chunks into the share\<close>

lemma move_chunk_Inr:
  assumes "move_chunk staging i dest w = (Inr u, w')" and "\<not> prefix (staged_chunk_path staging i) dest"
  shows "lookup w' dest = lookup w (staged_chunk_path staging i)" and "\<exists>bs. lookup w' dest = Some (FileN bs)"
    and "\<not> prefix q dest \<Longrightarrow> q \<noteq> staged_chunk_path staging i \<Longrightarrow> lookup w' q = lookup w q"
proof -
  let ?s = "staged_chunk_path staging i"
  from assms(1) obtain w1 b w2 w3 where mk: "(if dest \<noteq> [] then fs_create_dir_all (butlast dest) else returnE ()) w = (Inr (), w1)"
      and ex: "(path_exists dest :: (io_error, bool) io) w1 = (Inr b, w2)"
      and rm: "(if b then fs_remove_file dest else returnE ()) w2 = (Inr (), w3)" and rn: "fs_rename ?s dest w3 = (Inr u, w')"
    by (auto simp: move_chunk_def bindE_Inr)
  have "preserves (frame (\<lambda>q. prefix q dest)) (if dest \<noteq> [] then fs_create_dir_all (butlast dest) else returnE ())"
    by (auto intro!: frame_create_dir_all elim: prefix_order.trans intro: prefixeq_butlast)
  from preserves_frameD [OF this mk] have 1: "lookup w1 q = lookup w q" if "\<not> prefix q dest" for q
    using that by blast
  have 2: "lookup w2 = lookup w1"
    by (rule frame_all_lookup [OF frame_path_tests(2) ex])
  have "preserves (frame (\<lambda>q. q = dest)) (if b then fs_remove_file dest else returnE ())"
    by (auto intro!: frame_remove_file)
  from preserves_frameD [OF this rm] have 3: "lookup w3 q = lookup w2 q" if "q \<noteq> dest" for q
    using that by blast
  have 4: "lookup w' q = lookup w3 q" if "q \<noteq> dest" "q \<noteq> ?s" for q
    using preserves_frameD [OF frame_rename [of "\<lambda>q. q = dest \<or> q = ?s"] rn, of q] that by simp
  have 5: "\<exists>bs. lookup w3 ?s = Some (FileN bs) \<and> lookup w' dest = Some (FileN bs)"
    using rn by (auto simp: fs_rename_def syscall_def no_effect_def split: list.splits option.splits node.splits if_splits prod.splits)
  have "lookup w3 ?s = lookup w ?s"
    using 1 [of ?s] 2 3 [of ?s] assms(2) by auto
  with 5 show "lookup w' dest = lookup w ?s" "\<exists>bs. lookup w' dest = Some (FileN bs)"
    by auto
  show "lookup w' q = lookup w q" if "\<not> prefix q dest" "q \<noteq> ?s"
    using 1 [of q] 2 3 [of q] 4 [of q] that by auto
qed

lemma staged_not_chunk:
  assumes "staging = staging_base root @ [name]"
  shows "\<not> prefix (staged_chunk_path staging i) (chunk_path (for_share root sid) j)" and "\<not> prefix staging (chunk_path (for_share root sid) j)"
  by (simp_all add: assms staged_chunk_path_def staging_base_def chunk_path_def chunks_dir_def share_dir_def library_dir_def etle_dir_def for_share_def)

lemma staging_apart_share:
  assumes "staging = staging_base root @ [name]" and "share_area (for_share root sid) q"
  shows "\<not> prefix staging q"
proof
  assume st: "prefix staging q"
  from assms(2) consider "prefix (share_dir (for_share root sid)) q" | "prefix q (share_dir (for_share root sid))"
    by (auto simp: share_area_def)
  then have "prefix staging (share_dir (for_share root sid)) \<or> prefix (share_dir (for_share root sid)) staging"
    using st prefix_same_cases prefix_order.trans by cases blast+
  then show False
    by (simp add: assms(1) staging_base_def share_dir_def library_dir_def etle_dir_def for_share_def)
qed

lemma chunk_path_prefix [simp]: "prefix (chunk_path P i) (chunk_path P j) \<longleftrightarrow> i = j"
  by (auto simp: chunk_path_def word_unat_eq_iff)

lemma move_chunks_Inr:
  assumes "forE metas (\<lambda>meta. intoE NetIo (move_chunk staging (cm_index meta) (chunk_path P (cm_index meta)))) w = (Inr u, w')"
    and "distinct (map cm_index metas)" and "staging = staging_base root @ [name]" and "P = for_share root sid"
  shows "(\<forall>meta \<in> set metas. lookup w' (chunk_path P (cm_index meta)) = lookup w (staged_chunk_path staging (cm_index meta))) \<and>
    (\<forall>q. (\<forall>meta \<in> set metas. q \<noteq> staged_chunk_path staging (cm_index meta) \<and> \<not> prefix q (chunk_path P (cm_index meta))) \<longrightarrow> lookup w' q = lookup w q)"
  using assms(1,2)
proof (induction metas arbitrary: w)
  case (Cons m ms)
  let ?s = "\<lambda>meta. staged_chunk_path staging (cm_index meta)" and ?c = "\<lambda>meta. chunk_path P (cm_index meta)"
  from Cons.prems(1) obtain v w1 where m: "move_chunk staging (cm_index m) (?c m) w = (Inr v, w1)"
      and ms: "forE ms (\<lambda>meta. intoE NetIo (move_chunk staging (cm_index meta) (?c meta))) w1 = (Inr u, w')"
    by (auto simp: bindE_Inr)
  have ap: "\<not> prefix (staged_chunk_path staging i) (chunk_path P j)" for i j
    using staged_not_chunk(1) [OF assms(3)] assms(4) by simp
  note mv = move_chunk_Inr [OF m ap]
  have IH: "\<And>meta. meta \<in> set ms \<Longrightarrow> lookup w' (?c meta) = lookup w1 (?s meta)"
      "\<And>q. (\<And>meta. meta \<in> set ms \<Longrightarrow> q \<noteq> ?s meta \<and> \<not> prefix q (?c meta)) \<Longrightarrow> lookup w' q = lookup w1 q"
    using Cons.IH [OF ms] Cons.prems(2) by auto
  have new: "cm_index meta \<noteq> cm_index m" if "meta \<in> set ms" for meta
    using Cons.prems(2) that by (metis distinct.simps(2) image_eqI list.simps(9) set_map)
  have "lookup w' (?c meta) = lookup w (?s meta)" if "meta \<in> set ms" for meta
    using IH(1) [OF that] mv(3) [OF ap] new [OF that] by simp
  moreover have "lookup w' (?c m) = lookup w1 (?c m)"
    using new ap by (intro IH(2)) (metis chunk_path_prefix prefix_order.refl)
  moreover have "lookup w' q = lookup w q" if "\<forall>meta \<in> set (m # ms). q \<noteq> ?s meta \<and> \<not> prefix q (?c meta)" for q
    using IH(2) [of q] mv(3) [of q] that by simp
  ultimately show ?case
    using mv(1) by simp
qed simp

subsection \<open>The whole operation\<close>

lemma dropping_Inr:
  assumes "dropping dir m w = (Inr x, w')"
  obtains w1 where "m w = (Inr x, w1)" "\<And>q. \<not> prefix dir q \<Longrightarrow> lookup w' q = lookup w1 q"
proof -
  obtain r w1 y w2 where m: "m w = (r, w1)" and rm: "fs_remove_dir_all dir w1 = (y, w2)"
    by (metis surj_pair)
  with assms have "r = Inr x" "w2 = w'"
    by (simp_all add: dropping_def)
  then show ?thesis
    using that m preserves_frameD [OF frame_remove_dir_all [of dir "prefix dir"] rm] by blast
qed

lemma sealed_plain:
  assumes "aead_ok D" and "sealed_at D key fid w (chunk_path P (pc_index c)) c meta"
  shows "plain_of D P fid key w meta = Some (pc_data c)"
proof -
  obtain ct where e: "encrypts D key fid c (meta, \<lparr>ec_index = pc_index c, ec_data = ct\<rparr>)" and l: "lookup w (chunk_path P (pc_index c)) = Some (FileN ct)"
    using assms(2) by (auto simp: sealed_at_def)
  have "decrypt_chunk D key (cm_nonce meta) ct (build_chunk_aad fid (pc_index c) (of_nat (length (pc_data c)))) = Inr (pc_data c)"
    using decrypt_encrypt_chunk [OF assms(1)] e by (simp add: encrypts_def)
  then show ?thesis
    using e l by (simp add: plain_of_def encrypts_def)
qed

lemma sealed_length: "aead_ok D \<Longrightarrow> sealed_at D key fid w p c meta \<Longrightarrow> length (stored_bytes w p) = length (pc_data c) + 16"
  by (auto simp: sealed_at_def encrypts_def stored_bytes_def dest: length_encrypt_chunk)

lemma input_not_staging:
  "outside_library root p \<Longrightarrow> staging = staging_base root @ [name] \<Longrightarrow> \<not> prefix p staging \<and> \<not> prefix staging p"
  using prefix_same_cases [of p staging "root @ [''.etle'']"] prefix_order.trans [of "root @ [''.etle'']" staging p]
  by (auto simp: outside_library_def staging_base_def)

text \<open>
  The last part of \<open>add\<close>: the files of the share are written, the staged chunks are moved into it, and the staging directory
  goes away. Sealed chunks can then be read in the library, and the files of the share stay as they were written.
\<close>

lemma staged_into_library:
  assumes st: "staging = staging_base root @ [name]" and P: "P = for_share root (d_share_id d)"
    and li: "library_init L root d key mode out_dir w5 = (Inr Q, w6)"
    and mv: "forE metas (\<lambda>meta. intoE NetIo (move_chunk staging (cm_index meta) (chunk_path P (cm_index meta)))) w6 = (Inr u, w8)"
    and dist: "distinct (map cm_index metas)" and gone: "\<And>q. \<not> prefix staging q \<Longrightarrow> lookup w' q = lookup w8 q"
  shows "\<And>c meta. sealed_at D key fid w5 (staged_chunk_path staging (pc_index c)) c meta \<Longrightarrow> meta \<in> set metas \<Longrightarrow>
      sealed_at D key fid w' (chunk_path P (pc_index c)) c meta"
    and "\<And>q. q = descriptor_path P \<or> q = secret_path P \<Longrightarrow> lookup w' q = lookup w6 q"
proof -
  note moved = move_chunks_Inr [OF mv dist st P]
  fix c meta assume s: "sealed_at D key fid w5 (staged_chunk_path staging (pc_index c)) c meta" and m: "meta \<in> set metas"
  have "lookup w' (chunk_path P (pc_index c)) = lookup w8 (chunk_path P (pc_index c))"
    unfolding P by (rule gone) (rule staged_not_chunk(2) [OF st])
  also have "\<dots> = lookup w6 (staged_chunk_path staging (pc_index c))"
    using moved m sealed_index [OF s] by auto
  also have "\<dots> = lookup w5 (staged_chunk_path staging (pc_index c))"
    using preserves_frameD [OF frame_library_init li] staging_apart_share [OF st, of "d_share_id d"] by (metis prefixI staged_chunk_path_def)
  finally show "sealed_at D key fid w' (chunk_path P (pc_index c)) c meta"
    using s by (rule sealed_at_lookup)
next
  fix q assume q: "q = descriptor_path P \<or> q = secret_path P"
  then have "share_area P q"
    by (auto simp: share_area_def path_defs)
  then have "\<not> prefix staging q"
    unfolding P by (rule staging_apart_share [OF st])
  moreover have "\<not> prefix q (chunk_path P i)" "q \<noteq> staged_chunk_path staging i" for i
    using q calculation by (auto simp: path_defs P staged_chunk_path_def)
  ultimately show "lookup w' q = lookup w6 q"
    using gone move_chunks_Inr [OF mv dist st P] by auto
qed

text \<open>What a successful \<open>add\<close> leaves behind, whatever failed on the way.\<close>

lemma add_Inr:
  assumes "add E arrival p cs root w = (Inr d, w')" and "outside_library root p"
    and "\<And>xs. mset (arrival xs) = mset xs" and "aead_ok (e_deps E)"
  obtains bs m key plain b c where "lookup w p = Some (FileN bs)" "d = descriptor_from_manifest (e_deps E) m"
    "m_file_id m = hash_file_id (e_deps E) bs" "m_file_size m = of_nat (length bs)" "m_chunk_size m = of_nat cs"
    "indexed plain" "concat (map pc_data plain) = bs" "map cm_index (m_chunks m) = map pc_index plain"
    "map (plain_of (e_deps E) (for_share root (d_share_id d)) (m_file_id m) key w') (m_chunks m) = map (Some \<circ> pc_data) plain"
    "descriptor_to_bytes (lc_descriptor (e_lib E)) d = Inr b" "lookup w' (descriptor_path (for_share root (d_share_id d))) = Some (FileN b)"
    "secret_to_bytes (lc_secret (e_lib E)) \<lparr>es_share_id = d_share_id d, es_file_key = key\<rparr> = Inr c"
    "lookup w' (secret_path (for_share root (d_share_id d))) = Some (FileN c)"
    "\<forall>meta \<in> set (m_chunks m). length (stored_bytes w' (chunk_path (for_share root (d_share_id d)) (cm_index meta))) \<le> cs + 16"
proof -
  let ?D = "e_deps E" and ?P = "for_share root (d_share_id d)"
  from assms(1) obtain key w1 where k: "generate_file_key w = (Inr key :: network_error + symmetric_key, w1)"
      and ad: "add_streaming E arrival p key cs root w1 = (Inr d, w')"
    by (auto simp: add_def bindE_Inr)
  from ad have cs: "0 < cs"
    by (auto simp: add_streaming_def split: if_splits)
  from ad obtain fid w2 md w3 staging w4 where hf: "hash_file ?D p w1 = (Inr fid, w2)" and md: "fs_metadata p w2 = (Inr md, w3)"
      and sd: "staged_chunk_dir_create root w3 = (Inr staging, w4)"
      and dr: "dropping staging (add_staged E arrival p key cs root fid (case md of FileMeta n \<Rightarrow> n | DirMeta \<Rightarrow> 0) staging) w4 = (Inr d, w')"
    using cs by (auto simp: add_streaming_def bindE_Inr Let_def)
  obtain w8 where body: "add_staged E arrival p key cs root fid (case md of FileMeta n \<Rightarrow> n | DirMeta \<Rightarrow> 0) staging w4 = (Inr d, w8)"
      and gone: "\<And>q. \<not> prefix staging q \<Longrightarrow> lookup w' q = lookup w8 q"
    by (rule dropping_Inr [OF dr]) blast
  from body obtain metas w5 m w6 P u where en: "encrypt_file_to_staging_parallel ?D arrival p fid key cs staging w4 = (Inr metas, w5)"
      and m: "m = \<lparr>m_file_id = fid, m_file_name = manifest_file_name p, m_file_size = (case md of FileMeta n \<Rightarrow> n | DirMeta \<Rightarrow> 0),
              m_chunk_size = of_nat cs, m_chunks = metas\<rparr>" and d: "d = descriptor_from_manifest ?D m"
      and li: "library_init (e_lib E) root d key Seeding None w5 = (Inr P, w6)"
      and mv: "forE metas (\<lambda>meta. intoE NetIo (move_chunk staging (cm_index meta) (chunk_path P (cm_index meta)))) w6 = (Inr u, w8)"
    by (auto simp: add_staged_def bindE_Inr Let_def)
  obtain name where st: "staging = staging_base root @ [name]" and sd': "\<And>q. \<not> prefix q staging \<Longrightarrow> lookup w4 q = lookup w3 q"
    by (rule staged_chunk_dir_create_Inr [OF sd]) blast
  obtain bs plain where en': "lookup w4 p = Some (FileN bs)" "concat (map pc_data plain) = bs" "indexed plain"
      and short: "\<forall>c \<in> set plain. length (pc_data c) \<le> cs"
      and sealed: "list_all2 (\<lambda>c meta. sealed_at ?D key fid w5 (staged_chunk_path staging (pc_index c)) c meta) plain metas"
    by (rule encrypt_to_staging_Inr [OF en assms(3) cs])
  have w1: "lookup w1 = lookup w"
    using k by (auto simp: generate_file_key_def fill_bytes_def bindE_def lookup_def)
  have w2: "lookup w2 = lookup w1" "lookup w3 = lookup w2"
    using frame_all_lookup [OF frame_hash_file hf] fs_metadata_Inr [OF md] by simp_all
  have bs: "lookup w p = Some (FileN bs)"
    using en'(1) sd' [of p] input_not_staging [OF assms(2) st] w1 w2 by simp
  have fid: "fid = hash_file_id ?D bs"
    using hash_file_Inr [OF hf] bs w1 by (metis node.inject option.inject)
  have size: "(case md of FileMeta n \<Rightarrow> n | DirMeta \<Rightarrow> 0) = of_nat (length bs)"
    using md bs w1 w2 by (auto simp: fs_metadata_def syscall_def split: list.splits option.splits node.splits if_splits prod.splits)
  have P: "P = ?P"
    using library_init_Inr(1) [OF li] .
  have ix: "map cm_index metas = map pc_index plain"
    using sealed by (induction rule: list_all2_induct) (auto dest: sealed_index)
  then have dist: "distinct (map cm_index metas)"
    using indexed_distinct [OF en'(3)] by simp
  note staged = staged_into_library [OF st P li mv dist gone]
  have "map (plain_of ?D ?P fid key w') metas = map (Some \<circ> pc_data) plain"
    using sealed sealed_plain [OF assms(4) staged(1)] P by (intro nth_equalityI) (auto simp: list_all2_conv_all_nth)
  moreover have "length (stored_bytes w' (chunk_path ?P (cm_index meta))) \<le> cs + 16" if meta: "meta \<in> set metas" for meta
  proof -
    obtain c where "c \<in> set plain" "sealed_at ?D key fid w5 (staged_chunk_path staging (pc_index c)) c meta"
      using list_all2_member [OF sealed meta] by blast
    with sealed_length [OF assms(4) staged(1) [OF _ this(2) meta]] short show ?thesis
      by (simp add: P sealed_index)
  qed
  ultimately show ?thesis
    using that [of bs m plain key] bs d m fid size en' ix library_init_Inr(2,3) [OF li] staged(2) P by auto
qed

subsection \<open>What adding a file leaves alone\<close>

context world_order
begin

lemma pres_bind_result:
  assumes "preserves R m" and "\<And>w x w'. m w = (Inr x, w') \<Longrightarrow> preserves R (f x)"
  shows "preserves R (bindE m f)"
  unfolding preserves_def
proof
  fix w
  obtain r w' where m: "m w = (r, w')"
    by fastforce
  then have w': "R w w'"
    using assms(1) by (metis preserves_def snd_conv)
  show "R w (snd (bindE m f w))"
  proof (cases r)
    case (Inr x)
    with m have "R w' (snd (f x w'))"
      using assms(2) by (simp add: preserves_def)
    then show ?thesis
      using m Inr w' R_trans by simp
  qed (use m w' in simp)
qed

end

text \<open>The part of the file system below the directory \<open>.etle\<close> of a library, and the directories above it.\<close>

definition etle_area :: "path \<Rightarrow> path \<Rightarrow> bool" where
  "etle_area root q \<longleftrightarrow> prefix (root @ [''.etle'']) q \<or> prefix q (root @ [''.etle''])"

lemma etle_area_outside: "outside_library root q \<longleftrightarrow> \<not> etle_area root q"
  by (auto simp: outside_library_def etle_area_def)

lemma etle_area_prefix: "prefix (root @ [''.etle'']) p \<Longrightarrow> prefix q p \<Longrightarrow> etle_area root q"
  unfolding etle_area_def using prefix_same_cases by blast

lemma etle_area_below: "prefix (root @ [''.etle'']) p \<Longrightarrow> prefix p q \<Longrightarrow> etle_area root q"
  unfolding etle_area_def using prefix_order.trans by blast

lemma share_area_etle: "share_area (for_share root sid) q \<Longrightarrow> etle_area root q"
  using outside_share [of "for_share root sid" q] by (auto simp: etle_area_outside for_share_def)

lemma pres_dropping:
  assumes "preserves (frame F) m" and "\<And>q. prefix dir q \<Longrightarrow> F q"
  shows "preserves (frame F) (dropping dir m)"
  unfolding preserves_def
proof
  fix w
  obtain r w1 y w2 where m: "m w = (r, w1)" and rm: "fs_remove_dir_all dir w1 = (y, w2)"
    by (metis surj_pair)
  have "frame F w w1" "frame F w1 w2"
    using assms(1) frame_remove_dir_all [of dir F] assms(2) m rm unfolding preserves_def by (metis snd_conv)+
  then show "frame F w (snd (dropping dir m w))"
    using m rm frame.R_trans by (simp add: dropping_def)
qed

lemma frame_stage_chunk: "prefix (root @ [''.etle'']) staging \<Longrightarrow> preserves (frame (etle_area root)) (stage_chunk D fid key staging c)"
  unfolding stage_chunk_def encrypt_seed_chunk_def staged_write_chunk_def generate_nonce_def Let_def
  by (intro frame.pres_bind frame.pres_into frame_write)
    (auto intro: etle_area_below simp: staged_chunk_path_def)

lemma frame_encrypt_to_staging:
  assumes "prefix (root @ [''.etle'']) staging"
  shows "preserves (frame (etle_area root)) (encrypt_file_to_staging_parallel D arrival p fid key cs staging)"
proof -
  have "preserves (frame (etle_area root)) (\<lambda>w. case read_seed_chunks cs 0 [] input w of (r, w') \<Rightarrow> (Inr r :: network_error + _, w'))" for input
    using read_seed_chunks_lookup [of cs 0 "[]" input] by (simp add: preserves_def frame_def split: prod.split) (metis snd_conv)
  then show ?thesis
    unfolding encrypt_file_to_staging_parallel_def
    by (intro frame.pres_bind frame.pres_into) (auto intro!: frame.pres_bind frame.pres_try frame.pres_map frame_stage_chunk [OF assms] split: option.split)
qed

lemma frame_move_chunk:
  assumes "prefix (root @ [''.etle'']) staging" and "prefix (root @ [''.etle'']) dest"
  shows "preserves (frame (etle_area root)) (move_chunk staging i dest)"
  unfolding move_chunk_def
  using assms by (auto intro!: frame.pres_bind frame_create_dir_all frame_remove_file frame_rename
      intro: etle_area_below etle_area_prefix prefix_order.trans [OF _ prefixeq_butlast] simp: staged_chunk_path_def)

lemma frame_add: "preserves (frame (etle_area root)) (add E arrival p cs root)"
proof -
  have init: "preserves (frame (etle_area root)) (library_init (e_lib E) root d key Seeding None)" for d key
    by (rule frame_mono [OF frame_library_init share_area_etle])
  have moves: "preserves (frame (etle_area root))
      (bindE (forE metas (\<lambda>meta. intoE NetIo (move_chunk staging (cm_index meta) (chunk_path P (cm_index meta))))) (\<lambda>_. returnE d))"
    if "library_init (e_lib E) root d key Seeding None w = (Inr P, w')" "prefix (root @ [''.etle'']) staging" for metas d P key staging w w'
  proof -
    have "prefix (root @ [''.etle'']) (chunk_path P i)" for i
      using library_init_Inr(1) [OF that(1)]
      by (simp add: chunk_path_def chunks_dir_def share_dir_def library_dir_def etle_dir_def for_share_def)
    then show ?thesis
      by (intro frame.pres_bind frame.pres_for frame.pres_into frame_move_chunk [OF that(2)] frame.pres_return)
  qed
  have staged: "preserves (frame (etle_area root)) (add_staged E arrival p key cs root fid n staging)" if "prefix (root @ [''.etle'']) staging" for key fid n staging
    unfolding add_staged_def Let_def
    by (rule frame.pres_bind [OF frame_encrypt_to_staging [OF that]], rule frame.pres_bind_result [OF frame.pres_into [OF init]], rule moves [OF _ that])
      (simp only: intoE_Inr)
  have created: "preserves (frame (etle_area root)) (staged_chunk_dir_create root)"
    unfolding staged_chunk_dir_create_def Let_def
    by (intro frame.pres_bind frame_create_dir_all frame_create_fresh)
      (auto intro: etle_area_prefix [of _ "root @ [''.etle'', ''staging'']"] etle_area_below [of _ "root @ [''.etle'', ''staging'']"])
  have under: "prefix (root @ [''.etle'']) staging" if "staged_chunk_dir_create root w = (Inr staging, w')" for staging w w'
    by (rule staged_chunk_dir_create_Inr [OF that]) (simp add: staging_base_def)
  have dropped: "preserves (frame (etle_area root)) (dropping staging (add_staged E arrival p key cs root fid n staging))"
    if "staged_chunk_dir_create root w = (Inr staging, w')" for staging w w' key fid n
    by (rule pres_dropping [OF staged [OF under [OF that]]]) (rule etle_area_below [OF under [OF that]])
  have "preserves (frame (etle_area root)) (add_streaming E arrival p key cs root)" for key
    unfolding add_streaming_def Let_def
    by (auto intro!: frame.pres_bind frame.pres_bind_result [OF frame.pres_into [OF created]] intro: dropped)
  then show ?thesis
    unfolding add_def generate_file_key_def by (auto intro!: frame.pres_bind)
qed

section \<open>Properties\<close>

text \<open>The share of an added file can be loaded in every world with the same files; its chunks decrypt to
  the pieces of the file.\<close>

lemma added_share_loads:
  assumes "add E arrival p cs root w = (Inr d, w')" and "outside_library root p"
    and "\<And>xs. mset (arrival xs) = mset xs" and "aead_ok (e_deps E)" and "codecs_ok (e_lib E)"
  obtains bs sh plain where "lookup w p = Some (FileN bs)" 
    "\<And>v. faults v = [] \<Longrightarrow> lookup v = lookup w' \<Longrightarrow> load_share E root (d_share_id d) v = (Inr sh, v)"
    "\<And>v. faults v = [] \<Longrightarrow> lookup v = lookup w' \<Longrightarrow> read_secret (e_lib E) (for_share root (d_share_id d)) v = (Inr (ls_secret sh), v)"
    "ls_paths sh = for_share root (d_share_id d)" "m_file_id (ls_manifest sh) = hash_file_id (e_deps E) bs"
    "m_file_size (ls_manifest sh) = of_nat (length bs)" "ls_available sh = map cm_index (m_chunks (ls_manifest sh))"
    "distinct (map cm_index (m_chunks (ls_manifest sh)))"
    "map (plain_of (e_deps E) (ls_paths sh) (m_file_id (ls_manifest sh)) (es_file_key (ls_secret sh)) w') (m_chunks (ls_manifest sh)) = map Some plain"
    "concat plain = bs" "sorted (map cm_index (m_chunks (ls_manifest sh)))" "ls_descriptor sh = d" "d = descriptor_from_manifest (e_deps E) (ls_manifest sh)"
    "\<forall>meta \<in> set (d_chunks d). length (stored_bytes w' (chunk_path (ls_paths sh) (cm_index meta))) \<le> cs + 16"
proof -
  let ?D = "e_deps E" and ?P = "for_share root (d_share_id d)"
  obtain bs m key plain b c where f: "lookup w p = Some (FileN bs)" and d: "d = descriptor_from_manifest ?D m"
      and m: "m_file_id m = hash_file_id ?D bs" "m_file_size m = of_nat (length bs)"
      and plain: "indexed plain" "concat (map pc_data plain) = bs" "map cm_index (m_chunks m) = map pc_index plain"
      and po: "map (plain_of ?D ?P (m_file_id m) key w') (m_chunks m) = map (Some \<circ> pc_data) plain"
      and b: "descriptor_to_bytes (lc_descriptor (e_lib E)) d = Inr b" "lookup w' (descriptor_path ?P) = Some (FileN b)"
      and c: "secret_to_bytes (lc_secret (e_lib E)) \<lparr>es_share_id = d_share_id d, es_file_key = key\<rparr> = Inr c" "lookup w' (secret_path ?P) = Some (FileN c)"
      and short: "\<forall>meta \<in> set (m_chunks m). length (stored_bytes w' (chunk_path ?P (cm_index meta))) \<le> cs + 16"
    by (rule add_Inr [OF assms(1-4)])
  have P: "lp_share_id ?P = d_share_id d" "lp_root ?P = root"
    by (simp_all add: for_share_def)
  have verified: "chunk_verified ?D ?P w' meta" if "meta \<in> set (m_chunks m)" for meta
  proof -
    have "plain_of ?D ?P (m_file_id m) key w' meta \<in> set (map (Some \<circ> pc_data) plain)"
      unfolding po [symmetric] using that by simp
    then show ?thesis
      by (intro plain_verified [of _ _ "m_file_id m" key]) auto
  qed
  let ?sh = "\<lparr>ls_paths = ?P, ls_descriptor = d, ls_secret = \<lparr>es_share_id = d_share_id d, es_file_key = key\<rparr>,
      ls_manifest = m, ls_available = map cm_index (m_chunks m)\<rparr>"
  have rs: "read_secret (e_lib E) ?P v = (Inr (ls_secret ?sh), v)" if "faults v = []" "lookup v = lookup w'" for v
    using read_secret_back [OF assms(5) that(1) _ c(1)] P c(2) that(2) by simp
  have "load_share E root (d_share_id d) v = (Inr ?sh, v)" if v: "faults v = []" "lookup v = lookup w'" for v
  proof -
    have "available_chunk_indexes ?D ?P d v = (Inr (map cm_index (m_chunks m)), v)"
      using available_calm [OF v(1)] verified v(2) by (simp add: d descriptor_from_manifest_def descriptor_new_def chunk_verified_def)
    moreover have "read_descriptor ?D (e_lib E) ?P v = (Inr d, v)"
      using read_descriptor_back [OF assms(5) v(1) _ P(1) b(1)] P d descriptor_from_manifest_verifies b(2) v(2) by simp
    ultimately show ?thesis
      using rs [OF v] manifest_descriptor_manifest [of ?D m] by (simp add: load_share_def Let_def io_simps d)
  qed
  moreover have "distinct (map cm_index (m_chunks m))" "sorted (map cm_index (m_chunks m))"
    using plain(3) indexed_distinct [OF plain(1)] indexed_sorted [OF plain(1)] by simp_all
  ultimately show ?thesis
    using f m d po plain(2) rs short
    by (intro that [of bs ?sh "map pc_data plain"]) (simp_all add: descriptor_from_manifest_def descriptor_new_def)
qed

text \<open>C25: when \<open>add\<close> has returned a descriptor, whatever failed on the way and in whatever order the
  threads finished, the share can be served: loading it gives a manifest with the hash and the length of
  the input file, every chunk of it is available, and reconstructing it with the stored key writes the
  contents of the input file.\<close>

theorem added_file_can_be_served:
  assumes "add E arrival p cs root w = (Inr d, w')" and "outside_library root p"
    and "\<And>xs. mset (arrival xs) = mset xs" and "\<And>xs. mset (e_arrival E xs) = mset xs"
    and "aead_ok (e_deps E)" and "codecs_ok (e_lib E)" and "faults w' = []"
    and "outside_library root target" and "creatable w' target"
  shows "\<exists>bs sh w''. lookup w p = Some (FileN bs) \<and> load_share E root (d_share_id d) w' = (Inr sh, w') \<and>
    m_file_id (ls_manifest sh) = hash_file_id (e_deps E) bs \<and> m_file_size (ls_manifest sh) = of_nat (length bs) \<and>
    ls_available sh = map cm_index (m_chunks (ls_manifest sh)) \<and>
    decrypt_library_chunks_to_file E (ls_paths sh) (ls_manifest sh) (es_file_key (ls_secret sh)) target w' = (Inr (), w'') \<and>
    lookup w'' target = Some (FileN bs)"
proof -
  let ?D = "e_deps E"
  obtain bs sh plain where f: "lookup w p = Some (FileN bs)" and load: "\<And>v. faults v = [] \<Longrightarrow> lookup v = lookup w' \<Longrightarrow> load_share E root (d_share_id d) v = (Inr sh, v)"
      and sh: "ls_paths sh = for_share root (d_share_id d)" "m_file_id (ls_manifest sh) = hash_file_id ?D bs"
        "m_file_size (ls_manifest sh) = of_nat (length bs)" "ls_available sh = map cm_index (m_chunks (ls_manifest sh))"
        "distinct (map cm_index (m_chunks (ls_manifest sh)))"
      and data: "map (plain_of ?D (ls_paths sh) (m_file_id (ls_manifest sh)) (es_file_key (ls_secret sh)) w') (m_chunks (ls_manifest sh)) = map Some plain"
        "concat plain = bs"
    by (rule added_share_loads [OF assms(1-3,5,6)]) (rule that, assumption+)
  have ap: "apart (ls_paths sh) target (m_chunks (ls_manifest sh))"
    using outside_chunks [of "ls_paths sh" target] assms(8) sh(1) by (simp add: for_share_def)
  have hash: "hash_file_id ?D (concat plain) = m_file_id (ls_manifest sh)"
    using data(2) sh(2) by simp
  obtain w'' where "decrypt_library_chunks_to_file E (ls_paths sh) (ls_manifest sh) (es_file_key (ls_secret sh)) target w' = (Inr (), w'')"
      "lookup w'' target = Some (FileN bs)"
    using reconstruct_sequential [OF assms(7,9) ap data(1) hash] sh(5) data(2)
      reconstruct_parallel [where arrival = "e_arrival E", OF assms(7,9) _ ap assms(4) data(1) hash]
    unfolding decrypt_library_chunks_to_file_def
    by (cases "default_decrypt_worker_count (e_cores E) (length (m_chunks (ls_manifest sh))) \<le> 1") auto
  with f load [OF assms(7) refl] sh show ?thesis
    by blast
qed

text \<open>A file of one byte added to an empty library.\<close>

definition seeded_manifest :: manifest where
  "seeded_manifest = (let ct = 7 # sample_tag 0 0 (build_chunk_aad (hash_file_id sample_deps [7]) 0 1) in
     \<lparr>m_file_id = hash_file_id sample_deps [7], m_file_name = ''f'', m_file_size = 1, m_chunk_size = 4,
      m_chunks = [\<lparr>cm_index = 0, cm_plain_size = 1, cm_encrypted_size = 17, cm_nonce = Nonce 0, cm_hash = hash_chunk sample_deps ct\<rparr>]\<rparr>)"

definition seeded_descriptor :: etle_descriptor where
  "seeded_descriptor = descriptor_from_manifest sample_deps seeded_manifest"

definition seeded_progress :: download_progress where
  "seeded_progress = progress_new (d_share_id seeded_descriptor) [0]"

definition seeded_codecs :: library_codecs where
  "seeded_codecs = \<lparr>lc_descriptor = single_bincode seeded_descriptor,
     lc_secret = single_bincode \<lparr>es_share_id = d_share_id seeded_descriptor, es_file_key = SymmetricKey 0\<rparr>,
     lc_states = \<lparr>sc_progress = listed_bincode [compact_from_progress seeded_progress], sc_legacy_progress = listed_bincode [],
       sc_state = listed_bincode [compact_from_state (share_state_from_progress Seeding None seeded_progress)], sc_legacy_state = listed_bincode []\<rparr>\<rparr>"

definition seeded_env :: transfer_env where
  "seeded_env = sample_env [] seeded_codecs"

definition seeded_world :: world where
  "seeded_world = empty_world\<lparr>nodes := [([''f''], FileN [7])], rng := \<lambda>_. 0\<rparr>"

lemma seeded_encodes:
  "\<exists>b. descriptor_to_bytes (lc_descriptor seeded_codecs) seeded_descriptor = Inr b"
  "\<exists>b. secret_to_bytes (lc_secret seeded_codecs) \<lparr>es_share_id = d_share_id seeded_descriptor, es_file_key = SymmetricKey 0\<rparr> = Inr b"
  "\<exists>b. encode_progress (lc_states seeded_codecs) seeded_progress = Inr b"
  "\<exists>b. encode_state (lc_states seeded_codecs) (share_state_from_progress Seeding None seeded_progress) = Inr b"
  by (auto simp: descriptor_to_bytes_def secret_to_bytes_def encode_progress_def encode_state_def encode_with_magic_def encode_whole_def
      seeded_codecs_def single_bincode_def listed_bincode_def)

lemma zero_bytes [simp]: "from_be_bytes (replicate n 0) = (0 :: 'a::len word)"
proof -
  have "le_nat (replicate n 0) = 0"
    by (induction n) simp_all
  then show ?thesis by (simp add: from_be_bytes_def)
qed

definition seeded_start :: world where
  "seeded_start = seeded_world\<lparr>rng_pos := 32\<rparr>"

definition seeded_staging :: path where
  "seeded_staging = staging_base [''r''] @ [fresh_name ''seed-'' 1 0 0]"

definition seeded_staged :: world where
  "seeded_staged = set_node seeded_staging DirN (make_dirs (staging_base [''r'']) seeded_start\<lparr>clock_pos := 1\<rparr>)"

definition seeded_cipher :: bytes where
  "seeded_cipher = 7 # sample_tag 0 0 (build_chunk_aad (hash_file_id sample_deps [7]) 0 1)"

definition seeded_encrypted :: world where
  "seeded_encrypted = set_node (staged_chunk_path seeded_staging 0) (FileN seeded_cipher) (seeded_staged\<lparr>rng_pos := 56\<rparr>)"

lemma seeded_key: "generate_file_key seeded_world = (Inr (SymmetricKey 0) :: network_error + symmetric_key, seeded_start)"
  by (simp add: generate_file_key_def fill_bytes_def bindE_def seeded_start_def seeded_world_def empty_world_def map_replicate_const)

lemma seeded_start_fields:
  "faults seeded_start = []" "read_caps seeded_start = []" "rng seeded_start = (\<lambda>_. 0)" "rng_pos seeded_start = 32"
  "clock seeded_start = (\<lambda>n. n)" "clock_pos seeded_start = 0" "pid seeded_start = 1"
  "lookup seeded_start q = (if q = [''f''] then Some (FileN [7]) else None)"
  by (simp_all add: seeded_start_def seeded_world_def empty_world_def lookup_def)

lemma seeded_hash:
  "hash_file sample_deps [''f''] seeded_start = (Inr (hash_file_id sample_deps [7]), seeded_start)"
  "fs_metadata [''f''] seeded_start = (Inr (FileMeta 1), seeded_start)"
  by (simp_all add: hash_file_def fs_open_def fs_read_def seeded_start_fields io_simps hash_file_loop.simps file_read_def Let_def fs_metadata_def
      hash_file_id_def hash_bytes_def)

lemma seeded_create: "staged_chunk_dir_create [''r''] seeded_start = (Inr seeded_staging, seeded_staged)"
proof -
  let ?w1 = "make_dirs (staging_base [''r'']) seeded_start"
  have mk: "fs_create_dir_all (staging_base [''r'']) seeded_start = (Inr (), ?w1)"
    by (rule create_dir_all_runs) (auto simp: seeded_start_fields is_file_def staging_base_def)
  have pid: "pid ?w1 = 1"
    unfolding make_dirs_def by (subst ensure_dirs_only_nodes) (simp add: seeded_start_fields)
  have look: "lookup ?w1 (staging_base [''r''] @ [name]) = None" "is_dir ?w1 (staging_base [''r''])" for name
    by (auto simp: lookup_made seeded_start_fields is_dir_def staging_base_def)
  have "create_fresh_loop (staging_base [''r'']) ''seed-'' 0 ?w1 = (Inr seeded_staging, seeded_staged)"
    using look pid by (subst create_fresh_loop.simps)
      (simp add: clock_now_def fs_create_dir_def exists_path_def is_dir_def seeded_staging_def seeded_staged_def seeded_start_fields staging_base_def Let_def)
  then show ?thesis
    using mk by (simp add: staged_chunk_dir_create_def Let_def io_simps staging_base_def)
qed

lemma sample_encrypt: "encrypt_chunk sample_deps (SymmetricKey k) (Nonce n) m a = Inr (m @ sample_tag k n a)"
  by (simp add: sample_deps_def)

lemma length_sample_tag [simp]: "length (sample_tag k n a) = 16"
  by (simp add: sample_tag_def)

lemma seeded_encrypt:
  "encrypt_file_to_staging_parallel sample_deps rev [''f''] (hash_file_id sample_deps [7]) (SymmetricKey 0) 4 seeded_staging seeded_staged =
     (Inr (m_chunks seeded_manifest), seeded_encrypted)"
proof -
  have w: "faults seeded_staged = []" "read_caps seeded_staged = []" "rng seeded_staged = (\<lambda>_. 0)" "rng_pos seeded_staged = 32"
      "lookup seeded_staged [''f''] = Some (FileN [7])" "lookup seeded_staged seeded_staging = Some DirN"
    by (simp_all add: seeded_staged_def seeded_start_fields lookup_made) (simp add: seeded_staging_def staging_base_def)
  have nf: "staged_chunk_path seeded_staging 0 \<noteq> []" "butlast (staged_chunk_path seeded_staging 0) = seeded_staging"
    by (simp_all add: staged_chunk_path_def)
  have none: "lookup seeded_staged (staged_chunk_path seeded_staging 0) = None"
    by (simp add: seeded_staged_def seeded_start_fields lookup_made staged_chunk_path_def) (simp add: seeded_staging_def staging_base_def)
  have rd: "read_seed_chunks 4 0 [] [7] seeded_staged = (([\<lparr>pc_index = 0, pc_data = [7]\<rparr>], None), seeded_staged)"
    by (simp add: read_seed_chunks.simps file_read_def w checked_add_u32_def)
  let ?m = "m_chunks seeded_manifest ! 0"
  have "map (rng seeded_staged) [32..<56] = replicate 24 0"
    by (simp only: w map_replicate_const length_upt) (simp add: numeral_eq_Suc)
  then have nonce: "generate_nonce seeded_staged = (Inr (Nonce 0) :: network_error + nonce, seeded_staged\<lparr>rng_pos := 56\<rparr>)"
    using zero_bytes [of 24] by (simp add: generate_nonce_def fill_bytes_def io_simps w(4) del: upt_rec_numeral)
  have en: "encrypt_seed_chunk sample_deps (hash_file_id sample_deps [7]) (SymmetricKey 0) \<lparr>pc_index = 0, pc_data = [7]\<rparr> seeded_staged =
      (Inr \<lparr>se_meta = ?m, se_ciphertext = seeded_cipher\<rparr>, seeded_staged\<lparr>rng_pos := 56\<rparr>)"
    using nonce by (simp add: encrypt_seed_chunk_def io_simps seeded_manifest_def seeded_cipher_def Let_def sample_encrypt del: encrypt_chunk.simps)
  have wr: "fs_write (staged_chunk_path seeded_staging 0) seeded_cipher (seeded_staged\<lparr>rng_pos := 56\<rparr>) = (Inr (), seeded_encrypted)"
    using none w nf by (simp add: fs_write_def fs_create_def fs_write_all_def append_file_def io_simps is_dir_def seeded_encrypted_def)
      (simp add: set_node_def update_last)
  have "cm_index ?m = 0" "m_chunks seeded_manifest = [?m]" "sort_key cm_index (m_chunks seeded_manifest) = m_chunks seeded_manifest"
    by (simp_all add: seeded_manifest_def Let_def)
  then show ?thesis
    using rd en wr w by (simp add: encrypt_file_to_staging_parallel_def fs_metadata_def fs_open_def fs_read_def io_simps stage_chunk_def staged_write_chunk_def)
qed

lemma frame_library_init_files:
  assumes "\<And>q. q \<in> {descriptor_path P, secret_path P, progress_path P, state_path P} \<Longrightarrow> \<not> touches q p"
    and "\<not> prefix p (chunks_dir P)" "\<not> prefix p (output_dir P)" and "P = for_share root (d_share_id d)"
    and "library_init L root d key mode out_dir w = (r, w')"
  shows "lookup w' p = lookup w p"
proof -
  have "preserves (frame (\<lambda>q. q \<noteq> p)) (library_init L root d key mode out_dir)"
    unfolding library_init_def Let_def assms(4) [symmetric]
    by (intro frame.pres_bind frame.pres_into frame_create_dir_all frame_mono [OF frame_write_files(1)] frame_mono [OF frame_write_files(2)]
        frame_mono [OF frame_write_files(3)] frame_mono [OF frame_write_files(4)] frame.pres_return) (use assms in auto)
  then show ?thesis
    using assms(5) unfolding preserves_def frame_def by (metis snd_conv)
qed

lemma move_chunk_runs:
  assumes "faults w = []" and "\<And>q. prefix q (butlast dest) \<Longrightarrow> \<not> is_file w q" and "dest \<noteq> []" and "lookup w dest = None"
    and "lookup w (staged_chunk_path staging i) = Some (FileN bs)" and "\<not> prefix (staged_chunk_path staging i) dest"
  shows "\<exists>w'. move_chunk staging i dest w = (Inr (), w') \<and> faults w' = [] \<and> (\<not> is_file w [] \<longrightarrow> \<not> is_file w' [])"
proof -
  let ?w1 = "make_dirs (butlast dest) w" and ?s = "staged_chunk_path staging i"
  have d: "lookup ?w1 dest = None" "is_dir ?w1 (butlast dest)"
    using assms(2,3,4) not_prefix_butlast [OF assms(3)] by (simp_all add: lookup_made is_dir_make_dirs)
  have s: "lookup ?w1 ?s = Some (FileN bs)"
    using assms(5) by (simp add: lookup_made)
  have "path_exists dest ?w1 = (Inr False :: io_error + bool, ?w1)"
    using d(1) assms(1,3) by (simp add: path_exists_nofault exists_path_def)
  moreover have "fs_rename ?s dest ?w1 = (Inr (), if ?s = dest then ?w1 else set_node dest (FileN bs) (del_node ?s ?w1))"
    using d s assms(1,3) by (simp add: fs_rename_def is_dir_def)
  ultimately show ?thesis
    using create_dir_all_runs [OF assms(1,2)] assms(1,3) by (simp add: move_chunk_def io_simps is_file_def lookup_made)
qed

lemma seeded_store:
  "\<exists>w'. add_staged seeded_env rev [''f''] (SymmetricKey 0) 4 [''r''] (hash_file_id sample_deps [7]) 1 seeded_staging seeded_staged = (Inr seeded_descriptor, w') \<and>
     faults w' = [] \<and> \<not> is_file w' []"
proof -
  let ?P = "for_share [''r''] (d_share_id seeded_descriptor)" and ?s = "staged_chunk_path seeded_staging 0"
  note paths = path_defs share_dir_def library_dir_def etle_dir_def for_share_def seeded_staging_def staging_base_def staged_chunk_path_def
  have look: "lookup seeded_encrypted q = (if q = ?s then Some (FileN seeded_cipher) else if q = seeded_staging then Some DirN else
      if q = [''f''] then Some (FileN [7]) else if q \<noteq> [] \<and> prefix q (staging_base [''r'']) then Some DirN else None)" for q
    by (simp add: seeded_encrypted_def seeded_staged_def lookup_made seeded_start_fields)
  have fa: "faults seeded_encrypted = []"
    by (simp add: seeded_encrypted_def seeded_staged_def seeded_start_fields)
  have none: "lookup seeded_encrypted q = None" if "prefix (library_dir ?P) q" for q
    using that unfolding look by (auto simp: paths prefix_def)
  have dirs: "\<not> is_file seeded_encrypted q" if "prefix q (share_dir ?P)" for q
    using that unfolding look is_file_def by (auto simp: paths)
  have ready: "share_ready ?P seeded_encrypted"
    using fa dirs none by (simp add: share_ready_def clean_dir_def is_file_def is_dir_def paths)
  have pr: "seeded_progress = (if Seeding = Seeding \<or> Seeding = Completed then progress_new (d_share_id seeded_descriptor) (map cm_index (d_chunks seeded_descriptor))
      else progress_empty (d_share_id seeded_descriptor))"
    by (simp add: seeded_progress_def seeded_descriptor_def descriptor_from_manifest_def descriptor_new_def seeded_manifest_def Let_def)
  obtain b1 b2 b3 b4 where b: "descriptor_to_bytes (lc_descriptor seeded_codecs) seeded_descriptor = Inr b1"
      "secret_to_bytes (lc_secret seeded_codecs) \<lparr>es_share_id = d_share_id seeded_descriptor, es_file_key = SymmetricKey 0\<rparr> = Inr b2"
      "encode_progress (lc_states seeded_codecs) seeded_progress = Inr b3"
      "encode_state (lc_states seeded_codecs) (share_state_from_progress Seeding None seeded_progress) = Inr b4"
    using seeded_encodes by blast
  obtain w1 where li: "library_init seeded_codecs [''r''] seeded_descriptor (SymmetricKey 0) Seeding None seeded_encrypted = (Inr ?P, w1)" "share_ready ?P w1"
    using library_init_runs [OF ready b(1,2) pr b(3,4)] by blast
  have "\<not> touches q (chunk_path ?P 0)" if "q \<in> {descriptor_path ?P, secret_path ?P, progress_path ?P, state_path ?P}" for q
    using that by (elim insertE emptyE; simp add: touches_def scratch_of_def path_defs)
  then have "lookup w1 (chunk_path ?P 0) = lookup seeded_encrypted (chunk_path ?P 0)"
    by (rule frame_library_init_files [OF _ _ _ refl li(1)]) (auto simp: path_defs dest: prefix_length_le)
  then have "lookup w1 (chunk_path ?P 0) = None"
    using none [of "chunk_path ?P 0"] by (simp add: chunk_path_def chunks_dir_def share_dir_def)
  moreover have "lookup w1 ?s = Some (FileN seeded_cipher)"
    using preserves_frameD [OF frame_library_init li(1), of ?s] staging_apart_share [of seeded_staging "[''r'']" _ "d_share_id seeded_descriptor" ?s]
    by (auto simp: look seeded_staging_def staged_chunk_path_def)
  moreover have "\<not> prefix ?s (chunk_path ?P 0)"
    using staged_not_chunk(1) seeded_staging_def by blast
  moreover have "\<not> is_file w1 q" if "prefix q (butlast (chunk_path ?P 0))" for q
  proof -
    have "prefix q (share_dir ?P @ [''chunks''])"
      using that by (simp add: chunk_path_def chunks_dir_def butlast_append)
    then show ?thesis
      using li(2) by (auto simp: share_ready_def clean_dir_def chunks_dir_def)
  qed
  ultimately obtain w2 where mv: "move_chunk seeded_staging 0 (chunk_path ?P 0) w1 = (Inr (), w2)" "faults w2 = []" "\<not> is_file w2 []"
    using move_chunk_runs [of w1 "chunk_path ?P 0" seeded_staging 0 seeded_cipher] li(2) by (auto simp: share_ready_def clean_dir_def)
  obtain c where one: "m_chunks seeded_manifest = [c]" "cm_index c = 0"
    by (simp add: seeded_manifest_def Let_def)
  have m: "seeded_manifest = \<lparr>m_file_id = hash_file_id sample_deps [7], m_file_name = ''f'', m_file_size = 1, m_chunk_size = 4, m_chunks = [c]\<rparr>"
    using one by (simp add: seeded_manifest_def Let_def)
  have "add_staged seeded_env rev [''f''] (SymmetricKey 0) 4 [''r''] (hash_file_id sample_deps [7]) 1 seeded_staging seeded_staged = (Inr seeded_descriptor, w2)"
    using mv(1) seeded_encrypt li(1) one m
    by (simp add: add_staged_def Let_def io_simps seeded_env_def sample_env_def manifest_file_name_def m [symmetric] seeded_descriptor_def [symmetric])
  with mv(2,3) show ?thesis by blast
qed

lemma seeded_run: "\<exists>w'. add seeded_env rev [''f''] 4 [''r''] seeded_world = (Inr seeded_descriptor, w') \<and> faults w' = [] \<and> \<not> is_file w' []"
proof -
  obtain w1 where w1: "add_staged seeded_env rev [''f''] (SymmetricKey 0) 4 [''r''] (hash_file_id sample_deps [7]) 1 seeded_staging seeded_staged = (Inr seeded_descriptor, w1)"
      "faults w1 = []" "\<not> is_file w1 []"
    using seeded_store by blast
  obtain r w2 where rm: "fs_remove_dir_all seeded_staging w1 = (r, w2)"
    by fastforce
  have fold: "faults (fold del_node ps w) = faults w" for ps w
    by (induction ps arbitrary: w) simp_all
  have "faults w2 = []" "\<not> is_file w2 []"
    using rm w1(2,3) by (auto simp: fs_remove_dir_all_def fold is_file_def lookup_del_nodes split: if_split_asm)
  moreover have "add seeded_env rev [''f''] 4 [''r''] seeded_world = (Inr seeded_descriptor, w2)"
    using w1(1) rm seeded_key seeded_hash seeded_create
    by (simp add: add_def add_streaming_def dropping_def Let_def io_simps seeded_env_def sample_env_def)
  ultimately show ?thesis by blast
qed

theorem added_file_can_be_served_witness:
  "\<exists>w' sh. add seeded_env rev [''f''] 4 [''r''] seeded_world = (Inr seeded_descriptor, w') \<and>
     load_share seeded_env [''r''] (d_share_id seeded_descriptor) w' = (Inr sh, w') \<and> m_file_id (ls_manifest sh) = hash_file_id sample_deps [7]"
proof -
  obtain w' where run: "add seeded_env rev [''f''] 4 [''r''] seeded_world = (Inr seeded_descriptor, w')" and f: "faults w' = []" and r: "\<not> is_file w' []"
    using seeded_run by blast
  have E: "e_deps seeded_env = sample_deps" "e_arrival seeded_env = id" "e_lib seeded_env = seeded_codecs"
    by (simp_all add: seeded_env_def sample_env_def)
  have "codecs_ok (e_lib seeded_env)"
    by (simp add: E codecs_ok_def seeded_codecs_def single_bincode_ok listed_bincode_ok)
  moreover have "outside_library [''r''] [''f'']"
    by (simp add: outside_library_def)
  moreover have "lookup w' [''f''] = Some (FileN [7])"
    using preserves_frameD [OF frame_add run, of "[''f'']"] by (simp add: etle_area_def seeded_world_def empty_world_def lookup_def)
  then have "creatable w' [''f'']"
    using r by (simp add: creatable_def is_dir_def)
  ultimately show ?thesis
    using added_file_can_be_served [OF run, of "[''f'']"] run f sample_aead_ok E by (auto simp: seeded_world_def empty_world_def lookup_def)
qed

end
