(* ===== verification/Etle_Swarm.thy ===== *)
theory Etle_Swarm
  imports Etle_Complete
begin

text \<open>
  \<open>from_peers_parallel\<close> of \<open>src/network/transfer/download.rs\<close>: several workers, one per connected peer,
  take chunk indexes from a shared queue. The shared state is what the mutexes of the source guard: the
  queue, the set of completed chunks and the state of the library; the file system and the clock are
  shared too, and each worker has its own stream. A worker is a state machine whose steps are the
  stretches of \<open>parallel_download_worker\<close> between two uses of shared data; the workers interleave in any
  order. The order is the parameter \<open>pick\<close>, about which nothing is assumed.
\<close>

section \<open>Workers\<close>

record swarm =
  sw_queue :: "u32 list"
  sw_completed :: "u32 set"
  sw_library :: library_state
  sw_world :: world

datatype worker_phase =
    Starting
  | Popping
  | Fetching chunk_meta
  | Storing chunk_meta received_chunk_frame path
  | Recording u32
  | Releasing u32 network_error
  | Finishing
  | Finished
  | Failed network_error

record worker =
  wk_peer :: connected_download_peer
  wk_inp :: bytes
  wk_out :: bytes
  wk_phase :: worker_phase

text \<open>An operation on the stream of one worker.\<close>

definition on_stream :: "worker \<Rightarrow> ('e, 'a) io \<Rightarrow> world \<Rightarrow> ('e, 'a) result \<times> worker \<times> world" where
  "on_stream wk m w = (case m (w\<lparr>inp := wk_inp wk, out := wk_out wk\<rparr>) of (r, w') \<Rightarrow>
     (r, wk\<lparr>wk_inp := inp w', wk_out := out w'\<rparr>, w'))"

primrec pop_attempts :: "nat \<Rightarrow> u32 list \<Rightarrow> u32 set \<Rightarrow> u32 set \<Rightarrow> u32 option \<times> u32 list" where
  "pop_attempts 0 queue chunks available = (None, queue)"
| "pop_attempts (Suc n) queue chunks available = (case queue of
      [] \<Rightarrow> (None, [])
    | index # rest \<Rightarrow>
        if index \<in> chunks then pop_attempts n rest chunks available
        else if index \<in> available then (Some index, rest)
        else pop_attempts n (rest @ [index]) chunks available)"

definition pop_next_available_missing_chunk :: "u32 list \<Rightarrow> u32 set \<Rightarrow> u32 set \<Rightarrow> u32 option \<times> u32 list" where
  "pop_next_available_missing_chunk queue chunks available = pop_attempts (length queue) queue chunks available"

text \<open>\<open>request_chunk_from_peer_to_library\<close> up to the received frame, and from there on.\<close>

definition fetch_chunk :: "transfer_env \<Rightarrow> library_state \<Rightarrow> chunk_meta \<Rightarrow> (network_error, received_chunk_frame \<times> path) io" where
  "fetch_chunk E state meta =
     bindE (net_send (e_wire E) (RequestChunk (cm_index meta))) (\<lambda>_.
     bindE (download_chunk_temp_path state (cm_index meta)) (\<lambda>temp_path.
     bindE (intoE NetProtocol (receive_chunk_to_file (e_deps E) (e_wire E) temp_path)) (\<lambda>fr.
     returnE (fr, temp_path))))"

definition reject :: "path \<Rightarrow> network_error \<Rightarrow> library_state \<Rightarrow> (network_error, library_state step_result) io" where
  "reject temp_path error state = bindE (remove_file_if_exists temp_path) (\<lambda>_. returnE (Inl error, state))"

definition store_chunk :: "transfer_env \<Rightarrow> library_state \<Rightarrow> chunk_meta \<Rightarrow> received_chunk_frame \<Rightarrow> path \<Rightarrow> path option \<Rightarrow>
    (network_error, library_state step_result) io" where
  "store_chunk E state meta fr temp_path out_dir = (case fr of
      RawChunkFile chunk \<Rightarrow>
        if rr_index chunk \<noteq> cm_index meta then reject temp_path (UnexpectedChunkIndex (cm_index meta) (rr_index chunk)) state
        else if ChunkHash (rr_hash chunk) \<noteq> cm_hash meta then reject temp_path (NetFile (ChunkHashMismatch (cm_index meta))) state
        else persist_downloaded_chunk_file E state (cm_index meta) temp_path out_dir
    | Message m \<Rightarrow> (case m of
        Chunk index data \<Rightarrow>
          bindE (remove_file_if_exists temp_path) (\<lambda>_.
          if index \<noteq> cm_index meta then returnE (Inl (UnexpectedChunkIndex (cm_index meta) index), state)
          else if hash_chunk (e_deps E) data \<noteq> cm_hash meta then returnE (Inl (NetFile (ChunkHashMismatch (cm_index meta))), state)
          else persist_downloaded_chunk E state \<lparr>ec_index = index, ec_data = data\<rparr> out_dir)
      | ErrorMsg message \<Rightarrow> reject temp_path (PeerError message) state
      | actual \<Rightarrow> reject temp_path (UnexpectedMessage ''Chunk'' actual) state))"

definition send_have :: "transfer_env \<Rightarrow> u32 set \<Rightarrow> (network_error, unit) io" where
  "send_have E chunks = (if chunks \<noteq> {} then net_send (e_wire E) (Have (sorted_list_of_set chunks)) else returnE ())"

text \<open>One stretch of \<open>parallel_download_worker\<close>.\<close>

definition worker_step :: "transfer_env \<Rightarrow> manifest \<Rightarrow> path option \<Rightarrow> worker \<Rightarrow> swarm \<Rightarrow> worker \<times> swarm" where
  "worker_step E m out_dir wk s = (case wk_phase wk of
      Starting \<Rightarrow> (case on_stream wk (send_have E (sw_completed s)) (sw_world s) of (r, wk', w) \<Rightarrow>
        (wk'\<lparr>wk_phase := (case r of Inl error \<Rightarrow> Failed error | Inr _ \<Rightarrow> Popping)\<rparr>, s\<lparr>sw_world := w\<rparr>))
    | Popping \<Rightarrow> (case pop_next_available_missing_chunk (sw_queue s) (sw_completed s) (cp_available_chunks (wk_peer wk)) of
        (None, queue) \<Rightarrow> (wk\<lparr>wk_phase := Finishing\<rparr>, s\<lparr>sw_queue := queue\<rparr>)
      | (Some index, queue) \<Rightarrow> (case find (\<lambda>meta. cm_index meta = index) (m_chunks m) of
          None \<Rightarrow> (wk\<lparr>wk_phase := Popping\<rparr>, s\<lparr>sw_queue := queue\<rparr>)
        | Some meta \<Rightarrow> (wk\<lparr>wk_phase := Fetching meta\<rparr>, s\<lparr>sw_queue := queue\<rparr>)))
    | Fetching meta \<Rightarrow> (case on_stream wk (fetch_chunk E (sw_library s) meta) (sw_world s) of (r, wk', w) \<Rightarrow>
        (wk'\<lparr>wk_phase := (case r of Inl error \<Rightarrow> Releasing (cm_index meta) error | Inr (fr, temp_path) \<Rightarrow> Storing meta fr temp_path)\<rparr>,
         s\<lparr>sw_world := w\<rparr>))
    | Storing meta fr temp_path \<Rightarrow> (case store_chunk E (sw_library s) meta fr temp_path out_dir (sw_world s) of
        (Inl error, w) \<Rightarrow> (wk\<lparr>wk_phase := Releasing (cm_index meta) error\<rparr>, s\<lparr>sw_world := w\<rparr>)
      | (Inr (r, state), w) \<Rightarrow>
          (wk\<lparr>wk_phase := (case r of Inl error \<Rightarrow> Releasing (cm_index meta) error | Inr _ \<Rightarrow> Recording (cm_index meta))\<rparr>,
           s\<lparr>sw_library := state, sw_world := w\<rparr>))
    | Recording index \<Rightarrow> (wk\<lparr>wk_phase := Popping\<rparr>, s\<lparr>sw_completed := insert index (sw_completed s)\<rparr>)
    | Releasing index error \<Rightarrow> (wk\<lparr>wk_phase := Failed error\<rparr>, s\<lparr>sw_queue := sw_queue s @ [index]\<rparr>)
    | Finishing \<Rightarrow> (case on_stream wk (send_have E (sw_completed s)) (sw_world s) of (_, wk', w) \<Rightarrow>
        (wk'\<lparr>wk_phase := Finished\<rparr>, s\<lparr>sw_world := w\<rparr>))
    | Finished \<Rightarrow> (wk, s)
    | Failed _ \<Rightarrow> (wk, s))"

fun ended :: "worker \<Rightarrow> bool" where
  "ended wk \<longleftrightarrow> (case wk_phase wk of Finished \<Rightarrow> True | Failed _ \<Rightarrow> True | _ \<Rightarrow> False)"

section \<open>The pool\<close>

definition pool_step :: "transfer_env \<Rightarrow> manifest \<Rightarrow> path option \<Rightarrow> nat \<Rightarrow> worker list \<times> swarm \<Rightarrow> worker list \<times> swarm" where
  "pool_step E m out_dir k p = (case p of (wks, s) \<Rightarrow>
     (case worker_step E m out_dir (wks ! k) s of (wk, s') \<Rightarrow> (wks[k := wk], s')))"

definition live :: "worker list \<Rightarrow> nat list" where
  "live wks = filter (\<lambda>k. \<not> ended (wks ! k)) [0..<length wks]"

text \<open>How far a worker is from the end of its current round.\<close>

fun phase_rank :: "worker_phase \<Rightarrow> nat" where
  "phase_rank Starting = 6"
| "phase_rank (Fetching _) = 5"
| "phase_rank (Storing _ _ _) = 4"
| "phase_rank (Recording _) = 3"
| "phase_rank (Releasing _ _) = 3"
| "phase_rank Popping = 2"
| "phase_rank Finishing = 1"
| "phase_rank Finished = 0"
| "phase_rank (Failed _) = 0"

lemma pop_attempts_length:
  "pop_attempts n q c a = (r, q') \<Longrightarrow> length q' + (if r = None then 0 else 1) \<le> length q"
  by (induction n arbitrary: q) (fastforce split: list.split_asm if_split_asm)+

lemma worker_step_decreases:
  assumes "\<not> ended wk" and "worker_step E m out_dir wk s = (wk', s')"
  shows "ended wk' \<or> length (sw_queue s') < length (sw_queue s) \<or>
    length (sw_queue s') = length (sw_queue s) \<and> phase_rank (wk_phase wk') < phase_rank (wk_phase wk)"
proof (cases "wk_phase wk")
  case Popping
  obtain r q where pop: "pop_next_available_missing_chunk (sw_queue s) (sw_completed s) (cp_available_chunks (wk_peer wk)) = (r, q)"
    by fastforce
  note len = pop_attempts_length [OF pop [unfolded pop_next_available_missing_chunk_def]]
  show ?thesis
  proof (cases r)
    case None
    with assms(2) Popping pop len show ?thesis
      by (auto simp: worker_step_def)
  next
    case (Some i)
    with assms(2) Popping pop len show ?thesis
      by (auto simp: worker_step_def split: option.split_asm)
  qed
qed (use assms in \<open>auto simp: worker_step_def on_stream_def split: prod.split_asm sum.split_asm\<close>)

definition rank_sum :: "worker list \<Rightarrow> nat" where
  "rank_sum wks = sum_list (map (phase_rank \<circ> wk_phase) wks)"

lemma rank_sum_update: "k < length wks \<Longrightarrow> phase_rank (wk_phase wk) < phase_rank (wk_phase (wks ! k)) \<Longrightarrow> rank_sum (wks[k := wk]) < rank_sum wks"
  by (induction wks arbitrary: k) (auto simp: rank_sum_def nth_Cons' split: nat.split)

lemma live_update:
  assumes "k \<in> set (live wks)"
  shows "ended wk \<Longrightarrow> length (live (wks[k := wk])) < length (live wks)" and "\<not> ended wk \<Longrightarrow> live (wks[k := wk]) = live wks"
proof -
  have k: "k < length wks" "\<not> ended (wks ! k)"
    using assms by (auto simp: live_def)
  have other: "j \<noteq> k \<Longrightarrow> wks[k := wk] ! j = wks ! j" for j by simp
  show "length (live (wks[k := wk])) < length (live wks)" if "ended wk"
  proof -
    have "live (wks[k := wk]) = filter (\<lambda>j. j \<noteq> k) (live wks)"
      using k that by (auto simp: live_def intro!: filter_cong simp del: ended.simps) (metis other)+
    with assms show ?thesis
      by (simp add: length_filter_less)
  qed
  show "live (wks[k := wk]) = live wks" if "\<not> ended wk"
    using k that by (auto simp: live_def intro!: filter_cong simp del: ended.simps) (metis nth_list_update_eq other)+
qed

function run_workers :: "transfer_env \<Rightarrow> manifest \<Rightarrow> path option \<Rightarrow> (nat \<Rightarrow> nat) \<Rightarrow> nat \<Rightarrow> worker list \<times> swarm \<Rightarrow> worker list \<times> swarm" where
  "run_workers E m out_dir pick n p =
     (if live (fst p) = [] then p
      else run_workers E m out_dir pick (Suc n) (pool_step E m out_dir (live (fst p) ! (pick n mod length (live (fst p)))) p))"
  by pat_completeness auto

lemma pool_step_decreases:
  assumes "k \<in> set (live wks)" and "pool_step E m out_dir k (wks, s) = (wks', s')"
  shows "length (live wks') < length (live wks) \<or> length (live wks') = length (live wks) \<and>
    (length (sw_queue s') < length (sw_queue s) \<or> length (sw_queue s') = length (sw_queue s) \<and> rank_sum wks' < rank_sum wks)"
proof -
  have k: "k < length wks" "\<not> ended (wks ! k)"
    using assms(1) by (auto simp: live_def)
  obtain wk where st: "worker_step E m out_dir (wks ! k) s = (wk, s')" "wks' = wks[k := wk]"
    using assms(2) by (auto simp: pool_step_def split: prod.split_asm)
  show ?thesis
  proof (cases "ended wk")
    case True
    with st(2) live_update(1) [OF assms(1)] show ?thesis by blast
  next
    case False
    with st(2) live_update(2) [OF assms(1)] worker_step_decreases [OF k(2) st(1)] rank_sum_update [OF k(1)] show ?thesis by auto
  qed
qed

lemma pick_live: "live wks \<noteq> [] \<Longrightarrow> live wks ! (i mod length (live wks)) \<in> set (live wks)"
  by (intro nth_mem) (simp add: length_greater_0_conv)

termination run_workers
  by (relation "measures [\<lambda>(E, m, out_dir, pick, n, p). length (live (fst p)), \<lambda>(E, m, out_dir, pick, n, p). length (sw_queue (snd p)),
      \<lambda>(E, m, out_dir, pick, n, p). rank_sum (fst p)]")
    (auto dest!: pick_live pool_step_decreases)

declare run_workers.simps [simp del]

section \<open>Preparing the peers\<close>

record prepared =
  pr_workers :: "worker list"
  pr_manifest :: "manifest option"
  pr_file_key :: "symmetric_key option"
  pr_last_error :: "string option"

definition new_worker :: "connected_download_peer \<Rightarrow> world \<Rightarrow> worker" where
  "new_worker peer w = \<lparr>wk_peer = peer, wk_inp = inp w, wk_out = out w, wk_phase = Starting\<rparr>"

definition offer_peer :: "connected_download_peer \<Rightarrow> world \<Rightarrow> prepared \<Rightarrow> prepared" where
  "offer_peer peer w acc =
     (case pr_manifest acc of
        Some reference \<Rightarrow>
          if \<not> manifests_are_compatible reference (cp_manifest peer) then acc
          else if pr_file_key acc \<noteq> None \<and> pr_file_key acc \<noteq> Some (cp_file_key peer) then acc
          else acc\<lparr>pr_workers := pr_workers acc @ [new_worker peer w]\<rparr>
      | None \<Rightarrow> acc\<lparr>pr_workers := pr_workers acc @ [new_worker peer w], pr_manifest := Some (cp_manifest peer),
          pr_file_key := Some (cp_file_key peer)\<rparr>)"

primrec prepare_peers :: "transfer_env \<Rightarrow> download_file_options \<Rightarrow> prepared \<Rightarrow> string list \<Rightarrow> (network_error, prepared) io" where
  "prepare_peers E opts acc [] = returnE acc"
| "prepare_peers E opts acc (peer_addr # peer_addrs) =
     bindE (tryE (connect_download_peer E peer_addr (do_peer_id opts) (do_requested_share_id opts) (do_auth_psk opts))) (\<lambda>r. case r of
       Inl error \<Rightarrow> prepare_peers E opts (acc\<lparr>pr_last_error := Some (e_show_error E error)\<rparr>) peer_addrs
     | Inr peer \<Rightarrow> bindE (askE (\<lambda>w. offer_peer peer w acc)) (\<lambda>acc'. prepare_peers E opts acc' peer_addrs))"

definition all_failed :: "nat \<Rightarrow> string option \<Rightarrow> string \<Rightarrow> network_error" where
  "all_failed n last_error text = AllPeersFailed n (case last_error of Some e \<Rightarrow> e | None \<Rightarrow> text)"

definition missing_chunks :: "manifest \<Rightarrow> u32 set \<Rightarrow> u32 list" where
  "missing_chunks m completed = map cm_index (filter (\<lambda>meta. cm_index meta \<notin> completed) (m_chunks m))"

definition reconstruct_and_mark :: "transfer_env \<Rightarrow> library_state \<Rightarrow> manifest \<Rightarrow> symmetric_key \<Rightarrow> path \<Rightarrow> (network_error, manifest) io" where
  "reconstruct_and_mark E state m file_key output_path =
     bindE (liftE (active_download_state state)) (\<lambda>active.
     bindE (decrypt_library_chunks_to_file E (ad_paths active) m file_key output_path) (\<lambda>_.
     bindE (mark_download_library_complete E state (output_parent_dir output_path)) (\<lambda>_.
     returnE m)))"

text \<open>The workers run until all have ended; their streams end with them.\<close>

definition run_pool :: "transfer_env \<Rightarrow> manifest \<Rightarrow> path option \<Rightarrow> (nat \<Rightarrow> nat) \<Rightarrow> worker list \<Rightarrow> library_state \<Rightarrow> u32 set \<Rightarrow>
    (network_error, worker list \<times> swarm) io" where
  "run_pool E m out_dir pick workers state completed = (\<lambda>w.
     let (wks, s) = run_workers E m out_dir pick 0
       (workers, \<lparr>sw_queue = missing_chunks m completed, sw_completed = completed, sw_library = state, sw_world = w\<rparr>)
     in (Inr (wks, s), sw_world s))"

definition download_with_workers :: "transfer_env \<Rightarrow> (nat \<Rightarrow> nat) \<Rightarrow> string list \<Rightarrow> path \<Rightarrow> download_file_options \<Rightarrow> worker list \<Rightarrow> manifest \<Rightarrow> symmetric_key \<Rightarrow>
    (network_error, manifest) io" where
  "download_with_workers E pick peer_addrs output_path opts workers m file_key =
     (let out_dir = output_parent_dir output_path in
      bindE (initialize_download_library_state E (do_library_root opts) (descriptor_from_manifest (e_deps E) m) file_key out_dir True) (\<lambda>state.
      if state = None then throwE (PeerError ''parallel streaming download requires a library root'')
      else bindE (load_resumable_chunk_indexes E state m out_dir) (\<lambda>(state, completed).
        if missing_chunks m completed = [] then reconstruct_and_mark E state m file_key output_path
        else bindE (run_pool E m out_dir pick workers state completed) (\<lambda>(wks, s).
          if card (sw_completed s) \<noteq> length (m_chunks m) \<and> list_ex (\<lambda>meta. cm_index meta \<notin> sw_completed s) (m_chunks m)
          then from_peers E peer_addrs output_path (with_resume True opts)
          else reconstruct_and_mark E (sw_library s) m file_key output_path))))"

definition from_peers_parallel :: "transfer_env \<Rightarrow> (nat \<Rightarrow> nat) \<Rightarrow> string list \<Rightarrow> path \<Rightarrow> download_file_options \<Rightarrow> nat \<Rightarrow> (network_error, manifest) io" where
  "from_peers_parallel E pick peer_addrs output_path opts parallelism =
     (if peer_addrs = [] then throwE NoPeersProvided
      else if parallelism \<le> 1 \<or> length peer_addrs = 1 then from_peers E peer_addrs output_path (with_resume True opts)
      else let worker_limit = min parallelism (length peer_addrs) in
        bindE (prepare_peers E opts \<lparr>pr_workers = [], pr_manifest = None, pr_file_key = None, pr_last_error = None\<rparr> (take worker_limit peer_addrs)) (\<lambda>acc.
        case pr_manifest acc of
          None \<Rightarrow> throwE (all_failed worker_limit (pr_last_error acc) ''no compatible peer prepared'')
        | Some m \<Rightarrow> (case pr_file_key acc of
            None \<Rightarrow> throwE (all_failed worker_limit (pr_last_error acc) ''file key was not received'')
          | Some file_key \<Rightarrow>
              if pr_workers acc = [] then throwE (all_failed worker_limit (pr_last_error acc) ''no compatible peer prepared'')
              else if length (pr_workers acc) = 1
              then from_peers E [cp_peer_addr (wk_peer (hd (pr_workers acc)))] output_path (with_resume True opts)
              else download_with_workers E pick peer_addrs output_path opts (pr_workers acc) m file_key)))"

end
