(* ===== verification/Etle_Swarm_Safe.thy ===== *)
theory Etle_Swarm_Safe
  imports Etle_Swarm Etle_Honest
begin

text \<open>
  What holds of the workers of a parallel download in every interleaving. Each chunk index is in exactly
  one place: waiting in the queue, in the hands of one worker, or completed; a completed chunk lies in
  the library with the hash of the manifest; and when no worker fails, every chunk that some peer offers
  is completed.
\<close>

section \<open>Indexes in the hands of workers\<close>

fun holds :: "worker_phase \<Rightarrow> u32 list" where
  "holds (Fetching meta) = [cm_index meta]"
| "holds (Storing meta _ _) = [cm_index meta]"
| "holds (Recording index) = [index]"
| "holds (Releasing index _) = [index]"
| "holds _ = []"

definition held :: "worker list \<Rightarrow> u32 list" where
  "held wks = concat (map (holds \<circ> wk_phase) wks)"

lemma mset_held_update:
  "k < length wks \<Longrightarrow> mset (held (wks[k := wk])) + mset (holds (wk_phase (wks ! k))) = mset (held wks) + mset (holds (wk_phase wk))"
proof (induction wks arbitrary: k)
  case (Cons v vs)
  then show ?case
    by (cases k) (auto simp: held_def union_assoc add.commute add.left_commute dest!: Cons.IH)
qed simp

text \<open>Taking an index from the queue.\<close>

lemma pop_attempts_Some:
  "pop_attempts n q c a = (Some i, q') \<Longrightarrow> distinct q \<Longrightarrow> set q \<inter> c = {} \<Longrightarrow> mset q = add_mset i (mset q') \<and> i \<in> a"
proof (induction n arbitrary: q)
  case (Suc n)
  then obtain x xs where q: "q = x # xs"
    by (auto split: list.split_asm)
  with Suc.prems have x: "x \<notin> c" by simp
  show ?case
  proof (cases "x \<in> a")
    case True
    with Suc.prems(1) q x show ?thesis by simp
  next
    case False
    with Suc.prems q x have "mset (xs @ [x]) = add_mset i (mset q') \<and> i \<in> a"
      by (intro Suc.IH) auto
    with q show ?thesis by simp
  qed
qed simp

lemma pop_attempts_None:
  "pop_attempts (length xs) (xs @ ys) c a = (None, q') \<Longrightarrow> distinct (xs @ ys) \<Longrightarrow> set (xs @ ys) \<inter> c = {} \<Longrightarrow> set ys \<inter> a = {} \<Longrightarrow>
     mset q' = mset (xs @ ys) \<and> set q' \<inter> a = {}"
proof (induction xs arbitrary: ys)
  case (Cons x xs)
  then have x: "x \<notin> c" "x \<notin> a"
    by (auto split: if_split_asm)
  with Cons.prems have "mset q' = mset (xs @ ys @ [x]) \<and> set q' \<inter> a = {}"
    by (intro Cons.IH) auto
  then show ?case by simp
qed simp

lemma pop_next:
  assumes "distinct q" and "set q \<inter> c = {}"
  shows "pop_next_available_missing_chunk q c a = (Some i, q') \<Longrightarrow> mset q = add_mset i (mset q') \<and> i \<in> a"
    and "pop_next_available_missing_chunk q c a = (None, q') \<Longrightarrow> mset q' = mset q \<and> set q' \<inter> a = {}"
  using assms pop_attempts_Some pop_attempts_None [of q "[]" c a q']
  by (auto simp: pop_next_available_missing_chunk_def)

section \<open>Files of one worker\<close>

definition part_path :: "library_paths \<Rightarrow> u32 \<Rightarrow> path \<Rightarrow> bool" where
  "part_path P i q \<longleftrightarrow> (\<exists>suffix. q = chunks_dir P @ [show_06 (unat i) @ ''.etle.'' @ suffix @ ''.part''])"

text \<open>What the worker that holds index \<open>i\<close> may change.\<close>

definition worker_area :: "library_paths \<Rightarrow> u32 \<Rightarrow> path \<Rightarrow> bool" where
  "worker_area P i q \<longleftrightarrow> q = chunk_path P i \<or> part_path P i q \<or> prefix q (chunks_dir P) \<or> scratch_of (chunk_path P i) q \<or>
     touches (progress_path P) q \<or> touches (state_path P) q"

lemma show_06_dot: "show_06 m @ CHR ''.'' # s = show_06 n @ CHR ''.'' # t \<Longrightarrow> m = n"
proof -
  have digits: "takeWhile (\<lambda>c. c \<noteq> CHR ''.'') (show_06 k @ CHR ''.'' # u) = show_06 k" for k u
    using show_06_digits [of _ k] digit_char_not_dot by (subst takeWhile_append2) fastforce+
  assume "show_06 m @ CHR ''.'' # s = show_06 n @ CHR ''.'' # t"
  then have "show_06 m = show_06 n"
    using digits [of m s] digits [of n t] by simp
  then show "m = n"
    using show_06_inj by blast
qed

lemma part_not_chunk: "part_path P i q \<Longrightarrow> q \<noteq> chunk_path P j"
proof -
  have "show_06 n @ ''.etle'' \<noteq> show_06 k @ ''.etle.'' @ s @ ''.part''" for n k s
    by (auto dest!: arg_cong [where f = last])
  then show "part_path P i q \<Longrightarrow> q \<noteq> chunk_path P j"
    unfolding part_path_def chunk_path_def by (metis append1_eq_conv)
qed

lemma worker_area_other:
  assumes "j \<noteq> i"
  shows "\<not> worker_area P i (chunk_path P j)" and "part_path P j q \<Longrightarrow> \<not> worker_area P i q"
proof -
  have tp: "\<not> touches (progress_path P) (chunks_dir P @ [x])" "\<not> touches (state_path P) (chunks_dir P @ [x])" for x
    by (auto simp: touches_def scratch_of_def path_defs dest: prefix_length_le)
  have sc: "\<not> scratch_of (chunk_path P i) (chunks_dir P @ [show_06 n @ s])" for n s
    using show_06_not_dot [of n s] by (auto simp: scratch_of_def)
  have pr: "\<not> prefix (chunks_dir P @ [x]) (chunks_dir P)" for x
    by (auto dest: prefix_length_le)
  show "\<not> worker_area P i (chunk_path P j)"
    using assms tp sc pr part_not_chunk [of P i "chunk_path P j" j]
    by (auto simp: worker_area_def chunk_path_def word_unat_eq_iff)
  show "\<not> worker_area P i q" if part: "part_path P j q"
  proof -
    obtain s where q: "q = chunks_dir P @ [show_06 (unat j) @ ''.etle.'' @ s @ ''.part'']"
      using part unfolding part_path_def by blast
    have "show_06 (unat j) @ ''.etle.'' @ s @ ''.part'' \<noteq> show_06 (unat i) @ ''.etle.'' @ t @ ''.part''" for t
      using show_06_dot [of "unat j" _ "unat i"] assms by (auto simp: word_unat_eq_iff)
    moreover have "q \<noteq> chunk_path P i"
      by (rule part_not_chunk [OF part])
    ultimately show ?thesis
      using tp sc pr unfolding worker_area_def part_path_def q by auto
  qed
qed

lemma frame_worker_flush:
  assumes "ad_paths st = P"
  shows "preserves (frame (worker_area P i)) (maybe_flush_download_progress E st out_dir)"
proof -
  have wr: "preserves (frame (worker_area P i)) (write_progress (e_lib E) P p)" "preserves (frame (worker_area P i)) (write_state (e_lib E) P s)" for p s
    by (rule frame_mono [OF frame_write_files(3)] frame_mono [OF frame_write_files(4)]; simp add: worker_area_def)+
  have "preserves (frame (worker_area P i)) (flush_download_progress E st mode out_dir)" for mode
    unfolding flush_download_progress_def assms
    by (intro frame.pres_bind frame.pres_try wr) (auto intro!: frame.pres_bind split: sum.split)
  then show ?thesis
    unfolding maybe_flush_download_progress_def should_flush_download_progress_def by (auto intro!: frame.pres_bind)
qed

lemma frame_worker_persist:
  assumes "state_at P state"
  shows "part_path P i temp \<Longrightarrow> preserves (frame (worker_area P i)) (persist_downloaded_chunk_file E state i temp out_dir)"
    and "preserves (frame (worker_area P (ec_index c))) (persist_downloaded_chunk E state c out_dir)"
proof -
  have mv: "preserves (frame (worker_area P i)) (move_downloaded P i temp)" if "part_path P i temp"
    using that unfolding move_downloaded_def
    by (intro frame.pres_bind frame_create_dir_all frame_rename) (auto intro: frame_remove_file simp: worker_area_def)
  have wc: "preserves (frame (worker_area P (ec_index c))) (write_chunk P c)"
    by (rule frame_mono [OF frame_write_chunk]) (auto simp: worker_area_def touches_def)
  show "preserves (frame (worker_area P i)) (persist_downloaded_chunk_file E state i temp out_dir)" if "part_path P i temp"
    using that assms mv unfolding persist_downloaded_chunk_file_def
    by (auto intro!: frame.pres_bind frame.pres_try frame_remove_if_exists frame_worker_flush simp: state_at_def worker_area_def split: option.split sum.split)
  show "preserves (frame (worker_area P (ec_index c))) (persist_downloaded_chunk E state c out_dir)"
    using assms wc unfolding persist_downloaded_chunk_def
    by (auto intro!: frame.pres_bind frame.pres_try frame_worker_flush simp: state_at_def split: option.split sum.split)
qed

lemma frame_store_chunk:
  assumes "state_at P state" and "part_path P (cm_index meta) temp"
  shows "preserves (frame (worker_area P (cm_index meta))) (store_chunk E state meta fr temp out_dir)"
proof -
  have rm: "preserves (frame (worker_area P (cm_index meta))) (remove_file_if_exists temp :: (network_error, unit) io)"
    using assms(2) by (intro frame_remove_if_exists) (simp add: worker_area_def)
  then have rj: "preserves (frame (worker_area P (cm_index meta))) (reject temp e state)" for e
    unfolding reject_def by (auto intro!: frame.pres_bind)
  have "preserves (frame (worker_area P (cm_index meta))) (persist_downloaded_chunk E state \<lparr>ec_index = cm_index meta, ec_data = d\<rparr> out_dir)" for d
    using frame_worker_persist(2) [OF assms(1), of "\<lparr>ec_index = cm_index meta, ec_data = d\<rparr>"] by simp
  then show ?thesis
    unfolding store_chunk_def using rm rj frame_worker_persist(1) [OF assms]
    by (auto intro!: frame.pres_bind split: received_chunk_frame.split wire_message.split)
qed

lemma fetch_temp:
  assumes "download_chunk_temp_path state i w = (Inr temp, w')" and "state_at P state"
  shows "part_path P i temp" and "lookup w' = lookup w" and "state \<noteq> None"
proof -
  obtain st where st: "state = Some st"
    using assms(1) by (cases state) (auto simp: download_chunk_temp_path_def active_download_state_def bindE_Inr)
  then have P: "ad_paths st = P"
    using assms(2) by (simp add: state_at_def)
  show "part_path P i temp" "lookup w' = lookup w"
    using assms(1) P unfolding st by (auto simp: download_chunk_temp_path_def active_download_state_def bindE_Inr staging_timestamp_def clock_now_def
        part_path_def fun_eq_iff)
  show "state \<noteq> None"
    by (simp add: st)
qed

lemma frame_fetch_chunk:
  assumes "state_at P state"
  shows "preserves (frame (worker_area P (cm_index meta))) (fetch_chunk E state meta)"
proof -
  have tp: "preserves (frame F) (download_chunk_temp_path state i)" for F i
    unfolding download_chunk_temp_path_def staging_timestamp_def by (auto intro!: frame.pres_bind)
  have rc: "preserves (frame (worker_area P (cm_index meta))) (receive_chunk_to_file (e_deps E) (e_wire E) temp)"
    if "download_chunk_temp_path state (cm_index meta) w1 = (Inr temp, w2)" for temp w1 w2
    using fetch_temp(1) [OF that assms] by (intro frame_receive_to_file) (auto simp: worker_area_def part_path_def)
  show ?thesis
    unfolding fetch_chunk_def
  proof (rule frame.pres_bind)
    show "preserves (frame (worker_area P (cm_index meta))) (bindE (download_chunk_temp_path state (cm_index meta)) (\<lambda>temp_path.
        bindE (intoE NetProtocol (receive_chunk_to_file (e_deps E) (e_wire E) temp_path)) (\<lambda>fr. returnE (fr, temp_path))))"
      unfolding preserves_def
    proof
      fix w
      obtain r w1 where t: "download_chunk_temp_path state (cm_index meta) w = (r, w1)" by fastforce
      have one: "frame (worker_area P (cm_index meta)) w w1"
        using tp t unfolding preserves_def by (metis snd_conv)
      show "frame (worker_area P (cm_index meta)) w (snd (bindE (download_chunk_temp_path state (cm_index meta)) (\<lambda>temp_path.
          bindE (intoE NetProtocol (receive_chunk_to_file (e_deps E) (e_wire E) temp_path)) (\<lambda>fr. returnE (fr, temp_path))) w))"
      proof (cases r)
        case (Inl e)
        with t one show ?thesis by simp
      next
        case (Inr temp)
        have "preserves (frame (worker_area P (cm_index meta)))
            (bindE (intoE NetProtocol (receive_chunk_to_file (e_deps E) (e_wire E) temp)) (\<lambda>fr. returnE (fr, temp)))"
          using rc [OF t [unfolded Inr]] by (auto intro!: frame.pres_bind)
        with t Inr one show ?thesis
          using frame.R_trans unfolding preserves_def by (fastforce simp: bindE_run)
      qed
    qed
  qed simp
qed

section \<open>What a worker achieves\<close>

definition chunk_hashed :: "deps \<Rightarrow> library_paths \<Rightarrow> world \<Rightarrow> chunk_meta \<Rightarrow> bool" where
  "chunk_hashed D P w meta \<longleftrightarrow> (\<exists>bs. lookup w (chunk_path P (cm_index meta)) = Some (FileN bs) \<and> hash_chunk D bs = cm_hash meta)"

definition fetched :: "deps \<Rightarrow> library_paths \<Rightarrow> world \<Rightarrow> chunk_meta \<Rightarrow> received_chunk_frame \<Rightarrow> path \<Rightarrow> bool" where
  "fetched D P w meta fr temp \<longleftrightarrow> part_path P (cm_index meta) temp \<and>
     (\<forall>chunk. fr = RawChunkFile chunk \<longrightarrow> (\<exists>data. lookup w temp = Some (FileN data) \<and> rr_hash chunk = blake3 D data))"

definition library_at :: "library_paths \<Rightarrow> library_state \<Rightarrow> bool" where
  "library_at P state \<longleftrightarrow> (\<exists>st. state = Some st \<and> ad_paths st = P)"

lemma library_at_state: "library_at P state \<Longrightarrow> state_at P state"
  by (auto simp: library_at_def state_at_def)

lemma fetch_chunk_Inr:
  assumes "fetch_chunk E state meta w = (Inr (fr, temp), w')" and "state_at P state"
  shows "fetched (e_deps E) P w' meta fr temp"
proof -
  from assms(1) obtain w1 w2 where t: "download_chunk_temp_path state (cm_index meta) w1 = (Inr temp, w2)"
      and rc: "receive_chunk_to_file (e_deps E) (e_wire E) temp w2 = (Inr fr, w')"
    by (auto simp: fetch_chunk_def bindE_Inr)
  have "\<exists>data. lookup w' temp = Some (FileN data) \<and> rr_hash chunk = blake3 (e_deps E) data" if "fr = RawChunkFile chunk" for chunk
  proof -
    from rc that obtain len v where "receive_raw_chunk_frame_to_file_after_tag (e_deps E) len temp v = (Inr chunk, w')"
      by (auto simp: receive_chunk_to_file_def bindE_Inr split: if_split_asm)
    from receive_raw_to_file_Inr [OF this] show ?thesis by blast
  qed
  with fetch_temp(1) [OF t assms(2)] show ?thesis
    by (simp add: fetched_def)
qed

lemma move_downloaded_Inr:
  assumes "move_downloaded P i temp w = (Inr (), w')" and "lookup w temp = Some (FileN data)" and "temp \<noteq> chunk_path P i"
  shows "lookup w' (chunk_path P i) = Some (FileN data)"
proof -
  from assms(1) obtain w1 b w2 w3 where mk: "fs_create_dir_all (chunks_dir P) w = (Inr (), w1)" and ex: "(path_exists (chunk_path P i) :: (io_error, bool) io) w1 = (Inr b, w2)"
      and rm: "(if b then fs_remove_file (chunk_path P i) else returnE ()) w2 = (Inr (), w3)" and rn: "fs_rename temp (chunk_path P i) w3 = (Inr (), w')"
    by (auto simp: move_downloaded_def bindE_Inr)
  have "lookup w1 temp = Some (FileN data)"
    using mk assms(2) by (auto simp: fs_create_dir_all_def syscall_def lookup_make_dirs split: list.split_asm option.split_asm if_split_asm prod.split_asm)
  then have "lookup w2 temp = Some (FileN data)"
    using frame_all_lookup [OF frame_path_tests(2) ex] by simp
  then have "lookup w3 temp = Some (FileN data)"
    using rm assms(3) preserves_frameD [OF frame_remove_file [of "\<lambda>q. q = chunk_path P i"], of _ w2 "Inr ()" w3 temp] by (auto split: if_split_asm)
  then show ?thesis
    using fs_rename_Inr [OF rn] by auto
qed

lemma store_chunk_library:
  assumes "store_chunk E state meta fr temp out_dir w = (Inr (r, state'), w')" and "library_at P state"
  shows "library_at P state'"
proof -
  obtain st where st: "state = Some st" "ad_paths st = P"
    using assms(2) by (auto simp: library_at_def)
  have whole: "library_at P s'" if run: "persist_downloaded_chunk_file E (Some st) i t out_dir v = (Inr (x, s'), v')" for i t v x s' v'
  proof -
    from run obtain y :: "io_error + unit" and v1 where "(case y of Inl error \<Rightarrow> returnE (Inl (NetIo error), Some st)
        | Inr _ \<Rightarrow> bindE (maybe_flush_download_progress E (count_chunk i st) out_dir) (\<lambda>(r, st'). returnE (r, Some st'))) v1 = (Inr (x, s'), v')"
      unfolding persist_downloaded_chunk_file_def option.case bindE_Inr by blast
    then show ?thesis
      using st(2) by (cases y) (auto simp: bindE_Inr library_at_def dest: maybe_flush_keeps)
  qed
  have chunk: "library_at P s'" if run: "persist_downloaded_chunk E (Some st) c out_dir v = (Inr (x, s'), v')" for c v x s' v'
  proof -
    from run obtain y :: "file_error + path" and v1 where "(case y of Inl error \<Rightarrow> returnE (Inl (NetFile error), Some st)
        | Inr _ \<Rightarrow> bindE (maybe_flush_download_progress E (count_chunk (ec_index c) st) out_dir) (\<lambda>(r, st'). returnE (r, Some st'))) v1 = (Inr (x, s'), v')"
      unfolding persist_downloaded_chunk_def option.case bindE_Inr by blast
    then show ?thesis
      using st(2) by (cases y) (auto simp: bindE_Inr library_at_def dest: maybe_flush_keeps)
  qed
  have same: "library_at P s'" if "reject t e (Some st) v = (Inr (x, s'), v')" for t e v x s' v'
    using that st(2) by (auto simp: reject_def bindE_Inr library_at_def)
  have st': "library_at P (Some st)"
    using st(2) by (simp add: library_at_def)
  show ?thesis
  proof (cases fr)
    case (RawChunkFile x)
    with assms(1) whole same show ?thesis
      unfolding st(1) store_chunk_def by (auto split: if_split_asm)
  next
    case (Message m)
    with assms(1) chunk same st' show ?thesis
      unfolding st(1) store_chunk_def by (cases m) (auto simp: bindE_Inr split: if_split_asm)
  qed
qed

lemma flush_keeps_chunks:
  "maybe_flush_download_progress E st out_dir w = (Inr x, w') \<Longrightarrow> ad_paths st = P \<Longrightarrow> lookup w' (chunk_path P i) = lookup w (chunk_path P i)"
proof -
  assume run: "maybe_flush_download_progress E st out_dir w = (Inr x, w')" and P: "ad_paths st = P"
  obtain j where "j \<noteq> i"
    by (metis add_cancel_left_right one_neq_zero)
  with worker_area_other(1) [of i j P] preserves_frameD [OF frame_worker_flush [OF P, of j] run] show ?thesis
    by metis
qed

lemma store_chunk_Inr:
  assumes "store_chunk E state meta fr temp out_dir w = (Inr (Inr u, state'), w')" and "library_at P state"
    and "fetched (e_deps E) P w meta fr temp"
  shows "chunk_hashed (e_deps E) P w' meta"
proof -
  obtain st where st: "state = Some st" "ad_paths st = P"
    using assms(2) by (auto simp: library_at_def)
  have temp: "temp \<noteq> chunk_path P (cm_index meta)"
    using assms(3) part_not_chunk by (auto simp: fetched_def)
  show ?thesis
  proof (cases fr)
    case (RawChunkFile chunk)
    then obtain data where data: "lookup w temp = Some (FileN data)" "rr_hash chunk = blake3 (e_deps E) data"
      using assms(3) by (auto simp: fetched_def)
    from assms(1) RawChunkFile have h: "ChunkHash (rr_hash chunk) = cm_hash meta"
        and run: "persist_downloaded_chunk_file E (Some st) (cm_index meta) temp out_dir w = (Inr (Inr u, state'), w')"
      unfolding store_chunk_def st(1) by (auto simp: reject_def bindE_Inr split: if_split_asm)
    from run obtain w1 st' where mv: "move_downloaded (ad_paths st) (cm_index meta) temp w = (Inr (), w1)"
        and fl: "maybe_flush_download_progress E (count_chunk (cm_index meta) st) out_dir w1 = (Inr (Inr u, st'), w')"
      by (rule persist_file_Inr)
    show ?thesis
      using move_downloaded_Inr [OF mv [unfolded st(2)] data(1) temp] flush_keeps_chunks [OF fl, of P "cm_index meta"] st(2) data(2) h
      by (simp add: chunk_hashed_def hash_chunk_def hash_bytes_def)
  next
    case (Message m)
    with assms(1) obtain data w0 where h: "hash_chunk (e_deps E) data = cm_hash meta"
        and run: "persist_downloaded_chunk E (Some st) \<lparr>ec_index = cm_index meta, ec_data = data\<rparr> out_dir w0 = (Inr (Inr u, state'), w')"
      unfolding store_chunk_def st(1) by (cases m) (auto simp: reject_def bindE_Inr split: if_split_asm)
    from run obtain w1 p st' where wr: "write_chunk (ad_paths st) \<lparr>ec_index = cm_index meta, ec_data = data\<rparr> w0 = (Inr p, w1)"
        and fl: "maybe_flush_download_progress E (count_chunk (ec_index \<lparr>ec_index = cm_index meta, ec_data = data\<rparr>) st) out_dir w1 = (Inr (Inr u, st'), w')"
      by (rule persist_chunk_Inr)
    show ?thesis
      using write_chunk_here [OF wr] flush_keeps_chunks [OF fl, of P "cm_index meta"] st(2) h by (simp add: chunk_hashed_def)
  qed
qed

section \<open>The invariant\<close>

text \<open>What is known of one worker: its chunk belongs to the manifest, and its file is as far as its phase says.\<close>

fun phase_ok :: "deps \<Rightarrow> library_paths \<Rightarrow> manifest \<Rightarrow> world \<Rightarrow> worker_phase \<Rightarrow> bool" where
  "phase_ok D P m w (Fetching meta) \<longleftrightarrow> meta \<in> set (m_chunks m)"
| "phase_ok D P m w (Storing meta fr temp) \<longleftrightarrow> meta \<in> set (m_chunks m) \<and> fetched D P w meta fr temp"
| "phase_ok D P m w (Recording index) \<longleftrightarrow> (\<forall>meta \<in> set (m_chunks m). cm_index meta = index \<longrightarrow> chunk_hashed D P w meta)"
| "phase_ok D P m w _ \<longleftrightarrow> True"

definition swarm_inv :: "deps \<Rightarrow> library_paths \<Rightarrow> manifest \<Rightarrow> worker list \<times> swarm \<Rightarrow> bool" where
  "swarm_inv D P m p \<longleftrightarrow> (case p of (wks, s) \<Rightarrow>
     distinct (sw_queue s @ held wks) \<and> set (sw_queue s @ held wks) \<inter> sw_completed s = {} \<and>
     set (sw_queue s @ held wks) \<union> sw_completed s = cm_index ` set (m_chunks m) \<and>
     library_at P (sw_library s) \<and> (\<forall>wk \<in> set wks. phase_ok D P m (sw_world s) (wk_phase wk)) \<and>
     (\<forall>meta \<in> set (m_chunks m). cm_index meta \<in> sw_completed s \<longrightarrow> chunk_hashed D P (sw_world s) meta))"

lemma chunk_hashed_frame:
  "frame (worker_area P i) w w' \<Longrightarrow> cm_index meta \<noteq> i \<Longrightarrow> chunk_hashed D P w' meta = chunk_hashed D P w meta"
  using worker_area_other(1) by (simp add: chunk_hashed_def frame_def)

lemma phase_ok_frame:
  assumes "frame (worker_area P i) w w'" and "i \<notin> set (holds ph)" and "phase_ok D P m w ph"
  shows "phase_ok D P m w' ph"
proof (cases ph)
  case (Storing meta fr temp)
  with assms(2) have "cm_index meta \<noteq> i" by auto
  with assms(1,3) Storing worker_area_other(2) show ?thesis
    by (auto simp: fetched_def frame_def)
next
  case (Recording j)
  with assms show ?thesis
    by (auto simp: chunk_hashed_frame)
qed (use assms in simp_all)

definition places :: "manifest \<Rightarrow> worker list \<times> swarm \<Rightarrow> bool" where
  "places m p \<longleftrightarrow> (case p of (wks, s) \<Rightarrow> distinct (sw_queue s @ held wks) \<and> set (sw_queue s @ held wks) \<inter> sw_completed s = {} \<and>
     set (sw_queue s @ held wks) \<union> sw_completed s = cm_index ` set (m_chunks m))"

lemma swarm_inv_places: "swarm_inv D P m (wks, s) \<longleftrightarrow> places m (wks, s) \<and> library_at P (sw_library s) \<and>
  (\<forall>wk \<in> set wks. phase_ok D P m (sw_world s) (wk_phase wk)) \<and>
  (\<forall>meta \<in> set (m_chunks m). cm_index meta \<in> sw_completed s \<longrightarrow> chunk_hashed D P (sw_world s) meta)"
  by (simp add: swarm_inv_def places_def)

lemma exchange:
  fixes a a' x n q q' :: "'b multiset"
  assumes "a' + x = a + n" and "q' + n = q + x"
  shows "q' + a' = q + a"
proof -
  have "(q' + a') + (x + n) = (q' + n) + (a' + x)"
    by (simp only: ac_simps)
  also have "\<dots> = (q + x) + (a + n)"
    by (simp only: assms)
  also have "\<dots> = (q + a) + (x + n)"
    by (simp only: ac_simps)
  finally show ?thesis by simp
qed

lemma places_move:
  assumes "places m (wks, s)" and "k < length wks" and "sw_completed s' = sw_completed s"
    and "mset (sw_queue s') + mset (holds (wk_phase wk)) = mset (sw_queue s) + mset (holds (wk_phase (wks ! k)))"
  shows "places m (wks[k := wk], s')"
proof -
  have "mset (sw_queue s' @ held (wks[k := wk])) = mset (sw_queue s @ held wks)"
    using exchange [OF mset_held_update [OF assms(2), of wk] assms(4)] by simp
  from mset_eq_imp_distinct_iff [OF this] mset_eq_setD [OF this] assms(1,3) show ?thesis
    by (simp add: places_def)
qed

lemma places_complete:
  assumes "places m (wks, s)" and "k < length wks" and "sw_completed s' = insert i (sw_completed s)" and "sw_queue s' = sw_queue s"
    and "holds (wk_phase (wks ! k)) = [i]" and "holds (wk_phase wk) = []"
  shows "places m (wks[k := wk], s')"
proof -
  have "mset (sw_queue s @ held wks) = add_mset i (mset (sw_queue s @ held (wks[k := wk])))"
    using mset_held_update [OF assms(2), of wk] assms(5,6) by simp
  then have "mset (sw_queue s @ held wks) = mset (i # sw_queue s @ held (wks[k := wk]))"
    by simp
  from mset_eq_imp_distinct_iff [OF this] mset_eq_setD [OF this] assms(1,3,4) show ?thesis
    by (auto simp: places_def)
qed

lemma held_apart:
  assumes "places m (wks, s)" and "k < length wks" and "j < length wks" and "j \<noteq> k" and "i \<in> set (holds (wk_phase (wks ! k)))"
  shows "i \<notin> set (holds (wk_phase (wks ! j)))"
proof
  assume i: "i \<in> set (holds (wk_phase (wks ! j)))"
  let ?idle = "(wks ! k)\<lparr>wk_phase := Popping\<rparr>"
  have "i \<in> set (held (wks[k := ?idle]))"
    using i assms(3,4) unfolding held_def by (auto intro!: bexI [of _ "wks ! j"] simp: in_set_conv_nth) (metis length_list_update nth_list_update_neq)
  moreover have "mset (held wks) = mset (held (wks[k := ?idle])) + mset (holds (wk_phase (wks ! k)))"
    using mset_held_update [OF assms(2), of ?idle] by simp
  then have "distinct (held (wks[k := ?idle]) @ holds (wk_phase (wks ! k)))"
    using assms(1) mset_eq_imp_distinct_iff [of "held wks" "held (wks[k := ?idle]) @ holds (wk_phase (wks ! k))"] by (simp add: places_def)
  ultimately show False
    using assms(5) by auto
qed

lemma phases_keep:
  assumes "\<And>wk. wk \<in> set wks \<Longrightarrow> phase_ok D P m w (wk_phase wk)" and "k < length wks" and "phase_ok D P m w' (wk_phase wk)"
    and "\<And>j. j < length wks \<Longrightarrow> j \<noteq> k \<Longrightarrow> phase_ok D P m w (wk_phase (wks ! j)) \<Longrightarrow> phase_ok D P m w' (wk_phase (wks ! j))"
    and "v \<in> set (wks[k := wk])"
  shows "phase_ok D P m w' (wk_phase v)"
proof -
  from assms(5) obtain j where "j < length wks" "v = wks[k := wk] ! j"
    by (auto simp: in_set_conv_nth)
  with assms(1-4) show ?thesis
    by (cases "j = k") (auto simp: nth_list_update)
qed

text \<open>A step that changes only files of the index the worker holds.\<close>

lemma swarm_inv_files:
  assumes inv: "swarm_inv D P m (wks, s)" and k: "k < length wks" and i: "holds (wk_phase (wks ! k)) = [i]" "holds (wk_phase wk) = [i]"
    and fr: "frame (worker_area P i) (sw_world s) w'" and lib: "library_at P state'" and ph: "phase_ok D P m w' (wk_phase wk)"
  shows "swarm_inv D P m (wks[k := wk], s\<lparr>sw_library := state', sw_world := w'\<rparr>)"
proof -
  have pl: "places m (wks, s)"
    using inv by (simp add: swarm_inv_places)
  have "places m (wks[k := wk], s\<lparr>sw_library := state', sw_world := w'\<rparr>)"
    by (rule places_move [OF pl k]) (simp_all add: i)
  moreover have "phase_ok D P m w' (wk_phase v)" if "v \<in> set (wks[k := wk])" for v
  proof (rule phases_keep [OF _ k ph _ that])
    show "phase_ok D P m w' (wk_phase (wks ! j))" if "j < length wks" "j \<noteq> k" "phase_ok D P m (sw_world s) (wk_phase (wks ! j))" for j
      using that held_apart [OF pl k that(1,2), of i] i(1) by (intro phase_ok_frame [OF fr]) auto
  qed (use inv in \<open>simp add: swarm_inv_places\<close>)
  moreover have "chunk_hashed D P w' meta" if "meta \<in> set (m_chunks m)" "cm_index meta \<in> sw_completed s" for meta
  proof -
    have "i \<in> set (held wks)"
      using i(1) k unfolding held_def by (auto intro!: bexI [of _ "wks ! k"])
    with pl that(2) have "cm_index meta \<noteq> i"
      by (auto simp: places_def)
    with inv that fr show ?thesis
      by (simp add: swarm_inv_places chunk_hashed_frame)
  qed
  ultimately show ?thesis
    using lib by (simp add: swarm_inv_places)
qed

text \<open>A step that changes no file.\<close>

lemma swarm_inv_quiet:
  assumes inv: "swarm_inv D P m (wks, s)" and k: "k < length wks" and look: "lookup (sw_world s') = lookup (sw_world s)"
    and lib: "sw_library s' = sw_library s" and ph: "phase_ok D P m (sw_world s') (wk_phase wk)"
    and pl: "places m (wks[k := wk], s')"
    and done': "\<And>meta. meta \<in> set (m_chunks m) \<Longrightarrow> cm_index meta \<in> sw_completed s' \<Longrightarrow> chunk_hashed D P (sw_world s') meta"
  shows "swarm_inv D P m (wks[k := wk], s')"
proof -
  have same: "phase_ok D P m (sw_world s') ph = phase_ok D P m (sw_world s) ph" for ph
    using look by (cases ph) (simp_all add: fetched_def chunk_hashed_def)
  have "phase_ok D P m (sw_world s') (wk_phase v)" if "v \<in> set (wks[k := wk])" for v
    by (rule phases_keep [where w = "sw_world s", OF _ k ph _ that]) (use inv same in \<open>simp_all add: swarm_inv_places\<close>)
  with inv lib pl done' show ?thesis
    by (simp add: swarm_inv_places)
qed

lemma send_have_quiet: "on_stream wk (send_have E c) w = (r, wk', w') \<Longrightarrow> lookup w' = lookup w \<and> wk_phase wk' = wk_phase wk \<and> wk_peer wk' = wk_peer wk"
proof -
  have "preserves (frame (\<lambda>_. False)) (send_have E c)"
    by (simp add: send_have_def)
  then show "on_stream wk (send_have E c) w = (r, wk', w') \<Longrightarrow> lookup w' = lookup w \<and> wk_phase wk' = wk_phase wk \<and> wk_peer wk' = wk_peer wk"
    using frame_all_lookup [of "send_have E c" "w\<lparr>inp := wk_inp wk, out := wk_out wk\<rparr>"]
    by (auto simp: on_stream_def fun_eq_iff split: prod.split_asm)
qed

lemma fetch_on_stream:
  assumes "on_stream wk (fetch_chunk E state meta) w = (r, wk', w')" and "library_at P state"
  shows "frame (worker_area P (cm_index meta)) w w'" and "r = Inr (fr, temp) \<Longrightarrow> fetched (e_deps E) P w' meta fr temp"
proof -
  let ?w = "w\<lparr>inp := wk_inp wk, out := wk_out wk\<rparr>"
  have run: "fetch_chunk E state meta ?w = (r, w')"
    using assms(1) by (auto simp: on_stream_def split: prod.split_asm)
  have "frame (worker_area P (cm_index meta)) ?w w'"
    using frame_fetch_chunk [OF library_at_state [OF assms(2)]] run unfolding preserves_def by (metis snd_conv)
  then show "frame (worker_area P (cm_index meta)) w w'"
    by (simp add: frame_def)
  show "fetched (e_deps E) P w' meta fr temp" if "r = Inr (fr, temp)"
    using fetch_chunk_Inr [OF run [unfolded that] library_at_state [OF assms(2)]] .
qed

lemma swarm_inv_facts:
  assumes "swarm_inv D P m (wks, s)" and "k < length wks"
  shows "places m (wks, s)" and "library_at P (sw_library s)" and "phase_ok D P m (sw_world s) (wk_phase (wks ! k))"
    and "\<And>meta. meta \<in> set (m_chunks m) \<Longrightarrow> cm_index meta \<in> sw_completed s \<Longrightarrow> chunk_hashed D P (sw_world s) meta"
    and "distinct (sw_queue s)" and "set (sw_queue s) \<inter> sw_completed s = {}" and "set (sw_queue s) \<subseteq> cm_index ` set (m_chunks m)"
  using assms by (auto simp: swarm_inv_places places_def)

lemmas pool_step_defs = pool_step_def worker_step_def

lemma step_starts:
  assumes inv: "swarm_inv (e_deps E) P m (wks, s)" and k: "k < length wks" and dist: "distinct (map cm_index (m_chunks m))"
    and Starting: "wk_phase (wks ! k) = Starting"
  shows "swarm_inv (e_deps E) P m (pool_step E m out_dir k (wks, s))"
proof -
  note pl = swarm_inv_facts(1) [OF inv k] and lib = swarm_inv_facts(2) [OF inv k] and ph = swarm_inv_facts(3) [OF inv k]
    and hashed = swarm_inv_facts(4) [OF inv k] and q = swarm_inv_facts(5-7) [OF inv k]
  let ?wk = "wks ! k"
  obtain r wk' w' where run: "on_stream ?wk (send_have E (sw_completed s)) (sw_world s) = (r, wk', w')"
    by (cases "on_stream ?wk (send_have E (sw_completed s)) (sw_world s)") auto
  let ?wk' = "wk'\<lparr>wk_phase := (case r of Inl error \<Rightarrow> Failed error | Inr _ \<Rightarrow> Popping)\<rparr>"
  have "swarm_inv (e_deps E) P m (wks[k := ?wk'], s\<lparr>sw_world := w'\<rparr>)"
  proof (rule swarm_inv_quiet [OF inv k])
    show "places m (wks[k := ?wk'], s\<lparr>sw_world := w'\<rparr>)"
      by (rule places_move [OF pl k]) (simp_all add: Starting split: sum.split)
  qed (use send_have_quiet [OF run] hashed in \<open>auto simp: chunk_hashed_def split: sum.split\<close>)
  then show ?thesis
    by (simp add: pool_step_defs Starting run)
qed

lemma step_pops:
  assumes inv: "swarm_inv (e_deps E) P m (wks, s)" and k: "k < length wks" and dist: "distinct (map cm_index (m_chunks m))"
    and Popping: "wk_phase (wks ! k) = Popping"
  shows "swarm_inv (e_deps E) P m (pool_step E m out_dir k (wks, s))"
proof -
  note pl = swarm_inv_facts(1) [OF inv k] and lib = swarm_inv_facts(2) [OF inv k] and ph = swarm_inv_facts(3) [OF inv k]
    and hashed = swarm_inv_facts(4) [OF inv k] and q = swarm_inv_facts(5-7) [OF inv k]
  let ?wk = "wks ! k"
  obtain r q' where pop: "pop_next_available_missing_chunk (sw_queue s) (sw_completed s) (cp_available_chunks (wk_peer ?wk)) = (r, q')"
    by fastforce
  show ?thesis
  proof (cases r)
    case None
    have "swarm_inv (e_deps E) P m (wks[k := ?wk\<lparr>wk_phase := Finishing\<rparr>], s\<lparr>sw_queue := q'\<rparr>)"
    proof (rule swarm_inv_quiet [OF inv k])
      show "places m (wks[k := ?wk\<lparr>wk_phase := Finishing\<rparr>], s\<lparr>sw_queue := q'\<rparr>)"
        by (rule places_move [OF pl k]) (use pop_next(2) [OF q(1,2) pop [unfolded None]] Popping in simp_all)
    qed (use hashed in simp_all)
    then show ?thesis
      by (simp add: pool_step_defs Popping pop None)
  next
    case (Some i)
    note got = pop_next(1) [OF q(1,2) pop [unfolded Some]]
    then have "i \<in> set (sw_queue s)"
      by (metis insert_iff set_mset_add_mset_insert set_mset_mset)
    with q(3) obtain meta where meta: "meta \<in> set (m_chunks m)" "cm_index meta = i"
      by auto
    have "swarm_inv (e_deps E) P m (wks[k := ?wk\<lparr>wk_phase := Fetching meta\<rparr>], s\<lparr>sw_queue := q'\<rparr>)"
    proof (rule swarm_inv_quiet [OF inv k])
      show "places m (wks[k := ?wk\<lparr>wk_phase := Fetching meta\<rparr>], s\<lparr>sw_queue := q'\<rparr>)"
        by (rule places_move [OF pl k]) (use got Popping meta(2) in simp_all)
    qed (use hashed meta(1) in simp_all)
    moreover have "find (\<lambda>c. cm_index c = i) (m_chunks m) = Some meta"
      using find_by_key [OF dist meta(1)] meta(2) by simp
    ultimately show ?thesis
      by (simp add: pool_step_defs Popping pop Some)
  qed
qed

lemma step_fetches:
  assumes inv: "swarm_inv (e_deps E) P m (wks, s)" and k: "k < length wks" and dist: "distinct (map cm_index (m_chunks m))"
    and Fetching: "wk_phase (wks ! k) = Fetching meta"
  shows "swarm_inv (e_deps E) P m (pool_step E m out_dir k (wks, s))"
proof -
  note pl = swarm_inv_facts(1) [OF inv k] and lib = swarm_inv_facts(2) [OF inv k] and ph = swarm_inv_facts(3) [OF inv k]
    and hashed = swarm_inv_facts(4) [OF inv k] and q = swarm_inv_facts(5-7) [OF inv k]
  let ?wk = "wks ! k"
  obtain r wk' w' where run: "on_stream ?wk (fetch_chunk E (sw_library s) meta) (sw_world s) = (r, wk', w')"
    by (cases "on_stream ?wk (fetch_chunk E (sw_library s) meta) (sw_world s)") auto
  let ?ph = "case r of Inl error \<Rightarrow> Releasing (cm_index meta) error | Inr (fr, temp_path) \<Rightarrow> Storing meta fr temp_path"
  have "swarm_inv (e_deps E) P m (wks[k := wk'\<lparr>wk_phase := ?ph\<rparr>], s\<lparr>sw_library := sw_library s, sw_world := w'\<rparr>)"
    by (rule swarm_inv_files [OF inv k _ _ fetch_on_stream(1) [OF run lib] lib])
      (use Fetching ph fetch_on_stream(2) [OF run lib] in \<open>auto split: sum.split\<close>)
  then show ?thesis
    by (simp add: pool_step_defs Fetching run)
qed

lemma step_stores:
  assumes inv: "swarm_inv (e_deps E) P m (wks, s)" and k: "k < length wks" and dist: "distinct (map cm_index (m_chunks m))"
    and Storing: "wk_phase (wks ! k) = Storing meta fr temp"
  shows "swarm_inv (e_deps E) P m (pool_step E m out_dir k (wks, s))"
proof -
  note pl = swarm_inv_facts(1) [OF inv k] and lib = swarm_inv_facts(2) [OF inv k] and ph = swarm_inv_facts(3) [OF inv k]
    and hashed = swarm_inv_facts(4) [OF inv k] and q = swarm_inv_facts(5-7) [OF inv k]
  let ?wk = "wks ! k"
  obtain r w' where run: "store_chunk E (sw_library s) meta fr temp out_dir (sw_world s) = (r, w')"
    by fastforce
  have fe: "fetched (e_deps E) P (sw_world s) meta fr temp" "meta \<in> set (m_chunks m)"
    using ph Storing by simp_all
  then have "part_path P (cm_index meta) temp"
    by (simp add: fetched_def)
  then have fr: "frame (worker_area P (cm_index meta)) (sw_world s) w'"
    using frame_store_chunk [OF library_at_state [OF lib]] run unfolding preserves_def by (metis snd_conv)
  show ?thesis
  proof (cases r)
    case (Inl e)
    have "swarm_inv (e_deps E) P m (wks[k := ?wk\<lparr>wk_phase := Releasing (cm_index meta) e\<rparr>], s\<lparr>sw_library := sw_library s, sw_world := w'\<rparr>)"
      by (rule swarm_inv_files [OF inv k _ _ fr lib]) (use Storing in simp_all)
    then show ?thesis
      by (simp add: pool_step_defs Storing run Inl)
  next
    case (Inr x)
    obtain y state' where x: "x = (y, state')" by fastforce
    have lib': "library_at P state'"
      using store_chunk_library [OF run [unfolded Inr x] lib] .
    let ?ph = "case y of Inl error \<Rightarrow> Releasing (cm_index meta) error | Inr _ \<Rightarrow> Recording (cm_index meta)"
    have "phase_ok (e_deps E) P m w' ?ph"
    proof (cases y)
      case (Inr u)
      have "chunk_hashed (e_deps E) P w' meta"
        using store_chunk_Inr [OF run [unfolded \<open>r = Inr x\<close> x Inr] lib fe(1)] .
      moreover have "c = meta" if "c \<in> set (m_chunks m)" "cm_index c = cm_index meta" for c
        using that fe(2) dist by (auto simp: distinct_map inj_on_def)
      ultimately show ?thesis
        using Inr by auto
    qed simp
    then have "swarm_inv (e_deps E) P m (wks[k := ?wk\<lparr>wk_phase := ?ph\<rparr>], s\<lparr>sw_library := state', sw_world := w'\<rparr>)"
      by (intro swarm_inv_files [OF inv k _ _ fr lib']) (use Storing in \<open>auto split: sum.split\<close>)
    then show ?thesis
      by (simp add: pool_step_defs Storing run Inr x)
  qed
qed

lemma step_records:
  assumes inv: "swarm_inv (e_deps E) P m (wks, s)" and k: "k < length wks" and dist: "distinct (map cm_index (m_chunks m))"
    and Recording: "wk_phase (wks ! k) = Recording i"
  shows "swarm_inv (e_deps E) P m (pool_step E m out_dir k (wks, s))"
proof -
  note pl = swarm_inv_facts(1) [OF inv k] and lib = swarm_inv_facts(2) [OF inv k] and ph = swarm_inv_facts(3) [OF inv k]
    and hashed = swarm_inv_facts(4) [OF inv k] and q = swarm_inv_facts(5-7) [OF inv k]
  let ?wk = "wks ! k"
  let ?s = "s\<lparr>sw_completed := insert i (sw_completed s)\<rparr>"
  have "swarm_inv (e_deps E) P m (wks[k := ?wk\<lparr>wk_phase := Popping\<rparr>], ?s)"
  proof (rule swarm_inv_quiet [OF inv k])
    show "places m (wks[k := ?wk\<lparr>wk_phase := Popping\<rparr>], ?s)"
      by (rule places_complete [OF pl k, of _ i]) (simp_all add: Recording)
  qed (use hashed ph Recording in auto)
  then show ?thesis
    by (simp add: pool_step_defs Recording)
qed

lemma step_releases:
  assumes inv: "swarm_inv (e_deps E) P m (wks, s)" and k: "k < length wks" and dist: "distinct (map cm_index (m_chunks m))"
    and Releasing: "wk_phase (wks ! k) = Releasing i e"
  shows "swarm_inv (e_deps E) P m (pool_step E m out_dir k (wks, s))"
proof -
  note pl = swarm_inv_facts(1) [OF inv k] and lib = swarm_inv_facts(2) [OF inv k] and ph = swarm_inv_facts(3) [OF inv k]
    and hashed = swarm_inv_facts(4) [OF inv k] and q = swarm_inv_facts(5-7) [OF inv k]
  let ?wk = "wks ! k"
  have "swarm_inv (e_deps E) P m (wks[k := ?wk\<lparr>wk_phase := Failed e\<rparr>], s\<lparr>sw_queue := sw_queue s @ [i]\<rparr>)"
  proof (rule swarm_inv_quiet [OF inv k])
    show "places m (wks[k := ?wk\<lparr>wk_phase := Failed e\<rparr>], s\<lparr>sw_queue := sw_queue s @ [i]\<rparr>)"
      by (rule places_move [OF pl k]) (simp_all add: Releasing)
  qed (use hashed in simp_all)
  then show ?thesis
    by (simp add: pool_step_defs Releasing)
qed

lemma step_finishes:
  assumes inv: "swarm_inv (e_deps E) P m (wks, s)" and k: "k < length wks" and dist: "distinct (map cm_index (m_chunks m))"
    and Finishing: "wk_phase (wks ! k) = Finishing"
  shows "swarm_inv (e_deps E) P m (pool_step E m out_dir k (wks, s))"
proof -
  note pl = swarm_inv_facts(1) [OF inv k] and lib = swarm_inv_facts(2) [OF inv k] and ph = swarm_inv_facts(3) [OF inv k]
    and hashed = swarm_inv_facts(4) [OF inv k] and q = swarm_inv_facts(5-7) [OF inv k]
  let ?wk = "wks ! k"
  obtain r wk' w' where run: "on_stream ?wk (send_have E (sw_completed s)) (sw_world s) = (r, wk', w')"
    by (cases "on_stream ?wk (send_have E (sw_completed s)) (sw_world s)") auto
  have "swarm_inv (e_deps E) P m (wks[k := wk'\<lparr>wk_phase := Finished\<rparr>], s\<lparr>sw_world := w'\<rparr>)"
  proof (rule swarm_inv_quiet [OF inv k])
    show "places m (wks[k := wk'\<lparr>wk_phase := Finished\<rparr>], s\<lparr>sw_world := w'\<rparr>)"
      by (rule places_move [OF pl k]) (simp_all add: Finishing)
  qed (use send_have_quiet [OF run] hashed in \<open>auto simp: chunk_hashed_def\<close>)
  then show ?thesis
    by (simp add: pool_step_defs Finishing run)
qed

lemma pool_step_inv:
  assumes inv: "swarm_inv (e_deps E) P m (wks, s)" and k: "k < length wks" and dist: "distinct (map cm_index (m_chunks m))"
  shows "swarm_inv (e_deps E) P m (pool_step E m out_dir k (wks, s))"
proof (cases "wk_phase (wks ! k)")
  case Starting
  then show ?thesis by (rule step_starts [OF assms])
next
  case Popping
  then show ?thesis by (rule step_pops [OF assms])
next
  case (Fetching meta)
  then show ?thesis by (rule step_fetches [OF assms])
next
  case (Storing meta fr temp)
  then show ?thesis by (rule step_stores [OF assms])
next
  case (Recording i)
  then show ?thesis by (rule step_records [OF assms])
next
  case (Releasing i e)
  then show ?thesis by (rule step_releases [OF assms])
next
  case Finishing
  then show ?thesis by (rule step_finishes [OF assms])
qed (use inv k in \<open>simp_all add: pool_step_defs\<close>)

section \<open>All interleavings\<close>

inductive pool_reaches :: "transfer_env \<Rightarrow> manifest \<Rightarrow> path option \<Rightarrow> worker list \<times> swarm \<Rightarrow> worker list \<times> swarm \<Rightarrow> bool"
  for E m out_dir p0 where
  start: "pool_reaches E m out_dir p0 p0"
| step: "pool_reaches E m out_dir p0 p \<Longrightarrow> k \<in> set (live (fst p)) \<Longrightarrow> pool_reaches E m out_dir p0 (pool_step E m out_dir k p)"

lemma run_workers_reaches: "pool_reaches E m out_dir p0 p \<Longrightarrow> pool_reaches E m out_dir p0 (run_workers E m out_dir pick n p)"
proof (induction E m out_dir pick n p rule: run_workers.induct)
  case (1 E m out_dir pick n p)
  show ?case
  proof (cases "live (fst p) = []")
    case True
    with "1.prems" show ?thesis by (simp add: run_workers.simps [of E m out_dir pick n p])
  next
    case False
    then have "pool_reaches E m out_dir p0 (pool_step E m out_dir (live (fst p) ! (pick n mod length (live (fst p)))) p)"
      by (intro pool_reaches.step [OF "1.prems"] pick_live)
    from "1.IH" [OF False this] False show ?thesis
      by (simp add: run_workers.simps [of E m out_dir pick n p])
  qed
qed

lemma run_workers_ends: "live (fst (run_workers E m out_dir pick n p)) = []"
proof (induction E m out_dir pick n p rule: run_workers.induct)
  case (1 E m out_dir pick n p)
  then show ?case
    by (cases "live (fst p) = []") (simp_all add: run_workers.simps [of E m out_dir pick n p])
qed

lemma live_less: "k \<in> set (live wks) \<Longrightarrow> k < length wks"
  by (simp add: live_def)

text \<open>What a step does to the workers: all keep their peers, and only one changes its phase.\<close>

lemma pool_step_workers:
  "map wk_peer (fst (pool_step E m out_dir k (wks, s))) = map wk_peer wks \<and> length (fst (pool_step E m out_dir k (wks, s))) = length wks"
proof -
  have "wk_peer (fst (worker_step E m out_dir wk s)) = wk_peer wk" for wk
    by (cases "wk_phase wk") (auto simp: worker_step_def on_stream_def split: prod.split option.split sum.split)
  then show ?thesis
    by (auto simp: pool_step_def map_update split: prod.split)
       (metis (no_types, lifting) fst_conv list_update_beyond list_update_id length_map map_update not_le_imp_less nth_map)
qed

lemma pool_reaches_inv:
  assumes "pool_reaches E m out_dir p0 p" and "distinct (map cm_index (m_chunks m))" and "swarm_inv (e_deps E) P m p0"
  shows "swarm_inv (e_deps E) P m p"
  using assms
proof (induction rule: pool_reaches.induct)
  case (step p k)
  then show ?case
    using pool_step_inv [of E P m "fst p" "snd p" k out_dir] live_less by simp
qed

lemma pool_reaches_peers: "pool_reaches E m out_dir p0 p \<Longrightarrow> map wk_peer (fst p) = map wk_peer (fst p0)"
proof (induction rule: pool_reaches.induct)
  case (step p k)
  then show ?case
    using pool_step_workers [of E m out_dir k "fst p" "snd p"] by simp
qed simp

text \<open>As long as no worker fails, a worker that finds nothing to do leaves nothing it could have done.\<close>

fun failing :: "worker_phase \<Rightarrow> bool" where
  "failing (Releasing _ _) \<longleftrightarrow> True"
| "failing (Failed _) \<longleftrightarrow> True"
| "failing _ \<longleftrightarrow> False"

fun idle :: "worker_phase \<Rightarrow> bool" where
  "idle Finishing \<longleftrightarrow> True"
| "idle Finished \<longleftrightarrow> True"
| "idle _ \<longleftrightarrow> False"

definition drained :: "worker list \<times> swarm \<Rightarrow> bool" where
  "drained p \<longleftrightarrow> (\<exists>wk \<in> set (fst p). failing (wk_phase wk)) \<or>
     (\<forall>wk \<in> set (fst p). idle (wk_phase wk) \<longrightarrow> set (sw_queue (snd p)) \<inter> cp_available_chunks (wk_peer wk) = {})"

lemma worker_step_idle:
  assumes "worker_step E m out_dir wk s = (wk', s')" and "distinct (sw_queue s)" and "set (sw_queue s) \<inter> sw_completed s = {}"
    and "\<not> failing (wk_phase wk)" and "\<not> failing (wk_phase wk')"
  shows "set (sw_queue s') \<subseteq> set (sw_queue s) \<and> wk_peer wk' = wk_peer wk \<and>
    (idle (wk_phase wk') \<longrightarrow> idle (wk_phase wk) \<or> set (sw_queue s') \<inter> cp_available_chunks (wk_peer wk) = {})"
proof (cases "wk_phase wk")
  case Popping
  obtain r q' where pop: "pop_next_available_missing_chunk (sw_queue s) (sw_completed s) (cp_available_chunks (wk_peer wk)) = (r, q')"
    by fastforce
  show ?thesis
  proof (cases r)
    case None
    have "mset q' = mset (sw_queue s)" "set q' \<inter> cp_available_chunks (wk_peer wk) = {}"
      using pop_next(2) [OF assms(2,3) pop [unfolded None]] by simp_all
    with assms(1) Popping pop None show ?thesis
      by (auto simp: worker_step_def dest: mset_eq_setD)
  next
    case (Some i)
    have "mset (sw_queue s) = add_mset i (mset q')"
      using pop_next(1) [OF assms(2,3) pop [unfolded Some]] by simp
    then have "set q' \<subseteq> set (sw_queue s)"
      by (metis set_mset_add_mset_insert set_mset_mset subset_insertI)
    with assms(1) Popping pop Some show ?thesis
      by (auto simp: worker_step_def split: option.split_asm)
  qed
qed (use assms in \<open>auto simp: worker_step_def on_stream_def split: prod.split_asm sum.split_asm\<close>)

lemma failing_stays:
  "worker_step E m out_dir wk s = (wk', s') \<Longrightarrow> failing (wk_phase wk) \<Longrightarrow> failing (wk_phase wk')"
  by (cases "wk_phase wk") (auto simp: worker_step_def)

lemma pool_step_drained:
  assumes "drained (wks, s)" and "places m (wks, s)" and "k < length wks"
  shows "drained (pool_step E m out_dir k (wks, s))"
proof -
  obtain wk' s' where st: "worker_step E m out_dir (wks ! k) s = (wk', s')" by fastforce
  then have ps: "pool_step E m out_dir k (wks, s) = (wks[k := wk'], s')"
    by (simp add: pool_step_def)
  have q: "distinct (sw_queue s)" "set (sw_queue s) \<inter> sw_completed s = {}"
    using assms(2) by (auto simp: places_def)
  show ?thesis
  proof (cases "\<exists>wk \<in> set (wks[k := wk']). failing (wk_phase wk)")
    case True
    then show ?thesis by (simp add: ps drained_def)
  next
    case False
    have nf: "\<not> failing (wk_phase wk')"
      using False assms(3) by (metis set_update_memI)
    then have nk: "\<not> failing (wk_phase (wks ! k))"
      using failing_stays [OF st] by blast
    have "\<not> failing (wk_phase v)" if v: "v \<in> set wks" for v
    proof -
      obtain j where j: "j < length wks" "v = wks ! j"
        using v by (auto simp: in_set_conv_nth)
      show ?thesis
      proof (cases "j = k")
        case False
        with j have "v \<in> set (wks[k := wk'])"
          by (metis length_list_update nth_list_update_neq nth_mem)
        with \<open>\<not> (\<exists>wk \<in> set (wks[k := wk']). failing (wk_phase wk))\<close> show ?thesis by blast
      qed (use j nk in simp)
    qed
    with assms(1) have old: "set (sw_queue s) \<inter> cp_available_chunks (wk_peer v) = {}" if "v \<in> set wks" "idle (wk_phase v)" for v
      using that by (auto simp: drained_def)
    note new = worker_step_idle [OF st q nk nf]
    have "set (sw_queue s') \<inter> cp_available_chunks (wk_peer v) = {}" if v: "v \<in> set (wks[k := wk'])" "idle (wk_phase v)" for v
    proof (cases "v \<in> set wks")
      case True
      with old [OF True v(2)] new show ?thesis by blast
    next
      case False
      with v(1) have "v = wk'"
        using set_update_subset_insert by fastforce
      with v(2) new old [of "wks ! k"] assms(3) show ?thesis
        by (auto dest: nth_mem)
    qed
    then show ?thesis
      by (simp add: ps drained_def)
  qed
qed

lemma pool_reaches_drained:
  assumes "pool_reaches E m out_dir p0 p" and "distinct (map cm_index (m_chunks m))" and "swarm_inv (e_deps E) P m p0" and "drained p0"
  shows "drained p"
  using assms
proof (induction rule: pool_reaches.induct)
  case (step p k)
  have "swarm_inv (e_deps E) P m p"
    using pool_reaches_inv [OF step.hyps(1) step.prems(1,2)] .
  then have "places m (fst p, snd p)"
    using swarm_inv_places [of "e_deps E" P m "fst p" "snd p"] by simp
  with step show ?case
    using pool_step_drained [of "fst p" "snd p" m k E out_dir] live_less by simp
qed

text \<open>The pool as \<open>from_peers_parallel\<close> starts it.\<close>

definition fresh_pool :: "manifest \<Rightarrow> worker list \<Rightarrow> library_state \<Rightarrow> u32 set \<Rightarrow> world \<Rightarrow> worker list \<times> swarm" where
  "fresh_pool m workers state completed w =
     (workers, \<lparr>sw_queue = missing_chunks m completed, sw_completed = completed, sw_library = state, sw_world = w\<rparr>)"

definition fresh_ok :: "deps \<Rightarrow> library_paths \<Rightarrow> manifest \<Rightarrow> worker list \<Rightarrow> library_state \<Rightarrow> u32 set \<Rightarrow> world \<Rightarrow> bool" where
  "fresh_ok D P m workers state completed w \<longleftrightarrow> distinct (map cm_index (m_chunks m)) \<and> (\<forall>wk \<in> set workers. wk_phase wk = Starting) \<and>
     library_at P state \<and> completed \<subseteq> cm_index ` set (m_chunks m) \<and>
     (\<forall>meta \<in> set (m_chunks m). cm_index meta \<in> completed \<longrightarrow> chunk_hashed D P w meta)"

lemma fresh_pool_inv:
  assumes "fresh_ok D P m workers state completed w"
  shows "swarm_inv D P m (fresh_pool m workers state completed w)" and "drained (fresh_pool m workers state completed w)"
proof -
  have "held workers = []"
    using assms by (auto simp: held_def fresh_ok_def)
  moreover have "set (missing_chunks m completed) = cm_index ` set (m_chunks m) - completed" "distinct (missing_chunks m completed)"
    using assms by (auto simp: missing_chunks_def fresh_ok_def distinct_map inj_on_def)
  ultimately show "swarm_inv D P m (fresh_pool m workers state completed w)"
    using assms by (auto simp: swarm_inv_def fresh_pool_def fresh_ok_def)
  show "drained (fresh_pool m workers state completed w)"
    using assms by (auto simp: drained_def fresh_pool_def fresh_ok_def)
qed

section \<open>The output of a parallel download\<close>

lemma pool_reaches_library: "pool_reaches E m out_dir p0 p \<Longrightarrow> library_at P (sw_library (snd p0)) \<Longrightarrow> library_at P (sw_library (snd p))"
proof (induction rule: pool_reaches.induct)
  case (step p k)
  obtain wk s' where st: "worker_step E m out_dir (fst p ! k) (snd p) = (wk, s')" by fastforce
  have "library_at P (sw_library s')"
  proof (cases "wk_phase (fst p ! k)")
    case (Storing meta fr temp)
    with st step.IH [OF step.prems] show ?thesis
      by (auto simp: worker_step_def dest: store_chunk_library split: prod.split_asm sum.split_asm)
  qed (use st step.IH [OF step.prems] in \<open>auto simp: worker_step_def split: prod.split_asm option.split_asm\<close>)
  with st show ?case
    by (cases p) (simp add: pool_step_def)
qed simp

definition verified_output :: "deps \<Rightarrow> manifest \<Rightarrow> path \<Rightarrow> world \<Rightarrow> bool" where
  "verified_output D m p w \<longleftrightarrow> (\<exists>bs. lookup w p = Some (FileN bs) \<and> hash_file_id D bs = m_file_id m)"

lemma reconstruct_and_mark_verified:
  assumes "reconstruct_and_mark E state m key p w = (Inr m', w')" and "library_at P state" and "\<not> share_area P p"
  shows "verified_output (e_deps E) m' p w'"
proof -
  obtain st where st: "state = Some st" "ad_paths st = P"
    using assms(2) by (auto simp: library_at_def)
  from assms(1) obtain w1 state' where rc: "decrypt_library_chunks_to_file E P m key p w = (Inr (), w1)"
      and mc: "mark_download_library_complete E (Some st) (output_parent_dir p) w1 = (Inr state', w')" and m: "m' = m"
    by (auto simp: reconstruct_and_mark_def active_download_state_def st bindE_Inr)
  have "\<not> touches (progress_path P) p" "\<not> touches (state_path P) p"
    using assms(3) share_area_below [of "progress_path P" P p] share_area_below [of "state_path P" P p] by auto
  then have "lookup w' p = lookup w1 p"
    using mark_complete_Some(1) [OF mc st(2)] by (simp add: frame_def)
  with reconstruct_hash [OF rc] m show ?thesis
    by (simp add: verified_output_def)
qed

lemma from_peers_verified:
  assumes "from_peers E peers p opts w = (Inr m, w')" and "\<forall>root. do_library_root opts = Some root \<longrightarrow> outside_library root p"
  shows "verified_output (e_deps E) m p w'"
proof -
  let ?opts = "if 1 < length peers then with_resume True opts else opts"
  have ne: "peers \<noteq> []"
    using assms(1) by (auto simp: from_peers_def)
  have n: "1 < length peers \<or> length peers \<le> 1 \<and> (0::nat) = 0"
    by linarith
  from assms(1) obtain a w1 where "from_peer_with E a p ?opts w1 = (Inr m, w')"
    unfolding from_peers_def if_not_P [OF ne] try_peers_run [OF n refl] by auto
  moreover have "do_library_root ?opts = do_library_root opts"
    by (simp add: with_resume_def)
  ultimately show ?thesis
    using download_verified [of E a p ?opts w1 m w'] assms(2) by (simp add: verified_output_def)
qed

lemma download_with_workers_verified:
  assumes run: "download_with_workers E pick peers p opts workers m key w = (Inr m', w')"
    and out: "\<forall>root. do_library_root opts = Some root \<longrightarrow> outside_library root p"
  shows "verified_output (e_deps E) m' p w'"
proof -
  let ?od = "output_parent_dir p"
  let ?d = "descriptor_from_manifest (e_deps E) m"
  from run obtain state0 w1 state completed w2 where init: "initialize_download_library_state E (do_library_root opts) ?d key ?od True w = (Inr state0, w1)"
      and s0: "state0 \<noteq> None" and ld: "load_resumable_chunk_indexes E state0 m ?od w1 = (Inr (state, completed), w2)"
      and rest: "(if missing_chunks m completed = [] then reconstruct_and_mark E state m key p
        else bindE (run_pool E m ?od pick workers state completed) (\<lambda>(wks, s).
          if card (sw_completed s) \<noteq> length (m_chunks m) \<and> list_ex (\<lambda>meta. cm_index meta \<notin> sw_completed s) (m_chunks m)
          then from_peers E peers p (with_resume True opts) else reconstruct_and_mark E (sw_library s) m key p)) w2 = (Inr m', w')"
    unfolding download_with_workers_def Let_def by (auto simp: bindE_Inr simp del: not_None_eq split: if_split_asm)
  obtain root where root: "do_library_root opts = Some root"
    using init s0 by (cases "do_library_root opts") (auto simp: initialize_download_library_state_def)
  let ?P = "for_share root (d_share_id ?d)"
  obtain st0 where st0: "state0 = Some st0" "ad_paths st0 = ?P"
    using initialize_Inr [OF init [unfolded root]] by metis
  have "resume_chunks E (Some st0) m ?od w1 = (Inr (state, Map.empty, completed), w2)"
    using ld st0(1) by (simp add: resume_chunks_def bindE_run)
  from resume_Some [OF this st0(2)] have at: "library_at ?P state"
    by (auto simp: library_inv_def library_at_def)
  have area: "\<not> share_area ?P p"
    using out root by (intro outside_share) (simp add: for_share_def)
  show ?thesis
  proof (cases "missing_chunks m completed = []")
    case True
    with rest show ?thesis
      using reconstruct_and_mark_verified [OF _ at area] by simp
  next
    case False
    obtain wks s where pool: "run_workers E m ?od pick 0 (fresh_pool m workers state completed w2) = (wks, s)" by fastforce
    have "library_at ?P (sw_library s)"
      using pool_reaches_library [OF run_workers_reaches [OF pool_reaches.start], of ?P "fresh_pool m workers state completed w2" E m ?od pick 0] pool at
      by (simp add: fresh_pool_def)
    moreover have "(if card (sw_completed s) \<noteq> length (m_chunks m) \<and> list_ex (\<lambda>meta. cm_index meta \<notin> sw_completed s) (m_chunks m)
        then from_peers E peers p (with_resume True opts) else reconstruct_and_mark E (sw_library s) m key p) (sw_world s) = (Inr m', w')"
      using rest False pool by (simp add: run_pool_def fresh_pool_def bindE_run)
    moreover have "\<forall>root. do_library_root (with_resume True opts) = Some root \<longrightarrow> outside_library root p"
      using out by (simp add: with_resume_def)
    ultimately show ?thesis
      using reconstruct_and_mark_verified [OF _ _ area] from_peers_verified by (auto split: if_split_asm)
  qed
qed

lemma parallel_verified:
  assumes "from_peers_parallel E pick peers p opts n w = (Inr m, w')" and "\<forall>root. do_library_root opts = Some root \<longrightarrow> outside_library root p"
  shows "verified_output (e_deps E) m p w'"
proof -
  have out': "\<forall>root. do_library_root (with_resume True opts) = Some root \<longrightarrow> outside_library root p"
    using assms(2) by (simp add: with_resume_def)
  have ne: "peers \<noteq> []"
    using assms(1) by (auto simp: from_peers_parallel_def)
  show ?thesis
  proof (cases "n \<le> 1 \<or> length peers = 1")
    case True
    with ne assms(1) show ?thesis
      using from_peers_verified [OF _ out'] by (simp add: from_peers_parallel_def)
  next
    case False
    with ne assms(1) obtain acc :: prepared and w1 where rest: "(case pr_manifest acc of
          None \<Rightarrow> throwE (all_failed (min n (length peers)) (pr_last_error acc) ''no compatible peer prepared'')
        | Some m \<Rightarrow> (case pr_file_key acc of
            None \<Rightarrow> throwE (all_failed (min n (length peers)) (pr_last_error acc) ''file key was not received'')
          | Some file_key \<Rightarrow>
              if pr_workers acc = [] then throwE (all_failed (min n (length peers)) (pr_last_error acc) ''no compatible peer prepared'')
              else if length (pr_workers acc) = 1
              then from_peers E [cp_peer_addr (wk_peer (hd (pr_workers acc)))] p (with_resume True opts)
              else download_with_workers E pick peers p opts (pr_workers acc) m file_key)) w1 = (Inr m, w')"
      unfolding from_peers_parallel_def Let_def if_not_P [OF ne] if_not_P [OF False] bindE_Inr by blast
    then show ?thesis
      using from_peers_verified [OF _ out'] download_with_workers_verified [OF _ assms(2)]
      by (cases "pr_manifest acc"; cases "pr_file_key acc") (simp_all split: if_split_asm)
  qed
qed

section \<open>Properties\<close>

text \<open>C19: whatever the peers send, in whatever order the workers run and whatever system calls fail, a
  download that returns a manifest, from one peer or from several in parallel, has left at the output path
  a file whose hash is the file id of that manifest.\<close>

theorem download_output_verified:
  assumes "\<forall>root. do_library_root opts = Some root \<longrightarrow> outside_library root p"
  shows "(from_peer_with E addr p opts w = (Inr m, w') \<longrightarrow> verified_output (e_deps E) m p w') \<and>
    (from_peers_parallel E pick peers p opts n w = (Inr m, w') \<longrightarrow> verified_output (e_deps E) m p w')"
  using download_verified [OF _ assms] parallel_verified [OF _ assms] by (auto simp: verified_output_def)

theorem download_output_verified_witness:
  "\<exists>w'. from_peer_with empty_file_env ''a'' [''o''] empty_file_options (sample_download_world empty_file_manifest []) = (Inr empty_file_manifest, w') \<and>
     verified_output sample_deps empty_file_manifest [''o''] w'"
proof -
  obtain w' where run: "from_peer_with empty_file_env ''a'' [''o''] empty_file_options (sample_download_world empty_file_manifest []) = (Inr empty_file_manifest, w')"
    using empty_file_download [OF empty_file_options_request] by blast
  have "\<forall>root. do_library_root empty_file_options = Some root \<longrightarrow> outside_library root [''o'']"
    by (simp add: empty_file_options_def with_library_root_def outside_library_def)
  from download_output_verified [OF this, of empty_file_env "''a''"] run show ?thesis
    by (auto simp: empty_file_env_def sample_env_def)
qed

text \<open>C23: in every state that the workers of a parallel download reach, in whatever order they run, whatever
  the peers send and whatever system calls fail, every chunk index of the manifest is in exactly one place:
  waiting in the queue, in the hands of exactly one worker, or completed. A completed chunk lies in the
  library with the hash of the manifest.\<close>

theorem no_chunk_lost_or_taken_twice:
  assumes "fresh_ok (e_deps E) P m workers state completed w"
    and "pool_reaches E m out_dir (fresh_pool m workers state completed w) (wks, s)"
  shows "distinct (sw_queue s @ held wks) \<and> set (sw_queue s @ held wks) \<inter> sw_completed s = {} \<and>
    set (sw_queue s @ held wks) \<union> sw_completed s = cm_index ` set (m_chunks m) \<and>
    (\<forall>meta \<in> set (m_chunks m). cm_index meta \<in> sw_completed s \<longrightarrow> chunk_hashed (e_deps E) P (sw_world s) meta)"
proof -
  have "distinct (map cm_index (m_chunks m))"
    using assms(1) by (simp add: fresh_ok_def)
  from pool_reaches_inv [OF assms(2) this fresh_pool_inv(1) [OF assms(1)]] show ?thesis
    by (simp add: swarm_inv_def)
qed

definition sample_swarm_worker :: "u32 set \<Rightarrow> worker" where
  "sample_swarm_worker available = \<lparr>wk_peer = \<lparr>cp_peer_addr = ''a'', cp_manifest = sample_seed_manifest, cp_file_key = SymmetricKey 9,
     cp_available_chunks = available\<rparr>, wk_inp = [], wk_out = [], wk_phase = Starting\<rparr>"

definition sample_swarm_library :: library_state where
  "sample_swarm_library = Some \<lparr>ad_paths = sample_seed_paths, ad_progress = progress_empty (lp_share_id sample_seed_paths), ad_dirty_chunks = 0,
     ad_last_progress_flush = 0\<rparr>"

lemma sample_fresh_ok:
  "fresh_ok sample_deps sample_seed_paths sample_seed_manifest [sample_swarm_worker {0}, sample_swarm_worker {}] sample_swarm_library {} empty_world"
  by (simp add: fresh_ok_def sample_seed_manifest_def sample_swarm_worker_def library_at_def sample_swarm_library_def)

text \<open>The first worker is past its greeting and has taken the only chunk.\<close>

theorem no_chunk_lost_or_taken_twice_witness:
  "\<exists>wks s. pool_reaches (sample_env [] sample_seed_codecs) sample_seed_manifest None
      (fresh_pool sample_seed_manifest [sample_swarm_worker {0}, sample_swarm_worker {}] sample_swarm_library {} empty_world) (wks, s) \<and>
    held wks = [0] \<and> sw_queue s = [] \<and> 0 \<notin> sw_completed s"
proof -
  let ?E = "sample_env [] sample_seed_codecs"
  let ?p0 = "fresh_pool sample_seed_manifest [sample_swarm_worker {0}, sample_swarm_worker {}] sample_swarm_library {} empty_world"
  let ?p1 = "pool_step ?E sample_seed_manifest None 0 ?p0"
  let ?p2 = "pool_step ?E sample_seed_manifest None 0 ?p1"
  let ?w = "empty_world\<lparr>inp := [], out := []\<rparr>"
  have m: "m_chunks sample_seed_manifest = [sample_seed_meta]" "cm_index sample_seed_meta = 0"
    by (simp_all add: sample_seed_manifest_def sample_seed_meta_def)
  have p1: "?p1 = ([(sample_swarm_worker {0})\<lparr>wk_phase := Popping\<rparr>, sample_swarm_worker {}],
      \<lparr>sw_queue = [0], sw_completed = {}, sw_library = sample_swarm_library, sw_world = ?w\<rparr>)"
    by (simp add: pool_step_defs fresh_pool_def on_stream_def send_have_def missing_chunks_def m sample_swarm_worker_def)
  have p2: "?p2 = ([(sample_swarm_worker {0})\<lparr>wk_phase := Fetching sample_seed_meta\<rparr>, sample_swarm_worker {}],
      \<lparr>sw_queue = [], sw_completed = {}, sw_library = sample_swarm_library, sw_world = ?w\<rparr>)"
    unfolding p1 by (simp add: pool_step_defs pop_next_available_missing_chunk_def m) (simp add: sample_swarm_worker_def)
  have "0 \<in> set (live (fst ?p0))" "0 \<in> set (live (fst ?p1))"
    unfolding p1 by (simp_all add: live_def fresh_pool_def sample_swarm_worker_def)
  then have "pool_reaches ?E sample_seed_manifest None ?p0 ?p2"
    by (intro pool_reaches.step pool_reaches.start)
  from no_chunk_lost_or_taken_twice [OF _ this [unfolded p2], of sample_seed_paths] sample_fresh_ok this [unfolded p2] show ?thesis
    by (intro exI conjI) (auto simp: sample_env_def held_def m sample_swarm_worker_def)
qed

text \<open>C24: in whatever order the workers run, they all end; and unless one of them fails, every chunk that is
  missing and that some peer offers has been completed by then.\<close>

theorem workers_complete_what_is_offered:
  assumes "fresh_ok (e_deps E) P m workers state completed w"
    and "run_workers E m out_dir pick 0 (fresh_pool m workers state completed w) = (wks, s)"
  shows "(\<forall>wk \<in> set wks. wk_phase wk = Finished \<or> (\<exists>error. wk_phase wk = Failed error)) \<and>
    ((\<forall>wk \<in> set wks. wk_phase wk = Finished) \<longrightarrow>
      (\<forall>index \<in> cm_index ` set (m_chunks m). \<forall>wk \<in> set workers. index \<in> cp_available_chunks (wk_peer wk) \<longrightarrow> index \<in> sw_completed s))"
proof -
  have dist: "distinct (map cm_index (m_chunks m))"
    using assms(1) by (simp add: fresh_ok_def)
  have r: "pool_reaches E m out_dir (fresh_pool m workers state completed w) (wks, s)"
    using run_workers_reaches [OF pool_reaches.start, of E m out_dir "fresh_pool m workers state completed w" pick 0] assms(2) by simp
  have ended: "ended wk" if wk: "wk \<in> set wks" for wk
  proof -
    obtain k where "k < length wks" "wk = wks ! k"
      using wk by (auto simp: in_set_conv_nth)
    with run_workers_ends [of E m out_dir pick 0 "fresh_pool m workers state completed w"] assms(2) show ?thesis
      by (simp add: live_def filter_empty_conv del: ended.simps)
  qed
  have all: "wk_phase wk = Finished \<or> (\<exists>error. wk_phase wk = Failed error)" if "wk \<in> set wks" for wk
    using ended [OF that] by (cases "wk_phase wk") auto
  have "index \<in> sw_completed s"
    if fin: "\<forall>wk \<in> set wks. wk_phase wk = Finished" and i: "index \<in> cm_index ` set (m_chunks m)" and v: "v \<in> set workers" "index \<in> cp_available_chunks (wk_peer v)" for index v
  proof -
    have "map wk_peer wks = map wk_peer workers"
      using pool_reaches_peers [OF r] by (simp add: fresh_pool_def)
    then obtain u where u: "u \<in> set wks" "wk_peer u = wk_peer v"
      using v(1) by (metis (no_types, lifting) in_set_conv_nth length_map nth_map)
    have "drained (wks, s)"
      using pool_reaches_drained [OF r dist fresh_pool_inv [OF assms(1)]] .
    with fin u(1) have "set (sw_queue s) \<inter> cp_available_chunks (wk_peer u) = {}"
      by (auto simp: drained_def)
    with u(2) v(2) have "index \<notin> set (sw_queue s)"
      by auto
    moreover have "held wks = []"
      using fin by (auto simp: held_def)
    ultimately show ?thesis
      using pool_reaches_inv [OF r dist fresh_pool_inv(1) [OF assms(1)]] i by (auto simp: swarm_inv_def)
  qed
  with all show ?thesis by blast
qed

theorem workers_complete_what_is_offered_witness:
  "\<exists>wks s. run_workers (sample_env [] sample_seed_codecs) sample_seed_manifest None (\<lambda>n. n) 0
      (fresh_pool sample_seed_manifest [sample_swarm_worker {0}, sample_swarm_worker {}] sample_swarm_library {} empty_world) = (wks, s) \<and>
    (\<forall>wk \<in> set wks. wk_phase wk = Finished \<or> (\<exists>error. wk_phase wk = Failed error))"
proof -
  obtain wks s where run: "run_workers (sample_env [] sample_seed_codecs) sample_seed_manifest None (\<lambda>n. n) 0
      (fresh_pool sample_seed_manifest [sample_swarm_worker {0}, sample_swarm_worker {}] sample_swarm_library {} empty_world) = (wks, s)"
    by fastforce
  have "fresh_ok (e_deps (sample_env [] sample_seed_codecs)) sample_seed_paths sample_seed_manifest
      [sample_swarm_worker {0}, sample_swarm_worker {}] sample_swarm_library {} empty_world"
    using sample_fresh_ok by (simp add: sample_env_def)
  from workers_complete_what_is_offered [OF this run] run show ?thesis by blast
qed

end
