(* ===== verification/Etle_Daemon.thy ===== *)
theory Etle_Daemon
  imports Etle_Ipc Etle_Seed Etle_Swarm_Safe
begin

text \<open>
  \<open>src/ipc/server\<close>: the daemon's side of the local socket. \<open>commands.rs\<close> answers the commands; adding a file and
  downloading a share are queued as tasks that run beside the server. \<open>listener.rs\<close> is the loop that takes one
  command per connection, \<open>events.rs\<close> the subscription to the events that the tasks publish.

  The state of the daemon outside its files is the registry of download jobs, the tasks queued, the events
  published by the commands, and the numbers of subscriptions started and of tasks that have panicked. A task is executed as a whole in a step of
  its own: two tasks may run in either order, but a task is not interrupted by another one.
\<close>

section \<open>State\<close>

datatype task = SeedTask path nat | DownloadTask ipc_download bool string

record daemon =
  dm_jobs :: job_registry
  dm_tasks :: "task list"
  dm_events :: "ipc_event list"
  dm_subscriptions :: nat
  dm_panics :: nat

text \<open>
  What the daemon takes from its surroundings: that of the transfers, the serializers of its messages, the texts
  of errors, addresses and paths, what a search for peers meets (the outcome of binding the socket, the network
  interfaces, the datagrams that arrive), and the scheduling of the threads of a task.
\<close>

record daemon_env =
  de_transfer :: transfer_env
  de_commands :: "ipc_command bincode"
  de_responses :: "ipc_response bincode"
  de_events :: "ipc_event bincode"
  de_discovery :: "discovery_message bincode"
  de_bound :: "(io_error, unit) result"
  de_if_addrs :: "(io_error, if_addr list) result"
  de_datagrams :: "(bytes \<times> socket_addr) list"
  de_show_file_error :: "file_error \<Rightarrow> string"
  de_show_io_error :: "io_error \<Rightarrow> string"
  de_show_addr :: "socket_addr \<Rightarrow> string"
  de_show_path :: "path \<Rightarrow> string"
  de_arrival :: "seed_plain_chunk list \<Rightarrow> seed_plain_chunk list"
  de_pick :: "nat \<Rightarrow> nat"

abbreviation de_deps :: "daemon_env \<Rightarrow> deps" where
  "de_deps X \<equiv> e_deps (de_transfer X)"

abbreviation de_lib :: "daemon_env \<Rightarrow> library_codecs" where
  "de_lib X \<equiv> e_lib (de_transfer X)"

definition publish :: "ipc_event \<Rightarrow> daemon \<Rightarrow> daemon" where
  "publish event dm = dm\<lparr>dm_events := dm_events dm @ [event]\<rparr>"

section \<open>Shares\<close>

fun format_share_mode :: "share_mode \<Rightarrow> string" where
  "format_share_mode Seeding = ''seeding''"
| "format_share_mode Downloading = ''downloading''"
| "format_share_mode Completed = ''completed''"
| "format_share_mode Paused = ''paused''"

definition ipc_share_summary_from_local :: "local_share_summary \<Rightarrow> ipc_share_summary" where
  "ipc_share_summary_from_local share = \<lparr>is_share_id = d_share_id (lss_descriptor share), is_name = d_name (lss_descriptor share),
     is_completed_chunks = summary_completed_chunks share, is_total_chunks = summary_total_chunks share,
     is_has_secret = lss_has_secret share, is_mode = map_option format_share_mode (summary_mode share)\<rparr>"

definition share_summary_by_id :: "daemon_env \<Rightarrow> path \<Rightarrow> share_id \<Rightarrow> (string, ipc_share_summary option) io" where
  "share_summary_by_id X root sid =
     bindE (intoE (de_show_file_error X) (library_list (de_deps X) (de_lib X) root)) (\<lambda>shares.
     returnE (map_option ipc_share_summary_from_local (find (\<lambda>share. d_share_id (lss_descriptor share) = sid) shares)))"

definition list_shares_response :: "daemon_env \<Rightarrow> path \<Rightarrow> (ipc_error, ipc_response) io" where
  "list_shares_response X root =
     bindE (tryE (library_list (de_deps X) (de_lib X) root)) (\<lambda>r. returnE (case r of
         Inr shares \<Rightarrow> Shares (map ipc_share_summary_from_local shares)
       | Inl error \<Rightarrow> ResponseError (de_show_file_error X error)))"

definition delete_share_response :: "daemon_env \<Rightarrow> path \<Rightarrow> share_id \<Rightarrow> daemon \<Rightarrow> (ipc_error, ipc_response \<times> daemon) io" where
  "delete_share_response X root sid dm =
     bindE (tryE (share_summary_by_id X root sid)) (\<lambda>found. case found of
       Inl message \<Rightarrow> returnE (ResponseError message, dm)
     | Inr None \<Rightarrow> returnE (ResponseError (''share '' @ share_id_to_string sid @ '' does not exist in the local library''), dm)
     | Inr (Some share) \<Rightarrow>
         bindE (tryE (library_delete root sid)) (\<lambda>deleted. returnE (case deleted of
             Inr True \<Rightarrow> (ShareDeleted sid (is_name share), publish (ShareDeletedEvent sid) dm)
           | Inr False \<Rightarrow> (ResponseError (''share '' @ share_id_to_string sid @ '' disappeared before it could be deleted''), dm)
           | Inl error \<Rightarrow> (ResponseError (de_show_file_error X error), dm))))"

section \<open>Output files\<close>

definition default_download_output_dir :: "path \<Rightarrow> path" where
  "default_download_output_dir root = root @ [''output'']"

definition temporary_download_output_path :: "path \<Rightarrow> nat \<Rightarrow> path" where
  "temporary_download_output_path root process_id =
     default_download_output_dir root @ [''.etle-download-daemon-'' @ show_nat process_id @ ''.part'']"

definition safe_output_file_name :: "string \<Rightarrow> string" where
  "safe_output_file_name wanted = (case path_file_name wanted of
      Some name \<Rightarrow> if name \<noteq> [] then name else ''downloaded-file''
    | None \<Rightarrow> ''downloaded-file'')"

definition default_download_output_path :: "path \<Rightarrow> string \<Rightarrow> path" where
  "default_download_output_path root wanted = default_download_output_dir root @ [safe_output_file_name wanted]"

definition create_output_parent_dir :: "path \<Rightarrow> (io_error, unit) io" where
  "create_output_parent_dir p = (if p \<noteq> [] then fs_create_dir_all (butlast p) else returnE ())"

text \<open>
  \<open>Path::file_stem\<close> and \<open>Path::extension\<close> of a file name: it is split at its last dot, unless the dot is the first
  character or missing.
\<close>

definition split_extension :: "string \<Rightarrow> string \<times> string option" where
  "split_extension name =
     (let ext = takeWhile (\<lambda>c. c \<noteq> CHR ''.'') (rev name); rest = drop (Suc (length ext)) (rev name) in
      if length ext = length name \<or> rest = [] then (name, None) else (rev rest, Some (rev ext)))"

definition copy_name :: "string \<times> string option \<Rightarrow> nat \<Rightarrow> string" where
  "copy_name parts copy_index = (case parts of (stem, extension) \<Rightarrow>
     stem @ '' ('' @ show_nat copy_index @ '')'' @ (case extension of Some e \<Rightarrow> ''.'' @ e | None \<Rightarrow> []))"

text \<open>
  The loop over \<open>1_u32..\<close>. The range overflows before it yields \<open>u32::MAX\<close>; then there is no result.
\<close>

function copy_loop :: "path \<Rightarrow> string \<times> string option \<Rightarrow> nat \<Rightarrow> world \<Rightarrow> path option \<times> world" where
  "copy_loop parent parts copy_index w =
     (if 2 ^ 32 - 1 \<le> copy_index then (None, w)
      else let candidate = parent @ [copy_name parts copy_index] in
        case (path_exists candidate :: (io_error, bool) io) w of
          (Inr True, w') \<Rightarrow> copy_loop parent parts (Suc copy_index) w'
        | (_, w') \<Rightarrow> (Some candidate, w'))"
  by pat_completeness auto
termination
  by (relation "measure (\<lambda>(parent, parts, copy_index, w). 2 ^ 32 - 1 - copy_index)") auto

declare copy_loop.simps [simp del]

definition unique_output_path :: "path \<Rightarrow> world \<Rightarrow> path option \<times> world" where
  "unique_output_path p w = (case (path_exists p :: (io_error, bool) io) w of
      (Inr True, w') \<Rightarrow> copy_loop (butlast p) (if p = [] then (''downloaded-file'', None) else split_extension (last p)) 1 w'
    | (_, w') \<Rightarrow> (Some p, w'))"

text \<open>The overflow of the index is a panic, which ends the task.\<close>

definition move_auto_download_output :: "path \<Rightarrow> path \<Rightarrow> string \<Rightarrow> (io_error, path option) io" where
  "move_auto_download_output temporary_output root wanted =
     (\<lambda>w. case unique_output_path (default_download_output_path root wanted) w of
        (None, w') \<Rightarrow> (Inr None, w')
      | (Some final_output, w') \<Rightarrow>
          bindE (create_output_parent_dir final_output) (\<lambda>_.
          bindE (fs_rename temporary_output final_output) (\<lambda>_.
          returnE (Some final_output))) w')"

section \<open>Downloads\<close>

definition effective_download_parallelism :: "nat \<Rightarrow> nat \<Rightarrow> nat" where
  "effective_download_parallelism requested_parallelism peer_count =
     (if requested_parallelism = 0 then max peer_count 1 else requested_parallelism)"

definition transfer_completed_response :: "share_id \<Rightarrow> path \<Rightarrow> manifest \<Rightarrow> ipc_response" where
  "transfer_completed_response sid p m = TransferCompleted sid p (m_file_name m) (m_file_size m) (length (m_chunks m))"

text \<open>The peers given, or else those found on the network; an error is a message.\<close>

definition download_peers :: "daemon_env \<Rightarrow> ipc_download \<Rightarrow> (string, socket_addr list) result" where
  "download_peers X d =
     (if id_peers d = [] then
        let opts = with_multicast (id_discovery_multicast d) (with_timeout (max (id_discovery_timeout_ms d) 1) (discovery_options_new (id_discovery_port d))) in
        case peers_with (de_discovery X) (de_bound X) (de_if_addrs X) (id_share_id d) opts (de_datagrams X) of
          Inr (_, discovered) \<Rightarrow>
            if discovered \<noteq> [] then Inr discovered
            else Inl (''no peers discovered for share '' @ share_id_to_string (id_share_id d) @
              ''; pass --peer manually or ensure etled discovery is enabled on the LAN'')
        | Inl error \<Rightarrow> Inl (''peer discovery failed: '' @ de_show_io_error X error)
      else Inr (id_peers d))"

definition daemon_download_options :: "daemon_env \<Rightarrow> ipc_download \<Rightarrow> bool \<Rightarrow> path \<Rightarrow> download_file_options" where
  "daemon_download_options X d resume root =
     (let opts = with_request_window (id_request_window d) (with_requested_share_id (Some (id_share_id d))
        (with_resume resume (with_library_root root (download_options_new ''etle-daemon'' Normal)))) in
      case id_auth_psk d of
        Some auth_psk \<Rightarrow> with_auth_psk (from_passphrase (de_deps X) (str_bytes auth_psk)) opts
      | None \<Rightarrow> opts)"

definition run_download :: "daemon_env \<Rightarrow> socket_addr list \<Rightarrow> path \<Rightarrow> download_file_options \<Rightarrow> nat \<Rightarrow> (network_error, manifest) io" where
  "run_download X peers p opts parallelism =
     (if 1 < parallelism then from_peers_parallel (de_transfer X) (de_pick X) (map (de_show_addr X) peers) p opts parallelism
      else from_peers (de_transfer X) (map (de_show_addr X) peers) p opts)"

text \<open>\<open>None\<close> is a task that has panicked.\<close>

definition handle_download_command :: "daemon_env \<Rightarrow> path \<Rightarrow> ipc_download \<Rightarrow> bool \<Rightarrow> (ipc_error, ipc_response option) io" where
  "handle_download_command X root d resume =
     bindE (askE pid) (\<lambda>process_id.
     let output_path = (case id_output d of Some p \<Rightarrow> p | None \<Rightarrow> temporary_download_output_path root process_id) in
     bindE (tryE (create_output_parent_dir output_path)) (\<lambda>created. case created of
       Inl error \<Rightarrow> returnE (Some (ResponseError (de_show_io_error X error)))
     | Inr _ \<Rightarrow> (case download_peers X d of
         Inl message \<Rightarrow> returnE (Some (ResponseError message))
       | Inr peers \<Rightarrow>
           bindE (tryE (run_download X peers output_path (daemon_download_options X d resume root)
             (effective_download_parallelism (id_parallelism d) (length peers)))) (\<lambda>result. case result of
             Inl error \<Rightarrow> returnE (Some (ResponseError (e_show_error (de_transfer X) error)))
           | Inr m \<Rightarrow>
               if id_output d = None then
                 bindE (tryE (move_auto_download_output output_path root (m_file_name m))) (\<lambda>moved. case moved of
                   Inl error \<Rightarrow> returnE (Some (ResponseError (de_show_io_error X error)))
                 | Inr None \<Rightarrow> returnE None
                 | Inr (Some final_output) \<Rightarrow> returnE (Some (transfer_completed_response (id_share_id d) final_output m)))
               else returnE (Some (transfer_completed_response (id_share_id d) output_path m))))))"

section \<open>Tasks\<close>

definition run_seed_file_command :: "daemon_env \<Rightarrow> path \<Rightarrow> path \<Rightarrow> nat \<Rightarrow> (ipc_error, ipc_response) io" where
  "run_seed_file_command X root input chunk_size =
     bindE (tryE (add (de_transfer X) (de_arrival X) input (if chunk_size = 0 then DEFAULT_CHUNK_SIZE else chunk_size) root)) (\<lambda>added. case added of
       Inl error \<Rightarrow> returnE (ResponseError (e_show_error (de_transfer X) error))
     | Inr d \<Rightarrow>
         bindE (tryE (share_summary_by_id X root (d_share_id d))) (\<lambda>found. returnE (case found of
             Inr (Some share) \<Rightarrow> ShareAdded share
           | Inr None \<Rightarrow> ResponseError (''share '' @ share_id_to_string (d_share_id d) @ '' was added but cannot be found in the local library'')
           | Inl error \<Rightarrow> ResponseError error)))"

definition run_seed_task :: "daemon_env \<Rightarrow> path \<Rightarrow> path \<Rightarrow> nat \<Rightarrow> daemon \<Rightarrow> (ipc_error, daemon) io" where
  "run_seed_task X root input chunk_size dm =
     bindE (run_seed_file_command X root input chunk_size) (\<lambda>response. returnE (case response of
         ShareAdded share \<Rightarrow> publish (ShareUpdated share) dm
       | ResponseError message \<Rightarrow> publish (EventError message) dm
       | _ \<Rightarrow> dm))"

definition download_events :: "share_id \<Rightarrow> string \<Rightarrow> ipc_response \<Rightarrow> daemon \<Rightarrow> daemon" where
  "download_events sid job_id response dm = (case response of
      TransferCompleted _ p _ file_size chunks \<Rightarrow>
        publish (TransferCompletedEvent (Some job_id) sid p)
          (publish (TaskProgress (Some job_id) ''peer:completed'' (share_id_to_string sid) chunks chunks file_size file_size 0) dm)
    | ResponseError message \<Rightarrow> publish (EventError message) dm
    | _ \<Rightarrow> dm)"

definition run_download_task :: "daemon_env \<Rightarrow> path \<Rightarrow> ipc_download \<Rightarrow> bool \<Rightarrow> string \<Rightarrow> daemon \<Rightarrow> (ipc_error, daemon) io" where
  "run_download_task X root d resume job_id dm =
     bindE (handle_download_command X root d resume) (\<lambda>r. case r of
       None \<Rightarrow> returnE (dm\<lparr>dm_panics := Suc (dm_panics dm)\<rparr>)
     | Some response \<Rightarrow>
         let dm1 = download_events (id_share_id d) job_id response dm in
         bindE (case response of
             TransferCompleted _ _ _ _ _ \<Rightarrow>
               bindE (tryE (share_summary_by_id X root (id_share_id d))) (\<lambda>found.
               returnE (case found of Inr (Some share) \<Rightarrow> publish (ShareUpdated share) dm1 | _ \<Rightarrow> dm1))
           | _ \<Rightarrow> returnE dm1) (\<lambda>dm2.
         returnE (dm2\<lparr>dm_jobs := unregister (id_share_id d) job_id (dm_jobs dm2)\<rparr>)))"

definition run_task :: "daemon_env \<Rightarrow> path \<Rightarrow> task \<Rightarrow> daemon \<Rightarrow> (ipc_error, daemon) io" where
  "run_task X root t dm = (case t of
      SeedTask input chunk_size \<Rightarrow> run_seed_task X root input chunk_size dm
    | DownloadTask d resume job_id \<Rightarrow> run_download_task X root d resume job_id dm)"

section \<open>Commands\<close>

text \<open>The clock counts nanoseconds.\<close>

definition generate_job_id :: "string \<Rightarrow> share_id \<Rightarrow> (ipc_error, string) io" where
  "generate_job_id tag sid =
     bindE clock_now (\<lambda>nanos. bindE (askE pid) (\<lambda>process_id.
     returnE (tag @ ''-'' @ share_id_to_string sid @ ''-'' @ show_nat (nanos div 1000000) @ ''-'' @ show_nat process_id)))"

definition queue_seed_file_command :: "daemon_env \<Rightarrow> path \<Rightarrow> nat \<Rightarrow> daemon \<Rightarrow> ipc_response \<times> daemon" where
  "queue_seed_file_command X input chunk_size dm =
     (Ack (''seed job queued: '' @ de_show_path X input), dm\<lparr>dm_tasks := dm_tasks dm @ [SeedTask input chunk_size]\<rparr>)"

definition queue_download_command :: "ipc_download \<Rightarrow> bool \<Rightarrow> daemon \<Rightarrow> (ipc_error, ipc_response \<times> daemon) io" where
  "queue_download_command d resume dm =
     bindE (generate_job_id ''download'' (id_share_id d)) (\<lambda>job_id.
     returnE (TransferQueued (id_share_id d) job_id,
       dm\<lparr>dm_jobs := register (id_share_id d) job_id (dm_jobs dm), dm_tasks := dm_tasks dm @ [DownloadTask d resume job_id]\<rparr>))"

definition handle :: "daemon_env \<Rightarrow> path \<Rightarrow> ipc_command \<Rightarrow> daemon \<Rightarrow> (ipc_error, ipc_response \<times> daemon) io" where
  "handle X root command dm = (case command of
      Ping \<Rightarrow> returnE (Pong, dm)
    | ListShares \<Rightarrow> bindE (list_shares_response X root) (\<lambda>response. returnE (response, dm))
    | DeleteShare sid \<Rightarrow> delete_share_response X root sid dm
    | Shutdown \<Rightarrow> returnE (Ack ''daemon shutdown requested'', dm)
    | StartServing _ \<Rightarrow> returnE (Ack ''P2P serving is already managed by etled serve'', dm)
    | StopServing \<Rightarrow> returnE (ResponseError ''stopping only the P2P server is not implemented yet; use Shutdown'', dm)
    | SeedFile _ _ \<Rightarrow> returnE (ResponseError ''seed requires async daemon handling'', dm)
    | Download _ \<Rightarrow> returnE (ResponseError ''download requires async daemon handling'', dm)
    | DownloadFresh _ \<Rightarrow> returnE (ResponseError ''download requires async daemon handling'', dm)
    | Pause _ \<Rightarrow> returnE (ResponseError ''pause/resume control is not implemented yet'', dm)
    | Resume _ \<Rightarrow> returnE (ResponseError ''pause/resume control is not implemented yet'', dm)
    | SubscribeEvents \<Rightarrow> returnE (Ack ''use a streaming IPC connection to subscribe to events'', dm))"

definition handle_async :: "daemon_env \<Rightarrow> path \<Rightarrow> ipc_command \<Rightarrow> daemon \<Rightarrow> (ipc_error, ipc_response \<times> daemon) io" where
  "handle_async X root command dm = (case command of
      SeedFile input chunk_size \<Rightarrow> returnE (queue_seed_file_command X input chunk_size dm)
    | Download d \<Rightarrow> queue_download_command d True dm
    | DownloadFresh d \<Rightarrow> queue_download_command d False dm
    | _ \<Rightarrow> handle X root command dm)"

section \<open>The server\<close>

fun is_disconnected_client :: "ipc_error \<Rightarrow> bool" where
  "is_disconnected_client (IpcIo e) \<longleftrightarrow> e \<in> {BrokenPipe, ConnectionReset, ConnectionAborted, NotConnected, UnexpectedEof}"
| "is_disconnected_client _ \<longleftrightarrow> False"

definition send_response_or_ignore_closed_client :: "ipc_response bincode \<Rightarrow> ipc_response \<Rightarrow> bool \<Rightarrow> (ipc_error, bool) io" where
  "send_response_or_ignore_closed_client C response should_shutdown =
     bindE (tryE (send_ipc_message C response)) (\<lambda>sent. case sent of
       Inr _ \<Rightarrow> returnE should_shutdown
     | Inl error \<Rightarrow> if is_disconnected_client error then returnE should_shutdown else throwE error)"

text \<open>One connection. The outcome stands beside the state, which an error does not undo.\<close>

definition once :: "daemon_env \<Rightarrow> path \<Rightarrow> daemon \<Rightarrow> (ipc_error, (ipc_error, bool) result \<times> daemon) io" where
  "once X root dm =
     bindE (tryE (bindE (intoE IpcIo stream_connect) (\<lambda>_. receive_ipc_message (de_commands X)))) (\<lambda>received. case received of
       Inl error \<Rightarrow> returnE (Inl error, dm)
     | Inr command \<Rightarrow>
         if command = SubscribeEvents then returnE (Inr False, dm\<lparr>dm_subscriptions := Suc (dm_subscriptions dm)\<rparr>)
         else bindE (handle_async X root command dm) (\<lambda>(response, dm').
           bindE (tryE (send_response_or_ignore_closed_client (de_responses X) response (command = Shutdown))) (\<lambda>outcome.
           returnE (outcome, dm'))))"

text \<open>
  A subscription: \<open>received\<close> is what the receiver of the broadcast channel gives, an event or the number of events
  that were dropped because the subscriber was too slow, until the channel is closed.
\<close>

definition subscription_event :: "ipc_event + nat \<Rightarrow> ipc_event" where
  "subscription_event r = (case r of
      Inl event \<Rightarrow> event
    | Inr skipped \<Rightarrow> EventError (''event subscriber lagged; skipped '' @ show_nat skipped @ '' event(s)''))"

primrec subscription_loop :: "ipc_event bincode \<Rightarrow> (ipc_event + nat) list \<Rightarrow> (ipc_error, unit) io" where
  "subscription_loop C [] = returnE ()"
| "subscription_loop C (r # received) =
     bindE (tryE (send_ipc_message C (subscription_event r))) (\<lambda>sent. case sent of
       Inl error \<Rightarrow> if is_disconnected_client error then returnE () else throwE error
     | Inr _ \<Rightarrow> subscription_loop C received)"

definition serve_subscription :: "daemon_env \<Rightarrow> (ipc_event + nat) list \<Rightarrow> (ipc_error, unit) io" where
  "serve_subscription X received =
     bindE (tryE (send_ipc_message (de_responses X) (Ack ''event subscription started''))) (\<lambda>sent. case sent of
       Inl error \<Rightarrow> if is_disconnected_client error then returnE () else throwE error
     | Inr _ \<Rightarrow> subscription_loop (de_events X) received)"

text \<open>\<open>bound\<close> is the outcome of binding the socket.\<close>

definition bind_ipc_listener :: "path \<Rightarrow> (io_error, unit) result \<Rightarrow> (ipc_error, unit) io" where
  "bind_ipc_listener socket_path bound =
     bindE (if socket_path \<noteq> [] then intoE IpcIo (fs_create_dir_all (butlast socket_path)) else returnE ()) (\<lambda>_.
     bindE (path_exists socket_path) (\<lambda>present.
     bindE (if present then intoE IpcIo (fs_remove_file socket_path) else returnE ()) (\<lambda>_.
     liftE (map_err IpcIo bound))))"

definition ipc_socket_cleanup :: "path \<Rightarrow> (ipc_error, unit) io" where
  "ipc_socket_cleanup socket_path = bindE (tryE (fs_remove_file socket_path)) (\<lambda>_. returnE ())"

text \<open>
  The running daemon: the loop of \<open>forever\<close>, beside which the tasks run. A state is whether the loop still runs, and
  with what it has ended, the daemon and the world. When the loop ends, the socket is removed.
\<close>

datatype phase = Serving | Ended "(ipc_error, unit) result"

type_synonym daemon_state = "phase \<times> daemon \<times> world"

definition remove_nth :: "nat \<Rightarrow> 'a list \<Rightarrow> 'a list" where
  "remove_nth k xs = take k xs @ drop (Suc k) xs"

inductive daemon_step :: "daemon_env \<Rightarrow> path \<Rightarrow> path \<Rightarrow> daemon_state \<Rightarrow> daemon_state \<Rightarrow> bool" for X root socket where
  serve: "once X root dm w = (Inr (Inr False, dm'), w') \<Longrightarrow> daemon_step X root socket (Serving, dm, w) (Serving, dm', w')"
| shutdown: "once X root dm w = (Inr (Inr True, dm'), w1) \<Longrightarrow> ipc_socket_cleanup socket w1 = (r, w') \<Longrightarrow>
    daemon_step X root socket (Serving, dm, w) (Ended (Inr ()), dm', w')"
| fail: "once X root dm w = (Inr (Inl e, dm'), w1) \<Longrightarrow> ipc_socket_cleanup socket w1 = (r, w') \<Longrightarrow>
    daemon_step X root socket (Serving, dm, w) (Ended (Inl e), dm', w')"
| job: "k < length (dm_tasks dm) \<Longrightarrow> run_task X root (dm_tasks dm ! k) (dm\<lparr>dm_tasks := remove_nth k (dm_tasks dm)\<rparr>) w = (Inr dm', w') \<Longrightarrow>
    daemon_step X root socket (s, dm, w) (s, dm', w')"

inductive daemon_reaches :: "daemon_env \<Rightarrow> path \<Rightarrow> path \<Rightarrow> daemon_state \<Rightarrow> daemon_state \<Rightarrow> bool" for X root socket where
  start: "daemon_reaches X root socket s s"
| step: "daemon_reaches X root socket s t \<Longrightarrow> daemon_step X root socket t u \<Longrightarrow> daemon_reaches X root socket s u"

end
