(* ===== verification/Etle_Daemon_Safe.thy ===== *)
theory Etle_Daemon_Safe
  imports Etle_Daemon
begin

text \<open>
  What the daemon guarantees: where it puts a downloaded file, which commands change files, which jobs are
  registered, and what a client on the other end of the local socket gets.
\<close>

section \<open>Names of output files\<close>

text \<open>A name that stands for a file of the directory it is joined to: no separator, and neither the directory itself nor its parent.\<close>

definition plain_name :: "string \<Rightarrow> bool" where
  "plain_name name \<longleftrightarrow> name \<noteq> [] \<and> CHR ''/'' \<notin> set name \<and> name \<noteq> ''.'' \<and> name \<noteq> ''..''"

lemma split_on_free: "piece \<in> set (split_on p s) \<Longrightarrow> c \<in> set piece \<Longrightarrow> \<not> p c"
proof (induction p s arbitrary: piece rule: split_on.induct)
  case (2 p c' s)
  then show ?case
    by (cases "split_on p s") (fastforce split: if_splits)+
qed auto

lemma safe_output_file_name_plain: "plain_name (safe_output_file_name wanted)"
proof (cases "path_file_name wanted")
  case None
  then show ?thesis by (simp add: safe_output_file_name_def plain_name_def)
next
  case (Some name)
  then have "name \<in> set (path_components wanted)" and "name \<noteq> ''..''"
    by (auto simp: path_file_name_def Let_def split: if_splits)
  then have "name \<noteq> []" "name \<noteq> ''.''" "CHR ''/'' \<notin> set name"
    using split_on_free [of name "\<lambda>c. c = CHR ''/''" wanted] by (auto simp: path_components_def)
  with Some \<open>name \<noteq> ''..''\<close> show ?thesis
    by (simp add: safe_output_file_name_def plain_name_def)
qed

lemma split_extension_parts:
  assumes "split_extension name = (stem, extension)"
  shows "set stem \<subseteq> set name" and "extension = Some e \<Longrightarrow> set e \<subseteq> set name"
proof -
  have "c \<in> set (drop n (rev name)) \<Longrightarrow> c \<in> set name" for c n
    using set_drop_subset [of n "rev name"] by auto
  moreover have "c \<in> set (takeWhile q (rev name)) \<Longrightarrow> c \<in> set name" for c q
    using set_takeWhileD [of c q "rev name"] by auto
  ultimately show "set stem \<subseteq> set name" and "extension = Some e \<Longrightarrow> set e \<subseteq> set name"
    using assms by (auto simp: split_extension_def Let_def split: if_splits)
qed

lemma no_slash_in_number: "CHR ''/'' \<notin> set (show_nat n)"
proof
  assume "CHR ''/'' \<in> set (show_nat n)"
  then obtain d where "d < 10" "CHR ''/'' = digit_char d"
    using show_nat_digits by blast
  then have "of_char CHR ''/'' = (of_char (digit_char d) :: nat)"
    by simp
  with \<open>d < 10\<close> show False
    by simp
qed

lemma copy_name_plain: "plain_name name \<Longrightarrow> plain_name (copy_name (split_extension name) k)"
proof -
  assume name: "plain_name name"
  obtain stem extension where parts: "split_extension name = (stem, extension)" by fastforce
  have "CHR ''('' \<in> set (copy_name (split_extension name) k)"
    by (simp add: copy_name_def parts)
  moreover have "CHR ''/'' \<notin> set (copy_name (split_extension name) k)"
    using name split_extension_parts [OF parts] no_slash_in_number [of k]
    by (auto simp: copy_name_def parts plain_name_def split: option.splits)
  ultimately show "plain_name (copy_name (split_extension name) k)"
    by (auto simp: plain_name_def)
qed

lemma copy_name_inj: "copy_name parts j = copy_name parts k \<Longrightarrow> j = k"
  by (auto simp: copy_name_def split: prod.splits)

section \<open>A fresh output path\<close>

lemma path_exists_lookup: "path_exists p w = (r :: io_error + bool, w') \<Longrightarrow> lookup w' = lookup w"
  by (rule frame_all_lookup [OF frame_path_tests(2)])

lemma copy_loop_shape:
  "copy_loop parent parts i w = (Some p, w') \<Longrightarrow> lookup w' = lookup w \<and> (\<exists>k. p = parent @ [copy_name parts k])"
proof (induction parent parts i w rule: copy_loop.induct)
  case (1 parent parts i w)
  obtain r w1 where ex: "(path_exists (parent @ [copy_name parts i]) :: (io_error, bool) io) w = (r, w1)" by fastforce
  note same = path_exists_lookup [OF ex]
  show ?case
  proof (cases "r = Inr True")
    case True
    with 1 ex same show ?thesis
      by (auto simp: copy_loop.simps [of parent parts i w] Let_def split: if_splits)
  next
    case False
    with 1(2) ex same show ?thesis
      by (cases r) (auto simp: copy_loop.simps [of parent parts i w] Let_def split: if_splits bool.splits)
  qed
qed

lemma copy_loop_calm:
  "faults w = [] \<Longrightarrow> copy_loop parent parts i w =
     (if 2 ^ 32 - 1 \<le> i then (None, w)
      else if exists_path w (parent @ [copy_name parts i]) then copy_loop parent parts (Suc i) w
      else (Some (parent @ [copy_name parts i]), w))"
  by (subst copy_loop.simps) (simp add: path_exists_nofault Let_def)

lemma copy_loop_fresh: "faults w = [] \<Longrightarrow> copy_loop parent parts i w = (Some p, w') \<Longrightarrow> w' = w \<and> \<not> exists_path w p"
proof (induction parent parts i w rule: copy_loop.induct)
  case (1 parent parts i w)
  have ex: "(path_exists (parent @ [copy_name parts i]) :: (io_error, bool) io) w = (Inr (exists_path w (parent @ [copy_name parts i])), w)"
    using 1(2) by (simp add: path_exists_nofault)
  show ?case
    using 1(1) [OF _ refl ex [symmetric]] 1(2,3) by (auto simp: copy_loop_calm [OF 1(2), of parent parts i] ex split: if_splits)
qed

lemma copy_loop_None:
  "faults w = [] \<Longrightarrow> copy_loop parent parts i w = (None, w') \<Longrightarrow> i \<le> j \<Longrightarrow> j < 2 ^ 32 - 1 \<Longrightarrow> exists_path w (parent @ [copy_name parts j])"
proof (induction parent parts i w rule: copy_loop.induct)
  case (1 parent parts i w)
  have ex: "(path_exists (parent @ [copy_name parts i]) :: (io_error, bool) io) w = (Inr (exists_path w (parent @ [copy_name parts i])), w)"
    using 1(2) by (simp add: path_exists_nofault)
  have "i < 2 ^ 32 - 1"
    using 1(4,5) by simp
  then have "exists_path w (parent @ [copy_name parts i])" and "copy_loop parent parts (Suc i) w = (None, w')"
    using 1(3) by (auto simp: copy_loop_calm [OF 1(2), of parent parts i] split: if_splits)
  then show ?case
    using 1(1) [OF _ refl ex [symmetric] refl _ 1(2)] 1(4,5) \<open>i < 2 ^ 32 - 1\<close> by (cases "j = i") auto
qed

lemma exists_path_node: "p \<noteq> [] \<Longrightarrow> exists_path w p \<Longrightarrow> p \<in> fst ` set (nodes w)"
  by (auto simp: exists_path_def lookup_def map_of_eq_None_iff)

lemma copy_loop_ends:
  assumes "faults w = []" and "length (nodes w) < 2 ^ 32 - 1 - i"
  shows "\<exists>p. copy_loop parent parts i w = (Some p, w)"
proof -
  obtain r w' where run: "copy_loop parent parts i w = (r, w')" by fastforce
  have "r \<noteq> None"
  proof
    assume "r = None"
    with copy_loop_None [OF assms(1)] run have "exists_path w (parent @ [copy_name parts j])" if "j \<in> {i ..< 2 ^ 32 - 1}" for j
      using that by auto
    then have "(\<lambda>j. parent @ [copy_name parts j]) ` {i ..< 2 ^ 32 - 1} \<subseteq> fst ` set (nodes w)"
      using exists_path_node by blast
    then have "card ((\<lambda>j. parent @ [copy_name parts j]) ` {i ..< 2 ^ 32 - 1}) \<le> card (fst ` set (nodes w))"
      by (rule card_mono [rotated]) simp
    moreover have "inj_on (\<lambda>j. parent @ [copy_name parts j]) {i ..< 2 ^ 32 - 1}"
      by (auto intro!: inj_onI dest: copy_name_inj)
    ultimately have "2 ^ 32 - 1 - i \<le> length (nodes w)"
      using card_image_le [of "set (nodes w)" fst] card_length [of "nodes w"] by (simp only: card_image card_atLeastLessThan) simp
    with assms(2) show False by simp
  qed
  then obtain p where "r = Some p" by blast
  with run copy_loop_fresh [OF assms(1)] show ?thesis by blast
qed

lemma unique_output_path_shape:
  assumes "unique_output_path p w = (Some q, w')" and "p \<noteq> []" and "plain_name (last p)"
  shows "lookup w' = lookup w \<and> (\<exists>name. q = butlast p @ [name] \<and> plain_name name)"
proof -
  obtain r w1 where ex: "(path_exists p :: (io_error, bool) io) w = (r, w1)" by fastforce
  note same = path_exists_lookup [OF ex]
  show ?thesis
  proof (cases "r = Inr True")
    case True
    with assms ex have "copy_loop (butlast p) (split_extension (last p)) 1 w1 = (Some q, w')"
      by (simp add: unique_output_path_def)
    from copy_loop_shape [OF this] same assms(3) copy_name_plain show ?thesis
      by fastforce
  next
    case False
    with assms ex same show ?thesis
      by (cases r) (auto simp: unique_output_path_def intro: exI [of _ "last p"] split: bool.splits)
  qed
qed

section \<open>Where a download ends up\<close>

lemma daemon_download_options_root [simp]: "do_library_root (daemon_download_options X d resume root) = Some root"
  by (simp add: daemon_download_options_def Let_def with_request_window_def with_requested_share_id_def with_resume_def with_library_root_def
      with_auth_psk_def split: option.split)

lemma run_download_verified:
  assumes "run_download X peers p opts n w = (Inr m, w')" and "do_library_root opts = Some root" and "outside_library root p"
  shows "verified_output (de_deps X) m p w'"
  using assms from_peers_verified [of "de_transfer X" _ p opts w m w'] parallel_verified [of "de_transfer X" "de_pick X" _ p opts n w m w']
  by (auto simp: run_download_def split: if_splits)

text \<open>What a completed download has done, up to the move of an output that was not asked for by name.\<close>

lemma handle_download_completed:
  assumes "handle_download_command X root d resume w = (Inr (Some (TransferCompleted sid p name sz n)), w')"
  obtains m peers w1 w2 where "sid = id_share_id d" "name = m_file_name m" "sz = m_file_size m" "n = length (m_chunks m)"
    "download_peers X d = Inr peers"
    "run_download X peers (case id_output d of Some q \<Rightarrow> q | None \<Rightarrow> temporary_download_output_path root (pid w))
       (daemon_download_options X d resume root) (effective_download_parallelism (id_parallelism d) (length peers)) w1 = (Inr m, w2)"
    "id_output d = None \<longrightarrow> move_auto_download_output (temporary_download_output_path root (pid w)) root (m_file_name m) w2 = (Inr (Some p), w')"
    "\<forall>q. id_output d = Some q \<longrightarrow> p = q \<and> w' = w2"
proof -
  let ?o = "case id_output d of Some q \<Rightarrow> q | None \<Rightarrow> temporary_download_output_path root (pid w)"
  obtain c w1 where c: "create_output_parent_dir ?o w = (c, w1)" by fastforce
  from assms c obtain u where "c = Inr u"
    by (cases c) (auto simp: handle_download_command_def bindE_Inr Let_def)
  with assms c obtain peers where peers: "download_peers X d = Inr peers"
    by (cases "download_peers X d") (auto simp: handle_download_command_def bindE_Inr Let_def)
  obtain r w2 where r: "run_download X peers ?o (daemon_download_options X d resume root)
      (effective_download_parallelism (id_parallelism d) (length peers)) w1 = (r, w2)" by fastforce
  from assms c \<open>c = Inr u\<close> peers r obtain m where m: "r = Inr m"
    by (cases r) (auto simp: handle_download_command_def bindE_Inr Let_def)
  have run: "handle_download_command X root d resume w = (if id_output d = None then
      bindE (tryE (move_auto_download_output ?o root (m_file_name m))) (\<lambda>moved. case moved of
        Inl error \<Rightarrow> returnE (Some (ResponseError (de_show_io_error X error)))
      | Inr None \<Rightarrow> returnE None
      | Inr (Some final_output) \<Rightarrow> returnE (Some (transfer_completed_response (id_share_id d) final_output m))) w2
      else (Inr (Some (transfer_completed_response (id_share_id d) ?o m)), w2))"
    using c \<open>c = Inr u\<close> peers r m by (simp add: handle_download_command_def bindE_run [of "askE pid"] Let_def bindE_run [of "tryE _"] tryE_run)
  show ?thesis
  proof (cases "id_output d")
    case None
    obtain v w3 where v: "move_auto_download_output ?o root (m_file_name m) w2 = (v, w3)" by fastforce
    have "v = Inr (Some p) \<and> w3 = w' \<and> transfer_completed_response (id_share_id d) p m = TransferCompleted sid p name sz n"
      using assms v unfolding run by (simp add: None bindE_run tryE_run transfer_completed_response_def split: sum.split_asm option.split_asm)
    with peers r m v None show ?thesis
      by (intro that [of m peers w1 w2]) (simp_all add: transfer_completed_response_def)
  next
    case (Some q)
    then have "w2 = w' \<and> transfer_completed_response (id_share_id d) q m = TransferCompleted sid p name sz n"
      using assms unfolding run by simp
    with peers r m Some show ?thesis
      by (intro that [of m peers w1 w2]) (simp_all add: transfer_completed_response_def)
  qed
qed

lemma move_auto_Inr:
  assumes "move_auto_download_output temp root wanted w = (Inr (Some p), w')" and "lookup w temp = Some (FileN bs)" and "butlast temp = root @ [''output'']" "temp \<noteq> []"
  shows "lookup w' p = Some (FileN bs) \<and> (\<exists>name. p = root @ [''output'', name] \<and> plain_name name)"
proof -
  let ?want = "default_download_output_path root wanted"
  have want: "?want \<noteq> []" "butlast ?want = root @ [''output'']" "plain_name (last ?want)"
    using safe_output_file_name_plain by (simp_all add: default_download_output_path_def default_download_output_dir_def butlast_append)
  obtain r w1 where u: "unique_output_path ?want w = (r, w1)" by fastforce
  with assms(1) obtain w2 where r: "r = Some p" and cr: "create_output_parent_dir p w1 = (Inr (), w2)" and rn: "fs_rename temp p w2 = (Inr (), w')"
    by (cases r) (auto simp: move_auto_download_output_def bindE_Inr)
  from unique_output_path_shape [OF u [unfolded r] want(1,3)] want(2)
  obtain name where p: "p = root @ [''output'', name]" "plain_name name" and same: "lookup w1 = lookup w"
    by auto
  have "preserves (frame (\<lambda>q. prefix q (butlast p))) (create_output_parent_dir p)"
    unfolding create_output_parent_dir_def by (auto intro!: frame_create_dir_all)
  moreover have "\<not> prefix temp (butlast p)"
    using assms(3,4) not_prefix_butlast [of temp] p(1) by (simp add: butlast_append)
  ultimately have "lookup w2 temp = Some (FileN bs)"
    using preserves_frameD [where m = "create_output_parent_dir p" and q = temp, OF _ cr] same assms(2) by simp
  with fs_rename_Inr [OF rn] p show ?thesis by blast
qed

section \<open>Commands and files\<close>

text \<open>What a command does to the world is what reading the library, deleting a share and looking at the clock do.\<close>

locale daemon_work = library_reading +
  fixes may_delete :: "path \<Rightarrow> bool"
  assumes deletes [intro]: "may_delete p \<Longrightarrow> preserves R (fs_remove_dir_all p)"
    and clocks [intro!, simp]: "preserves R (clock_now :: (ipc_error, nat) io)"
begin

lemma pres_library_delete: "may_delete (share_dir (for_share root sid)) \<Longrightarrow> preserves R (library_delete root sid)"
  unfolding library_delete_def Let_def by (auto intro!: pres_bind pres_into)

lemma pres_share_summary: "preserves R (share_summary_by_id X root sid)"
  unfolding share_summary_by_id_def by (auto intro!: pres_bind pres_into pres_library_list)

lemma pres_delete_response:
  "may_delete (share_dir (for_share root sid)) \<Longrightarrow> preserves R (delete_share_response X root sid dm)"
  unfolding delete_share_response_def
  by (auto intro!: pres_bind pres_try pres_share_summary pres_library_delete split: sum.split option.split)

lemma pres_handle_async:
  assumes "\<And>sid. command = DeleteShare sid \<Longrightarrow> may_delete (share_dir (for_share root sid))"
  shows "preserves R (handle_async X root command dm)"
  using assms by (cases command)
    (auto simp: handle_async_def handle_def list_shares_response_def queue_download_command_def generate_job_id_def
      intro!: pres_bind pres_try pres_library_list pres_delete_response)

end

interpretation frame_work: daemon_work "frame F" "\<lambda>p. \<forall>q. prefix p q \<longrightarrow> F q" for F
  by unfold_locales (auto intro!: frame_remove_dir_all)

text \<open>Work on files leaves the connection alone.\<close>

definition off_stream :: "world \<Rightarrow> world \<Rightarrow> bool" where
  "off_stream w w' \<longleftrightarrow> out w' = out w \<and> inp w' = inp w"

interpretation off_stream: world_rel off_stream
  by unfold_locales (simp_all add: off_stream_def)

lemma fold_del_node_fields [simp]: "out (fold del_node ps w) = out w" "inp (fold del_node ps w) = inp w" "faults (fold del_node ps w) = faults w"
  by (induction ps arbitrary: w) simp_all

lemma off_stream_calls:
  "preserves off_stream (fs_read p)" "preserves off_stream (fs_metadata p)" "preserves off_stream (fs_read_dir p)" "preserves off_stream (fs_remove_dir_all p)"
  unfolding fs_read_def fs_metadata_def fs_read_dir_def fs_remove_dir_all_def
  by (rule off_stream.pres_syscall; auto simp: off_stream_def no_effect_def split: option.splits node.splits)+

lemma calm_remove_dir_all: "preserves stays_calm (fs_remove_dir_all p)"
  unfolding fs_remove_dir_all_def by (rule calm_syscall) (auto simp: stays_calm_def)

lemma off_streamD: "preserves off_stream m \<Longrightarrow> m w = (r, w') \<Longrightarrow> out w' = out w \<and> inp w' = inp w"
  unfolding preserves_def off_stream_def by (metis snd_conv)

lemma off_stream_clock: "preserves off_stream clock_now"
  by (simp add: preserves_def off_stream_def clock_now_def)

interpretation off_stream_work: daemon_work off_stream "\<lambda>_. True"
  by unfold_locales (auto intro: off_stream_calls off_stream_clock)

interpretation calm_work: daemon_work stays_calm "\<lambda>_. True"
  by unfold_locales (auto intro: calm_remove_dir_all)

section \<open>Jobs\<close>

definition jobs_ok :: "daemon \<Rightarrow> bool" where
  "jobs_ok dm \<longleftrightarrow> (\<forall>sid j. dm_jobs dm sid = Some j \<longrightarrow>
     0 < dm_panics dm \<or> (\<exists>d resume. DownloadTask d resume j \<in> set (dm_tasks dm) \<and> id_share_id d = sid))"

lemma delete_share_response_Inr:
  assumes "delete_share_response X root sid dm w = (Inr (response, dm'), w')"
  shows "dm' = dm \<and> (\<exists>message. response = ResponseError message) \<or>
    (\<exists>w1 name. library_delete root sid w1 = (Inr True, w') \<and> response = ShareDeleted sid name \<and> dm' = publish (ShareDeletedEvent sid) dm)"
proof -
  obtain found w1 where found: "share_summary_by_id X root sid w = (found, w1)" by fastforce
  obtain deleted w2 where deleted: "library_delete root sid w1 = (deleted, w2)" by fastforce
  show ?thesis
  proof (cases found)
    case (Inl message)
    with assms found show ?thesis by (auto simp: delete_share_response_def)
  next
    case (Inr share)
    with assms found deleted show ?thesis
      by (cases share; cases deleted) (auto simp: delete_share_response_def split: bool.split_asm)
  qed
qed

lemma handle_async_jobs:
  "handle_async X root command dm w = (Inr (response, dm'), w') \<Longrightarrow> dm_panics dm' = dm_panics dm \<and>
     (dm_jobs dm' = dm_jobs dm \<and> set (dm_tasks dm) \<subseteq> set (dm_tasks dm') \<or>
      (\<exists>d resume j. dm_jobs dm' = register (id_share_id d) j (dm_jobs dm) \<and> dm_tasks dm' = dm_tasks dm @ [DownloadTask d resume j]))"
  by (cases command) (auto simp: handle_async_def handle_def list_shares_response_def queue_seed_file_command_def
      queue_download_command_def publish_def bindE_Inr dest!: delete_share_response_Inr)

definition receive_command :: "daemon_env \<Rightarrow> (ipc_error, ipc_command) io" where
  "receive_command X = bindE (intoE IpcIo stream_connect) (\<lambda>_. receive_ipc_message (de_commands X))"

lemma once_cases:
  assumes "once X root dm w = (Inr (outcome, dm'), w')"
  obtains (unread) e where "receive_command X w = (Inl e, w')" "outcome = Inl e" "dm' = dm"
  | (subscribed) "receive_command X w = (Inr SubscribeEvents, w')" "outcome = Inr False" "dm' = dm\<lparr>dm_subscriptions := Suc (dm_subscriptions dm)\<rparr>"
  | (handled) command w1 response w2 where "receive_command X w = (Inr command, w1)" "command \<noteq> SubscribeEvents"
      "handle_async X root command dm w1 = (Inr (response, dm'), w2)"
      "send_response_or_ignore_closed_client (de_responses X) response (command = Shutdown) w2 = (outcome, w')"
proof -
  obtain r w1 where r: "receive_command X w = (r, w1)" by fastforce
  note run = assms [unfolded once_def receive_command_def [symmetric]]
  show ?thesis
  proof (cases r)
    case (Inl e)
    with run r unread show ?thesis by simp
  next
    case (Inr command)
    show ?thesis
    proof (cases "command = SubscribeEvents")
      case True
      with Inr run r subscribed show ?thesis by simp
    next
      case False
      with Inr run r handled show ?thesis by (auto simp: bindE_Inr)
    qed
  qed
qed

lemma once_jobs: "jobs_ok dm \<Longrightarrow> once X root dm w = (Inr (outcome, dm'), w') \<Longrightarrow> jobs_ok dm'"
proof -
  assume ok: "jobs_ok dm" and run: "once X root dm w = (Inr (outcome, dm'), w')"
  from run show "jobs_ok dm'"
  proof (cases rule: once_cases)
    case (handled command w1 response w2)
    from handle_async_jobs [OF handled(3)] ok show ?thesis
      unfolding jobs_ok_def register_def by (auto split: if_splits) blast+
  qed (use ok in \<open>simp_all add: jobs_ok_def\<close>)
qed

lemma download_events_state [simp]:
  "dm_jobs (download_events sid j response dm) = dm_jobs dm" "dm_tasks (download_events sid j response dm) = dm_tasks dm"
  "dm_panics (download_events sid j response dm) = dm_panics dm"
  by (simp_all add: download_events_def publish_def split: ipc_response.split)

lemma publish_state [simp]:
  "dm_jobs (publish e dm) = dm_jobs dm" "dm_tasks (publish e dm) = dm_tasks dm" "dm_panics (publish e dm) = dm_panics dm"
  by (simp_all add: publish_def)

lemma run_seed_task_state:
  "run_seed_task X root input cs dm w = (Inr dm', w') \<Longrightarrow> dm_jobs dm' = dm_jobs dm \<and> dm_tasks dm' = dm_tasks dm \<and> dm_panics dm' = dm_panics dm"
proof -
  assume "run_seed_task X root input cs dm w = (Inr dm', w')"
  then obtain response where "(case response of ShareAdded share \<Rightarrow> publish (ShareUpdated share) dm
      | ResponseError message \<Rightarrow> publish (EventError message) dm | _ \<Rightarrow> dm) = dm'"
    by (auto simp: run_seed_task_def bindE_Inr)
  then show ?thesis by (cases response) auto
qed

lemma update_event_state:
  assumes "bindE (tryE m) (\<lambda>found. returnE (case found of Inr (Some share) \<Rightarrow> publish (ShareUpdated share) dm | _ \<Rightarrow> dm)) w = (Inr dm', w')"
  shows "dm_jobs dm' = dm_jobs dm \<and> dm_tasks dm' = dm_tasks dm \<and> dm_panics dm' = dm_panics dm"
proof -
  obtain found w1 where "m w = (found, w1)" by fastforce
  with assms show ?thesis
    by (cases found) (auto split: option.split_asm)
qed

lemma run_download_task_state:
  assumes "run_download_task X root d resume j dm w = (Inr dm', w')"
  shows "dm_tasks dm' = dm_tasks dm \<and>
    (dm_jobs dm' = unregister (id_share_id d) j (dm_jobs dm) \<and> dm_panics dm' = dm_panics dm \<or> 0 < dm_panics dm')"
proof -
  obtain r w1 where r: "handle_download_command X root d resume w = (r, w1)" by fastforce
  show ?thesis
  proof (cases "\<exists>response. r = Inr (Some response)")
    case True
    then obtain response where "r = Inr (Some response)" by blast
    with assms r show ?thesis
      by (cases response) (auto simp: run_download_task_def bindE_Inr [of "case_ipc_response _ _ _ _ _ _ _ _ _"] bindE_Inr [of "bindE _ _"] Let_def dest!: update_event_state)
  next
    case False
    with assms r show ?thesis
      by (cases r) (auto simp: run_download_task_def split: option.split_asm)
  qed
qed

lemma set_remove_nth: "k < length xs \<Longrightarrow> set xs = insert (xs ! k) (set (remove_nth k xs))"
  by (metis Un_insert_right id_take_nth_drop list.simps(15) remove_nth_def set_append)

lemma run_task_jobs:
  assumes "jobs_ok dm" and "k < length (dm_tasks dm)"
    and "run_task X root (dm_tasks dm ! k) (dm\<lparr>dm_tasks := remove_nth k (dm_tasks dm)\<rparr>) w = (Inr dm', w')"
  shows "jobs_ok dm'"
proof (cases "dm_tasks dm ! k")
  case (SeedTask input cs)
  with assms run_seed_task_state [of X root input cs "dm\<lparr>dm_tasks := remove_nth k (dm_tasks dm)\<rparr>" w dm' w'] set_remove_nth [OF assms(2)]
  show ?thesis by (fastforce simp: run_task_def jobs_ok_def)
next
  case (DownloadTask d resume j)
  with assms(3) have st: "dm_tasks dm' = remove_nth k (dm_tasks dm)"
      "dm_jobs dm' = unregister (id_share_id d) j (dm_jobs dm) \<and> dm_panics dm' = dm_panics dm \<or> 0 < dm_panics dm'"
    using run_download_task_state [of X root d resume j "dm\<lparr>dm_tasks := remove_nth k (dm_tasks dm)\<rparr>" w dm' w'] by (simp_all add: run_task_def)
  have "0 < dm_panics dm' \<or> (\<exists>d' resume'. DownloadTask d' resume' i \<in> set (dm_tasks dm') \<and> id_share_id d' = sid)" if "dm_jobs dm' sid = Some i" for sid i
  proof (cases "0 < dm_panics dm'")
    case False
    with st(2) that have jobs: "dm_jobs dm' = unregister (id_share_id d) j (dm_jobs dm)" "dm_jobs dm sid = Some i" "dm_panics dm = 0"
      by (auto simp: unregister_def split: if_splits)
    from assms(1) [unfolded jobs_ok_def, rule_format, OF jobs(2)] jobs(3)
    obtain d' resume' where t: "DownloadTask d' resume' i \<in> set (dm_tasks dm)" "id_share_id d' = sid"
      by auto
    moreover have "DownloadTask d' resume' i \<noteq> dm_tasks dm ! k"
      using that jobs t(2) DownloadTask by (auto simp: unregister_def split: if_splits)
    ultimately have "DownloadTask d' resume' i \<in> set (dm_tasks dm')"
      using set_remove_nth [OF assms(2)] st(1) by auto
    with t(2) show ?thesis by blast
  qed simp
  then show ?thesis by (simp add: jobs_ok_def)
qed

lemma daemon_step_jobs: "daemon_step X root socket (s, dm, w) (t, dm', w') \<Longrightarrow> jobs_ok dm \<Longrightarrow> jobs_ok dm'"
  by (cases rule: daemon_step.cases) (auto intro: once_jobs run_task_jobs)

lemma daemon_reaches_jobs:
  "daemon_reaches X root socket st u \<Longrightarrow> jobs_ok (fst (snd st)) \<Longrightarrow> jobs_ok (fst (snd u))"
  by (induction rule: daemon_reaches.induct) (auto dest: daemon_step_jobs)

section \<open>Both ends of the socket\<close>

lemma send_ipc_calm_Inl: "faults w = [] \<Longrightarrow> send_ipc_message C m w = (Inl e, w') \<Longrightarrow> \<not> is_disconnected_client e"
  by (auto simp: send_ipc_message_def bindE_Inl bindE_Inr intoE_Inl stream_write_all_def stream_flush_def encode_whole_def validate_ipc_frame_len_def map_err_def
      ok_or_def split: option.split_asm if_split_asm)

lemma send_ipc_calm: "preserves stays_calm (send_ipc_message C m)"
  unfolding send_ipc_message_def by (intro calm.pres_bind calm.pres_into calm.pres_lift) auto

lemma receive_command_calm:
  assumes "bincode_ok (de_commands X)" and "send_ipc_message (de_commands X) command c = (Inr (), c')" and "out c' = out c @ request"
    and "faults w = []" and "conns w = Inr request # cs"
  shows "receive_command X w = (Inr command, w\<lparr>conns := cs, inp := [], out := []\<rparr>)"
proof -
  have "stream_connect w = (Inr (), w\<lparr>conns := cs, inp := request, out := []\<rparr>)"
    using assms(4,5) by (simp add: stream_connect_def)
  moreover have "receive_ipc_message (de_commands X) (w\<lparr>conns := cs, inp := request, out := []\<rparr>) = (Inr command, w\<lparr>conns := cs, inp := [], out := []\<rparr>)"
    using ipc.put_get [OF assms(1-3), of "w\<lparr>conns := cs, inp := request, out := []\<rparr>" "[]"] assms(4) by simp
  ultimately show ?thesis
    by (simp add: receive_command_def io_simps)
qed

lemma send_response_calm:
  assumes "faults w = []" and "send_response_or_ignore_closed_client C response stop w = (Inr b, w')"
  shows "b = stop \<and> send_ipc_message C response w = (Inr (), w')"
proof -
  obtain r w1 where r: "send_ipc_message C response w = (r, w1)" by fastforce
  show ?thesis
    using assms(2) r send_ipc_calm_Inl [OF assms(1), of C response]
    by (cases r) (auto simp: send_response_or_ignore_closed_client_def io_simps split: if_split_asm)
qed

lemma subscription_loop_calm:
  "faults w = [] \<Longrightarrow> subscription_loop C received w = (Inr (), w') \<Longrightarrow> forE (map subscription_event received) (send_ipc_message C) w = (Inr (), w')"
proof (induction received arbitrary: w)
  case (Cons r received)
  obtain s w1 where s: "send_ipc_message C (subscription_event r) w = (s, w1)" by fastforce
  have "s = Inr ()"
    using Cons.prems s send_ipc_calm_Inl [OF Cons.prems(1), of C "subscription_event r"] by (cases s) (auto simp: io_simps split: if_split_asm)
  moreover have "faults w1 = []"
    using preserves_calmD [OF send_ipc_calm s Cons.prems(1)] .
  ultimately show ?case
    using Cons.IH [of w1] Cons.prems(2) s by (simp add: io_simps)
qed simp

lemma event_loop_mapE:
  "mapE (\<lambda>_. receive_ipc_message C) ms v = (Inr ms, v') \<Longrightarrow> event_loop C seen v = event_loop C (seen @ ms) v'"
proof (induction ms arbitrary: seen v)
  case (Cons m ms)
  then obtain v1 where "receive_ipc_message C v = (Inr m, v1)" "mapE (\<lambda>_. receive_ipc_message C) ms v1 = (Inr ms, v')"
    by (auto simp: bindE_Inr)
  with Cons.IH [of v1 "seen @ [m]"] show ?case
    by (simp add: event_loop.simps [of C seen v])
qed simp

lemma event_loop_end: "faults v = [] \<Longrightarrow> inp v = [] \<Longrightarrow> event_loop C seen v = ((seen, IpcIo UnexpectedEof), v)"
  by (subst event_loop.simps) (simp add: receive_ipc_message_def stream_read_exact_def io_simps map_err_def)

section \<open>A sample daemon\<close>

definition sample_request :: ipc_download where
  "sample_request = \<lparr>id_share_id = empty_file_share, id_peers = [SocketV4 1 2], id_output = Some [''o''], id_parallelism = 1, id_request_window = 4,
     id_discovery_port = 5, id_discovery_timeout_ms = 6, id_discovery_multicast = 7, id_auth_psk = None\<rparr>"

definition sample_job :: string where
  "sample_job = ''download'' @ ''-'' @ share_id_to_string empty_file_share @ ''-'' @ show_nat (clock empty_world 0 div 1000000) @ ''-'' @ show_nat (pid empty_world)"

definition sample_daemon_env :: daemon_env where
  "sample_daemon_env = \<lparr>de_transfer = empty_file_env, de_commands = listed_bincode [Ping, Download sample_request],
     de_responses = listed_bincode [Pong, Ack ''event subscription started'', TransferQueued empty_file_share sample_job], de_events = listed_bincode [ServerStopped, EventError ''event subscriber lagged; skipped 3 event(s)''],
     de_discovery = sample_discovery_codec, de_bound = Inr (), de_if_addrs = Inr [], de_datagrams = [], de_show_file_error = (\<lambda>_. ''f''),
     de_show_io_error = (\<lambda>_. ''i''), de_show_addr = (\<lambda>_. ''a''), de_show_path = concat, de_arrival = rev, de_pick = (\<lambda>n. n)\<rparr>"

definition idle_daemon :: daemon where
  "idle_daemon = \<lparr>dm_jobs = Map.empty, dm_tasks = [], dm_events = [], dm_subscriptions = 0, dm_panics = 0\<rparr>"

lemma sample_job_id: "generate_job_id ''download'' empty_file_share empty_world = (Inr sample_job, empty_world\<lparr>clock_pos := Suc (clock_pos empty_world)\<rparr>)"
  by (simp add: generate_job_id_def io_simps clock_now_def sample_job_def empty_world_def)

lemma sample_request_share [simp]: "id_share_id sample_request = empty_file_share"
  by (simp add: sample_request_def)

lemma sample_daemon_codecs_ok: "bincode_ok (de_commands sample_daemon_env)" "bincode_ok (de_responses sample_daemon_env)" "bincode_ok (de_events sample_daemon_env)"
  by (simp_all add: sample_daemon_env_def listed_bincode_ok)

lemma sample_daemon_request: "empty_file_request (daemon_download_options sample_daemon_env sample_request True [])"
  by (simp add: empty_file_request_def daemon_download_options_def Let_def sample_request_def with_request_window_def with_requested_share_id_def
      with_resume_def with_library_root_def download_options_new_def)

lemma sample_daemon_download:
  "\<exists>w'. handle_download_command sample_daemon_env [] sample_request True (sample_download_world empty_file_manifest []) =
     (Inr (Some (TransferCompleted empty_file_share [''o''] ''e'' 0 0)), w')"
proof -
  let ?w = "sample_download_world empty_file_manifest []"
  let ?opts = "daemon_download_options sample_daemon_env sample_request True []"
  obtain w' where run: "from_peer_with empty_file_env ''a'' [''o''] ?opts ?w = (Inr empty_file_manifest, w')"
    using empty_file_download [OF sample_daemon_request] by blast
  have "\<not> is_file ?w []"
    by (simp add: is_file_def) (simp add: lookup_def empty_world_def)
  then have "create_output_parent_dir [''o''] ?w = (Inr (), ?w)"
    by (simp add: create_output_parent_dir_def fs_create_dir_all_def make_dirs_def)
  moreover have "run_download sample_daemon_env [SocketV4 1 2] [''o''] ?opts 1 ?w = (Inr empty_file_manifest, w')"
    using run by (simp add: run_download_def from_peers_def sample_daemon_env_def io_simps)
  ultimately show ?thesis
    by (simp add: handle_download_command_def io_simps Let_def download_peers_def effective_download_parallelism_def sample_request_def
        transfer_completed_response_def empty_file_manifest_def)
qed

lemma sample_events:
  "subscription_event (Inl event) = event" "subscription_event (Inr 3) = EventError ''event subscriber lagged; skipped 3 event(s)''"
  by (simp add: subscription_event_def) code_simp

lemma empty_world_calm: "faults empty_world = []"
  by (simp add: empty_world_def)

lemma sample_ipc_send:
  assumes "faults w = []"
  shows "send_ipc_message (de_commands sample_daemon_env) Ping w = (Inr (), w\<lparr>out := out w @ [0, 0, 0, 1, 0]\<rparr>)"
    "send_ipc_message (de_responses sample_daemon_env) Pong w = (Inr (), w\<lparr>out := out w @ [0, 0, 0, 1, 0]\<rparr>)"
    "send_ipc_message (de_responses sample_daemon_env) (Ack ''event subscription started'') w = (Inr (), w\<lparr>out := out w @ [0, 0, 0, 1, 1]\<rparr>)"
    "send_ipc_message (de_responses sample_daemon_env) (TransferQueued empty_file_share sample_job) w = (Inr (), w\<lparr>out := out w @ [0, 0, 0, 1, 2]\<rparr>)"
    "send_ipc_message (de_events sample_daemon_env) ServerStopped w = (Inr (), w\<lparr>out := out w @ [0, 0, 0, 1, 0]\<rparr>)"
    "send_ipc_message (de_events sample_daemon_env) (EventError ''event subscriber lagged; skipped 3 event(s)'') w = (Inr (), w\<lparr>out := out w @ [0, 0, 0, 1, 1]\<rparr>)"
proof -
  have b: "to_be_bytes (1 :: u32) = [0, 0, 0, 1]"
    by code_simp
  show "send_ipc_message (de_commands sample_daemon_env) Ping w = (Inr (), w\<lparr>out := out w @ [0, 0, 0, 1, 0]\<rparr>)"
    "send_ipc_message (de_responses sample_daemon_env) Pong w = (Inr (), w\<lparr>out := out w @ [0, 0, 0, 1, 0]\<rparr>)"
    "send_ipc_message (de_responses sample_daemon_env) (Ack ''event subscription started'') w = (Inr (), w\<lparr>out := out w @ [0, 0, 0, 1, 1]\<rparr>)"
    "send_ipc_message (de_responses sample_daemon_env) (TransferQueued empty_file_share sample_job) w = (Inr (), w\<lparr>out := out w @ [0, 0, 0, 1, 2]\<rparr>)"
    "send_ipc_message (de_events sample_daemon_env) ServerStopped w = (Inr (), w\<lparr>out := out w @ [0, 0, 0, 1, 0]\<rparr>)"
    "send_ipc_message (de_events sample_daemon_env) (EventError ''event subscriber lagged; skipped 3 event(s)'') w = (Inr (), w\<lparr>out := out w @ [0, 0, 0, 1, 1]\<rparr>)"
    using assms by (simp_all add: send_ipc_message_def io_simps encode_whole_def sample_daemon_env_def listed_bincode_def ok_or_def validate_ipc_frame_len_def
        MAX_IPC_FRAME_SIZE_def stream_write_all_def stream_flush_def b)
qed

section \<open>Properties\<close>



text \<open>The search for a free output name ends with a path in the same directory at which there is nothing, as long as
  the file system has fewer entries than the index of the search has values.\<close>

theorem unique_output_path_terminates:
  assumes "faults w = []" and "length (nodes w) < 2 ^ 32 - 2" and "p \<noteq> []"
  shows "\<exists>q. unique_output_path p w = (Some q, w) \<and> \<not> exists_path w q \<and> butlast q = butlast p"
proof (cases "exists_path w p")
  case False
  with assms show ?thesis by (simp add: unique_output_path_def path_exists_nofault)
next
  case True
  from assms(2) have "length (nodes w) < 2 ^ 32 - 1 - 1" by simp
  from copy_loop_ends [OF assms(1) this, of "butlast p" "split_extension (last p)"] obtain q
    where q: "copy_loop (butlast p) (split_extension (last p)) 1 w = (Some q, w)" by blast
  moreover from copy_loop_shape [OF q] have "butlast q = butlast p" by auto
  moreover from copy_loop_fresh [OF assms(1) q] have "\<not> exists_path w q" by simp
  ultimately show ?thesis
    using assms(1,3) True by (simp add: unique_output_path_def path_exists_nofault)
qed

theorem unique_output_path_terminates_witness:
  "\<exists>q. unique_output_path [''a.txt''] (empty_world\<lparr>nodes := [([''a.txt''], FileN [])]\<rparr>) = (Some q, empty_world\<lparr>nodes := [([''a.txt''], FileN [])]\<rparr>) \<and>
     q \<noteq> [''a.txt'']"
proof -
  let ?w = "empty_world\<lparr>nodes := [([''a.txt''], FileN [])]\<rparr>"
  have "faults ?w = []" "length (nodes ?w) < 2 ^ 32 - 2" "exists_path ?w [''a.txt'']"
    by (simp_all add: empty_world_def exists_path_def lookup_def)
  with unique_output_path_terminates [of ?w "[''a.txt'']"] show ?thesis
    by auto
qed

text \<open>C29: answering a command changes a file only when the command deletes a share, and then only below the directory
  of that share; everything else is left to the tasks.\<close>

theorem commands_change_only_deleted_share:
  "lookup (snd (handle_async X root command dm w)) q = lookup w q \<or>
     (\<exists>sid. command = DeleteShare sid \<and> prefix (share_dir (for_share root sid)) q)"
proof -
  let ?F = "\<lambda>q. \<exists>sid. command = DeleteShare sid \<and> prefix (share_dir (for_share root sid)) q"
  have "preserves (frame ?F) (handle_async X root command dm)"
    by (rule frame_work.pres_handle_async) auto
  then show ?thesis
    by (auto simp: preserves_def frame_def)
qed

text \<open>C28: in every state that the daemon reaches, in whatever order connections and tasks come, a registered job
  belongs to a download that is still queued, unless a task has panicked: no job stays registered after its
  task has ended.\<close>

theorem registered_jobs_are_queued:
  assumes "daemon_reaches X root socket (Serving, dm0, w0) (s, dm, w)" and "dm_jobs dm0 = Map.empty"
    and "dm_panics dm = 0" and "dm_jobs dm sid = Some j"
  shows "\<exists>d resume. DownloadTask d resume j \<in> set (dm_tasks dm) \<and> id_share_id d = sid"
proof -
  have "jobs_ok dm0"
    using assms(2) by (simp add: jobs_ok_def)
  with daemon_reaches_jobs [OF assms(1)] have "jobs_ok dm" by simp
  from this [unfolded jobs_ok_def, rule_format, OF assms(4)] assms(3) show ?thesis by simp
qed

theorem registered_jobs_are_queued_witness:
  "\<exists>dm w j. daemon_reaches sample_daemon_env [] [''s''] (Serving, idle_daemon, empty_world\<lparr>conns := [Inr [0, 0, 0, 1, 1]]\<rparr>) (Serving, dm, w) \<and>
     dm_jobs dm empty_file_share = Some j \<and> (\<exists>d resume. DownloadTask d resume j \<in> set (dm_tasks dm))"
proof -
  let ?w = "empty_world\<lparr>conns := [Inr [0, 0, 0, 1, 1]]\<rparr>"
  have "receive_command sample_daemon_env ?w = (Inr (Download sample_request), empty_world)"
    by (simp add: receive_command_def stream_connect_def receive_ipc_message_def stream_read_exact_def io_simps empty_world_def Let_def
        from_be_bytes_def le_nat.simps validate_ipc_frame_len_def MAX_IPC_FRAME_SIZE_def sample_daemon_env_def listed_bincode_def)
  then have "once sample_daemon_env [] idle_daemon ?w = (Inr (Inr False, idle_daemon\<lparr>dm_jobs := [empty_file_share \<mapsto> sample_job],
      dm_tasks := [DownloadTask sample_request True sample_job]\<rparr>), empty_world\<lparr>clock_pos := Suc (clock_pos empty_world), out := out empty_world @ [0, 0, 0, 1, 2]\<rparr>)"
    by (simp add: once_def receive_command_def [symmetric] io_simps handle_async_def queue_download_command_def register_def
        sample_job_id send_response_or_ignore_closed_client_def sample_ipc_send empty_world_calm idle_daemon_def)
  then obtain dm w where o: "once sample_daemon_env [] idle_daemon ?w = (Inr (Inr False, dm), w)" "dm_jobs dm empty_file_share = Some sample_job" "dm_panics dm = 0"
    by (auto simp: idle_daemon_def)
  have "daemon_reaches sample_daemon_env [] [''s''] (Serving, idle_daemon, ?w) (Serving, dm, w)"
    by (rule daemon_reaches.step [OF daemon_reaches.start daemon_step.serve [OF o(1)]])
  from registered_jobs_are_queued [OF this _ o(3,2)] this o(2) show ?thesis
    by (auto simp: idle_daemon_def)
qed



text \<open>A subscriber receives the acknowledgement and then exactly the events of its channel, in their order; events that
  were dropped are announced by their number.\<close>

theorem subscription_delivers_events:
  assumes "bincode_ok (de_responses X)" and "bincode_ok (de_events X)" and "faults w = []"
    and "serve_subscription X received w = (Inr (), w')" and "out w' = out w @ sent" and "faults v = []" and "inp v = sent"
  shows "\<exists>v1. receive_ipc_message (de_responses X) v = (Inr (Ack ''event subscription started''), v1) \<and>
    event_loop (de_events X) [] v1 = ((map subscription_event received, IpcIo UnexpectedEof), v\<lparr>inp := []\<rparr>)"
proof -
  let ?ack = "Ack ''event subscription started''"
  obtain r w1 where r: "send_ipc_message (de_responses X) ?ack w = (r, w1)" by fastforce
  have ack: "r = Inr ()" and loop: "subscription_loop (de_events X) received w1 = (Inr (), w')"
    using assms(4) r send_ipc_calm_Inl [OF assms(3), of "de_responses X" ?ack]
    by (cases r; auto simp: serve_subscription_def io_simps split: if_split_asm)+
  have calm: "faults w1 = []"
    using preserves_calmD [OF send_ipc_calm r assms(3)] .
  note sends = subscription_loop_calm [OF calm loop]
  obtain f fs where f: "out w1 = out w @ f" and fs: "out w' = out w1 @ fs"
    using ipc.put_grows [of "de_responses X" ?ack w w1] r ack ipc.puts_grow [OF sends] by auto
  let ?v = "v\<lparr>inp := fs\<rparr>"
  have "receive_ipc_message (de_responses X) v = (Inr ?ack, ?v)"
    using ipc.put_get [OF assms(1) r [unfolded ack] f assms(6), of fs] assms(5,7) f fs by simp
  moreover have "mapE (\<lambda>_. receive_ipc_message (de_events X)) (map subscription_event received) ?v = (Inr (map subscription_event received), v\<lparr>inp := []\<rparr>)"
    using ipc.puts_gets [OF assms(2) sends fs, of ?v "[]"] assms(6) by simp
  ultimately show ?thesis
    using event_loop_mapE [of "de_events X" _ ?v "v\<lparr>inp := []\<rparr>" "[]"] event_loop_end [of "v\<lparr>inp := []\<rparr>"] assms(6) by simp
qed

theorem subscription_delivers_events_witness:
  "\<exists>w' v1. serve_subscription sample_daemon_env [Inl ServerStopped, Inr 3] empty_world = (Inr (), w') \<and>
     event_loop (de_events sample_daemon_env) [] v1 =
       (([ServerStopped, EventError ''event subscriber lagged; skipped 3 event(s)''], IpcIo UnexpectedEof), empty_world)"
proof -
  obtain w' where run: "serve_subscription sample_daemon_env [Inl ServerStopped, Inr 3] empty_world = (Inr (), w')"
    by (simp add: serve_subscription_def io_simps sample_ipc_send empty_world_calm sample_events)
  have "out w' = out empty_world @ out w'" "faults (empty_world\<lparr>inp := out w'\<rparr>) = []" "inp (empty_world\<lparr>inp := out w'\<rparr>) = out w'" "faults empty_world = []"
    by (simp_all add: empty_world_def)
  from subscription_delivers_events [OF sample_daemon_codecs_ok(2,3) this(4) run this(1-3)] run show ?thesis
    by (auto simp: sample_events empty_world_def)
qed

text \<open>A local connection that is closed before a whole command has arrived ends the server with an error.\<close>

theorem closed_connection_ends_server:
  assumes "faults w = []" and "conns w = Inr bytes # cs" and "length bytes < 4"
  shows "\<exists>w'. daemon_step X root socket (Serving, dm, w) (Ended (Inl (IpcIo UnexpectedEof)), dm, w')"
proof -
  have "receive_command X w = (Inl (IpcIo UnexpectedEof), w\<lparr>conns := cs, inp := [], out := []\<rparr>)"
    using assms by (simp add: receive_command_def stream_connect_def receive_ipc_message_def stream_read_exact_def io_simps map_err_def)
  then have "once X root dm w = (Inr (Inl (IpcIo UnexpectedEof), dm), w\<lparr>conns := cs, inp := [], out := []\<rparr>)"
    by (simp add: once_def receive_command_def [symmetric] io_simps)
  from daemon_step.fail [OF this] show ?thesis
    by (metis surj_pair)
qed

theorem closed_connection_ends_server_witness:
  "\<exists>w'. daemon_step sample_daemon_env [] [''s''] (Serving, idle_daemon, empty_world\<lparr>conns := [Inr []]\<rparr>) (Ended (Inl (IpcIo UnexpectedEof)), idle_daemon, w')"
  by (rule closed_connection_ends_server [of _ "[]" "[]"]) (simp_all add: empty_world_def)

end
