(* ===== verification/Etle_Pipeline.thy ===== *)
theory Etle_Pipeline
  imports Etle_Seed
begin

text \<open>
  The threads of \<open>encrypt_file_to_staging_parallel\<close> (\<open>src/network/transfer/seed.rs\<close>) and of
  \<open>decrypt_library_chunks_to_file_parallel\<close> (\<open>src/network/transfer/download.rs\<close>), step by step over their
  bounded channels. \<open>Etle_Seed\<close> and \<open>Etle_Reconstruct\<close> know of them only the order in which chunks arrive;
  here every interleaving of the threads is considered, and what is shown is that the order is a
  permutation of the chunks, how long the threads run, and where they can block.

  A thread is a function from the state to its next state, \<open>None\<close> while it is blocked and after it has
  ended. Whether a chunk can be written is a parameter, a predicate on the chunks that arrived before it
  and on the chunk.
\<close>

section \<open>Systems of threads that run out of steps\<close>

locale thread_system =
  fixes step :: "'s \<Rightarrow> 's \<Rightarrow> bool" and weight :: "'s \<Rightarrow> nat" and inv :: "'s \<Rightarrow> bool"
  assumes preserved: "step s t \<Longrightarrow> inv s \<Longrightarrow> inv t"
    and lighter: "step s t \<Longrightarrow> inv s \<Longrightarrow> weight t < weight s"
begin

lemma reachable_inv: "step\<^sup>*\<^sup>* s t \<Longrightarrow> inv s \<Longrightarrow> inv t"
  by (induction rule: rtranclp_induct) (auto intro: preserved)

lemma run_length: "(step ^^ n) s t \<Longrightarrow> inv s \<Longrightarrow> n + weight t \<le> weight s"
proof (induction n arbitrary: t)
  case (Suc n)
  then obtain u where u: "(step ^^ n) s u" "step u t"
    by auto
  then have "inv u"
    using reachable_inv relpowp_imp_rtranclp Suc.prems(2) by metis
  then show ?case
    using Suc.IH [OF u(1) Suc.prems(2)] lighter [OF u(2)] by simp
qed simp

lemma run_ends: "inv s \<Longrightarrow> \<exists>t. step\<^sup>*\<^sup>* s t \<and> (\<nexists>u. step t u)"
proof (induction "weight s" arbitrary: s rule: less_induct)
  case less
  show ?case
  proof (cases "\<exists>t. step s t")
    case True
    then obtain t where "step s t" ..
    then show ?thesis
      using less lighter preserved by (metis converse_rtranclp_into_rtranclp)
  qed blast
qed

end

section \<open>Threads that take one chunk at a time\<close>

datatype 'a worker_thread = Waiting | Holding 'a | Ended

fun held :: "'a worker_thread \<Rightarrow> 'a list" where
  "held (Holding c) = [c]"
| "held _ = []"

fun thread_weight :: "'a worker_thread \<Rightarrow> nat" where
  "thread_weight Waiting = 1"
| "thread_weight (Holding _) = 3"
| "thread_weight Ended = 0"

definition all_held :: "'a worker_thread list \<Rightarrow> 'a multiset" where
  "all_held ws = mset (concat (map held ws))"

lemma all_held_update: "i < length ws \<Longrightarrow> all_held (ws[i := x]) + mset (held (ws ! i)) = all_held ws + mset (held x)"
  unfolding all_held_def
proof (induction ws arbitrary: i)
  case (Cons w ws)
  then show ?case
    by (cases i) (auto simp: ac_simps)
qed simp

lemma thread_sum_update:
  fixes f :: "'a worker_thread \<Rightarrow> nat"
  shows "i < length ws \<Longrightarrow> sum_list (map f (ws[i := x])) + f (ws ! i) = sum_list (map f ws) + f x"
proof (induction ws arbitrary: i)
  case (Cons w ws)
  then show ?case
    by (cases i) (auto simp: ac_simps)
qed simp

lemma all_held_start [simp]: "all_held (replicate n Waiting) = {#}"
  by (induction n) (simp_all add: all_held_def)

lemma all_held_ended: "\<forall>w \<in> set ws. w = Ended \<Longrightarrow> all_held ws = {#}"
  by (induction ws) (auto simp: all_held_def)

section \<open>The threads that encrypt a file\<close>

datatype writer_thread = Receiving | Finished | Stopped

record 'a seed_threads =
  st_input :: "'a list"
  st_closed :: bool
  st_plain :: "'a list"
  st_workers :: "'a worker_thread list"
  st_encrypted :: "'a list"
  st_writer :: writer_thread
  st_written :: "'a list"

text \<open>
  The reading thread puts chunk after chunk into the channel to the workers, whose receiving end is
  alive as long as the function runs, so that sending blocks but never fails; at the end of the file, or
  when reading failed, it drops its end of the channel.
\<close>

definition seed_reader_step :: "nat \<Rightarrow> 'a seed_threads \<Rightarrow> 'a seed_threads option" where
  "seed_reader_step capacity s =
     (if st_closed s then None
      else (case st_input s of
          [] \<Rightarrow> Some (s\<lparr>st_closed := True\<rparr>)
        | c # rest \<Rightarrow>
            if length (st_plain s) < capacity then Some (s\<lparr>st_input := rest, st_plain := st_plain s @ [c]\<rparr>) else None))"

text \<open>
  A worker takes a chunk, encrypts it and sends it on. It ends when the channel is empty and closed, or
  when the writer has dropped its receiving end.
\<close>

definition seed_worker_step :: "nat \<Rightarrow> nat \<Rightarrow> 'a seed_threads \<Rightarrow> 'a seed_threads option" where
  "seed_worker_step capacity i s =
     (if i \<ge> length (st_workers s) then None
      else (case st_workers s ! i of
          Waiting \<Rightarrow> (case st_plain s of
              c # rest \<Rightarrow> Some (s\<lparr>st_plain := rest, st_workers := (st_workers s)[i := Holding c]\<rparr>)
            | [] \<Rightarrow> if st_closed s then Some (s\<lparr>st_workers := (st_workers s)[i := Ended]\<rparr>) else None)
        | Holding c \<Rightarrow>
            if st_writer s \<noteq> Receiving then Some (s\<lparr>st_workers := (st_workers s)[i := Ended]\<rparr>)
            else if length (st_encrypted s) < capacity
            then Some (s\<lparr>st_encrypted := st_encrypted s @ [c], st_workers := (st_workers s)[i := Waiting]\<rparr>)
            else None
        | Ended \<Rightarrow> None))"

text \<open>
  The writing thread stages what it receives. It stops at the first chunk that was not encrypted or
  cannot be written, and has finished when every sender has been dropped and the channel is empty.
\<close>

definition seed_writer_step :: "('a list \<Rightarrow> 'a \<Rightarrow> bool) \<Rightarrow> 'a seed_threads \<Rightarrow> 'a seed_threads option" where
  "seed_writer_step can_stage s =
     (if st_writer s \<noteq> Receiving then None
      else (case st_encrypted s of
          c # rest \<Rightarrow>
            if can_stage (st_written s) c then Some (s\<lparr>st_encrypted := rest, st_written := st_written s @ [c]\<rparr>)
            else Some (s\<lparr>st_encrypted := [], st_writer := Stopped\<rparr>)
        | [] \<Rightarrow> if \<forall>w \<in> set (st_workers s). w = Ended then Some (s\<lparr>st_writer := Finished\<rparr>) else None))"

definition seed_start :: "nat \<Rightarrow> 'a list \<Rightarrow> 'a seed_threads" where
  "seed_start worker_count chunks =
     \<lparr>st_input = chunks, st_closed = False, st_plain = [], st_workers = replicate worker_count Waiting,
      st_encrypted = [], st_writer = Receiving, st_written = []\<rparr>"

inductive seed_step :: "nat \<Rightarrow> ('a list \<Rightarrow> 'a \<Rightarrow> bool) \<Rightarrow> 'a seed_threads \<Rightarrow> 'a seed_threads \<Rightarrow> bool"
  for capacity :: nat and can_stage :: "'a list \<Rightarrow> 'a \<Rightarrow> bool" where
  reader: "seed_reader_step capacity s = Some t \<Longrightarrow> seed_step capacity can_stage s t"
| encrypter: "seed_worker_step capacity i s = Some t \<Longrightarrow> seed_step capacity can_stage s t"
| stager: "seed_writer_step can_stage s = Some t \<Longrightarrow> seed_step capacity can_stage s t"

text \<open>The chunks that are on their way.\<close>

definition in_pipeline :: "'a seed_threads \<Rightarrow> 'a multiset" where
  "in_pipeline s = mset (st_input s) + mset (st_plain s) + all_held (st_workers s) + mset (st_encrypted s) + mset (st_written s)"

definition seed_inv :: "nat \<Rightarrow> 'a list \<Rightarrow> 'a seed_threads \<Rightarrow> bool" where
  "seed_inv capacity chunks s \<longleftrightarrow>
     (st_writer s \<noteq> Stopped \<longrightarrow> in_pipeline s = mset chunks \<and> (Ended \<in> set (st_workers s) \<longrightarrow> st_closed s \<and> st_plain s = [])) \<and>
     (st_closed s \<longrightarrow> st_input s = []) \<and>
     (st_writer s = Finished \<longrightarrow> st_encrypted s = [] \<and> (\<forall>w \<in> set (st_workers s). w = Ended)) \<and>
     (st_writer s = Stopped \<longrightarrow> st_encrypted s = []) \<and>
     length (st_plain s) \<le> capacity \<and> length (st_encrypted s) \<le> capacity \<and> st_workers s \<noteq> []"

definition seed_weight :: "'a seed_threads \<Rightarrow> nat" where
  "seed_weight s = 5 * length (st_input s) + (if st_closed s then 0 else 1) + 4 * length (st_plain s) +
     sum_list (map thread_weight (st_workers s)) + length (st_encrypted s) + (if st_writer s = Receiving then 1 else 0)"

lemma seed_reader_preserves:
  assumes step: "seed_reader_step capacity s = Some t" and inv: "seed_inv capacity chunks s"
  shows "seed_inv capacity chunks t" and "seed_weight t < seed_weight s"
proof -
  consider "\<not> st_closed s" "st_input s = []" "t = s\<lparr>st_closed := True\<rparr>"
    | c rest where "\<not> st_closed s" "st_input s = c # rest" "length (st_plain s) < capacity"
      "t = s\<lparr>st_input := rest, st_plain := st_plain s @ [c]\<rparr>"
    using step by (auto simp: seed_reader_step_def split: if_splits list.splits)
  then have "seed_inv capacity chunks t \<and> seed_weight t < seed_weight s"
    using inv by cases (simp_all add: seed_inv_def in_pipeline_def seed_weight_def)
  then show "seed_inv capacity chunks t" and "seed_weight t < seed_weight s"
    by blast+
qed

lemma seed_writer_cases:
  assumes "seed_writer_step can_stage s = Some t"
  obtains (stage) c rest where "st_writer s = Receiving" "st_encrypted s = c # rest" "can_stage (st_written s) c"
      "t = s\<lparr>st_encrypted := rest, st_written := st_written s @ [c]\<rparr>"
    | (stop) c rest where "st_writer s = Receiving" "st_encrypted s = c # rest" "\<not> can_stage (st_written s) c"
      "t = s\<lparr>st_encrypted := [], st_writer := Stopped\<rparr>"
    | (finish) "st_writer s = Receiving" "st_encrypted s = []" "\<forall>w \<in> set (st_workers s). w = Ended" "t = s\<lparr>st_writer := Finished\<rparr>"
  using assms by (auto simp: seed_writer_step_def split: if_splits list.splits)

lemma seed_writer_preserves:
  assumes step: "seed_writer_step can_stage s = Some t" and inv: "seed_inv capacity chunks s"
  shows "seed_inv capacity chunks t" and "seed_weight t < seed_weight s"
proof -
  have "seed_inv capacity chunks t \<and> seed_weight t < seed_weight s"
    using step
  proof (cases rule: seed_writer_cases)
    case stage
    then show ?thesis
      using inv by (simp add: seed_inv_def in_pipeline_def seed_weight_def)
  next
    case stop
    then show ?thesis
      using inv by (simp add: seed_inv_def seed_weight_def)
  next
    case finish
    then show ?thesis
      using inv by (simp add: seed_inv_def in_pipeline_def seed_weight_def)
  qed
  then show "seed_inv capacity chunks t" and "seed_weight t < seed_weight s"
    by blast+
qed

text \<open>A step of a worker changes its entry \<open>i\<close> to \<open>x\<close> and one of the channels beside it.\<close>

lemma seed_worker_moves:
  assumes "seed_inv capacity chunks s" and "i < length (st_workers s)" and "st_workers s ! i \<noteq> Ended"
    and "mset plain + mset (held x) + mset encrypted = mset (st_plain s) + mset (held (st_workers s ! i)) + mset (st_encrypted s)
      \<or> st_writer s = Stopped"
    and "x = Ended \<longrightarrow> st_writer s = Stopped \<or> st_closed s \<and> plain = []"
    and "length plain \<le> length (st_plain s)" and "length encrypted \<le> capacity" and "st_writer s = Stopped \<longrightarrow> encrypted = []"
  shows "seed_inv capacity chunks (s\<lparr>st_plain := plain, st_encrypted := encrypted, st_workers := (st_workers s)[i := x]\<rparr>)"
proof -
  have "st_workers s ! i \<in> set (st_workers s)"
    using assms(2) by simp
  then have running: "st_writer s \<noteq> Finished"
    using assms(1,3) by (auto simp: seed_inv_def)
  have moved: "in_pipeline (s\<lparr>st_plain := plain, st_encrypted := encrypted, st_workers := (st_workers s)[i := x]\<rparr>) = in_pipeline s"
    if "st_writer s \<noteq> Stopped"
  proof -
    have "mset plain + mset (held x) + mset encrypted = mset (st_plain s) + mset (held (st_workers s ! i)) + mset (st_encrypted s)"
      using assms(4) that by simp
    then have "mset plain + (all_held (st_workers s) + mset (held x)) + mset encrypted =
        mset (st_plain s) + mset (held (st_workers s ! i)) + mset (st_encrypted s) + all_held (st_workers s)"
      by (simp add: ac_simps)
    then show ?thesis
      unfolding all_held_update [OF assms(2), symmetric] by (simp add: in_pipeline_def ac_simps)
  qed
  have ended: "Ended \<in> set ((st_workers s)[i := x]) \<Longrightarrow> x = Ended \<or> Ended \<in> set (st_workers s)"
    by (auto dest!: set_update_subset_insert [THEN subsetD])
  have plain: "st_plain s = [] \<Longrightarrow> plain = []"
    using assms(6) by simp
  show ?thesis
    using assms running moved ended plain by (auto simp: seed_inv_def)
qed

lemma seed_worker_cases:
  assumes "seed_worker_step capacity i s = Some t"
  obtains (take) c rest where "st_workers s ! i = Waiting" "st_plain s = c # rest"
      "t = s\<lparr>st_plain := rest, st_encrypted := st_encrypted s, st_workers := (st_workers s)[i := Holding c]\<rparr>"
    | (last) "st_workers s ! i = Waiting" "st_plain s = []" "st_closed s"
      "t = s\<lparr>st_plain := [], st_encrypted := st_encrypted s, st_workers := (st_workers s)[i := Ended]\<rparr>"
    | (refused) c where "st_workers s ! i = Holding c" "st_writer s \<noteq> Receiving"
      "t = s\<lparr>st_plain := st_plain s, st_encrypted := st_encrypted s, st_workers := (st_workers s)[i := Ended]\<rparr>"
    | (pass) c where "st_workers s ! i = Holding c" "st_writer s = Receiving" "length (st_encrypted s) < capacity"
      "t = s\<lparr>st_plain := st_plain s, st_encrypted := st_encrypted s @ [c], st_workers := (st_workers s)[i := Waiting]\<rparr>"
  using assms by (auto simp: seed_worker_step_def split: if_splits worker_thread.splits list.splits)

lemma seed_worker_preserves:
  assumes step: "seed_worker_step capacity i s = Some t" and inv: "seed_inv capacity chunks s"
  shows "seed_inv capacity chunks t" and "seed_weight t < seed_weight s"
proof -
  have i: "i < length (st_workers s)"
    using step by (simp add: seed_worker_step_def split: if_splits)
  then have "st_workers s ! i \<in> set (st_workers s)"
    by simp
  then have stopped: "st_workers s ! i \<noteq> Ended \<Longrightarrow> st_writer s \<noteq> Receiving \<Longrightarrow> st_writer s = Stopped"
    using inv by (cases "st_writer s") (auto simp: seed_inv_def)
  note weigh = thread_sum_update [OF i, of thread_weight]
  have bounds: "length (st_encrypted s) \<le> capacity" "st_writer s = Stopped \<longrightarrow> st_encrypted s = []"
    using inv by (simp_all add: seed_inv_def)
  have "seed_inv capacity chunks t \<and> seed_weight t < seed_weight s"
    using step
  proof (cases rule: seed_worker_cases)
    case (take c rest)
    have "seed_inv capacity chunks t"
      unfolding take(3) by (rule seed_worker_moves [OF inv i]) (use take bounds stopped in simp_all)
    then show ?thesis
      using take weigh [of "Holding c"] by (simp add: seed_weight_def)
  next
    case last
    have "seed_inv capacity chunks t"
      unfolding last(4) by (rule seed_worker_moves [OF inv i]) (use last bounds stopped in simp_all)
    then show ?thesis
      using last weigh [of Ended] by (simp add: seed_weight_def)
  next
    case (refused c)
    have "seed_inv capacity chunks t"
      unfolding refused(3) by (rule seed_worker_moves [OF inv i]) (use refused bounds stopped in simp_all)
    then show ?thesis
      using refused weigh [of Ended] by (simp add: seed_weight_def)
  next
    case (pass c)
    have "seed_inv capacity chunks t"
      unfolding pass(4) by (rule seed_worker_moves [OF inv i]) (use pass bounds stopped in simp_all)
    then show ?thesis
      using pass weigh [of Waiting] by (simp add: seed_weight_def)
  qed
  then show "seed_inv capacity chunks t" and "seed_weight t < seed_weight s"
    by blast+
qed

interpretation seed: thread_system "seed_step capacity can_stage" seed_weight "seed_inv capacity chunks" for capacity can_stage chunks
  by unfold_locales
    (auto elim!: seed_step.cases dest: seed_reader_preserves seed_worker_preserves seed_writer_preserves)

lemma seed_inv_start: "0 < worker_count \<Longrightarrow> seed_inv capacity chunks (seed_start worker_count chunks)"
  by (simp add: seed_inv_def seed_start_def in_pipeline_def)

lemma seed_weight_start: "seed_weight (seed_start worker_count chunks) = 5 * length chunks + worker_count + 2"
  by (simp add: seed_weight_def seed_start_def sum_list_replicate)

text \<open>Where the threads come to a halt: at the end of the work, or with the reader in front of a full channel.\<close>

lemma seed_halt:
  assumes inv: "seed_inv capacity chunks s" and "0 < capacity" and halt: "\<nexists>t. seed_step capacity can_stage s t"
  shows "\<forall>w \<in> set (st_workers s). w = Ended"
    and "st_writer s = Finished \<and> st_closed s \<and> mset (st_written s) = mset chunks \<or>
      st_writer s = Stopped \<and> (st_closed s \<or> st_input s \<noteq> [] \<and> length (st_plain s) = capacity)"
proof -
  have reader: "seed_reader_step capacity s = None" and worker: "seed_worker_step capacity i s = None" and writer: "seed_writer_step can_stage s = None" for i
    using halt seed_step.intros [where s = s] by (metis not_None_eq)+
  have blocked: "st_closed s \<or> st_input s \<noteq> [] \<and> length (st_plain s) = capacity"
    using reader inv by (auto simp: seed_reader_step_def seed_inv_def split: if_splits list.splits)
  have ended: "w = Ended \<or> (\<exists>c. w = Holding c \<and> length (st_encrypted s) \<ge> capacity \<and> st_writer s = Receiving)"
    if "w \<in> set (st_workers s)" for w
  proof -
    obtain i where i: "i < length (st_workers s)" "st_workers s ! i = w"
      using \<open>w \<in> set (st_workers s)\<close> by (auto simp: in_set_conv_nth)
    show ?thesis
    proof (cases w)
      case Waiting
      then have "st_plain s = []" "\<not> st_closed s"
        using worker [of i] i by (auto simp: seed_worker_step_def split: list.splits if_splits)
      then show ?thesis
        using blocked \<open>0 < capacity\<close> by simp
    next
      case (Holding c)
      then show ?thesis
        using worker [of i] i by (auto simp: seed_worker_step_def split: if_splits)
    qed simp
  qed
  have receiving: "st_writer s \<noteq> Receiving"
  proof
    assume "st_writer s = Receiving"
    then have "st_encrypted s = []" "\<not> (\<forall>w \<in> set (st_workers s). w = Ended)"
      using writer by (auto simp: seed_writer_step_def split: list.splits if_splits)
    then show False
      using ended \<open>0 < capacity\<close> by force
  qed
  then show all: "\<forall>w \<in> set (st_workers s). w = Ended"
    using ended by blast
  show "st_writer s = Finished \<and> st_closed s \<and> mset (st_written s) = mset chunks \<or>
      st_writer s = Stopped \<and> (st_closed s \<or> st_input s \<noteq> [] \<and> length (st_plain s) = capacity)"
  proof (cases "st_writer s")
    case Finished
    have "Ended \<in> set (st_workers s)"
      using all inv by (cases "st_workers s") (auto simp: seed_inv_def)
    then show ?thesis
      using Finished inv all_held_ended [OF all] by (auto simp: seed_inv_def in_pipeline_def)
  qed (use blocked receiving in auto)
qed

lemma seed_writer_never_stops:
  assumes "(seed_step capacity can_stage)\<^sup>*\<^sup>* s t" and "\<And>before c. can_stage before c" and "st_writer s \<noteq> Stopped"
  shows "st_writer t \<noteq> Stopped"
  using assms(1)
proof (induction rule: rtranclp_induct)
  case (step t u)
  from step.hyps(2) show ?case
  proof cases
    case reader
    then show ?thesis
      using step.IH by (auto simp: seed_reader_step_def split: if_splits list.splits)
  next
    case (encrypter i)
    then show ?thesis
      using step.IH by (cases rule: seed_worker_cases) auto
  next
    case stager
    then show ?thesis
      using assms(2) by (cases rule: seed_writer_cases) auto
  qed
qed (rule assms(3))

text \<open>C32: The threads that read, encrypt and stage a file always come to an end when every chunk can be
  staged: however they are scheduled they make at most five steps for a chunk and one to start and end a
  thread, and when no thread can move any more all have ended, the writer has finished, and it received
  every chunk of the file exactly once, in some order.
\<close>

theorem seed_threads_deliver:
  assumes "\<forall>before c. can_stage before c"
    and "(seed_step (2 * default_seed_worker_count cores) can_stage ^^ n) (seed_start (default_seed_worker_count cores) chunks) s"
  shows "n \<le> 5 * length chunks + default_seed_worker_count cores + 2 \<and>
    ((\<nexists>t. seed_step (2 * default_seed_worker_count cores) can_stage s t) \<longrightarrow>
      st_writer s = Finished \<and> st_closed s \<and> (\<forall>w \<in> set (st_workers s). w = Ended) \<and> mset (st_written s) = mset chunks)"
proof -
  let ?k = "default_seed_worker_count cores"
  have k: "0 < ?k"
    by (simp add: default_seed_worker_count_def)
  note start = seed_inv_start [OF k, of "2 * ?k" chunks]
  have run: "(seed_step (2 * ?k) can_stage)\<^sup>*\<^sup>* (seed_start ?k chunks) s"
    using assms(2) by (rule relpowp_imp_rtranclp)
  then have never: "st_writer s \<noteq> Stopped"
    by (rule seed_writer_never_stops) (use assms(1) in \<open>simp_all add: seed_start_def\<close>)
  have inv: "seed_inv (2 * ?k) chunks s"
    by (rule seed.reachable_inv [OF run start])
  have "n \<le> 5 * length chunks + ?k + 2"
    using seed.run_length [OF assms(2) start] unfolding seed_weight_start by linarith
  moreover have "st_writer s = Finished \<and> st_closed s \<and> (\<forall>w \<in> set (st_workers s). w = Ended) \<and> mset (st_written s) = mset chunks"
    if "\<nexists>t. seed_step (2 * ?k) can_stage s t"
    using seed_halt [OF inv _ that] k never by simp
  ultimately show ?thesis
    by blast
qed

theorem seed_threads_deliver_witness:
  "\<exists>n s. (seed_step (2 * default_seed_worker_count None) (\<lambda>_ _. True) ^^ n) (seed_start (default_seed_worker_count None) [0 :: nat, 1, 2]) s \<and>
     n \<le> 19 \<and> st_writer s = Finished \<and> mset (st_written s) = {#0, 1, 2#}"
proof -
  let ?k = "default_seed_worker_count None"
  let ?step = "seed_step (2 * ?k) (\<lambda>_ _. True) :: nat seed_threads \<Rightarrow> _"
  have k: "?k = 2"
    by (simp add: default_seed_worker_count_def)
  obtain s where s: "?step\<^sup>*\<^sup>* (seed_start ?k [0, 1, 2]) s" "\<nexists>t. ?step s t"
    using seed.run_ends [OF seed_inv_start [of ?k "2 * ?k" "[0 :: nat, 1, 2]"], of "\<lambda>_ _. True"] k by auto
  then obtain n where n: "(?step ^^ n) (seed_start ?k [0, 1, 2]) s"
    using rtranclp_imp_relpowp by metis
  show ?thesis
    using seed_threads_deliver [OF _ n] s(2) n unfolding k by (intro exI [of _ n] exI [of _ s]) simp
qed

text \<open>
  How much is lost once the writer has stopped: what was in its channel, and one chunk for each worker
  that found the channel closed.
\<close>

definition busy :: "'a worker_thread list \<Rightarrow> nat" where
  "busy ws = sum_list (map (\<lambda>w. if w = Waiting then 0 else 1) ws)"

definition lost_inv :: "nat \<Rightarrow> nat \<Rightarrow> 'a list \<Rightarrow> 'a seed_threads \<Rightarrow> bool" where
  "lost_inv capacity limit chunks s \<longleftrightarrow>
     seed_inv capacity chunks s \<and> length (st_written s) \<le> limit \<and>
     (st_writer s = Stopped \<longrightarrow> length chunks \<le> limit + length (st_input s) + length (st_plain s) + busy (st_workers s) + capacity)"

lemma held_le_busy: "size (all_held ws) \<le> busy ws"
proof (induction ws)
  case (Cons w ws)
  then show ?case
    by (cases w) (auto simp: all_held_def busy_def)
qed (simp add: all_held_def busy_def)

lemma busy_le: "busy ws \<le> length ws"
  by (induction ws) (auto simp: busy_def)

lemma lost_inv_step:
  assumes step: "seed_step capacity can_stage s t" and inv: "lost_inv capacity limit chunks s"
    and few: "\<And>before c. can_stage before c \<Longrightarrow> length before < limit"
  shows "lost_inv capacity limit chunks t"
proof -
  have inv': "seed_inv capacity chunks t" "seed_inv capacity chunks s"
    using seed.preserved [OF step] inv by (auto simp: lost_inv_def)
  show ?thesis
    using step
  proof cases
    case reader
    then show ?thesis
      using inv inv' by (auto simp: lost_inv_def seed_reader_step_def split: if_splits list.splits)
  next
    case (encrypter i)
    then have i: "i < length (st_workers s)"
      by (simp add: seed_worker_step_def split: if_splits)
    note sum = thread_sum_update [OF i, of "\<lambda>w. if w = Waiting then 0 else 1", folded busy_def]
    from encrypter show ?thesis
    proof (cases rule: seed_worker_cases)
      case (take c rest)
      then show ?thesis
        using inv inv' sum [of "Holding c"] by (simp add: lost_inv_def)
    next
      case last
      then show ?thesis
        using inv inv' sum [of Ended] by (auto simp: lost_inv_def)
    next
      case (refused c)
      then show ?thesis
        using inv inv' sum [of Ended] by (auto simp: lost_inv_def)
    next
      case (pass c)
      then show ?thesis
        using inv inv' by (auto simp: lost_inv_def)
    qed
  next
    case stager
    then show ?thesis
    proof (cases rule: seed_writer_cases)
      case (stage c rest)
      then show ?thesis
        using inv inv' few [of "st_written s" c] by (auto simp: lost_inv_def)
    next
      case (stop c rest)
      have "size (in_pipeline s) = length chunks" and "length (st_encrypted s) \<le> capacity"
        using inv' stop by (simp_all add: seed_inv_def)
      then have "length chunks \<le> length (st_written s) + length (st_input s) + length (st_plain s) + busy (st_workers s) + capacity"
        using held_le_busy [of "st_workers s"] by (simp add: in_pipeline_def)
      then show ?thesis
        using inv inv' stop by (simp add: lost_inv_def)
    next
      case finish
      then show ?thesis
        using inv inv' by (simp add: lost_inv_def)
    qed
  qed
qed

lemma seed_workers_length: "seed_step capacity can_stage s t \<Longrightarrow> length (st_workers t) = length (st_workers s)"
proof (induction rule: seed_step.induct)
  case (encrypter i s t)
  then show ?case
    by (cases rule: seed_worker_cases) simp_all
next
  case (stager s t)
  then show ?case
    by (cases rule: seed_writer_cases) simp_all
qed (auto simp: seed_reader_step_def split: if_splits list.splits)



section \<open>The threads that decrypt a download\<close>

datatype receiver_thread = Expecting nat | Joining | Returned

record 'a decrypt_threads =
  dt_queue :: "'a list"
  dt_workers :: "'a worker_thread list"
  dt_results :: "'a list"
  dt_receiver :: receiver_thread
  dt_received :: "'a list"

text \<open>A worker takes chunks from the shared queue until it is empty, and sends each result, which blocks on a full channel.\<close>

definition decrypt_worker_step :: "nat \<Rightarrow> nat \<Rightarrow> 'a decrypt_threads \<Rightarrow> 'a decrypt_threads option" where
  "decrypt_worker_step capacity i s =
     (if i \<ge> length (dt_workers s) then None
      else (case dt_workers s ! i of
          Waiting \<Rightarrow> (case dt_queue s of
              c # rest \<Rightarrow> Some (s\<lparr>dt_queue := rest, dt_workers := (dt_workers s)[i := Holding c]\<rparr>)
            | [] \<Rightarrow> Some (s\<lparr>dt_workers := (dt_workers s)[i := Ended]\<rparr>))
        | Holding c \<Rightarrow>
            if length (dt_results s) < capacity
            then Some (s\<lparr>dt_results := dt_results s @ [c], dt_workers := (dt_workers s)[i := Waiting]\<rparr>)
            else None
        | Ended \<Rightarrow> None))"

text \<open>
  The receiver takes as many results as there are chunks and then joins the workers. A result that it
  cannot write makes it return, without dropping its end of the channel, which belongs to the function
  around the scope of the threads.
\<close>

definition decrypt_receiver_step :: "('a list \<Rightarrow> 'a \<Rightarrow> bool) \<Rightarrow> 'a decrypt_threads \<Rightarrow> 'a decrypt_threads option" where
  "decrypt_receiver_step can_write s = (case dt_receiver s of
      Expecting 0 \<Rightarrow> Some (s\<lparr>dt_receiver := Joining\<rparr>)
    | Expecting (Suc n) \<Rightarrow> (case dt_results s of
          c # rest \<Rightarrow>
            if can_write (dt_received s) c
            then Some (s\<lparr>dt_results := rest, dt_received := dt_received s @ [c], dt_receiver := Expecting n\<rparr>)
            else Some (s\<lparr>dt_results := rest, dt_receiver := Returned\<rparr>)
        | [] \<Rightarrow> if \<forall>w \<in> set (dt_workers s). w = Ended then Some (s\<lparr>dt_receiver := Joining\<rparr>) else None)
    | _ \<Rightarrow> None)"

definition decrypt_start :: "nat \<Rightarrow> 'a list \<Rightarrow> 'a decrypt_threads" where
  "decrypt_start worker_count chunks =
     \<lparr>dt_queue = chunks, dt_workers = replicate worker_count Waiting, dt_results = [],
      dt_receiver = Expecting (length chunks), dt_received = []\<rparr>"

inductive decrypt_step :: "nat \<Rightarrow> ('a list \<Rightarrow> 'a \<Rightarrow> bool) \<Rightarrow> 'a decrypt_threads \<Rightarrow> 'a decrypt_threads \<Rightarrow> bool"
  for capacity :: nat and can_write :: "'a list \<Rightarrow> 'a \<Rightarrow> bool" where
  decrypter: "decrypt_worker_step capacity i s = Some t \<Longrightarrow> decrypt_step capacity can_write s t"
| receiver: "decrypt_receiver_step can_write s = Some t \<Longrightarrow> decrypt_step capacity can_write s t"

definition in_decryption :: "'a decrypt_threads \<Rightarrow> 'a multiset" where
  "in_decryption s = mset (dt_queue s) + all_held (dt_workers s) + mset (dt_results s) + mset (dt_received s)"

text \<open>
  Until it returns early, the receiver has counted what it received and nothing is lost; when it has
  returned, one result is.
\<close>

definition decrypt_inv :: "nat \<Rightarrow> nat \<Rightarrow> 'a list \<Rightarrow> 'a decrypt_threads \<Rightarrow> bool" where
  "decrypt_inv capacity worker_count chunks s \<longleftrightarrow>
     (case dt_receiver s of
        Expecting n \<Rightarrow> in_decryption s = mset chunks \<and> length (dt_received s) + n = length chunks
      | Joining \<Rightarrow> in_decryption s = mset chunks \<and> length (dt_received s) = length chunks
      | Returned \<Rightarrow> size (in_decryption s) + 1 = length chunks) \<and>
     (Ended \<in> set (dt_workers s) \<longrightarrow> dt_queue s = []) \<and>
     length (dt_results s) \<le> capacity \<and> length (dt_workers s) = worker_count"

definition decrypt_weight :: "'a decrypt_threads \<Rightarrow> nat" where
  "decrypt_weight s = 4 * length (dt_queue s) + sum_list (map thread_weight (dt_workers s)) + length (dt_results s) +
     (case dt_receiver s of Expecting _ \<Rightarrow> 1 | _ \<Rightarrow> 0)"

lemma decrypt_worker_cases:
  assumes "decrypt_worker_step capacity i s = Some t"
  obtains (take) c rest where "dt_workers s ! i = Waiting" "dt_queue s = c # rest"
      "t = s\<lparr>dt_queue := rest, dt_results := dt_results s, dt_workers := (dt_workers s)[i := Holding c]\<rparr>"
    | (last) "dt_workers s ! i = Waiting" "dt_queue s = []"
      "t = s\<lparr>dt_queue := [], dt_results := dt_results s, dt_workers := (dt_workers s)[i := Ended]\<rparr>"
    | (pass) c where "dt_workers s ! i = Holding c" "length (dt_results s) < capacity"
      "t = s\<lparr>dt_queue := dt_queue s, dt_results := dt_results s @ [c], dt_workers := (dt_workers s)[i := Waiting]\<rparr>"
  using assms by (auto simp: decrypt_worker_step_def split: if_splits worker_thread.splits list.splits)

lemma decrypt_worker_moves:
  assumes inv: "decrypt_inv capacity worker_count chunks s" and i: "i < length (dt_workers s)"
    and same: "mset queue + mset (held x) + mset results = mset (dt_queue s) + mset (held (dt_workers s ! i)) + mset (dt_results s)"
    and "x = Ended \<longrightarrow> queue = []" and "length queue \<le> length (dt_queue s)" and "length results \<le> capacity"
  shows "decrypt_inv capacity worker_count chunks (s\<lparr>dt_queue := queue, dt_results := results, dt_workers := (dt_workers s)[i := x]\<rparr>)"
proof -
  have "mset queue + (all_held (dt_workers s) + mset (held x)) + mset results =
      mset (dt_queue s) + mset (held (dt_workers s ! i)) + mset (dt_results s) + all_held (dt_workers s)"
    using same by (simp add: ac_simps)
  then have moved: "in_decryption (s\<lparr>dt_queue := queue, dt_results := results, dt_workers := (dt_workers s)[i := x]\<rparr>) = in_decryption s"
    unfolding all_held_update [OF i, symmetric] by (simp add: in_decryption_def ac_simps)
  have "Ended \<in> set ((dt_workers s)[i := x]) \<Longrightarrow> x = Ended \<or> Ended \<in> set (dt_workers s)"
    by (auto dest!: set_update_subset_insert [THEN subsetD])
  moreover have "dt_queue s = [] \<Longrightarrow> queue = []"
    using assms(5) by simp
  ultimately show ?thesis
    using inv assms(4,6) unfolding decrypt_inv_def moved by (cases "dt_receiver s") (simp_all, blast+)
qed

lemma decrypt_worker_preserves:
  assumes step: "decrypt_worker_step capacity i s = Some t" and inv: "decrypt_inv capacity worker_count chunks s"
  shows "decrypt_inv capacity worker_count chunks t" and "decrypt_weight t < decrypt_weight s"
proof -
  have i: "i < length (dt_workers s)"
    using step by (simp add: decrypt_worker_step_def split: if_splits)
  have bound: "length (dt_results s) \<le> capacity"
    using inv by (simp add: decrypt_inv_def)
  note weigh = thread_sum_update [OF i, of thread_weight]
  have "decrypt_inv capacity worker_count chunks t \<and> decrypt_weight t < decrypt_weight s"
    using step
  proof (cases rule: decrypt_worker_cases)
    case (take c rest)
    have "decrypt_inv capacity worker_count chunks t"
      unfolding take(3) by (rule decrypt_worker_moves [OF inv i]) (use take bound in simp_all)
    then show ?thesis
      using take weigh [of "Holding c"] by (simp add: decrypt_weight_def)
  next
    case last
    have "decrypt_inv capacity worker_count chunks t"
      unfolding last(3) by (rule decrypt_worker_moves [OF inv i]) (use last bound in simp_all)
    then show ?thesis
      using last weigh [of Ended] by (simp add: decrypt_weight_def)
  next
    case (pass c)
    have "decrypt_inv capacity worker_count chunks t"
      unfolding pass(3) by (rule decrypt_worker_moves [OF inv i]) (use pass bound in simp_all)
    then show ?thesis
      using pass weigh [of Waiting] by (simp add: decrypt_weight_def)
  qed
  then show "decrypt_inv capacity worker_count chunks t" and "decrypt_weight t < decrypt_weight s"
    by blast+
qed

lemma decrypt_receiver_cases:
  assumes "decrypt_receiver_step can_write s = Some t"
  obtains (complete) "dt_receiver s = Expecting 0" "t = s\<lparr>dt_receiver := Joining\<rparr>"
    | (write_chunk) n c rest where "dt_receiver s = Expecting (Suc n)" "dt_results s = c # rest" "can_write (dt_received s) c"
      "t = s\<lparr>dt_results := rest, dt_received := dt_received s @ [c], dt_receiver := Expecting n\<rparr>"
    | (return) n c rest where "dt_receiver s = Expecting (Suc n)" "dt_results s = c # rest" "\<not> can_write (dt_received s) c"
      "t = s\<lparr>dt_results := rest, dt_receiver := Returned\<rparr>"
    | (no_sender) n where "dt_receiver s = Expecting (Suc n)" "dt_results s = []" "\<forall>w \<in> set (dt_workers s). w = Ended"
      "t = s\<lparr>dt_receiver := Joining\<rparr>"
  using assms by (auto simp: decrypt_receiver_step_def split: receiver_thread.splits nat.splits if_splits list.splits)

text \<open>While results are expected there are workers to send them, so the last case never happens.\<close>

lemma workers_stay:
  assumes "decrypt_inv capacity worker_count chunks s" and "dt_receiver s = Expecting (Suc n)" and "dt_results s = []" and "0 < worker_count"
  shows "\<not> (\<forall>w \<in> set (dt_workers s). w = Ended)"
proof
  assume all: "\<forall>w \<in> set (dt_workers s). w = Ended"
  moreover have "dt_workers s \<noteq> []"
    using assms(1,4) by (auto simp: decrypt_inv_def)
  ultimately have "Ended \<in> set (dt_workers s)"
    by (cases "dt_workers s") auto
  then have "mset (dt_received s) = mset chunks" "length (dt_received s) + Suc n = length chunks"
    using assms all_held_ended [OF all] by (auto simp: decrypt_inv_def in_decryption_def)
  then show False
    by (auto dest: mset_eq_length)
qed

lemma decrypt_receiver_preserves:
  assumes step: "decrypt_receiver_step can_write s = Some t" and inv: "decrypt_inv capacity (Suc worker_count) chunks s"
  shows "decrypt_inv capacity (Suc worker_count) chunks t" and "decrypt_weight t < decrypt_weight s"
proof -
  have "decrypt_inv capacity (Suc worker_count) chunks t \<and> decrypt_weight t < decrypt_weight s"
    using step
  proof (cases rule: decrypt_receiver_cases)
    case complete
    then show ?thesis
      using inv by (simp add: decrypt_inv_def in_decryption_def decrypt_weight_def)
  next
    case (write_chunk n c rest)
    then show ?thesis
      using inv by (simp add: decrypt_inv_def in_decryption_def decrypt_weight_def)
  next
    case (return n c rest)
    have "size (in_decryption s) = length chunks"
      using inv return by (simp add: decrypt_inv_def)
    then show ?thesis
      using inv return by (simp add: decrypt_inv_def in_decryption_def decrypt_weight_def)
  next
    case (no_sender n)
    then show ?thesis
      using workers_stay [OF inv] by simp
  qed
  then show "decrypt_inv capacity (Suc worker_count) chunks t" and "decrypt_weight t < decrypt_weight s"
    by blast+
qed

interpretation decrypt: thread_system "decrypt_step capacity can_write" decrypt_weight "decrypt_inv capacity (Suc worker_count) chunks"
  for capacity can_write worker_count chunks
  by unfold_locales (auto elim!: decrypt_step.cases dest: decrypt_worker_preserves decrypt_receiver_preserves)

lemma decrypt_inv_start: "decrypt_inv capacity (Suc k) chunks (decrypt_start (Suc k) chunks)"
  using all_held_start [of "Suc k"] by (simp add: decrypt_inv_def decrypt_start_def in_decryption_def)

lemma decrypt_weight_start: "decrypt_weight (decrypt_start k chunks) = 4 * length chunks + k + 1"
  by (simp add: decrypt_weight_def decrypt_start_def sum_list_replicate)

lemma decrypt_halt:
  assumes inv: "decrypt_inv capacity (Suc k) chunks s" and "0 < capacity" and halt: "\<nexists>t. decrypt_step capacity can_write s t"
  shows "dt_receiver s = Joining \<and> mset (dt_received s) = mset chunks \<and> (\<forall>w \<in> set (dt_workers s). w = Ended) \<or>
    dt_receiver s = Returned \<and> (\<forall>w \<in> set (dt_workers s). w = Ended \<or> (\<exists>c. w = Holding c) \<and> length (dt_results s) = capacity)"
proof -
  have worker: "decrypt_worker_step capacity i s = None" and receiver: "decrypt_receiver_step can_write s = None" for i
    using halt decrypt_step.intros [where s = s] by (metis not_None_eq)+
  have blocked: "w = Ended \<or> (\<exists>c. w = Holding c) \<and> length (dt_results s) = capacity" if w: "w \<in> set (dt_workers s)" for w
  proof -
    obtain i where "i < length (dt_workers s)" "dt_workers s ! i = w"
      using w by (auto simp: in_set_conv_nth)
    then show ?thesis
      using worker [of i] inv by (auto simp: decrypt_worker_step_def decrypt_inv_def split: worker_thread.splits list.splits if_splits)
  qed
  show ?thesis
  proof (cases "dt_receiver s")
    case (Expecting n)
    then obtain m where m: "n = Suc m" "dt_results s = []"
      using receiver by (auto simp: decrypt_receiver_step_def split: nat.splits list.splits if_splits)
    then have "\<forall>w \<in> set (dt_workers s). w = Ended"
      using blocked \<open>0 < capacity\<close> by force
    then show ?thesis
      using workers_stay [OF inv] Expecting m by simp
  next
    case Joining
    then have all: "in_decryption s = mset chunks" "length (dt_received s) = length chunks"
      using inv by (simp_all add: decrypt_inv_def)
    then have "size (in_decryption s) = length (dt_received s)"
      by simp
    then have "dt_results s = []" "all_held (dt_workers s) = {#}" "dt_queue s = []"
      by (simp_all add: in_decryption_def)
    then show ?thesis
      using Joining all blocked \<open>0 < capacity\<close> by (force simp: in_decryption_def)
  qed (use blocked in auto)
qed

lemma receiver_never_returns:
  assumes "(decrypt_step capacity can_write)\<^sup>*\<^sup>* s t" and "\<And>before c. can_write before c" and "dt_receiver s \<noteq> Returned"
  shows "dt_receiver t \<noteq> Returned"
  using assms(1)
proof (induction rule: rtranclp_induct)
  case (step t u)
  from step.hyps(2) show ?case
  proof cases
    case (decrypter i)
    then show ?thesis
      using step.IH by (cases rule: decrypt_worker_cases) auto
  next
    case receiver
    then show ?thesis
      using assms(2) by (cases rule: decrypt_receiver_cases) auto
  qed
qed (rule assms(3))

text \<open>C34: The threads that decrypt a download always come to an end when the output can be written: however
  they are scheduled they make at most four steps for a chunk and one to end a thread, and when no thread
  can move any more all workers have ended and the receiver got the result of every chunk exactly once, in
  some order, without ever finding its senders gone.
\<close>

theorem decrypt_threads_deliver:
  assumes "\<forall>before c. can_write before c" and "0 < worker_count"
    and "(decrypt_step (2 * worker_count) can_write ^^ n) (decrypt_start worker_count chunks) s"
  shows "n \<le> 4 * length chunks + worker_count + 1 \<and>
    ((\<nexists>t. decrypt_step (2 * worker_count) can_write s t) \<longrightarrow>
      dt_receiver s = Joining \<and> (\<forall>w \<in> set (dt_workers s). w = Ended) \<and> mset (dt_received s) = mset chunks)"
proof -
  obtain k where k: "worker_count = Suc k"
    using assms(2) gr0_conv_Suc by blast
  note start = decrypt_inv_start [of "2 * Suc k" k chunks]
  note steps = assms(3) [unfolded k]
  have run: "(decrypt_step (2 * Suc k) can_write)\<^sup>*\<^sup>* (decrypt_start (Suc k) chunks) s"
    using steps by (rule relpowp_imp_rtranclp)
  then have never: "dt_receiver s \<noteq> Returned"
    by (rule receiver_never_returns) (use assms(1) in \<open>simp_all add: decrypt_start_def\<close>)
  have inv: "decrypt_inv (2 * Suc k) (Suc k) chunks s"
    by (rule decrypt.reachable_inv [OF run start])
  have "n \<le> 4 * length chunks + Suc k + 1"
    using decrypt.run_length [OF steps start] unfolding decrypt_weight_start by linarith
  moreover have "dt_receiver s = Joining \<and> (\<forall>w \<in> set (dt_workers s). w = Ended) \<and> mset (dt_received s) = mset chunks"
    if "\<nexists>t. decrypt_step (2 * Suc k) can_write s t"
    using decrypt_halt [OF inv _ that] never by simp
  ultimately show ?thesis
    unfolding k by blast
qed

theorem decrypt_threads_deliver_witness:
  "\<exists>n s. (decrypt_step (2 * 2) (\<lambda>_ _. True) ^^ n) (decrypt_start 2 [0 :: nat, 1, 2]) s \<and>
     n \<le> 15 \<and> dt_receiver s = Joining \<and> mset (dt_received s) = {#0, 1, 2#}"
proof -
  let ?step = "decrypt_step (2 * Suc 1) (\<lambda>_ _. True) :: nat decrypt_threads \<Rightarrow> _"
  obtain s where s: "?step\<^sup>*\<^sup>* (decrypt_start (Suc 1) [0, 1, 2]) s" "\<nexists>t. ?step s t"
    using decrypt.run_ends [OF decrypt_inv_start [of "2 * Suc 1" 1 "[0 :: nat, 1, 2]"], of "\<lambda>_ _. True"] by blast
  then obtain n where n: "(?step ^^ n) (decrypt_start (Suc 1) [0, 1, 2]) s"
    using rtranclp_imp_relpowp by metis
  have two: "Suc 1 = 2"
    by simp
  show ?thesis
    using decrypt_threads_deliver [OF _ _ n] s(2) n unfolding two by (intro exI [of _ n] exI [of _ s]) simp
qed

text \<open>When the output can take only the first \<open>limit\<close> results, and there are more chunks than these, one
  more and the capacity of the channel, then every run of the threads leads to a worker that holds a
  result and waits for room in the full channel, which nobody reads any more: the scope does not end.
\<close>

theorem decrypt_workers_block:
  assumes "\<forall>before c. can_write before c \<longrightarrow> length before < limit" and "0 < worker_count"
    and "limit + 1 + 2 * worker_count < length chunks"
    and "(decrypt_step (2 * worker_count) can_write)\<^sup>*\<^sup>* (decrypt_start worker_count chunks) s"
    and "\<nexists>t. decrypt_step (2 * worker_count) can_write s t"
  shows "dt_receiver s = Returned \<and> length (dt_results s) = 2 * worker_count \<and> (\<exists>c. Holding c \<in> set (dt_workers s))"
proof -
  obtain k where k: "worker_count = Suc k"
    using assms(2) gr0_conv_Suc by blast
  have inv: "decrypt_inv (2 * Suc k) (Suc k) chunks s"
    using decrypt.reachable_inv [OF assms(4) [unfolded k] decrypt_inv_start] .
  have few: "length (dt_received s) \<le> limit"
    using assms(4)
  proof (induction rule: rtranclp_induct)
    case (step t u)
    from step.hyps(2) show ?case
    proof cases
      case (decrypter i)
      then show ?thesis
        using step.IH by (cases rule: decrypt_worker_cases) auto
    next
      case receiver
      then show ?thesis
        using step.IH assms(1) by (cases rule: decrypt_receiver_cases) (auto simp: Suc_le_eq)
    qed
  qed (simp add: decrypt_start_def)
  have "mset (dt_received s) \<noteq> mset chunks"
    using few assms(3) by (auto dest: mset_eq_length)
  then have returned: "dt_receiver s = Returned"
    and blocked: "\<forall>w \<in> set (dt_workers s). w = Ended \<or> (\<exists>c. w = Holding c) \<and> length (dt_results s) = 2 * Suc k"
    using decrypt_halt [OF inv _ assms(5) [unfolded k]] by auto
  have "\<not> (\<forall>w \<in> set (dt_workers s). w = Ended)"
  proof
    assume all: "\<forall>w \<in> set (dt_workers s). w = Ended"
    moreover have "dt_workers s \<noteq> []"
      using inv by (auto simp: decrypt_inv_def)
    ultimately have "Ended \<in> set (dt_workers s)"
      by (cases "dt_workers s") auto
    then have "length chunks \<le> length (dt_received s) + 1 + 2 * Suc k"
      using inv returned all_held_ended [OF all] by (auto simp: decrypt_inv_def in_decryption_def)
    then show False
      using few assms(3) k by simp
  qed
  then show ?thesis
    using returned blocked k by auto
qed

theorem decrypt_workers_block_witness:
  "\<exists>s. (decrypt_step (2 * 2) (\<lambda>_ _. False))\<^sup>*\<^sup>* (decrypt_start 2 [0 :: nat, 1, 2, 3, 4, 5]) s \<and>
     dt_receiver s = Returned \<and> length (dt_results s) = 4 \<and> (\<exists>c. Holding c \<in> set (dt_workers s))"
proof -
  let ?step = "decrypt_step (2 * Suc 1) (\<lambda>_ _. False) :: nat decrypt_threads \<Rightarrow> _"
  let ?chunks = "[0 :: nat, 1, 2, 3, 4, 5]"
  obtain s where s: "?step\<^sup>*\<^sup>* (decrypt_start (Suc 1) ?chunks) s" "\<nexists>t. ?step s t"
    using decrypt.run_ends [OF decrypt_inv_start [of "2 * Suc 1" 1 ?chunks], of "\<lambda>_ _. False"] by blast
  have two: "Suc 1 = 2"
    by simp
  show ?thesis
    using decrypt_workers_block [of "\<lambda>_ _. False" 0 2 ?chunks s] s unfolding two by (intro exI [of _ s]) simp
qed

end
