(* ===== verification/Etle_Gui_Model.thy ===== *)
theory Etle_Gui_Model
  imports Etle_Ipc Complex_Main
begin

text \<open>
  The data of the graphical client: \<open>src/gui/model.rs\<close>, \<open>format.rs\<close> and \<open>progress.rs\<close>. What its window shows
  and asks for is the record \<open>etle_gui\<close>, what happens to it the datatype \<open>app_input\<close>.

  A path is the text the user typed or chose; \<open>to_path\<close> turns it into a path of the file system. An \<open>f64\<close> is only
  computed to be shown: it is an exact fraction here, and its text with a number of decimals is a
  parameter, as are the texts of addresses and paths.
\<close>

section \<open>Text\<close>

text \<open>Splitting at separators of several bytes, of which the first that matches is taken.\<close>

function split_at_any :: "string list \<Rightarrow> string \<Rightarrow> string list" where
  "split_at_any seps s = (case find (\<lambda>p. p \<noteq> [] \<and> prefix p s) seps of
      Some p \<Rightarrow> [] # split_at_any seps (drop (length p) s)
    | None \<Rightarrow> (case s of
        [] \<Rightarrow> [[]]
      | c # rest \<Rightarrow> (case split_at_any seps rest of piece # pieces \<Rightarrow> (c # piece) # pieces | [] \<Rightarrow> [[c]])))"
  by pat_completeness auto
termination
  by (relation "measure (\<lambda>(seps, s). length s)") (auto simp: find_Some_iff prefix_def)

declare split_at_any.simps [simp del]

primrec join_strings :: "string \<Rightarrow> string list \<Rightarrow> string" where
  "join_strings sep [] = []"
| "join_strings sep (s # ss) = s @ concat (map (\<lambda>t. sep @ t) ss)"

definition contains_text :: "string \<Rightarrow> string \<Rightarrow> bool" where
  "contains_text s pat \<longleftrightarrow> sublist pat s"

text \<open>\<open>str::find\<close>: what follows the first occurrence.\<close>

fun after_first :: "string \<Rightarrow> string \<Rightarrow> string option" where
  "after_first pat [] = (if pat = [] then Some [] else None)"
| "after_first pat (c # s) = (if prefix pat (c # s) then Some (drop (length pat) (c # s)) else after_first pat s)"

text \<open>The number of characters of a text, and padding on the right to a number of characters.\<close>

definition char_count :: "string \<Rightarrow> nat" where
  "char_count s = length (filter (\<lambda>c. \<not> (128 \<le> (of_char c :: nat) \<and> (of_char c :: nat) < 192)) s)"

definition pad_right :: "nat \<Rightarrow> string \<Rightarrow> string" where
  "pad_right k s = s @ replicate (k - char_count s) CHR '' ''"

definition middle_dot :: string where
  "middle_dot = [CHR '' '', CHR 0xC2, CHR 0xB7, CHR '' '']"

section \<open>Formatting\<close>

record gui_env =
  ge_to_path :: "string \<Rightarrow> path"
  ge_show_path :: "path \<Rightarrow> string"
  ge_show_addr :: "socket_addr \<Rightarrow> string"
  ge_fixed :: "nat \<Rightarrow> rat \<Rightarrow> string"

definition non_empty :: "string \<Rightarrow> string option" where
  "non_empty value = (let trimmed = trim value in if trimmed = [] then None else Some trimmed)"

definition clamp01 :: "rat \<Rightarrow> rat" where
  "clamp01 q = (if q < 0 then 0 else if 1 < q then 1 else q)"

definition fraction :: "u64 \<Rightarrow> u64 \<Rightarrow> rat" where
  "fraction completed whole = (if whole = 0 then 0 else clamp01 (of_nat (unat completed) / of_nat (unat whole)))"

definition UNITS :: "string list" where
  "UNITS = [''B'', ''KiB'', ''MiB'', ''GiB'', ''TiB'']"

fun scale_units :: "string list \<Rightarrow> rat \<Rightarrow> rat \<times> string" where
  "scale_units (u # v # us) value = (if 1024 \<le> value then scale_units (v # us) (value / 1024) else (value, u))"
| "scale_units us value = (value, case us of u # _ \<Rightarrow> u | [] \<Rightarrow> [])"

definition human_bytes :: "gui_env \<Rightarrow> u64 \<Rightarrow> string" where
  "human_bytes E b = (case scale_units UNITS (of_nat (unat b)) of (value, u) \<Rightarrow>
     if u = ''B'' then show_nat (unat b) @ '' '' @ u else ge_fixed E 2 value @ '' '' @ u)"

definition file_label :: "string \<Rightarrow> string" where
  "file_label p = (case path_file_name p of
      Some name \<Rightarrow> if name = [] then p else name
    | None \<Rightarrow> p)"

definition trim_path_label :: "string \<Rightarrow> string" where
  "trim_path_label value = file_label value"

definition compact_log_line :: "string \<Rightarrow> string" where
  "compact_log_line value = join_strings '' '' (filter (\<lambda>w. w \<noteq> []) (split_at_any white_space value))"

definition short_time :: "nat \<Rightarrow> string" where
  "short_time unix_secs =
     (let secs = unix_secs mod 86400;
          two = (\<lambda>n. pad_left 2 (digit_char 0) (show_nat n)) in
      two (secs div 3600) @ '':'' @ two (secs mod 3600 div 60) @ '':'' @ two (secs mod 60))"

section \<open>Progress in the text of an event\<close>

record task_progress_snapshot =
  tp_job_id :: "string option"
  tp_task :: string
  tp_label :: string
  tp_completed_chunks :: nat
  tp_total_chunks :: nat
  tp_bytes_done :: u64
  tp_total_bytes :: u64
  tp_bytes_per_second :: u64

definition extract_debug_string :: "string \<Rightarrow> string \<Rightarrow> string option" where
  "extract_debug_string value field =
     Option.bind (after_first (field @ '': '') value) (\<lambda>rest.
     Option.bind (after_first [CHR 0x22] rest) (\<lambda>after_quote.
     if CHR 0x22 \<in> set after_quote then Some (takeWhile (\<lambda>c. c \<noteq> CHR 0x22) after_quote) else None))"

definition extract_debug_option_string :: "string \<Rightarrow> string \<Rightarrow> string option" where
  "extract_debug_option_string value field =
     Option.bind (after_first (field @ '': '') value) (\<lambda>rest.
     if prefix ''None'' rest then None else extract_debug_string value field)"

definition extract_debug_u64 :: "string \<Rightarrow> string \<Rightarrow> u64 option" where
  "extract_debug_u64 value field =
     Option.bind (after_first (field @ '': '') value) (\<lambda>rest.
     let digits = takeWhile is_ascii_digit rest in
     if digits = [] then None else parse_u64 digits)"

definition extract_debug_usize :: "string \<Rightarrow> string \<Rightarrow> nat option" where
  "extract_debug_usize value field = map_option unat (extract_debug_u64 value field)"

definition or_else :: "'a option \<Rightarrow> 'a option \<Rightarrow> 'a option" where
  "or_else a b = (case a of Some _ \<Rightarrow> a | None \<Rightarrow> b)"

definition parse_task_progress_debug :: "string \<Rightarrow> task_progress_snapshot option" where
  "parse_task_progress_debug value =
     (if \<not> contains_text value ''TaskProgress'' then None
      else
        let task = or_default ''task'' (or_else (extract_debug_string value ''task'') (extract_debug_string value ''stage'')) in
        Some \<lparr>
          tp_job_id = or_else (extract_debug_option_string value ''job_id'') (extract_debug_option_string value ''job''),
          tp_task = task,
          tp_label = or_default task (or_else (extract_debug_string value ''label'') (extract_debug_string value ''path'')),
          tp_completed_chunks = or_default 0 (or_else (extract_debug_usize value ''completed_chunks'')
            (or_else (extract_debug_usize value ''chunks_done'') (extract_debug_usize value ''done_chunks''))),
          tp_total_chunks = or_default 0 (or_else (extract_debug_usize value ''total_chunks'') (extract_debug_usize value ''chunks_total'')),
          tp_bytes_done = or_default 0 (or_else (extract_debug_u64 value ''bytes_done'') (extract_debug_u64 value ''done_bytes'')),
          tp_total_bytes = or_default 0 (or_else (extract_debug_u64 value ''total_bytes'') (extract_debug_u64 value ''bytes_total'')),
          tp_bytes_per_second = or_default 0 (or_else (extract_debug_u64 value ''bytes_per_second'') (extract_debug_u64 value ''speed''))\<rparr>)"

section \<open>Transfers\<close>

datatype transfer_kind = SeedTransfer | DownloadTransfer

fun kind_label :: "transfer_kind \<Rightarrow> string" where
  "kind_label SeedTransfer = ''seed''"
| "kind_label DownloadTransfer = ''download''"

datatype transfer_status = Queued | Running | Done | Failed

fun status_icon :: "transfer_status \<Rightarrow> string" where
  "status_icon Queued = [CHR 0xE2, CHR 0x80, CHR 0xA6]"
| "status_icon Running = [CHR 0xE2, CHR 0x86, CHR 0xBB]"
| "status_icon Done = [CHR 0xE2, CHR 0x9C, CHR 0x93]"
| "status_icon Failed = [CHR 0xE2, CHR 0x9C, CHR 0x95]"

fun status_label :: "transfer_status \<Rightarrow> string" where
  "status_label Queued = ''queued''"
| "status_label Running = ''running''"
| "status_label Done = ''done''"
| "status_label Failed = ''failed''"

fun is_finished :: "transfer_status \<Rightarrow> bool" where
  "is_finished Done = True"
| "is_finished Failed = True"
| "is_finished _ = False"

record gui_transfer =
  gt_id :: string
  gt_kind :: transfer_kind
  gt_label :: string
  gt_share_id :: "share_id option"
  gt_status :: transfer_status
  gt_completed_chunks :: nat
  gt_total_chunks :: nat
  gt_bytes_done :: u64
  gt_total_bytes :: u64
  gt_bytes_per_second :: u64
  gt_detail :: string
  gt_updated_seq :: u64

definition transfer_fraction :: "gui_transfer \<Rightarrow> rat" where
  "transfer_fraction t =
     (if 0 < gt_total_bytes t then fraction (gt_bytes_done t) (gt_total_bytes t)
      else if 0 < gt_total_chunks t then fraction (of_nat (gt_completed_chunks t)) (of_nat (gt_total_chunks t))
      else if gt_status t = Done then 1
      else 0)"

definition compact_line :: "gui_env \<Rightarrow> gui_transfer \<Rightarrow> string" where
  "compact_line E t =
     (let percent = transfer_fraction t * 100;
          chunks = (if gt_total_chunks t = 0 then ''chunks --/--''
            else ''chunks '' @ show_nat (gt_completed_chunks t) @ ''/'' @ show_nat (gt_total_chunks t));
          sizes = (if gt_total_bytes t = 0 then ''bytes --/--''
            else ''bytes '' @ human_bytes E (gt_bytes_done t) @ ''/'' @ human_bytes E (gt_total_bytes t));
          speed = (if gt_bytes_per_second t = 0 then ''--/s'' else human_bytes E (gt_bytes_per_second t) @ ''/s'');
          phase = (if trim (gt_detail t) = [] then kind_label (gt_kind t) else gt_detail t) in
      status_icon (gt_status t) @ '' '' @ pad_right 7 (status_label (gt_status t)) @ '' '' @ pad_right 24 phase @ '' '' @
      pad_left 6 CHR '' '' (ge_fixed E 1 percent) @ ''%'' @ middle_dot @ chunks @ middle_dot @ sizes @ middle_dot @ speed)"

definition hide_key :: "gui_transfer \<Rightarrow> string" where
  "hide_key t = (case gt_share_id t of
      Some sid \<Rightarrow> kind_label (gt_kind t) @ '':'' @ status_label (gt_status t) @ '':'' @ share_id_to_string sid
    | None \<Rightarrow> kind_label (gt_kind t) @ '':'' @ status_label (gt_status t) @ '':'' @ gt_id t)"

section \<open>The state of the window\<close>

datatype ipc_request_kind = PingRequest | ListSharesRequest | SeedRequest | DownloadRequest | DeleteShareRequest

fun request_label :: "ipc_request_kind \<Rightarrow> string" where
  "request_label PingRequest = ''ping''"
| "request_label ListSharesRequest = ''refresh''"
| "request_label SeedRequest = ''seed''"
| "request_label DownloadRequest = ''download''"
| "request_label DeleteShareRequest = ''delete''"

definition DEFAULT_REFRESH_INTERVAL_SECS :: u64 where "DEFAULT_REFRESH_INTERVAL_SECS = 2"
definition DEFAULT_ACTIVITY_LIMIT :: nat where "DEFAULT_ACTIVITY_LIMIT = 160"

record gui_init =
  gi_socket_path :: string
  gi_auth_psk :: string
  gi_download_parallelism :: nat
  gi_request_window :: nat
  gi_discovery_port :: u16
  gi_discovery_timeout_ms :: u64
  gi_discovery_multicast :: ipv4_addr
  gi_startup_warning :: "string option"

definition gui_init_default ::
    "(config_error \<Rightarrow> string) \<Rightarrow> bool \<Rightarrow> environment \<Rightarrow> (string \<Rightarrow> path) \<Rightarrow> world \<Rightarrow> gui_init \<times> world" where
  "gui_init_default show_config_error windows env to_path w =
     (case load env to_path w of (loaded, w') \<Rightarrow>
      let startup_warning = (case loaded of
            Inr _ \<Rightarrow> None
          | Inl error \<Rightarrow> Some (''config: failed to load config.toml; using built-in defaults ('' @ show_config_error error @ '')''));
          c = (case loaded of Inr c \<Rightarrow> c | Inl _ \<Rightarrow> config_default);
          root = or_default (default_library_root windows env) (config_library_root env c) in
      (\<lparr>gi_socket_path = or_default (default_ipc_socket_path windows root) (config_ipc_socket env c),
        gi_auth_psk = or_default [] (or_else (env ''ETLE_AUTH_PSK'') (config_auth_psk c)),
        gi_download_parallelism = config_parallel c,
        gi_request_window = config_request_window c,
        gi_discovery_port = config_discovery_port c,
        gi_discovery_timeout_ms = config_discovery_timeout_ms c,
        gi_discovery_multicast = config_discovery_multicast c,
        gi_startup_warning = startup_warning\<rparr>, w'))"

record etle_gui =
  g_active_socket_path :: string
  g_socket_draft :: string
  g_connected :: bool
  g_watching :: bool
  g_watch_generation :: u64
  g_auto_refresh :: bool
  g_clear_activity_on_task :: bool
  g_refresh_interval_secs :: u64
  g_activity_limit :: nat
  g_selected_share :: "nat option"
  g_pending_delete_share :: "share_id option"
  g_shares :: "ipc_share_summary list"
  g_transfers :: "gui_transfer list"
  g_hidden_finished_transfers :: "string set"
  g_activity :: "string list"
  g_last_activity_message :: "string option"
  g_status :: string
  g_latest_progress :: string
  g_progress_fraction :: rat
  g_next_transfer_seq :: u64
  g_last_auto_refresh :: nat
  g_refresh_inflight :: bool
  g_seed_path :: string
  g_seed_files :: "string list"
  g_selected_seed_file :: "nat option"
  g_seed_chunk_size :: nat
  g_download_share_id :: string
  g_download_peers :: string
  g_output_path :: string
  g_download_parallelism :: nat
  g_download_request_window :: nat
  g_discovery_port :: u16
  g_discovery_timeout_ms :: u64
  g_discovery_multicast :: ipv4_addr
  g_resume :: bool
  g_auth_psk :: string

datatype app_input = ApplySocketText string | Connect | Refresh | AutoRefreshTick | StartWatch
  | GotResponse string ipc_request_kind "string + ipc_response"
  | GotEvent u64 ipc_event
  | WatchStopped u64 string
  | SelectShare nat | CopySelectedShareId | DeleteSelectedShare | ConfirmDeleteSelectedShare | CancelDeleteShare
  | ClearLog | ClearFinishedTransfers
  | AddSeedPathText string | AddSeedFile string | BrowseSeedFiles | SelectSeedFile nat | RemoveSelectedSeedFile | ClearSeedFiles
  | SetSeedChunkSize nat | StartSeedSelected
  | SetParallelism nat | SetRequestWindow nat | SetDiscoveryPort u16 | SetDiscoveryTimeout u64 | SetResume bool
  | StartDownloadFromForm string string string string string
  | ApplySettings string string
  | SetAutoRefresh bool | SetClearActivityOnTask bool | SetRefreshInterval u64 | SetActivityLimit nat

definition parse_peer :: "string \<Rightarrow> (string, socket_addr) result" where
  "parse_peer peer = ok_or (''invalid peer `'' @ peer @ ''`: invalid socket address syntax'') (parse_socket_addr peer)"

fun collect_results :: "('e, 'a) result list \<Rightarrow> ('e, 'a list) result" where
  "collect_results [] = Inr []"
| "collect_results (r # rs) = and_then r (\<lambda>x. and_then (collect_results rs) (\<lambda>xs. Inr (x # xs)))"

definition parse_peers :: "string \<Rightarrow> (string, socket_addr list) result" where
  "parse_peers input =
     collect_results (map parse_peer (List.map_filter non_empty (split_at_any ('','' # white_space) input)))"

definition build_download_command_from ::
    "gui_env \<Rightarrow> string \<Rightarrow> string \<Rightarrow> string \<Rightarrow> string \<Rightarrow> string \<Rightarrow> etle_gui \<Rightarrow> (string, ipc_command \<times> share_id) result" where
  "build_download_command_from E share_id_text peers_text output_text auth_psk_text discovery_multicast_text s =
     and_then (map_err (\<lambda>_. ''invalid share id'') (share_id_from_str (trim share_id_text))) (\<lambda>sid.
     and_then (parse_peers peers_text) (\<lambda>peers.
     let output_path = map_option (ge_to_path E) (non_empty (trim output_text));
         auth_psk = or_else (non_empty (trim auth_psk_text)) (non_empty (g_auth_psk s)) in
     and_then (ok_or ''invalid multicast address: invalid IPv4 address syntax'' (parse_ipv4_addr (trim discovery_multicast_text))) (\<lambda>multicast.
     let d = \<lparr>id_share_id = sid, id_peers = peers, id_output = output_path, id_parallelism = g_download_parallelism s,
           id_request_window = max (g_download_request_window s) 1, id_discovery_port = g_discovery_port s,
           id_discovery_timeout_ms = max (g_discovery_timeout_ms s) 1, id_discovery_multicast = multicast, id_auth_psk = auth_psk\<rparr> in
     Inr (if g_resume s then Download d else DownloadFresh d, sid))))"

end
