(* ===== verification/Etle_Gui.thy ===== *)
theory Etle_Gui
  imports Etle_Gui_Model Etle_Chunker
begin

text \<open>
  The behaviour of the graphical client: \<open>src/gui/app.rs\<close>, with the threads of \<open>src/gui/ipc.rs\<close>. Every event of
  the window, every answer of the daemon and every event of a subscription is an input; \<open>gui_update\<close> takes the
  state and an input to the next state and to what is set in motion: commands to the daemon, a
  subscription, further inputs, a text for the clipboard. The construction of widgets is not modelled.

  What an input meets outside the state is the record \<open>moment\<close>: the clock, which is read once for an input, whether there
  is a display, and the files chosen in a dialog.
\<close>

section \<open>Effects and surroundings\<close>

datatype gui_effect = SendCommand string ipc_request_kind ipc_command | Subscribe string u64 | Feed app_input | SetClipboard string

record moment =
  mo_unix_secs :: nat
  mo_instant_ms :: nat
  mo_display :: bool
  mo_picked :: "string list option"

definition saturating_incr :: "u64 \<Rightarrow> u64" where
  "saturating_incr x = (if x = - 1 then x else x + 1)"

text \<open>\<open>iter_mut().find\<close> with an assignment: the first element that satisfies the predicate is changed.\<close>

fun update_first :: "('a \<Rightarrow> bool) \<Rightarrow> ('a \<Rightarrow> 'a) \<Rightarrow> 'a list \<Rightarrow> 'a list" where
  "update_first p f [] = []"
| "update_first p f (x # xs) = (if p x then f x # xs else x # update_first p f xs)"

fun position :: "('a \<Rightarrow> bool) \<Rightarrow> 'a list \<Rightarrow> nat option" where
  "position p [] = None"
| "position p (x # xs) = (if p x then Some 0 else map_option Suc (position p xs))"

section \<open>The log\<close>

definition trim_activity :: "etle_gui \<Rightarrow> etle_gui" where
  "trim_activity s = s\<lparr>g_activity := drop (length (g_activity s) - g_activity_limit s) (g_activity s)\<rparr>"

definition push_log :: "moment \<Rightarrow> string \<Rightarrow> etle_gui \<Rightarrow> etle_gui" where
  "push_log T message s =
     (let compact = compact_log_line message in
      if g_last_activity_message s = Some compact then s
      else trim_activity (s\<lparr>g_last_activity_message := Some compact,
        g_activity := g_activity s @ [short_time (mo_unix_secs T) @ ''  '' @ compact]\<rparr>))"

definition prepare_new_task_log :: "etle_gui \<Rightarrow> etle_gui" where
  "prepare_new_task_log s =
     (if g_clear_activity_on_task s then s\<lparr>g_activity := [], g_last_activity_message := None\<rparr> else s)"

definition gui_new :: "moment \<Rightarrow> gui_init \<Rightarrow> etle_gui" where
  "gui_new T i =
     (let model = \<lparr>g_active_socket_path = gi_socket_path i, g_socket_draft = gi_socket_path i, g_connected = False, g_watching = False,
        g_watch_generation = 0, g_auto_refresh = True, g_clear_activity_on_task = True,
        g_refresh_interval_secs = DEFAULT_REFRESH_INTERVAL_SECS, g_activity_limit = DEFAULT_ACTIVITY_LIMIT,
        g_selected_share = None, g_pending_delete_share = None, g_shares = [], g_transfers = [],
        g_hidden_finished_transfers = {}, g_activity = [], g_last_activity_message = None, g_status = ''offline'',
        g_latest_progress = ''idle'', g_progress_fraction = 0, g_next_transfer_seq = 1, g_last_auto_refresh = mo_instant_ms T,
        g_refresh_inflight = False, g_seed_path = [], g_seed_files = [], g_selected_seed_file = None,
        g_seed_chunk_size = DEFAULT_CHUNK_SIZE, g_download_share_id = [], g_download_peers = [], g_output_path = [],
        g_download_parallelism = gi_download_parallelism i, g_download_request_window = gi_request_window i,
        g_discovery_port = gi_discovery_port i, g_discovery_timeout_ms = gi_discovery_timeout_ms i,
        g_discovery_multicast = gi_discovery_multicast i, g_resume = True, g_auth_psk = gi_auth_psk i\<rparr> in
      case gi_startup_warning i of Some warning \<Rightarrow> push_log T warning model | None \<Rightarrow> model)"

definition refresh_due :: "moment \<Rightarrow> etle_gui \<Rightarrow> bool" where
  "refresh_due T s \<longleftrightarrow> g_auto_refresh s \<and> \<not> g_refresh_inflight s \<and>
     1000 * unat (max (g_refresh_interval_secs s) 1) \<le> mo_instant_ms T - g_last_auto_refresh s"

section \<open>The list of transfers\<close>

definition bump_seq :: "etle_gui \<Rightarrow> u64 \<times> etle_gui" where
  "bump_seq s = (g_next_transfer_seq s, s\<lparr>g_next_transfer_seq := saturating_incr (g_next_transfer_seq s)\<rparr>)"

fun status_rank :: "transfer_status \<Rightarrow> nat" where
  "status_rank Running = 0"
| "status_rank Queued = 1"
| "status_rank Failed = 2"
| "status_rank Done = 3"

text \<open>The key \<open>(status_rank, Reverse(updated_seq))\<close> as one number.\<close>

definition transfer_key :: "gui_transfer \<Rightarrow> nat" where
  "transfer_key t = status_rank (gt_status t) * 2 ^ 64 + (2 ^ 64 - 1 - unat (gt_updated_seq t))"

definition sort_transfers :: "etle_gui \<Rightarrow> etle_gui" where
  "sort_transfers s = s\<lparr>g_transfers := sort_key transfer_key (g_transfers s)\<rparr>"

definition transfer_hidden_keys :: "gui_transfer \<Rightarrow> string list" where
  "transfer_hidden_keys t =
     [gt_id t, kind_label (gt_kind t) @ '':label:'' @ gt_label t, hide_key t] @
     (case gt_share_id t of Some sid \<Rightarrow> [kind_label (gt_kind t) @ '':share:'' @ share_id_to_string sid] | None \<Rightarrow> [])"

definition is_transfer_hidden :: "gui_transfer \<Rightarrow> etle_gui \<Rightarrow> bool" where
  "is_transfer_hidden t s \<longleftrightarrow>
     is_finished (gt_status t) \<and> list_ex (\<lambda>key. key \<in> g_hidden_finished_transfers s) (transfer_hidden_keys t)"

definition same_transfer :: "gui_transfer \<Rightarrow> gui_transfer \<Rightarrow> bool" where
  "same_transfer t candidate \<longleftrightarrow>
     gt_id candidate = gt_id t \<or>
     (gt_share_id t \<noteq> None \<and> gt_share_id candidate = gt_share_id t \<and> gt_kind candidate = gt_kind t) \<or>
     (gt_share_id t = None \<and> gt_share_id candidate = None \<and> gt_kind candidate = gt_kind t \<and> gt_label candidate = gt_label t)"

definition upsert_transfer :: "gui_transfer \<Rightarrow> etle_gui \<Rightarrow> etle_gui" where
  "upsert_transfer t s =
     (if is_transfer_hidden t s then s
      else sort_transfers (s\<lparr>g_transfers :=
        (if list_ex (same_transfer t) (g_transfers s) then update_first (same_transfer t) (\<lambda>_. t) (g_transfers s)
         else g_transfers s @ [t])\<rparr>))"

definition update_latest_from_transfer :: "gui_env \<Rightarrow> gui_transfer \<Rightarrow> etle_gui \<Rightarrow> etle_gui" where
  "update_latest_from_transfer E t s =
     s\<lparr>g_progress_fraction := transfer_fraction t, g_latest_progress := gt_label t @ middle_dot @ compact_line E t\<rparr>"

definition show_idle_if_empty :: "etle_gui \<Rightarrow> etle_gui" where
  "show_idle_if_empty s = (if g_transfers s = [] then s\<lparr>g_latest_progress := ''idle'', g_progress_fraction := 0\<rparr> else s)"

definition clear_finished_transfers :: "etle_gui \<Rightarrow> etle_gui" where
  "clear_finished_transfers s =
     (let hidden = concat (map transfer_hidden_keys (filter (\<lambda>t. is_finished (gt_status t)) (g_transfers s))) in
      show_idle_if_empty (s\<lparr>g_hidden_finished_transfers := g_hidden_finished_transfers s \<union> set hidden,
        g_transfers := filter (\<lambda>t. \<not> is_finished (gt_status t)) (g_transfers s)\<rparr>))"

definition transfer_of_share :: "share_id \<Rightarrow> transfer_kind \<Rightarrow> gui_transfer \<Rightarrow> bool" where
  "transfer_of_share sid kind t \<longleftrightarrow> gt_share_id t = Some sid \<and> gt_kind t = kind"

definition find_transfer_by_share :: "share_id \<Rightarrow> transfer_kind \<Rightarrow> etle_gui \<Rightarrow> gui_transfer option" where
  "find_transfer_by_share sid kind s = find (transfer_of_share sid kind) (g_transfers s)"

text \<open>Changing the transfer that was found, as the caller does through the mutable reference.\<close>

definition set_transfer_by_share :: "share_id \<Rightarrow> transfer_kind \<Rightarrow> (gui_transfer \<Rightarrow> gui_transfer) \<Rightarrow> etle_gui \<Rightarrow> etle_gui" where
  "set_transfer_by_share sid kind f s = s\<lparr>g_transfers := update_first (transfer_of_share sid kind) f (g_transfers s)\<rparr>"

definition new_transfer :: "string \<Rightarrow> transfer_kind \<Rightarrow> string \<Rightarrow> share_id option \<Rightarrow> transfer_status \<Rightarrow> string \<Rightarrow> u64 \<Rightarrow> gui_transfer" where
  "new_transfer tid kind label sid status detail seq =
     \<lparr>gt_id = tid, gt_kind = kind, gt_label = label, gt_share_id = sid, gt_status = status, gt_completed_chunks = 0,
      gt_total_chunks = 0, gt_bytes_done = 0, gt_total_bytes = 0, gt_bytes_per_second = 0, gt_detail = detail, gt_updated_seq = seq\<rparr>"

definition active_transfer :: "gui_transfer \<Rightarrow> bool" where
  "active_transfer t \<longleftrightarrow> gt_status t = Queued \<or> gt_status t = Running"

text \<open>\<open>max_by_key\<close> takes the last of the maximal elements.\<close>

definition mark_recent_running_failed :: "string \<Rightarrow> etle_gui \<Rightarrow> etle_gui" where
  "mark_recent_running_failed reason s =
     (let newest = foldr (\<lambda>t m. max (gt_updated_seq t) m) (filter active_transfer (g_transfers s)) 0;
          chosen = (\<lambda>t. active_transfer t \<and> gt_updated_seq t = newest) in
      sort_transfers (s\<lparr>g_transfers := rev (update_first chosen
        (\<lambda>t. t\<lparr>gt_status := Failed, gt_detail := compact_log_line reason\<rparr>) (rev (g_transfers s)))\<rparr>))"

section \<open>Shares\<close>

definition selected_share_summary :: "etle_gui \<Rightarrow> ipc_share_summary option" where
  "selected_share_summary s = (case g_selected_share s of
      Some index \<Rightarrow> if index < length (g_shares s) then Some (g_shares s ! index) else None
    | None \<Rightarrow> None)"

definition pending_delete_share_summary :: "etle_gui \<Rightarrow> ipc_share_summary option" where
  "pending_delete_share_summary s = (case g_pending_delete_share s of
      Some pending \<Rightarrow> find (\<lambda>share. is_share_id share = pending) (g_shares s)
    | None \<Rightarrow> None)"

definition share_is_complete :: "ipc_share_summary \<Rightarrow> bool" where
  "share_is_complete share =
     (if is_total_chunks share = 0 then is_mode share = Some ''seeding'' \<or> is_mode share = Some ''completed''
      else is_total_chunks share \<le> is_completed_chunks share)"

definition remove_share :: "share_id \<Rightarrow> etle_gui \<Rightarrow> etle_gui" where
  "remove_share sid s =
     (let s = (if g_pending_delete_share s = Some sid then s\<lparr>g_pending_delete_share := None\<rparr> else s);
          selected_share_id = map_option is_share_id (selected_share_summary s);
          shares = filter (\<lambda>share. is_share_id share \<noteq> sid) (g_shares s);
          selected = (case selected_share_id of
              Some selected \<Rightarrow> if selected \<noteq> sid then position (\<lambda>share. is_share_id share = selected) shares else None
            | None \<Rightarrow> None) in
      show_idle_if_empty (s\<lparr>g_shares := shares, g_selected_share := selected,
        g_transfers := filter (\<lambda>t. gt_share_id t \<noteq> Some sid) (g_transfers s)\<rparr>))"

definition upsert_share :: "ipc_share_summary \<Rightarrow> etle_gui \<Rightarrow> etle_gui" where
  "upsert_share share s =
     (let same = (\<lambda>candidate. is_share_id candidate = is_share_id share) in
      s\<lparr>g_shares := (if list_ex same (g_shares s) then update_first same (\<lambda>_. share) (g_shares s) else g_shares s @ [share])\<rparr>)"

definition is_specific_progress_detail :: "string \<Rightarrow> bool" where
  "is_specific_progress_detail detail \<longleftrightarrow>
     contains_text detail ''receiving'' \<or> contains_text detail ''decrypting'' \<or> contains_text detail ''encrypting'' \<or>
     contains_text detail ''uploading'' \<or> contains_text detail ''writing'' \<or> contains_text detail ''saved''"

definition replace_colons :: "string \<Rightarrow> string" where
  "replace_colons s = concat (map (\<lambda>c. if c = CHR '':'' then middle_dot else [c]) s)"

definition friendly_task_detail :: "string \<Rightarrow> string" where
  "friendly_task_detail task =
     (if contains_text task ''completed'' then ''completed''
      else if contains_text task ''decrypted+written'' then ''decrypting + writing''
      else if contains_text task ''received+verified'' then ''receiving + verifying''
      else if contains_text task ''served-from-library'' then ''uploading chunks''
      else if contains_text task ''staged+encrypted'' then ''encrypting + staging''
      else if contains_text task ''seed'' then ''seeding''
      else replace_colons task)"

definition synced_transfer :: "ipc_share_summary \<Rightarrow> u64 \<Rightarrow> gui_transfer \<Rightarrow> gui_transfer" where
  "synced_transfer share seq t =
     (let mode = or_default ''unknown'' (is_mode share);
          t = t\<lparr>gt_label := is_name share, gt_completed_chunks := is_completed_chunks share, gt_total_chunks := is_total_chunks share\<rparr>;
          t = (if share_is_complete share \<and> (mode = ''completed'' \<or> mode = ''seeding'') then
                 t\<lparr>gt_status := Done, gt_detail :=
                   (if gt_kind t = SeedTransfer then ''encrypted and stored''
                    else if \<not> contains_text (gt_detail t) ''saved'' then ''completed in library'' else gt_detail t)\<rparr>
               else if mode = ''downloading'' \<and> \<not> is_finished (gt_status t) then
                 t\<lparr>gt_status := Running, gt_detail :=
                   (if \<not> is_specific_progress_detail (gt_detail t) then ''waiting for live progress'' else gt_detail t)\<rparr>
               else t) in
      t\<lparr>gt_updated_seq := seq\<rparr>)"

definition sync_existing_transfer_from_share :: "gui_env \<Rightarrow> ipc_share_summary \<Rightarrow> etle_gui \<Rightarrow> etle_gui" where
  "sync_existing_transfer_from_share E share s0 =
     (let mode = or_default ''unknown'' (is_mode share);
          complete = share_is_complete share in
      case bump_seq s0 of (seq, s) \<Rightarrow>
      let bound = (\<lambda>t. gt_share_id t = Some (is_share_id share)) in
      case find bound (g_transfers s) of
        Some t \<Rightarrow>
          let t' = synced_transfer share seq t;
              s = s\<lparr>g_transfers := update_first bound (\<lambda>_. t') (g_transfers s)\<rparr>;
              s = (if is_finished (gt_status t') then update_latest_from_transfer E t' s else s) in
          sort_transfers s
      | None \<Rightarrow>
          if mode = ''downloading'' \<and> \<not> complete then
            upsert_transfer ((new_transfer (''library:'' @ share_id_to_string (is_share_id share) @ '':'' @ mode) DownloadTransfer
              (is_name share) (Some (is_share_id share)) Running ''waiting for live progress'' seq)
              \<lparr>gt_completed_chunks := is_completed_chunks share, gt_total_chunks := is_total_chunks share\<rparr>) s
          else s)"

definition sync_existing_transfers_from_shares :: "gui_env \<Rightarrow> etle_gui \<Rightarrow> etle_gui" where
  "sync_existing_transfers_from_shares E s = fold (sync_existing_transfer_from_share E) (g_shares s) s"

definition unbound_running_seed :: "gui_transfer \<Rightarrow> bool" where
  "unbound_running_seed t \<longleftrightarrow> gt_kind t = SeedTransfer \<and> gt_share_id t = None \<and> \<not> is_finished (gt_status t)"

definition mark_seed_completed_from_share :: "gui_env \<Rightarrow> ipc_share_summary \<Rightarrow> etle_gui \<Rightarrow> etle_gui" where
  "mark_seed_completed_from_share E share s0 =
     (if \<not> share_is_complete share then s0
      else
        let unbound_running_seed_count = length (filter unbound_running_seed (g_transfers s0)) in
        case bump_seq s0 of (seq, s) \<Rightarrow>
        let completes = (\<lambda>t. gt_kind t = SeedTransfer \<and> \<not> is_finished (gt_status t) \<and>
              (gt_label t = is_name share \<or> gt_share_id t = Some (is_share_id share) \<or>
               (unbound_running_seed_count = 1 \<and> unbound_running_seed t)));
            updated = list_ex completes (g_transfers s);
            s = s\<lparr>g_transfers := map (\<lambda>t. if completes t then
              t\<lparr>gt_share_id := Some (is_share_id share), gt_label := is_name share, gt_status := Done,
                gt_completed_chunks := is_completed_chunks share, gt_total_chunks := is_total_chunks share,
                gt_detail := ''encrypted and stored'', gt_updated_seq := seq\<rparr> else t) (g_transfers s)\<rparr>;
            s = (if \<not> updated \<and> is_mode share = Some ''seeding'' then sync_existing_transfer_from_share E share s else s) in
        sort_transfers s)"

section \<open>Answers and events of the daemon\<close>

definition response_queued :: "moment \<Rightarrow> share_id \<Rightarrow> string \<Rightarrow> etle_gui \<Rightarrow> etle_gui" where
  "response_queued T sid job_id s0 = (case bump_seq (s0\<lparr>g_connected := True\<rparr>) of (seq, s) \<Rightarrow>
     let s = (if find_transfer_by_share sid DownloadTransfer s \<noteq> None then
           set_transfer_by_share sid DownloadTransfer
             (\<lambda>t. t\<lparr>gt_id := job_id, gt_status := Running, gt_detail := ''downloading'', gt_updated_seq := seq\<rparr>) s
         else upsert_transfer (new_transfer job_id DownloadTransfer (share_id_to_string sid) (Some sid) Running ''downloading'' seq) s) in
     push_log T (''queued: job='' @ job_id @ '' share='' @ share_id_to_string sid) (sort_transfers s))"

definition response_completed :: "gui_env \<Rightarrow> moment \<Rightarrow> share_id \<Rightarrow> path \<Rightarrow> string \<Rightarrow> u64 \<Rightarrow> nat \<Rightarrow> etle_gui \<Rightarrow> etle_gui" where
  "response_completed E T sid output_path name bytes chunks s0 = (case bump_seq (s0\<lparr>g_connected := True\<rparr>) of (seq, s) \<Rightarrow>
     let completed = (\<lambda>t. t\<lparr>gt_status := Done, gt_label := name, gt_completed_chunks := chunks, gt_total_chunks := chunks,
           gt_bytes_done := bytes, gt_total_bytes := bytes, gt_bytes_per_second := 0,
           gt_detail := ''saved'' @ middle_dot @ ge_show_path E output_path, gt_updated_seq := seq\<rparr>);
         latest = map_option completed (find_transfer_by_share sid DownloadTransfer s);
         s = set_transfer_by_share sid DownloadTransfer completed s;
         s = (case latest of
             Some t \<Rightarrow> update_latest_from_transfer E t s
           | None \<Rightarrow> s\<lparr>g_progress_fraction := 1, g_latest_progress := ''completed'' @ middle_dot @ name @ middle_dot @ human_bytes E bytes @
               middle_dot @ show_nat chunks @ '' chunks'' @ middle_dot @ ge_show_path E output_path\<rparr>) in
     sort_transfers (push_log T (''completed: share='' @ share_id_to_string sid @ '' output='' @ ge_show_path E output_path) s))"

definition response_failed :: "moment \<Rightarrow> ipc_request_kind \<Rightarrow> string \<Rightarrow> etle_gui \<Rightarrow> etle_gui" where
  "response_failed T kind error s = (case kind of
      ListSharesRequest \<Rightarrow>
        push_log T (''refresh: '' @ error) (s\<lparr>g_refresh_inflight := False, g_status := ''refresh delayed''\<rparr>)
    | PingRequest \<Rightarrow> push_log T (''ipc: '' @ error) (s\<lparr>g_connected := False, g_status := ''offline''\<rparr>)
    | DeleteShareRequest \<Rightarrow>
        push_log T (request_label kind @ '' request failed: '' @ error) (s\<lparr>g_connected := False, g_status := ''request failed''\<rparr>)
    | _ \<Rightarrow>
        push_log T (request_label kind @ '' request failed: '' @ error)
          (mark_recent_running_failed error (s\<lparr>g_connected := False, g_status := ''request failed''\<rparr>)))"

definition response_shares :: "gui_env \<Rightarrow> ipc_share_summary list \<Rightarrow> etle_gui \<Rightarrow> etle_gui" where
  "response_shares E shares s =
     sync_existing_transfers_from_shares E (s\<lparr>g_connected := True, g_status := ''idle'', g_shares := shares,
       g_selected_share := (case g_selected_share s of
           Some index \<Rightarrow> if length shares \<le> index then None else Some index
         | None \<Rightarrow> None)\<rparr>)"

definition apply_ipc_response :: "gui_env \<Rightarrow> moment \<Rightarrow> ipc_request_kind \<Rightarrow> string + ipc_response \<Rightarrow> etle_gui \<Rightarrow> etle_gui" where
  "apply_ipc_response E T kind result s = (case result of
      Inr Pong \<Rightarrow> push_log T ''daemon: pong'' (s\<lparr>g_connected := True, g_status := ''online''\<rparr>)
    | Inr (Ack message) \<Rightarrow> push_log T (''daemon: '' @ message) (s\<lparr>g_connected := True\<rparr>)
    | Inr (Shares shares) \<Rightarrow> response_shares E shares s
    | Inr (ShareAdded share) \<Rightarrow>
        push_log T (''share added: '' @ share_id_to_string (is_share_id share) @ '' '' @ is_name share)
          (mark_seed_completed_from_share E share (upsert_share share (s\<lparr>g_connected := True\<rparr>)))
    | Inr (ShareDeleted sid name) \<Rightarrow>
        push_log T (''share deleted: '' @ share_id_to_string sid @ '' '' @ name)
          ((remove_share sid (s\<lparr>g_connected := True\<rparr>))\<lparr>g_status := ''share deleted''\<rparr>)
    | Inr (TransferQueued sid job_id) \<Rightarrow> response_queued T sid job_id s
    | Inr (TransferCompleted sid output_path name bytes chunks) \<Rightarrow> response_completed E T sid output_path name bytes chunks s
    | Inr (ResponseError message) \<Rightarrow>
        push_log T (''daemon error: '' @ message)
          (if kind = SeedRequest \<or> kind = DownloadRequest then mark_recent_running_failed message s else s)
    | Inl error \<Rightarrow> response_failed T kind error s)"

definition is_seed_task :: "string \<Rightarrow> bool" where
  "is_seed_task task \<longleftrightarrow> contains_text task ''seed'' \<or> contains_text task ''encrypt'' \<or> contains_text task ''staged''"

definition share_name :: "share_id \<Rightarrow> etle_gui \<Rightarrow> string option" where
  "share_name sid s = map_option is_name (find (\<lambda>share. is_share_id share = sid) (g_shares s))"

definition apply_task_progress :: "gui_env \<Rightarrow> task_progress_snapshot \<Rightarrow> etle_gui \<Rightarrow> etle_gui" where
  "apply_task_progress E progress s0 =
     (let kind = (if is_seed_task (tp_task progress) then SeedTransfer else DownloadTransfer);
          sid = (case share_id_from_str (tp_label progress) of Inr i \<Rightarrow> Some i | Inl _ \<Rightarrow> None);
          label = or_default (trim_path_label (tp_label progress)) (Option.bind sid (\<lambda>i. share_name i s0));
          tid = or_default (kind_label kind @ '':'' @ label) (tp_job_id progress);
          completed = 0 < tp_total_chunks progress \<and> tp_total_chunks progress \<le> tp_completed_chunks progress;
          status = (if contains_text (tp_task progress) ''completed'' \<or> kind = SeedTransfer \<and> completed then Done else Running);
          detail = friendly_task_detail (tp_task progress) in
      case bump_seq s0 of (seq, s) \<Rightarrow>
      let transfer = \<lparr>gt_id = tid, gt_kind = kind, gt_label = label, gt_share_id = sid, gt_status = status,
            gt_completed_chunks = tp_completed_chunks progress, gt_total_chunks = tp_total_chunks progress,
            gt_bytes_done = tp_bytes_done progress, gt_total_bytes = tp_total_bytes progress,
            gt_bytes_per_second = tp_bytes_per_second progress, gt_detail = detail, gt_updated_seq = seq\<rparr> in
      upsert_transfer transfer (update_latest_from_transfer E transfer s))"

definition event_chunk_completed :: "gui_env \<Rightarrow> share_id \<Rightarrow> nat \<Rightarrow> nat \<Rightarrow> etle_gui \<Rightarrow> etle_gui" where
  "event_chunk_completed E sid completed_chunks total_chunks s0 = (case bump_seq s0 of (seq, s) \<Rightarrow>
     let verified = (\<lambda>t. t\<lparr>gt_status := Running, gt_completed_chunks := completed_chunks, gt_total_chunks := total_chunks,
           gt_detail := ''chunk verified'', gt_updated_seq := seq\<rparr>);
         latest = map_option verified (find_transfer_by_share sid DownloadTransfer s);
         s = set_transfer_by_share sid DownloadTransfer verified s;
         s = (case latest of
             Some t \<Rightarrow> update_latest_from_transfer E t s
           | None \<Rightarrow> s\<lparr>g_progress_fraction := fraction (of_nat completed_chunks) (of_nat total_chunks),
               g_latest_progress := ''chunk: '' @ share_id_to_string sid @ '' '' @ show_nat completed_chunks @ ''/'' @ show_nat total_chunks\<rparr>) in
     sort_transfers s)"

definition event_transfer_progress ::
    "gui_env \<Rightarrow> string option \<Rightarrow> share_id \<Rightarrow> nat \<Rightarrow> nat \<Rightarrow> u64 \<Rightarrow> u64 \<Rightarrow> u64 \<Rightarrow> etle_gui \<Rightarrow> etle_gui" where
  "event_transfer_progress E job_id sid completed_chunks total_chunks bytes_done total_bytes bytes_per_second s0 =
     (let tid = or_default (''download:'' @ share_id_to_string sid) job_id in
      case bump_seq s0 of (seq, s) \<Rightarrow>
      let label = or_default (share_id_to_string sid) (share_name sid s);
          existing_detail = or_default [] (map_option gt_detail
            (find (\<lambda>t. gt_id t = tid \<or> transfer_of_share sid DownloadTransfer t) (g_transfers s)));
          detail = (if is_specific_progress_detail existing_detail then existing_detail else ''receiving + verifying'');
          transfer = \<lparr>gt_id = tid, gt_kind = DownloadTransfer, gt_label = label, gt_share_id = Some sid, gt_status = Running,
            gt_completed_chunks = completed_chunks, gt_total_chunks = total_chunks, gt_bytes_done = bytes_done,
            gt_total_bytes = total_bytes, gt_bytes_per_second = bytes_per_second, gt_detail = detail, gt_updated_seq = seq\<rparr> in
      upsert_transfer transfer (update_latest_from_transfer E transfer s))"

definition event_transfer_completed :: "gui_env \<Rightarrow> moment \<Rightarrow> string option \<Rightarrow> share_id \<Rightarrow> path \<Rightarrow> etle_gui \<Rightarrow> etle_gui" where
  "event_transfer_completed E T job_id sid output_path s0 = (case bump_seq s0 of (seq, s) \<Rightarrow>
     let transfer_index = or_else (Option.bind job_id (\<lambda>tid. position (\<lambda>t. gt_id t = tid) (g_transfers s)))
           (position (transfer_of_share sid DownloadTransfer) (g_transfers s));
         s = (case transfer_index of
             Some index \<Rightarrow>
               let t = (g_transfers s ! index)\<lparr>gt_status := Done, gt_share_id := Some sid\<rparr>;
                   t = (case find (\<lambda>share. is_share_id share = sid) (g_shares s) of
                       Some share \<Rightarrow> t\<lparr>gt_label := is_name share, gt_completed_chunks := is_completed_chunks share, gt_total_chunks := is_total_chunks share\<rparr>
                     | None \<Rightarrow> t);
                   t = t\<lparr>gt_detail := ''saved'' @ middle_dot @ ge_show_path E output_path, gt_updated_seq := seq\<rparr> in
               update_latest_from_transfer E t (s\<lparr>g_transfers := (g_transfers s)[index := t]\<rparr>)
           | None \<Rightarrow> s\<lparr>g_progress_fraction := 1, g_latest_progress := ''completed'' @ middle_dot @ ''share='' @ share_id_to_string sid @
               middle_dot @ ''output='' @ ge_show_path E output_path\<rparr>) in
     sort_transfers (push_log T (g_latest_progress s) s))"

definition apply_ipc_event :: "gui_env \<Rightarrow> moment \<Rightarrow> ipc_event \<Rightarrow> etle_gui \<Rightarrow> etle_gui" where
  "apply_ipc_event E T event s = (case event of
      ServerStarted listen \<Rightarrow> push_log T (''server started: '' @ ge_show_addr E listen) (s\<lparr>g_connected := True\<rparr>)
    | ServerStopped \<Rightarrow> push_log T ''server stopped'' (s\<lparr>g_connected := False\<rparr>)
    | ShareUpdated share \<Rightarrow>
        sync_existing_transfer_from_share E share (mark_seed_completed_from_share E share (upsert_share share s))
    | ShareDeletedEvent sid \<Rightarrow> push_log T (''share deleted: '' @ share_id_to_string sid) (remove_share sid s)
    | PeerConnected peer_id \<Rightarrow> push_log T (''peer connected: '' @ peer_id) s
    | ChunkCompleted sid completed_chunks total_chunks \<Rightarrow> event_chunk_completed E sid completed_chunks total_chunks s
    | TaskProgress job_id task label completed_chunks total_chunks bytes_done total_bytes bytes_per_second \<Rightarrow>
        apply_task_progress E \<lparr>tp_job_id = job_id, tp_task = task, tp_label = label, tp_completed_chunks = completed_chunks,
          tp_total_chunks = total_chunks, tp_bytes_done = bytes_done, tp_total_bytes = total_bytes,
          tp_bytes_per_second = bytes_per_second\<rparr> s
    | TransferProgress job_id sid completed_chunks total_chunks bytes_done total_bytes bytes_per_second \<Rightarrow>
        event_transfer_progress E job_id sid completed_chunks total_chunks bytes_done total_bytes bytes_per_second s
    | TransferCompletedEvent job_id sid output_path \<Rightarrow> event_transfer_completed E T job_id sid output_path s
    | EventError message \<Rightarrow> push_log T (''event error: '' @ message) (mark_recent_running_failed message s))"

section \<open>What the user does\<close>

definition apply_socket :: "moment \<Rightarrow> etle_gui \<Rightarrow> etle_gui \<times> gui_effect list" where
  "apply_socket T s =
     (let next_path = trim (g_socket_draft s) in
      if next_path = [] then (push_log T ''socket: empty path ignored'' s, [])
      else
        (if next_path \<noteq> g_active_socket_path s then
           push_log T (''socket applied: '' @ next_path) (s\<lparr>g_watch_generation := saturating_incr (g_watch_generation s),
             g_active_socket_path := next_path, g_connected := False, g_watching := False, g_refresh_inflight := False,
             g_selected_share := None, g_shares := []\<rparr>)
         else s,
         [Feed Connect, Feed Refresh, Feed StartWatch]))"

definition connect :: "moment \<Rightarrow> etle_gui \<Rightarrow> etle_gui \<times> gui_effect list" where
  "connect T s =
     (if trim (g_active_socket_path s) = [] then
        (push_log T ''ipc: empty socket path'' (s\<lparr>g_connected := False, g_status := ''offline''\<rparr>), [])
      else (s\<lparr>g_connected := False, g_status := ''checking''\<rparr>, [SendCommand (g_active_socket_path s) PingRequest Ping]))"

definition spawn_refresh :: "moment \<Rightarrow> etle_gui \<Rightarrow> etle_gui \<times> gui_effect list" where
  "spawn_refresh T s =
     (if g_refresh_inflight s then (s, [])
      else (s\<lparr>g_status := ''refreshing'', g_refresh_inflight := True, g_last_auto_refresh := mo_instant_ms T\<rparr>,
        [SendCommand (g_active_socket_path s) ListSharesRequest ListShares]))"

definition start_watch :: "moment \<Rightarrow> etle_gui \<Rightarrow> etle_gui \<times> gui_effect list" where
  "start_watch T s =
     (if trim (g_active_socket_path s) = [] then
        (push_log T ''event watch: empty IPC endpoint'' (s\<lparr>g_connected := False, g_status := ''offline''\<rparr>), [])
      else if g_watching s then (push_log T ''watch already active'' s, [])
      else
        let generation = saturating_incr (g_watch_generation s) in
        (push_log T ''watch: subscribing to daemon events'' (s\<lparr>g_watch_generation := generation, g_watching := True\<rparr>),
         [Subscribe (g_active_socket_path s) generation]))"

text \<open>
  The equality of two \<open>PathBuf\<close>s compares their components: repeated and trailing separators and a dot inside
  a path do not count, a dot in front of a relative path does.
\<close>

definition path_parts :: "string \<Rightarrow> bool \<times> string list" where
  "path_parts p = (prefix ''/'' p, (if hd (split_on (\<lambda>c. c = CHR ''/'') p) = ''.'' then [''.''] else []) @ path_components p)"

definition add_seed_file :: "moment \<Rightarrow> string \<Rightarrow> etle_gui \<Rightarrow> etle_gui" where
  "add_seed_file T p s =
     (if p = [] then s
      else if list_ex (\<lambda>existing. path_parts existing = path_parts p) (g_seed_files s) then push_log T (''seed queue: already added '' @ p) s
      else
        let s = push_log T (''seed queue: added '' @ p) s;
            s = s\<lparr>g_seed_files := g_seed_files s @ [p]\<rparr> in
        if g_selected_seed_file s = None then s\<lparr>g_selected_seed_file := Some 0\<rparr> else s)"

definition add_seed_path_text :: "moment \<Rightarrow> string \<Rightarrow> etle_gui \<Rightarrow> etle_gui" where
  "add_seed_path_text T value s =
     (let trimmed = trim value in
      if trimmed = [] then s else (add_seed_file T trimmed s)\<lparr>g_seed_path := []\<rparr>)"

text \<open>\<open>Vec::remove\<close>, and the selection that follows it.\<close>

definition remove_at :: "nat \<Rightarrow> 'a list \<Rightarrow> 'a list" where
  "remove_at i xs = take i xs @ drop (Suc i) xs"

definition take_seed_file :: "nat \<Rightarrow> etle_gui \<Rightarrow> etle_gui" where
  "take_seed_file index s =
     (let files = remove_at index (g_seed_files s) in
      s\<lparr>g_seed_files := files, g_selected_seed_file := (if files = [] then None else Some (min index (length files - 1)))\<rparr>)"

definition remove_selected_seed_file :: "moment \<Rightarrow> etle_gui \<Rightarrow> etle_gui" where
  "remove_selected_seed_file T s = (case g_selected_seed_file s of
      None \<Rightarrow> s
    | Some index \<Rightarrow>
        if index < length (g_seed_files s) then
          take_seed_file index (push_log T (''seed queue: removed '' @ g_seed_files s ! index) s)
        else s)"

definition start_seed_path :: "gui_env \<Rightarrow> moment \<Rightarrow> string \<Rightarrow> etle_gui \<Rightarrow> etle_gui \<times> gui_effect list" where
  "start_seed_path E T p s0 =
     (let label = file_label p in
      case bump_seq (prepare_new_task_log s0) of (seq, s) \<Rightarrow>
      let s = upsert_transfer (new_transfer (''seed:'' @ label @ '':'' @ show_nat (unat seq)) SeedTransfer label None Running
            (''encrypting'' @ middle_dot @ p) seq) s;
          command = SeedFile (ge_to_path E p) (max (g_seed_chunk_size s) 1);
          s = s\<lparr>g_latest_progress := ''encrypting'' @ middle_dot @ p, g_progress_fraction := 0\<rparr> in
      (push_log T (''seed queued: '' @ p) s, [SendCommand (g_active_socket_path s) SeedRequest command]))"

definition start_seed_selected :: "gui_env \<Rightarrow> moment \<Rightarrow> etle_gui \<Rightarrow> etle_gui \<times> gui_effect list" where
  "start_seed_selected E T s =
     (let index = or_default 0 (g_selected_seed_file s) in
      if g_seed_files s = [] then (push_log T ''seed: add a file first'' s, [])
      else if length (g_seed_files s) \<le> index then
        ((push_log T ''seed: selected file no longer exists'' s)\<lparr>g_selected_seed_file := None\<rparr>, [])
      else start_seed_path E T (g_seed_files s ! index) (take_seed_file index s))"

definition start_download_from_form ::
    "gui_env \<Rightarrow> moment \<Rightarrow> string \<Rightarrow> string \<Rightarrow> string \<Rightarrow> string \<Rightarrow> string \<Rightarrow> etle_gui \<Rightarrow> etle_gui \<times> gui_effect list" where
  "start_download_from_form E T share_id_text peers_text output_text auth_psk_text multicast_text s0 =
     (case build_download_command_from E share_id_text peers_text output_text auth_psk_text multicast_text s0 of
        Inl error \<Rightarrow> (push_log T (''download: '' @ error) s0, [])
      | Inr (command, sid) \<Rightarrow>
          let s = s0\<lparr>g_download_share_id := share_id_text, g_download_peers := peers_text, g_output_path := output_text,
                g_auth_psk := auth_psk_text,
                g_discovery_multicast := or_default (g_discovery_multicast s0) (parse_ipv4_addr multicast_text)\<rparr> in
          case bump_seq (prepare_new_task_log s) of (seq, s) \<Rightarrow>
          let s = upsert_transfer (new_transfer (''download:'' @ share_id_to_string sid) DownloadTransfer (share_id_to_string sid) (Some sid)
                Queued ''waiting for daemon'' seq) s;
              s = s\<lparr>g_latest_progress := ''download queued'' @ middle_dot @ share_id_to_string sid, g_progress_fraction := 0\<rparr> in
          (push_log T (''download queued: '' @ share_id_to_string sid) s,
           [SendCommand (g_active_socket_path s) DownloadRequest command]))"

definition request_delete_selected_share :: "moment \<Rightarrow> etle_gui \<Rightarrow> etle_gui" where
  "request_delete_selected_share T s = (case selected_share_summary s of
      None \<Rightarrow> push_log T ''delete: select a share first'' (s\<lparr>g_status := ''select share''\<rparr>)
    | Some share \<Rightarrow>
        push_log T (''delete: confirmation shown for '' @ share_id_to_string (is_share_id share) @ '' '' @ is_name share)
          (s\<lparr>g_pending_delete_share := Some (is_share_id share), g_status := ''confirm delete''\<rparr>))"

definition confirm_delete_selected_share :: "moment \<Rightarrow> etle_gui \<Rightarrow> etle_gui \<times> gui_effect list" where
  "confirm_delete_selected_share T s = (case selected_share_summary s of
      None \<Rightarrow> (push_log T ''delete: select a share first'' (s\<lparr>g_pending_delete_share := None, g_status := ''select share''\<rparr>), [])
    | Some share \<Rightarrow>
        if g_pending_delete_share s \<noteq> Some (is_share_id share) then (request_delete_selected_share T s, [])
        else
          (push_log T (''delete requested: '' @ share_id_to_string (is_share_id share) @ '' '' @ is_name share)
             (s\<lparr>g_pending_delete_share := None, g_status := ''delete requested''\<rparr>),
           [SendCommand (g_active_socket_path s) DeleteShareRequest (DeleteShare (is_share_id share))]))"

definition cancel_delete_share :: "moment \<Rightarrow> etle_gui \<Rightarrow> etle_gui" where
  "cancel_delete_share T s =
     (if g_pending_delete_share s \<noteq> None
      then push_log T ''delete cancelled'' (s\<lparr>g_pending_delete_share := None, g_status := ''delete cancelled''\<rparr>) else s)"

definition copy_selected_share_id :: "moment \<Rightarrow> etle_gui \<Rightarrow> etle_gui \<times> gui_effect list" where
  "copy_selected_share_id T s = (case selected_share_summary s of
      Some share \<Rightarrow> if mo_display T then (push_log T ''share id copied'' s, [SetClipboard (share_id_to_string (is_share_id share))]) else (s, [])
    | None \<Rightarrow> (s, []))"

section \<open>Inputs\<close>

definition gui_update :: "gui_env \<Rightarrow> moment \<Rightarrow> app_input \<Rightarrow> etle_gui \<Rightarrow> etle_gui \<times> gui_effect list" where
  "gui_update E T message s = (case message of
      ApplySocketText value \<Rightarrow> apply_socket T (s\<lparr>g_socket_draft := value\<rparr>)
    | Connect \<Rightarrow> connect T s
    | Refresh \<Rightarrow> spawn_refresh T s
    | AutoRefreshTick \<Rightarrow> if refresh_due T s then spawn_refresh T s else (s, [])
    | StartWatch \<Rightarrow> start_watch T s
    | GotResponse socket_path kind result \<Rightarrow>
        if socket_path = g_active_socket_path s then
          (apply_ipc_response E T kind result (if kind = ListSharesRequest then s\<lparr>g_refresh_inflight := False\<rparr> else s), [])
        else (s, [])
    | GotEvent generation event \<Rightarrow>
        if generation = g_watch_generation s then (apply_ipc_event E T event s, []) else (s, [])
    | WatchStopped generation error \<Rightarrow>
        if generation = g_watch_generation s then
          (push_log T (''watch stopped: '' @ error) (s\<lparr>g_watching := False, g_connected := False, g_status := ''offline''\<rparr>), [])
        else (s, [])
    | SelectShare index \<Rightarrow>
        if index < length (g_shares s) then (s\<lparr>g_selected_share := Some index, g_pending_delete_share := None\<rparr>, []) else (s, [])
    | CopySelectedShareId \<Rightarrow> copy_selected_share_id T s
    | DeleteSelectedShare \<Rightarrow> (request_delete_selected_share T s, [])
    | ConfirmDeleteSelectedShare \<Rightarrow> confirm_delete_selected_share T s
    | CancelDeleteShare \<Rightarrow> (cancel_delete_share T s, [])
    | ClearLog \<Rightarrow> (s\<lparr>g_activity := [], g_last_activity_message := None\<rparr>, [])
    | ClearFinishedTransfers \<Rightarrow> (clear_finished_transfers s, [])
    | AddSeedPathText value \<Rightarrow> (add_seed_path_text T value s, [])
    | AddSeedFile p \<Rightarrow> (add_seed_file T p s, [])
    | BrowseSeedFiles \<Rightarrow> (s, case mo_picked T of Some paths \<Rightarrow> map (\<lambda>p. Feed (AddSeedFile p)) paths | None \<Rightarrow> [])
    | SelectSeedFile index \<Rightarrow> if index < length (g_seed_files s) then (s\<lparr>g_selected_seed_file := Some index\<rparr>, []) else (s, [])
    | RemoveSelectedSeedFile \<Rightarrow> (remove_selected_seed_file T s, [])
    | ClearSeedFiles \<Rightarrow> (s\<lparr>g_seed_files := [], g_selected_seed_file := None\<rparr>, [])
    | SetSeedChunkSize value \<Rightarrow> (s\<lparr>g_seed_chunk_size := max value 1\<rparr>, [])
    | StartSeedSelected \<Rightarrow> start_seed_selected E T s
    | SetParallelism value \<Rightarrow> (s\<lparr>g_download_parallelism := value\<rparr>, [])
    | SetRequestWindow value \<Rightarrow> (s\<lparr>g_download_request_window := max value 1\<rparr>, [])
    | SetDiscoveryPort value \<Rightarrow> (s\<lparr>g_discovery_port := max value 1\<rparr>, [])
    | SetDiscoveryTimeout value \<Rightarrow> (s\<lparr>g_discovery_timeout_ms := max value 1\<rparr>, [])
    | SetResume value \<Rightarrow> (s\<lparr>g_resume := value\<rparr>, [])
    | StartDownloadFromForm sid peers output_text auth_psk multicast \<Rightarrow>
        start_download_from_form E T sid peers output_text auth_psk multicast s
    | ApplySettings socket_path auth_psk \<Rightarrow> apply_socket T (s\<lparr>g_auth_psk := auth_psk, g_socket_draft := socket_path\<rparr>)
    | SetAutoRefresh value \<Rightarrow> (s\<lparr>g_auto_refresh := value\<rparr>, [])
    | SetClearActivityOnTask value \<Rightarrow> (s\<lparr>g_clear_activity_on_task := value\<rparr>, [])
    | SetRefreshInterval value \<Rightarrow> (s\<lparr>g_refresh_interval_secs := max value 1\<rparr>, [])
    | SetActivityLimit value \<Rightarrow> (trim_activity (s\<lparr>g_activity_limit := max value 20\<rparr>), []))"

section \<open>The threads that talk to the daemon\<close>

definition request_timeout_secs :: "ipc_request_kind \<Rightarrow> nat" where
  "request_timeout_secs kind = (case kind of PingRequest \<Rightarrow> 5 | _ \<Rightarrow> 30)"

text \<open>
  One command over a connection of its own; whether the time limit runs out first is decided outside. The
  answer is an input of the window with the socket it was asked at.
\<close>

definition spawn_ipc_command ::
    "ipc_command bincode \<Rightarrow> ipc_response bincode \<Rightarrow> (ipc_error \<Rightarrow> string) \<Rightarrow> bool \<Rightarrow> string \<Rightarrow> ipc_request_kind \<Rightarrow> ipc_command \<Rightarrow>
     world \<Rightarrow> app_input \<times> world" where
  "spawn_ipc_command C R show_error timed_out socket_path kind command w =
     (case send_ipc_command C R command w of (r, w') \<Rightarrow>
       (GotResponse socket_path kind
          (if timed_out then Inl (request_label kind @ '' request timed out'') else map_err show_error r), w'))"

definition spawn_ipc_watch ::
    "ipc_command bincode \<Rightarrow> ipc_response bincode \<Rightarrow> ipc_event bincode \<Rightarrow> (ipc_error \<Rightarrow> string) \<Rightarrow> u64 \<Rightarrow> world \<Rightarrow> app_input list \<times> world" where
  "spawn_ipc_watch C R V show_error generation w =
     (case subscribe_ipc_events C R V w of
        (Inr (events, error), w') \<Rightarrow> (map (GotEvent generation) events @ [WatchStopped generation (show_error error)], w')
      | (Inl error, w') \<Rightarrow> ([WatchStopped generation (show_error error)], w'))"

end
