(* ===== verification/Etle_Gui_Safe.thy ===== *)
theory Etle_Gui_Safe
  imports Etle_Gui
begin

text \<open>
  What the window guarantees: its state stays well-formed under every input, a share is deleted only after the
  deletion of that share was asked for and confirmed, and what an earlier subscription or another daemon
  still delivers is ignored.

  Most inputs change only the \<^emph>\<open>panel\<close>: the log, the transfers and the progress shown. The relation \<open>panel_step\<close> says
  so and that the panel stays well-formed; it is reflexive and transitive, and every helper of \<open>Etle_Gui\<close>
  is shown to make such a step, so that an input that calls helpers makes one by composition.
\<close>

section \<open>Steps of the panel\<close>

definition panel_only :: "etle_gui \<Rightarrow> etle_gui \<Rightarrow> bool" where
  "panel_only s t \<longleftrightarrow>
     g_shares t = g_shares s \<and> g_selected_share t = g_selected_share s \<and> g_pending_delete_share t = g_pending_delete_share s \<and>
     g_seed_files t = g_seed_files s \<and> g_selected_seed_file t = g_selected_seed_file s \<and> g_activity_limit t = g_activity_limit s \<and>
     g_seed_chunk_size t = g_seed_chunk_size s \<and> g_refresh_interval_secs t = g_refresh_interval_secs s \<and> g_watch_generation t = g_watch_generation s \<and>
     g_active_socket_path t = g_active_socket_path s \<and> g_watching t = g_watching s"

definition panel_ok :: "etle_gui \<Rightarrow> bool" where
  "panel_ok s \<longleftrightarrow> length (g_activity s) \<le> g_activity_limit s \<and>
     (\<forall>t \<in> set (g_transfers s). gt_updated_seq t \<le> g_next_transfer_seq s) \<and>
     0 \<le> g_progress_fraction s \<and> g_progress_fraction s \<le> 1"

definition panel_step :: "etle_gui \<Rightarrow> etle_gui \<Rightarrow> bool" where
  "panel_step s t \<longleftrightarrow> panel_only s t \<and> (panel_ok s \<longrightarrow> panel_ok t)"

lemma panel_step_refl [simp]: "panel_step s s"
  by (simp add: panel_step_def panel_only_def)

lemma panel_only_trans: "panel_only s t \<Longrightarrow> panel_only t u \<Longrightarrow> panel_only s u"
  by (simp add: panel_only_def)

lemma panel_step_trans [trans]: "panel_step s t \<Longrightarrow> panel_step t u \<Longrightarrow> panel_step s u"
  unfolding panel_step_def by (blast intro: panel_only_trans)

lemma panel_only_fields:
  assumes "panel_only s t"
  shows "g_shares t = g_shares s" "g_selected_share t = g_selected_share s" "g_pending_delete_share t = g_pending_delete_share s"
    "g_seed_files t = g_seed_files s" "g_selected_seed_file t = g_selected_seed_file s" "g_activity_limit t = g_activity_limit s"
    "g_seed_chunk_size t = g_seed_chunk_size s" "g_refresh_interval_secs t = g_refresh_interval_secs s"
    "g_watch_generation t = g_watch_generation s" "g_active_socket_path t = g_active_socket_path s" "g_watching t = g_watching s"
  using assms by (simp_all add: panel_only_def)

lemmas panel_step_fields = panel_only_fields [OF panel_step_def [THEN iffD1, THEN conjunct1]]

lemma panel_step_ok: "panel_step s t \<Longrightarrow> panel_ok s \<Longrightarrow> panel_ok t"
  by (simp add: panel_step_def)

lemma fraction_bounds: "0 \<le> fraction a b" "fraction a b \<le> 1"
  by (simp_all add: fraction_def clamp01_def)

lemma transfer_fraction_bounds: "0 \<le> transfer_fraction t" "transfer_fraction t \<le> 1"
  by (simp_all add: transfer_fraction_def fraction_bounds)

lemma saturating_incr_le: "x \<le> saturating_incr x"
proof (cases "x = - 1")
  case False
  have "\<not> x + 1 \<le> x"
    using False by (simp add: inc_less_eq_self_iff_eq)
  then show ?thesis
    using False by (simp add: saturating_incr_def)
qed (simp add: saturating_incr_def)

section \<open>Steps of the helpers\<close>

lemma step_flags:
  "panel_step s (s\<lparr>g_connected := c\<rparr>)" "panel_step s (s\<lparr>g_status := x\<rparr>)" "panel_step s (s\<lparr>g_connected := c, g_status := x\<rparr>)"
  "panel_step s (s\<lparr>g_refresh_inflight := r\<rparr>)" "panel_step s (s\<lparr>g_refresh_inflight := r, g_status := x\<rparr>)"
  by (simp_all add: panel_step_def panel_only_def panel_ok_def)

lemma step_push_log: "panel_step s (push_log T m s)"
  by (auto simp: panel_step_def panel_only_def panel_ok_def push_log_def trim_activity_def Let_def)

lemma step_prepare: "panel_step s (prepare_new_task_log s)"
  by (auto simp: panel_step_def panel_only_def panel_ok_def prepare_new_task_log_def)

lemma step_progress:
  "0 \<le> f \<Longrightarrow> f \<le> 1 \<Longrightarrow> panel_step s (s\<lparr>g_progress_fraction := f, g_latest_progress := x\<rparr>)"
  "0 \<le> f \<Longrightarrow> f \<le> 1 \<Longrightarrow> panel_step s (s\<lparr>g_latest_progress := x, g_progress_fraction := f\<rparr>)"
  by (simp_all add: panel_step_def panel_only_def panel_ok_def)

lemma step_latest: "panel_step s (update_latest_from_transfer E t s)"
  unfolding update_latest_from_transfer_def by (intro step_progress transfer_fraction_bounds)

lemma step_transfers: "(\<And>t. t \<in> set ts \<Longrightarrow> panel_ok s \<Longrightarrow> gt_updated_seq t \<le> g_next_transfer_seq s) \<Longrightarrow> panel_step s (s\<lparr>g_transfers := ts\<rparr>)"
  by (auto simp: panel_step_def panel_only_def panel_ok_def)

lemma panel_seq: "panel_ok s \<Longrightarrow> t \<in> set (g_transfers s) \<Longrightarrow> gt_updated_seq t \<le> g_next_transfer_seq s"
  by (simp add: panel_ok_def)

lemma step_sort: "panel_step s (sort_transfers s)"
  unfolding sort_transfers_def by (rule step_transfers) (auto dest: panel_seq)

lemma step_bump:
  assumes "bump_seq s = (seq, t)"
  shows "panel_step s t" and "seq \<le> g_next_transfer_seq t"
  using assms saturating_incr_le [of "g_next_transfer_seq s"]
  by (auto simp: bump_seq_def panel_step_def panel_only_def panel_ok_def) (meson order_trans)

lemma update_first_set: "x \<in> set (update_first p f xs) \<Longrightarrow> x \<in> set xs \<or> (\<exists>y \<in> set xs. p y \<and> x = f y)"
  by (induction xs) (auto split: if_splits)

lemma step_update_first:
  assumes "\<And>t. t \<in> set (g_transfers s) \<Longrightarrow> gt_updated_seq t \<le> g_next_transfer_seq s \<Longrightarrow> gt_updated_seq (f t) \<le> g_next_transfer_seq s"
  shows "panel_step s (s\<lparr>g_transfers := update_first p f (g_transfers s)\<rparr>)"
  by (rule step_transfers) (auto dest!: update_first_set dest: panel_seq intro: assms)

lemma step_upsert:
  assumes "gt_updated_seq t \<le> g_next_transfer_seq s"
  shows "panel_step s (upsert_transfer t s)"
proof -
  have "panel_step s (s\<lparr>g_transfers := (if list_ex (same_transfer t) (g_transfers s) then update_first (same_transfer t) (\<lambda>_. t) (g_transfers s)
         else g_transfers s @ [t])\<rparr>)"
    by (rule step_transfers) (auto dest!: update_first_set dest: panel_seq intro: assms split: if_splits)
  then show ?thesis
    unfolding upsert_transfer_def using step_sort panel_step_trans by auto
qed

lemma step_set_transfer:
  assumes "\<And>t. gt_updated_seq (f t) \<le> g_next_transfer_seq s"
  shows "panel_step s (set_transfer_by_share sid kind f s)"
  unfolding set_transfer_by_share_def by (rule step_update_first) (rule assms)

lemma step_idle: "panel_step s (show_idle_if_empty s)"
  unfolding show_idle_if_empty_def using step_progress(2) [of 0] by auto

lemma step_mark_failed: "panel_step s (mark_recent_running_failed reason s)"
  unfolding mark_recent_running_failed_def Let_def
  by (rule panel_step_trans [OF step_transfers step_sort]) (auto dest!: update_first_set dest: panel_seq)

lemma step_clear_finished: "panel_step s (clear_finished_transfers s)"
proof -
  have "panel_step s (s\<lparr>g_hidden_finished_transfers := h, g_transfers := filter (\<lambda>t. \<not> is_finished (gt_status t)) (g_transfers s)\<rparr>)" for h
    by (auto simp: panel_step_def panel_only_def panel_ok_def)
  then show ?thesis
    unfolding clear_finished_transfers_def Let_def using step_idle panel_step_trans by blast
qed

text \<open>The helpers from the outside in, and the numbers they leave alone.\<close>

lemmas after_helper =
  panel_step_trans [OF _ step_push_log] panel_step_trans [OF _ step_sort] panel_step_trans [OF _ step_latest]
  panel_step_trans [OF _ step_mark_failed] panel_step_trans [OF _ step_idle] panel_step_trans [OF _ step_prepare]
  panel_step_trans [OF _ step_upsert] panel_step_trans [OF _ step_set_transfer]

lemma helper_seq [simp]:
  "g_next_transfer_seq (update_latest_from_transfer E t s) = g_next_transfer_seq s"
  "g_next_transfer_seq (push_log T m s) = g_next_transfer_seq s"
  "g_next_transfer_seq (sort_transfers s) = g_next_transfer_seq s"
  by (simp_all add: update_latest_from_transfer_def push_log_def trim_activity_def sort_transfers_def Let_def)

lemma new_transfer_seq [simp]: "gt_updated_seq (new_transfer tid kind label sid status detail seq) = seq"
  by (simp add: new_transfer_def)

lemma synced_transfer_seq [simp]: "gt_updated_seq (synced_transfer share seq t) = seq"
  by (simp add: synced_transfer_def Let_def)

lemma step_sync: "panel_step s (sync_existing_transfer_from_share E share s)"
proof -
  obtain seq t where b: "bump_seq s = (seq, t)"
    by fastforce
  note bump = step_bump [OF b]
  let ?bound = "\<lambda>t. gt_share_id t = Some (is_share_id share)"
  show ?thesis
  proof (cases "find ?bound (g_transfers t)")
    case None
    have "panel_step s (upsert_transfer u t)" if "gt_updated_seq u = seq" for u
      using bump that by (intro after_helper) simp_all
    then show ?thesis
      using bump None by (simp add: sync_existing_transfer_from_share_def b Let_def)
  next
    case (Some u)
    let ?u = "synced_transfer share seq u"
    have "panel_step s (t\<lparr>g_transfers := update_first ?bound (\<lambda>_. ?u) (g_transfers t)\<rparr>)"
      by (rule panel_step_trans [OF bump(1) step_update_first]) (simp add: bump(2))
    then have "panel_step s (sort_transfers (if is_finished (gt_status ?u)
        then update_latest_from_transfer E ?u (t\<lparr>g_transfers := update_first ?bound (\<lambda>_. ?u) (g_transfers t)\<rparr>)
        else t\<lparr>g_transfers := update_first ?bound (\<lambda>_. ?u) (g_transfers t)\<rparr>))"
      by (auto intro: after_helper)
    then show ?thesis
      using Some by (simp add: sync_existing_transfer_from_share_def b Let_def)
  qed
qed

lemma step_sync_all: "panel_step s (sync_existing_transfers_from_shares E s)"
proof -
  have "panel_step s (fold (sync_existing_transfer_from_share E) shares t)" if "panel_step s t" for shares t
    using that by (induction shares arbitrary: t) (auto intro: panel_step_trans [OF _ step_sync])
  then show ?thesis
    by (simp add: sync_existing_transfers_from_shares_def)
qed

lemma step_mark_seed: "panel_step s (mark_seed_completed_from_share E share s)"
proof -
  obtain seq t where b: "bump_seq s = (seq, t)"
    by fastforce
  note bump = step_bump [OF b]
  have step: "panel_step s (t\<lparr>g_transfers := map (\<lambda>u. if c u then f u else u) (g_transfers t)\<rparr>)"
    if "\<And>u. gt_updated_seq (f u) = seq" for c f
    by (rule panel_step_trans [OF bump(1) step_transfers]) (auto simp: that bump(2) dest: panel_seq)
  show ?thesis
    by (auto simp: mark_seed_completed_from_share_def b Let_def intro!: after_helper(2) intro: step panel_step_trans [OF step step_sync])
qed

lemma step_task_progress: "panel_step s (apply_task_progress E progress s)"
proof -
  obtain seq t where b: "bump_seq s = (seq, t)"
    by fastforce
  show ?thesis
    unfolding apply_task_progress_def Let_def b prod.case
    by (intro after_helper step_bump(1) [OF b]) (simp add: step_bump(2) [OF b])
qed

lemma step_chunk_completed: "panel_step s (event_chunk_completed E sid c n s)"
proof -
  obtain seq t where b: "bump_seq s = (seq, t)"
    by fastforce
  show ?thesis
    unfolding event_chunk_completed_def Let_def b prod.case
    by (intro after_helper, split option.split)
      (auto intro!: after_helper step_bump(1) [OF b] panel_step_trans [OF _ step_progress(1)] fraction_bounds simp: step_bump(2) [OF b])
qed

lemma step_transfer_progress: "panel_step s (event_transfer_progress E job sid c n b1 b2 b3 s)"
proof -
  obtain seq t where b: "bump_seq s = (seq, t)"
    by fastforce
  show ?thesis
    unfolding event_transfer_progress_def Let_def b prod.case
    by (intro after_helper step_bump(1) [OF b]) (simp add: step_bump(2) [OF b])
qed

lemma step_transfer_completed: "panel_step s (event_transfer_completed E T job sid p s)"
proof -
  obtain seq t where b: "bump_seq s = (seq, t)"
    by fastforce
  note bump = step_bump [OF b]
  have "panel_step s (t\<lparr>g_transfers := (g_transfers t)[i := u]\<rparr>)" if "gt_updated_seq u = seq" for i u
    by (rule panel_step_trans [OF bump(1) step_transfers])
      (auto simp: that bump(2) dest!: set_update_subset_insert [THEN subsetD] dest: panel_seq)
  then show ?thesis
    unfolding event_transfer_completed_def Let_def b prod.case
    by (intro after_helper, split option.split)
      (auto intro!: after_helper panel_step_trans [OF bump(1) step_progress(1)] split: option.split)
qed

lemma step_queued: "panel_step s (response_queued T sid tid s)"
proof -
  obtain seq t where b: "bump_seq (s\<lparr>g_connected := True\<rparr>) = (seq, t)"
    by fastforce
  note bump = panel_step_trans [OF step_flags(1) step_bump(1) [OF b]] step_bump(2) [OF b]
  show ?thesis
    unfolding response_queued_def Let_def b prod.case
    by (intro after_helper, split if_split) (auto intro!: after_helper bump)
qed

lemma step_completed: "panel_step s (response_completed E T sid p name bytes chunks s)"
proof -
  obtain seq t where b: "bump_seq (s\<lparr>g_connected := True\<rparr>) = (seq, t)"
    by fastforce
  note bump = panel_step_trans [OF step_flags(1) step_bump(1) [OF b]] step_bump(2) [OF b]
  show ?thesis
    unfolding response_completed_def Let_def b prod.case
    by (intro after_helper, split option.split) (auto intro!: after_helper bump panel_step_trans [OF _ step_progress(1)])
qed

lemma step_failed: "panel_step s (response_failed T kind error s)"
  unfolding response_failed_def by (cases kind) (auto intro!: after_helper step_flags)

section \<open>The order of the transfers\<close>

definition order_ok :: "etle_gui \<Rightarrow> bool" where
  "order_ok s \<longleftrightarrow> sorted (map transfer_key (g_transfers s))"

lemma order_sort [simp]: "order_ok (sort_transfers s)"
  by (simp add: order_ok_def sort_transfers_def)

lemma order_same: "g_transfers t = g_transfers s \<Longrightarrow> order_ok t \<longleftrightarrow> order_ok s"
  by (simp add: order_ok_def)

lemma order_filter: "order_ok s \<Longrightarrow> sorted (map transfer_key (filter p (g_transfers s)))"
  unfolding order_ok_def by (rule sorted_filter)

lemma order_push_log [simp]: "order_ok (push_log T m s) \<longleftrightarrow> order_ok s"
  by (rule order_same) (simp add: push_log_def trim_activity_def Let_def)

lemma order_prepare [simp]: "order_ok (prepare_new_task_log s) \<longleftrightarrow> order_ok s"
  by (rule order_same) (simp add: prepare_new_task_log_def)

lemma order_latest [simp]: "order_ok (update_latest_from_transfer E t s) \<longleftrightarrow> order_ok s"
  by (rule order_same) (simp add: update_latest_from_transfer_def)

lemma order_idle [simp]: "order_ok (show_idle_if_empty s) \<longleftrightarrow> order_ok s"
  by (rule order_same) (simp add: show_idle_if_empty_def)

lemma order_bump: "bump_seq s = (seq, t) \<Longrightarrow> order_ok t \<longleftrightarrow> order_ok s"
  by (rule order_same) (auto simp: bump_seq_def)

lemma order_flags [simp]:
  "order_ok (s\<lparr>g_connected := c\<rparr>) \<longleftrightarrow> order_ok s" "order_ok (s\<lparr>g_status := x\<rparr>) \<longleftrightarrow> order_ok s"
  "order_ok (s\<lparr>g_refresh_inflight := r\<rparr>) \<longleftrightarrow> order_ok s" "order_ok (s\<lparr>g_progress_fraction := f\<rparr>) \<longleftrightarrow> order_ok s"
  "order_ok (s\<lparr>g_latest_progress := l\<rparr>) \<longleftrightarrow> order_ok s"
  by (rule order_same, simp)+

lemma order_upsert: "order_ok s \<Longrightarrow> order_ok (upsert_transfer t s)"
  by (simp add: upsert_transfer_def)

lemma order_mark_failed [simp]: "order_ok (mark_recent_running_failed reason s)"
  by (simp add: mark_recent_running_failed_def Let_def)

lemma order_clear_finished: "order_ok s \<Longrightarrow> order_ok (clear_finished_transfers s)"
  by (simp add: clear_finished_transfers_def Let_def) (simp add: order_ok_def sorted_filter)

lemma order_sync: "order_ok s \<Longrightarrow> order_ok (sync_existing_transfer_from_share E share s)"
  by (cases "bump_seq s") (auto simp: sync_existing_transfer_from_share_def Let_def order_bump intro: order_upsert split: option.split)

lemma order_sync_all: "order_ok s \<Longrightarrow> order_ok (sync_existing_transfers_from_shares E s)"
proof -
  have "order_ok t \<Longrightarrow> order_ok (fold (sync_existing_transfer_from_share E) shares t)" for shares t
    by (induction shares arbitrary: t) (auto intro: order_sync)
  then show "order_ok s \<Longrightarrow> order_ok (sync_existing_transfers_from_shares E s)"
    by (simp add: sync_existing_transfers_from_shares_def)
qed

lemma order_mark_seed: "order_ok s \<Longrightarrow> order_ok (mark_seed_completed_from_share E share s)"
  by (cases "bump_seq s") (auto simp: mark_seed_completed_from_share_def Let_def)

lemma order_events:
  "order_ok s \<Longrightarrow> order_ok (apply_task_progress E progress s)"
  "order_ok (event_chunk_completed E sid c n s)"
  "order_ok s \<Longrightarrow> order_ok (event_transfer_progress E job sid c n b1 b2 b3 s)"
  "order_ok (event_transfer_completed E T job sid p s)"
  "order_ok (response_queued T sid tid s)"
  "order_ok (response_completed E T sid p name bytes chunks s)"
  "order_ok s \<Longrightarrow> order_ok (response_failed T kind error s)"
proof -
  show "order_ok s \<Longrightarrow> order_ok (apply_task_progress E progress s)"
    by (cases "bump_seq s") (simp add: apply_task_progress_def Let_def order_upsert order_bump)
  show "order_ok (event_chunk_completed E sid c n s)"
    by (cases "bump_seq s") (simp add: event_chunk_completed_def Let_def)
  show "order_ok s \<Longrightarrow> order_ok (event_transfer_progress E job sid c n b1 b2 b3 s)"
    by (cases "bump_seq s") (simp add: event_transfer_progress_def Let_def order_upsert order_bump)
  show "order_ok (event_transfer_completed E T job sid p s)"
    by (cases "bump_seq s") (simp add: event_transfer_completed_def Let_def)
  show "order_ok (response_queued T sid tid s)"
    by (cases "bump_seq (s\<lparr>g_connected := True\<rparr>)") (simp add: response_queued_def Let_def)
  show "order_ok (response_completed E T sid p name bytes chunks s)"
    by (cases "bump_seq (s\<lparr>g_connected := True\<rparr>)") (simp add: response_completed_def Let_def)
  show "order_ok s \<Longrightarrow> order_ok (response_failed T kind error s)"
    by (cases kind) (simp_all add: response_failed_def)
qed

section \<open>Well-formed states\<close>

definition shares_ok :: "etle_gui \<Rightarrow> bool" where
  "shares_ok s \<longleftrightarrow> (\<forall>i. g_selected_share s = Some i \<longrightarrow> i < length (g_shares s))"

definition seeds_ok :: "etle_gui \<Rightarrow> bool" where
  "seeds_ok s \<longleftrightarrow> (g_selected_seed_file s = None \<longleftrightarrow> g_seed_files s = []) \<and>
     (\<forall>i. g_selected_seed_file s = Some i \<longrightarrow> i < length (g_seed_files s)) \<and>
     distinct (map path_parts (g_seed_files s)) \<and> [] \<notin> set (g_seed_files s)"

definition settings_ok :: "etle_gui \<Rightarrow> bool" where
  "settings_ok s \<longleftrightarrow> 20 \<le> g_activity_limit s \<and> 1 \<le> g_seed_chunk_size s \<and> 1 \<le> g_refresh_interval_secs s"

definition gui_wf :: "etle_gui \<Rightarrow> bool" where
  "gui_wf s \<longleftrightarrow> shares_ok s \<and> seeds_ok s \<and> settings_ok s \<and> panel_ok s \<and> order_ok s"

lemma wf_step:
  assumes "gui_wf s" and "panel_step s t" and "order_ok t"
  shows "gui_wf t"
  using assms panel_step_ok [OF assms(2)]
  by (simp add: gui_wf_def shares_ok_def seeds_ok_def settings_ok_def panel_step_fields [OF assms(2)])

lemma wf_push_log: "gui_wf s \<Longrightarrow> gui_wf (push_log T m s)"
  by (rule wf_step [OF _ step_push_log]) (simp_all add: gui_wf_def)

lemma wf_flags:
  assumes "gui_wf s"
  shows "gui_wf (s\<lparr>g_connected := c\<rparr>)" "gui_wf (s\<lparr>g_status := x\<rparr>)" "gui_wf (s\<lparr>g_refresh_inflight := r\<rparr>)"
    "gui_wf (s\<lparr>g_pending_delete_share := q\<rparr>)" "gui_wf (s\<lparr>g_watching := v\<rparr>)" "gui_wf (s\<lparr>g_watch_generation := n\<rparr>)"
    "gui_wf (s\<lparr>g_socket_draft := y\<rparr>)" "gui_wf (s\<lparr>g_auth_psk := y\<rparr>)" "gui_wf (s\<lparr>g_active_socket_path := y\<rparr>)"
    "gui_wf (s\<lparr>g_last_auto_refresh := k\<rparr>)" "gui_wf (s\<lparr>g_seed_path := y\<rparr>)" "gui_wf (s\<lparr>g_last_activity_message := lm\<rparr>)"
    "gui_wf (s\<lparr>g_download_parallelism := k\<rparr>)" "gui_wf (s\<lparr>g_download_request_window := k\<rparr>)" "gui_wf (s\<lparr>g_discovery_port := port\<rparr>)"
    "gui_wf (s\<lparr>g_discovery_timeout_ms := n\<rparr>)" "gui_wf (s\<lparr>g_resume := c\<rparr>)" "gui_wf (s\<lparr>g_auto_refresh := c\<rparr>)"
    "gui_wf (s\<lparr>g_clear_activity_on_task := c\<rparr>)" "gui_wf (s\<lparr>g_download_share_id := y\<rparr>)" "gui_wf (s\<lparr>g_download_peers := y\<rparr>)"
    "gui_wf (s\<lparr>g_output_path := y\<rparr>)" "gui_wf (s\<lparr>g_discovery_multicast := ip\<rparr>)" "gui_wf (s\<lparr>g_latest_progress := y\<rparr>)"
    "gui_wf (s\<lparr>g_progress_fraction := 0\<rparr>)" "gui_wf (s\<lparr>g_activity := []\<rparr>)"
    "gui_wf (s\<lparr>g_selected_share := None\<rparr>)"
  using assms by (simp_all add: gui_wf_def shares_ok_def seeds_ok_def settings_ok_def panel_ok_def order_ok_def)

lemma wf_prepare: "gui_wf s \<Longrightarrow> gui_wf (prepare_new_task_log s)"
  by (rule wf_step [OF _ step_prepare]) (simp_all add: gui_wf_def)

lemma wf_idle: "gui_wf s \<Longrightarrow> gui_wf (show_idle_if_empty s)"
  by (rule wf_step [OF _ step_idle]) (simp_all add: gui_wf_def)

lemma wf_sync_all: "gui_wf s \<Longrightarrow> gui_wf (sync_existing_transfers_from_shares E s)"
  by (rule wf_step [OF _ step_sync_all]) (simp_all add: gui_wf_def order_sync_all)

lemma wf_bump: "gui_wf s \<Longrightarrow> bump_seq s = (seq, t) \<Longrightarrow> gui_wf t \<and> seq \<le> g_next_transfer_seq t"
  using step_bump wf_step order_bump by (metis gui_wf_def)

lemma wf_upsert: "gui_wf s \<Longrightarrow> gt_updated_seq t \<le> g_next_transfer_seq s \<Longrightarrow> gui_wf (upsert_transfer t s)"
  by (rule wf_step [OF _ step_upsert]) (simp_all add: gui_wf_def order_upsert)

lemma position_less: "position p xs = Some i \<Longrightarrow> i < length xs"
  by (induction xs arbitrary: i) (auto split: if_splits)

lemma wf_remove_share: "gui_wf s \<Longrightarrow> gui_wf (remove_share sid s)"
  unfolding remove_share_def Let_def
  by (rule wf_idle) (auto simp: gui_wf_def shares_ok_def seeds_ok_def settings_ok_def panel_ok_def order_ok_def sorted_filter
      split: option.splits if_splits dest!: position_less)

lemma length_update_first [simp]: "length (update_first p f xs) = length xs"
  by (induction xs) auto

lemma wf_upsert_share: "gui_wf s \<Longrightarrow> gui_wf (upsert_share share s)"
  by (auto simp: gui_wf_def shares_ok_def seeds_ok_def settings_ok_def panel_ok_def order_ok_def upsert_share_def Let_def)

lemma wf_response_shares: "gui_wf s \<Longrightarrow> gui_wf (response_shares E shares s)"
  unfolding response_shares_def
  by (rule wf_sync_all) (auto simp: gui_wf_def shares_ok_def seeds_ok_def settings_ok_def panel_ok_def order_ok_def split: option.splits)

lemma wf_mark_seed: "gui_wf s \<Longrightarrow> gui_wf (mark_seed_completed_from_share E share s)"
  by (rule wf_step [OF _ step_mark_seed]) (simp_all add: gui_wf_def order_mark_seed)

lemma wf_response: "gui_wf s \<Longrightarrow> gui_wf (apply_ipc_response E T kind result s)"
proof -
  assume wf: "gui_wf s"
  then have order: "order_ok s"
    by (simp add: gui_wf_def)
  show ?thesis
  proof (cases result)
    case (Inl error)
    then show ?thesis
      using wf_step [OF wf step_failed order_events(7) [OF order]] by (simp add: apply_ipc_response_def)
  next
    case (Inr response)
    then show ?thesis
      using wf order
      by (cases response)
        (auto simp: apply_ipc_response_def intro!: wf_push_log wf_flags wf_response_shares wf_mark_seed wf_upsert_share wf_remove_share
          intro: wf_step [OF _ step_queued] wf_step [OF _ step_completed] wf_step [OF _ step_mark_failed] order_events)
  qed
qed

lemma wf_event: "gui_wf s \<Longrightarrow> gui_wf (apply_ipc_event E T event s)"
proof -
  assume wf: "gui_wf s"
  then have order: "order_ok s"
    by (simp add: gui_wf_def)
  have sync: "gui_wf t \<Longrightarrow> gui_wf (sync_existing_transfer_from_share E share t)" for share t
    by (rule wf_step [OF _ step_sync]) (simp_all add: gui_wf_def order_sync)
  show ?thesis
    using wf order
    by (cases event)
      (auto simp: apply_ipc_event_def intro!: wf_push_log wf_flags sync wf_mark_seed wf_upsert_share wf_remove_share
        intro: wf_step [OF _ step_chunk_completed] wf_step [OF _ step_task_progress] wf_step [OF _ step_transfer_progress]
          wf_step [OF _ step_transfer_completed] wf_step [OF _ step_mark_failed] order_events)
qed

section \<open>Every input keeps the state well-formed\<close>

lemma wf_apply_socket: "gui_wf s \<Longrightarrow> gui_wf (fst (apply_socket T s))"
proof -
  assume "gui_wf s"
  then have "gui_wf (s\<lparr>g_watch_generation := n, g_active_socket_path := p, g_connected := False, g_watching := False,
      g_refresh_inflight := False, g_selected_share := None, g_shares := []\<rparr>)" for n p
    by (simp add: gui_wf_def shares_ok_def seeds_ok_def settings_ok_def panel_ok_def order_ok_def)
  then show ?thesis
    using \<open>gui_wf s\<close> by (simp add: apply_socket_def Let_def wf_push_log)
qed

lemma wf_append_seed:
  assumes "gui_wf u" and "p \<noteq> []" and "path_parts p \<notin> path_parts ` set (g_seed_files u)"
  shows "gui_wf (let t = u\<lparr>g_seed_files := g_seed_files u @ [p]\<rparr> in
    if g_selected_seed_file t = None then t\<lparr>g_selected_seed_file := Some 0\<rparr> else t)"
  using assms by (auto simp: gui_wf_def shares_ok_def seeds_ok_def settings_ok_def panel_ok_def order_ok_def less_Suc_eq)

lemma wf_add_seed_file:
  assumes wf: "gui_wf s"
  shows "gui_wf (add_seed_file T p s)"
proof (cases "p = [] \<or> list_ex (\<lambda>existing. path_parts existing = path_parts p) (g_seed_files s)")
  case True
  then show ?thesis
    using wf wf_push_log [OF wf] by (auto simp: add_seed_file_def)
next
  case False
  define u where "u = push_log T (''seed queue: added '' @ p) s"
  have "g_seed_files u = g_seed_files s"
    unfolding u_def by (rule panel_step_fields(4) [OF step_push_log])
  then have "path_parts p \<notin> path_parts ` set (g_seed_files u)"
    using False by (auto simp: list_ex_iff image_iff)
  moreover have "gui_wf u"
    unfolding u_def by (rule wf_push_log [OF wf])
  ultimately show ?thesis
    using False wf_append_seed unfolding add_seed_file_def u_def [symmetric] by (simp add: Let_def del: append.simps)
qed

lemma remove_at_facts:
  assumes "i < length xs"
  shows "length (remove_at i xs) = length xs - 1" "set (remove_at i xs) \<subseteq> set xs"
    "distinct (map f xs) \<Longrightarrow> distinct (map f (remove_at i xs))"
proof -
  show "length (remove_at i xs) = length xs - 1" and "set (remove_at i xs) \<subseteq> set xs"
    using assms by (auto simp: remove_at_def dest: in_set_takeD in_set_dropD)
  assume "distinct (map f xs)"
  then have "distinct (map f (take i xs @ xs ! i # drop (Suc i) xs))"
    using id_take_nth_drop [OF assms] by simp
  then show "distinct (map f (remove_at i xs))"
    by (simp add: remove_at_def)
qed

lemma wf_take_seed_file:
  assumes wf: "gui_wf s" and i: "index < length (g_seed_files s)"
  shows "gui_wf (take_seed_file index s)"
proof -
  have "distinct (map path_parts (remove_at index (g_seed_files s)))"
    by (rule remove_at_facts(3) [OF i]) (use wf in \<open>simp add: gui_wf_def seeds_ok_def\<close>)
  moreover have "[] \<notin> set (remove_at index (g_seed_files s))"
    using remove_at_facts(2) [OF i] wf by (auto simp: gui_wf_def seeds_ok_def)
  ultimately have "seeds_ok (take_seed_file index s)"
    by (simp add: seeds_ok_def take_seed_file_def Let_def min_less_iff_disj)
  then show ?thesis
    using wf by (simp add: gui_wf_def shares_ok_def settings_ok_def panel_ok_def order_ok_def take_seed_file_def Let_def)
qed

lemma wf_start_seed_path: "gui_wf s \<Longrightarrow> gui_wf (fst (start_seed_path E T p s))"
proof -
  assume "gui_wf s"
  obtain seq t where b: "bump_seq (prepare_new_task_log s) = (seq, t)"
    by fastforce
  then have t: "gui_wf t" "seq \<le> g_next_transfer_seq t"
    using wf_bump [OF wf_prepare [OF \<open>gui_wf s\<close>] b] by blast+
  show ?thesis
    unfolding start_seed_path_def Let_def b prod.case fst_conv
    by (intro wf_push_log wf_flags wf_upsert t(1)) (simp add: t(2))
qed

lemma wf_start_seed_selected: "gui_wf s \<Longrightarrow> gui_wf (fst (start_seed_selected E T s))"
proof -
  assume wf: "gui_wf s"
  have "g_seed_files s = [] \<or> or_default 0 (g_selected_seed_file s) < length (g_seed_files s)"
    using wf by (cases "g_selected_seed_file s") (auto simp: gui_wf_def seeds_ok_def or_default_def)
  then show ?thesis
    using wf wf_push_log [OF wf] wf_start_seed_path [OF wf_take_seed_file [OF wf]]
    by (auto simp: start_seed_selected_def Let_def)
qed

lemma wf_start_download: "gui_wf s \<Longrightarrow> gui_wf (fst (start_download_from_form E T a b c d e s))"
proof -
  assume wf: "gui_wf s"
  show ?thesis
  proof (cases "build_download_command_from E a b c d e s")
    case (Inl error)
    then show ?thesis
      using wf by (simp add: start_download_from_form_def wf_push_log)
  next
    case (Inr r)
    obtain command sid where r: "r = (command, sid)"
      by fastforce
    define u where "u = s\<lparr>g_download_share_id := a, g_download_peers := b, g_output_path := c, g_auth_psk := d,
      g_discovery_multicast := or_default (g_discovery_multicast s) (parse_ipv4_addr e)\<rparr>"
    have "gui_wf u"
      unfolding u_def by (intro wf_flags wf)
    obtain seq t where bump: "bump_seq (prepare_new_task_log u) = (seq, t)"
      by fastforce
    then have t: "gui_wf t" "seq \<le> g_next_transfer_seq t"
      using wf_bump [OF wf_prepare [OF \<open>gui_wf u\<close>]] by blast+
    show ?thesis
      unfolding start_download_from_form_def Inr r sum.case prod.case u_def [symmetric] Let_def bump fst_conv
      by (intro wf_push_log wf_flags wf_upsert t(1)) (simp add: t(2))
  qed
qed

lemma wf_delete:
  assumes "gui_wf s"
  shows "gui_wf (request_delete_selected_share T s)" and "gui_wf (fst (confirm_delete_selected_share T s))"
    and "gui_wf (cancel_delete_share T s)"
proof -
  show "gui_wf (request_delete_selected_share T s)"
    unfolding request_delete_selected_share_def using assms by (auto intro!: wf_push_log wf_flags split: option.split)
  then show "gui_wf (fst (confirm_delete_selected_share T s))"
    unfolding confirm_delete_selected_share_def using assms by (auto intro!: wf_push_log wf_flags split: option.split)
  show "gui_wf (cancel_delete_share T s)"
    unfolding cancel_delete_share_def using assms by (auto intro!: wf_push_log wf_flags)
qed

lemma wf_connection:
  assumes "gui_wf s"
  shows "gui_wf (fst (connect T s))" and "gui_wf (fst (spawn_refresh T s))" and "gui_wf (fst (start_watch T s))"
  using assms by (auto simp: connect_def spawn_refresh_def start_watch_def Let_def intro!: wf_push_log wf_flags)

lemma wf_remove_selected: "gui_wf s \<Longrightarrow> gui_wf (remove_selected_seed_file T s)"
  using panel_step_fields(4) [OF step_push_log]
  by (auto simp: remove_selected_seed_file_def intro!: wf_take_seed_file wf_push_log split: option.split)

lemma wf_settings:
  assumes "gui_wf s"
  shows "gui_wf (s\<lparr>g_seed_chunk_size := max n (Suc 0)\<rparr>)" "gui_wf (s\<lparr>g_refresh_interval_secs := max k 1\<rparr>)"
    "gui_wf (trim_activity (s\<lparr>g_activity_limit := max n 20\<rparr>))" "gui_wf (s\<lparr>g_seed_files := [], g_selected_seed_file := None\<rparr>)"
    "i < length (g_seed_files s) \<Longrightarrow> gui_wf (s\<lparr>g_selected_seed_file := Some i\<rparr>)"
    "i < length (g_shares s) \<Longrightarrow> gui_wf (s\<lparr>g_selected_share := Some i\<rparr>)"
  using assms
  by (auto simp: gui_wf_def shares_ok_def seeds_ok_def settings_ok_def panel_ok_def order_ok_def trim_activity_def)

lemma wf_clear_finished: "gui_wf s \<Longrightarrow> gui_wf (clear_finished_transfers s)"
  by (rule wf_step [OF _ step_clear_finished]) (simp_all add: gui_wf_def order_clear_finished)

lemma gui_update_wf: "gui_wf s \<Longrightarrow> gui_wf (fst (gui_update E T input s))"
  by (cases input)
    (auto simp: gui_update_def add_seed_path_text_def copy_selected_share_id_def Let_def
      intro!: wf_apply_socket wf_flags wf_connection wf_response wf_event wf_push_log wf_delete wf_add_seed_file
        wf_remove_selected wf_start_seed_selected wf_start_download wf_settings
        wf_clear_finished split: option.split)

section \<open>Runs\<close>

text \<open>A sequence of inputs, each with the moment at which it is handled, and all that they set in motion.\<close>

fun gui_run :: "gui_env \<Rightarrow> (moment \<times> app_input) list \<Rightarrow> etle_gui \<Rightarrow> etle_gui \<times> gui_effect list" where
  "gui_run E [] s = (s, [])"
| "gui_run E ((T, input) # inputs) s =
     (case gui_update E T input s of (s', es) \<Rightarrow> (case gui_run E inputs s' of (s'', es') \<Rightarrow> (s'', es @ es')))"

lemma gui_run_append: "gui_run E (xs @ ys) s =
    (case gui_run E xs s of (s', es) \<Rightarrow> (case gui_run E ys s' of (s'', es') \<Rightarrow> (s'', es @ es')))"
  by (induction xs arbitrary: s) (auto split: prod.splits)

lemma gui_run_snoc: "fst (gui_run E (xs @ [(T, input)]) s) = fst (gui_update E T input (fst (gui_run E xs s)))"
  by (simp add: gui_run_append split: prod.splits)

lemma gui_run_wf: "gui_wf s \<Longrightarrow> gui_wf (fst (gui_run E inputs s))"
proof (induction inputs rule: rev_induct)
  case (snoc x xs)
  then show ?case
    by (cases x) (simp add: gui_run_snoc gui_update_wf)
qed simp

text \<open>C35: Whatever the user, the daemon and its events do, and in whatever order, the state of the window stays well-formed:
  the selected share and the selected file exist, a file is selected exactly if there are any, no file is
  queued twice, the log is within its limit, the transfers are sorted by status and time, the progress lies between
  0 and 1, and chunk size and refresh interval are positive.\<close>

theorem window_state_well_formed:
  "gui_wf (fst (gui_run E inputs (gui_new T i)))"
proof (rule gui_run_wf)
  have "gui_wf (gui_new T (i\<lparr>gi_startup_warning := None\<rparr>))"
    by (simp add: gui_new_def gui_wf_def shares_ok_def seeds_ok_def settings_ok_def panel_ok_def order_ok_def DEFAULT_ACTIVITY_LIMIT_def
        DEFAULT_CHUNK_SIZE_def DEFAULT_REFRESH_INTERVAL_SECS_def)
  then show "gui_wf (gui_new T i)"
    by (cases "gi_startup_warning i") (auto simp: gui_new_def intro: wf_push_log)
qed

section \<open>What answers and events leave alone\<close>

definition follows :: "etle_gui \<Rightarrow> etle_gui \<Rightarrow> bool" where
  "follows s t \<longleftrightarrow> g_active_socket_path t = g_active_socket_path s \<and> g_watch_generation t = g_watch_generation s \<and>
     (g_pending_delete_share t = g_pending_delete_share s \<or> g_pending_delete_share t = None) \<and>
     (g_selected_share s = None \<longrightarrow> g_selected_share t = None)"

lemma follows_refl [simp]: "follows s s"
  by (simp add: follows_def)

lemma follows_trans: "follows s t \<Longrightarrow> follows t u \<Longrightarrow> follows s u"
  by (auto simp: follows_def)

lemma follows_panel: "panel_step s t \<Longrightarrow> follows s t"
  using panel_step_fields [of s t] by (simp add: follows_def)

lemma follows_then_panel: "follows s t \<Longrightarrow> panel_step t u \<Longrightarrow> follows s u"
  by (blast intro: follows_trans follows_panel)

lemmas follows_helper =
  follows_then_panel [OF _ step_push_log] follows_then_panel [OF _ step_sync] follows_then_panel [OF _ step_mark_seed]
  follows_then_panel [OF _ step_mark_failed] follows_then_panel [OF _ step_flags(2)] follows_then_panel [OF _ step_flags(1)]

lemma follows_remove_share: "follows s (remove_share sid s)"
proof -
  have "panel_step t (show_idle_if_empty t)" for t
    by (rule step_idle)
  then have "follows s (show_idle_if_empty t)" if "follows s t" for t
    using that by (rule follows_then_panel [rotated])
  then show ?thesis
    unfolding remove_share_def Let_def by (auto simp: follows_def selected_share_summary_def split: option.splits)
qed

lemma follows_upsert_share: "follows s (upsert_share share s)"
  by (simp add: follows_def upsert_share_def Let_def)

lemma follows_shares: "follows s (response_shares E shares s)"
  unfolding response_shares_def
  by (rule follows_then_panel [OF _ step_sync_all]) (simp add: follows_def)

lemma follows_response: "follows s (apply_ipc_response E T kind result s)"
proof (cases result)
  case (Inl error)
  then show ?thesis
    using follows_panel [OF step_failed] by (simp add: apply_ipc_response_def)
next
  case (Inr response)
  have flags: "follows s (s\<lparr>g_connected := c, g_status := x\<rparr>)" for c x
    by (rule follows_panel [OF step_flags(3)])
  show ?thesis
    using Inr
    by (cases response)
      (auto simp: apply_ipc_response_def intro!: follows_helper follows_shares flags
        follows_trans [OF _ follows_remove_share] follows_trans [OF _ follows_upsert_share] follows_panel [OF step_queued] follows_panel [OF step_completed])
qed

lemma follows_event: "follows s (apply_ipc_event E T event s)"
  by (cases event)
    (auto simp: apply_ipc_event_def intro!: follows_helper follows_remove_share follows_upsert_share
      follows_panel [OF step_chunk_completed] follows_panel [OF step_task_progress] follows_panel [OF step_transfer_progress]
      follows_panel [OF step_transfer_completed])

lemma log_fields [simp]:
  "g_pending_delete_share (push_log T m s) = g_pending_delete_share s" "g_selected_share (push_log T m s) = g_selected_share s"
  "g_active_socket_path (push_log T m s) = g_active_socket_path s" "g_watch_generation (push_log T m s) = g_watch_generation s"
  "g_shares (push_log T m s) = g_shares s"
  using panel_step_fields [OF step_push_log] by auto

text \<open>An input that changes neither the selected share nor the socket nor what is to be deleted.\<close>

lemma follows_tasks:
  "follows s (add_seed_file T p s)" "follows s (take_seed_file k s)" "follows s (remove_selected_seed_file T s)"
  "follows s (fst (start_seed_selected E T s))" "follows s (fst (start_download_from_form E T a b c d e s))"
  "follows s (clear_finished_transfers s)"
proof -
  show "follows s (add_seed_file T p s)"
    by (simp add: add_seed_file_def Let_def follows_def)
  show take: "follows s (take_seed_file k s)" for k s
    by (simp add: take_seed_file_def Let_def follows_def)
  show "follows s (remove_selected_seed_file T s)"
    by (auto simp: remove_selected_seed_file_def intro: follows_trans [OF _ take] follows_panel [OF step_push_log] split: option.split)
  have task: "follows s (push_log T m ((upsert_transfer u t)\<lparr>g_latest_progress := x, g_progress_fraction := 0\<rparr>))"
    if "follows s v" "bump_seq (prepare_new_task_log v) = (seq, t)" "gt_updated_seq u = seq" for s v t u seq m x
  proof -
    have "panel_step v t" and seq: "seq \<le> g_next_transfer_seq t"
      using step_prepare step_bump [OF that(2)] by (blast intro: panel_step_trans)+
    then have "panel_step v (upsert_transfer u t)"
      using that(3) by (blast intro: panel_step_trans step_upsert)
    then have "panel_step v (push_log T m ((upsert_transfer u t)\<lparr>g_latest_progress := x, g_progress_fraction := 0\<rparr>))"
      by (intro after_helper(1) panel_step_trans [OF _ step_progress(2)]) simp_all
    then show ?thesis
      by (rule follows_then_panel [OF that(1)])
  qed
  have seed: "follows s (fst (start_seed_path E T p t))" if "follows s t" for s t p
    by (cases "bump_seq (prepare_new_task_log t)") (simp add: start_seed_path_def Let_def task [OF that] del: append.simps)
  show "follows s (fst (start_seed_selected E T s))"
    using seed [OF take] by (auto simp: start_seed_selected_def Let_def follows_def)
  show "follows s (fst (start_download_from_form E T a b c d e s))"
  proof (cases "build_download_command_from E a b c d e s")
    case (Inr r)
    have form: "follows s (s\<lparr>g_download_share_id := a, g_download_peers := b, g_output_path := c, g_auth_psk := d, g_discovery_multicast := ip\<rparr>)" for ip
      by (simp add: follows_def)
    show ?thesis
      unfolding start_download_from_form_def Inr Let_def
      by (auto simp: task [OF form] simp del: append.simps split: prod.split)
  qed (simp add: start_download_from_form_def follows_def)
  show "follows s (clear_finished_transfers s)"
    by (rule follows_panel [OF step_clear_finished])
qed

section \<open>Deleting a share\<close>

definition selected_share_id :: "etle_gui \<Rightarrow> share_id option" where
  "selected_share_id s = map_option is_share_id (selected_share_summary s)"

text \<open>
  What is to be deleted after an input was asked for by that input, for the share selected, or it was so
  before; then the input was no cancellation, no other share was selected, and the socket is the
  same or no share is selected any more.
\<close>

lemma pending_after:
  assumes "g_pending_delete_share (fst (gui_update E T input s)) = Some sid"
  shows "input \<in> {DeleteSelectedShare, ConfirmDeleteSelectedShare} \<and> selected_share_id s = Some sid \<and>
      g_active_socket_path (fst (gui_update E T input s)) = g_active_socket_path s
    \<or> g_pending_delete_share s = Some sid \<and> input \<noteq> CancelDeleteShare \<and>
      (g_selected_share s = None \<longrightarrow> g_selected_share (fst (gui_update E T input s)) = None) \<and>
      (g_active_socket_path (fst (gui_update E T input s)) = g_active_socket_path s \<or> g_selected_share (fst (gui_update E T input s)) = None)"
proof -
  let ?t = "fst (gui_update E T input s)"
  have by_follows: ?thesis if "follows s ?t" "input \<noteq> CancelDeleteShare"
    using that assms by (auto simp: follows_def)
  show ?thesis
  proof (cases input)
    case (GotResponse p kind result)
    have "follows s (s\<lparr>g_refresh_inflight := False\<rparr>)"
      by (rule follows_panel [OF step_flags(4)])
    then have "follows s ?t"
      using GotResponse by (auto simp: gui_update_def intro: follows_trans [OF _ follows_response])
    then show ?thesis
      using GotResponse by (intro by_follows) simp_all
  next
    case (GotEvent generation event)
    then have "follows s ?t"
      by (simp add: gui_update_def follows_event)
    then show ?thesis
      using GotEvent by (intro by_follows) simp_all
  next
    case (ApplySocketText draft)
    then show ?thesis
      using assms by (simp add: gui_update_def apply_socket_def Let_def split: if_splits)
  next
    case (ApplySettings p psk)
    then show ?thesis
      using assms by (simp add: gui_update_def apply_socket_def Let_def split: if_splits)
  next
    case DeleteSelectedShare
    then show ?thesis
      using assms by (auto simp: gui_update_def request_delete_selected_share_def selected_share_id_def split: option.splits)
  next
    case ConfirmDeleteSelectedShare
    then show ?thesis
      using assms
      by (auto simp: gui_update_def confirm_delete_selected_share_def request_delete_selected_share_def selected_share_id_def
          split: option.splits if_splits)
  next
    case CancelDeleteShare
    then show ?thesis
      using assms by (auto simp: gui_update_def cancel_delete_share_def split: if_splits)
  next
    case (SelectShare index)
    then show ?thesis
      using assms by (auto simp: gui_update_def split: if_splits)
  next
    case StartWatch
    then show ?thesis
      using assms by (simp add: gui_update_def start_watch_def Let_def split: if_splits)
  next
    case (AddSeedPathText draft)
    then have "follows s ?t"
      using follows_tasks(1) [of s T "trim draft"] by (simp add: gui_update_def add_seed_path_text_def Let_def follows_def)
    then show ?thesis
      using AddSeedPathText by (intro by_follows) simp_all
  qed (rule by_follows,
      ((simp add: gui_update_def follows_tasks; fail)
       | auto simp: gui_update_def follows_def connect_def spawn_refresh_def start_watch_def copy_selected_share_id_def trim_activity_def
          Let_def split: option.split)[1], simp)+
qed

text \<open>Where in a run the deletion was asked for.\<close>

definition asked_in :: "gui_env \<Rightarrow> (moment \<times> app_input) list \<Rightarrow> etle_gui \<Rightarrow> share_id \<Rightarrow> string \<Rightarrow> bool" where
  "asked_in E inputs s0 sid socket_path \<longleftrightarrow>
     (\<exists>before T ask after. inputs = before @ (T, ask) # after \<and> ask \<in> {DeleteSelectedShare, ConfirmDeleteSelectedShare} \<and>
       selected_share_id (fst (gui_run E before s0)) = Some sid \<and>
       g_active_socket_path (fst (gui_run E before s0)) = socket_path \<and> CancelDeleteShare \<notin> snd ` set after)"

lemma asked_in_snoc: "asked_in E xs s0 sid p \<Longrightarrow> input \<noteq> CancelDeleteShare \<Longrightarrow> asked_in E (xs @ [(T, input)]) s0 sid p"
proof -
  assume "asked_in E xs s0 sid p" and no_cancel: "input \<noteq> CancelDeleteShare"
  then obtain before T' ask after where run: "xs = before @ (T', ask) # after" "ask \<in> {DeleteSelectedShare, ConfirmDeleteSelectedShare}"
    "selected_share_id (fst (gui_run E before s0)) = Some sid" "g_active_socket_path (fst (gui_run E before s0)) = p"
    "CancelDeleteShare \<notin> snd ` set after"
    unfolding asked_in_def by blast
  show ?thesis
    unfolding asked_in_def
    by (rule exI [of _ before], rule exI [of _ T'], rule exI [of _ ask], rule exI [of _ "after @ [(T, input)]"])
      (use run no_cancel in auto)
qed

lemma pending_was_asked:
  assumes "g_pending_delete_share s0 = None" and "g_pending_delete_share (fst (gui_run E inputs s0)) = Some sid"
  shows "\<exists>p. asked_in E inputs s0 sid p \<and>
    (g_active_socket_path (fst (gui_run E inputs s0)) = p \<or> g_selected_share (fst (gui_run E inputs s0)) = None)"
  using assms(2)
proof (induction inputs rule: rev_induct)
  case Nil
  then show ?case
    using assms(1) by simp
next
  case (snoc x xs)
  obtain T input where x: "x = (T, input)"
    by fastforce
  let ?s = "fst (gui_run E xs s0)"
  let ?t = "fst (gui_update E T input ?s)"
  have t: "fst (gui_run E (xs @ [x]) s0) = ?t"
    by (simp add: x gui_run_snoc)
  consider (ask) "input \<in> {DeleteSelectedShare, ConfirmDeleteSelectedShare}" "selected_share_id ?s = Some sid"
      "g_active_socket_path ?t = g_active_socket_path ?s"
    | (keep) "g_pending_delete_share ?s = Some sid" "input \<noteq> CancelDeleteShare"
      "g_selected_share ?s = None \<longrightarrow> g_selected_share ?t = None"
      "g_active_socket_path ?t = g_active_socket_path ?s \<or> g_selected_share ?t = None"
    using pending_after [OF snoc.prems [unfolded t]] by satx
  then show ?case
  proof cases
    case ask
    then have "asked_in E (xs @ [x]) s0 sid (g_active_socket_path ?s)"
      unfolding asked_in_def x by (intro exI [of _ xs] exI [of _ T] exI [of _ input] exI [of _ "[]"]) simp
    then show ?thesis
      using ask(3) unfolding t by blast
  next
    case keep
    then obtain p where p: "asked_in E xs s0 sid p" "g_active_socket_path ?s = p \<or> g_selected_share ?s = None"
      using snoc.IH by blast
    then have "asked_in E (xs @ [x]) s0 sid p"
      using asked_in_snoc keep(2) unfolding x by blast
    then show ?thesis
      unfolding t using keep p(2) by (intro exI [of _ p]) auto
  qed
qed

lemma delete_effects:
  assumes "SendCommand p k (DeleteShare sid) \<in> set (snd (gui_update E T input s))"
  shows "input = ConfirmDeleteSelectedShare \<and> p = g_active_socket_path s \<and> selected_share_id s = Some sid \<and>
    g_pending_delete_share s = Some sid \<and> g_pending_delete_share (fst (gui_update E T input s)) = None"
proof (cases input)
  case ConfirmDeleteSelectedShare
  then show ?thesis
    using assms by (auto simp: gui_update_def confirm_delete_selected_share_def selected_share_id_def split: option.splits if_splits)
next
  case (StartDownloadFromForm a b c d e)
  then show ?thesis
    using assms
    by (auto simp: gui_update_def start_download_from_form_def build_download_command_from_def and_then_Inr Let_def
        split: sum.splits prod.splits if_splits)
qed (use assms in \<open>auto simp: gui_update_def apply_socket_def connect_def spawn_refresh_def start_watch_def copy_selected_share_id_def
    start_seed_selected_def start_seed_path_def Let_def split: if_splits option.splits prod.splits\<close>)

text \<open>C36: The window sends the command to delete a share only when the user confirms it, while that share is selected, after the
  deletion of the same share was asked for at the same daemon and not cancelled since; and it has
  to be asked for again before another deletion is sent.\<close>

theorem deletion_was_asked_and_confirmed:
  assumes "SendCommand p k (DeleteShare sid) \<in> set (snd (gui_update E T input (fst (gui_run E inputs (gui_new T0 i)))))"
  shows "input = ConfirmDeleteSelectedShare \<and> p = g_active_socket_path (fst (gui_run E inputs (gui_new T0 i))) \<and>
    selected_share_id (fst (gui_run E inputs (gui_new T0 i))) = Some sid \<and> asked_in E inputs (gui_new T0 i) sid p \<and>
    g_pending_delete_share (fst (gui_update E T input (fst (gui_run E inputs (gui_new T0 i))))) = None"
proof -
  let ?s = "fst (gui_run E inputs (gui_new T0 i))"
  note effects = delete_effects [OF assms]
  have "g_pending_delete_share (gui_new T0 i) = None"
    by (simp add: gui_new_def Let_def split: option.split)
  then obtain p' where "asked_in E inputs (gui_new T0 i) sid p'" "g_active_socket_path ?s = p' \<or> g_selected_share ?s = None"
    using pending_was_asked effects by blast
  moreover have "g_selected_share ?s \<noteq> None"
    using effects by (auto simp: selected_share_id_def selected_share_summary_def split: option.splits)
  ultimately show ?thesis
    using effects by auto
qed

definition sample_gui_env :: gui_env where
  "sample_gui_env = \<lparr>ge_to_path = (\<lambda>s. [s]), ge_show_path = concat, ge_show_addr = show_socket_v4, ge_fixed = (\<lambda>_ _. ''1'')\<rparr>"

definition sample_moment :: moment where
  "sample_moment = \<lparr>mo_unix_secs = 3661, mo_instant_ms = 0, mo_display = False, mo_picked = None\<rparr>"

definition sample_gui_init :: gui_init where
  "sample_gui_init = \<lparr>gi_socket_path = ''/s'', gi_auth_psk = [], gi_download_parallelism = 0, gi_request_window = 16, gi_discovery_port = 37037,
     gi_discovery_timeout_ms = 3000, gi_discovery_multicast = 0, gi_startup_warning = None\<rparr>"

definition sample_gui_share :: ipc_share_summary where
  "sample_gui_share = \<lparr>is_share_id = ShareId 7, is_name = ''f'', is_completed_chunks = 1, is_total_chunks = 1, is_has_secret = True, is_mode = Some ''seeding''\<rparr>"

definition sample_deletion :: "(moment \<times> app_input) list" where
  "sample_deletion = map (Pair sample_moment)
     [GotResponse ''/s'' ListSharesRequest (Inr (Shares [sample_gui_share])), SelectShare 0, DeleteSelectedShare]"

lemma sync_all_fields [simp]:
  "g_shares (sync_existing_transfers_from_shares E s) = g_shares s" "g_active_socket_path (sync_existing_transfers_from_shares E s) = g_active_socket_path s"
  using panel_step_fields [OF step_sync_all] by auto

lemma sample_deletion_sends:
  "snd (gui_update sample_gui_env sample_moment ConfirmDeleteSelectedShare
     (fst (gui_run sample_gui_env sample_deletion (gui_new sample_moment sample_gui_init)))) =
   [SendCommand ''/s'' DeleteShareRequest (DeleteShare (ShareId 7))]"
  by (simp add: sample_deletion_def gui_update_def gui_new_def Let_def sample_gui_init_def apply_ipc_response_def response_shares_def
      request_delete_selected_share_def confirm_delete_selected_share_def selected_share_summary_def sample_gui_share_def)

theorem deletion_was_asked_and_confirmed_witness:
  "let s = fst (gui_run sample_gui_env sample_deletion (gui_new sample_moment sample_gui_init)) in
   SendCommand ''/s'' DeleteShareRequest (DeleteShare (ShareId 7)) \<in> set (snd (gui_update sample_gui_env sample_moment ConfirmDeleteSelectedShare s)) \<and>
   selected_share_id s = Some (ShareId 7) \<and> asked_in sample_gui_env sample_deletion (gui_new sample_moment sample_gui_init) (ShareId 7) ''/s''"
proof -
  have "SendCommand ''/s'' DeleteShareRequest (DeleteShare (ShareId 7)) \<in>
      set (snd (gui_update sample_gui_env sample_moment ConfirmDeleteSelectedShare
        (fst (gui_run sample_gui_env sample_deletion (gui_new sample_moment sample_gui_init)))))"
    unfolding sample_deletion_sends by simp
  then show ?thesis
    using deletion_was_asked_and_confirmed unfolding Let_def by blast
qed

section \<open>Subscriptions\<close>

lemma generation_step:
  "g_watch_generation (fst (gui_update E T input s)) = g_watch_generation s \<and>
     g_active_socket_path (fst (gui_update E T input s)) = g_active_socket_path s
   \<or> g_watch_generation (fst (gui_update E T input s)) = saturating_incr (g_watch_generation s)"
  (is "?P (fst (gui_update E T input s))")
proof -
  have by_follows: "?P t" if "follows s t" for t
    using that by (simp add: follows_def)
  show ?thesis
  proof (cases input)
    case (GotResponse p kind result)
    have "follows s (s\<lparr>g_refresh_inflight := False\<rparr>)"
      by (rule follows_panel [OF step_flags(4)])
    then show ?thesis
      using GotResponse by (intro by_follows) (auto simp: gui_update_def intro: follows_trans [OF _ follows_response])
  next
    case (GotEvent generation event)
    then show ?thesis
      by (intro by_follows) (simp add: gui_update_def follows_event)
  next
    case (AddSeedPathText draft)
    then show ?thesis
      using follows_tasks(1) [of s T "trim draft"] by (simp add: gui_update_def add_seed_path_text_def Let_def follows_def)
  qed (((rule by_follows, simp add: gui_update_def follows_tasks; fail)
       | auto simp: gui_update_def apply_socket_def connect_def spawn_refresh_def start_watch_def copy_selected_share_id_def trim_activity_def
          request_delete_selected_share_def confirm_delete_selected_share_def cancel_delete_share_def Let_def split: option.split)[1])+
qed

lemma gui_run_Cons: "fst (gui_run E ((T, input) # inputs) s) = fst (gui_run E inputs (fst (gui_update E T input s)))"
  by (simp split: prod.splits)

lemma generation_grows: "g_watch_generation s \<le> g_watch_generation (fst (gui_run E inputs s))"
proof (induction inputs arbitrary: s)
  case (Cons x inputs)
  obtain T input where x: "x = (T, input)"
    by fastforce
  have "g_watch_generation s \<le> g_watch_generation (fst (gui_update E T input s))"
    using generation_step [of E T input s] saturating_incr_le [of "g_watch_generation s"] by auto
  then show ?case
    using Cons.IH [of "fst (gui_update E T input s)"] unfolding x gui_run_Cons by (rule order_trans)
qed simp

lemma same_generation_same_socket:
  "g_watch_generation s \<noteq> - 1 \<Longrightarrow> g_watch_generation (fst (gui_run E inputs s)) = g_watch_generation s \<Longrightarrow>
    g_active_socket_path (fst (gui_run E inputs s)) = g_active_socket_path s"
proof (induction inputs arbitrary: s)
  case (Cons x inputs)
  obtain T input where x: "x = (T, input)"
    by fastforce
  let ?t = "fst (gui_update E T input s)"
  note prems = Cons.prems [unfolded x gui_run_Cons]
  have "g_watch_generation ?t \<noteq> saturating_incr (g_watch_generation s)"
  proof
    assume "g_watch_generation ?t = saturating_incr (g_watch_generation s)"
    then have "g_watch_generation s + 1 \<le> g_watch_generation s"
      using generation_grows [of ?t E inputs] prems by (simp add: saturating_incr_def)
    then show False
      using prems(1) by (simp add: inc_less_eq_self_iff_eq)
  qed
  then have "g_watch_generation ?t = g_watch_generation s" "g_active_socket_path ?t = g_active_socket_path s"
    using generation_step [of E T input s] by blast+
  then show ?case
    using prems Cons.IH [of ?t] unfolding x gui_run_Cons by simp
qed simp

lemma subscribe_effects:
  assumes "Subscribe p g \<in> set (snd (gui_update E T input s))"
  shows "g_active_socket_path (fst (gui_update E T input s)) = p \<and> g_watch_generation (fst (gui_update E T input s)) = g"
  using assms
  by (cases input)
    (auto simp: gui_update_def apply_socket_def connect_def spawn_refresh_def start_watch_def copy_selected_share_id_def
      start_seed_selected_def start_seed_path_def start_download_from_form_def confirm_delete_selected_share_def Let_def
      split: if_splits option.splits sum.splits prod.splits)

text \<open>C37: Once the window has been pointed at another daemon, nothing that the old one still delivers has an effect: events of a
  subscription made at the old socket, the end of that subscription, and answers from that socket leave the state as
  it is. (The number of the subscription must not be the last 64-bit number, at which the counter stops.)\<close>

theorem old_daemon_ignored:
  assumes "Subscribe p g \<in> set (snd (gui_update E T input s))" and "g \<noteq> - 1"
    and "t = fst (gui_run E inputs (fst (gui_update E T input s)))" and "g_active_socket_path t \<noteq> p"
  shows "gui_update E T' (GotEvent g event) t = (t, []) \<and> gui_update E T' (WatchStopped g error) t = (t, []) \<and>
    gui_update E T' (GotResponse p kind result) t = (t, [])"
proof -
  let ?s = "fst (gui_update E T input s)"
  have s: "g_active_socket_path ?s = p" "g_watch_generation ?s = g"
    using subscribe_effects [OF assms(1)] by blast+
  then have "g_watch_generation t \<noteq> g"
    using same_generation_same_socket [of ?s E inputs] assms by auto
  then show ?thesis
    using assms(4) by (auto simp: gui_update_def)
qed

theorem old_daemon_ignored_witness:
  "let E = sample_gui_env; s = gui_new sample_moment sample_gui_init; u = fst (gui_update E sample_moment StartWatch s);
       t = fst (gui_run E [(sample_moment, ApplySocketText ''/t'')] u) in
   Subscribe ''/s'' 1 \<in> set (snd (gui_update E sample_moment StartWatch s)) \<and> g_active_socket_path t = ''/t'' \<and>
   gui_update E sample_moment (GotEvent 1 ServerStopped) t = (t, [])"
proof -
  let ?s = "gui_new sample_moment sample_gui_init"
  let ?t = "fst (gui_run sample_gui_env [(sample_moment, ApplySocketText ''/t'')] (fst (gui_update sample_gui_env sample_moment StartWatch ?s)))"
  have trimmed: "trim ''/s'' = ''/s''" "trim ''/t'' = ''/t''"
    by (rule trim_solid; simp add: solid_def)+
  have sub: "Subscribe ''/s'' 1 \<in> set (snd (gui_update sample_gui_env sample_moment StartWatch ?s))"
    by (simp add: gui_update_def start_watch_def gui_new_def sample_gui_init_def trimmed saturating_incr_def Let_def)
  have moved: "g_active_socket_path ?t = ''/t''"
    by (simp add: gui_update_def start_watch_def apply_socket_def gui_new_def sample_gui_init_def trimmed saturating_incr_def Let_def)
  then have "g_active_socket_path ?t \<noteq> ''/s''"
    by simp
  then show ?thesis
    using old_daemon_ignored [OF sub _ refl, of "[(sample_moment, ApplySocketText ''/t'')]" sample_moment ServerStopped] sub moved
    unfolding Let_def by simp
qed

end
