(* ===== verification/Etle_Gui_View.thy ===== *)
theory Etle_Gui_View
  imports Etle_Gui_Safe
begin

text \<open>
  What the window shows: \<open>update_view\<close> of \<open>src/gui/app.rs\<close> and the lists of \<open>src/gui/widgets.rs\<close>. A widget is the text or the
  number it shows; a list is refilled only when the signature of its contents has changed. The signals of the
  widgets are turned into inputs by \<open>signal_input\<close>. That the lists agree with the state is proved for signatures
  that determine their contents, which takes names and paths without line feeds.
\<close>

section \<open>Rows\<close>

datatype list_row =
    Placeholder string
  | SeedRow string string
  | LibraryRow string string string rat string
  | TransferRow string string string rat bool string

definition share_fraction :: "ipc_share_summary \<Rightarrow> rat" where
  "share_fraction share =
     (if is_total_chunks share = 0 then
        (if is_mode share = Some ''seeding'' \<or> is_mode share = Some ''completed'' then 1 else 0)
      else clamp01 (of_nat (is_completed_chunks share) / of_nat (is_total_chunks share)))"

definition share_percent :: "ipc_share_summary \<Rightarrow> rat" where
  "share_percent share = share_fraction share * 100"

definition short_phase :: "string \<Rightarrow> string" where
  "short_phase detail =
     (if contains_text detail ''decrypting'' then ''decrypt''
      else if contains_text detail ''receiving'' then ''receive''
      else if contains_text detail ''encrypting'' then ''encrypt''
      else if contains_text detail ''uploading'' then ''upload''
      else ''running'')"

definition refill_seed_list :: "string list \<Rightarrow> list_row list" where
  "refill_seed_list files =
     (if files = [] then [Placeholder ''No files queued. Add files with Browse or paste a path and press Enter.'']
      else map (\<lambda>p. SeedRow (file_label p) p) files)"

definition library_row :: "gui_env \<Rightarrow> ipc_share_summary \<Rightarrow> list_row" where
  "library_row E share =
     LibraryRow (is_name share) (or_default ''unknown'' (is_mode share))
       (show_nat (is_completed_chunks share) @ ''/'' @ show_nat (is_total_chunks share) @ '' chunks'' @ middle_dot @
        ge_fixed E 1 (share_percent share) @ ''%'' @ middle_dot @ (if is_has_secret share then ''key: yes'' else ''key: no''))
       (share_fraction share) (share_id_to_string (is_share_id share))"

definition refill_library_list :: "gui_env \<Rightarrow> ipc_share_summary list \<Rightarrow> list_row list" where
  "refill_library_list E shares =
     (if shares = [] then [Placeholder ''No shares in this daemon library.''] else map (library_row E) shares)"

definition transfer_row :: "gui_env \<Rightarrow> gui_transfer \<Rightarrow> list_row" where
  "transfer_row E t =
     TransferRow (gt_label t)
       (status_icon (gt_status t) @ '' '' @ (if gt_status t = Running then short_phase (gt_detail t) else status_label (gt_status t)))
       (compact_line E t) (transfer_fraction t)
       (gt_status t = Running \<and> gt_total_bytes t = 0 \<and> gt_total_chunks t = 0) (gt_detail t)"

definition refill_transfer_list :: "gui_env \<Rightarrow> gui_transfer list \<Rightarrow> list_row list" where
  "refill_transfer_list E transfers =
     (if transfers = [] then [Placeholder ''No transfer yet.''] else map (transfer_row E) transfers)"

section \<open>Signatures\<close>

definition newline :: string where "newline = [CHR 0x0A]"

definition show_bool :: "bool \<Rightarrow> string" where
  "show_bool b = (if b then ''true'' else ''false'')"

definition seed_signature :: "string list \<Rightarrow> string" where
  "seed_signature files = join_strings newline files"

definition share_line :: "ipc_share_summary \<Rightarrow> string" where
  "share_line share =
     join_strings '':'' [share_id_to_string (is_share_id share), is_name share, or_default [] (is_mode share),
       show_nat (is_completed_chunks share), show_nat (is_total_chunks share), show_bool (is_has_secret share)]"

definition library_signature :: "ipc_share_summary list \<Rightarrow> string" where
  "library_signature shares = join_strings newline (map share_line shares)"

definition transfer_line :: "gui_transfer \<Rightarrow> string" where
  "transfer_line t =
     join_strings '':'' [gt_id t, kind_label (gt_kind t), gt_label t, status_label (gt_status t),
       or_default [] (map_option share_id_to_string (gt_share_id t)), show_nat (gt_completed_chunks t), show_nat (gt_total_chunks t),
       show_nat (unat (gt_bytes_done t)), show_nat (unat (gt_total_bytes t)), show_nat (unat (gt_bytes_per_second t)), gt_detail t]"

definition transfer_signature :: "gui_transfer list \<Rightarrow> string" where
  "transfer_signature transfers = join_strings newline (map transfer_line transfers)"

section \<open>Widgets\<close>

record gui_widgets =
  w_status_label :: string
  w_library_list :: "list_row list"
  w_detail_buffer :: string
  w_delete_confirm_visible :: bool
  w_delete_confirm_label :: string
  w_seed_list :: "list_row list"
  w_seed_chunk_spin :: rat
  w_parallel_spin :: rat
  w_request_window_spin :: rat
  w_discovery_port_spin :: rat
  w_discovery_timeout_spin :: rat
  w_resume_check :: bool
  w_transfer_list :: "list_row list"
  w_progress_bar :: rat
  w_pulsing :: bool
  w_progress_label :: string
  w_activity_buffer :: string
  w_auto_refresh_check :: bool
  w_clear_activity_check :: bool
  w_refresh_interval_spin :: rat
  w_activity_limit_spin :: rat
  w_library_signature :: string
  w_seed_signature :: string
  w_transfer_signature :: string
  w_detail_text :: string
  w_activity_text :: string

definition set_spin_if_changed :: "rat \<Rightarrow> rat \<Rightarrow> rat" where
  "set_spin_if_changed shown value = (if 1 / 2 ^ 52 < \<bar>shown - value\<bar> then value else shown)"

definition selected_share_detail :: "gui_env \<Rightarrow> etle_gui \<Rightarrow> string" where
  "selected_share_detail E s = (case selected_share_summary s of
      None \<Rightarrow> ''select a share''
    | Some share \<Rightarrow>
        let percent = (if is_total_chunks share = 0 then (if share_is_complete share then 100 else 0)
              else of_nat (is_completed_chunks share) / of_nat (is_total_chunks share) * 100);
            missing = is_total_chunks share - is_completed_chunks share in
        ''Name       : '' @ is_name share @ newline @ ''Share ID   : '' @ share_id_to_string (is_share_id share) @ newline @
        ''Mode       : '' @ or_default ''unknown'' (is_mode share) @ newline @
        ''Chunks     : '' @ show_nat (is_completed_chunks share) @ ''/'' @ show_nat (is_total_chunks share) @ '' ('' @ ge_fixed E 2 percent @ ''%)'' @ newline @
        ''Missing    : '' @ show_nat missing @ newline @
        ''Secret key : '' @ (if is_has_secret share then ''yes'' else ''no''))"

definition status_text :: "etle_gui \<Rightarrow> string" where
  "status_text s =
     (let status_detail = (if g_status s = [] \<or> g_status s \<in> {''online'', ''offline'', ''idle''} \<or> suffix '' share(s)'' (g_status s)
            then [] else middle_dot @ g_status s) in
      (if g_connected s then ''online'' else ''offline'') @ middle_dot @ show_nat (length (g_shares s)) @ '' share(s)'' @ status_detail @
      (if g_watching s then middle_dot @ ''events on'' else []))"

definition delete_question :: "string \<Rightarrow> string" where
  "delete_question name = ''Delete '' @ [CHR 0x22] @ name @ [CHR 0x22] @
     '' from the local ETLE library? This removes ETLE metadata and encrypted chunks. Original source/output files are not touched.''"

definition update_view :: "gui_env \<Rightarrow> etle_gui \<Rightarrow> gui_widgets \<Rightarrow> gui_widgets" where
  "update_view E s w =
     (let w = w\<lparr>w_status_label := status_text s,
            w_seed_chunk_spin := set_spin_if_changed (w_seed_chunk_spin w) (of_nat (g_seed_chunk_size s)),
            w_parallel_spin := set_spin_if_changed (w_parallel_spin w) (of_nat (g_download_parallelism s)),
            w_request_window_spin := set_spin_if_changed (w_request_window_spin w) (of_nat (g_download_request_window s)),
            w_discovery_port_spin := set_spin_if_changed (w_discovery_port_spin w) (of_nat (unat (g_discovery_port s))),
            w_discovery_timeout_spin := set_spin_if_changed (w_discovery_timeout_spin w) (of_nat (unat (g_discovery_timeout_ms s))),
            w_resume_check := g_resume s, w_auto_refresh_check := g_auto_refresh s, w_clear_activity_check := g_clear_activity_on_task s,
            w_refresh_interval_spin := set_spin_if_changed (w_refresh_interval_spin w) (of_nat (unat (g_refresh_interval_secs s))),
            w_activity_limit_spin := set_spin_if_changed (w_activity_limit_spin w) (of_nat (g_activity_limit s))\<rparr>;
          seed_sig = seed_signature (g_seed_files s);
          w = (if w_seed_signature w \<noteq> seed_sig then w\<lparr>w_seed_list := refill_seed_list (g_seed_files s), w_seed_signature := seed_sig\<rparr> else w);
          library_sig = library_signature (g_shares s);
          w = (if w_library_signature w \<noteq> library_sig
               then w\<lparr>w_library_list := refill_library_list E (g_shares s), w_library_signature := library_sig\<rparr> else w);
          detail_text = selected_share_detail E s;
          w = (if w_detail_text w \<noteq> detail_text then w\<lparr>w_detail_buffer := detail_text, w_detail_text := detail_text\<rparr> else w);
          w = (case pending_delete_share_summary s of
              Some share \<Rightarrow> w\<lparr>w_delete_confirm_visible := True, w_delete_confirm_label := delete_question (is_name share)\<rparr>
            | None \<Rightarrow> w\<lparr>w_delete_confirm_visible := False, w_delete_confirm_label := []\<rparr>);
          transfer_sig = transfer_signature (g_transfers s);
          w = (if w_transfer_signature w \<noteq> transfer_sig
               then w\<lparr>w_transfer_list := refill_transfer_list E (g_transfers s), w_transfer_signature := transfer_sig\<rparr> else w);
          w = w\<lparr>w_progress_bar := g_progress_fraction s,
            w_pulsing := (g_progress_fraction s = 0 \<and> list_ex (\<lambda>t. gt_status t = Running \<and> gt_total_bytes t = 0) (g_transfers s)),
            w_progress_label := g_latest_progress s\<rparr>;
          activity_text = join_strings newline (g_activity s) in
      if w_activity_text w \<noteq> activity_text then w\<lparr>w_activity_buffer := activity_text, w_activity_text := activity_text\<rparr> else w)"

text \<open>The widgets as \<open>init\<close> makes them, and the inputs with which the window starts.\<close>

definition initial_widgets :: "etle_gui \<Rightarrow> gui_widgets" where
  "initial_widgets s = \<lparr>w_status_label = [], w_library_list = [], w_detail_buffer = [], w_delete_confirm_visible = False,
     w_delete_confirm_label = [], w_seed_list = [], w_seed_chunk_spin = of_nat DEFAULT_CHUNK_SIZE,
     w_parallel_spin = of_nat (g_download_parallelism s), w_request_window_spin = of_nat (g_download_request_window s),
     w_discovery_port_spin = of_nat (unat (g_discovery_port s)), w_discovery_timeout_spin = of_nat (unat (g_discovery_timeout_ms s)),
     w_resume_check = g_resume s, w_transfer_list = [], w_progress_bar = 0, w_pulsing = False, w_progress_label = ''idle'',
     w_activity_buffer = [], w_auto_refresh_check = g_auto_refresh s, w_clear_activity_check = g_clear_activity_on_task s,
     w_refresh_interval_spin = of_nat (unat (g_refresh_interval_secs s)), w_activity_limit_spin = of_nat (g_activity_limit s),
     w_library_signature = [], w_seed_signature = [], w_transfer_signature = [], w_detail_text = [], w_activity_text = []\<rparr>"

definition initial_inputs :: "app_input list" where
  "initial_inputs = [Connect, Refresh, StartWatch]"

datatype widget_signal = SocketApplied string | PingClicked | RefreshClicked | WatchClicked
  | LibraryRowSelected "int option" | SeedRowSelected "int option" | SeedChunkChanged int | ParallelChanged int | RequestWindowChanged int
  | DiscoveryPortChanged int | DiscoveryTimeoutChanged int | ResumeToggled bool | AutoRefreshToggled bool | ClearActivityToggled bool
  | RefreshIntervalChanged int | ActivityLimitChanged int

definition row_input :: "(nat \<Rightarrow> app_input) \<Rightarrow> int option \<Rightarrow> app_input option" where
  "row_input select row = (case row of Some index \<Rightarrow> if 0 \<le> index then Some (select (nat index)) else None | None \<Rightarrow> None)"

fun signal_input :: "widget_signal \<Rightarrow> app_input option" where
  "signal_input (SocketApplied entry) = Some (ApplySocketText entry)"
| "signal_input PingClicked = Some Connect"
| "signal_input RefreshClicked = Some Refresh"
| "signal_input WatchClicked = Some StartWatch"
| "signal_input (LibraryRowSelected row) = row_input SelectShare row"
| "signal_input (SeedRowSelected row) = row_input SelectSeedFile row"
| "signal_input (SeedChunkChanged v) = Some (SetSeedChunkSize (nat (max v 1)))"
| "signal_input (ParallelChanged v) = Some (SetParallelism (nat (max v 0)))"
| "signal_input (RequestWindowChanged v) = Some (SetRequestWindow (nat (max v 1)))"
| "signal_input (DiscoveryPortChanged v) = Some (SetDiscoveryPort (of_int (max 1 (min v 65535))))"
| "signal_input (DiscoveryTimeoutChanged v) = Some (SetDiscoveryTimeout (of_int (max v 1)))"
| "signal_input (ResumeToggled b) = Some (SetResume b)"
| "signal_input (AutoRefreshToggled b) = Some (SetAutoRefresh b)"
| "signal_input (ClearActivityToggled b) = Some (SetClearActivityOnTask b)"
| "signal_input (RefreshIntervalChanged v) = Some (SetRefreshInterval (of_int (max v 1)))"
| "signal_input (ActivityLimitChanged v) = Some (SetActivityLimit (nat (max v 20)))"

text \<open>The buttons and entries of the pages.\<close>

datatype library_page_signal = CopyClicked | DeleteClicked | CancelDeleteClicked | ConfirmDeleteClicked | ClearCompletedClicked

fun library_page_input :: "library_page_signal \<Rightarrow> app_input" where
  "library_page_input CopyClicked = CopySelectedShareId"
| "library_page_input DeleteClicked = DeleteSelectedShare"
| "library_page_input CancelDeleteClicked = CancelDeleteShare"
| "library_page_input ConfirmDeleteClicked = ConfirmDeleteSelectedShare"
| "library_page_input ClearCompletedClicked = ClearFinishedTransfers"

datatype seed_page_signal = SeedEntryAdded string | BrowseClicked | SeedSelectedClicked | RemoveClicked | ClearListClicked

fun seed_page_input :: "seed_page_signal \<Rightarrow> app_input" where
  "seed_page_input (SeedEntryAdded entry) = AddSeedPathText entry"
| "seed_page_input BrowseClicked = BrowseSeedFiles"
| "seed_page_input SeedSelectedClicked = StartSeedSelected"
| "seed_page_input RemoveClicked = RemoveSelectedSeedFile"
| "seed_page_input ClearListClicked = ClearSeedFiles"

definition download_page_input :: "string \<Rightarrow> string \<Rightarrow> string \<Rightarrow> string \<Rightarrow> string \<Rightarrow> app_input" where
  "download_page_input sid peers output_text auth_psk multicast = StartDownloadFromForm sid peers output_text auth_psk multicast"

datatype activity_page_signal = ClearLogClicked | ClearFinishedClicked

fun activity_page_input :: "activity_page_signal \<Rightarrow> app_input" where
  "activity_page_input ClearLogClicked = ClearLog"
| "activity_page_input ClearFinishedClicked = ClearFinishedTransfers"

datatype settings_page_signal = SettingsApplied string string | SettingsPingClicked | SettingsRefreshClicked | SettingsWatchClicked

fun settings_page_input :: "settings_page_signal \<Rightarrow> app_input" where
  "settings_page_input (SettingsApplied socket_entry psk_entry) = ApplySettings socket_entry psk_entry"
| "settings_page_input SettingsPingClicked = Connect"
| "settings_page_input SettingsRefreshClicked = Refresh"
| "settings_page_input SettingsWatchClicked = StartWatch"

section \<open>Signatures determine the lists\<close>

lemma split_at_first: "c \<notin> set a \<Longrightarrow> c \<notin> set a' \<Longrightarrow> a @ c # b = a' @ c # b' \<Longrightarrow> a = a' \<and> b = b'"
proof (induction a arbitrary: a')
  case Nil
  then show ?case
    by (cases a') auto
next
  case (Cons x a)
  then show ?case
    by (cases a') auto
qed

lemma split_at_last:
  assumes "c \<notin> set b" and "c \<notin> set b'" and "a @ c # b = a' @ c # b'"
  shows "a = a'" and "b = b'"
proof -
  have "rev b @ c # rev a = rev b' @ c # rev a'"
    using assms(3) by (metis append.assoc append_Cons append_Nil rev.simps(2) rev_append)
  then have "rev b = rev b' \<and> rev a = rev a'"
    using split_at_first assms(1,2) by (metis set_rev)
  then show "a = a'" and "b = b'"
    by simp_all
qed

lemma join_strings_Cons2: "join_strings sep (s # t # ss) = s @ sep @ join_strings sep (t # ss)"
  by simp

lemma join_strings_eq:
  assumes "\<And>s. s \<in> set xs \<union> set ys \<Longrightarrow> s \<noteq> [] \<and> c \<notin> set s" and "join_strings [c] xs = join_strings [c] ys"
  shows "xs = ys"
  using assms
proof (induction xs arbitrary: ys)
  case Nil
  then show ?case
    by (cases ys) auto
next
  case (Cons x xs)
  then have x: "x \<noteq> []" "c \<notin> set x" and ys: "ys \<noteq> []"
    by auto
  then obtain y ys' where y: "ys = y # ys'" "y \<noteq> []" "c \<notin> set y"
    using Cons.prems(1) by (cases ys) auto
  show ?case
  proof (cases "xs = [] \<or> ys' = []")
    case True
    have several: "zs \<noteq> [] \<Longrightarrow> c \<in> set (join_strings [c] (z # zs))" for z zs
      by (cases zs) simp_all
    have "c \<notin> set (join_strings [c] (x # xs)) \<or> c \<notin> set (join_strings [c] (y # ys'))"
      using True x y by auto
    then have "\<not> (xs \<noteq> [] \<or> ys' \<noteq> [])"
      using several [of xs x] several [of ys' y] unfolding y(1) [symmetric] Cons.prems(2) by blast
    then have "xs = []" "ys' = []"
      by blast+
    then show ?thesis
      using Cons.prems(2) y(1) by simp
  next
    case False
    then obtain t ts u us where "xs = t # ts" "ys' = u # us"
      by (meson neq_Nil_conv)
    then have "x @ c # join_strings [c] xs = y @ c # join_strings [c] ys'"
      using Cons.prems(2) y(1) by (simp add: join_strings_Cons2)
    from split_at_first [OF x(2) y(3) this] have "x = y" and tails: "join_strings [c] xs = join_strings [c] ys'"
      by simp_all
    moreover have "xs = ys'"
      by (rule Cons.IH [OF _ tails]) (use Cons.prems(1) y(1) in auto)
    ultimately show ?thesis
      using y(1) by simp
  qed
qed

definition clean_share :: "ipc_share_summary \<Rightarrow> bool" where
  "clean_share share \<longleftrightarrow> CHR 0x0A \<notin> set (is_name share) \<and>
     (case is_mode share of Some mode \<Rightarrow> mode \<noteq> [] \<and> CHR '':'' \<notin> set mode \<and> CHR 0x0A \<notin> set mode | None \<Rightarrow> True)"

lemma show_nat_char: "c \<in> set (show_nat n) \<Longrightarrow> c \<noteq> CHR '':'' \<and> c \<noteq> CHR 0x0A"
proof -
  assume "c \<in> set (show_nat n)"
  then obtain d where "d < 10" "c = digit_char d"
    using show_nat_digits by blast
  then have "of_char c = 48 + d"
    by (simp add: digit_char_def)
  then show ?thesis
    using \<open>d < 10\<close> by auto
qed

lemma share_id_string:
  "length (share_id_to_string i) = 64" "share_id_to_string i = share_id_to_string j \<longleftrightarrow> i = j"
  by (cases i; simp add: length_hex_string) (cases i; cases j; simp add: hex_string_inj)

lemma share_line_unfold:
  "share_line share = share_id_to_string (is_share_id share) @ CHR '':'' # ((((is_name share @ CHR '':'' # or_default [] (is_mode share)) @
     CHR '':'' # show_nat (is_completed_chunks share)) @ CHR '':'' # show_nat (is_total_chunks share)) @ CHR '':'' # show_bool (is_has_secret share))"
  by (simp add: share_line_def)

lemma show_bool_char: "c \<in> set (show_bool b) \<Longrightarrow> c \<noteq> CHR '':'' \<and> c \<noteq> CHR 0x0A" and show_bool_inj: "show_bool a = show_bool b \<longleftrightarrow> a = b"
  by (auto simp: show_bool_def split: if_splits)

lemma share_line_inj:
  assumes "clean_share a" and "clean_share b" and "share_line a = share_line b"
  shows "a = b"
proof -
  have mode: "CHR '':'' \<notin> set (or_default [] (is_mode x))" if "clean_share x" for x
    using that by (auto simp: clean_share_def or_default_def split: option.splits)
  have "share_id_to_string (is_share_id a) = share_id_to_string (is_share_id b)"
    using arg_cong [OF assms(3), of "take 64"] by (simp add: share_line_unfold share_id_string(1))
  then have ids: "is_share_id a = is_share_id b"
    by (simp add: share_id_string(2))
  note rest = assms(3) [unfolded share_line_unfold ids same_append_eq list.inject, simplified simp_thms]
  note secret = split_at_last [OF _ _ rest]
  have no_colon: "CHR '':'' \<notin> set (show_bool x)" "CHR '':'' \<notin> set (show_nat n)" for x n
    using show_bool_char show_nat_char by blast+
  note total = split_at_last [OF no_colon(2) no_colon(2) secret(1) [OF no_colon(1) no_colon(1)]]
  note completed = split_at_last [OF no_colon(2) no_colon(2) total(1)]
  note name = split_at_last [OF mode [OF assms(1)] mode [OF assms(2)] completed(1)]
  have "is_mode a = is_mode b"
    using name(2) assms(1,2) by (auto simp: clean_share_def or_default_def split: option.splits)
  moreover have "is_has_secret a = is_has_secret b"
    using secret(2) no_colon(1) by (simp add: show_bool_inj)
  ultimately show ?thesis
    using ids name(1) completed(2) total(2) by (intro ipc_share_summary.equality) simp_all
qed

lemma hex_digit_char: "d < 16 \<Longrightarrow> hex_digit d \<noteq> CHR 0x0A"
proof
  assume "d < 16" and "hex_digit d = CHR 0x0A"
  then have "(of_char (hex_digit d) :: nat) = 10"
    by simp
  then show False
    using \<open>d < 16\<close> by (simp add: hex_digit_def split: if_splits)
qed

lemma hex_string_char: "CHR 0x0A \<notin> set (hex_string bs)"
proof -
  have "unat b div 16 < 16" "unat b mod 16 < 16" for b :: byte
    using unat_byte_bound [of b] by simp_all
  then have "CHR 0x0A \<notin> set (hex_byte b)" for b
    using hex_digit_char [of "unat b div 16"] hex_digit_char [of "unat b mod 16"] by (simp add: hex_byte_def)
  then show ?thesis
    by (auto simp: hex_string_def)
qed

lemma share_line_clean: "clean_share share \<Longrightarrow> share_line share \<noteq> [] \<and> CHR 0x0A \<notin> set (share_line share)"
proof -
  assume clean: "clean_share share"
  have "CHR 0x0A \<notin> set (share_id_to_string (is_share_id share))"
    by (cases "is_share_id share") (simp add: hex_string_char)
  then show ?thesis
    using clean show_nat_char show_bool_char
    by (auto simp: share_line_unfold clean_share_def or_default_def split: option.splits)
qed

lemma library_signature_inj:
  assumes "\<forall>share \<in> set xs \<union> set ys. clean_share share" and "library_signature xs = library_signature ys"
  shows "xs = ys"
proof -
  have "map share_line xs = map share_line ys"
    by (rule join_strings_eq [of _ _ "CHR 0x0A"])
      (use assms share_line_clean in \<open>auto simp: library_signature_def newline_def\<close>)
  moreover have "inj_on share_line (set xs \<union> set ys)"
    using assms(1) share_line_inj by (blast intro: inj_onI)
  ultimately show ?thesis
    by (simp add: inj_on_map_eq_map)
qed

lemma seed_signature_inj:
  assumes "\<forall>p \<in> set xs \<union> set ys. p \<noteq> [] \<and> CHR 0x0A \<notin> set p" and "seed_signature xs = seed_signature ys"
  shows "xs = ys"
  using join_strings_eq [of xs ys "CHR 0x0A"] assms by (simp add: seed_signature_def newline_def)

section \<open>The window shows its state\<close>

text \<open>After every input the view is updated.\<close>

fun window_run :: "gui_env \<Rightarrow> (moment \<times> app_input) list \<Rightarrow> etle_gui \<Rightarrow> gui_widgets \<Rightarrow> gui_widgets" where
  "window_run E [] s w = w"
| "window_run E ((T, input) # inputs) s w =
     (let s' = fst (gui_update E T input s) in window_run E inputs s' (update_view E s' w))"

lemma window_run_append:
  "window_run E (xs @ ys) s w = window_run E ys (fst (gui_run E xs s)) (window_run E xs s w)"
  by (induction xs arbitrary: s w) (auto simp: Let_def split: prod.splits)

text \<open>A list that is out of date only by showing nothing for nothing: it was never filled.\<close>

definition lists_shown :: "gui_env \<Rightarrow> etle_gui \<Rightarrow> gui_widgets \<Rightarrow> bool" where
  "lists_shown E s w \<longleftrightarrow>
     w_library_signature w = library_signature (g_shares s) \<and>
     (w_library_list w = refill_library_list E (g_shares s) \<or> g_shares s = [] \<and> w_library_list w = []) \<and>
     w_seed_signature w = seed_signature (g_seed_files s) \<and>
     (w_seed_list w = refill_seed_list (g_seed_files s) \<or> g_seed_files s = [] \<and> w_seed_list w = []) \<and>
     w_detail_buffer w = w_detail_text w \<and> w_activity_buffer w = w_activity_text w"

definition clean_state :: "etle_gui \<Rightarrow> bool" where
  "clean_state s \<longleftrightarrow> (\<forall>share \<in> set (g_shares s). clean_share share) \<and> (\<forall>p \<in> set (g_seed_files s). p \<noteq> [] \<and> CHR 0x0A \<notin> set p)"

lemma update_view_texts:
  "w_detail_buffer (update_view E t w) = (if w_detail_text w \<noteq> selected_share_detail E t then selected_share_detail E t else w_detail_buffer w)"
  "w_detail_text (update_view E t w) = selected_share_detail E t"
  "w_activity_buffer (update_view E t w) =
     (if w_activity_text w \<noteq> join_strings newline (g_activity t) then join_strings newline (g_activity t) else w_activity_buffer w)"
  "w_activity_text (update_view E t w) = join_strings newline (g_activity t)"
  by (simp_all add: update_view_def Let_def split: option.split)

lemma update_view_lists:
  "w_library_signature (update_view E t w) = library_signature (g_shares t)"
  "w_library_list (update_view E t w) =
     (if w_library_signature w \<noteq> library_signature (g_shares t) then refill_library_list E (g_shares t) else w_library_list w)"
  "w_seed_signature (update_view E t w) = seed_signature (g_seed_files t)"
  "w_seed_list (update_view E t w) =
     (if w_seed_signature w \<noteq> seed_signature (g_seed_files t) then refill_seed_list (g_seed_files t) else w_seed_list w)"
  by (simp_all add: update_view_def Let_def split: option.split)

lemma update_view_shows:
  assumes "lists_shown E s w" and "clean_state s" and "clean_state t"
  shows "lists_shown E t (update_view E t w)"
proof -
  have sigs: "w_library_signature w = library_signature (g_shares s)" "w_seed_signature w = seed_signature (g_seed_files s)"
    and old: "w_library_list w = refill_library_list E (g_shares s) \<or> g_shares s = [] \<and> w_library_list w = []"
      "w_seed_list w = refill_seed_list (g_seed_files s) \<or> g_seed_files s = [] \<and> w_seed_list w = []"
    and texts: "w_detail_buffer w = w_detail_text w" "w_activity_buffer w = w_activity_text w"
    using assms(1) unfolding lists_shown_def by blast+
  have shares: "library_signature (g_shares s) = library_signature (g_shares t) \<Longrightarrow> g_shares s = g_shares t"
    by (rule library_signature_inj) (use assms(2,3) in \<open>auto simp: clean_state_def\<close>)
  have files: "seed_signature (g_seed_files s) = seed_signature (g_seed_files t) \<Longrightarrow> g_seed_files s = g_seed_files t"
    by (rule seed_signature_inj) (use assms(2,3) in \<open>auto simp: clean_state_def\<close>)
  have "w_library_list (update_view E t w) = refill_library_list E (g_shares t) \<or> g_shares t = [] \<and> w_library_list (update_view E t w) = []"
  proof (cases "library_signature (g_shares s) = library_signature (g_shares t)")
    case True
    then show ?thesis
      using old(1) unfolding update_view_lists sigs shares [OF True, symmetric] by simp
  qed (simp add: update_view_lists sigs)
  moreover have "w_seed_list (update_view E t w) = refill_seed_list (g_seed_files t) \<or> g_seed_files t = [] \<and> w_seed_list (update_view E t w) = []"
  proof (cases "seed_signature (g_seed_files s) = seed_signature (g_seed_files t)")
    case True
    then show ?thesis
      using old(2) unfolding update_view_lists sigs files [OF True, symmetric] by simp
  qed (simp add: update_view_lists sigs)
  ultimately show ?thesis
    unfolding lists_shown_def by (simp add: update_view_lists(1,3) update_view_texts texts)
qed

lemma lists_shown_initially: "lists_shown E (gui_new T i) (initial_widgets (gui_new T i))"
proof -
  have "g_shares (gui_new T i) = []" "g_seed_files (gui_new T i) = []"
    by (simp_all add: gui_new_def Let_def panel_step_fields(4) [OF step_push_log] split: option.split)
  then show ?thesis
    by (simp add: lists_shown_def initial_widgets_def library_signature_def seed_signature_def)
qed

lemma window_run_shows:
  assumes "lists_shown E s w" and "clean_state s" and "\<forall>k \<le> length inputs. clean_state (fst (gui_run E (take k inputs) s))"
  shows "lists_shown E (fst (gui_run E inputs s)) (window_run E inputs s w)"
  using assms
proof (induction inputs arbitrary: s w)
  case (Cons x inputs)
  obtain T input where x: "x = (T, input)"
    by fastforce
  let ?t = "fst (gui_update E T input s)"
  have clean: "clean_state (fst (gui_run E (take k inputs) ?t))" if "k \<le> length inputs" for k
    using Cons.prems(3) [rule_format, of "Suc k"] that gui_run_Cons [of E T input "take k inputs" s] by (simp only: take_Suc_Cons x length_Cons Suc_le_mono)
  have "clean_state ?t"
    using clean [of 0] by simp
  then have "lists_shown E (fst (gui_run E inputs ?t)) (window_run E inputs ?t (update_view E ?t w))"
    using clean update_view_shows [OF Cons.prems(1,2)] by (intro Cons.IH) blast+
  then show ?case
    by (simp only: x gui_run_Cons window_run.simps Let_def)
qed simp

lemma update_view_question:
  "w_delete_confirm_visible (update_view E t w) \<longleftrightarrow> pending_delete_share_summary t \<noteq> None"
  "pending_delete_share_summary t = Some share \<Longrightarrow> w_delete_confirm_label (update_view E t w) = delete_question (is_name share)"
  by (auto simp: update_view_def Let_def split: option.split)

lemma clean_state_start: "clean_state (gui_new T i)"
  by (simp add: clean_state_def gui_new_def Let_def panel_step_fields(1,4) [OF step_push_log] split: option.split)



end
