(* ===== verification/Etle_Programs.thy ===== *)
theory Etle_Programs
  imports Etle_Gui_Model Etle_Daemon_Safe
begin

text \<open>
  The programs: \<open>src/bin/etled.rs\<close>, the daemon, \<open>src/bin/etle-cli.rs\<close>, its command line client, and \<open>src/build_info.rs\<close>. Both
  resolve their settings from the command line, the environment and the configuration; the client then sends
  one command and prints the answer, the daemon starts its servers. The arguments are the values that the
  command line parser returns; what a program prints is a list of lines.
\<close>

datatype program_error = ProgConfig config_error | ProgFile file_error | ProgIpc ipc_error | ProgNetwork network_error | ProgMessage string

section \<open>Build information\<close>

text \<open>The texts that the build script sets.\<close>

record build_env =
  be_version :: string
  be_commit :: string
  be_branch :: string
  be_tag :: string
  be_commit_count :: string
  be_commit_message :: string
  be_dirty :: string
  be_date :: string
  be_profile :: string
  be_target :: string
  be_host :: string
  be_rustc :: string
  be_ci :: string
  be_repository :: string
  be_run_id :: string

definition short_commit :: "build_env \<Rightarrow> string" where
  "short_commit B = (if 7 \<le> length (be_commit B) then take 7 (be_commit B) else be_commit B)"

definition version_abi_string :: "build_env \<Rightarrow> string" where
  "version_abi_string B =
     short_commit B @ (if be_dirty B = ''clean'' then [] else ''_dirty'') @ ''_wire'' @ show_nat (unat ETLE_WIRE_PROTOCOL_VERSION) @
     ''_desc'' @ show_nat (unat ETLE_DESCRIPTOR_VERSION)"

definition long_version :: "build_env \<Rightarrow> string \<Rightarrow> string list" where
  "long_version B binary =
     [binary @ '' '' @ be_version B @ '' built from branch '' @ be_branch B @ '' at commit '' @ be_commit B @ '' '' @ be_dirty B @
        '' ('' @ be_commit_message B @ '').'',
      ''Date: '' @ be_date B, ''Tag: '' @ be_tag B @ '', commits: '' @ be_commit_count B, [],
      ''Build:'', ''Profile: '' @ be_profile B, ''Target: '' @ be_target B, ''Host: '' @ be_host B, ''Rustc: '' @ be_rustc B,
      ''CI: '' @ be_ci B, ''Repository: '' @ be_repository B, ''Run ID: '' @ be_run_id B, [],
      ''Protocol:'', ''Wire protocol: '' @ show_nat (unat ETLE_WIRE_PROTOCOL_VERSION), ''Descriptor format: '' @ show_nat (unat ETLE_DESCRIPTOR_VERSION),
      ''Capabilities: '' @ CAPABILITY_RAW_CHUNK_FRAME @ '', '' @ CAPABILITY_WINDOWED_REQUESTS, [],
      ''Version ABI string: '' @ version_abi_string B]"

definition args_request_version :: "string list \<Rightarrow> bool" where
  "args_request_version args =
     (let filtered = filter (\<lambda>arg. arg \<notin> {''-v'', ''--verbose''}) args in
      length filtered = 1 \<and> hd filtered \<in> {''--version'', ''-V'', ''version'', ''build-info'', ''--build-info''})"

section \<open>The command line client\<close>

record cli_download =
  cd_peer :: "socket_addr list"
  cd_share_id :: share_id
  cd_output :: "path option"
  cd_resume :: bool
  cd_no_resume :: bool
  cd_parallel :: "nat option"
  cd_request_window :: "nat option"
  cd_auth_psk :: "string option"
  cd_discovery_port :: "u16 option"
  cd_discovery_timeout_ms :: "u64 option"
  cd_discovery_multicast :: "ipv4_addr option"

datatype daemon_command = DaemonPing | DaemonList | DaemonShutdown | DaemonWatch

datatype cli_command = CliVersion | CliSeed path nat | CliList | CliDelete share_id | CliDownload cli_download | CliDaemon daemon_command

record cli =
  cl_verbose :: bool
  cl_ipc_socket :: "string option"
  cl_command :: cli_command

definition cli_socket_path :: "bool \<Rightarrow> environment \<Rightarrow> etle_config \<Rightarrow> cli \<Rightarrow> string" where
  "cli_socket_path windows env c a =
     (let library_root = or_default (default_library_root windows env) (config_library_root env c) in
      or_default (default_ipc_socket_path windows library_root) (or_else (cl_ipc_socket a) (config_ipc_socket env c)))"

definition cli_download_command :: "environment \<Rightarrow> etle_config \<Rightarrow> cli_download \<Rightarrow> ipc_command" where
  "cli_download_command env c a =
     (let d = \<lparr>id_share_id = cd_share_id a, id_peers = cd_peer a, id_output = cd_output a,
            id_parallelism = or_default (config_parallel c) (cd_parallel a),
            id_request_window = or_default (config_request_window c) (cd_request_window a),
            id_discovery_port = or_default (config_discovery_port c) (cd_discovery_port a),
            id_discovery_timeout_ms = or_default (config_discovery_timeout_ms c) (cd_discovery_timeout_ms a),
            id_discovery_multicast = or_default (config_discovery_multicast c) (cd_discovery_multicast a),
            id_auth_psk = or_else (or_else (cd_auth_psk a) (env ''ETLE_AUTH_PSK'')) (config_auth_psk c)\<rparr> in
      if cd_no_resume a then DownloadFresh d else Download d)"

fun daemon_ipc_command :: "daemon_command \<Rightarrow> ipc_command" where
  "daemon_ipc_command DaemonPing = Ping"
| "daemon_ipc_command DaemonList = ListShares"
| "daemon_ipc_command DaemonShutdown = Shutdown"
| "daemon_ipc_command DaemonWatch = SubscribeEvents"

text \<open>\<open>None\<close> is the command that only prints the version.\<close>

definition cli_ipc_command :: "environment \<Rightarrow> etle_config \<Rightarrow> cli_command \<Rightarrow> ipc_command option" where
  "cli_ipc_command env c command = (case command of
      CliVersion \<Rightarrow> None
    | CliSeed input chunk_size \<Rightarrow> Some (SeedFile input chunk_size)
    | CliList \<Rightarrow> Some ListShares
    | CliDelete sid \<Rightarrow> Some (DeleteShare sid)
    | CliDownload a \<Rightarrow> Some (cli_download_command env c a)
    | CliDaemon d \<Rightarrow> Some (daemon_ipc_command d))"

definition quote :: "string \<Rightarrow> string" where
  "quote s = [CHR 0x22] @ s @ [CHR 0x22]"

definition print_share :: "ipc_share_summary \<Rightarrow> string" where
  "print_share share =
     ''[library] '' @ share_id_to_string (is_share_id share) @ ''  '' @ or_default ''unknown'' (is_mode share) @ ''  chunks='' @
     show_nat (is_completed_chunks share) @ ''/'' @ show_nat (is_total_chunks share) @ ''  '' @
     (if is_has_secret share then ''key=yes'' else ''key=no'') @ ''  name='' @ quote (is_name share)"

definition print_shares :: "ipc_share_summary list \<Rightarrow> string list" where
  "print_shares shares = (if shares = [] then [''[library] no shares found''] else map print_share shares)"

definition print_response :: "(path \<Rightarrow> string) \<Rightarrow> ipc_response \<Rightarrow> (program_error, string list) result" where
  "print_response show_path response = (case response of
      Pong \<Rightarrow> Inr [''[daemon] pong'']
    | Ack message \<Rightarrow> Inr [''[daemon] '' @ message]
    | Shares shares \<Rightarrow> Inr (print_shares shares)
    | ShareAdded share \<Rightarrow> Inr [''[daemon] share added'', print_share share]
    | ShareDeleted sid name \<Rightarrow> Inr [''[daemon] share deleted'', ''[daemon] share_id: '' @ share_id_to_string sid, ''[daemon] name: '' @ name]
    | TransferQueued sid job_id \<Rightarrow> Inr [''[daemon] transfer queued: '' @ share_id_to_string sid, ''[daemon] job_id: '' @ job_id]
    | TransferCompleted sid output_path name bytes chunks \<Rightarrow>
        Inr [''[daemon] transfer completed'', ''[daemon] share_id: '' @ share_id_to_string sid, ''[daemon] output: '' @ show_path output_path,
          ''[daemon] file: '' @ name, ''[daemon] file size: '' @ show_nat (unat bytes) @ '' bytes'', ''[daemon] chunks: '' @ show_nat chunks]
    | ResponseError message \<Rightarrow> Inl (ProgMessage message))"

definition progress_fields :: "nat \<Rightarrow> nat \<Rightarrow> u64 \<Rightarrow> u64 \<Rightarrow> u64 \<Rightarrow> string" where
  "progress_fields completed whole done_bytes total_bytes speed =
     '' chunks='' @ show_nat completed @ ''/'' @ show_nat whole @ '' bytes='' @ show_nat (unat done_bytes) @ ''/'' @ show_nat (unat total_bytes) @
     '' speed='' @ show_nat (unat speed) @ '' B/s''"

definition print_event :: "(path \<Rightarrow> string) \<Rightarrow> (socket_addr \<Rightarrow> string) \<Rightarrow> ipc_event \<Rightarrow> string list" where
  "print_event show_path show_addr event = (case event of
      ServerStarted listen \<Rightarrow> [''[event] server started: '' @ show_addr listen]
    | ServerStopped \<Rightarrow> [''[event] server stopped'']
    | ShareUpdated share \<Rightarrow> [''[event] share updated'', print_share share]
    | ShareDeletedEvent sid \<Rightarrow> [''[event] share deleted: '' @ share_id_to_string sid]
    | PeerConnected peer_id \<Rightarrow> [''[event] peer connected: '' @ peer_id]
    | ChunkCompleted sid completed whole \<Rightarrow>
        [''[event] chunk completed: '' @ share_id_to_string sid @ '' chunks='' @ show_nat completed @ ''/'' @ show_nat whole]
    | TaskProgress job_id task label completed whole done_bytes total_bytes speed \<Rightarrow>
        [''[event] task progress: job='' @ or_default ''unknown'' job_id @ '' task='' @ task @ '' label='' @ quote label @
          progress_fields completed whole done_bytes total_bytes speed]
    | TransferProgress job_id sid completed whole done_bytes total_bytes speed \<Rightarrow>
        [''[event] progress: job='' @ or_default ''unknown'' job_id @ '' share='' @ share_id_to_string sid @
          progress_fields completed whole done_bytes total_bytes speed]
    | TransferCompletedEvent job_id sid output_path \<Rightarrow>
        [''[event] transfer completed: job='' @ or_default ''unknown'' job_id @ '' share='' @ share_id_to_string sid @ '' output='' @ show_path output_path]
    | EventError message \<Rightarrow> [''[event] error: '' @ message])"

record program_env =
  pe_windows :: bool
  pe_environment :: environment
  pe_to_path :: "string \<Rightarrow> path"
  pe_show_path :: "path \<Rightarrow> string"
  pe_show_addr :: "socket_addr \<Rightarrow> string"
  pe_show_ip :: "ipv4_addr \<Rightarrow> string"
  pe_build :: build_env
  pe_commands :: "ipc_command bincode"
  pe_responses :: "ipc_response bincode"
  pe_events :: "ipc_event bincode"

text \<open>
  The client: the socket it connects to, the lines it prints, and how it ends. A failure to read the configuration comes
  before all of these.
\<close>

type_synonym cli_run = "string option \<times> string list \<times> (program_error, unit) result"

definition watch_outcome :: "program_env \<Rightarrow> string \<Rightarrow> string list \<Rightarrow> (ipc_error, ipc_event list \<times> ipc_error) result \<Rightarrow> cli_run" where
  "watch_outcome P socket_path lines r = (Some socket_path, case r of
      Inl error \<Rightarrow> (lines, Inl (ProgIpc error))
    | Inr (events, error) \<Rightarrow> (lines @ concat (map (print_event (pe_show_path P) (pe_show_addr P)) events), Inl (ProgIpc error)))"

definition answer_outcome :: "program_env \<Rightarrow> string \<Rightarrow> string list \<Rightarrow> (ipc_error, ipc_response) result \<Rightarrow> cli_run" where
  "answer_outcome P socket_path lines r = (Some socket_path, case r of
      Inl error \<Rightarrow> (lines, Inl (ProgIpc error))
    | Inr response \<Rightarrow> (case print_response (pe_show_path P) response of
        Inl error \<Rightarrow> (lines, Inl error)
      | Inr printed \<Rightarrow> (lines @ printed, Inr ())))"

definition cli_main :: "program_env \<Rightarrow> string list \<Rightarrow> cli \<Rightarrow> (program_error, cli_run) io" where
  "cli_main P args a =
     (let version = (None, long_version (pe_build P) ''etle-cli'', Inr ()) in
      if args_request_version args \<or> cl_command a = CliVersion then returnE version
      else bindE (intoE ProgConfig (load (pe_environment P) (pe_to_path P))) (\<lambda>c.
        let socket_path = cli_socket_path (pe_windows P) (pe_environment P) c a;
            lines = (if cl_verbose a then [''[cli] ipc socket: '' @ socket_path] else []) in
        if cl_command a = CliDaemon DaemonWatch then
          bindE (tryE (subscribe_ipc_events (pe_commands P) (pe_responses P) (pe_events P))) (\<lambda>r. returnE (watch_outcome P socket_path lines r))
        else case cli_ipc_command (pe_environment P) c (cl_command a) of
          None \<Rightarrow> returnE version
        | Some command \<Rightarrow>
            bindE (tryE (send_ipc_command (pe_commands P) (pe_responses P) command)) (\<lambda>r. returnE (answer_outcome P socket_path lines r))))"

section \<open>The daemon\<close>

record serve_args =
  sa_listen :: "socket_addr option"
  sa_peer_id :: string
  sa_library_root :: "string option"
  sa_ipc_socket :: "string option"
  sa_no_ipc :: bool
  sa_discovery_port :: "u16 option"
  sa_discovery_multicast :: "ipv4_addr option"
  sa_auth_psk :: "string option"
  sa_no_discovery :: bool

record serve_settings =
  ss_library_root :: string
  ss_listen :: socket_addr
  ss_discovery_port :: u16
  ss_discovery_multicast :: ipv4_addr
  ss_ipc_socket :: string
  ss_auth_psk :: "string option"

definition resolve_serve :: "bool \<Rightarrow> environment \<Rightarrow> etle_config \<Rightarrow> serve_args \<Rightarrow> serve_settings" where
  "resolve_serve windows env c a =
     (let library_root = or_default (default_library_root windows env) (or_else (sa_library_root a) (config_library_root env c)) in
      \<lparr>ss_library_root = library_root,
       ss_listen = or_default (or_default default_listen_addr (cf_listen c)) (sa_listen a),
       ss_discovery_port = or_default (config_discovery_port c) (sa_discovery_port a),
       ss_discovery_multicast = or_default (config_discovery_multicast c) (sa_discovery_multicast a),
       ss_ipc_socket = or_default (default_ipc_socket_path windows library_root) (or_else (sa_ipc_socket a) (config_ipc_socket env c)),
       ss_auth_psk = or_else (or_else (sa_auth_psk a) (env ''ETLE_AUTH_PSK'')) (config_auth_psk c)\<rparr>)"

definition banner_share :: "local_share_summary \<Rightarrow> string" where
  "banner_share share =
     ''[daemon] share '' @ share_id_to_string (d_share_id (lss_descriptor share)) @ ''  chunks='' @
     show_nat (summary_completed_chunks share) @ ''/'' @ show_nat (summary_total_chunks share) @ ''  '' @
     (if lss_has_secret share then ''key=yes'' else ''key=no'') @ ''  name='' @ quote (d_name (lss_descriptor share))"

text \<open>The lines are printed whether or not the library can be listed.\<close>

definition print_startup_banner ::
    "program_env \<Rightarrow> deps \<Rightarrow> library_codecs \<Rightarrow> string \<Rightarrow> socket_addr \<Rightarrow> (program_error, string list \<times> (file_error, unit) result) io" where
  "print_startup_banner P D L library_root listen =
     (let lines = [''[daemon] etled starting'', ''[daemon] listen address: '' @ pe_show_addr P listen, ''[daemon] library root: '' @ library_root,
            ''[daemon] mode: foreground; press Ctrl+C to stop'', ''[daemon] peers must request a share_id with RequestShare''] in
      bindE (tryE (library_list D L (pe_to_path P library_root))) (\<lambda>listed.
      returnE (case listed of
        Inl error \<Rightarrow> (lines, Inl error)
      | Inr shares \<Rightarrow>
          (lines @
           (if shares = [] then [''[daemon] no local shares found yet'']
            else (''[daemon] loaded '' @ show_nat (length shares) @ '' local share(s)'') # map banner_share shares), Inr ()))))"

text \<open>What the daemon starts: the answers to discovery, the server for peers, and the server of the local socket.\<close>

datatype service = DiscoveryServer path socket_addr string discovery_options | PeerServer socket_addr path serve_file_options | IpcServer string path

definition etled_serve_options :: "deps \<Rightarrow> transfer_log_level \<Rightarrow> serve_args \<Rightarrow> serve_settings \<Rightarrow> serve_file_options" where
  "etled_serve_options D log_level a st =
     (let opts = serve_options_new (sa_peer_id a) log_level in
      case ss_auth_psk st of Some psk \<Rightarrow> serve_with_auth_psk (from_passphrase D (str_bytes psk)) opts | None \<Rightarrow> opts)"

definition etled_services :: "program_env \<Rightarrow> deps \<Rightarrow> transfer_log_level \<Rightarrow> serve_args \<Rightarrow> serve_settings \<Rightarrow> service list" where
  "etled_services P D log_level a st =
     (let library_root = pe_to_path P (ss_library_root st) in
      (if sa_no_discovery a then []
       else [DiscoveryServer library_root (ss_listen st) (sa_peer_id a)
         (with_verbose (log_level = Verbose) (with_multicast (ss_discovery_multicast st) (discovery_options_new (ss_discovery_port st))))]) @
      [PeerServer (ss_listen st) library_root (etled_serve_options D log_level a st)] @
      (if sa_no_ipc a then [] else [IpcServer (ss_ipc_socket st) library_root]))"

definition etled_lines :: "(ipv4_addr \<Rightarrow> string) \<Rightarrow> serve_args \<Rightarrow> serve_settings \<Rightarrow> string list" where
  "etled_lines show_ip a st =
     [case ss_auth_psk st of Some _ \<Rightarrow> ''[daemon] p2p auth: PSK enabled'' | None \<Rightarrow> ''[daemon] p2p auth: disabled; key exchange is not MITM-resistant''] @
     (if sa_no_discovery a then [''[daemon] discovery: disabled'']
      else [''[daemon] discovery udp: 0.0.0.0:'' @ show_nat (unat (ss_discovery_port st)), ''[daemon] discovery multicast: '' @ show_ip (ss_discovery_multicast st)]) @
     (if sa_no_ipc a then [''[daemon] ipc: disabled'']
      else [''[daemon] ipc socket: '' @ ss_ipc_socket st,
            ''[daemon] ipc commands: Ping, ListShares, DeleteShare, SeedFile, Download, SubscribeEvents, Shutdown''])"

text \<open>
  The run of \<open>serve\<close>: the lines printed, the servers started, the events published and the result.
  \<open>bound\<close> is the outcome of binding the port for peers, \<open>peers_end\<close> and \<open>ipc_end\<close> how the server for peers
  and the loop of the local socket end; with the local socket it is its loop that the daemon waits for, and the
  others are aborted.
\<close>

record serve_run =
  sr_lines :: "string list"
  sr_services :: "service list"
  sr_events :: "ipc_event list"
  sr_result :: "(program_error, unit) result"

definition bind_listener :: "(io_error, unit) result \<Rightarrow> (network_error, unit) result" where
  "bind_listener bound = map_err NetIo bound"

definition serve_outcome ::
    "program_env \<Rightarrow> deps \<Rightarrow> (io_error, unit) result \<Rightarrow> (network_error, unit) result \<Rightarrow> (ipc_error, unit) result \<Rightarrow>
     transfer_log_level \<Rightarrow> serve_args \<Rightarrow> serve_settings \<Rightarrow> string list \<times> (file_error, unit) result \<Rightarrow> serve_run" where
  "serve_outcome P D bound peers_end ipc_end log_level a st banner =
     (case snd banner of
       Inl error \<Rightarrow> \<lparr>sr_lines = fst banner, sr_services = [], sr_events = [], sr_result = Inl (ProgFile error)\<rparr>
     | Inr _ \<Rightarrow> (case bind_listener bound of
         Inl error \<Rightarrow> \<lparr>sr_lines = fst banner, sr_services = [], sr_events = [], sr_result = Inl (ProgNetwork error)\<rparr>
       | Inr _ \<Rightarrow>
           \<lparr>sr_lines = fst banner @ etled_lines (pe_show_ip P) a st,
            sr_services = etled_services P D log_level a st,
            sr_events = (if sa_no_ipc a then [] else [ServerStarted (ss_listen st), ServerStopped]),
            sr_result = (if sa_no_ipc a then map_err ProgNetwork peers_end else map_err ProgIpc ipc_end)\<rparr>))"

definition etled_serve ::
    "program_env \<Rightarrow> deps \<Rightarrow> library_codecs \<Rightarrow> (io_error, unit) result \<Rightarrow> (network_error, unit) result \<Rightarrow> (ipc_error, unit) result \<Rightarrow>
     transfer_log_level \<Rightarrow> serve_args \<Rightarrow> (program_error, serve_run) io" where
  "etled_serve P D L bound peers_end ipc_end log_level a =
     bindE (intoE ProgConfig (load (pe_environment P) (pe_to_path P))) (\<lambda>c.
     let st = resolve_serve (pe_windows P) (pe_environment P) c a in
     bindE (print_startup_banner P D L (ss_library_root st) (ss_listen st)) (\<lambda>banner.
     returnE (serve_outcome P D bound peers_end ipc_end log_level a st banner)))"

datatype etled_command = EtledVersion | EtledServe serve_args

record etled_cli =
  ec_verbose :: bool
  ec_command :: etled_command

definition etled_main ::
    "program_env \<Rightarrow> deps \<Rightarrow> library_codecs \<Rightarrow> (io_error, unit) result \<Rightarrow> (network_error, unit) result \<Rightarrow> (ipc_error, unit) result \<Rightarrow>
     string list \<Rightarrow> etled_cli \<Rightarrow> (program_error, serve_run) io" where
  "etled_main P D L bound peers_end ipc_end args a =
     (let version = \<lparr>sr_lines = long_version (pe_build P) ''etled'', sr_services = [], sr_events = [], sr_result = Inr ()\<rparr> in
      if args_request_version args then returnE version
      else case ec_command a of
        EtledVersion \<Rightarrow> returnE version
      | EtledServe serve \<Rightarrow> etled_serve P D L bound peers_end ipc_end (if ec_verbose a then Verbose else Normal) serve)"

section \<open>The programs of one machine meet\<close>

lemma resolve_serve_sel:
  "ss_auth_psk (resolve_serve windows env c a) = or_else (or_else (sa_auth_psk a) (env ''ETLE_AUTH_PSK'')) (config_auth_psk c)"
  "ss_ipc_socket (resolve_serve windows env c a) =
     or_default (default_ipc_socket_path windows (or_default (default_library_root windows env) (or_else (sa_library_root a) (config_library_root env c))))
       (or_else (sa_ipc_socket a) (config_ipc_socket env c))"
  by (simp_all add: resolve_serve_def Let_def)

lemma gui_init_loaded:
  assumes "load env to_path w = (Inr c, w')"
  shows "gi_socket_path (fst (gui_init_default shown windows env to_path w)) =
      or_default (default_ipc_socket_path windows (or_default (default_library_root windows env) (config_library_root env c))) (config_ipc_socket env c)"
    and "gi_auth_psk (fst (gui_init_default shown windows env to_path w)) = or_default [] (or_else (env ''ETLE_AUTH_PSK'') (config_auth_psk c))"
  using assms by (simp_all add: gui_init_default_def Let_def)

text \<open>The servers of a run of the daemon are those of the settings it resolved.\<close>

lemma serve_outcome_services:
  "sr_services (serve_outcome P D bound peers_end ipc_end l a st banner) \<in> {[], etled_services P D l a st}"
  by (simp add: serve_outcome_def split: sum.split)

lemma etled_serve_services:
  assumes "etled_serve P D L bound peers_end ipc_end log_level a w = (Inr r, w')" and "s \<in> set (sr_services r)"
  obtains c v where "load (pe_environment P) (pe_to_path P) w = (Inr c, v)"
    and "s \<in> set (etled_services P D log_level a (resolve_serve (pe_windows P) (pe_environment P) c a))"
proof -
  from assms(1) obtain c v banner where c: "load (pe_environment P) (pe_to_path P) w = (Inr c, v)"
    and r: "r = serve_outcome P D bound peers_end ipc_end log_level a (resolve_serve (pe_windows P) (pe_environment P) c a) banner"
    unfolding etled_serve_def Let_def bindE_Inr intoE_Inr by (auto simp: returnE_def)
  from assms(2) have "s \<in> set (etled_services P D log_level a (resolve_serve (pe_windows P) (pe_environment P) c a))"
    using serve_outcome_services [of P D bound peers_end ipc_end log_level a "resolve_serve (pe_windows P) (pe_environment P) c a" banner]
    by (auto simp: r)
  with c show thesis by (rule that)
qed

lemma etled_main_services:
  assumes "etled_main P D L bound peers_end ipc_end args e w = (Inr r, w')" and "s \<in> set (sr_services r)"
  obtains a c v where "ec_command e = EtledServe a" and "load (pe_environment P) (pe_to_path P) w = (Inr c, v)"
    and "s \<in> set (etled_services P D (if ec_verbose e then Verbose else Normal) a (resolve_serve (pe_windows P) (pe_environment P) c a))"
proof (cases "ec_command e")
  case EtledVersion
  with assms show thesis by (auto simp: etled_main_def Let_def split: if_splits)
next
  case (EtledServe a)
  with assms have "etled_serve P D L bound peers_end ipc_end (if ec_verbose e then Verbose else Normal) a w = (Inr r, w')"
    by (auto simp: etled_main_def Let_def split: if_splits)
  then show thesis using assms(2) EtledServe that by (elim etled_serve_services) blast
qed

lemma IpcServer_in_services: "IpcServer s p \<in> set (etled_services P D l a st) \<Longrightarrow> s = ss_ipc_socket st"
  and PeerServer_in_services: "PeerServer listen q opts \<in> set (etled_services P D l a st) \<Longrightarrow> opts = etled_serve_options D l a st"
  by (auto simp: etled_services_def Let_def split: if_splits)

text \<open>The socket that a run of the client connects to.\<close>

lemma cli_main_socket:
  assumes "cli_main P args b w = (Inr (Some socket_path, lines, r), w')"
  obtains c v where "load (pe_environment P) (pe_to_path P) w = (Inr c, v)"
    and "socket_path = cli_socket_path (pe_windows P) (pe_environment P) c b"
  using assms by (auto simp: cli_main_def bindE_Inr Let_def watch_outcome_def answer_outcome_def split: if_split_asm option.split_asm)

lemma etled_serve_options_psk:
  "so_auth_psk (etled_serve_options D l a st) = map_option (\<lambda>p. from_passphrase D (str_bytes p)) (ss_auth_psk st)"
  by (simp add: etled_serve_options_def Let_def serve_with_auth_psk_def serve_options_new_def split: option.splits)

lemma daemon_download_options_psk:
  "do_auth_psk (daemon_download_options X d resume p) = map_option (\<lambda>p. from_passphrase (de_deps X) (str_bytes p)) (id_auth_psk d)"
  by (simp add: daemon_download_options_def Let_def with_auth_psk_def with_request_window_def with_requested_share_id_def with_resume_def
      with_library_root_def download_options_new_def split: option.splits)

text \<open>What the window sends when its form holds a passphrase without white space around it, and when it holds none.\<close>

lemma window_passphrase:
  assumes "build_download_command_from E share_id_text peers_text output_text auth_psk_text multicast_text g = Inr (command, sid)"
    and "command \<in> {Download d, DownloadFresh d}"
  shows "id_auth_psk d = or_else (non_empty (trim auth_psk_text)) (non_empty (g_auth_psk g))"
  using assms by (auto simp: build_download_command_from_def Let_def and_then_Inr split: if_splits)

lemma window_text_passphrase: "trim t = t \<Longrightarrow> t \<noteq> [] \<Longrightarrow> or_else (non_empty t) p = Some t"
  by (simp add: non_empty_def or_else_def)

text \<open>
  An environment variable that is set to the empty text is a passphrase for the daemon and the client, while a window
  that starts with it sends none.
\<close>

lemma empty_passphrase_differs:
  assumes "env ''ETLE_AUTH_PSK'' = Some []" "sa_auth_psk a = None" "trim auth_psk_text = []" "g_auth_psk g = []"
    and "build_download_command_from E share_id_text peers_text output_text auth_psk_text multicast_text g = Inr (command, sid)"
    and "command \<in> {Download d, DownloadFresh d}"
  shows "ss_auth_psk (resolve_serve windows env c a) = Some []" and "id_auth_psk d = None"
  using assms by (simp_all add: resolve_serve_sel window_passphrase [OF assms(5,6)] or_else_def non_empty_def trim_solid)

lemma cli_passphrase:
  "cli_download_command env c b \<in> {Download d, DownloadFresh d} \<Longrightarrow>
     id_auth_psk d = or_else (or_else (cd_auth_psk b) (env ''ETLE_AUTH_PSK'')) (config_auth_psk c)"
  by (auto simp: cli_download_command_def Let_def split: if_splits)

text \<open>The programs of one machine meet. Let the daemon be started without \<open>--library-root\<close> and with the same \<open>--ipc-socket\<close>
  option as the client, or both without it, and let the configuration read the same when each of them starts. Then the
  client connects to the socket that the daemon serves, and so does the window when the option is not used, whichever of
  environment, configuration and defaults the location comes from.
\<close>

theorem programs_meet_at_socket:
  assumes daemon: "etled_main P D L bound peers_end ipc_end args e w = (Inr r, w')" and "IpcServer s q \<in> set (sr_services r)"
    and "ec_command e = EtledServe a" "sa_library_root a = None" "sa_ipc_socket a = cl_ipc_socket b"
    and client: "cli_main P args' b v = (Inr (Some s', lines, result), v')"
    and unchanged: "fst (load (pe_environment P) (pe_to_path P) w) = fst (load (pe_environment P) (pe_to_path P) v)"
  shows "s' = s \<and> (cl_ipc_socket b = None \<longrightarrow>
    gi_socket_path (fst (gui_init_default shown (pe_windows P) (pe_environment P) (pe_to_path P) v)) = s)"
proof -
  from daemon assms(2,3) obtain c u where c: "load (pe_environment P) (pe_to_path P) w = (Inr c, u)"
    and "IpcServer s q \<in> set (etled_services P D (if ec_verbose e then Verbose else Normal) a (resolve_serve (pe_windows P) (pe_environment P) c a))"
    by (elim etled_main_services) auto
  then have s: "s = ss_ipc_socket (resolve_serve (pe_windows P) (pe_environment P) c a)" by (intro IpcServer_in_services)
  from client obtain c' u' where c': "load (pe_environment P) (pe_to_path P) v = (Inr c', u')"
    and s': "s' = cli_socket_path (pe_windows P) (pe_environment P) c' b" by (rule cli_main_socket)
  from c c' unchanged have "c' = c" by simp
  with s s' assms(4,5) show ?thesis
    by (simp add: resolve_serve_sel cli_socket_path_def Let_def gui_init_loaded [OF c'] or_else_def)
qed

definition sample_build :: build_env where
  "sample_build = \<lparr>be_version = ''0'', be_commit = ''c'', be_branch = ''b'', be_tag = ''t'', be_commit_count = ''1'', be_commit_message = ''m'',
     be_dirty = ''clean'', be_date = ''d'', be_profile = ''release'', be_target = ''t'', be_host = ''h'', be_rustc = ''r'', be_ci = ''no'',
     be_repository = ''r'', be_run_id = ''0''\<rparr>"

definition sample_program_env :: program_env where
  "sample_program_env = \<lparr>pe_windows = False, pe_environment = [''ETLE_LIBRARY_ROOT'' \<mapsto> ''/l'', ''ETLE_AUTH_PSK'' \<mapsto> ''secret''], pe_to_path = (\<lambda>_. []),
     pe_show_path = (\<lambda>_. ''p''), pe_show_addr = (\<lambda>_. ''a''), pe_show_ip = (\<lambda>_. ''i''), pe_build = sample_build,
     pe_commands = \<lparr>encode_to_vec = (\<lambda>_. None), decode_from_slice = (\<lambda>_. None)\<rparr>,
     pe_responses = \<lparr>encode_to_vec = (\<lambda>_. None), decode_from_slice = (\<lambda>_. None)\<rparr>,
     pe_events = \<lparr>encode_to_vec = (\<lambda>_. None), decode_from_slice = (\<lambda>_. None)\<rparr>\<rparr>"

definition sample_serve_args :: serve_args where
  "sample_serve_args = \<lparr>sa_listen = None, sa_peer_id = ''etle-daemon'', sa_library_root = None, sa_ipc_socket = None, sa_no_ipc = False,
     sa_discovery_port = None, sa_discovery_multicast = None, sa_auth_psk = None, sa_no_discovery = True\<rparr>"

definition sample_etled :: etled_cli where
  "sample_etled = \<lparr>ec_verbose = False, ec_command = EtledServe sample_serve_args\<rparr>"

definition sample_cli :: cli where
  "sample_cli = \<lparr>cl_verbose = False, cl_ipc_socket = None, cl_command = CliDaemon DaemonPing\<rparr>"

lemma sample_program_env_sel [simp]: "pe_to_path sample_program_env = (\<lambda>_. [])" "pe_windows sample_program_env = False"
  by (simp_all add: sample_program_env_def)

lemma sample_program_load [simp]: "load (pe_environment sample_program_env) (\<lambda>_. []) w = (Inr config_default, w)"
  by (simp add: load_def sample_program_env_def default_config_path_def)

lemma sample_banner:
  obtains lines where "print_startup_banner sample_program_env sample_deps sample_library_codecs library_root listen sample_library_world =
    (Inr (lines, Inr ()), sample_library_world)"
  by (simp add: print_startup_banner_def Let_def bindE_run tryE_run sample_listing)

lemma sample_etled_run:
  obtains r where "etled_main sample_program_env sample_deps sample_library_codecs (Inr ()) (Inr ()) (Inr ()) [] sample_etled sample_library_world = (Inr r, sample_library_world)"
    and "sr_services r = etled_services sample_program_env sample_deps Normal sample_serve_args
      (resolve_serve False (pe_environment sample_program_env) config_default sample_serve_args)"
proof -
  let ?st = "resolve_serve False (pe_environment sample_program_env) config_default sample_serve_args"
  obtain lines where "print_startup_banner sample_program_env sample_deps sample_library_codecs (ss_library_root ?st) (ss_listen ?st) sample_library_world =
    (Inr (lines, Inr ()), sample_library_world)" by (rule sample_banner)
  then have "etled_main sample_program_env sample_deps sample_library_codecs (Inr ()) (Inr ()) (Inr ()) [] sample_etled sample_library_world =
      (Inr (serve_outcome sample_program_env sample_deps (Inr ()) (Inr ()) (Inr ()) Normal sample_serve_args ?st (lines, Inr ())), sample_library_world)"
    by (simp add: etled_main_def sample_etled_def args_request_version_def etled_serve_def bindE_run intoE_run Let_def)
  then show thesis by (rule that) (simp add: serve_outcome_def bind_listener_def)
qed

lemma sample_cli_run:
  obtains lines r v where "cli_main sample_program_env [] sample_cli w =
    (Inr (Some ''/l/.etle/etled.sock'', lines, r), v)"
proof -
  obtain r v where r: "send_ipc_command (pe_commands sample_program_env) (pe_responses sample_program_env) Ping w = (r, v)" by fastforce
  have "cli_socket_path False (pe_environment sample_program_env) config_default sample_cli = ''/l/.etle/etled.sock''" by code_simp
  with r have "cli_main sample_program_env [] sample_cli w = (Inr (answer_outcome sample_program_env ''/l/.etle/etled.sock'' [] r), v)"
    by (simp add: cli_main_def sample_cli_def args_request_version_def bindE_run intoE_run tryE_run Let_def cli_ipc_command_def)
  moreover obtain lines result where "snd (answer_outcome sample_program_env ''/l/.etle/etled.sock'' [] r) = (lines, result)" by fastforce
  ultimately show thesis by (intro that) (simp add: answer_outcome_def)
qed

theorem programs_meet_at_socket_witness:
  "\<exists>r. etled_main sample_program_env sample_deps sample_library_codecs (Inr ()) (Inr ()) (Inr ()) [] sample_etled sample_library_world = (Inr r, sample_library_world) \<and>
     IpcServer ''/l/.etle/etled.sock'' [] \<in> set (sr_services r) \<and>
     gi_socket_path (fst (gui_init_default (\<lambda>_. ''e'') False (pe_environment sample_program_env) (\<lambda>_. []) sample_library_world)) = ''/l/.etle/etled.sock''"
proof -
  obtain r where r: "etled_main sample_program_env sample_deps sample_library_codecs (Inr ()) (Inr ()) (Inr ()) [] sample_etled sample_library_world = (Inr r, sample_library_world)"
    and services: "sr_services r = etled_services sample_program_env sample_deps Normal sample_serve_args
      (resolve_serve False (pe_environment sample_program_env) config_default sample_serve_args)" by (rule sample_etled_run)
  obtain lines result v where cli: "cli_main sample_program_env [] sample_cli sample_library_world = (Inr (Some ''/l/.etle/etled.sock'', lines, result), v)"
    by (rule sample_cli_run)
  have "ss_ipc_socket (resolve_serve False (pe_environment sample_program_env) config_default sample_serve_args) = ''/l/.etle/etled.sock''"
    unfolding resolve_serve_sel by code_simp
  then have s: "IpcServer ''/l/.etle/etled.sock'' [] \<in> set (sr_services r)"
    unfolding services by (simp add: etled_services_def Let_def sample_serve_args_def)
  have "gi_socket_path (fst (gui_init_default (\<lambda>_. ''e'') False (pe_environment sample_program_env) (\<lambda>_. []) sample_library_world)) = ''/l/.etle/etled.sock''"
    using programs_meet_at_socket [OF r s _ _ _ cli, of sample_serve_args "\<lambda>_. ''e''"]
    by (simp add: sample_etled_def sample_serve_args_def sample_cli_def)
  with r s show ?thesis by blast
qed


definition sample_cli_download :: cli_download where
  "sample_cli_download = \<lparr>cd_peer = [], cd_share_id = empty_file_share, cd_output = None, cd_resume = False, cd_no_resume = True, cd_parallel = None,
     cd_request_window = None, cd_auth_psk = Some ''secret'', cd_discovery_port = None, cd_discovery_timeout_ms = None, cd_discovery_multicast = None\<rparr>"


end
