(* ===== verification/Etle_Progress.thy ===== *)
theory Etle_Progress
  imports Etle_Gui_Model Etle_Transfer
begin

text \<open>
  The progress of transfers, \<open>src/network/transfer/progress.rs\<close>: for every transfer, named by its context, role,
  action and number of chunks, a state that counts bytes between the reports; a report prints a line and publishes events.
  Instants are nanoseconds since the earliest instant of the platform, a fraction is an exact number, and
  \<open>None\<close> is the panic of a conversion to a duration that is too long. \<open>fixed\<close> formats a fraction
  with a number of decimals.
\<close>

section \<open>State\<close>

record progress_key =
  pk_context :: string
  pk_role :: string
  pk_action :: string
  pk_total :: nat

record progress_state =
  ps_start :: nat
  ps_last_log :: nat
  ps_last_done :: nat
  ps_bytes_done :: u64

type_synonym progress_states = "progress_key \<rightharpoonup> progress_state"

definition nanos_per_sec :: nat where "nanos_per_sec = 1000000000"

definition progress_state_new :: "nat \<Rightarrow> progress_state" where
  "progress_state_new now =
     \<lparr>ps_start = now, ps_last_log = (if nanos_per_sec \<le> now then now - nanos_per_sec else now), ps_last_done = 0, ps_bytes_done = 0\<rparr>"

section \<open>Rates and estimates\<close>

definition saturating_add_u64 :: "u64 \<Rightarrow> u64 \<Rightarrow> u64" where
  "saturating_add_u64 a b = (if unat a + unat b < 2 ^ 64 then a + b else - 1)"

definition saturating_mul_u64 :: "u64 \<Rightarrow> u64 \<Rightarrow> u64" where
  "saturating_mul_u64 a b = (if unat a * unat b < 2 ^ 64 then a * b else - 1)"

definition should_log_progress :: "transfer_log_level \<Rightarrow> nat \<Rightarrow> nat \<Rightarrow> nat \<Rightarrow> bool" where
  "should_log_progress log_level completed whole since_last_log = (case log_level of
      Quiet \<Rightarrow> False
    | Verbose \<Rightarrow> True
    | Normal \<Rightarrow> completed = 1 \<or> whole \<le> completed \<or> 750000000 \<le> since_last_log)"

definition estimated_total_bytes :: "u64 \<Rightarrow> nat \<Rightarrow> nat \<Rightarrow> u64" where
  "estimated_total_bytes done_bytes completed whole =
     (if whole = 0 then 0
      else if whole \<le> completed then done_bytes
      else if completed = 0 \<or> done_bytes = 0 then 0
      else saturating_mul_u64 (max (done_bytes div of_nat completed) 1) (of_nat whole))"

definition progress_percent_bytes :: "u64 \<Rightarrow> u64 \<Rightarrow> rat" where
  "progress_percent_bytes done_bytes total_bytes =
     (if total_bytes = 0 then 100 else min (of_nat (unat done_bytes) * 100 / of_nat (unat total_bytes)) 100)"

definition f64_epsilon :: rat where "f64_epsilon = 1 / 2 ^ 52"

definition bytes_per_second :: "u64 \<Rightarrow> nat \<Rightarrow> rat" where
  "bytes_per_second done_bytes elapsed =
     (let secs = of_nat elapsed / of_nat nanos_per_sec in
      if secs \<le> f64_epsilon then 0 else of_nat (unat done_bytes) / secs)"

text \<open>\<open>as u64\<close> of a fraction that is not negative.\<close>

definition rat_to_u64 :: "rat \<Rightarrow> u64" where
  "rat_to_u64 q = (if q < 2 ^ 64 then of_int \<lfloor>q\<rfloor> else - 1)"

text \<open>\<open>Duration::from_secs_f64\<close> panics when the seconds do not fit in 64 bits; the duration is used in whole seconds only.\<close>

definition from_secs_f64 :: "rat \<Rightarrow> nat option" where
  "from_secs_f64 q = (if 0 \<le> q \<and> q < 2 ^ 64 then Some (nat \<lfloor>q\<rfloor>) else None)"

definition estimate_eta :: "u64 \<Rightarrow> u64 \<Rightarrow> rat \<Rightarrow> nat option option" where
  "estimate_eta done_bytes total_bytes average_rate =
     (if total_bytes \<le> done_bytes \<or> average_rate \<le> f64_epsilon then Some None
      else map_option Some (from_secs_f64 (of_nat (unat total_bytes - unat done_bytes) / average_rate)))"

section \<open>Text\<close>

definition format_bytes :: "(nat \<Rightarrow> rat \<Rightarrow> string) \<Rightarrow> u64 \<Rightarrow> string" where
  "format_bytes fixed b = (case scale_units UNITS (of_nat (unat b)) of (value, u) \<Rightarrow>
     if u = ''B'' then show_nat (unat b) @ '' B'' else fixed 2 value @ '' '' @ u)"

definition format_rate :: "(nat \<Rightarrow> rat \<Rightarrow> string) \<Rightarrow> rat \<Rightarrow> string" where
  "format_rate fixed rate = (if rate \<le> f64_epsilon then ''0 B/s'' else format_bytes fixed (rat_to_u64 rate) @ ''/s'')"

definition format_duration :: "nat option \<Rightarrow> string" where
  "format_duration duration = (case duration of
      None \<Rightarrow> ''--''
    | Some seconds \<Rightarrow>
        if seconds div 60 = 0 then show_nat (seconds mod 60) @ ''s''
        else show_nat (seconds div 60) @ ''m '' @ show_nat (seconds mod 60) @ ''s'')"

definition format_progress_line ::
    "(nat \<Rightarrow> rat \<Rightarrow> string) \<Rightarrow> string \<Rightarrow> string \<Rightarrow> nat \<Rightarrow> nat \<Rightarrow> u32 \<Rightarrow> nat \<Rightarrow> progress_state \<Rightarrow> u64 \<Rightarrow> rat \<Rightarrow> string option" where
  "format_progress_line fixed role action completed whole index n_bytes state total_bytes average_rate =
     map_option (\<lambda>eta.
       ''['' @ role @ ''] '' @ action @ '' chunk '' @ show_nat completed @ ''/'' @ show_nat whole @ '' ('' @
       fixed 2 (progress_percent_bytes (ps_bytes_done state) total_bytes) @ ''%) | index='' @ show_nat (unat index) @
       '' | chunk='' @ format_bytes fixed (of_nat n_bytes) @ '' | progress='' @ format_bytes fixed (ps_bytes_done state) @ ''/'' @
       format_bytes fixed total_bytes @ '' | avg='' @ format_rate fixed average_rate @ '' | eta='' @ format_duration eta)
     (estimate_eta (ps_bytes_done state) total_bytes average_rate)"

section \<open>A report\<close>

definition should_publish_legacy_transfer_progress :: "string \<Rightarrow> string \<Rightarrow> bool" where
  "should_publish_legacy_transfer_progress role action \<longleftrightarrow>
     role = ''peer'' \<and> (contains_text action ''received+verified'' \<or> action = ''reused'')"

definition progress_events ::
    "job_registry \<Rightarrow> string \<Rightarrow> share_id option \<Rightarrow> string \<Rightarrow> string \<Rightarrow> nat \<Rightarrow> nat \<Rightarrow> u64 \<Rightarrow> u64 \<Rightarrow> u64 \<Rightarrow> ipc_event list" where
  "progress_events jobs ctxt share_id role action completed whole done_bytes total_bytes speed = (case share_id of
      Some sid \<Rightarrow>
        (if should_publish_legacy_transfer_progress role action
         then [TransferProgress (active_job_id sid jobs) sid completed whole done_bytes total_bytes speed] else []) @
        [TaskProgress (active_job_id sid jobs) (role @ '':'' @ action) (share_id_to_string sid) completed whole done_bytes total_bytes speed]
    | None \<Rightarrow> [TaskProgress None (role @ '':'' @ action) ctxt completed whole done_bytes total_bytes speed])"

text \<open>The states, the events and the lines after a report at the instant \<open>now\<close>.\<close>

definition with_context_label ::
    "(nat \<Rightarrow> rat \<Rightarrow> string) \<Rightarrow> job_registry \<Rightarrow> nat \<Rightarrow> string \<Rightarrow> share_id option \<Rightarrow> string \<Rightarrow> string \<Rightarrow> transfer_log_level \<Rightarrow>
     nat \<Rightarrow> nat \<Rightarrow> u32 \<Rightarrow> nat \<Rightarrow> progress_states \<Rightarrow> (progress_states \<times> ipc_event list \<times> string list) option" where
  "with_context_label fixed jobs now ctxt share_id role action log_level completed whole index n_bytes states =
     (if log_level = Quiet then Some (states, [], [])
      else
        let key = \<lparr>pk_context = ctxt, pk_role = role, pk_action = action, pk_total = whole\<rparr>;
            state = (case states key of Some s \<Rightarrow> s | None \<Rightarrow> progress_state_new now);
            state = (if ps_last_done state < completed
              then state\<lparr>ps_bytes_done := saturating_add_u64 (ps_bytes_done state) (of_nat n_bytes), ps_last_done := completed\<rparr> else state) in
        if \<not> should_log_progress log_level completed whole (now - ps_last_log state) then Some (states(key \<mapsto> state), [], [])
        else
          let total_bytes = estimated_total_bytes (ps_bytes_done state) completed whole;
              average_rate = bytes_per_second (ps_bytes_done state) (now - ps_start state) in
          case format_progress_line fixed role action completed whole index n_bytes state total_bytes average_rate of
            None \<Rightarrow> None
          | Some line \<Rightarrow>
              let events = progress_events jobs ctxt share_id role action completed whole (ps_bytes_done state) total_bytes (rat_to_u64 average_rate) in
              Some (if whole \<le> completed then states(key := None) else states(key \<mapsto> state\<lparr>ps_last_log := now\<rparr>), events, [line]))"

definition with_context ::
    "(nat \<Rightarrow> rat \<Rightarrow> string) \<Rightarrow> job_registry \<Rightarrow> nat \<Rightarrow> share_id option \<Rightarrow> string \<Rightarrow> string \<Rightarrow> transfer_log_level \<Rightarrow>
     nat \<Rightarrow> nat \<Rightarrow> u32 \<Rightarrow> nat \<Rightarrow> progress_states \<Rightarrow> (progress_states \<times> ipc_event list \<times> string list) option" where
  "with_context fixed jobs now share_id role action log_level completed whole index n_bytes states =
     with_context_label fixed jobs now (case share_id of Some sid \<Rightarrow> share_id_to_string sid | None \<Rightarrow> ''global'')
       share_id role action log_level completed whole index n_bytes states"

definition progress_for_share ::
    "(nat \<Rightarrow> rat \<Rightarrow> string) \<Rightarrow> job_registry \<Rightarrow> nat \<Rightarrow> share_id \<Rightarrow> string \<Rightarrow> string \<Rightarrow> transfer_log_level \<Rightarrow>
     nat \<Rightarrow> nat \<Rightarrow> u32 \<Rightarrow> nat \<Rightarrow> progress_states \<Rightarrow> (progress_states \<times> ipc_event list \<times> string list) option" where
  "progress_for_share fixed jobs now sid = with_context fixed jobs now (Some sid)"

definition progress_with_label ::
    "(nat \<Rightarrow> rat \<Rightarrow> string) \<Rightarrow> job_registry \<Rightarrow> nat \<Rightarrow> string \<Rightarrow> string \<Rightarrow> string \<Rightarrow> transfer_log_level \<Rightarrow>
     nat \<Rightarrow> nat \<Rightarrow> u32 \<Rightarrow> nat \<Rightarrow> progress_states \<Rightarrow> (progress_states \<times> ipc_event list \<times> string list) option" where
  "progress_with_label fixed jobs now ctxt = with_context_label fixed jobs now ctxt None"

definition progress_log ::
    "(nat \<Rightarrow> rat \<Rightarrow> string) \<Rightarrow> job_registry \<Rightarrow> nat \<Rightarrow> string \<Rightarrow> string \<Rightarrow> transfer_log_level \<Rightarrow>
     nat \<Rightarrow> nat \<Rightarrow> u32 \<Rightarrow> nat \<Rightarrow> progress_states \<Rightarrow> (progress_states \<times> ipc_event list \<times> string list) option" where
  "progress_log fixed jobs now = with_context fixed jobs now None"

section \<open>Estimates stay within bounds\<close>

lemma unat_max_u64: "unat (- 1 :: u64) = 2 ^ 64 - 1"
  by (simp add: unsigned_minus_1_eq_mask mask_eq_exp_minus_1)

lemma unat_saturating_mul: "unat (saturating_mul_u64 a b) \<le> unat a * unat b"
proof (cases "unat a * unat b < 2 ^ 64")
  case True
  then show ?thesis by (simp add: saturating_mul_u64_def unat_word_ariths)
next
  case False
  then show ?thesis by (simp add: saturating_mul_u64_def unat_max_u64)
qed

lemma unat_saturating_add: "unat (saturating_add_u64 a b) = min (unat a + unat b) (2 ^ 64 - 1)"
proof (cases "unat a + unat b < 2 ^ 64")
  case True
  then show ?thesis by (simp add: saturating_add_u64_def unat_word_ariths)
qed (simp add: saturating_add_u64_def unat_max_u64)

lemma estimated_total_le:
  assumes "B \<noteq> 0" "0 < completed"
  shows "unat (estimated_total_bytes B completed whole) \<le> unat B * max whole 1"
proof -
  have B: "1 \<le> unat B" using assms(1) by (simp add: Suc_le_eq unat_gt_0)
  have "unat (max (B div of_nat completed) 1) \<le> unat B"
    using B by (simp add: max_def unat_div)
  then have "unat (max (B div of_nat completed) 1) * unat (of_nat whole :: u64) \<le> unat B * whole"
    by (intro mult_le_mono) (simp_all add: unat_of_nat)
  then have "unat (saturating_mul_u64 (max (B div of_nat completed) 1) (of_nat whole)) \<le> unat B * whole"
    using unat_saturating_mul order_trans by blast
  then show ?thesis by (auto simp: estimated_total_bytes_def max_def)
qed

lemma divide_rate_le: "x \<le> b * m \<Longrightarrow> 0 < b \<Longrightarrow> 0 < s \<Longrightarrow> x / (b / s) \<le> m * (s :: rat)"
  by (simp add: divide_simps mult.commute mult.left_commute)

text \<open>The estimate of the time left fits, unless a transfer of very many chunks takes very long.\<close>

lemma eta_fits:
  assumes "B \<noteq> 0 \<Longrightarrow> 0 < completed" and "max whole 1 * elapsed < 2 ^ 64 * nanos_per_sec"
  shows "\<exists>eta. estimate_eta B (estimated_total_bytes B completed whole) (bytes_per_second B elapsed) = Some eta"
proof -
  let ?T = "estimated_total_bytes B completed whole" and ?rate = "bytes_per_second B elapsed" and ?secs = "rat_of_nat elapsed / of_nat nanos_per_sec"
  show ?thesis
  proof (cases "?T \<le> B \<or> ?rate \<le> f64_epsilon")
    case False
    have eps: "0 < f64_epsilon" by (simp add: f64_epsilon_def)
    have "\<not> ?secs \<le> f64_epsilon" using False eps by (auto simp: bytes_per_second_def Let_def)
    then have rate: "?rate = of_nat (unat B) / ?secs" and secs: "0 < ?secs"
      using eps by (simp_all add: bytes_per_second_def Let_def)
    with False have B: "0 < unat B" by (cases "B = 0") (auto simp: f64_epsilon_def unat_gt_0)
    then have "unat ?T \<le> unat B * max whole 1" using assms(1) by (intro estimated_total_le) (auto simp: unat_gt_0)
    then have "unat ?T - unat B \<le> unat B * max whole 1" by simp
    then have "rat_of_nat (unat ?T - unat B) \<le> of_nat (unat B * max whole 1)" using of_nat_le_iff by blast
    then have "rat_of_nat (unat ?T - unat B) \<le> of_nat (unat B) * of_nat (max whole 1)" by (simp only: of_nat_mult)
    then have "of_nat (unat ?T - unat B) / ?rate \<le> of_nat (max whole 1) * ?secs"
      unfolding rate by (rule divide_rate_le) (use B secs in \<open>simp_all only: of_nat_0_less_iff\<close>)
    also have "\<dots> < 2 ^ 64"
    proof -
      have "rat_of_nat (max whole 1 * elapsed) < of_nat (2 ^ 64 * nanos_per_sec)" using assms(2) of_nat_less_iff by blast
      then show ?thesis by (simp add: nanos_per_sec_def divide_simps)
    qed
    finally have "of_nat (unat ?T - unat B) / ?rate < 2 ^ 64" .
    moreover have "0 \<le> of_nat (unat ?T - unat B) / ?rate" using False eps by (simp add: order_less_imp_le)
    ultimately show ?thesis using False by (simp add: estimate_eta_def from_secs_f64_def)
  qed (auto simp: estimate_eta_def)
qed

section \<open>The reports of one transfer\<close>

text \<open>What an event says of the transfer: chunks and bytes so far, and their totals.\<close>

fun reported :: "ipc_event \<Rightarrow> (nat \<times> nat \<times> u64 \<times> u64) option" where
  "reported (TaskProgress job_id task label completed whole done_bytes total_bytes speed) = Some (completed, whole, done_bytes, total_bytes)"
| "reported (TransferProgress job_id sid completed whole done_bytes total_bytes speed) = Some (completed, whole, done_bytes, total_bytes)"
| "reported _ = None"

lemma progress_events_reported:
  "e \<in> set (progress_events jobs ctxt share_id role action completed whole B T speed) \<Longrightarrow> reported e = Some (completed, whole, B, T)"
  by (auto simp: progress_events_def split: option.splits if_splits)

lemma progress_events_not_Nil [simp]: "progress_events jobs ctxt share_id role action completed whole B T speed \<noteq> []"
  by (simp add: progress_events_def split: option.splits)

abbreviation state_of :: "progress_states \<Rightarrow> progress_key \<Rightarrow> nat \<Rightarrow> progress_state" where
  "state_of states key now \<equiv> (case states key of Some s \<Rightarrow> s | None \<Rightarrow> progress_state_new now)"

text \<open>A report that counts a further chunk.\<close>

lemma report_counts:
  fixes ctxt role action whole
  defines "key \<equiv> \<lparr>pk_context = ctxt, pk_role = role, pk_action = action, pk_total = whole\<rparr>"
  assumes level: "log_level \<noteq> Quiet" and further: "ps_last_done (state_of states key now) < completed"
    and B: "B = saturating_add_u64 (ps_bytes_done (state_of states key now)) (of_nat n_bytes)"
    and fits: "max whole 1 * (now - ps_start (state_of states key now)) < 2 ^ 64 * nanos_per_sec"
  obtains s events lines where
    "with_context_label fixed jobs now ctxt share_id role action log_level completed whole index n_bytes states =
       Some (states(key := (if whole \<le> completed then None else Some s)), events, lines)"
    and "ps_start s = ps_start (state_of states key now)" "ps_last_done s = completed" "ps_bytes_done s = B"
    and "\<And>e. e \<in> set events \<Longrightarrow> reported e = Some (completed, whole, B, estimated_total_bytes B completed whole)"
    and "whole \<le> completed \<Longrightarrow> events \<noteq> []"
proof -
  define st where "st = (state_of states key now)\<lparr>ps_bytes_done := B, ps_last_done := completed\<rparr>"
  have st: "ps_start st = ps_start (state_of states key now)" "ps_last_done st = completed" "ps_bytes_done st = B"
    by (simp_all add: st_def)
  show thesis
  proof (cases "should_log_progress log_level completed whole (now - ps_last_log st)")
    case False
    then have "\<not> whole \<le> completed" using level by (auto simp: should_log_progress_def split: transfer_log_level.splits)
    moreover have "with_context_label fixed jobs now ctxt share_id role action log_level completed whole index n_bytes states = Some (states(key \<mapsto> st), [], [])"
      using level further False by (simp add: with_context_label_def Let_def st_def B flip: key_def)
    ultimately show thesis using st by (intro that [of st "[]" "[]"]) auto
  next
    case True
    obtain eta where "estimate_eta B (estimated_total_bytes B completed whole) (bytes_per_second B (now - ps_start st)) = Some eta"
      using eta_fits [of B completed whole "now - ps_start st"] fits further st(1) by auto
    then obtain line where line: "format_progress_line fixed role action completed whole index n_bytes st (estimated_total_bytes B completed whole)
        (bytes_per_second B (now - ps_start st)) = Some line"
      by (simp add: format_progress_line_def st(3))
    let ?events = "progress_events jobs ctxt share_id role action completed whole B (estimated_total_bytes B completed whole)
      (rat_to_u64 (bytes_per_second B (now - ps_start st)))"
    have "with_context_label fixed jobs now ctxt share_id role action log_level completed whole index n_bytes states =
        Some (states(key := (if whole \<le> completed then None else Some (st\<lparr>ps_last_log := now\<rparr>))), ?events, [line])"
      using level further True line st by (simp add: with_context_label_def Let_def st_def B flip: key_def)
    then show thesis using st by (intro that [of "st\<lparr>ps_last_log := now\<rparr>" ?events "[line]"]) (auto dest: progress_events_reported)
  qed
qed

text \<open>
  A transfer reports its chunks one after the other; a report is its instant, the index of the chunk and its bytes, and
  \<open>before\<close> chunks have been reported already.
\<close>

fun report_chunks ::
    "(nat \<Rightarrow> rat \<Rightarrow> string) \<Rightarrow> job_registry \<Rightarrow> string \<Rightarrow> share_id option \<Rightarrow> string \<Rightarrow> string \<Rightarrow> transfer_log_level \<Rightarrow> nat \<Rightarrow>
     nat \<Rightarrow> (nat \<times> u32 \<times> nat) list \<Rightarrow> progress_states \<Rightarrow> (progress_states \<times> ipc_event list) option" where
  "report_chunks fixed jobs ctxt share_id role action log_level whole before [] states = Some (states, [])"
| "report_chunks fixed jobs ctxt share_id role action log_level whole before ((now, index, n_bytes) # reports) states =
     (case with_context_label fixed jobs now ctxt share_id role action log_level (Suc before) whole index n_bytes states of
        None \<Rightarrow> None
      | Some (states', events, lines) \<Rightarrow>
          map_option (\<lambda>(final, later). (final, events @ later))
            (report_chunks fixed jobs ctxt share_id role action log_level whole (Suc before) reports states'))"

definition bytes_of :: "(nat \<times> u32 \<times> nat) list \<Rightarrow> nat" where
  "bytes_of reports = sum_list (map (\<lambda>(now, index, n_bytes). n_bytes) reports)"

lemma bytes_of_simps [simp]: "bytes_of [] = 0" "bytes_of ((now, index, n) # reports) = n + bytes_of reports"
  by (simp_all add: bytes_of_def)

text \<open>An event says after how many of the reports it was published, and with how many bytes.\<close>

definition counts_reports :: "nat \<Rightarrow> nat \<Rightarrow> nat \<Rightarrow> (nat \<times> u32 \<times> nat) list \<Rightarrow> ipc_event \<Rightarrow> bool" where
  "counts_reports whole before B reports e \<longleftrightarrow> (\<exists>k \<le> length reports. let b = of_nat (B + bytes_of (take k reports)) in
     reported e = Some (before + k, whole, b, estimated_total_bytes b (before + k) whole))"

lemma counts_reports_first:
  assumes "reported e = Some (Suc before, whole, of_nat (B + n), estimated_total_bytes (of_nat (B + n)) (Suc before) whole)"
  shows "counts_reports whole before B ((now, index, n) # reports) e"
  unfolding counts_reports_def using assms by (intro exI [of _ 1]) (simp add: bytes_of_def)

lemma counts_reports_later:
  assumes "counts_reports whole (Suc before) (B + n) reports e"
  shows "counts_reports whole before B ((now, index, n) # reports) e"
proof -
  from assms obtain k where "k \<le> length reports" "reported e = Some (Suc before + k, whole, of_nat (B + n + bytes_of (take k reports)),
      estimated_total_bytes (of_nat (B + n + bytes_of (take k reports))) (Suc before + k) whole)"
    by (auto simp: counts_reports_def Let_def)
  then show ?thesis unfolding counts_reports_def by (intro exI [of _ "Suc k"]) (simp add: bytes_of_def add.assoc)
qed

text \<open>The reports of a transfer from \<open>before\<close> chunks with \<open>B\<close> bytes on, to the last one.\<close>

lemma report_chunks_from:
  fixes ctxt role action whole
  defines "key \<equiv> \<lparr>pk_context = ctxt, pk_role = role, pk_action = action, pk_total = whole\<rparr>"
  assumes level: "log_level \<noteq> Quiet" and "before + length reports = whole" "reports \<noteq> []"
    and "\<And>now index n. (now, index, n) \<in> set reports \<Longrightarrow> whole * (now - start) < 2 ^ 64 * nanos_per_sec"
    and "B + bytes_of reports < 2 ^ 64"
    and "case states key of Some s \<Rightarrow> ps_start s = start \<and> ps_last_done s = before \<and> ps_bytes_done s = of_nat B
      | None \<Rightarrow> before = 0 \<and> B = 0 \<and> start = fst (hd reports)"
  shows "\<exists>events. report_chunks fixed jobs ctxt share_id role action log_level whole before reports states = Some (states(key := None), events) \<and>
    events \<noteq> [] \<and> reported (last events) = Some (whole, whole, of_nat (B + bytes_of reports), of_nat (B + bytes_of reports)) \<and>
    (\<forall>e \<in> set events. counts_reports whole before B reports e)"
  using assms(3-)
proof (induction reports arbitrary: before B states)
  case (Cons r reports)
  obtain now index n where r: "r = (now, index, n)" by (cases r)
  let ?st = "state_of states key now"
  have st: "ps_start ?st = start" "ps_last_done ?st = before" "ps_bytes_done ?st = of_nat B"
    using Cons.prems(5) by (auto simp: r progress_state_new_def split: option.splits)
  have "B + n < 2 ^ 64" using Cons.prems(4) by (simp add: bytes_of_def r)
  then have B: "of_nat (B + n) = saturating_add_u64 (ps_bytes_done ?st) (of_nat n)"
    by (simp add: st(3) saturating_add_u64_def unat_of_nat)
  have "max whole 1 = whole" using Cons.prems(1) by simp
  then have fits: "max whole 1 * (now - ps_start ?st) < 2 ^ 64 * nanos_per_sec"
    unfolding st(1) using Cons.prems(3) [of now index n] by (simp add: r)
  have further: "ps_last_done ?st < Suc before" by (simp add: st(2))
  obtain s events lines where run: "with_context_label fixed jobs now ctxt share_id role action log_level (Suc before) whole index n states =
       Some (states(key := (if whole \<le> Suc before then None else Some s)), events, lines)"
    and s: "ps_start s = start" "ps_last_done s = Suc before" "ps_bytes_done s = of_nat (B + n)"
    and events: "\<And>e. e \<in> set events \<Longrightarrow> reported e = Some (Suc before, whole, of_nat (B + n), estimated_total_bytes (of_nat (B + n)) (Suc before) whole)"
    and ended: "whole \<le> Suc before \<Longrightarrow> events \<noteq> []"
    unfolding st(1) [symmetric] unfolding key_def
    by (rule report_counts [where states = states and ctxt = ctxt and role = role and action = action and whole = whole,
          OF level further [unfolded key_def] B [unfolded key_def] fits [unfolded key_def]]) blast
  have first: "\<forall>e \<in> set events. counts_reports whole before B ((now, index, n) # reports) e"
    using events counts_reports_first by blast
  show ?case
  proof (cases "reports = []")
    case True
    then have "whole = Suc before" using Cons.prems(1) by simp
    then show ?thesis using run True ended events [OF last_in_set] first by (simp add: r estimated_total_bytes_def fun_upd_def)
  next
    case False
    then have unended: "\<not> whole \<le> Suc before" using Cons.prems(1) by (cases reports) auto
    have "\<exists>later. report_chunks fixed jobs ctxt share_id role action log_level whole (Suc before) reports (states(key \<mapsto> s)) =
        Some ((states(key \<mapsto> s))(key := None), later) \<and> later \<noteq> [] \<and>
        reported (last later) = Some (whole, whole, of_nat (B + n + bytes_of reports), of_nat (B + n + bytes_of reports)) \<and>
        (\<forall>e \<in> set later. counts_reports whole (Suc before) (B + n) reports e)"
      by (rule Cons.IH) (use False Cons.prems s in \<open>auto simp: r\<close>)
    then obtain later where "report_chunks fixed jobs ctxt share_id role action log_level whole (Suc before) reports (states(key \<mapsto> s)) =
        Some (states(key := None), later)" "later \<noteq> []"
        "reported (last later) = Some (whole, whole, of_nat (B + n + bytes_of reports), of_nat (B + n + bytes_of reports))"
      and "\<forall>e \<in> set later. counts_reports whole before B ((now, index, n) # reports) e"
      using counts_reports_later by auto
    with run unended first show ?thesis by (intro exI [of _ "events @ later"]) (auto simp: r add.assoc)
  qed
qed simp


definition sample_reports :: "(nat \<times> u32 \<times> nat) list" where
  "sample_reports = [(1000000000, 0, 4), (1000000000, 1, 4), (2000000000, 2, 1)]"


section \<open>Where the count is off\<close>

text \<open>Before the last chunk the estimate of the total can be below the bytes already counted: nine bytes in five of six chunks.\<close>

lemma estimate_below_bytes_done: "estimated_total_bytes 9 5 6 = 6"
  by (simp add: estimated_total_bytes_def saturating_mul_u64_def)

text \<open>
  The state of a transfer that stops before its last chunk stays in the table; the next attempt, under the same key, counts no
  byte until it is past the old number of chunks, and ends with the bytes of the old attempt in its sum.
\<close>

lemma abandoned_progress_is_counted_again:
  assumes "report_chunks fixed jobs ctxt share_id role action Verbose 2 0 [(t, 0, 5)] Map.empty = Some (states, events)"
    and "report_chunks fixed jobs ctxt share_id role action Verbose 2 0 [(u, 0, 1), (u, 1, 1)] states = Some (states', later)"
  shows "reported (last later) = Some (2, 2, 6, 6)"
proof -
  let ?key = "\<lparr>pk_context = ctxt, pk_role = role, pk_action = action, pk_total = 2\<rparr>"
  from assms(1) have "states = Map.empty(?key \<mapsto> \<lparr>ps_start = t, ps_last_log = t, ps_last_done = 1, ps_bytes_done = 5\<rparr>)"
    by (auto simp: with_context_label_def Let_def should_log_progress_def progress_state_new_def saturating_add_u64_def split: option.splits)
  with assms(2) obtain speed events where "later = events @ progress_events jobs ctxt share_id role action (Suc (Suc 0)) 2 6 6 speed"
    by (auto simp: with_context_label_def Let_def should_log_progress_def saturating_add_u64_def estimated_total_bytes_def split: option.splits)
  then show ?thesis by (simp add: progress_events_reported [OF last_in_set])
qed

end
