(* ===== verification/Etle_Server.thy ===== *)
theory Etle_Server
  imports Etle_Serve
begin

text \<open>
  The server for peers, \<open>library_forever\<close> and \<open>share_forever\<close> of \<open>src/network/transfer/serve.rs\<close>: a loop accepts
  connections and spawns a session for each; sessions run beside the loop, in any order, and their outcome is only printed.
  A session works on the stream of its own connection. The state keeps the streams that were accepted, those of sessions
  that still wait, and, of each session that has run, its stream, its result and what it sent.
\<close>

section \<open>The loop and its sessions\<close>

type_synonym session = "(network_error, etle_descriptor) io"

record peer_server =
  pv_end :: "network_error option"
  pv_accepted :: "bytes list"
  pv_waiting :: "bytes list"
  pv_finished :: "(bytes \<times> (network_error, etle_descriptor) result \<times> bytes) list"

definition peer_server_new :: peer_server where
  "peer_server_new = \<lparr>pv_end = None, pv_accepted = [], pv_waiting = [], pv_finished = []\<rparr>"

text \<open>One iteration of the loop; an error of \<open>accept\<close> ends the function.\<close>

definition accept_iteration :: "peer_server \<Rightarrow> world \<Rightarrow> peer_server \<times> world" where
  "accept_iteration S w = (case accept_peer w of
      (Inl e, w') \<Rightarrow> (S\<lparr>pv_end := Some e\<rparr>, w')
    | (Inr _, w') \<Rightarrow> (S\<lparr>pv_accepted := pv_accepted S @ [inp w'], pv_waiting := pv_waiting S @ [inp w']\<rparr>, w'))"

text \<open>A spawned session runs to its end on its own stream.\<close>

definition run_session :: "session \<Rightarrow> nat \<Rightarrow> peer_server \<Rightarrow> world \<Rightarrow> peer_server \<times> world" where
  "run_session session k S w =
     (case session (w\<lparr>inp := pv_waiting S ! k, out := []\<rparr>) of (r, w') \<Rightarrow>
      (S\<lparr>pv_waiting := take k (pv_waiting S) @ drop (Suc k) (pv_waiting S),
         pv_finished := pv_finished S @ [(pv_waiting S ! k, r, out w')]\<rparr>, w'\<lparr>inp := inp w, out := out w\<rparr>))"

inductive forever_step :: "session \<Rightarrow> peer_server \<times> world \<Rightarrow> peer_server \<times> world \<Rightarrow> bool" for session where
  accept: "pv_end S = None \<Longrightarrow> forever_step session (S, w) (accept_iteration S w)"
| session: "k < length (pv_waiting S) \<Longrightarrow> forever_step session (S, w) (run_session session k S w)"

inductive_cases forever_stepE: "forever_step session (S, w) T"

inductive forever_reaches :: "session \<Rightarrow> peer_server \<times> world \<Rightarrow> peer_server \<times> world \<Rightarrow> bool" for session where
  start: "forever_reaches session s s"
| step: "forever_reaches session s t \<Longrightarrow> forever_step session t u \<Longrightarrow> forever_reaches session s u"

definition library_forever :: "transfer_env \<Rightarrow> path \<Rightarrow> serve_file_options \<Rightarrow> world \<Rightarrow> peer_server \<times> world \<Rightarrow> bool" where
  "library_forever E library_root opts w = forever_reaches (library_connected_peer E library_root opts) (peer_server_new, w)"

definition share_forever :: "transfer_env \<Rightarrow> path \<Rightarrow> share_id \<Rightarrow> serve_file_options \<Rightarrow> world \<Rightarrow> peer_server \<times> world \<Rightarrow> bool" where
  "share_forever E library_root sid opts w = forever_reaches (share_connected_peer E library_root sid opts) (peer_server_new, w)"

section \<open>Sessions that only read\<close>

text \<open>\<open>served_alone\<close>: the outcome of a session is one that it can have without any other peer, on the files \<open>f\<close>.\<close>

definition served_alone :: "session \<Rightarrow> (path \<Rightarrow> node option) \<Rightarrow> bytes \<times> (network_error, etle_descriptor) result \<times> bytes \<Rightarrow> bool" where
  "served_alone session f = (\<lambda>(input, r, sent).
     \<exists>u u'. lookup u = f \<and> inp u = input \<and> out u = [] \<and> session u = (r, u') \<and> out u' = sent)"

definition accounted :: "peer_server \<Rightarrow> bool" where
  "accounted S \<longleftrightarrow> mset (pv_accepted S) = mset (pv_waiting S) + mset (map fst (pv_finished S))"

lemma lookup_stream [simp]: "lookup (w\<lparr>inp := i, out := b\<rparr>) = lookup w"
  by (simp add: fun_eq_iff lookup_def)

lemma mset_remove_at: "k < length xs \<Longrightarrow> mset xs = mset (take k xs @ drop (Suc k) xs) + {#xs ! k#}"
  by (metis id_take_nth_drop mset.simps(2) mset_append union_mset_add_mset_right add_mset_add_single union_assoc)

lemma accept_lookup: "accept_peer w = (r, w') \<Longrightarrow> lookup w' = lookup w"
  by (auto simp: accept_peer_def intoE_run stream_connect_def syscall_def no_effect_def fun_eq_iff lookup_def
      split: list.splits option.splits sum.splits prod.splits)

lemma accounted_new: "accounted peer_server_new"
  by (simp add: accounted_def peer_server_new_def)

lemma accounted_accept: "accounted S \<Longrightarrow> accounted (fst (accept_iteration S w))"
  by (simp add: accounted_def accept_iteration_def split: prod.splits sum.splits)

lemma accounted_session: "accounted S \<Longrightarrow> k < length (pv_waiting S) \<Longrightarrow> accounted (fst (run_session session k S w))"
  by (simp add: accounted_def run_session_def mset_remove_at [of k "pv_waiting S"] split: prod.splits)

locale reading_session =
  fixes session :: session
  assumes reads_only: "lookup (snd (session w)) = lookup w"
begin

lemma run_session_lookup: "lookup (snd (run_session session k S w)) = lookup w"
  using reads_only [of "w\<lparr>inp := pv_waiting S ! k, out := []\<rparr>"] by (auto simp: run_session_def split: prod.splits)

lemma run_session_alone:
  assumes "\<forall>x \<in> set (pv_finished S). served_alone session (lookup w) x"
  shows "\<forall>x \<in> set (pv_finished (fst (run_session session k S w))). served_alone session (lookup w) x"
proof -
  obtain r w' where run: "session (w\<lparr>inp := pv_waiting S ! k, out := []\<rparr>) = (r, w')" by fastforce
  then have "served_alone session (lookup w) (pv_waiting S ! k, r, out w')"
    unfolding served_alone_def prod.case by (intro exI [of _ "w\<lparr>inp := pv_waiting S ! k, out := []\<rparr>"] exI [of _ w']) simp
  with assms run show ?thesis by (simp add: run_session_def)
qed

lemma step_invariant:
  assumes "forever_step session (S, w) (T, v)" and "accounted S" and "\<forall>x \<in> set (pv_finished S). served_alone session (lookup w) x"
  shows "lookup v = lookup w \<and> accounted T \<and> (\<forall>x \<in> set (pv_finished T). served_alone session (lookup w) x)"
  using assms(1)
proof (rule forever_stepE)
  assume "(T, v) = accept_iteration S w"
  moreover have "lookup (snd (accept_iteration S w)) = lookup w" "pv_finished (fst (accept_iteration S w)) = pv_finished S"
    by (auto simp: accept_iteration_def dest: accept_lookup split: prod.splits sum.splits)
  ultimately show ?thesis using accounted_accept [OF assms(2), of w] assms(3) by (metis fst_conv snd_conv)
next
  fix k
  assume "(T, v) = run_session session k S w" "k < length (pv_waiting S)"
  then show ?thesis
    using run_session_lookup [of k S w] run_session_alone [OF assms(3)] accounted_session [OF assms(2), of k session w] by (metis fst_conv snd_conv)
qed

lemma reach_invariant:
  assumes "forever_reaches session (peer_server_new, w) (S, v)"
  shows "lookup v = lookup w \<and> accounted S \<and> (\<forall>x \<in> set (pv_finished S). served_alone session (lookup w) x)"
  using assms
proof (induction "(peer_server_new, w)" "(S, v)" arbitrary: S v rule: forever_reaches.induct)
  case start
  then show ?case by (simp add: accounted_new) (simp add: peer_server_new_def)
next
  case (step t)
  then show ?case using step_invariant by (cases t) metis
qed

end

lemma forever_reaches_trans:
  "forever_reaches session s t \<Longrightarrow> forever_reaches session t u \<Longrightarrow> forever_reaches session s u"
  by (rotate_tac, induction rule: forever_reaches.induct) (auto intro: forever_reaches.step)

text \<open>Whatever state the server is in, the sessions that wait can all run to their end, and this does not end the loop.\<close>

lemma waiting_can_finish:
  "\<exists>T u. forever_reaches session (S, v) (T, u) \<and> pv_waiting T = [] \<and> pv_end T = pv_end S \<and> pv_accepted T = pv_accepted S"
proof (induction "length (pv_waiting S)" arbitrary: S v)
  case 0
  then show ?case by (auto intro: forever_reaches.start)
next
  case (Suc n)
  obtain T u where T: "run_session session 0 S v = (T, u)" by fastforce
  from T Suc.hyps(2) have "n = length (pv_waiting T)" "pv_end T = pv_end S" "pv_accepted T = pv_accepted S"
    by (auto simp: run_session_def split: prod.splits)
  with Suc.hyps(1) [of T u] obtain T' u' where "forever_reaches session (T, u) (T', u')" "pv_waiting T' = []" "pv_end T' = pv_end S" "pv_accepted T' = pv_accepted S"
    by auto
  moreover have "forever_step session (S, v) (T, u)" using forever_step.session [of 0 S session v] T Suc.hyps(2) by (cases "pv_waiting S") simp_all
  ultimately show ?case by (meson forever_reaches.start forever_reaches.step forever_reaches_trans)
qed

section \<open>The sessions of a seeder\<close>

interpretation library_session: reading_session "library_connected_peer E library_root opts" for E library_root opts
  by unfold_locales (simp add: serving_reads_only)

interpretation share_session: reading_session "share_connected_peer E library_root sid opts" for E library_root sid opts
  by unfold_locales (simp add: serving_reads_only)


lemma share_peers_served_independently:
  assumes "share_forever E library_root sid opts w (S, v)"
  shows "lookup v = lookup w \<and> accounted S \<and> (\<forall>x \<in> set (pv_finished S). served_alone (share_connected_peer E library_root sid opts) (lookup w) x)"
  using share_session.reach_invariant assms by (simp add: share_forever_def)

definition sample_visited_world :: world where
  "sample_visited_world = empty_world\<lparr>conns := [Inr [1], Inr [2]]\<rparr>"

definition sample_server :: "peer_server \<times> world" where
  "sample_server = run_session (library_connected_peer (sample_env [] sample_seed_codecs) [] sample_serve_options) 1
     (fst (accept_iteration (fst (accept_iteration peer_server_new sample_visited_world)) (snd (accept_iteration peer_server_new sample_visited_world))))
     (snd (accept_iteration (fst (accept_iteration peer_server_new sample_visited_world)) (snd (accept_iteration peer_server_new sample_visited_world))))"


end
