(* ===== verification/Etle_Examples.thy ===== *)
theory Etle_Examples
  imports Etle_FileStorage
begin

text \<open>
  The example programs \<open>examples/local_roundtrip.rs\<close> and \<open>examples/debug_roundtrip.rs\<close>: a key exchange between two
  key pairs of one process, the wrapping of a file key, and the encryption and decryption of a file, the second one by
  way of a workspace on disk. After each part the programs check with \<open>ensure!\<close> that it worked; these checks are errors of
  their own, so that they can be shown to be impossible. What is printed is left out.
\<close>

datatype example_error = ExUsage | ExIo io_error | ExCrypto crypto_error | ExFile file_error | ExEnsure string

definition ensure :: "string \<Rightarrow> bool \<Rightarrow> (example_error, unit) result" where
  "ensure message condition = (if condition then Inr () else Inl (ExEnsure message))"

section \<open>The shared parts\<close>

definition example_psk :: "deps \<Rightarrow> (string \<rightharpoonup> string) \<Rightarrow> auth_psk" where
  "example_psk D env = from_passphrase D (str_bytes (case env ''ETLE_EXAMPLE_PSK'' of Some p \<Rightarrow> p | None \<Rightarrow> ''etle-example-psk''))"

record example_session =
  xs_seeder_public :: public_key_bytes
  xs_peer_public :: public_key_bytes
  xs_seeder_key :: symmetric_key
  xs_peer_key :: symmetric_key

text \<open>Two ephemeral key pairs, their shared secrets and the session keys, which must be equal.\<close>

definition derive_sessions :: "deps \<Rightarrow> (example_error, example_session) io" where
  "derive_sessions D =
     bindE (generate_keypair D) (\<lambda>seeder.
     bindE (generate_keypair D) (\<lambda>peer.
     bindE (liftE (map_err ExCrypto (diffie_hellman D seeder (kp_public peer)))) (\<lambda>seeder_shared.
     bindE (liftE (map_err ExCrypto (diffie_hellman D peer (kp_public seeder)))) (\<lambda>peer_shared.
     let seeder_key = derive_session_key_with_transcript D seeder_shared (kp_public peer) (kp_public seeder);
         peer_key = derive_session_key_with_transcript D peer_shared (kp_public peer) (kp_public seeder) in
     bindE (liftE (ensure ''session keys do not match'' (seeder_key = peer_key))) (\<lambda>_.
     returnE \<lparr>xs_seeder_public = kp_public seeder, xs_peer_public = kp_public peer, xs_seeder_key = seeder_key, xs_peer_key = peer_key\<rparr>)))))"

definition verify_client_proof :: "deps \<Rightarrow> auth_psk \<Rightarrow> example_session \<Rightarrow> (example_error, unit) result" where
  "verify_client_proof D psk s =
     (let peer_proof = derive_auth_tag D psk (xs_peer_key s) (xs_peer_public s) (xs_seeder_public s) Client;
          expected = derive_auth_tag D psk (xs_seeder_key s) (xs_peer_public s) (xs_seeder_public s) Client in
      ensure ''client PSK proof failed'' (auth_tags_equal peer_proof expected))"

definition verify_psk_proofs :: "deps \<Rightarrow> auth_psk \<Rightarrow> example_session \<Rightarrow> (example_error, unit) result" where
  "verify_psk_proofs D psk s =
     and_then (verify_client_proof D psk s) (\<lambda>_.
     let seeder_proof = derive_auth_tag D psk (xs_seeder_key s) (xs_peer_public s) (xs_seeder_public s) Server;
         expected = derive_auth_tag D psk (xs_peer_key s) (xs_peer_public s) (xs_seeder_public s) Server in
      ensure ''server PSK proof failed'' (auth_tags_equal seeder_proof expected))"

text \<open>The file key on the side of the seeder, and as the peer unwraps it.\<close>

definition exchange_file_key :: "deps \<Rightarrow> example_session \<Rightarrow> file_id \<Rightarrow> (example_error, symmetric_key \<times> symmetric_key) io" where
  "exchange_file_key D s fid =
     bindE generate_file_key (\<lambda>file_key.
     bindE (intoE ExCrypto (wrap_file_key D (xs_seeder_key s) fid file_key)) (\<lambda>wrapped.
     bindE (liftE (map_err ExCrypto (unwrap_file_key D (xs_peer_key s) fid wrapped))) (\<lambda>peer_file_key.
     bindE (liftE (ensure ''unwrapped file key does not match'' (peer_file_key = file_key))) (\<lambda>_.
     returnE (file_key, peer_file_key)))))"

definition verify_output :: "deps \<Rightarrow> path \<Rightarrow> file_id \<Rightarrow> (example_error, unit) io" where
  "verify_output D output_path fid =
     bindE (intoE ExIo (hash_file D output_path)) (\<lambda>output_id.
     liftE (ensure ''reconstructed file hash does not match original'' (output_id = fid)))"

section \<open>The programs\<close>

definition local_roundtrip :: "deps \<Rightarrow> (string \<rightharpoonup> string) \<Rightarrow> path list \<Rightarrow> (example_error, path) io" where
  "local_roundtrip D env args =
     (case args of
        [] \<Rightarrow> throwE ExUsage
      | input # _ \<Rightarrow>
          bindE (intoE ExIo (hash_file D input)) (\<lambda>fid.
          bindE (derive_sessions D) (\<lambda>s.
          bindE (liftE (verify_psk_proofs D (example_psk D env) s)) (\<lambda>_.
          bindE (exchange_file_key D s fid) (\<lambda>(file_key, peer_file_key).
          bindE (intoE ExFile (encrypt_file D input file_key DEFAULT_CHUNK_SIZE)) (\<lambda>encrypted.
          let output_path = default_output_path input in
          bindE (intoE ExFile (decrypt_to_file D encrypted peer_file_key output_path)) (\<lambda>_.
          bindE (verify_output D output_path fid) (\<lambda>_.
          returnE output_path))))))))"

definition prepare_workspace :: "path \<Rightarrow> (io_error, unit) io" where
  "prepare_workspace workspace =
     bindE (fs_create_dir_all workspace) (\<lambda>_.
     bindE (path_exists (debug_chunks_dir workspace)) (\<lambda>present.
     if present then fs_remove_dir_all (debug_chunks_dir workspace) else returnE ()))"

definition example_file_name :: "path \<Rightarrow> string" where
  "example_file_name input = (if input = [] then ''unnamed'' else last input)"

definition default_workspace_path :: "path \<Rightarrow> path" where
  "default_workspace_path input = [''.etle-work'', example_file_name input]"

definition debug_roundtrip :: "deps \<Rightarrow> manifest bincode \<Rightarrow> (string \<rightharpoonup> string) \<Rightarrow> path list \<Rightarrow> (example_error, path) io" where
  "debug_roundtrip D C env args =
     (case args of
        [] \<Rightarrow> throwE ExUsage
      | input # others \<Rightarrow>
          let workspace = (case others of w # _ \<Rightarrow> w | [] \<Rightarrow> default_workspace_path input) in
          bindE (intoE ExIo (prepare_workspace workspace)) (\<lambda>_.
          bindE (intoE ExIo (hash_file D input)) (\<lambda>fid.
          bindE (intoE ExIo (fs_metadata input)) (\<lambda>_.
          bindE (intoE ExFile (read_file_chunks input DEFAULT_CHUNK_SIZE)) (\<lambda>_.
          bindE (derive_sessions D) (\<lambda>s.
          bindE (liftE (verify_client_proof D (example_psk D env) s)) (\<lambda>_.
          bindE (exchange_file_key D s fid) (\<lambda>(file_key, peer_file_key).
          bindE (intoE ExFile (encrypt_file D input file_key DEFAULT_CHUNK_SIZE)) (\<lambda>encrypted.
          bindE (intoE ExFile (write_debug_workspace C encrypted workspace)) (\<lambda>_.
          bindE (intoE ExFile (read_debug_workspace C workspace)) (\<lambda>loaded.
          bindE (liftE (map_err ExFile (decrypt_to_bytes D loaded peer_file_key))) (\<lambda>plaintext.
          let output_path = workspace @ [''reconstructed-'' @ example_file_name input] in
          bindE (intoE ExIo (fs_write output_path plaintext)) (\<lambda>_.
          bindE (verify_output D output_path fid) (\<lambda>_.
          returnE output_path))))))))))))))"

section \<open>The checks cannot fail\<close>

text \<open>A computation none of whose checks fails.\<close>

definition unfailing :: "(example_error, 'a) io \<Rightarrow> world \<Rightarrow> bool" where
  "unfailing m w \<longleftrightarrow> (\<forall>message w'. m w \<noteq> (Inl (ExEnsure message), w'))"

lemma unfailing_bind:
  "unfailing m w \<Longrightarrow> (\<And>x w'. m w = (Inr x, w') \<Longrightarrow> unfailing (f x) w') \<Longrightarrow> unfailing (bindE m f) w"
  by (auto simp: unfailing_def bindE_Inl)

lemma unfailing_basic [simp, intro!]:
  "unfailing (returnE x) w" "unfailing (intoE ExIo m) w" "unfailing (intoE ExCrypto n) w" "unfailing (intoE ExFile k) w"
  "unfailing (liftE (map_err ExCrypto r)) w" "unfailing (liftE (map_err ExFile r')) w" "unfailing (throwE ExUsage) w"
  "unfailing (liftE (Inr y)) w" "unfailing (generate_keypair D) w" "unfailing generate_file_key w"
  by (auto simp: unfailing_def intoE_Inl liftE_def map_err_def throwE_def generate_keypair_def generate_file_key_def fill_bytes_def bindE_run
      split: sum.splits)

lemma shared_secrets_agree:
  assumes "x25519_ok D" "generate_keypair D w = (Inr a, w1)" "generate_keypair D w1 = (Inr b, w2)"
  shows "diffie_hellman D a (kp_public b) = diffie_hellman D b (kp_public a)"
  using assms by (auto simp: generate_keypair_def bindE_Inr keypair_of_def x25519_ok_def Let_def)

lemma derive_sessions_unfailing: "x25519_ok D \<Longrightarrow> unfailing (derive_sessions D) w"
  unfolding derive_sessions_def Let_def
  by (intro unfailing_bind) (auto dest: shared_secrets_agree simp: ensure_def)

lemma derive_sessions_keys: "derive_sessions D w = (Inr s, w') \<Longrightarrow> xs_seeder_key s = xs_peer_key s"
  by (auto simp: derive_sessions_def bindE_Inr Let_def ensure_def liftE_def split: if_splits)

lemma proofs_verify:
  "xs_seeder_key s = xs_peer_key s \<Longrightarrow> verify_client_proof D psk s = Inr () \<and> verify_psk_proofs D psk s = Inr ()"
  by (simp add: verify_psk_proofs_def verify_client_proof_def Let_def ensure_def tags_equal)

lemma exchange_file_key_unfailing:
  assumes "aead_ok D" "xs_seeder_key s = xs_peer_key s"
  shows "unfailing (exchange_file_key D s fid) w"
  unfolding exchange_file_key_def
  by (intro unfailing_bind) (auto dest!: file_key_wrap_roundtrip [OF assms(1)] simp: assms(2) ensure_def)

lemma exchange_file_key_same: "exchange_file_key D s fid w = (Inr (k, k'), w') \<Longrightarrow> k' = k"
  by (auto simp: exchange_file_key_def bindE_Inr ensure_def liftE_def split: if_splits)

lemma verify_output_unfailing:
  assumes "lookup w p = Some (FileN bs)" "fid = hash_file_id D bs"
  shows "unfailing (verify_output D p fid) w"
  unfolding verify_output_def
proof (rule unfailing_bind)
  fix output_id w' assume "intoE ExIo (hash_file D p) w = (Inr output_id, w')"
  then have "hash_file D p w = (Inr output_id, w')" by simp
  then have "output_id = fid" using assms by (auto elim!: hash_file_Inr)
  then show "unfailing (liftE (ensure ''reconstructed file hash does not match original'' (output_id = fid))) w'"
    by (simp add: ensure_def)
qed simp

lemma frame_draws [intro!, simp]: "preserves (frame P) (generate_keypair D)" "preserves (frame P) generate_file_key" "preserves (frame P) generate_nonce"
  by (auto simp: preserves_def frame_def generate_keypair_def generate_file_key_def generate_nonce_def fill_bytes_def bindE_run lookup_def)

lemma frame_derive_sessions: "preserves (frame P) (derive_sessions D)"
  unfolding derive_sessions_def Let_def by (auto intro!: frame.pres_bind)

lemma frame_exchange_file_key: "preserves (frame P) (exchange_file_key D s fid)"
  unfolding exchange_file_key_def wrap_file_key_def by (auto intro!: frame.pres_bind frame.pres_into)

lemma keeps_files: "preserves (frame (\<lambda>_. False)) m \<Longrightarrow> m w = (r, w') \<Longrightarrow> lookup w' = lookup w"
  unfolding preserves_def frame_def by (metis ext snd_conv)

text \<open>The common part: a file whose hash was taken is encrypted under an exchanged key.\<close>

lemma exchanged_and_encrypted:
  assumes "aead_ok D" and "hash_file D input w = (Inr fid, w1)" and "lookup w2 = lookup w1" and "derive_sessions D w2 = (Inr s, w3)"
    and "exchange_file_key D s fid w3 = (Inr (file_key, peer_file_key), w4)"
    and "encrypt_file D input file_key cs w4 = (Inr encrypted, w5)"
  obtains bs where "lookup w input = Some (FileN bs)" and "fid = hash_file_id D bs"
    and "decrypt_to_bytes D encrypted peer_file_key = Inr bs" and "m_file_id (ef_manifest encrypted) = fid"
proof -
  have same: "lookup w4 = lookup w"
    using keeps_files [OF frame_hash_file assms(2)] keeps_files [OF frame_derive_sessions assms(4)]
      keeps_files [OF frame_exchange_file_key assms(5)] assms(3) by simp
  obtain bs where bs: "lookup w input = Some (FileN bs)" "fid = hash_file_id D bs" using hash_file_Inr [OF assms(2)] .
  moreover have "decrypt_to_bytes D encrypted peer_file_key = Inr bs"
    using decrypt_encrypt_file [OF assms(1,6)] exchange_file_key_same [OF assms(5)] bs(1) same by auto
  moreover have "m_file_id (ef_manifest encrypted) = fid"
    using bs same by (auto intro: encrypt_file_Inr [OF assms(6)])
  ultimately show thesis by (rule that)
qed

lemma local_roundtrip_core:
  assumes "aead_ok D" "x25519_ok D"
  shows "unfailing (local_roundtrip D env args) w"
proof (cases args)
  case (Cons input others)
  have "unfailing (verify_output D (default_output_path input) fid) w6"
    if h: "hash_file D input w = (Inr fid, w1)" "derive_sessions D w1 = (Inr s, w3)"
      "exchange_file_key D s fid w3 = (Inr (file_key, peer_file_key), w4)" "encrypt_file D input file_key DEFAULT_CHUNK_SIZE w4 = (Inr encrypted, w5)"
      "decrypt_to_file D encrypted peer_file_key (default_output_path input) w5 = (Inr u, w6)"
    for fid w1 s w3 file_key peer_file_key w4 encrypted w5 u w6
  proof -
    obtain bs where "fid = hash_file_id D bs" "decrypt_to_bytes D encrypted peer_file_key = Inr bs"
      using exchanged_and_encrypted [OF assms(1) h(1) refl h(2,3,4)] .
    moreover from this h(5) have "lookup w6 (default_output_path input) = Some (FileN bs)"
      using fs_write_Inr [of "default_output_path input" bs w5 w6 "default_output_path input"] by (auto simp: decrypt_to_file_def bindE_Inr)
    ultimately show ?thesis by (intro verify_output_unfailing)
  qed
  then show ?thesis
    unfolding local_roundtrip_def Cons list.case Let_def
    using assms derive_sessions_keys
    by (intro unfailing_bind) (auto simp: derive_sessions_unfailing exchange_file_key_unfailing proofs_verify intro!: unfailing_bind)
qed (simp add: local_roundtrip_def)

text \<open>A workspace that was written and is read again has the manifest that was written, whatever else fails.\<close>

lemma workspace_manifest:
  assumes "bincode_ok C" and "write_debug_workspace C encrypted root w = (Inr u, w1)" and "read_debug_workspace C root w1 = (Inr loaded, w2)"
  shows "ef_manifest loaded = ef_manifest encrypted"
proof -
  from assms(2) obtain bytes v v1 v2 where bytes: "manifest_to_bytes C (ef_manifest encrypted) = Inr bytes"
      and wm: "fs_write (debug_manifest_path root) bytes v1 = (Inr (), v2)"
      and loop: "forE (m_chunks (ef_manifest encrypted)) (write_debug_chunk encrypted root) v2 = (Inr (), w1)"
    by (auto simp: write_debug_workspace_def bindE_Inr)
  have "lookup w1 (debug_manifest_path root) = Some (FileN bytes)"
    using fs_write_Inr [OF wm] write_chunks_loop_Inr [OF loop] by simp
  moreover from assms(3) obtain bs v3 where "fs_read (debug_manifest_path root) w1 = (Inr bs, v3)"
      and "manifest_from_bytes C bs = Inr (ef_manifest loaded)"
    by (auto simp: read_debug_workspace_def bindE_Inr)
  ultimately have "manifest_from_bytes C bytes = Inr (ef_manifest loaded)" using fs_read_Inr by fastforce
  then show ?thesis
    using bytes decode_whole_encode [OF assms(1)] by (simp add: manifest_to_bytes_def manifest_from_bytes_def)
qed

lemma decrypted_hash: "decrypt_to_bytes D enc key = Inr bs \<Longrightarrow> m_file_id (ef_manifest enc) = hash_file_id D bs"
  by (auto simp: decrypt_to_bytes_def and_then_Inr Let_def hash_file_id_def split: if_splits)

lemma frame_read_chunks_loop: "frame P w (snd (read_chunks_loop cs i chunks rem w))"
proof (induction cs i chunks rem w rule: read_chunks_loop.induct)
  case (1 cs i chunks rem w)
  have "frame P w (snd (file_read cs rem w))"
    using frame_file_read [of P cs rem] by (simp add: preserves_def)
  with 1 show ?case
    by (subst read_chunks_loop.simps) (auto split: prod.splits sum.splits option.splits intro: frame.R_trans)
qed

lemma frame_read_file_chunks: "preserves (frame P) (read_file_chunks p cs)"
  unfolding read_file_chunks_def by (auto intro!: frame.pres_bind frame.pres_into simp: preserves_def [of _ "read_chunks_loop _ _ _ _"] frame_read_chunks_loop)

lemma debug_roundtrip_core:
  assumes "aead_ok D" "x25519_ok D" "bincode_ok C"
  shows "unfailing (debug_roundtrip D C env args) w"
proof (cases args)
  case (Cons input others)
  have "unfailing (verify_output D p fid) w9"
    if h: "hash_file D input w = (Inr fid, w1)" "fs_metadata input w1 = (Inr md, w2)" "read_file_chunks input cs w2 = (Inr plain, w3)"
      "derive_sessions D w3 = (Inr s, w4)" "exchange_file_key D s fid w4 = (Inr (file_key, peer_file_key), w5)"
      "encrypt_file D input file_key DEFAULT_CHUNK_SIZE w5 = (Inr encrypted, w6)" "write_debug_workspace C encrypted workspace w6 = (Inr u, w7)"
      "read_debug_workspace C workspace w7 = (Inr loaded, w8)" "decrypt_to_bytes D loaded peer_file_key = Inr plaintext"
      "fs_write p plaintext w8 = (Inr v, w9)"
    for w fid w1 md w2 plain w3 s w4 file_key peer_file_key w5 encrypted w6 u w7 loaded w8 plaintext p v w9 cs workspace
  proof -
    have "lookup w3 = lookup w1" using keeps_files [OF frame_metadata h(2)] keeps_files [OF frame_read_file_chunks h(3)] by simp
    then have "m_file_id (ef_manifest encrypted) = fid" by (rule exchanged_and_encrypted [OF assms(1) h(1) _ h(4,5,6)])
    then have "fid = hash_file_id D plaintext" using decrypted_hash [OF h(9)] workspace_manifest [OF assms(3) h(7,8)] by simp
    then show ?thesis using fs_write_Inr [of p plaintext w8 w9 p] h(10) by (intro verify_output_unfailing [of w9 p plaintext]) auto
  qed
  then show ?thesis
    unfolding debug_roundtrip_def Cons list.case Let_def
    using assms derive_sessions_keys
    by (intro unfailing_bind) (auto simp: derive_sessions_unfailing exchange_file_key_unfailing proofs_verify intro!: unfailing_bind)
qed (simp add: debug_roundtrip_def)

lemma local_roundtrip_output:
  assumes "aead_ok D" and "local_roundtrip D env (input # others) w = (Inr p, w')"
  obtains bs where "lookup w input = Some (FileN bs)" and "p = default_output_path input" and "lookup w' p = Some (FileN bs)"
proof -
  from assms(2) obtain fid w1 s w2 file_key peer_file_key w3 encrypted w4 plaintext w5 where
      h: "hash_file D input w = (Inr fid, w1)" "derive_sessions D w1 = (Inr s, w2)" "exchange_file_key D s fid w2 = (Inr (file_key, peer_file_key), w3)"
      "encrypt_file D input file_key DEFAULT_CHUNK_SIZE w3 = (Inr encrypted, w4)"
      "decrypt_to_bytes D encrypted peer_file_key = Inr plaintext" "fs_write (default_output_path input) plaintext w4 = (Inr (), w5)"
      "verify_output D (default_output_path input) fid w5 = (Inr (), w')" and p: "p = default_output_path input"
    by (auto simp: local_roundtrip_def bindE_Inr Let_def decrypt_to_file_def)
  obtain bs where bs: "lookup w input = Some (FileN bs)" "decrypt_to_bytes D encrypted peer_file_key = Inr bs"
    using exchanged_and_encrypted [OF assms(1) h(1) refl h(2,3,4)] .
  have "preserves (frame (\<lambda>_. False)) (verify_output D (default_output_path input) fid)"
    unfolding verify_output_def by (auto intro!: frame.pres_bind frame.pres_into)
  from keeps_files [OF this h(7)] fs_write_Inr [OF h(6)] bs(2) h(5) have "lookup w' p = Some (FileN bs)" by (simp add: p)
  with bs(1) p show thesis by (rule that)
qed

text \<open>C8: The parts fit together. For primitives that decrypt what they encrypted and agree on shared secrets, whatever file is given and
  whichever system calls fail, none of the checks of the two example programs fails: the session keys agree, the proofs verify, the
  file key is unwrapped, and the output has the hash of the input. When the first program ends it has written the contents of
  the input beside it.
\<close>

theorem example_checks_hold:
  assumes "aead_ok D" and "x25519_ok D" and "bincode_ok C"
  shows "local_roundtrip D env args w \<noteq> (Inl (ExEnsure message), w') \<and> debug_roundtrip D C env args w \<noteq> (Inl (ExEnsure message), w') \<and>
    (\<forall>p. local_roundtrip D env args w = (Inr p, w') \<longrightarrow>
      (\<exists>bs. p = default_output_path (hd args) \<and> lookup w (hd args) = Some (FileN bs) \<and> lookup w' p = Some (FileN bs)))"
proof (intro conjI allI impI)
  show "local_roundtrip D env args w \<noteq> (Inl (ExEnsure message), w')" "debug_roundtrip D C env args w \<noteq> (Inl (ExEnsure message), w')"
    using local_roundtrip_core [OF assms(1,2)] debug_roundtrip_core [OF assms] by (simp_all add: unfailing_def)
next
  fix p assume run: "local_roundtrip D env args w = (Inr p, w')"
  then obtain input others where "args = input # others" by (cases args) (auto simp: local_roundtrip_def)
  with run show "\<exists>bs. p = default_output_path (hd args) \<and> lookup w (hd args) = Some (FileN bs) \<and> lookup w' p = Some (FileN bs)"
    by (auto elim!: local_roundtrip_output [OF assms(1)])
qed

definition sample_rng :: "nat \<Rightarrow> byte" where
  "sample_rng n = (if n = 31 \<or> n = 63 then 1 else 0)"

definition sample_example_world :: world where
  "sample_example_world = empty_world\<lparr>nodes := [([''f''], FileN [])], rng := sample_rng\<rparr>"

lemma sample_secrets: "from_be_bytes (map sample_rng [0 ..< 32]) = (1 :: arr32)" "from_be_bytes (map sample_rng [32 ..< 64]) = (1 :: arr32)"
  by (simp_all add: sample_rng_def from_be_bytes_def upt_rec)

lemma sample_dh_nonzero: "diffie_hellman sample_deps (keypair_of sample_deps 1) (kp_public (keypair_of sample_deps 1)) = Inr (SharedSecretBytes 9)"
proof -
  have "le_bytes (Suc 31) 9 = 9 # le_bytes 31 0" by (simp only: le_bytes.simps) simp
  then have "le_bytes 32 9 = 9 # le_bytes 31 0" by simp
  then show ?thesis by (simp add: keypair_of_def sample_deps_def arr32_bytes_def to_be_bytes_def)
qed

lemma sample_keypairs:
  "generate_keypair sample_deps sample_example_world = (Inr (keypair_of sample_deps 1), sample_example_world\<lparr>rng_pos := 32\<rparr>)"
  "generate_keypair sample_deps (sample_example_world\<lparr>rng_pos := 32\<rparr>) = (Inr (keypair_of sample_deps 1), sample_example_world\<lparr>rng_pos := 64\<rparr>)"
  using sample_secrets by (simp_all add: generate_keypair_def fill_bytes_def bindE_run sample_example_world_def empty_world_def)

lemma sample_sessions: "\<exists>s. derive_sessions sample_deps sample_example_world = (Inr s, sample_example_world\<lparr>rng_pos := 64\<rparr>)"
  by (simp add: derive_sessions_def bindE_run Let_def ensure_def liftE_def sample_keypairs sample_dh_nonzero)

lemma generate_file_key_run:
  "generate_file_key w = (Inr (SymmetricKey (from_be_bytes (map (rng w) [rng_pos w ..< rng_pos w + 32]))), w\<lparr>rng_pos := rng_pos w + 32\<rparr>)"
  by (simp add: generate_file_key_def fill_bytes_def bindE_run)

lemma sample_wrap: "\<exists>wrapped. wrap_file_key sample_deps k fid file_key w = (Inr wrapped, w\<lparr>rng_pos := rng_pos w + 24\<rparr>)"
  by (cases k; cases file_key) (simp add: wrap_file_key_def generate_nonce_def fill_bytes_def bindE_run sample_deps_def liftE_def)

lemma sample_exchanged:
  assumes "xs_seeder_key s = xs_peer_key s"
  shows "\<exists>key. exchange_file_key sample_deps s fid w = (Inr (key, key), w\<lparr>rng_pos := rng_pos w + 56\<rparr>)"
proof -
  define key where "key = SymmetricKey (from_be_bytes (map (rng w) [rng_pos w ..< rng_pos w + 32]))"
  obtain wrapped where wrapped: "wrap_file_key sample_deps (xs_seeder_key s) fid key (w\<lparr>rng_pos := rng_pos w + 32\<rparr>) =
      (Inr wrapped, w\<lparr>rng_pos := rng_pos w + 56\<rparr>)"
    using sample_wrap [of "xs_seeder_key s" fid key "w\<lparr>rng_pos := rng_pos w + 32\<rparr>"] by auto
  then have "unwrap_file_key sample_deps (xs_peer_key s) fid wrapped = Inr key"
    using file_key_wrap_roundtrip [OF sample_aead_ok wrapped] assms by simp
  with wrapped show ?thesis
    by (simp add: exchange_file_key_def bindE_run generate_file_key_run intoE_run ensure_def liftE_def flip: key_def)
qed

lemma no_caps: "read_caps w = [] \<Longrightarrow> w\<lparr>read_caps := tl (read_caps w)\<rparr> = w"
  by (cases w) simp

lemma sample_hashed:
  "faults w = [] \<Longrightarrow> read_caps w = [] \<Longrightarrow> lookup w p = Some (FileN []) \<Longrightarrow> hash_file D p w = (Inr (hash_file_id D []), w)"
  using no_caps [of w] by (simp add: hash_file_def fs_open_def bindE_run fs_read_nofault hash_file_loop.simps file_read_def hash_file_id_def hash_bytes_def)

lemma sample_encrypted_empty:
  assumes "faults w = []" "read_caps w = []" "lookup w p = Some (FileN [])"
  shows "\<exists>enc. encrypt_file D p key DEFAULT_CHUNK_SIZE w = (Inr enc, w)"
  using assms no_caps [of w] by (simp add: encrypt_file_def bindE_run intoE_run sample_hashed fs_metadata_def read_file_chunks_def DEFAULT_CHUNK_SIZE_def fs_open_def
      fs_read_nofault read_chunks_loop.simps file_read_def Let_def)

lemma sample_local_run: "\<exists>w'. local_roundtrip sample_deps Map.empty [[''f'']] sample_example_world = (Inr [''reconstructed-f''], w')"
proof -
  let ?w = "sample_example_world\<lparr>rng_pos := 120\<rparr>"
  obtain s where s: "derive_sessions sample_deps sample_example_world = (Inr s, sample_example_world\<lparr>rng_pos := 64\<rparr>)" using sample_sessions by blast
  note same = derive_sessions_keys [OF s]
  obtain key where key: "exchange_file_key sample_deps s (hash_file_id sample_deps []) (sample_example_world\<lparr>rng_pos := 64\<rparr>) = (Inr (key, key), ?w)"
    using sample_exchanged [OF same, of "hash_file_id sample_deps []" "sample_example_world\<lparr>rng_pos := 64\<rparr>"] by auto
  have w: "faults v = []" "read_caps v = []" "lookup v [''f''] = Some (FileN [])" if "v \<in> {sample_example_world, ?w}" for v
    using that by (auto simp: sample_example_world_def empty_world_def lookup_def)
  obtain enc where enc: "encrypt_file sample_deps [''f''] key DEFAULT_CHUNK_SIZE ?w = (Inr enc, ?w)"
    using sample_encrypted_empty [of ?w "[''f'']"] w [of ?w] by blast
  have dec: "decrypt_to_bytes sample_deps enc key = Inr []" using decrypt_encrypt_file [OF sample_aead_ok enc] w(3) [of ?w] by simp
  have out: "default_output_path [''f''] = [''reconstructed-f'']" by (simp add: default_output_path_def file_name_def)
  obtain v where v: "fs_write [''reconstructed-f''] [] ?w = (Inr (), v)" "faults v = []" "read_caps v = []"
    by (simp add: fs_write_def fs_create_def fs_write_all_def bindE_run sample_example_world_def empty_world_def is_dir_def lookup_def set_node_def append_file_def)
  from fs_write_Inr [OF v(1)] have "lookup v [''reconstructed-f''] = Some (FileN [])" by simp
  note h = sample_hashed [OF v(2,3) this]
  have first: "hash_file sample_deps [''f''] sample_example_world = (Inr (hash_file_id sample_deps []), sample_example_world)"
    by (rule sample_hashed) (use w [of sample_example_world] in blast)+
  show ?thesis
    by (simp add: local_roundtrip_def bindE_run intoE_run liftE_def proofs_verify [OF same] Let_def out decrypt_to_file_def verify_output_def ensure_def
        first s key enc dec v(1) h)
qed

theorem example_checks_hold_witness:
  "\<exists>w'. local_roundtrip sample_deps Map.empty [[''f'']] sample_example_world = (Inr [''reconstructed-f''], w') \<and>
     lookup w' [''reconstructed-f''] = Some (FileN [])"
proof -
  obtain w' where run: "local_roundtrip sample_deps Map.empty [[''f'']] sample_example_world = (Inr [''reconstructed-f''], w')"
    using sample_local_run by blast
  have "lookup sample_example_world [''f''] = Some (FileN [])" by (simp add: sample_example_world_def lookup_def)
  with run example_checks_hold [OF sample_aead_ok sample_x25519_ok single_bincode_ok, of Map.empty "[[''f'']]" sample_example_world]
  show ?thesis by fastforce
qed

end
