(* ===== verification/Etle_Build.thy ===== *)
theory Etle_Build
  imports Etle_Programs
begin

text \<open>
  The build script, \<open>build.rs\<close>, which sets the texts that \<open>src/build_info.rs\<close> prints. The environment and the
  commands that it runs are arguments: \<open>run program args\<close> is \<open>None\<close> if the command cannot be started, and otherwise
  whether it succeeded and what it printed. The script talks to the build tool by lines, so that a value must not break a line.
\<close>

type_synonym commands = "string \<Rightarrow> string list \<Rightarrow> (bool \<times> string) option"

definition one_line :: "string \<Rightarrow> string" where
  "one_line value = map (\<lambda>c. if c = CHR 0x0D \<or> c = CHR 0x0A then CHR '' '' else c) value"

definition emit :: "string \<Rightarrow> string \<Rightarrow> string" where
  "emit name value = ''cargo:rustc-env='' @ name @ ''='' @ one_line value"

definition env_value :: "environment \<Rightarrow> string \<Rightarrow> string option" where
  "env_value env name = (case map_option trim (env name) of Some value \<Rightarrow> if value = [] then None else Some value | None \<Rightarrow> None)"

definition github_tag :: "environment \<Rightarrow> string option" where
  "github_tag env = (if env ''GITHUB_REF_TYPE'' = Some ''tag'' then env_value env ''GITHUB_REF_NAME'' else None)"

definition command_one_line :: "commands \<Rightarrow> string \<Rightarrow> string list \<Rightarrow> string option" where
  "command_one_line run program args = (case run program args of
      None \<Rightarrow> None
    | Some (success, stdout) \<Rightarrow>
        if \<not> success then None
        else let value = trim stdout in if value \<noteq> [] then Some value else None)"

definition git :: "commands \<Rightarrow> string list \<Rightarrow> string option" where
  "git run args = command_one_line run ''git'' args"

definition git_dirty_state :: "commands \<Rightarrow> string" where
  "git_dirty_state run = (case run ''git'' [''status'', ''--porcelain''] of
      Some (True, stdout) \<Rightarrow> if stdout = [] then ''clean'' else ''dirty''
    | _ \<Rightarrow> ''unknown'')"

text \<open>\<open>now\<close> is the time in seconds since the epoch, 0 if the clock is before it.\<close>

definition unix_now_string :: "nat \<Rightarrow> string" where
  "unix_now_string now = ''unix:'' @ show_nat now"

definition build_values :: "environment \<Rightarrow> commands \<Rightarrow> nat \<Rightarrow> (string \<times> string) list" where
  "build_values env run now =
     [(''ETLE_GIT_COMMIT'', or_default ''unknown'' (git run [''rev-parse'', ''HEAD''])),
      (''ETLE_GIT_BRANCH'', or_default ''unknown'' (or_else (env_value env ''GITHUB_REF_NAME'') (git run [''branch'', ''--show-current'']))),
      (''ETLE_GIT_TAG'', or_default ''unknown'' (or_else (or_else (env_value env ''ETLE_RELEASE_TAG'') (github_tag env))
         (git run [''describe'', ''--tags'', ''--exact-match'', ''HEAD'']))),
      (''ETLE_GIT_COMMIT_COUNT'', or_default ''unknown'' (git run [''rev-list'', ''--count'', ''HEAD''])),
      (''ETLE_GIT_COMMIT_MESSAGE'', or_default ''unknown'' (git run [''log'', ''-1'', ''--pretty=%s''])),
      (''ETLE_GIT_DIRTY'', git_dirty_state run),
      (''ETLE_BUILD_DATE'', or_default (unix_now_string now) (or_else (env_value env ''ETLE_BUILD_DATE'')
         (git run [''show'', ''-s'', ''--format=%cI'', ''HEAD'']))),
      (''ETLE_BUILD_PROFILE'', or_default ''unknown'' (env ''PROFILE'')),
      (''ETLE_BUILD_TARGET'', or_default ''unknown'' (env ''TARGET'')),
      (''ETLE_BUILD_HOST'', or_default ''unknown'' (env ''HOST'')),
      (''ETLE_RUSTC_VERSION'', or_default ''unknown'' (command_one_line run ''rustc'' [''--version''])),
      (''ETLE_BUILD_CI'', or_default ''false'' (env_value env ''GITHUB_ACTIONS'')),
      (''ETLE_BUILD_REPOSITORY'', or_default ''unknown'' (env_value env ''GITHUB_REPOSITORY'')),
      (''ETLE_BUILD_RUN_ID'', or_default ''unknown'' (env_value env ''GITHUB_RUN_ID''))]"

definition rerun_lines :: "string list" where
  "rerun_lines = map (\<lambda>name. ''cargo:rerun-if-env-changed='' @ name)
     [''ETLE_BUILD_DATE'', ''ETLE_RELEASE_TAG'', ''GITHUB_ACTIONS'', ''GITHUB_REF_NAME'', ''GITHUB_REF_TYPE'', ''GITHUB_REPOSITORY'', ''GITHUB_RUN_ID''] @
     [''cargo:rerun-if-changed=.git/HEAD'']"

definition build_script :: "environment \<Rightarrow> commands \<Rightarrow> nat \<Rightarrow> string list" where
  "build_script env run now = rerun_lines @ map (\<lambda>(name, value). emit name value) (build_values env run now)"

section \<open>The build tool reads what the script means\<close>

text \<open>
  The build tool splits the output at line feeds and takes the text behind the name as the value of the variable. What it
  reads is the value of the script with line breaks replaced, whatever a command printed or the environment held: no value
  can add a line of its own.
\<close>

fun lines_of :: "string \<Rightarrow> string \<Rightarrow> string list" where
  "lines_of line [] = (if line = [] then [] else [line])"
| "lines_of line (c # rest) = (if c = CHR 0x0A then line # lines_of [] rest else lines_of (line @ [c]) rest)"

lemma lines_of_line: "CHR 0x0A \<notin> set text_line \<Longrightarrow> lines_of line (text_line @ CHR 0x0A # rest) = (line @ text_line) # lines_of [] rest"
  by (induction text_line arbitrary: line) auto

lemma lines_of_printed:
  "\<forall>line \<in> set printed. CHR 0x0A \<notin> set line \<Longrightarrow> lines_of [] (concat (map (\<lambda>line. line @ [CHR 0x0A]) printed)) = printed"
  by (induction printed) (simp_all add: lines_of_line)

lemma one_line_clean: "CHR 0x0A \<notin> set (one_line value)"
  by (auto simp: one_line_def)

lemma emit_clean: "CHR 0x0A \<notin> set name \<Longrightarrow> CHR 0x0A \<notin> set (emit name value)"
  using one_line_clean by (simp add: emit_def)

lemma build_names_clean: "(name, value) \<in> set (build_values env run now) \<Longrightarrow> CHR 0x0A \<notin> set name"
  by (auto simp: build_values_def)

lemma rerun_lines_clean: "\<forall>line \<in> set rerun_lines. CHR 0x0A \<notin> set line"
  by (simp add: rerun_lines_def)

lemma build_script_lines:
  "lines_of [] (concat (map (\<lambda>line. line @ [CHR 0x0A]) (build_script env run now))) = build_script env run now"
proof (intro lines_of_printed ballI)
  fix line assume "line \<in> set (build_script env run now)"
  then consider "line \<in> set rerun_lines" | name v where "(name, v) \<in> set (build_values env run now)" "line = emit name v"
    unfolding build_script_def set_append set_map by (elim UnE imageE) (auto split: prod.splits)
  then show "CHR 0x0A \<notin> set line"
    using rerun_lines_clean emit_clean [OF build_names_clean] by cases blast+
qed

end
