(* ===== verification/Etle_Deliver.thy ===== *)
theory Etle_Deliver
  imports Etle_Seed
begin

text \<open>
  A seeder and a downloading peer at the two ends of one connection: what each side reads is what the
  other side has written. The session of \<open>src/network/transfer/serve.rs\<close> is put together with the download
  of \<open>src/network/transfer/download.rs\<close> and with \<open>add\<close> of \<open>src/network/transfer/seed.rs\<close>, from the input file of
  the one machine to the output file of the other.
\<close>

section \<open>The side of the seeder\<close>

lemma frame_of_unique: "frame_of C m f \<Longrightarrow> frame_of C m g \<Longrightarrow> f = g"
  unfolding frame_of_def payload_of_def by (cases m) auto

lemma frames_of_map:
  "frames_of C (map h xs) bs \<Longrightarrow> (\<And>x. x \<in> set xs \<Longrightarrow> frame_of C (h x) (fr x)) \<Longrightarrow> bs = concat (map fr xs)"
  by (induction xs arbitrary: bs) (auto simp: frames_of_Cons dest: frame_of_unique)

lemma frames_of_mapE:
  assumes "frames_of C (map h xs) bs"
  obtains fr where "bs = concat (map fr xs)" "\<And>x. x \<in> set xs \<Longrightarrow> frame_of C (h x) (fr x)"
proof -
  have "\<forall>x \<in> set xs. \<exists>f. frame_of C (h x) f"
    using assms by (induction xs arbitrary: bs) (auto simp: frames_of_Cons)
  then obtain fr where fr: "\<And>x. x \<in> set xs \<Longrightarrow> frame_of C (h x) (fr x)"
    by (metis bchoice)
  with frames_of_map [OF assms] that show ?thesis by blast
qed

lemma wrap_file_key_rng:
  assumes "wrap_file_key D k fid key v = (Inr wrapped, v')" and "rng u = rng v" "rng_pos u = rng_pos v"
  shows "wrap_file_key D k fid key u = (Inr wrapped, u\<lparr>rng_pos := rng_pos u + 24\<rparr>)"
  using assms by (auto simp: wrap_file_key_def generate_nonce_def fill_bytes_def bindE_def liftE_def returnE_def split: sum.splits prod.splits)

lemma answers_all:
  assumes "finite served" and "served \<inter> set indexes = {}" and "distinct indexes" and "set indexes \<subseteq> available"
    and "card served + length indexes \<le> n"
  shows "answers content available n served (map RequestChunk indexes) = map (\<lambda>i. Chunk i (content i)) indexes"
  using assms by (induction indexes arbitrary: served) (auto simp: card_insert_if)

definition session_requests :: "string \<Rightarrow> public_key_bytes \<Rightarrow> share_id \<Rightarrow> u32 list \<Rightarrow> wire_message list" where
  "session_requests i c sid indexes = [Hello i, Capabilities ETLE_WIRE_PROTOCOL_VERSION local_capabilities, KeyExchange c, RequestShare sid] @
     map RequestChunk indexes"

lemma session_runs:
  assumes wire: "wire_ok (e_wire E)" and calm: "faults w = []" and out: "out w = []"
    and inp: "frames_of (e_wire E) (session_requests i c sid (ls_available sh)) (inp w)"
    and psk: "so_auth_psk opts = None" and s: "s = kp_public (keypair_of (e_deps E) (next_secret w))"
    and dh: "diffie_hellman (e_deps E) (keypair_of (e_deps E) (next_secret w)) c = Inr shared"
    and load: "\<And>v. faults v = [] \<Longrightarrow> lookup v = lookup w \<Longrightarrow> load_share E root sid v = (Inr sh, v)" and ready: "Etle_Serve.share_ready w sh"
    and wrap: "wrap_file_key (e_deps E) (derive_session_key_with_transcript (e_deps E) shared c s) (m_file_id (ls_manifest sh))
       (es_file_key (ls_secret sh)) (w\<lparr>rng_pos := rng_pos w + 32\<rparr>) = (Inr wrapped, w2)"
    and header: "frames_of (e_wire E) (header_messages (so_seeder_id opts) s (ls_manifest sh) wrapped (ls_available sh)) header"
    and avail: "distinct (ls_available sh)" "length (ls_available sh) \<le> length (d_chunks (ls_descriptor sh))"
  shows "\<exists>w' chunks. library_connected_peer E root opts w = (Inr (ls_descriptor sh), w') \<and> out w' = header @ chunks \<and>
    frames_of (e_wire E) (map (\<lambda>i. Chunk i (chunk_bytes w sh i)) (ls_available sh)) chunks"
proof -
  let ?C = "e_wire E" and ?D = "e_deps E"
  let ?key = "derive_session_key_with_transcript ?D shared c s"
  from header obtain g1 g2 g3 g4 g5 g6 where g: "header = g1 @ g2 @ g3 @ g4 @ g5 @ g6" "frame_of ?C (Hello (so_seeder_id opts)) g1"
      "frame_of ?C (Capabilities ETLE_WIRE_PROTOCOL_VERSION local_capabilities) g2" "frame_of ?C (KeyExchange s) g3"
      "frame_of ?C (ManifestMsg (ls_manifest sh)) g4" "frame_of ?C (WrappedFileKeyMsg (wk_nonce wrapped) (wk_data wrapped)) g5"
      "frame_of ?C (Have (ls_available sh)) g6"
    by (auto simp: header_messages_def frames_of_Cons)
  from inp obtain f1 f2 f3 f4 rest where f: "inp w = f1 @ f2 @ f3 @ f4 @ rest" "frame_of ?C (Hello i) f1"
      "frame_of ?C (Capabilities ETLE_WIRE_PROTOCOL_VERSION local_capabilities) f2" "frame_of ?C (KeyExchange c) f3"
      "frame_of ?C (RequestShare sid) f4" "frames_of ?C (map RequestChunk (ls_available sh)) rest"
    by (auto simp: session_requests_def frames_of_Cons)
  have g2: "f2 = g2"
    using frame_of_unique [OF f(3) g(3)] .
  define v where "v = w\<lparr>inp := rest, rng_pos := rng_pos w + 32, out := g1 @ g2 @ g3\<rparr>"
  have hs: "server_protocol_handshake ?C (so_seeder_id opts) w = (Inr i, w\<lparr>inp := f3 @ f4 @ rest, out := g1 @ g2\<rparr>)"
    using server_handshake_runs [OF wire calm f(1-3) g(2)] out g2 by simp
  have un: "server_transfer_session_key_exchange E None (w\<lparr>inp := f3 @ f4 @ rest, out := g1 @ g2\<rparr>) = (Inr ?key, v\<lparr>inp := f4 @ rest\<rparr>)"
    using server_exchange_runs [OF wire, of "w\<lparr>inp := f3 @ f4 @ rest, out := g1 @ g2\<rparr>" f3 "f4 @ rest" c s g3 ?D shared] calm f(4) g(4) s dh
    by (simp add: server_transfer_session_key_exchange_def server_session_key_exchange_def next_secret_def io_simps v_def)
  have rs: "net_receive ?C (v\<lparr>inp := f4 @ rest\<rparr>) = (Inr (RequestShare sid), v)"
    using net_receive_frame [OF wire, of "v\<lparr>inp := f4 @ rest\<rparr>", OF _ _ f(5)] calm by (simp add: v_def)
  have v: "faults v = []" "lookup v = lookup w" "out v = g1 @ g2 @ g3" "inp v = rest"
    using calm by (simp_all add: v_def lookup_def fun_eq_iff)
  have s4: "net_send ?C (ManifestMsg (ls_manifest sh)) v = (Inr (), v\<lparr>out := g1 @ g2 @ g3 @ g4\<rparr>)"
    using net_send_frame [OF v(1) g(5)] v(3) by simp
  let ?v5 = "v\<lparr>out := g1 @ g2 @ g3 @ g4, rng_pos := rng_pos v + 24\<rparr>"
  have wr: "wrap_file_key ?D ?key (m_file_id (ls_manifest sh)) (es_file_key (ls_secret sh)) (v\<lparr>out := g1 @ g2 @ g3 @ g4\<rparr>) = (Inr wrapped, ?v5)"
    using wrap_file_key_rng [OF wrap, of "v\<lparr>out := g1 @ g2 @ g3 @ g4\<rparr>"] by (simp add: v_def)
  have s5: "net_send ?C (WrappedFileKeyMsg (wk_nonce wrapped) (wk_data wrapped)) ?v5 = (Inr (), ?v5\<lparr>out := g1 @ g2 @ g3 @ g4 @ g5\<rparr>)"
      "net_send ?C (Have (ls_available sh)) (?v5\<lparr>out := g1 @ g2 @ g3 @ g4 @ g5\<rparr>) = (Inr (), ?v5\<lparr>out := header\<rparr>)"
    using net_send_frame [of ?v5, OF _ g(6)] net_send_frame [of "?v5\<lparr>out := g1 @ g2 @ g3 @ g4 @ g5\<rparr>", OF _ g(7)] v(1) g(1) by simp_all
  have hd: "send_share_header E ?key sh v = (Inr (), ?v5\<lparr>out := header\<rparr>)"
    using s4 wr s5 by (simp add: send_share_header_def io_simps)
  let ?v6 = "?v5\<lparr>out := header\<rparr>"
  have same: "lookup ?v6 = lookup w" "chunk_bytes ?v6 = chunk_bytes w" "Etle_Serve.share_ready ?v6 sh"
    using v(2) ready by (simp_all add: lookup_def fun_eq_iff chunk_bytes_def stored_bytes_def Etle_Serve.share_ready_def)
  have ans: "answerable ?C (set (ls_available sh)) m" if "m \<in> set (map RequestChunk (ls_available sh))" for m
    using that by (auto simp: answerable_def)
  obtain w' chunks where "serve_loop E sh {} ?v6 = (Inr (), w')" "out w' = out ?v6 @ chunks"
      "frames_of ?C (answers (chunk_bytes ?v6 sh) (set (ls_available sh)) (length (d_chunks (ls_descriptor sh))) {} (map RequestChunk (ls_available sh))) chunks"
    using serve_loop_answers [OF wire ans, of "map RequestChunk (ls_available sh)" ?v6 "{}"] same(3) v(1,4) f(6) by auto
  moreover have "answers (chunk_bytes ?v6 sh) (set (ls_available sh)) (length (d_chunks (ls_descriptor sh))) {} (map RequestChunk (ls_available sh)) =
      map (\<lambda>i. Chunk i (chunk_bytes w sh i)) (ls_available sh)"
    unfolding same(2) by (rule answers_all) (use avail in auto)
  ultimately show ?thesis
    using hs un rs load [OF v(1,2)] hd psk
    by (simp add: library_connected_peer_def serve_share_def expect_request_share_def io_simps)
qed

section \<open>Both sides of a connection\<close>

text \<open>
  What the two machines need to talk about the share \<open>d\<close>: their ephemeral keys agree on a secret, the file
  key can be wrapped, and every message of the session but the chunks can be serialised.
\<close>

definition can_talk :: "transfer_env \<Rightarrow> path \<Rightarrow> etle_descriptor \<Rightarrow> string \<Rightarrow> string \<Rightarrow> world \<Rightarrow> world \<Rightarrow> bool" where
  "can_talk E root d peer_id seeder_id wd ws \<longleftrightarrow> (\<exists>m sec shared wrapped w2.
     let D = e_deps E; c = keypair_of D (next_secret wd); s = keypair_of D (next_secret ws); indexes = map cm_index (m_chunks m) in
     manifest_from_descriptor d = Inr m \<and>
     read_secret (e_lib E) (for_share root (d_share_id d)) ws = (Inr sec, ws) \<and>
     diffie_hellman D c (kp_public s) = Inr shared \<and>
     wrap_file_key D (derive_session_key_with_transcript D shared (kp_public c) (kp_public s)) (m_file_id m) (es_file_key sec)
       (ws\<lparr>rng_pos := rng_pos ws + 32\<rparr>) = (Inr wrapped, w2) \<and>
     (\<forall>msg \<in> set (session_requests peer_id (kp_public c) (d_share_id d) indexes @ header_messages seeder_id (kp_public s) m wrapped indexes).
       \<exists>f. frame_of (e_wire E) msg f))"

lemma diffie_hellman_commute:
  "x25519_ok D \<Longrightarrow> diffie_hellman D (keypair_of D a) (kp_public (keypair_of D b)) = diffie_hellman D (keypair_of D b) (kp_public (keypair_of D a))"
  by (simp add: keypair_of_def x25519_ok_def)

lemma frames_exist:
  assumes "\<forall>m \<in> set ms. \<exists>f. frame_of C m f"
  shows "\<exists>bs. frames_of C ms bs"
proof -
  from bchoice [OF assms] obtain fr where "\<forall>m \<in> set ms. frame_of C m (fr m)" by blast
  then have "list_all2 (frame_of C) ms (map fr ms)"
    by (simp add: list_all2_map2 list_all2_same)
  then show ?thesis unfolding frames_of_def by blast
qed

lemma map_Some_the:
  "map f xs = map Some ys \<Longrightarrow> (\<forall>x \<in> set xs. f x = Some (the (f x))) \<and> map (\<lambda>x. the (f x)) xs = ys"
  by (induction xs arbitrary: ys) auto

lemma plain_ofD:
  assumes "plain_of D P fid key w c = Some data"
  shows "hash_chunk D (stored_bytes w (chunk_path P (cm_index c))) = cm_hash c"
    and "decrypt_chunk D key (cm_nonce c) (stored_bytes w (chunk_path P (cm_index c))) (build_chunk_aad fid (cm_index c) (cm_plain_size c)) = Inr data"
    and "\<exists>bs. lookup w (chunk_path P (cm_index c)) = Some (FileN bs) \<and> (of_nat (length bs) :: u64) = cm_encrypted_size c"
  using assms by (auto simp: plain_of_def stored_bytes_def split: option.split_asm node.split_asm if_split_asm sum.split_asm)

lemma stored_share_ready:
  assumes "distinct (map cm_index (d_chunks (ls_descriptor sh)))" and "ls_available sh = map cm_index (d_chunks (ls_descriptor sh))"
    and "\<And>c. c \<in> set (d_chunks (ls_descriptor sh)) \<Longrightarrow> plain_of D (ls_paths sh) fid key w c \<noteq> None"
    and "\<And>c. c \<in> set (d_chunks (ls_descriptor sh)) \<Longrightarrow>
      RAW_CHUNK_HEADER_SIZE + length (stored_bytes w (chunk_path (ls_paths sh) (cm_index c))) \<le> MAX_FRAME_SIZE"
  shows "Etle_Serve.share_ready w sh"
  unfolding Etle_Serve.share_ready_def
proof
  fix i assume "i \<in> set (ls_available sh)"
  then obtain c where c: "c \<in> set (d_chunks (ls_descriptor sh))" "i = cm_index c"
    using assms(2) by auto
  obtain data where "plain_of D (ls_paths sh) fid key w c = Some data"
    using assms(3) [OF c(1)] by blast
  from plain_ofD(3) [OF this] obtain bs where bs: "lookup w (chunk_path (ls_paths sh) i) = Some (FileN bs)" "(of_nat (length bs) :: u64) = cm_encrypted_size c"
    using c(2) by blast
  moreover have "find (\<lambda>chunk. cm_index chunk = i) (d_chunks (ls_descriptor sh)) = Some c"
    using find_by_key [OF assms(1) c(1)] c(2) by simp
  ultimately show "\<exists>meta bs. find (\<lambda>chunk. cm_index chunk = i) (d_chunks (ls_descriptor sh)) = Some meta \<and>
     lookup w (chunk_path (ls_paths sh) i) = Some (FileN bs) \<and> (of_nat (length bs) :: u64) = cm_encrypted_size meta \<and>
     RAW_CHUNK_HEADER_SIZE + length bs \<le> MAX_FRAME_SIZE"
    using assms(4) [OF c(1)] c(2) by (simp add: stored_bytes_def)
qed

lemma share_reaches_peer:
  assumes deps: "aead_ok (e_deps E)" "x25519_ok (e_deps E)" "wire_ok (e_wire E)"
    and load: "\<And>v. faults v = [] \<Longrightarrow> lookup v = lookup ws \<Longrightarrow> load_share E root sid v = (Inr sh, v)" and ready: "Etle_Serve.share_ready ws sh"
    and m: "m = ls_manifest sh" "ls_available sh = map cm_index (m_chunks m)" "d_chunks (ls_descriptor sh) = m_chunks m"
    and order: "sorted (map cm_index (m_chunks m))" "distinct (map cm_index (m_chunks m))"
    and plain: "\<And>c. c \<in> set (m_chunks m) \<Longrightarrow> plain_of (e_deps E) (ls_paths sh) (m_file_id m) (es_file_key (ls_secret sh)) ws c = Some (plain c)"
      "hash_file_id (e_deps E) (concat (map plain (m_chunks m))) = m_file_id m"
    and keys: "c = kp_public (keypair_of (e_deps E) (next_secret wd))" "s = kp_public (keypair_of (e_deps E) (next_secret ws))"
      "diffie_hellman (e_deps E) (keypair_of (e_deps E) (next_secret wd)) s = Inr shared"
      "wrap_file_key (e_deps E) (derive_session_key_with_transcript (e_deps E) shared c s) (m_file_id m) (es_file_key (ls_secret sh))
        (ws\<lparr>rng_pos := rng_pos ws + 32\<rparr>) = (Inr wrapped, w2)"
    and msgs: "frames_of (e_wire E) (session_requests (do_peer_id opts) c sid (map cm_index (m_chunks m))) requests"
      "frames_of (e_wire E) (header_messages (so_seeder_id sopts) s m wrapped (map cm_index (m_chunks m))) header"
    and seeder: "faults ws = []" "so_auth_psk sopts = None"
    and peer: "faults wd = []" "do_library_root opts = None" "do_auth_psk opts = None" "do_requested_share_id opts = Some sid"
    and path: "p \<noteq> []" "\<not> is_dir wd p" "is_dir wd (butlast p)"
  shows "\<exists>wd' ws'. library_connected_peer E root sopts (ws\<lparr>inp := out wd', out := []\<rparr>) = (Inr (ls_descriptor sh), ws') \<and>
    from_peer_with E addr p opts (wd\<lparr>conns := Inr (out ws') # later\<rparr>) = (Inr m, wd') \<and>
    lookup wd' p = Some (FileN (concat (map plain (m_chunks m))))"
proof -
  let ?D = "e_deps E" and ?C = "e_wire E"
  let ?ws = "ws\<lparr>inp := requests, out := []\<rparr>"
  let ?cipher = "\<lambda>c. stored_bytes ws (chunk_path (ls_paths sh) (cm_index c))"
  have dh: "diffie_hellman ?D (keypair_of ?D (next_secret ?ws)) c = Inr shared"
    using diffie_hellman_commute [OF deps(2), of "next_secret wd" "next_secret ws"] keys(1,2,3) by (simp add: next_secret_def)
  have same: "lookup ?ws = lookup ws" "chunk_bytes ?ws sh = chunk_bytes ws sh" "Etle_Serve.share_ready ?ws sh"
    using ready by (simp_all add: fun_eq_iff lookup_def chunk_bytes_def stored_bytes_def Etle_Serve.share_ready_def)
  obtain v where wrap: "wrap_file_key ?D (derive_session_key_with_transcript ?D shared c s) (m_file_id (ls_manifest sh)) (es_file_key (ls_secret sh))
      (?ws\<lparr>rng_pos := rng_pos ?ws + 32\<rparr>) = (Inr wrapped, v)"
    using wrap_file_key_rng [OF keys(4), of "?ws\<lparr>rng_pos := rng_pos ?ws + 32\<rparr>"] m(1) by simp
  have "\<exists>ws' chunks. library_connected_peer E root sopts ?ws = (Inr (ls_descriptor sh), ws') \<and> out ws' = header @ chunks \<and>
      frames_of ?C (map (\<lambda>i. Chunk i (chunk_bytes ?ws sh i)) (ls_available sh)) chunks"
    by (rule session_runs [OF deps(3) _ _ _ seeder(2) _ dh _ same(3) wrap])
      (use load msgs seeder(1) same(1) keys(2) m order(2) in \<open>simp_all add: next_secret_def\<close>)
  then obtain ws' chunks where ses: "library_connected_peer E root sopts ?ws = (Inr (ls_descriptor sh), ws')" "out ws' = header @ chunks"
      "frames_of ?C (map (\<lambda>c. Chunk (cm_index c) (?cipher c)) (m_chunks m)) chunks"
    unfolding same(2) m(2) by (auto simp: chunk_bytes_def comp_def)
  obtain fr where fr: "chunks = concat (map fr (m_chunks m))" "\<And>c. c \<in> set (m_chunks m) \<Longrightarrow> frame_of ?C (Chunk (cm_index c) (?cipher c)) (fr c)"
    using frames_of_mapE [OF ses(3)] by blast
  from msgs(1) obtain f1 f2 f3 f4 tail where f: "requests = f1 @ f2 @ f3 @ f4 @ tail" "frame_of ?C (Hello (do_peer_id opts)) f1"
      "frame_of ?C (Capabilities ETLE_WIRE_PROTOCOL_VERSION local_capabilities) f2" "frame_of ?C (KeyExchange c) f3"
      "frame_of ?C (RequestShare sid) f4" "frames_of ?C (map (\<lambda>c. RequestChunk (cm_index c)) (m_chunks m)) tail"
    by (auto simp: session_requests_def frames_of_Cons comp_def)
  obtain rq where rq: "tail = concat (map rq (m_chunks m))" "\<And>c. c \<in> set (m_chunks m) \<Longrightarrow> frame_of ?C (RequestChunk (cm_index c)) (rq c)"
    using frames_of_mapE [OF f(6)] by blast
  have "\<exists>wd' fc. from_peer_with E addr p opts (wd\<lparr>conns := Inr (out ws') # later\<rparr>) = (Inr m, wd') \<and>
      lookup wd' p = Some (FileN (concat (map plain (m_chunks m)))) \<and>
      frame_of ?C (Capabilities ETLE_WIRE_PROTOCOL_VERSION local_capabilities) fc \<and> out wd' = f1 @ fc @ f3 @ f4 @ concat (map rq (m_chunks m))"
    by (rule download_runs [where header = header and fr = fr and cs = later and shared = shared and key = "es_file_key (ls_secret sh)" and cipher = ?cipher,
          OF deps(3) _ _ msgs(2) _ _ _ file_key_wrap_roundtrip [OF deps(1)] _ _ _ plain_ofD(1) [OF plain(1)] _ plain(2)])
      (use peer path ses(2) fr f rq keys order plain_ofD(2) [OF plain(1)] in \<open>simp_all add: next_secret_def is_dir_def\<close>)
  then obtain wd' where "from_peer_with E addr p opts (wd\<lparr>conns := Inr (out ws') # later\<rparr>) = (Inr m, wd')"
      "lookup wd' p = Some (FileN (concat (map plain (m_chunks m))))" "out wd' = requests"
    using frame_of_unique [OF f(3)] f(1) rq(1) by blast
  with ses(1) show ?thesis by auto
qed

section \<open>Properties\<close>


text \<open>The file of one byte, sent to a peer that has an empty disk.\<close>

definition delivery_wrapped :: wrapped_file_key where
  "delivery_wrapped = (case sample_session_key of SymmetricKey k \<Rightarrow>
     \<lparr>wk_nonce = Nonce 0, wk_data = arr32_bytes 0 @ sample_tag k 0 (build_file_key_aad (m_file_id seeded_manifest))\<rparr>)"

definition delivery_table :: "wire_message list" where
  "delivery_table = session_requests ''p'' (PublicKeyBytes 9) (d_share_id seeded_descriptor) [0] @
     header_messages ''s'' (PublicKeyBytes 9) seeded_manifest delivery_wrapped [0]"

definition delivery_env :: transfer_env where
  "delivery_env = sample_env delivery_table seeded_codecs"

definition delivery_options :: download_file_options where
  "delivery_options = with_requested_share_id (Some (d_share_id seeded_descriptor)) (download_options_new ''p'' Quiet)"

lemma delivery_env_simps [simp]:
  "e_deps delivery_env = sample_deps" "e_lib delivery_env = seeded_codecs" "e_wire delivery_env = table_wire delivery_table"
  by (simp_all add: delivery_env_def sample_env_def)

lemma delivery_add: "add delivery_env = add seeded_env"
proof -
  have E: "e_deps seeded_env = sample_deps" "e_lib seeded_env = seeded_codecs"
    by (simp_all add: seeded_env_def sample_env_def)
  have st: "add_staged delivery_env = add_staged seeded_env"
    unfolding add_staged_def E delivery_env_simps by (rule refl)
  show ?thesis
    unfolding add_def add_streaming_def E delivery_env_simps st by (rule refl)
qed

lemma single_decode: "decode_whole label (single_bincode v) bs = Inr x \<Longrightarrow> x = v"
  by (cases bs) (auto simp: decode_whole_def single_bincode_def split: if_splits option.splits)

lemma wrap_zero_nonce:
  assumes "rng v = rng sample_client_world" and "rng_pos v = 32"
  shows "wrap_file_key sample_deps (SymmetricKey k) fid (SymmetricKey 0) v =
    (Inr \<lparr>wk_nonce = Nonce 0, wk_data = arr32_bytes 0 @ sample_tag k 0 (build_file_key_aad fid)\<rparr>, v\<lparr>rng_pos := 32 + 24\<rparr>)"
proof -
  have "map (rng v) [32..<56] = map (\<lambda>_. 0) [32..<56]"
    using assms(1) by (intro map_cong refl) (auto simp: sample_client_world_def)
  then have "map (rng v) [32..<56] = replicate 24 0"
    by (simp only: map_replicate_const length_upt) (simp add: numeral_eq_Suc)
  then show ?thesis
    using zero_bytes [of 24] sample_encrypt assms(2)
    by (simp add: wrap_file_key_def generate_nonce_def fill_bytes_def bindE_def io_simps del: upt_rec_numeral encrypt_chunk.simps)
qed

lemma delivery_session:
  assumes "faults v = []" "lookup v = lookup w'" and "add delivery_env rev [''f''] 4 [''r''] seeded_world = (Inr seeded_descriptor, w')"
    and "rng v = rng sample_client_world" "rng_pos v = 0"
  shows "can_talk delivery_env [''r''] seeded_descriptor ''p'' ''s'' sample_client_world v"
proof -
  let ?P = "for_share [''r''] (d_share_id seeded_descriptor)"
  have ok: "codecs_ok (e_lib delivery_env)" "outside_library [''r''] [''f'']"
    by (simp_all add: codecs_ok_def seeded_codecs_def single_bincode_ok listed_bincode_ok outside_library_def)
  obtain k where k: "sample_session_key = SymmetricKey k"
    by (cases sample_session_key)
  obtain sec where sec: "read_secret seeded_codecs ?P v = (Inr sec, v)"
    by (rule added_share_loads [OF assms(3) ok(2) _ _ ok(1)]) (use assms(1,2) sample_aead_ok in auto)
  then have "es_file_key sec = SymmetricKey 0"
    by (auto simp: read_secret_def bindE_Inr secret_from_bytes_def seeded_codecs_def dest: single_decode)
  moreover have "next_secret v = 1"
    using sample_secret assms(4,5) by (simp add: next_secret_def sample_client_world_def empty_world_def)
  moreover have "wrap_file_key sample_deps sample_session_key (m_file_id seeded_manifest) (SymmetricKey 0) (v\<lparr>rng_pos := 32\<rparr>) =
      (Inr delivery_wrapped, v\<lparr>rng_pos := 32 + 24\<rparr>)"
    using wrap_zero_nonce [of "v\<lparr>rng_pos := 32\<rparr>"] assms(4) by (simp add: delivery_wrapped_def k)
  moreover have "\<exists>f. frame_of (table_wire delivery_table) msg f" if "msg \<in> set delivery_table" for msg
    using table_frame [OF that] that by (auto simp: delivery_table_def session_requests_def header_messages_def)
  moreover have "map cm_index (m_chunks seeded_manifest) = [0]"
    by (simp add: seeded_manifest_def Let_def)
  ultimately show ?thesis
    unfolding can_talk_def Let_def delivery_env_simps
    using sec sample_keys assms(5) manifest_descriptor_manifest [of sample_deps seeded_manifest]
    by (intro exI [of _ seeded_manifest] exI [of _ sec] exI [of _ "SharedSecretBytes 9"] exI [of _ delivery_wrapped] exI [of _ "v\<lparr>rng_pos := 32 + 24\<rparr>"])
      (simp add: seeded_descriptor_def sample_secret sample_session_key_def delivery_table_def)
qed


end
