(* ===== verification/Spec2Isabelle.thy ===== *)
theory Spec2Isabelle
  imports Etle_Window Etle_Daemon_Safe Etle_Pipeline Etle_Gui_View Etle_Programs Etle_Progress Etle_Server Etle_Examples Etle_Build Etle_Deliver
begin

text \<open>
  A verification development of ETLE, the encrypted peer-to-peer file transfer program under \<open>src/\<close>.

  \<^bold>\<open>The program.\<close> A file is cut into chunks, every chunk is encrypted and hashed, and the list of chunks with the
  name and size of the file is a descriptor, whose hash is the share id (\<open>src/src/crypto\<close>, \<open>src/src/file\<close>). The
  shares of a machine are files of a library directory (\<open>src/src/state\<close>). Peers talk frames over TCP
  (\<open>src/src/protocol\<close>, \<open>src/src/network\<close>): they greet each other, agree on a session key, and the seeder
  sends the manifest, the wrapped file key and the chunks asked for; the downloader stores verified chunks in
  its library, resumes, uses several peers, and decrypts into the output. Peers find each other by UDP
  (\<open>src/src/discovery\<close>). A daemon does all this for local clients that talk to it over a socket
  (\<open>src/src/ipc\<close>), with settings from a configuration file (\<open>src/src/config\<close>); its clients are a command line program
  (\<open>src/src/bin\<close>) and a window (\<open>src/src/gui\<close>).

  \<^bold>\<open>The model.\<close> An operation with effects is a function from a world to a result and the next world
  (\<open>Etle_World\<close>): the file system, the current connection, the random source, the clock, and a list of
  failures. Every system call consults that list, so a theorem over all worlds holds for every pattern of failing
  calls; a theorem that needs calls to succeed says \<open>faults w = []\<close>. A Rust \<open>Result\<close> is a sum with the error
  on the left, \<open>?\<close> is \<open>bindE\<close>, and every early return is a branch. Integers are words of their width; \<open>usize\<close> is a
  natural number with its bound where the code checks it.

  \<^bold>\<open>Theories and sources.\<close>
  \<^item> \<open>Etle_Prelude\<close>: bytes, words, big- and little-endian encodings, decimal numbers, results. \<open>Etle_World\<close>: the world,
    the calls of \<open>std::fs\<close>, sequencing, and the locales \<open>world_order\<close> and \<open>world_rel\<close> for what a computation preserves.
    \<open>Etle_Text\<close>: the string functions and address parsers of \<open>std\<close> that the program uses.
  \<^item> \<open>Etle_Crypto\<close>: \<open>crypto/*.rs\<close>. \<open>Etle_Descriptor\<close>: \<open>file/descriptor.rs\<close>, \<open>manifest.rs\<close>, \<open>error.rs\<close>. \<open>Etle_Chunker\<close>,
    \<open>Etle_Package\<close>: \<open>file/chunker.rs\<close>, \<open>package.rs\<close>. \<open>Etle_FileStorage\<close>: \<open>file/storage.rs\<close>.
  \<^item> \<open>Etle_State\<close>: \<open>state/model.rs\<close>, \<open>codec.rs\<close>, with the locale \<open>chunk_record\<close>. \<open>Etle_Library\<close>: \<open>state/paths.rs\<close>, \<open>storage.rs\<close>,
    \<open>library.rs\<close>, with the locale \<open>chunk_store\<close>.
  \<^item> \<open>Etle_Protocol\<close>: \<open>protocol/*.rs\<close>, with the locale \<open>frame_codec\<close>. \<open>Etle_Handshake\<close>: \<open>network/handshake.rs\<close>, \<open>key_exchange.rs\<close>.
  \<^item> \<open>Etle_Transfer\<close>: \<open>network/transfer/options.rs\<close>, \<open>jobs.rs\<close>, \<open>network/tcp.rs\<close>. \<open>Etle_Serve\<close>: \<open>transfer/serve.rs\<close>. \<open>Etle_Seed\<close>:
    \<open>transfer/seed.rs\<close>. \<open>Etle_Download\<close>, \<open>Etle_Reconstruct\<close>, \<open>Etle_Swarm\<close>: \<open>transfer/download.rs\<close>, for one peer, the
    reconstruction of the output, and several peers in parallel.
  \<^item> \<open>Etle_Download_Safe\<close>, \<open>Etle_Complete\<close>, \<open>Etle_Calm\<close>, \<open>Etle_Honest\<close>, \<open>Etle_Window\<close>, \<open>Etle_Swarm_Safe\<close>: what downloads guarantee.
    \<open>Etle_Deliver\<close>: a seeder and a downloading peer at the two ends of one connection.
  \<^item> \<open>Etle_Config\<close>: \<open>config/*.rs\<close>. \<open>Etle_Discovery\<close>: \<open>discovery/*.rs\<close>, with the locale \<open>library_reading\<close>. \<open>Etle_Ipc\<close>: \<open>ipc/message.rs\<close>,
    \<open>codec.rs\<close>, \<open>path.rs\<close>, \<open>client.rs\<close>. \<open>Etle_Daemon\<close>: \<open>ipc/server/*.rs\<close>; \<open>Etle_Daemon_Safe\<close> what it guarantees, with the
    locale \<open>daemon_work\<close>.
  \<^item> \<open>Etle_Server\<close>: the loops of \<open>transfer/serve.rs\<close> that accept peers, with the locale \<open>reading_session\<close>. \<open>Etle_Pipeline\<close>: the threads
    of the parallel encryption of \<open>seed.rs\<close> and of the parallel reconstruction of \<open>download.rs\<close> as step functions with their
    bounded channels, with the locale \<open>thread_system\<close>. \<open>Etle_Progress\<close>: \<open>transfer/progress.rs\<close>.
  \<^item> \<open>Etle_Gui_Model\<close>: \<open>gui/model.rs\<close>, \<open>format.rs\<close>, \<open>progress.rs\<close>. \<open>Etle_Gui\<close>: the inputs, answers and events of \<open>gui/app.rs\<close>, and
    \<open>gui/ipc.rs\<close>; \<open>Etle_Gui_Safe\<close> what its state guarantees. \<open>Etle_Gui_View\<close>: the view of \<open>gui/app.rs\<close> and the contents of
    \<open>gui/widgets.rs\<close>.
  \<^item> \<open>Etle_Programs\<close>: \<open>bin/etled.rs\<close>, \<open>bin/etle-cli.rs\<close>, \<open>build_info.rs\<close>. \<open>Etle_Build\<close>: the build script \<open>src/build.rs\<close>.
    \<open>Etle_Examples\<close>: the two programs under \<open>src/examples\<close>.

  \<^bold>\<open>What the theorems show.\<close> Security: both ends of a key exchange hold the same key or find out, proofs bind the keys they
  were made with, a share id commits to its descriptor, an output file has the hash of its manifest whatever peers send
  and whatever fails, a seeder changes no file and tells an unauthenticated peer nothing. Storage: writing a file is all
  or nothing under every pattern of failures, states and progress are read back, deleting removes exactly one share.
  Equivalence: streamed and in-memory reception, streamed and whole-file chunking, and parallel and sequential reconstruction
  agree with their reference definitions. Concurrency: in every interleaving of the parallel workers each
  chunk is in exactly one place and the workers end; the sessions of a seeder do not influence each other; the threads of
  the pipelines deliver every chunk under every schedule, and where an error leaves one of them waiting forever this is shown
  as well. Liveness: an honest exchange completes, a download from an honest peer writes the plain file; put together with adding and
  serving, a file added on one machine arrives unchanged on another one. The daemon: what
  clients send and receive, which jobs are registered, where its downloads end up. The window: its state is well formed, it
  shows what its state says, deletes only what was confirmed, and ignores a daemon it has left. The programs: one
  passphrase gives both ends one key, and daemon, client and window meet at one socket; progress adds up; the checks of the
  examples cannot fail.

  \<^bold>\<open>Parameters.\<close> Third-party code is an argument: \<open>deps\<close> holds BLAKE3, XChaCha20-Poly1305 and X25519, a \<open>bincode\<close> value
  an encoder and decoder of the serializer; what is relied on of them are the named predicates \<open>aead_ok\<close>, \<open>x25519_ok\<close>,
  \<open>bincode_ok\<close> and \<open>wire_ok\<close>. A hash collision is never excluded by a hypothesis: theorems conclude with it as an
  alternative. Further arguments are what an environment decides: the order in which threads deliver results
  (\<open>e_arrival\<close>, \<open>arrival\<close>, \<open>pick\<close>), the datagrams and connections that arrive, the network interfaces, the environment
  variables, and the text of errors and addresses.

  \<^bold>\<open>Bounds and fuel.\<close> Loops over files and streams are total functions by measures (what is left of the file or the stream, the
  paths that are in the way of a fresh name). The schedule of the parallel workers runs for as many steps as their measure
  allows, which is proved to be enough for all of them to end. The search for a free output name stops where its 32-bit
  index overflows.

  \<^bold>\<open>Not modelled.\<close> Log lines of transfers, but for those of \<open>progress.rs\<close>; permission bits; symbolic links and special files; a
  panic of a poisoned lock; Windows named pipes; the construction, layout and style of the widgets of the window, which are
  calls of the toolkit; the parser of the command line. A task of the daemon and a session of a seeder run in one step. In the
  sequential model a failing writer of a pipeline returns its error; that the other threads can then wait forever is
  shown in \<open>Etle_Pipeline\<close>. An \<open>f64\<close> is an exact fraction, since it is only shown, and its text is a parameter.
\<close>

end
